(* ===== verification/Prelude.thy ===== *)
theory Prelude
  imports Complex_Main
begin

text \<open>
  Shared vocabulary of the development: the Python exceptions the modelled code can raise,
  the result type its functions return, dictionaries as maps, and the small generic lemmas
  (on results, options, lists and maps) the component theories rely on.  Three fact
  collections are fed by the components: \<open>res_simps\<close> (unfolding the result monad),
  \<open>gate_defs\<close> (definitions that a decision unfolds to) and \<open>wf_intros\<close> (introduction
  rules of the well-formedness invariants).
\<close>

named_theorems res_simps \<open>equations of the result monad\<close>
named_theorems gate_defs \<open>definitions of decision procedures\<close>
named_theorems wf_intros \<open>introduction rules for well-formedness invariants\<close>

subsection \<open>Exceptions and results\<close>

text \<open>
  The exceptions the modelled functions raise.  The message of an exception is not part of
  the model: callers only look at its class.
\<close>

datatype py_error = ValueError | IndexError | KeyError | TypeError | ZeroDivisionError
  | OverflowError | InvalidOperation | RuntimeError | DatabaseError

type_synonym 'a res = "py_error + 'a"

abbreviation Ok :: "'a \<Rightarrow> 'a res" where "Ok \<equiv> Inr"

abbreviation Raise :: "py_error \<Rightarrow> 'a res" where "Raise \<equiv> Inl"

definition rbind :: "'a res \<Rightarrow> ('a \<Rightarrow> 'b res) \<Rightarrow> 'b res" where
  "rbind r k = (case r of Inl e \<Rightarrow> Inl e | Inr x \<Rightarrow> k x)"

definition rmap :: "('a \<Rightarrow> 'b) \<Rightarrow> 'a res \<Rightarrow> 'b res" where
  "rmap f r = rbind r (\<lambda>x. Ok (f x))"

lemma rbind_simps [simp, res_simps]:
  "rbind (Ok x) k = k x" "rbind (Raise e) k = Raise e"
  by (simp_all add: rbind_def)

lemma rmap_simps [simp, res_simps]:
  "rmap f (Ok x) = Ok (f x)" "rmap f (Raise e) = Raise e"
  by (simp_all add: rmap_def)

lemma rbind_Ok_iff [res_simps]:
  "rbind r k = Ok y \<longleftrightarrow> (\<exists>x. r = Ok x \<and> k x = Ok y)"
  by (cases r) auto

lemma rmap_Ok_iff [res_simps]:
  "rmap f r = Ok y \<longleftrightarrow> (\<exists>x. r = Ok x \<and> y = f x)"
  by (cases r) auto

text \<open>Running a fallible function over a list, stopping at the first exception.\<close>

fun rmapM :: "('a \<Rightarrow> 'b res) \<Rightarrow> 'a list \<Rightarrow> 'b list res" where
  "rmapM f [] = Ok []"
| "rmapM f (x # xs) = rbind (f x) (\<lambda>y. rbind (rmapM f xs) (\<lambda>ys. Ok (y # ys)))"

lemma rmapM_length: "rmapM f xs = Ok ys \<Longrightarrow> length ys = length xs"
  by (induction xs arbitrary: ys) (auto simp: res_simps)

subsection \<open>Lists\<close>

lemma filter_id_iff: "filter P xs = xs \<longleftrightarrow> list_all P xs"
  by (simp add: filter_id_conv list_all_iff)

text \<open>\<open>xs\<close> with the repeated elements removed, the first occurrence kept
  (\<^theory_text>\<open>dict.fromkeys\<close> and the append-if-absent loops of the code).\<close>

fun dedup_onto :: "'a list \<Rightarrow> 'a list \<Rightarrow> 'a list" where
  "dedup_onto acc [] = acc"
| "dedup_onto acc (x # xs) = (if x \<in> set acc then dedup_onto acc xs else dedup_onto (acc @ [x]) xs)"

lemma set_dedup_onto [simp]: "set (dedup_onto acc xs) = set acc \<union> set xs"
  by (induction acc xs rule: dedup_onto.induct) auto

lemma distinct_dedup_onto [simp]: "distinct (dedup_onto acc xs) = distinct acc"
  by (induction acc xs rule: dedup_onto.induct) auto

lemma find_first:
  "find P xs = Some x \<Longrightarrow> P x \<and> x \<in> set xs \<and> (\<exists>ys zs. xs = ys @ x # zs \<and> (\<forall>y \<in> set ys. \<not> P y))"
proof (induction xs)
  case (Cons a xs)
  show ?case
  proof (cases "P a")
    case True
    then show ?thesis using Cons.prems by force
  next
    case False
    with Cons obtain ys zs where "xs = ys @ x # zs" "\<forall>y \<in> set ys. \<not> P y" "P x" "x \<in> set xs" by auto
    with False have "P x \<and> x \<in> set (a # xs)" "a # xs = (a # ys) @ x # zs \<and> (\<forall>y \<in> set (a # ys). \<not> P y)" by auto
    then show ?thesis by blast
  qed
qed simp

subsection \<open>Maps\<close>

definition get_default :: "('k \<rightharpoonup> 'v) \<Rightarrow> 'k \<Rightarrow> 'v \<Rightarrow> 'v" where
  "get_default m k d = (case m k of None \<Rightarrow> d | Some v \<Rightarrow> v)"

lemma get_default_upd [simp]:
  "get_default (m(k \<mapsto> v)) k' d = (if k' = k then v else get_default m k' d)"
  by (simp add: get_default_def)

lemma get_default_empty [simp]: "get_default Map.empty k d = d"
  by (simp add: get_default_def)

end
