(* ===== verification/PyFloat.thy ===== *)
theory PyFloat
  imports Prelude
begin

text \<open>
  Python's numbers.  \<open>pyfloat\<close> is IEEE-754 binary64: a finite float is the rational it
  denotes, and every operation is the exact rational operation followed by rounding to
  nearest, ties to even (\<open>rnd\<close>), with overflow to the infinities.  Signed zero is not
  distinguished: the code never observes it.  The same rounding, in base 10 with 28 digits,
  is the default context of \<^theory_text>\<open>decimal.Decimal\<close>.

  The lemmas give what the components need of rounding: it is monotone, odd, idempotent,
  exact on small multiples of powers of two, and off by at most half a unit in the last
  place.
\<close>

subsection \<open>Integer logarithms\<close>

function natlog :: "int \<Rightarrow> int \<Rightarrow> nat" where
  "natlog b n = (if b \<le> 1 \<or> n < b then 0 else Suc (natlog b (n div b)))"
  by pat_completeness auto
termination
proof (relation "measure (\<lambda>(b, n). nat n)")
  fix b n :: int
  assume a: "\<not> (b \<le> 1 \<or> n < b)"
  then have "n div b < n" by (intro int_div_less_self) auto
  then show "((b, n div b), b, n) \<in> measure (\<lambda>(b, n). nat n)" using a by simp
qed simp

declare natlog.simps [simp del]

lemma natlog_bounds:
  "1 < b \<Longrightarrow> 0 < n \<Longrightarrow> b ^ natlog b n \<le> n \<and> n < b ^ Suc (natlog b n)"
proof (induction b n rule: natlog.induct)
  case (1 b n)
  show ?case
  proof (cases "b \<le> 1 \<or> n < b")
    case True
    then show ?thesis using 1 by (cases "b \<le> 1") (auto simp: natlog.simps [of b n])
  next
    case False
    then have b: "1 < b" and pos: "0 < n div b" by (auto simp: pos_imp_zdiv_pos_iff)
    from "1.IH" [OF False b pos] have
      lo: "b ^ natlog b (n div b) \<le> n div b" and hi: "n div b + 1 \<le> b ^ Suc (natlog b (n div b))"
      by auto
    have "b * b ^ natlog b (n div b) \<le> b * (n div b)" using lo b by (simp add: mult_left_mono)
    also have "\<dots> \<le> n" using b by (simp add: mult_div_mod_eq [symmetric] minus_mod_eq_mult_div [symmetric])
    finally have lo': "b ^ Suc (natlog b (n div b)) \<le> n" by simp
    have "b * (n div b + 1) \<le> b * b ^ Suc (natlog b (n div b))"
      using hi b by (intro mult_left_mono) auto
    moreover have "n < b * (n div b + 1)"
      using pos_mod_bound [of b n] b mult_div_mod_eq [of b n] unfolding distrib_left by linarith
    ultimately have "n < b ^ Suc (Suc (natlog b (n div b)))" by simp
    with lo' show ?thesis using False by (simp add: natlog.simps [of b n])
  qed
qed

text \<open>The exponent of the leading digit of a positive rational in base \<open>b\<close>.\<close>

definition ratlog :: "nat \<Rightarrow> rat \<Rightarrow> int" where
  "ratlog b x = (let (p, q) = quotient_of x;
                     k = int (natlog (int b) p) - int (natlog (int b) q)
                 in if of_nat b powi k \<le> x then k else k - 1)"

lemma ratlog_bounds:
  assumes b: "1 < b" and x: "0 < x"
  shows "of_nat b powi ratlog b x \<le> x" and "x < of_nat b powi (ratlog b x + 1)"
proof -
  obtain p q where pq: "quotient_of x = (p, q)" by force
  have q: "0 < q" using quotient_of_denom_pos [OF pq] .
  have xdiv: "x = of_int p / of_int q" using quotient_of_div [OF pq] .
  have p: "0 < p" using x q xdiv by (simp add: zero_less_divide_iff)
  define m n where "m = natlog (int b) p" and "n = natlog (int b) q"
  have b': "1 < int b" using b by simp
  have P: "int b ^ m \<le> p" "p < int b ^ Suc m"
    using natlog_bounds [OF b' p] by (auto simp: m_def)
  have Q: "int b ^ n \<le> q" "q < int b ^ Suc n"
    using natlog_bounds [OF b' q] by (auto simp: n_def)
  let ?B = "of_nat b :: rat"
  have B: "1 < ?B" using b by simp
  have P1: "?B ^ m \<le> of_int p" and P2: "of_int p < ?B ^ Suc m"
    using P by (metis of_int_le_iff of_int_of_nat_eq of_int_power, metis of_int_less_iff of_int_of_nat_eq of_int_power)
  have Q1: "?B ^ n \<le> of_int q" and Q2: "of_int q < ?B ^ Suc n"
    using Q by (metis of_int_le_iff of_int_of_nat_eq of_int_power, metis of_int_less_iff of_int_of_nat_eq of_int_power)
  have Bp: "0 < ?B ^ n" "0 < ?B ^ m" using B by auto
  have up: "x < ?B powi (int m - int n + 1)"
  proof -
    have "x < ?B ^ Suc m / of_int q" using P2 q xdiv by (simp add: divide_strict_right_mono)
    also have "\<dots> \<le> ?B ^ Suc m / ?B ^ n"
      using Q1 Bp B q by (intro divide_left_mono) (auto intro!: mult_pos_pos)
    also have "\<dots> = ?B powi (int m - int n + 1)"
      using B by (simp add: power_int_add power_int_diff)
    finally show ?thesis .
  qed
  have lo: "?B powi (int m - int n - 1) \<le> x"
  proof -
    have "?B powi (int m - int n - 1) = ?B ^ m / ?B ^ Suc n"
      using B by (simp add: power_int_diff power_int_add field_simps)
    also have "\<dots> \<le> ?B ^ m / of_int q"
      using Q2 Bp q B by (intro divide_left_mono) (auto intro!: mult_pos_pos)
    also have "\<dots> \<le> x" using P1 q xdiv by (simp add: divide_right_mono)
    finally show ?thesis .
  qed
  have r: "ratlog b x = (if ?B powi (int m - int n) \<le> x then int m - int n else int m - int n - 1)"
    by (simp add: ratlog_def pq m_def n_def Let_def)
  show "?B powi ratlog b x \<le> x" using lo r by auto
  show "x < ?B powi (ratlog b x + 1)" using up r by auto
qed

lemma powi_mono_base:
  assumes "1 < b" "m \<le> n"
  shows "(of_nat b :: rat) powi m \<le> of_nat b powi n"
  using assms by (intro power_int_increasing) auto

lemma ratlog_less_iff:
  assumes b: "1 < b" and x: "0 < x"
  shows "ratlog b x < k \<longleftrightarrow> x < of_nat b powi k"
proof
  assume "ratlog b x < k"
  then show "x < of_nat b powi k"
    using ratlog_bounds(2) [OF b x] powi_mono_base [OF b, of "ratlog b x + 1" k] by linarith
next
  assume a: "x < of_nat b powi k"
  show "ratlog b x < k"
  proof (rule ccontr)
    assume "\<not> ratlog b x < k"
    then have "of_nat b powi k \<le> (of_nat b powi ratlog b x :: rat)"
      using powi_mono_base [OF b, of k "ratlog b x"] by simp
    with a ratlog_bounds(1) [OF b x] show False by linarith
  qed
qed

lemma ratlog_mono: "1 < b \<Longrightarrow> 0 < x \<Longrightarrow> x \<le> y \<Longrightarrow> ratlog b x \<le> ratlog b y"
  using ratlog_less_iff [of b x "ratlog b y + 1"] ratlog_bounds(2) [of b y] by force

subsection \<open>Rounding to nearest, ties to even\<close>

definition round_half_even :: "rat \<Rightarrow> int" where
  "round_half_even x = (let f = \<lfloor>x\<rfloor>; d = x - of_int f in
     if d < 1 / 2 then f else if d > 1 / 2 then f + 1 else if even f then f else f + 1)"

lemma round_half_even_of_int [simp]: "round_half_even (of_int n) = n"
  by (simp add: round_half_even_def)

lemma round_half_even_close: "\<bar>of_int (round_half_even x) - x\<bar> \<le> 1 / 2"
proof -
  have "of_int \<lfloor>x\<rfloor> \<le> x" "x < of_int \<lfloor>x\<rfloor> + 1" by linarith+
  then show ?thesis by (auto simp: round_half_even_def Let_def)
qed

lemma round_half_even_mono:
  assumes "x \<le> y"
  shows "round_half_even x \<le> round_half_even y"
proof (cases "\<lfloor>x\<rfloor> = \<lfloor>y\<rfloor>")
  case True
  then show ?thesis using assms by (auto simp: round_half_even_def Let_def)
next
  case False
  then have "\<lfloor>x\<rfloor> + 1 \<le> \<lfloor>y\<rfloor>" using assms floor_mono [of x y] by linarith
  moreover have "round_half_even x \<le> \<lfloor>x\<rfloor> + 1" "\<lfloor>y\<rfloor> \<le> round_half_even y"
    by (auto simp: round_half_even_def Let_def)
  ultimately show ?thesis by linarith
qed

lemma round_half_even_le_int: "x \<le> of_int n \<Longrightarrow> round_half_even x \<le> n"
  using round_half_even_mono [of x "of_int n"] by simp

lemma int_le_round_half_even: "of_int n \<le> x \<Longrightarrow> n \<le> round_half_even x"
  using round_half_even_mono [of "of_int n" x] by simp

lemma round_half_even_uminus: "round_half_even (- x) = - round_half_even x"
proof (cases "x = of_int \<lfloor>x\<rfloor>")
  case True
  then show ?thesis by (metis of_int_minus round_half_even_of_int)
next
  case False
  have "\<lfloor>- x\<rfloor> = - \<lfloor>x\<rfloor> - 1"
    using False by (intro floor_unique; linarith)
  then show ?thesis by (auto simp: round_half_even_def Let_def)
qed

text \<open>
  \<open>round_to b p emin\<close> keeps \<open>p\<close> significant digits in base \<open>b\<close>; the exponent of the last
  place never falls below \<open>emin\<close> (gradual underflow).
\<close>

definition last_place :: "nat \<Rightarrow> nat \<Rightarrow> int \<Rightarrow> rat \<Rightarrow> int" where
  "last_place b p emin x = max (ratlog b x - int p + 1) emin"

definition round_to :: "nat \<Rightarrow> nat \<Rightarrow> int \<Rightarrow> rat \<Rightarrow> rat" where
  "round_to b p emin x = (if x = 0 then 0
     else let u = of_nat b powi last_place b p emin \<bar>x\<bar> in of_int (round_half_even (x / u)) * u)"

lemma round_to_0 [simp]: "round_to b p emin 0 = 0"
  by (simp add: round_to_def)

lemma round_to_uminus: "round_to b p emin (- x) = - round_to b p emin x"
  by (simp add: round_to_def Let_def round_half_even_uminus)

lemma round_to_nonneg: "0 \<le> x \<Longrightarrow> 0 \<le> round_to b p emin x"
  by (auto simp: round_to_def Let_def intro!: mult_nonneg_nonneg int_le_round_half_even)

lemma round_to_le_pow:
  assumes b: "1 < b" and x: "0 < x" and le: "x \<le> of_nat b powi k" and k: "last_place b p emin x \<le> k"
  shows "round_to b p emin x \<le> of_nat b powi k"
proof -
  let ?e = "last_place b p emin x"
  let ?u = "of_nat b powi ?e :: rat"
  have u: "0 < ?u" using b by simp
  have split: "of_nat b powi k = (of_nat b ^ nat (k - ?e)) * ?u"
    using b k by (simp add: power_int_add [symmetric] flip: power_int_of_nat)
  have "x / ?u \<le> of_int (int (b ^ nat (k - ?e)))"
    using le u unfolding split by (simp add: pos_divide_le_eq)
  then have "round_half_even (x / ?u) \<le> int (b ^ nat (k - ?e))" by (rule round_half_even_le_int)
  then have "(of_int (round_half_even (x / ?u)) :: rat) \<le> of_nat b ^ nat (k - ?e)"
    by (metis of_int_le_iff of_int_of_nat_eq of_nat_power)
  then show ?thesis using x u unfolding split by (simp add: round_to_def Let_def)
qed

lemma round_to_ge_pow:
  assumes b: "1 < b" and x: "0 < x" and le: "of_nat b powi k \<le> x" and k: "last_place b p emin x \<le> k"
  shows "of_nat b powi k \<le> round_to b p emin x"
proof -
  let ?e = "last_place b p emin x"
  let ?u = "of_nat b powi ?e :: rat"
  have u: "0 < ?u" using b by simp
  have split: "of_nat b powi k = (of_nat b ^ nat (k - ?e)) * ?u"
    using b k by (simp add: power_int_add [symmetric] flip: power_int_of_nat)
  have "of_int (int (b ^ nat (k - ?e))) \<le> x / ?u"
    using le u unfolding split by (simp add: pos_le_divide_eq)
  then have "int (b ^ nat (k - ?e)) \<le> round_half_even (x / ?u)" by (rule int_le_round_half_even)
  then have "of_nat b ^ nat (k - ?e) \<le> (of_int (round_half_even (x / ?u)) :: rat)"
    by (metis of_int_le_iff of_int_of_nat_eq of_nat_power)
  then show ?thesis using x u unfolding split by (simp add: round_to_def Let_def)
qed

lemma last_place_mono:
  "1 < b \<Longrightarrow> 0 < x \<Longrightarrow> x \<le> y \<Longrightarrow> last_place b p emin x \<le> last_place b p emin y"
  using ratlog_mono [of b x y] by (auto simp: last_place_def)

lemma round_to_mono_pos:
  assumes b: "1 < b" and p: "0 < p" and x: "0 < x" and xy: "x \<le> y"
  shows "round_to b p emin x \<le> round_to b p emin y"
proof (cases "last_place b p emin x = last_place b p emin y")
  case True
  have u: "0 < (of_nat b powi last_place b p emin y :: rat)" using b by simp
  from x xy have "0 < y" by linarith
  with True u x xy show ?thesis
    by (auto simp: round_to_def Let_def intro!: mult_right_mono round_half_even_mono divide_right_mono)
next
  case False
  define k where "k = last_place b p emin y + int p - 1"
  have lt: "last_place b p emin x < last_place b p emin y"
    using False last_place_mono [OF b x xy, of p emin] by linarith
  have y: "0 < y" using x xy by linarith
  from lt have ey: "last_place b p emin y = ratlog b y - int p + 1"
    by (auto simp: last_place_def split: if_splits)
  then have ky: "k = ratlog b y" by (simp add: k_def)
  have "ratlog b x < k"
    using lt by (auto simp: k_def last_place_def split: if_splits)
  then have xk: "x \<le> of_nat b powi k" using ratlog_less_iff [OF b x] by force
  have "round_to b p emin x \<le> of_nat b powi k"
    using round_to_le_pow [OF b x xk] lt p by (simp add: k_def)
  also have "\<dots> \<le> round_to b p emin y"
    using round_to_ge_pow [OF b y, of k] ratlog_bounds(1) [OF b y] p ky k_def by simp
  finally show ?thesis .
qed

lemma round_to_mono:
  assumes b: "1 < b" and p: "0 < p" and xy: "x \<le> y"
  shows "round_to b p emin x \<le> round_to b p emin y"
proof -
  consider "0 < x" | "x \<le> 0" "0 \<le> y" | "y < 0" using xy by linarith
  then show ?thesis
  proof cases
    case 1
    then show ?thesis using round_to_mono_pos [OF b p _ xy] by simp
  next
    case 2
    have "round_to b p emin x \<le> 0"
      using round_to_nonneg [of "- x" b p emin] 2 by (simp add: round_to_uminus)
    then show ?thesis using round_to_nonneg [of y b p emin] 2 by linarith
  next
    case 3
    then have "round_to b p emin (- y) \<le> round_to b p emin (- x)"
      using xy by (intro round_to_mono_pos [OF b p]) auto
    then show ?thesis by (simp add: round_to_uminus)
  qed
qed

text \<open>Exactness: a number of at most \<open>p\<close> digits is not changed.\<close>

lemma round_to_exact:
  assumes b: "1 < b" and m: "\<bar>m\<bar> < int b ^ p" and e: "emin \<le> e"
  shows "round_to b p emin (of_int m * of_nat b powi e) = of_int m * of_nat b powi e"
proof (cases "m = 0")
  case False
  let ?x = "of_int m * of_nat b powi e :: rat"
  have pos: "0 < (of_nat b powi e :: rat)" using b by simp
  have absx: "\<bar>?x\<bar> = of_int \<bar>m\<bar> * of_nat b powi e" using pos by (simp add: abs_mult)
  have "(of_int \<bar>m\<bar> :: rat) < of_int (int b ^ p)" using m by (simp only: of_int_less_iff)
  then have "\<bar>?x\<bar> < of_nat b ^ p * of_nat b powi e" using pos absx by (simp add: mult_strict_right_mono)
  also have "\<dots> = of_nat b powi (int p + e)" using b by (simp add: power_int_add)
  finally have lt: "\<bar>?x\<bar> < of_nat b powi (int p + e)" .
  have "0 < \<bar>?x\<bar>" using False b by simp
  then have "ratlog b \<bar>?x\<bar> < int p + e" using lt ratlog_less_iff [OF b] by blast
  then have "last_place b p emin \<bar>?x\<bar> \<le> e" using e by (simp add: last_place_def)
  moreover define L where "L = last_place b p emin \<bar>?x\<bar>"
  ultimately have le: "L \<le> e" by simp
  define u :: rat where "u = of_nat b powi L"
  define q where "q = m * int (b ^ nat (e - L))"
  have u: "0 < u" using b by (simp add: u_def)
  have "of_nat b powi e = (of_nat b ^ nat (e - L)) * u"
    using b le unfolding u_def by (simp add: power_int_add [symmetric] flip: power_int_of_nat)
  then have xu: "?x = of_int q * u" by (simp add: q_def)
  then have "?x / u = of_int q" using u by simp
  then have "round_half_even (?x / u) = q" by simp
  then have "round_to b p emin ?x = of_int q * u"
    using False b unfolding round_to_def L_def [symmetric] u_def [symmetric] Let_def by simp
  then show ?thesis using xu by simp
qed simp

text \<open>The rounding error is at most half a unit in the last place.\<close>

lemma round_to_error:
  assumes b: "1 < b" and x: "0 < x"
  shows "\<bar>round_to b p emin x - x\<bar> \<le> of_nat b powi last_place b p emin x / 2"
proof -
  let ?u = "of_nat b powi last_place b p emin x :: rat"
  have u: "0 < ?u" using b by simp
  have "round_to b p emin x - x = (of_int (round_half_even (x / ?u)) - x / ?u) * ?u"
    using x b by (simp add: round_to_def Let_def left_diff_distrib)
  then have "\<bar>round_to b p emin x - x\<bar> = \<bar>of_int (round_half_even (x / ?u)) - x / ?u\<bar> * ?u"
    using u by (simp add: abs_mult)
  also have "\<dots> \<le> 1 / 2 * ?u"
    using u by (intro mult_right_mono round_half_even_close) auto
  finally show ?thesis by simp
qed

text \<open>Every rounded number has at most \<open>p\<close> digits, so rounding twice changes nothing.\<close>

lemma round_to_digits:
  assumes b: "1 < b" and x: "0 < x"
  shows "of_int (round_half_even (x / of_nat b powi last_place b p emin x)) \<le> (of_nat b ^ p :: rat)"
proof -
  let ?L = "last_place b p emin x"
  have "ratlog b x < ?L + int p" by (simp add: last_place_def)
  then have "x < of_nat b powi (?L + int p)" using ratlog_less_iff [OF b x] by blast
  also have "\<dots> = of_int (int (b ^ p)) * of_nat b powi ?L" using b by (simp add: power_int_add)
  finally have "x / of_nat b powi ?L \<le> of_int (int (b ^ p))" using b by (simp add: pos_divide_le_eq)
  then have "round_half_even (x / of_nat b powi ?L) \<le> int (b ^ p)" by (rule round_half_even_le_int)
  then show ?thesis by (metis of_int_le_iff of_int_of_nat_eq of_nat_power)
qed

lemma round_to_idem_pos:
  assumes b: "1 < b" and p: "0 < p" and x: "0 < x"
  shows "round_to b p emin (round_to b p emin x) = round_to b p emin x"
proof -
  define L where "L = last_place b p emin x"
  define m where "m = round_half_even (x / of_nat b powi L)"
  have r: "round_to b p emin x = of_int m * of_nat b powi L"
    using x by (simp add: round_to_def L_def m_def Let_def)
  have e: "emin \<le> L" by (simp add: L_def last_place_def)
  have m0: "0 \<le> m" using x b unfolding m_def by (intro int_le_round_half_even) auto
  have "of_int m \<le> (of_nat b ^ p :: rat)"
    using round_to_digits [OF b x] by (simp add: m_def L_def)
  then have mle: "m \<le> int b ^ p" by (metis of_int_le_iff of_int_of_nat_eq of_nat_power of_int_power)
  show ?thesis
  proof (cases "m < int b ^ p")
    case True
    then show ?thesis unfolding r using m0 by (intro round_to_exact [OF b _ e]) auto
  next
    case False
    then have "of_int m = (of_nat b ^ p :: rat)" using mle by simp
    then have r': "round_to b p emin x = of_int 1 * of_nat b powi (int p + L)"
      unfolding r using b by (simp add: power_int_add)
    have "1 < int b ^ p" using b p by (simp add: one_less_power)
    then show ?thesis unfolding r' using e p by (intro round_to_exact [OF b]) auto
  qed
qed

lemma round_to_idem:
  assumes b: "1 < b" and p: "0 < p"
  shows "round_to b p emin (round_to b p emin x) = round_to b p emin x"
proof -
  consider "x = 0" | "0 < x" | "0 < - x" by linarith
  then show ?thesis
    by cases (use round_to_idem_pos [OF b p, of x emin] round_to_idem_pos [OF b p, of "- x" emin] in
        \<open>auto simp: round_to_uminus\<close>)
qed

subsection \<open>Binary64\<close>

datatype pyfloat = Fin rat | PInf | NInf | NaN

definition rnd :: "rat \<Rightarrow> rat" where
  "rnd x = round_to 2 53 (- 1074) x"

lemma rnd_0 [simp]: "rnd 0 = 0" by (simp add: rnd_def)
lemma rnd_mono: "x \<le> y \<Longrightarrow> rnd x \<le> rnd y" by (simp add: rnd_def round_to_mono)
lemma rnd_uminus: "rnd (- x) = - rnd x" by (simp add: rnd_def round_to_uminus)
lemma rnd_idem [simp]: "rnd (rnd x) = rnd x" by (simp add: rnd_def round_to_idem)
lemma rnd_nonneg: "0 \<le> x \<Longrightarrow> 0 \<le> rnd x" by (simp add: rnd_def round_to_nonneg)
lemma rnd_nonpos: "x \<le> 0 \<Longrightarrow> rnd x \<le> 0" using rnd_nonneg [of "- x"] by (simp add: rnd_uminus)

lemma rnd_dyadic:
  assumes "\<bar>m\<bar> < 2 ^ 53" "- 1074 \<le> e"
  shows "rnd (of_int m * 2 powi e) = of_int m * 2 powi e"
  using round_to_exact [of 2 m 53 "- 1074" e] assms by (simp add: rnd_def)

lemma rnd_of_int: "\<bar>m\<bar> < 2 ^ 53 \<Longrightarrow> rnd (of_int m) = of_int m"
  using rnd_dyadic [of m 0] by simp

lemma rnd_half_int: "\<bar>m\<bar> < 2 ^ 53 \<Longrightarrow> rnd (of_int m / 2) = of_int m / 2"
  using rnd_dyadic [of m "- 1"] by (simp add: power_int_minus field_simps)

lemma rnd_quarter_int: "\<bar>m\<bar> < 2 ^ 53 \<Longrightarrow> rnd (of_int m / 4) = of_int m / 4"
  using rnd_dyadic [of m "- 2"] by (simp add: power_int_minus field_simps)

lemma rnd_1 [simp]: "rnd 1 = 1" using rnd_of_int [of 1] by simp

lemma rnd_numeral: "numeral k < (2 ^ 53 :: int) \<Longrightarrow> rnd (numeral k) = numeral k"
  using rnd_of_int [of "numeral k"] by simp

text \<open>A representable number bounds the rounding of everything on its side.\<close>

lemma rnd_le_rep: "rnd y = y \<Longrightarrow> x \<le> y \<Longrightarrow> rnd x \<le> y" using rnd_mono [of x y] by simp
lemma rep_le_rnd: "rnd x = x \<Longrightarrow> x \<le> y \<Longrightarrow> x \<le> rnd y" using rnd_mono [of x y] by simp

definition f64 :: "rat \<Rightarrow> pyfloat" where
  "f64 x = (let r = rnd x in if \<bar>r\<bar> < 2 ^ 1024 then Fin r else if 0 < r then PInf else NInf)"

text \<open>The finite floats: representable and in range.\<close>

definition is_f64 :: "rat \<Rightarrow> bool" where
  "is_f64 x \<longleftrightarrow> rnd x = x \<and> \<bar>x\<bar> < 2 ^ 1024"

definition wf_float :: "pyfloat \<Rightarrow> bool" where
  "wf_float f = (case f of Fin x \<Rightarrow> is_f64 x | _ \<Rightarrow> True)"

lemma f64_rep: "is_f64 x \<Longrightarrow> f64 x = Fin x"
  by (simp add: f64_def is_f64_def Let_def)

lemma f64_FinD: "f64 x = Fin r \<Longrightarrow> r = rnd x \<and> is_f64 r"
  by (auto simp: f64_def is_f64_def Let_def split: if_splits)

lemma wf_f64 [wf_intros]: "wf_float (f64 x)"
  by (auto simp: wf_float_def f64_def is_f64_def Let_def)

lemma f64_Fin_between:
  assumes "is_f64 a" "is_f64 b" "a \<le> x" "x \<le> b"
  shows "f64 x = Fin (rnd x)" and "a \<le> rnd x" and "rnd x \<le> b" and "is_f64 (rnd x)"
proof -
  show lo: "a \<le> rnd x" and hi: "rnd x \<le> b"
    using assms by (auto simp: is_f64_def intro: rnd_le_rep rep_le_rnd)
  then have "\<bar>rnd x\<bar> < 2 ^ 1024" using assms by (auto simp: is_f64_def abs_if split: if_splits)
  then show "f64 x = Fin (rnd x)" "is_f64 (rnd x)" by (simp_all add: f64_def is_f64_def)
qed

lemma big_range: "(9007199254740992 :: rat) \<le> 2 ^ 1024"
proof -
  have "(2 :: rat) ^ 53 \<le> 2 ^ 1024" by (rule power_increasing) auto
  then show ?thesis by simp
qed

lemma is_f64_of_int: "\<bar>m\<bar> < 2 ^ 53 \<Longrightarrow> is_f64 (of_int m)"
proof -
  assume a: "\<bar>m\<bar> < 2 ^ 53"
  then have "\<bar>of_int m :: rat\<bar> < of_int (2 ^ 53)" by (simp only: of_int_abs [symmetric] of_int_less_iff)
  then show ?thesis using rnd_of_int [OF a] big_range by (simp add: is_f64_def)
qed

lemma is_f64_quarter: "\<bar>m\<bar> < 2 ^ 53 \<Longrightarrow> is_f64 (of_int m / 4)"
proof -
  assume a: "\<bar>m\<bar> < 2 ^ 53"
  then have "\<bar>of_int m :: rat\<bar> < of_int (2 ^ 53)" by (simp only: of_int_abs [symmetric] of_int_less_iff)
  then show ?thesis using rnd_quarter_int [OF a] big_range by (simp add: is_f64_def)
qed

lemma is_f64_0 [simp]: "is_f64 0" using is_f64_of_int [of 0] by simp
lemma is_f64_1 [simp]: "is_f64 1" using is_f64_of_int [of 1] by simp

lemma is_f64_uminus: "is_f64 x \<Longrightarrow> is_f64 (- x)"
  by (simp add: is_f64_def rnd_uminus)

subsection \<open>Float operations\<close>

definition isfinite :: "pyfloat \<Rightarrow> bool" where
  "isfinite f = (case f of Fin _ \<Rightarrow> True | _ \<Rightarrow> False)"

fun f_neg :: "pyfloat \<Rightarrow> pyfloat" where
  "f_neg (Fin a) = Fin (- a)"
| "f_neg PInf = NInf"
| "f_neg NInf = PInf"
| "f_neg NaN = NaN"

fun f_abs :: "pyfloat \<Rightarrow> pyfloat" where
  "f_abs (Fin a) = Fin \<bar>a\<bar>"
| "f_abs PInf = PInf"
| "f_abs NInf = PInf"
| "f_abs NaN = NaN"

fun f_add :: "pyfloat \<Rightarrow> pyfloat \<Rightarrow> pyfloat" where
  "f_add (Fin a) (Fin b) = f64 (a + b)"
| "f_add NaN _ = NaN"
| "f_add _ NaN = NaN"
| "f_add PInf NInf = NaN"
| "f_add NInf PInf = NaN"
| "f_add PInf _ = PInf"
| "f_add _ PInf = PInf"
| "f_add NInf _ = NInf"
| "f_add _ NInf = NInf"

definition f_sub :: "pyfloat \<Rightarrow> pyfloat \<Rightarrow> pyfloat" where
  "f_sub a b = f_add a (f_neg b)"

text \<open>Infinity times a number of the given sign.\<close>

definition inf_times :: "bool \<Rightarrow> rat \<Rightarrow> pyfloat" where
  "inf_times pos a = (if a = 0 then NaN else if (0 < a) = pos then PInf else NInf)"

fun f_mul :: "pyfloat \<Rightarrow> pyfloat \<Rightarrow> pyfloat" where
  "f_mul (Fin a) (Fin b) = f64 (a * b)"
| "f_mul NaN _ = NaN"
| "f_mul _ NaN = NaN"
| "f_mul PInf (Fin b) = inf_times True b"
| "f_mul NInf (Fin b) = inf_times False b"
| "f_mul (Fin a) PInf = inf_times True a"
| "f_mul (Fin a) NInf = inf_times False a"
| "f_mul PInf PInf = PInf"
| "f_mul NInf NInf = PInf"
| "f_mul PInf NInf = NInf"
| "f_mul NInf PInf = NInf"

text \<open>Division raises on a zero divisor, whatever the dividend.\<close>

fun f_div :: "pyfloat \<Rightarrow> pyfloat \<Rightarrow> pyfloat res" where
  "f_div x (Fin b) = (if b = 0 then Raise ZeroDivisionError else
     (case x of Fin a \<Rightarrow> Ok (f64 (a / b)) | NaN \<Rightarrow> Ok NaN
      | PInf \<Rightarrow> Ok (inf_times True b) | NInf \<Rightarrow> Ok (inf_times False b)))"
| "f_div (Fin _) PInf = Ok (Fin 0)"
| "f_div (Fin _) NInf = Ok (Fin 0)"
| "f_div _ _ = Ok NaN"

fun f_le :: "pyfloat \<Rightarrow> pyfloat \<Rightarrow> bool" where
  "f_le (Fin a) (Fin b) \<longleftrightarrow> a \<le> b"
| "f_le NaN _ \<longleftrightarrow> False"
| "f_le _ NaN \<longleftrightarrow> False"
| "f_le NInf _ \<longleftrightarrow> True"
| "f_le _ PInf \<longleftrightarrow> True"
| "f_le _ _ \<longleftrightarrow> False"

fun f_eq :: "pyfloat \<Rightarrow> pyfloat \<Rightarrow> bool" where
  "f_eq NaN _ \<longleftrightarrow> False"
| "f_eq a b \<longleftrightarrow> a = b"

definition f_lt :: "pyfloat \<Rightarrow> pyfloat \<Rightarrow> bool" where
  "f_lt a b \<longleftrightarrow> f_le a b \<and> \<not> f_eq a b"

text \<open>The built-in \<open>max\<close> and \<open>min\<close> of two floats keep the first argument unless the second
  compares strictly better; so they are not symmetric in the presence of NaN.\<close>

definition f_max :: "pyfloat \<Rightarrow> pyfloat \<Rightarrow> pyfloat" where
  "f_max a b = (if f_lt a b then b else a)"

definition f_min :: "pyfloat \<Rightarrow> pyfloat \<Rightarrow> pyfloat" where
  "f_min a b = (if f_lt b a then b else a)"

lemma isfinite_iff: "isfinite f \<longleftrightarrow> (\<exists>a. f = Fin a)"
  by (cases f) (auto simp: isfinite_def)

lemma isfinite_simps [simp]:
  "isfinite (Fin a)" "\<not> isfinite PInf" "\<not> isfinite NInf" "\<not> isfinite NaN"
  by (simp_all add: isfinite_def)

lemma f_lt_Fin [simp]: "f_lt (Fin a) (Fin b) \<longleftrightarrow> a < b"
  by (auto simp: f_lt_def)

lemma f_lt_special [simp]:
  "\<not> f_lt NaN x" "\<not> f_lt x NaN" "\<not> f_lt PInf x" "\<not> f_lt x NInf"
  "f_lt (Fin a) PInf" "f_lt NInf (Fin a)" "f_lt NInf PInf"
  by (cases x; simp add: f_lt_def)+

lemma f_le_NaN [simp]: "\<not> f_le a NaN" by (cases a) simp_all

lemma f_sub_Fin [simp]: "f_sub (Fin a) (Fin b) = f64 (a - b)"
  by (simp add: f_sub_def)

lemma f_min_Fin [simp]: "f_min (Fin a) (Fin b) = Fin (min a b)"
  by (simp add: f_min_def)

lemma f_max_Fin [simp]: "f_max (Fin a) (Fin b) = Fin (max a b)"
  by (simp add: f_max_def)

lemma f_le_trans: "f_le a b \<Longrightarrow> f_le b c \<Longrightarrow> f_le a c"
  by (cases a; cases b; cases c) simp_all

lemma f_min_le: "b \<noteq> NaN \<Longrightarrow> a \<noteq> NaN \<Longrightarrow> f_le (f_min a b) a \<and> f_le (f_min a b) b"
  by (cases a; cases b) (auto simp: f_min_def f_lt_def)

lemma f64_cases: "f64 x = Fin (rnd x) \<or> f64 x = PInf \<and> 0 < x \<or> f64 x = NInf \<and> x < 0"
proof -
  have "0 < rnd x \<Longrightarrow> 0 < x" using rnd_nonpos [of x] by force
  moreover have "rnd x < 0 \<Longrightarrow> x < 0" using rnd_nonneg [of x] by force
  moreover have "\<not> 0 < rnd x \<Longrightarrow> \<not> \<bar>rnd x\<bar> < 2 ^ 1024 \<Longrightarrow> rnd x < 0" by (cases "rnd x = 0") auto
  ultimately show ?thesis by (auto simp: f64_def Let_def)
qed

lemma f64_mono: "x \<le> y \<Longrightarrow> f_le (f64 x) (f64 y)"
proof -
  assume a: "x \<le> y"
  note m = rnd_mono [OF a]
  show ?thesis
    using m by (auto simp: f64_def Let_def abs_if split: if_splits)
qed

lemma f_lt_asym: "f_lt a b \<Longrightarrow> \<not> f_lt b a"
  by (cases a; cases b) simp_all

subsection \<open>Integers and floats\<close>

definition float_of_int :: "int \<Rightarrow> pyfloat res" where
  "float_of_int n = (case f64 (of_int n) of Fin r \<Rightarrow> Ok (Fin r) | _ \<Rightarrow> Raise OverflowError)"

lemma float_of_int_small: "\<bar>n\<bar> < 2 ^ 53 \<Longrightarrow> float_of_int n = Ok (Fin (of_int n))"
  by (simp add: float_of_int_def f64_rep is_f64_of_int)

text \<open>Comparisons of an \<open>int\<close> with a \<open>float\<close> are exact.\<close>

definition int_eq_float :: "int \<Rightarrow> pyfloat \<Rightarrow> bool" where
  "int_eq_float n f = (case f of Fin a \<Rightarrow> of_int n = a | _ \<Rightarrow> False)"

definition int_gt_float :: "int \<Rightarrow> pyfloat \<Rightarrow> bool" where
  "int_gt_float n f = (case f of Fin a \<Rightarrow> of_int n > a | NInf \<Rightarrow> True | _ \<Rightarrow> False)"

definition float_gt_int :: "pyfloat \<Rightarrow> int \<Rightarrow> bool" where
  "float_gt_int f n = (case f of Fin a \<Rightarrow> a > of_int n | PInf \<Rightarrow> True | _ \<Rightarrow> False)"

definition is_integer :: "pyfloat \<Rightarrow> bool" where
  "is_integer f = (case f of Fin a \<Rightarrow> a = of_int \<lfloor>a\<rfloor> | _ \<Rightarrow> False)"

text \<open>\<^theory_text>\<open>round(x, n)\<close>: the nearest decimal with \<open>n\<close> places, ties to even on the exact value.\<close>

definition round_places :: "nat \<Rightarrow> pyfloat \<Rightarrow> pyfloat" where
  "round_places n f = (case f of Fin a \<Rightarrow> f64 (of_int (round_half_even (a * 10 ^ n)) / 10 ^ n) | _ \<Rightarrow> f)"

text \<open>Arithmetic on quarters is exact.\<close>

lemma f64_quarter: "\<bar>m\<bar> < 2 ^ 53 \<Longrightarrow> f64 (of_int m / 4) = Fin (of_int m / 4)"
  by (rule f64_rep) (rule is_f64_quarter)

lemma f_add_quarter:
  "\<bar>m + n\<bar> < 2 ^ 53 \<Longrightarrow> f_add (Fin (of_int m / 4)) (Fin (of_int n / 4)) = Fin (of_int (m + n) / 4)"
  using f64_quarter [of "m + n"] by (simp add: add_divide_distrib)

lemma f_sub_quarter:
  "\<bar>m - n\<bar> < 2 ^ 53 \<Longrightarrow> f_sub (Fin (of_int m / 4)) (Fin (of_int n / 4)) = Fin (of_int (m - n) / 4)"
  using f64_quarter [of "m - n"] by (simp add: diff_divide_distrib)

lemma f_double_quarter:
  "\<bar>2 * m\<bar> < 2 ^ 53 \<Longrightarrow> f_mul (Fin (of_int m / 4)) (Fin 2) = Fin (of_int (2 * m) / 4)"
  using f64_quarter [of "2 * m"] by simp

lemma float_of_int_quarter: "\<bar>n\<bar> < 2 ^ 50 \<Longrightarrow> float_of_int n = Ok (Fin (of_int (4 * n) / 4))"
  using float_of_int_small [of n] by simp

lemma is_integer_half: "is_integer (Fin (of_int (2 * m) / 4)) \<longleftrightarrow> even m"
proof
  assume "is_integer (Fin (of_int (2 * m) / 4))"
  then have "(of_int (2 * m) / 4 :: rat) = of_int \<lfloor>of_int (2 * m) / 4 :: rat\<rfloor>" by (simp add: is_integer_def)
  then have "(of_int m :: rat) = of_int (2 * \<lfloor>of_int (2 * m) / 4 :: rat\<rfloor>)" by (simp add: field_simps)
  then show "even m" by (metis dvd_triv_left of_int_eq_iff)
next
  assume "even m"
  then obtain k where "m = 2 * k" by (rule evenE)
  then show "is_integer (Fin (of_int (2 * m) / 4))" by (simp add: is_integer_def)
qed

lemma is_integer_quarter4: "is_integer (Fin (of_int (4 * m) / 4))"
  by (simp add: is_integer_def)

subsection \<open>Decimal\<close>

text \<open>
  A finite \<open>Decimal\<close> is the rational it denotes; arithmetic in the default context rounds to
  28 digits, ties to even (\<open>Etiny\<close> is \<open>- 999999 - 27\<close>).  \<open>quantize\<close> to cents raises
  \<open>InvalidOperation\<close> when the result needs more than 28 digits.
\<close>

definition dec :: "rat \<Rightarrow> rat" where
  "dec x = round_to 10 28 (- 1000026) x"

lemma dec_mono: "x \<le> y \<Longrightarrow> dec x \<le> dec y" by (simp add: dec_def round_to_mono)
lemma dec_0 [simp]: "dec 0 = 0" by (simp add: dec_def)
lemma dec_uminus: "dec (- x) = - dec x" by (simp add: dec_def round_to_uminus)
lemma dec_nonneg: "0 \<le> x \<Longrightarrow> 0 \<le> dec x" by (simp add: dec_def round_to_nonneg)

lemma dec_idem [simp]: "dec (dec x) = dec x" by (simp add: dec_def round_to_idem)

lemma dec_exact:
  assumes "\<bar>m\<bar> < 10 ^ 28" "- 1000026 \<le> e"
  shows "dec (of_int m * 10 powi e) = of_int m * 10 powi e"
  using round_to_exact [of 10 m 28 "- 1000026" e] assms by (simp add: dec_def)

lemma dec_cents:
  assumes "\<bar>m\<bar> < 10 ^ 28"
  shows "dec (of_int m / 100) = of_int m / 100"
proof -
  have e: "(10 :: rat) powi (- 2) = 1 / 100" by (simp add: power_int_def power2_eq_square)
  have "(- 1000026 :: int) \<le> - 2" by simp
  from dec_exact [OF assms this] show ?thesis unfolding e times_divide_eq_right mult_1_right .
qed

definition cents_of :: "int \<Rightarrow> rat res" where
  "cents_of n = (if \<bar>n\<bar> < 10 ^ 28 then Ok (of_int n / 100) else Raise InvalidOperation)"

definition quantize_cents :: "rat \<Rightarrow> rat res" where
  "quantize_cents x = cents_of (round_half_even (x * 100))"

definition round_half_up :: "rat \<Rightarrow> int" where
  "round_half_up x = (if 0 \<le> x then \<lfloor>x + 1 / 2\<rfloor> else - \<lfloor>- x + 1 / 2\<rfloor>)"

definition quantize_cents_half_up :: "rat \<Rightarrow> rat res" where
  "quantize_cents_half_up x = cents_of (round_half_up (x * 100))"

text \<open>
  \<^theory_text>\<open>repr\<close> of a finite float: the decimal with the fewest significant digits that reads back as
  the same float, the closest such where two of that length do.
\<close>

definition repr_cands :: "rat \<Rightarrow> nat \<Rightarrow> rat list" where
  "repr_cands x p = (let u = 10 powi (ratlog 10 \<bar>x\<bar> - int p + 1); lo = of_int \<lfloor>x / u\<rfloor> * u; hi = lo + u
     in filter (\<lambda>c. rnd c = x) (if x - lo \<le> hi - x then [lo, hi] else [hi, lo]))"

fun repr_from :: "rat \<Rightarrow> nat \<Rightarrow> nat \<Rightarrow> rat" where
  "repr_from x p 0 = x"
| "repr_from x p (Suc n) = (case repr_cands x p of c # _ \<Rightarrow> c | [] \<Rightarrow> repr_from x (Suc p) n)"

definition repr_float :: "rat \<Rightarrow> rat" where
  "repr_float x = (if x = 0 then 0 else repr_from x 1 17)"

lemma repr_from_roundtrip: "rnd x = x \<Longrightarrow> rnd (repr_from x p n) = x"
proof (induction x p n rule: repr_from.induct)
  case (2 x p n)
  show ?case
  proof (cases "repr_cands x p")
    case Nil
    with 2 show ?thesis by simp
  next
    case (Cons c cs)
    then have "c \<in> set (repr_cands x p)" by simp
    then have "rnd c = x" by (simp only: repr_cands_def Let_def set_filter mem_Collect_eq)
    with Cons show ?thesis by simp
  qed
qed simp

lemma repr_float_roundtrip: "is_f64 x \<Longrightarrow> f64 (repr_float x) = Fin x"
  using repr_from_roundtrip [of x 1 17] by (auto simp: f64_def is_f64_def repr_float_def Let_def)

subsection \<open>Code equations\<close>

text \<open>Powers of the base as integer powers, so that the kernel evaluates a rounding quickly.\<close>

definition bpow :: "nat \<Rightarrow> int \<Rightarrow> rat" where
  "bpow b k = (if 0 \<le> k then of_int (int b ^ nat k) else Fract 1 (int b ^ nat (- k)))"

lemma bpow: "of_nat b powi k = bpow b k"
  by (auto simp: bpow_def power_int_def Fract_of_int_quotient power_inverse divide_inverse)

lemma ratlog_code [code]:
  "ratlog b x = (let (p, q) = quotient_of x;
                     k = int (natlog (int b) p) - int (natlog (int b) q)
                 in if bpow b k \<le> x then k else k - 1)"
  by (simp add: ratlog_def bpow)

lemma round_to_code [code]:
  "round_to b p emin x = (if x = 0 then 0
     else let u = bpow b (last_place b p emin \<bar>x\<bar>) in of_int (round_half_even (x / u)) * u)"
  by (simp add: round_to_def bpow)

lemma f64_code [code]:
  "f64 x = (let r = rnd x in
     if \<bar>r\<bar> < of_int (2 ^ 1024) then Fin r else if 0 < r then PInf else NInf)"
  by (simp add: f64_def Let_def)

lemma is_f64_code [code]: "is_f64 x \<longleftrightarrow> rnd x = x \<and> \<bar>x\<bar> < of_int (2 ^ 1024)"
  by (simp add: is_f64_def)

end
