(* ===== verification/PyText.thy ===== *)
theory PyText
  imports PyFloat
begin

text \<open>
  Python's \<open>str\<close>, for text of code points below 256: a \<open>char\<close> is a code point, so \<open>string\<close>
  is a \<open>str\<close>, and on these code points every operation below (whitespace, letters, lower case,
  the NFKD decomposition followed by \<^theory_text>\<open>encode("ascii", "ignore")\<close>, splitting, the digit classes
  of \<open>re\<close>) is the one of the standard library, written out.  The lemmas say what splitting
  and joining do to each other and that decimal text reads back as the number it denotes.
\<close>

subsection \<open>Characters\<close>

definition code :: "char \<Rightarrow> nat" where
  "code c = of_char c"

definition is_space :: "char \<Rightarrow> bool" where
  "is_space c = (let n = code c in 9 \<le> n \<and> n \<le> 13 \<or> 28 \<le> n \<and> n \<le> 32 \<or> n = 133 \<or> n = 160)"

definition is_digit :: "char \<Rightarrow> bool" where
  "is_digit c = (let n = code c in 48 \<le> n \<and> n \<le> 57)"

definition is_upper_ascii :: "char \<Rightarrow> bool" where
  "is_upper_ascii c = (let n = code c in 65 \<le> n \<and> n \<le> 90)"

definition is_lower_ascii :: "char \<Rightarrow> bool" where
  "is_lower_ascii c = (let n = code c in 97 \<le> n \<and> n \<le> 122)"

definition is_ascii :: "char \<Rightarrow> bool" where
  "is_ascii c = (code c < 128)"

text \<open>\<open>str.isalnum\<close> on ASCII characters, the only ones it is asked about.\<close>

definition is_alnum_ascii :: "char \<Rightarrow> bool" where
  "is_alnum_ascii c = (is_digit c \<or> is_upper_ascii c \<or> is_lower_ascii c)"

definition is_alpha :: "char \<Rightarrow> bool" where
  "is_alpha c = (let n = code c in is_upper_ascii c \<or> is_lower_ascii c \<or> n = 170 \<or> n = 181 \<or> n = 186
     \<or> 192 \<le> n \<and> n \<noteq> 215 \<and> n \<noteq> 247)"

definition lower_char :: "char \<Rightarrow> char" where
  "lower_char c = (let n = code c in
     if is_upper_ascii c \<or> 192 \<le> n \<and> n \<le> 222 \<and> n \<noteq> 215 then char_of (n + 32) else c)"

definition lower :: "string \<Rightarrow> string" where
  "lower s = map lower_char s"

text \<open>NFKD, then the characters outside ASCII dropped.\<close>

definition nfkd_ascii_char :: "char \<Rightarrow> string" where
  "nfkd_ascii_char c = (let n = code c in
     if n < 128 then [c]
     else if n = 160 \<or> n = 168 \<or> n = 175 \<or> n = 180 \<or> n = 184 then '' ''
     else if n = 170 then ''a'' else if n = 186 then ''o''
     else if n = 178 then ''2'' else if n = 179 then ''3'' else if n = 185 then ''1''
     else if n = 188 then ''14'' else if n = 189 then ''12'' else if n = 190 then ''34''
     else if 192 \<le> n \<and> n \<le> 197 then ''A'' else if n = 199 then ''C''
     else if 200 \<le> n \<and> n \<le> 203 then ''E'' else if 204 \<le> n \<and> n \<le> 207 then ''I''
     else if n = 209 then ''N'' else if 210 \<le> n \<and> n \<le> 214 then ''O''
     else if 217 \<le> n \<and> n \<le> 220 then ''U'' else if n = 221 then ''Y''
     else if 224 \<le> n \<and> n \<le> 229 then ''a'' else if n = 231 then ''c''
     else if 232 \<le> n \<and> n \<le> 235 then ''e'' else if 236 \<le> n \<and> n \<le> 239 then ''i''
     else if n = 241 then ''n'' else if 242 \<le> n \<and> n \<le> 246 then ''o''
     else if 249 \<le> n \<and> n \<le> 252 then ''u'' else if n = 253 \<or> n = 255 then ''y''
     else [])"

definition nfkd_ascii :: "string \<Rightarrow> string" where
  "nfkd_ascii s = concat (map nfkd_ascii_char s)"

subsection \<open>Splitting, joining, searching\<close>

text \<open>The maximal runs of characters that do not satisfy \<open>p\<close>.\<close>

fun tok :: "(char \<Rightarrow> bool) \<Rightarrow> string \<Rightarrow> string \<Rightarrow> string list" where
  "tok p cur [] = (if cur = [] then [] else [cur])"
| "tok p cur (c # cs) =
     (if p c then (if cur = [] then tok p [] cs else cur # tok p [] cs) else tok p (cur @ [c]) cs)"

definition split_ws :: "string \<Rightarrow> string list" where
  "split_ws s = tok is_space [] s"

fun join_sp :: "string list \<Rightarrow> string" where
  "join_sp [] = []"
| "join_sp [t] = t"
| "join_sp (t # u # ts) = t @ '' '' @ join_sp (u # ts)"

definition strip :: "string \<Rightarrow> string" where
  "strip s = rev (dropWhile is_space (rev (dropWhile is_space s)))"

definition startswith :: "string \<Rightarrow> string \<Rightarrow> bool" where
  "startswith p s = (take (length p) s = p)"

definition endswith :: "string \<Rightarrow> string \<Rightarrow> bool" where
  "endswith p s = startswith (rev p) (rev s)"

fun contains :: "string \<Rightarrow> string \<Rightarrow> bool" where
  "contains p [] = (p = [])"
| "contains p (c # cs) = (startswith p (c # cs) \<or> contains p cs)"

text \<open>\<^theory_text>\<open>s.split(sep)\<close> for a separator that is not empty.\<close>

function split_sep :: "string \<Rightarrow> string \<Rightarrow> string \<Rightarrow> string list" where
  "split_sep sep cur s = (if s = [] then [cur]
     else if sep \<noteq> [] \<and> startswith sep s then cur # split_sep sep [] (drop (length sep) s)
     else split_sep sep (cur @ [hd s]) (tl s))"
  by pat_completeness auto
termination
  by (relation "measure (\<lambda>(sep, cur, s). length s)") (auto simp: startswith_def)

declare split_sep.simps [simp del]

definition split_on :: "string \<Rightarrow> string \<Rightarrow> string list" where
  "split_on sep s = split_sep sep [] s"

text \<open>\<^theory_text>\<open>s.rpartition(" ")\<close>, without the middle component.\<close>

definition rpartition_sp :: "string \<Rightarrow> string \<times> string" where
  "rpartition_sp s = (let r = rev s; last = takeWhile (\<lambda>c. c \<noteq> CHR '' '') r;
       rest = dropWhile (\<lambda>c. c \<noteq> CHR '' '') r
     in if rest = [] then ([], s) else (rev (tl rest), rev last))"

subsection \<open>Numbers in text\<close>

definition digit_val :: "char \<Rightarrow> int" where
  "digit_val c = int (code c) - 48"

definition digits_val :: "string \<Rightarrow> int" where
  "digits_val ds = foldl (\<lambda>a c. 10 * a + digit_val c) 0 ds"

text \<open>A match of the regular expression \<^verbatim>\<open>\d+(?:\.\d+)?\<close>, as the number it denotes.\<close>

definition parse_unsigned :: "string \<Rightarrow> rat option" where
  "parse_unsigned s = (let a = takeWhile is_digit s; r = dropWhile is_digit s in
     if a = [] then None
     else case r of [] \<Rightarrow> Some (of_int (digits_val a))
       | c # b \<Rightarrow> if c = CHR ''.'' \<and> b \<noteq> [] \<and> list_all is_digit b
                 then Some (of_int (digits_val a) + of_int (digits_val b) / 10 ^ length b)
                 else None)"

text \<open>A match of \<^verbatim>\<open>[+-]\d+(?:\.\d+)?\<close>.\<close>

definition parse_signed :: "string \<Rightarrow> rat option" where
  "parse_signed s = (case s of [] \<Rightarrow> None
     | c # r \<Rightarrow> if c = CHR ''+'' then parse_unsigned r
              else if c = CHR ''-'' then map_option uminus (parse_unsigned r) else None)"

text \<open>A match of \<^verbatim>\<open>[+-]?\d+(?:\.\d+)?\<close>.\<close>

definition parse_opt_signed :: "string \<Rightarrow> rat option" where
  "parse_opt_signed s = (case parse_signed s of Some x \<Rightarrow> Some x | None \<Rightarrow> parse_unsigned s)"

fun show_nat :: "nat \<Rightarrow> string" where
  "show_nat n = (if n < 10 then [char_of (48 + n)] else show_nat (n div 10) @ [char_of (48 + n mod 10)])"

declare show_nat.simps [simp del]

subsection \<open>Splitting and joining\<close>

lemma tok_skip: "list_all (\<lambda>c. \<not> p c) t \<Longrightarrow> tok p cur (t @ s) = tok p (cur @ t) s"
  by (induction t arbitrary: cur) auto

lemma tok_clean:
  "list_all (\<lambda>c. \<not> p c) cur \<Longrightarrow> t \<in> set (tok p cur s) \<Longrightarrow>
     t \<noteq> [] \<and> list_all (\<lambda>c. \<not> p c) t \<and> set t \<subseteq> set cur \<union> set s"
  by (induction p cur s rule: tok.induct) (fastforce split: if_splits)+

text \<open>A word: not empty and without white space.\<close>

definition is_word :: "string \<Rightarrow> bool" where
  "is_word t \<longleftrightarrow> t \<noteq> [] \<and> list_all (\<lambda>c. \<not> is_space c) t"

lemma split_ws_words: "t \<in> set (split_ws s) \<Longrightarrow> is_word t"
  using tok_clean [of is_space "[]" t s] by (simp add: split_ws_def is_word_def)

lemma split_ws_chars: "t \<in> set (split_ws s) \<Longrightarrow> set t \<subseteq> set s"
  using tok_clean [of is_space "[]" t s] by (simp add: split_ws_def)

lemma is_space_blank [simp]: "is_space CHR '' ''"
  by (simp add: is_space_def code_def)

lemma split_ws_join_sp:
  assumes "list_all is_word ts"
  shows "split_ws (join_sp ts) = ts"
  unfolding split_ws_def using assms
proof (induction ts rule: join_sp.induct)
  case (2 t)
  then show ?case using tok_skip [of is_space t "[]" "[]"] by (simp add: is_word_def)
next
  case (3 t u ts)
  then show ?case
    using tok_skip [of is_space t "[]" "'' '' @ join_sp (u # ts)"] by (simp add: is_word_def)
qed simp

lemma join_sp_inj: "list_all is_word ts \<Longrightarrow> list_all is_word us \<Longrightarrow> join_sp ts = join_sp us \<longleftrightarrow> ts = us"
  by (metis split_ws_join_sp)

lemma set_join_sp: "set (join_sp ts) \<subseteq> insert CHR '' '' (\<Union>t \<in> set ts. set t)"
  by (induction ts rule: join_sp.induct) auto

lemma join_sp_Nil_iff: "list_all is_word ts \<Longrightarrow> join_sp ts = [] \<longleftrightarrow> ts = []"
  by (cases ts rule: join_sp.cases) (auto simp: is_word_def)

lemma split_ws_single: "is_word t \<Longrightarrow> split_ws t = [t]"
  using split_ws_join_sp [of "[t]"] by simp

lemma split_ws_append_blank:
  assumes "list_all is_word ts" "is_word t" "ts \<noteq> []"
  shows "split_ws (join_sp ts @ '' '' @ t) = ts @ [t]"
proof -
  have "join_sp (ts @ [t]) = join_sp ts @ '' '' @ t"
    using \<open>ts \<noteq> []\<close> by (induction ts rule: join_sp.induct) auto
  then show ?thesis using split_ws_join_sp [of "ts @ [t]"] assms by simp
qed

lemma dropWhile_hd: "xs \<noteq> [] \<Longrightarrow> \<not> p (hd xs) \<Longrightarrow> dropWhile p xs = xs" by (cases xs) simp_all

lemma strip_ends:
  assumes "s \<noteq> []" shows "strip s = s \<longleftrightarrow> \<not> is_space (hd s) \<and> \<not> is_space (last s)"
proof
  assume s: "strip s = s"
  have l: "length (dropWhile is_space x) < length x" if "x \<noteq> []" "is_space (hd x)" for x
    using that length_dropWhile_le [of is_space "tl x"] by (cases x) auto
  have eq: "dropWhile is_space s = s"
  proof (rule ccontr)
    assume "dropWhile is_space s \<noteq> s"
    then have "length (dropWhile is_space s) < length s" using l [OF assms] dropWhile_hd [of s is_space] assms by blast
    then have "length (strip s) < length s"
      using length_dropWhile_le [of is_space "rev (dropWhile is_space s)"] by (simp add: strip_def)
    then show False using s by simp
  qed
  then have "\<not> is_space (hd s)" using l [of s] assms by auto
  moreover have "\<not> is_space (last s)"
    using l [of "rev s"] s eq assms by (auto simp: strip_def hd_rev dest: arg_cong [of _ _ length])
  ultimately show "\<not> is_space (hd s) \<and> \<not> is_space (last s)" by simp
next
  assume "\<not> is_space (hd s) \<and> \<not> is_space (last s)"
  then show "strip s = s" using dropWhile_hd [of s is_space] dropWhile_hd [of "rev s" is_space] assms
    by (simp add: strip_def hd_rev)
qed

lemma contains_refl [simp]: "contains s s"
  by (cases s) (simp_all add: startswith_def)

lemma rpartition_sp_last:
  assumes "CHR '' '' \<notin> set b"
  shows "rpartition_sp (a @ '' '' @ b) = (a, b)"
proof -
  have "takeWhile (\<lambda>c. c \<noteq> CHR '' '') (rev b @ CHR '' '' # rev a) = rev b"
    using assms by (subst takeWhile_append2) auto
  moreover have "dropWhile (\<lambda>c. c \<noteq> CHR '' '') (rev b @ CHR '' '' # rev a) = CHR '' '' # rev a"
    using assms by (subst dropWhile_append2) auto
  ultimately show ?thesis by (simp add: rpartition_sp_def Let_def)
qed

lemma rpartition_sp_no_blank: "CHR '' '' \<notin> set s \<Longrightarrow> rpartition_sp s = ([], s)"
  by (auto simp: rpartition_sp_def Let_def dropWhile_eq_Nil_conv [THEN iffD2])

subsection \<open>Numbers\<close>

lemma code_char_of [simp]: "code (char_of n) = n mod 256"
  by (simp add: code_def)

lemma code_literals [simp]:
  "code CHR '' '' = 32"
  "code CHR ''0'' = 48"
  "code CHR ''1'' = 49"
  "code CHR ''2'' = 50"
  "code CHR ''3'' = 51"
  "code CHR ''4'' = 52"
  "code CHR ''5'' = 53"
  "code CHR ''6'' = 54"
  "code CHR ''7'' = 55"
  "code CHR ''8'' = 56"
  "code CHR ''9'' = 57"
  "code CHR ''.'' = 46"
  "code CHR ''+'' = 43"
  "code CHR ''-'' = 45"
  "code CHR '','' = 44"
  "code CHR ''['' = 91"
  "code CHR '']'' = 93"
  "code CHR ''/'' = 47"
  "code CHR '':'' = 58"
  "code CHR ''A'' = 65"
  "code CHR ''C'' = 67"
  "code CHR ''E'' = 69"
  "code CHR ''I'' = 73"
  "code CHR ''N'' = 78"
  "code CHR ''O'' = 79"
  "code CHR ''U'' = 85"
  "code CHR ''Y'' = 89"
  "code CHR ''a'' = 97"
  "code CHR ''c'' = 99"
  "code CHR ''e'' = 101"
  "code CHR ''i'' = 105"
  "code CHR ''n'' = 110"
  "code CHR ''o'' = 111"
  "code CHR ''u'' = 117"
  "code CHR ''y'' = 121"
  by (simp_all add: code_def)

lemma code_digit: "(d :: nat) < 10 \<Longrightarrow> code (char_of (48 + d)) = 48 + d"
  by simp

lemma is_digit_digit [simp]: "(d :: nat) < 10 \<Longrightarrow> is_digit (char_of (48 + d))"
  by (simp add: is_digit_def code_digit Let_def)

lemma digit_val_digit [simp]: "(d :: nat) < 10 \<Longrightarrow> digit_val (char_of (48 + d)) = int d"
  by (simp add: digit_val_def code_digit)

lemma show_nat_digits: "show_nat n \<noteq> [] \<and> list_all is_digit (show_nat n)"
  by (induction n rule: show_nat.induct) (subst (1 2) show_nat.simps, auto)

lemma digits_val_snoc: "digits_val (ds @ [c]) = 10 * digits_val ds + digit_val c"
  by (simp add: digits_val_def)

lemma digits_val_show_nat [simp]: "digits_val (show_nat n) = int n"
proof (induction n rule: show_nat.induct)
  case (1 n)
  show ?case
  proof (cases "n < 10")
    case True
    then show ?thesis by (simp add: show_nat.simps [of n] digits_val_def)
  next
    case False
    then have "digits_val (show_nat n) = 10 * int (n div 10) + int (n mod 10)"
      using 1 by (simp add: show_nat.simps [of n] digits_val_snoc)
    moreover have "10 * int (n div 10) + int (n mod 10) = int n"
      by (metis mult_div_mod_eq of_nat_add of_nat_mult of_nat_numeral)
    ultimately show ?thesis by simp
  qed
qed

lemma parse_unsigned_split:
  assumes "a \<noteq> []" "list_all is_digit a"
  shows "parse_unsigned a = Some (of_int (digits_val a))"
    and "b \<noteq> [] \<Longrightarrow> list_all is_digit b \<Longrightarrow>
      parse_unsigned (a @ ''.'' @ b) = Some (of_int (digits_val a) + of_int (digits_val b) / 10 ^ length b)"
proof -
  have all: "\<forall>c \<in> set a. is_digit c" using assms(2) by (simp add: list_all_iff)
  have dot: "\<not> is_digit CHR ''.''" by (simp add: is_digit_def code_def)
  show "parse_unsigned a = Some (of_int (digits_val a))"
  proof -
    have tw: "takeWhile is_digit a = a" and dw: "dropWhile is_digit a = []"
      using all by (auto simp: takeWhile_eq_all_conv dropWhile_eq_Nil_conv)
    show ?thesis using assms(1) unfolding parse_unsigned_def Let_def tw dw by simp
  qed
  assume b: "b \<noteq> []" "list_all is_digit b"
  have "takeWhile is_digit (a @ ''.'' @ b) = a" "dropWhile is_digit (a @ ''.'' @ b) = ''.'' @ b"
    using all dot by (simp_all add: takeWhile_append2 dropWhile_append2)
  then show "parse_unsigned (a @ ''.'' @ b) = Some (of_int (digits_val a) + of_int (digits_val b) / 10 ^ length b)"
    using assms(1) b by (simp add: parse_unsigned_def Let_def)
qed

lemma parse_show_nat [simp]: "parse_unsigned (show_nat n) = Some (of_nat n)"
  using parse_unsigned_split(1) [of "show_nat n"] show_nat_digits [of n] by simp

text \<open>The quarter lines of the betting markets, as text.\<close>

definition show_quarters :: "nat \<Rightarrow> string" where
  "show_quarters q = show_nat (q div 4) @
     (if q mod 4 = 0 then [] else if q mod 4 = 1 then ''.25'' else if q mod 4 = 2 then ''.5'' else ''.75'')"

lemma parse_show_quarters: "parse_unsigned (show_quarters q) = Some (of_nat q / 4)"
proof -
  define a r where "a = q div 4" and "r = q mod 4"
  have q: "(of_nat q :: rat) = 4 * of_nat a + of_nat r"
    by (metis a_def r_def mult_div_mod_eq of_nat_add of_nat_mult of_nat_numeral)
  have dg: "digits_val ''25'' = 25" "digits_val ''5'' = 5" "digits_val ''75'' = 75"
    "list_all is_digit ''25''" "list_all is_digit ''5''" "list_all is_digit ''75''"
    by code_simp+
  have "r = 0 \<or> r = 1 \<or> r = 2 \<or> r = 3" unfolding r_def by arith
  then show ?thesis
    using parse_unsigned_split(2) [of "show_nat a" "''25''"] parse_unsigned_split(2) [of "show_nat a" "''5''"]
      parse_unsigned_split(2) [of "show_nat a" "''75''"] show_nat_digits [of a] dg q
    unfolding show_quarters_def a_def [symmetric] r_def [symmetric] by (auto simp: field_simps)
qed

lemma show_quarters_no_blank: "CHR '' '' \<notin> set (show_quarters q)"
proof -
  have "\<not> is_digit CHR '' ''" by (simp add: is_digit_def code_def)
  then have "CHR '' '' \<notin> set (show_nat n)" for n
    using show_nat_digits [of n] by (auto simp: list_all_iff)
  then show ?thesis by (simp add: show_quarters_def)
qed

definition show_signed_quarters :: "int \<Rightarrow> string" where
  "show_signed_quarters s = (if 0 \<le> s then ''+'' else ''-'') @ show_quarters (nat \<bar>s\<bar>)"

lemma parse_show_signed_quarters: "parse_signed (show_signed_quarters s) = Some (of_int s / 4)"
proof (cases "0 \<le> s")
  case True
  then show ?thesis by (simp add: show_signed_quarters_def parse_signed_def parse_show_quarters)
next
  case False
  then have "(of_nat (nat (- s)) :: rat) = - of_int s" by (simp flip: of_int_minus)
  with False show ?thesis by (simp add: show_signed_quarters_def parse_signed_def parse_show_quarters)
qed

lemma show_signed_quarters_no_blank: "CHR '' '' \<notin> set (show_signed_quarters s)"
  using show_quarters_no_blank by (simp add: show_signed_quarters_def)

lemma last_show_quarters: "show_quarters q \<noteq> [] \<and> is_digit (last (show_quarters q))"
proof -
  have "is_digit (last (show_nat n))" for n
    using show_nat_digits [of n] by (simp add: list_all_iff)
  moreover have "is_digit CHR ''5''" by (simp add: is_digit_def)
  ultimately show ?thesis using show_nat_digits by (simp add: show_quarters_def)
qed

subsection \<open>Lowering twice\<close>

lemma lower_char_idem: "lower_char (lower_char c) = lower_char c"
proof (cases "is_upper_ascii c \<or> 192 \<le> code c \<and> code c \<le> 222 \<and> code c \<noteq> 215")
  case True
  then have n: "65 \<le> code c \<and> code c \<le> 90 \<or> 192 \<le> code c \<and> code c \<le> 222" by (auto simp: is_upper_ascii_def Let_def)
  then have "code (lower_char c) = code c + 32" using True by (auto simp: lower_char_def Let_def)
  then show ?thesis using n by (auto simp: lower_char_def [of "lower_char c"] is_upper_ascii_def Let_def)
next
  case False
  then have "lower_char c = c" by (auto simp: lower_char_def Let_def)
  then show ?thesis by simp
qed

lemma lower_idem: "lower (lower s) = lower s" by (simp add: lower_def lower_char_idem)

end
