(* ===== verification/Names.thy ===== *)
theory Names
  imports PyText
begin

text \<open>
  Team and player names (\<^verbatim>\<open>app/resolution/matching.py\<close>, first part, and
  \<^verbatim>\<open>app/resolution/tennis_names.py\<close>): normalisation, the women/youth/reserve markers, the base
  name without markers, the live-status suffix, the unordered key of a fixture, and the
  surname-plus-initial form of tennis names.
\<close>

subsection \<open>Normalisation\<close>

definition noise_tokens :: "string list" where
  "noise_tokens = [''fc'', ''afc'', ''cf'', ''cfc'', ''sc'', ''fk'', ''ff'', ''bk'', ''if'', ''ac'',
     ''club'', ''calcio'', ''jk'']"

text \<open>Characters other than letters and digits become blanks; on ASCII text \<open>casefold\<close> is \<open>lower\<close>.\<close>

definition clean_char :: "char \<Rightarrow> char" where
  "clean_char c = (let d = lower_char c in if is_alnum_ascii d then d else CHR '' '')"

definition clean :: "string \<Rightarrow> string" where
  "clean s = map clean_char (nfkd_ascii s)"

definition name_tokens :: "string \<Rightarrow> string list" where
  "name_tokens name = filter (\<lambda>t. t \<notin> set noise_tokens) (split_ws (clean name))"

definition normalize_name :: "string \<Rightarrow> string" where
  "normalize_name name = join_sp (name_tokens name)"

subsection \<open>Markers\<close>

datatype marker = Women | Youth | Reserve

definition women_markers :: "string list" where
  "women_markers = [''w'', ''women'', ''womens'', ''ladies'', ''fem'', ''femenino'', ''femenina'',
     ''feminin'', ''feminine'', ''feminino'', ''frauen'', ''damen'', ''dames'', ''kvinner'', ''kvinnor'']"

definition youth_word_markers :: "string list" where
  "youth_word_markers = [''youth'', ''juvenil'', ''juvenis'', ''jugend'']"

definition reserve_markers :: "string list" where
  "reserve_markers = [''ii'', ''iii'', ''reserve'', ''reserves'']"

definition trailing_reserve_tokens :: "string list" where
  "trailing_reserve_tokens = [''2'', ''3'', ''b'']"

text \<open>The regular expression \<^verbatim>\<open>^(?:u|sub)(?:1[0-9]|2[0-3])$\<close> on a token.\<close>

definition age_digits :: "string \<Rightarrow> bool" where
  "age_digits s = (case s of [a, b] \<Rightarrow> a = CHR ''1'' \<and> is_digit b \<or> a = CHR ''2'' \<and> b \<in> set ''0123'' | _ \<Rightarrow> False)"

definition youth_age :: "string \<Rightarrow> bool" where
  "youth_age t = (startswith ''u'' t \<and> age_digits (drop 1 t) \<or> startswith ''sub'' t \<and> age_digits (drop 3 t))"

definition token_marker :: "string \<Rightarrow> marker option" where
  "token_marker t = (if t \<in> set women_markers then Some Women
     else if t \<in> set youth_word_markers \<or> youth_age t then Some Youth
     else if t \<in> set reserve_markers then Some Reserve else None)"

definition trailing_reserve :: "string list \<Rightarrow> bool" where
  "trailing_reserve tokens = (2 \<le> length tokens \<and> last tokens \<in> set trailing_reserve_tokens)"

definition distinguishing_markers :: "string \<Rightarrow> marker set" where
  "distinguishing_markers name = (let tokens = split_ws (normalize_name name) in
     set (List.map_filter token_marker tokens) \<union> (if trailing_reserve tokens then {Reserve} else {}))"

definition known_club_whitelist :: "string list" where
  "known_club_whitelist = map normalize_name [''Boca Juniors'', ''Argentinos Juniors'', ''Young Boys'',
     ''Defensa y Justicia'', ''Newells Old Boys'', ''Junior'']"

definition strip_markers :: "string \<Rightarrow> string" where
  "strip_markers name = (let norm = normalize_name name in
     if norm \<in> set known_club_whitelist then norm
     else let tokens = split_ws norm;
              tokens = (if trailing_reserve tokens then butlast tokens else tokens);
              kept = filter (\<lambda>t. \<not> (t \<in> set women_markers \<or> t \<in> set youth_word_markers
                                    \<or> t \<in> set reserve_markers) \<and> \<not> youth_age t) tokens
          in if kept \<noteq> [] then join_sp kept else norm)"

subsection \<open>Live status and fixture keys\<close>

text \<open>
  The regular expression \<^verbatim>\<open>\s*\[[^\]]*\]\s*$\<close> matches at an opening bracket exactly when only white
  space follows the first closing bracket after it; \<open>re.sub\<close> cuts at the leftmost such bracket
  (the match reaches the end of the string), and the white space in front of it falls to the
  final \<open>strip\<close>.
\<close>

definition live_at :: "string \<Rightarrow> bool" where
  "live_at s = (case s of [] \<Rightarrow> False
     | c # r \<Rightarrow> c = CHR ''['' \<and> (case dropWhile (\<lambda>d. d \<noteq> CHR '']'') r of [] \<Rightarrow> False
                                | _ # t \<Rightarrow> list_all is_space t))"

fun cut_live :: "string \<Rightarrow> string" where
  "cut_live [] = []"
| "cut_live (c # cs) = (if live_at (c # cs) then [] else c # cut_live cs)"

definition strip_live_status :: "string \<Rightarrow> string" where
  "strip_live_status name = strip (cut_live name)"

definition fixture_pair_key :: "string \<Rightarrow> string \<Rightarrow> string set option" where
  "fixture_pair_key home away =
     (let home_key = normalize_name (strip_live_status home);
          away_key = normalize_name (strip_live_status away)
      in if home_key = [] \<or> away_key = [] \<or> home_key = away_key then None
         else Some {home_key, away_key})"

subsection \<open>Tennis names\<close>

definition norm_token :: "string \<Rightarrow> string" where
  "norm_token token = filter is_alnum_ascii (lower (nfkd_ascii token))"

definition is_initial :: "string \<Rightarrow> bool" where
  "is_initial token = (let stripped = rev (dropWhile (\<lambda>c. c = CHR ''.'') (rev token)) in
     case stripped of [c] \<Rightarrow> is_alpha c | _ \<Rightarrow> False)"

definition canonical_tennis_name :: "string \<Rightarrow> string" where
  "canonical_tennis_name name =
     (let raw_tokens = split_ws (map (\<lambda>c. if c = CHR '','' then CHR '' '' else c) name) in
      case raw_tokens of
        [] \<Rightarrow> []
      | [t] \<Rightarrow> norm_token t
      | _ \<Rightarrow>
        let (initial, surname) =
              (if is_initial (last raw_tokens)
               then (norm_token (last raw_tokens), concat (map norm_token (butlast raw_tokens)))
               else if is_initial (hd raw_tokens)
               then (norm_token (hd raw_tokens), concat (map norm_token (tl raw_tokens)))
               else (norm_token (hd raw_tokens), norm_token (last raw_tokens)))
        in if surname = [] \<or> initial = [] then [] else surname @ '' '' @ take 1 initial)"

subsection \<open>Facts about normalisation\<close>

text \<open>The characters a normalised token is made of.\<close>

definition norm_char :: "char \<Rightarrow> bool" where
  "norm_char c \<longleftrightarrow> is_digit c \<or> is_lower_ascii c"

definition norm_word :: "string \<Rightarrow> bool" where
  "norm_word t \<longleftrightarrow> t \<noteq> [] \<and> list_all norm_char t \<and> t \<notin> set noise_tokens"

lemma norm_char_facts:
  assumes "norm_char c"
  shows "\<not> is_space c" and "nfkd_ascii_char c = [c]" and "lower_char c = c"
    and "is_alnum_ascii c" and "clean_char c = c"
proof -
  have n: "48 \<le> code c" "code c \<le> 57 \<or> 97 \<le> code c" "code c \<le> 122"
    using assms by (auto simp: norm_char_def is_digit_def is_lower_ascii_def Let_def)
  show "\<not> is_space c" using n by (simp add: is_space_def Let_def)
  show "nfkd_ascii_char c = [c]" using n by (simp add: nfkd_ascii_char_def Let_def)
  have "\<not> is_upper_ascii c" using n unfolding is_upper_ascii_def Let_def by linarith
  then show l: "lower_char c = c" using n by (simp add: lower_char_def Let_def)
  show a: "is_alnum_ascii c" using assms by (auto simp: norm_char_def is_alnum_ascii_def)
  show "clean_char c = c" using l a by (simp add: clean_char_def)
qed

lemma clean_char_range: "norm_char (clean_char c) \<or> clean_char c = CHR '' ''"
  if "code c < 128"
proof -
  have "is_upper_ascii c \<Longrightarrow> norm_char (lower_char c)"
    by (auto simp: norm_char_def lower_char_def is_upper_ascii_def is_lower_ascii_def Let_def)
  moreover have "\<not> is_upper_ascii c \<Longrightarrow> lower_char c = c" using that by (auto simp: lower_char_def Let_def)
  moreover have "is_alnum_ascii c \<Longrightarrow> \<not> is_upper_ascii c \<Longrightarrow> norm_char c"
    by (auto simp: is_alnum_ascii_def norm_char_def)
  ultimately show ?thesis
    by (cases "is_upper_ascii c") (auto simp: clean_char_def Let_def norm_char_facts)
qed

lemma nfkd_ascii_char_ascii: "list_all (\<lambda>c. code c < 128) (nfkd_ascii_char d)"
  by (simp add: nfkd_ascii_char_def Let_def)

lemma nfkd_ascii_is_ascii: "c \<in> set (nfkd_ascii s) \<Longrightarrow> code c < 128"
  using nfkd_ascii_char_ascii by (auto simp: nfkd_ascii_def list_all_iff)

lemma clean_chars: "c \<in> set (clean s) \<Longrightarrow> norm_char c \<or> c = CHR '' ''"
  using clean_char_range nfkd_ascii_is_ascii by (auto simp: clean_def)

lemma name_tokens_words: "list_all norm_word (name_tokens s)"
proof -
  have "norm_word t" if "t \<in> set (name_tokens s)" for t
  proof -
    from that have w: "is_word t" and sub: "set t \<subseteq> set (clean s)" and n: "t \<notin> set noise_tokens"
      by (auto simp: name_tokens_def dest: split_ws_words split_ws_chars)
    have "norm_char c" if "c \<in> set t" for c
    proof -
      have "c \<noteq> CHR '' ''" using that w by (auto simp: is_word_def list_all_iff)
      then show ?thesis using clean_chars that sub by blast
    qed
    with w n show ?thesis by (auto simp: norm_word_def is_word_def list_all_iff)
  qed
  then show ?thesis by (simp add: list_all_iff)
qed

lemma norm_word_is_word: "norm_word t \<Longrightarrow> is_word t"
  by (auto simp: norm_word_def is_word_def list_all_iff norm_char_facts)

lemma norm_words_are_words: "list_all norm_word ts \<Longrightarrow> list_all is_word ts"
  by (auto simp: list_all_iff norm_word_is_word)

lemma split_normalize [simp]: "split_ws (normalize_name s) = name_tokens s"
  by (simp add: normalize_name_def split_ws_join_sp norm_words_are_words name_tokens_words)

lemma clean_join_chars: "list_all (list_all norm_char) ts \<Longrightarrow> clean (join_sp ts) = join_sp ts"
proof -
  assume a: "list_all (list_all norm_char) ts"
  have "nfkd_ascii_char c = [c] \<and> clean_char c = c" if "c \<in> set (join_sp ts)" for c
  proof -
    have "c = CHR '' '' \<or> norm_char c"
      using that set_join_sp [of ts] a by (auto simp: list_all_iff)
    moreover have "nfkd_ascii_char CHR '' '' = [CHR '' ''] \<and> clean_char CHR '' '' = CHR '' ''" by code_simp
    ultimately show ?thesis using norm_char_facts by auto
  qed
  then have "nfkd_ascii (join_sp ts) = join_sp ts" "map clean_char (join_sp ts) = join_sp ts"
    unfolding nfkd_ascii_def by (induction "join_sp ts") (auto simp: map_idI cong: map_cong)
  then show ?thesis by (simp add: clean_def)
qed

lemma clean_join_norm: "list_all norm_word ts \<Longrightarrow> clean (join_sp ts) = join_sp ts"
  by (rule clean_join_chars) (simp add: list_all_iff norm_word_def)

lemma name_tokens_join:
  assumes "list_all norm_word ts"
  shows "name_tokens (join_sp ts) = ts"
proof -
  have "split_ws (clean (join_sp ts)) = ts"
    using assms by (simp add: clean_join_norm split_ws_join_sp norm_words_are_words)
  then show ?thesis using assms by (auto simp: name_tokens_def norm_word_def list_all_iff intro: filter_True)
qed

lemma normalize_join: "list_all norm_word ts \<Longrightarrow> normalize_name (join_sp ts) = join_sp ts"
  by (simp add: normalize_name_def name_tokens_join)

lemma normalize_idem [simp]: "normalize_name (normalize_name s) = normalize_name s"
  using normalize_join [OF name_tokens_words [of s]] by (simp add: normalize_name_def)

lemma normalize_eq_iff: "normalize_name s = normalize_name t \<longleftrightarrow> name_tokens s = name_tokens t"
  by (metis normalize_name_def split_normalize)

lemma markers_normalize: "normalize_name s = normalize_name t \<Longrightarrow> distinguishing_markers s = distinguishing_markers t"
  by (simp add: distinguishing_markers_def)

lemma strip_markers_normalize: "normalize_name s = normalize_name t \<Longrightarrow> strip_markers s = strip_markers t"
  by (simp add: strip_markers_def)

lemma norm_words_sub: "list_all norm_word ts \<Longrightarrow> set us \<subseteq> set ts \<Longrightarrow> list_all norm_word us"
  by (auto simp: list_all_iff)

text \<open>The base name is itself a normalised name.\<close>

lemma strip_markers_normal: "normalize_name (strip_markers s) = strip_markers s"
proof (cases "normalize_name s \<in> set known_club_whitelist")
  case False
  define ts where "ts = (if trailing_reserve (name_tokens s) then butlast (name_tokens s) else name_tokens s)"
  define ks where "ks = filter (\<lambda>t. \<not> (t \<in> set women_markers \<or> t \<in> set youth_word_markers
    \<or> t \<in> set reserve_markers) \<and> \<not> youth_age t) ts"
  have "set ks \<subseteq> set (name_tokens s)" by (auto simp: ks_def ts_def dest: in_set_butlastD split: if_splits)
  then have "normalize_name (join_sp ks) = join_sp ks"
    using norm_words_sub [OF name_tokens_words] normalize_join by blast
  moreover have "strip_markers s = (if ks \<noteq> [] then join_sp ks else normalize_name s)"
    unfolding strip_markers_def Let_def split_normalize ts_def [symmetric] ks_def [symmetric]
    using False by simp
  ultimately show ?thesis by simp
qed (simp add: strip_markers_def)

subsection \<open>Facts about the live status\<close>

lemma strip_chars: "set (strip s) \<subseteq> set s"
  by (force simp: strip_def dest: set_dropWhileD)

lemma cut_live_no_bracket: "CHR ''['' \<notin> set s \<Longrightarrow> cut_live s = s"
  by (induction s) (auto simp: live_at_def)

lemma cut_live_suffix:
  assumes "CHR ''['' \<notin> set s" and "live_at t"
  shows "cut_live (s @ t) = s"
  using assms
proof (induction s)
  case Nil
  then show ?case by (cases t) auto
next
  case (Cons c s)
  have "\<not> live_at (c # (s @ t))" using Cons.prems by (auto simp: live_at_def)
  with Cons show ?case by simp
qed

lemma strip_append_blank: "strip (s @ '' '') = strip s"
proof (cases "list_all is_space s")
  case True
  then have "\<forall>c \<in> set s. is_space c" "\<forall>c \<in> set (s @ '' ''). is_space c" by (simp_all add: list_all_iff)
  then have d1: "dropWhile is_space s = []" and d2: "dropWhile is_space (s @ '' '') = []"
    unfolding dropWhile_eq_Nil_conv by blast+
  show ?thesis unfolding strip_def d1 d2 by simp
next
  case False
  then obtain c where "c \<in> set s" "\<not> is_space c" by (auto simp: list_all_iff)
  then have "dropWhile is_space (s @ '' '') = dropWhile is_space s @ '' ''"
    by (rule dropWhile_append1)
  then show ?thesis by (simp add: strip_def)
qed

text \<open>A bracketed status at the end is dropped with the blank in front of it.\<close>

lemma strip_live_suffix:
  assumes "CHR ''['' \<notin> set s" "CHR '']'' \<notin> set w"
  shows "strip_live_status (s @ '' ['' @ w @ '']'') = strip_live_status s"
proof -
  have "dropWhile (\<lambda>d. d \<noteq> CHR '']'') (w @ '']'') = '']''"
    using assms(2) by (subst dropWhile_append2) auto
  then have "live_at (''['' @ w @ '']'')" by (simp add: live_at_def)
  moreover have "CHR ''['' \<notin> set (s @ '' '')" using assms(1) by simp
  ultimately have "cut_live ((s @ '' '') @ ''['' @ w @ '']'') = s @ '' ''"
    by (rule cut_live_suffix [rotated])
  then show ?thesis
    using cut_live_no_bracket [OF assms(1)] strip_append_blank by (simp add: strip_live_status_def)
qed

lemma fixture_pair_key_commute: "fixture_pair_key h a = fixture_pair_key a h"
  by (auto simp: fixture_pair_key_def Let_def insert_commute)

end
