(* ===== verification/Pricing.thy ===== *)
theory Pricing
  imports PyText
begin

text \<open>
  The price side of \<^verbatim>\<open>app/edge/value.py\<close>: the sharp-anchor classification of a book name, odds
  net of exchange commission, and the minimum acceptable price of a pick.
\<close>

definition norm_book :: "string \<Rightarrow> string" where
  "norm_book s = lower (strip s)"

subsection \<open>Anchor classification\<close>

definition sharp_books :: "string list" where
  "sharp_books = [''pinnacle'', ''pinnacle sports'', ''betfair exchange'', ''smarkets'']"

definition sharp_book_norms :: "string list" where
  "sharp_book_norms = map norm_book sharp_books"

definition consensus_anchor :: string where
  "consensus_anchor = ''consensus(median)''"

datatype anchor_type = Anchor_Pinnacle | Anchor_Sharp | Anchor_Consensus

definition anchor_type_for :: "string \<Rightarrow> anchor_type" where
  "anchor_type_for anchor_book =
     (if anchor_book = consensus_anchor then Anchor_Consensus
      else let norm = norm_book anchor_book in
        if contains ''pinnacle'' norm then Anchor_Pinnacle
        else if norm \<in> set sharp_book_norms then Anchor_Sharp
        else Anchor_Consensus)"

definition is_sharp_anchored :: "string \<Rightarrow> bool" where
  "is_sharp_anchored anchor_book = (anchor_type_for anchor_book \<noteq> Anchor_Consensus)"

subsection \<open>Commission\<close>

type_synonym commissions = "(string \<times> pyfloat) list"

definition exchange_commission :: commissions where
  "exchange_commission = [(''betfair exchange'', f64 (5 / 100)), (''betfair'', f64 (5 / 100)),
     (''smarkets'', f64 (2 / 100)), (''matchbook'', f64 (2 / 100))]"

definition commission_of :: "commissions \<Rightarrow> string \<Rightarrow> pyfloat" where
  "commission_of cs book = get_default (map_of cs) (norm_book book) (Fin 0)"

definition effective_odds_in :: "commissions \<Rightarrow> string \<Rightarrow> pyfloat \<Rightarrow> pyfloat" where
  "effective_odds_in cs book odds =
     (let c = commission_of cs book in f_add (Fin 1) (f_mul (f_sub odds (Fin 1)) (f_sub (Fin 1) c)))"

definition effective_odds :: "string \<Rightarrow> pyfloat \<Rightarrow> pyfloat" where
  "effective_odds book odds = effective_odds_in exchange_commission book odds"

definition min_acceptable_odds :: "commissions \<Rightarrow> pyfloat \<Rightarrow> pyfloat \<Rightarrow> string \<Rightarrow> pyfloat option res" where
  "min_acceptable_odds cs fair_prob min_edge book =
     (if \<not> (f_lt (Fin 0) fair_prob \<and> f_lt fair_prob (Fin 1)) then Raise ValueError
      else if f_lt min_edge (Fin 0) then Raise ValueError
      else let headroom = f_sub fair_prob min_edge in
        if f_le headroom (Fin 0) then Ok None
        else rbind (f_div (Fin 1) headroom) (\<lambda>eff_min.
          rbind (f_div (f_sub eff_min (Fin 1)) (f_sub (Fin 1) (commission_of cs book))) (\<lambda>q.
            Ok (Some (f_add (Fin 1) q)))))"

end
