(* ===== verification/Outcomes.thy ===== *)
theory Outcomes
  imports Names Pricing
begin

text \<open>
  Settlement of one selection (\<^verbatim>\<open>app/settlement/outcomes.py\<close>): from market, selection text and
  final score to an outcome, for every market the code grades, with the tennis set-score guard,
  the retirement rule, and the profit and loss of a stake.
\<close>

subsection \<open>Data\<close>

datatype outcome = Won | Lost | Void | Push | Half_Won | Half_Lost

definition outcome_value :: "outcome \<Rightarrow> string" where
  "outcome_value oc = (case oc of Won \<Rightarrow> ''won'' | Lost \<Rightarrow> ''lost'' | Void \<Rightarrow> ''void'' | Push \<Rightarrow> ''push''
     | Half_Won \<Rightarrow> ''half_won'' | Half_Lost \<Rightarrow> ''half_lost'')"

definition won :: "bool \<Rightarrow> outcome" where
  "won condition = (if condition then Won else Lost)"

subsection \<open>Selections as text\<close>

text \<open>A full match of \<^verbatim>\<open>(Over|Under) (\d+(?:\.\d+)?)\<close>: whether it is Over, and the line.\<close>

definition parse_totals :: "string \<Rightarrow> (bool \<times> rat) option" where
  "parse_totals selection =
     (if startswith ''Over '' selection then map_option (Pair True) (parse_unsigned (drop 5 selection))
      else if startswith ''Under '' selection then map_option (Pair False) (parse_unsigned (drop 6 selection))
      else None)"

text \<open>A full match of \<^verbatim>\<open>Draw \(([+-]?\d+(?:\.\d+)?)\)\<close>: the line.\<close>

definition parse_eh_draw :: "string \<Rightarrow> rat option" where
  "parse_eh_draw selection =
     (if startswith ''Draw ('' selection \<and> endswith '')'' selection
      then parse_opt_signed (butlast (drop 6 selection)) else None)"

subsection \<open>The tennis set-score guard\<close>

definition tennis_max_set_sum :: int where "tennis_max_set_sum = 5"

definition is_tennis_game_line :: "string \<Rightarrow> string \<Rightarrow> bool" where
  "is_tennis_game_line market selection =
     (if market = ''totals'' then
        (case parse_totals selection of None \<Rightarrow> False | Some (_, line) \<Rightarrow> f_lt (Fin (9 / 2)) (f64 line))
      else if market = ''spreads'' then
        (let (team, raw_line) = rpartition_sp selection in
         if team = [] then False
         else case parse_signed raw_line of None \<Rightarrow> False
           | Some line \<Rightarrow> f_lt (Fin (5 / 2)) (f_abs (f64 line)))
      else False)"

definition is_tennis_sets_spread_detail :: "string option \<Rightarrow> bool" where
  "is_tennis_sets_spread_detail market_detail = (case market_detail of None \<Rightarrow> False
     | Some d \<Rightarrow> let detail = lower d in startswith ''spreads_sets'' detail
         \<or> startswith ''asian_handicap'' detail \<and> endswith ''_sets'' detail)"

definition is_tennis_games_total_detail :: "string option \<Rightarrow> bool" where
  "is_tennis_games_total_detail market_detail = (case market_detail of None \<Rightarrow> False
     | Some d \<Rightarrow> let detail = lower d in startswith ''over_under_games'' detail
         \<or> startswith ''totals_games'' detail)"

definition tennis_set_score_ungradeable ::
  "string \<Rightarrow> string \<Rightarrow> int \<Rightarrow> int \<Rightarrow> string option \<Rightarrow> bool" where
  "tennis_set_score_ungradeable market selection home_score away_score market_detail =
     (if home_score + away_score > tennis_max_set_sum then False
      else if market = ''spreads'' then
        \<not> is_tennis_sets_spread_detail market_detail \<or> is_tennis_game_line market selection
      else if market = ''totals'' then
        is_tennis_games_total_detail market_detail \<or> is_tennis_game_line market selection
      else False)"

subsection \<open>The markets\<close>

definition settle_h2h :: "string \<Rightarrow> string \<Rightarrow> string \<Rightarrow> int \<Rightarrow> int \<Rightarrow> bool \<Rightarrow> outcome res" where
  "settle_h2h selection home away hs as tie_pushes =
     (if tie_pushes \<and> hs = as \<and> (selection = home \<or> selection = away) then Ok Push
      else if selection = home then Ok (won (hs > as))
      else if selection = away then Ok (won (as > hs))
      else if selection = ''Draw'' then Ok (won (hs = as))
      else Raise ValueError)"

definition ah_component :: "pyfloat \<Rightarrow> outcome" where
  "ah_component margin = (if f_lt (Fin 0) margin then Won else if f_eq margin (Fin 0) then Push else Lost)"

definition combine_quarter :: "outcome set \<Rightarrow> outcome res" where
  "combine_quarter components =
     (if components = {Won} then Ok Won
      else if components = {Lost} then Ok Lost
      else if components = {Won, Push} then Ok Half_Won
      else if components = {Lost, Push} then Ok Half_Lost
      else Raise ValueError)"

definition totals_component :: "bool \<Rightarrow> int \<Rightarrow> pyfloat \<Rightarrow> outcome res" where
  "totals_component is_over goals comp_line = rbind (float_of_int goals) (\<lambda>t.
     Ok (ah_component (if is_over then f_sub t comp_line else f_sub comp_line t)))"

definition settle_totals :: "string \<Rightarrow> int \<Rightarrow> outcome res" where
  "settle_totals selection goals = (case parse_totals selection of None \<Rightarrow> Raise ValueError
     | Some (is_over, raw_line) \<Rightarrow> let line = f64 raw_line in
         if \<not> is_integer (f_mul line (Fin 2)) then
           rbind (totals_component is_over goals (f_sub line (Fin (1 / 4)))) (\<lambda>a.
           rbind (totals_component is_over goals (f_add line (Fin (1 / 4)))) (\<lambda>b.
             combine_quarter {a, b}))
         else if int_eq_float goals line then Ok Push
         else let over = int_gt_float goals line in Ok (won (if is_over then over else \<not> over)))"

definition settle_btts :: "string \<Rightarrow> int \<Rightarrow> int \<Rightarrow> outcome res" where
  "settle_btts selection hs as = (let both = hs > 0 \<and> as > 0 in
     if selection = ''BTTS Yes'' \<or> selection = ''Yes'' then Ok (won both)
     else if selection = ''BTTS No'' \<or> selection = ''No'' then Ok (won (\<not> both))
     else Raise ValueError)"

definition settle_dnb :: "string \<Rightarrow> string \<Rightarrow> string \<Rightarrow> int \<Rightarrow> int \<Rightarrow> outcome res" where
  "settle_dnb selection home away hs as =
     (if \<not> (selection = home \<or> selection = away) then Raise ValueError
      else if hs = as then Ok Push
      else Ok (won (if selection = home then hs > as else as > hs)))"

datatype side = Home | Away

definition dc_side :: "string \<Rightarrow> string \<Rightarrow> string \<Rightarrow> side option" where
  "dc_side team home away = (let token = normalize_name team in
     if token = [] then None
     else if token = normalize_name home then Some Home
     else if token = normalize_name away then Some Away
     else None)"

definition settle_double_chance :: "string \<Rightarrow> string \<Rightarrow> string \<Rightarrow> int \<Rightarrow> int \<Rightarrow> outcome res" where
  "settle_double_chance selection home away hs as =
     (case map strip (split_on '' or '' selection) of
        [p0, p1] \<Rightarrow>
          if ''Draw'' \<in> {p0, p1} then
            (let team = (if p1 = ''Draw'' then p0 else p1) in
             case dc_side team home away of None \<Rightarrow> Raise ValueError
               | Some sd \<Rightarrow> Ok (won (if sd = Home then hs \<ge> as else as \<ge> hs)))
          else if {normalize_name p0, normalize_name p1} \<noteq> {normalize_name home, normalize_name away}
          then Raise ValueError
          else Ok (won (hs \<noteq> as))
      | _ \<Rightarrow> Raise ValueError)"

text \<open>\<^theory_text>\<open>hs + line == as_\<close>, with the integer converted to a float by the addition.\<close>

definition plus_line_eq :: "int \<Rightarrow> pyfloat \<Rightarrow> int \<Rightarrow> bool res" where
  "plus_line_eq hs line as = rbind (float_of_int hs) (\<lambda>h. Ok (int_eq_float as (f_add h line)))"

definition settle_spreads :: "string \<Rightarrow> string \<Rightarrow> string \<Rightarrow> int \<Rightarrow> int \<Rightarrow> bool \<Rightarrow> outcome res" where
  "settle_spreads selection home away hs as integer_tie_pushes =
     (case parse_eh_draw selection of
        Some l \<Rightarrow> rmap won (plus_line_eq hs (f64 l) as)
      | None \<Rightarrow>
        (let (team, raw_line) = rpartition_sp selection in
         if team = [] then Raise ValueError
         else case parse_signed raw_line of None \<Rightarrow> Raise ValueError
         | Some l \<Rightarrow> let line = f64 l in
           if team = ''Draw'' then
             (if \<not> is_integer line then Raise ValueError else rmap won (plus_line_eq hs line as))
           else rbind (if team = home then float_of_int (hs - as)
                       else if team = away then float_of_int (as - hs)
                       else Raise ValueError) (\<lambda>base.
             if \<not> is_integer (f_mul line (Fin 2)) then
               combine_quarter {ah_component (f_sub (f_add base line) (Fin (1 / 4))),
                                ah_component (f_add (f_add base line) (Fin (1 / 4)))}
             else let margin = f_add base line in
               if f_lt (Fin 0) margin then Ok Won
               else if f_eq margin (Fin 0) then Ok (if integer_tie_pushes then Push else Lost)
               else Ok Lost)))"

subsection \<open>Dispatch\<close>

definition two_way_h2h_sports :: "string list" where
  "two_way_h2h_sports = [''american_football'']"

definition two_way_handicap_sports :: "string list" where
  "two_way_handicap_sports = [''basketball'', ''tennis'', ''american_football'']"

definition sport_in :: "string option \<Rightarrow> string list \<Rightarrow> bool" where
  "sport_in sport_key sports = (case sport_key of None \<Rightarrow> False | Some s \<Rightarrow> s \<in> set sports)"

definition settle_selection ::
  "string \<Rightarrow> string \<Rightarrow> string \<Rightarrow> string \<Rightarrow> int \<Rightarrow> int \<Rightarrow> string option \<Rightarrow> string option \<Rightarrow> outcome res" where
  "settle_selection market selection home away home_score away_score sport_key market_detail =
     (if home_score < 0 \<or> away_score < 0 then Raise ValueError
      else if sport_key = Some ''tennis''
        \<and> tennis_set_score_ungradeable market selection home_score away_score market_detail
      then Raise ValueError
      else if market = ''h2h'' then
        settle_h2h selection home away home_score away_score (sport_in sport_key two_way_h2h_sports)
      else if market = ''totals'' then settle_totals selection (home_score + away_score)
      else if market = ''btts'' then settle_btts selection home_score away_score
      else if market = ''dnb'' then settle_dnb selection home away home_score away_score
      else if market = ''double_chance'' then
        settle_double_chance selection home away home_score away_score
      else if market = ''spreads'' then
        settle_spreads selection home away home_score away_score
          (sport_in sport_key two_way_handicap_sports)
      else Raise ValueError)"

definition settle_selection_retired ::
  "string \<Rightarrow> string \<Rightarrow> string \<Rightarrow> string \<Rightarrow> side option \<Rightarrow> outcome res" where
  "settle_selection_retired market selection home away winner_side =
     (case winner_side of None \<Rightarrow> Raise ValueError
      | Some w \<Rightarrow>
        if market = ''h2h'' then
          (if selection = home then Ok (won (w = Home))
           else if selection = away then Ok (won (w = Away))
           else Raise ValueError)
        else Ok Void)"

subsection \<open>Profit and loss\<close>

text \<open>
  Finite \<open>Decimal\<close> values as the rationals they denote.  \<^theory_text>\<open>Decimal(str(f))\<close> of an infinite float
  makes \<open>quantize\<close> raise.
\<close>

definition net_odds :: "outcome \<Rightarrow> rat \<Rightarrow> string option \<Rightarrow> rat res" where
  "net_odds oc decimal_odds bookmaker = (case bookmaker of
     Some b \<Rightarrow> if oc = Won \<or> oc = Half_Won then
         (case effective_odds b (f64 decimal_odds) of Fin x \<Rightarrow> Ok (repr_float x) | _ \<Rightarrow> Raise InvalidOperation)
       else Ok decimal_odds
   | None \<Rightarrow> Ok decimal_odds)"

definition pick_pnl :: "outcome \<Rightarrow> rat \<Rightarrow> rat \<Rightarrow> string option \<Rightarrow> rat res" where
  "pick_pnl oc stake decimal_odds bookmaker = rbind (net_odds oc decimal_odds bookmaker) (\<lambda>odds.
     case oc of
       Won \<Rightarrow> quantize_cents (dec (stake * dec (odds - 1)))
     | Lost \<Rightarrow> quantize_cents (dec (- stake))
     | Half_Won \<Rightarrow> quantize_cents (dec (dec (stake / 2) * dec (odds - 1)))
     | Half_Lost \<Rightarrow> quantize_cents (dec (dec (- stake) / 2))
     | _ \<Rightarrow> Ok 0)"

definition pick_roi :: "rat \<Rightarrow> rat \<Rightarrow> rat option" where
  "pick_roi pnl stake = (if stake = 0 then None else Some (dec (pnl / stake)))"

text \<open>
  The display-only grade: \<open>None\<close> for a missing score and for every selection whose settlement
  raises \<open>ValueError\<close> or \<open>TypeError\<close>; any other exception passes through.
\<close>

definition provisional_result ::
  "string \<Rightarrow> string \<Rightarrow> string \<Rightarrow> string \<Rightarrow> int option \<Rightarrow> int option \<Rightarrow> rat option \<Rightarrow> rat option
   \<Rightarrow> string option \<Rightarrow> string option \<Rightarrow> string option \<Rightarrow> (string option \<times> rat option) res" where
  "provisional_result market selection home away home_score away_score stake decimal_odds
       sport_key bookmaker market_detail =
     (case (home_score, away_score) of
        (Some hs, Some as) \<Rightarrow>
          (case settle_selection market selection home away hs as sport_key market_detail of
             Inl e \<Rightarrow> if e = ValueError \<or> e = TypeError then Ok (None, None) else Raise e
           | Inr oc \<Rightarrow>
             (case (stake, decimal_odds) of
                (Some st, Some od) \<Rightarrow> rmap (\<lambda>p. (Some (outcome_value oc), Some p)) (pick_pnl oc st od bookmaker)
              | _ \<Rightarrow> Ok (Some (outcome_value oc), None)))
      | _ \<Rightarrow> Ok (None, None))"

subsection \<open>The reference: Asian settlement in quarter goals\<close>

text \<open>
  The textbook rule for a stake on a line in quarter steps, with \<open>m\<close> the margin by which the
  selection clears its line, in quarters of a goal.
\<close>

definition asian_quarters :: "int \<Rightarrow> outcome" where
  "asian_quarters m = (if 2 \<le> m then Won else if m = 1 then Half_Won else if m = 0 then Push
     else if m = - 1 then Half_Lost else Lost)"

definition opposite :: "outcome \<Rightarrow> outcome" where
  "opposite oc = (case oc of Won \<Rightarrow> Lost | Lost \<Rightarrow> Won | Half_Won \<Rightarrow> Half_Lost | Half_Lost \<Rightarrow> Half_Won
     | Push \<Rightarrow> Push | Void \<Rightarrow> Void)"

lemma asian_opposite: "asian_quarters (- m) = opposite (asian_quarters m)"
  by (auto simp: asian_quarters_def opposite_def)

lemma ah_component_quarter:
  "ah_component (Fin (of_int m / 4)) = (if 0 < m then Won else if m = 0 then Push else Lost)"
  by (auto simp: ah_component_def)

lemma combine_quarter_odd:
  assumes "odd m"
  shows "combine_quarter {ah_component (Fin (of_int (m - 1) / 4)), ah_component (Fin (of_int (m + 1) / 4))}
    = Ok (asian_quarters m)"
proof -
  from assms obtain k where m: "m = 2 * k + 1" by (rule oddE)
  consider "1 \<le> k" | "k = 0" | "k = - 1" | "k \<le> - 2" by linarith
  then show ?thesis unfolding m ah_component_quarter
    by cases (simp_all add: combine_quarter_def asian_quarters_def insert_commute doubleton_eq_iff)
qed

lemma settle_totals_unfold:
  assumes "q < 2 ^ 50" "\<bar>g\<bar> < 2 ^ 50" "parse_totals sel = Some (ov, of_nat q / 4)"
  shows "settle_totals sel g = Ok (asian_quarters (if ov then 4 * g - int q else int q - 4 * g))"
proof -
  have bq: "\<bar>int q\<bar> < 2 ^ 53" "\<bar>2 * int q\<bar> < 2 ^ 53" "\<bar>int q - 1\<bar> < 2 ^ 53" "\<bar>int q + 1\<bar> < 2 ^ 53"
    and bg: "\<bar>4 * g - (int q - 1)\<bar> < 2 ^ 53" "\<bar>4 * g - (int q + 1)\<bar> < 2 ^ 53"
      "\<bar>(int q - 1) - 4 * g\<bar> < 2 ^ 53" "\<bar>(int q + 1) - 4 * g\<bar> < 2 ^ 53"
    using assms(1,2) by auto
  have line: "f64 (of_nat q / 4) = Fin (of_int (int q) / 4)" using f64_quarter [OF bq(1)] by simp
  have dbl: "is_integer (f_mul (Fin (of_int (int q) / 4)) (Fin 2)) \<longleftrightarrow> even (int q)"
    using f_double_quarter [OF bq(2)] is_integer_half [of "int q"] by simp
  have lo: "f_sub (Fin (of_int (int q) / 4)) (Fin (1 / 4)) = Fin (of_int (int q - 1) / 4)"
    and hi: "f_add (Fin (of_int (int q) / 4)) (Fin (1 / 4)) = Fin (of_int (int q + 1) / 4)"
    using f_sub_quarter [OF bq(3)] f_add_quarter [OF bq(4)] by simp_all
  show ?thesis
  proof (cases "even (int q)")
    case False
    have odd: "odd (4 * g - int q)" "odd (int q - 4 * g)" using False by simp_all
    have comps: "totals_component ov g (Fin (of_int (int q - 1) / 4))
        = Ok (ah_component (Fin (of_int (if ov then 4 * g - (int q - 1) else (int q - 1) - 4 * g) / 4)))"
      "totals_component ov g (Fin (of_int (int q + 1) / 4))
        = Ok (ah_component (Fin (of_int (if ov then 4 * g - (int q + 1) else (int q + 1) - 4 * g) / 4)))"
      using f_sub_quarter [OF bg(1)] f_sub_quarter [OF bg(2)] f_sub_quarter [OF bg(3)] f_sub_quarter [OF bg(4)]
      by (simp_all only: totals_component_def float_of_int_quarter [OF assms(2)] rbind_simps if_True if_False
            split: if_split) auto
    show ?thesis
      using combine_quarter_odd [OF odd(1)] combine_quarter_odd [OF odd(2)] False
      unfolding settle_totals_def assms(3) option.case prod.case Let_def line dbl lo hi comps
      by (simp add: insert_commute algebra_simps)
  next
    case True
    have "(of_int g * 4 :: rat) = of_int (4 * g)" by simp
    then have cmp: "int_eq_float g (Fin (of_int (int q) / 4)) \<longleftrightarrow> 4 * g = int q"
      "int_gt_float g (Fin (of_int (int q) / 4)) \<longleftrightarrow> int q < 4 * g"
      unfolding int_eq_float_def int_gt_float_def pyfloat.case eq_divide_eq_numeral1 divide_less_eq_numeral1
      by (simp_all only: of_int_eq_iff of_int_less_iff) simp
    have par: "4 * g \<noteq> int q + 1" "int q \<noteq> 4 * g + 1" using True by presburger+
    show ?thesis
      unfolding settle_totals_def assms(3) option.case prod.case Let_def line dbl cmp
      using True par by (auto simp: asian_quarters_def won_def)
  qed
qed

lemma parse_eh_draw_line: "parse_eh_draw (team @ '' '' @ show_signed_quarters l) = None"
proof -
  let ?q = "show_quarters (nat \<bar>l\<bar>)"
  have ne: "?q \<noteq> []" and dg: "is_digit (last ?q)" using last_show_quarters by blast+
  have "last ?q \<noteq> CHR '')''" using dg by (auto simp: is_digit_def code_def)
  moreover have "take 1 (rev (team @ '' '' @ show_signed_quarters l)) = [last ?q]"
    using ne by (cases ?q rule: rev_cases) (simp_all add: show_signed_quarters_def)
  ultimately show ?thesis by (simp add: parse_eh_draw_def endswith_def startswith_def)
qed

text \<open>The grade of a team leg at a line of \<open>l\<close> quarters when the team won by \<open>b\<close> goals.\<close>

definition handicap_grade :: "bool \<Rightarrow> int \<Rightarrow> int \<Rightarrow> outcome" where
  "handicap_grade tie_pushes l b =
     (if even l \<and> 4 * b + l = 0 \<and> \<not> tie_pushes then Lost else asian_quarters (4 * b + l))"

lemma settle_spreads_unfold:
  assumes l: "\<bar>l\<bar> < 2 ^ 50" and b: "\<bar>b\<bar> < 2 ^ 50"
    and team: "team \<noteq> []" "team \<noteq> ''Draw''"
    and base: "b = (if team = home then hs - as else as - hs)" "team = home \<or> team = away"
  shows "settle_spreads (team @ '' '' @ show_signed_quarters l) home away hs as tp = Ok (handicap_grade tp l b)"
proof -
  define m where "m = 4 * b + l"
  have bm: "\<bar>l\<bar> < 2 ^ 53" "\<bar>2 * l\<bar> < 2 ^ 53" "\<bar>4 * b + l\<bar> < 2 ^ 53" "\<bar>m - 1\<bar> < 2 ^ 53" "\<bar>m + 1\<bar> < 2 ^ 53"
    using l b by (auto simp: m_def)
  have rp: "rpartition_sp (team @ '' '' @ show_signed_quarters l) = (team, show_signed_quarters l)"
    by (rule rpartition_sp_last [OF show_signed_quarters_no_blank])
  have fb: "(if team = home then float_of_int (hs - as) else if team = away then float_of_int (as - hs)
      else Raise ValueError) = Ok (Fin (of_int (4 * b) / 4))"
    using base float_of_int_quarter [OF b] by auto
  have dbl: "is_integer (f_mul (Fin (of_int l / 4)) (Fin 2)) \<longleftrightarrow> even l"
    unfolding f_double_quarter [OF bm(2)] by (rule is_integer_half)
  have add: "f_add (Fin (of_int (4 * b) / 4)) (Fin (of_int l / 4)) = Fin (of_int m / 4)"
    unfolding m_def by (rule f_add_quarter [OF bm(3)])
  have lo: "f_sub (Fin (of_int m / 4)) (Fin (1 / 4)) = Fin (of_int (m - 1) / 4)"
    and hi: "f_add (Fin (of_int m / 4)) (Fin (1 / 4)) = Fin (of_int (m + 1) / 4)"
    using f_sub_quarter [OF bm(4)] f_add_quarter [OF bm(5)] by simp_all
  note eqs = settle_spreads_def parse_eh_draw_line rp parse_show_signed_quarters option.case prod.case Let_def
    f64_quarter [OF bm(1)] fb rbind_simps dbl add lo hi
  show ?thesis
  proof (cases "even l")
    case False
    then have "odd m" by (simp add: m_def)
    from combine_quarter_odd [OF this] False team show ?thesis
      unfolding eqs by (simp add: handicap_grade_def m_def)
  next
    case True
    then have "even m" by (simp add: m_def)
    then have "m \<noteq> 1" "m \<noteq> - 1" by auto
    with True team show ?thesis
      unfolding eqs by (auto simp: handicap_grade_def asian_quarters_def m_def [symmetric] f_lt_def)
  qed
qed

subsection \<open>Facts about the other markets\<close>

lemma settle_h2h_not_void: "settle_h2h sel h a hs as tp \<noteq> Ok Void"
  by (auto simp: settle_h2h_def won_def)

lemma dc_side_swap:
  "normalize_name h \<noteq> normalize_name a \<Longrightarrow>
     dc_side t a h = map_option (\<lambda>s. if s = Home then Away else Home) (dc_side t h a)"
  by (auto simp: dc_side_def Let_def)

lemma combine_quarter_cases:
  "combine_quarter cs = Ok oc \<Longrightarrow> oc \<in> {Won, Lost, Half_Won, Half_Lost}"
  by (auto simp: combine_quarter_def split: if_splits)

lemma won_not_half [simp]: "won b \<noteq> Void" "won b \<noteq> Half_Won" "won b \<noteq> Half_Lost" "won b \<noteq> Push"
  by (simp_all add: won_def)

lemma won_Won [simp]: "won b = Won \<longleftrightarrow> b"
  by (simp add: won_def)

lemma settle_totals_range: "settle_totals sel g = Ok oc \<Longrightarrow> oc \<noteq> Void"
  using combine_quarter_cases
  by (fastforce simp: settle_totals_def Let_def rbind_Ok_iff won_def split: option.splits prod.splits if_splits)

lemma combine_quarter_not_void [simp]: "combine_quarter cs \<noteq> Ok Void"
  by (simp add: combine_quarter_def)

lemma rmap_won_not_void [simp]: "rmap won r \<noteq> Ok Void"
  by (cases r) auto

lemma settle_spreads_range: "settle_spreads sel h a hs as tp \<noteq> Ok Void"
  unfolding settle_spreads_def
  by (simp add: Let_def rbind_def split: option.split prod.split sum.split)

lemma settle_double_chance_cases:
  "settle_double_chance sel h a hs as = Ok oc \<Longrightarrow> oc = Won \<or> oc = Lost"
  by (auto simp: settle_double_chance_def Let_def won_def split: list.splits if_splits option.splits)

lemma quantize_cents_mono:
  "x \<le> y \<Longrightarrow> quantize_cents x = Ok a \<Longrightarrow> quantize_cents y = Ok b \<Longrightarrow> a \<le> b"
  using round_half_even_mono [of "x * 100" "y * 100"]
  by (auto simp: quantize_cents_def cents_of_def divide_right_mono split: if_splits)

lemma quantize_cents_0 [simp]: "quantize_cents 0 = Ok 0"
  using round_half_even_of_int [of 0] by (simp add: quantize_cents_def cents_of_def)

subsection \<open>Properties\<close>

text \<open>C1: A totals selection at any line in quarter steps, written out as text, is graded as the
  textbook Asian rule says: Over by the margin of the score over the line (half outcomes on the
  quarter lines, push on the exact tie), and Under is always the opposite of Over.  So parsing,
  the float arithmetic and the split into two half stakes together implement the rule.\<close>

theorem settle_totals_asian:
  assumes "q < 2 ^ 50" "\<bar>g\<bar> < 2 ^ 50"
  shows "settle_totals (''Over '' @ show_quarters q) g = Ok (asian_quarters (4 * g - int q))
    \<and> settle_totals (''Under '' @ show_quarters q) g = Ok (opposite (asian_quarters (4 * g - int q)))"
proof -
  have "parse_totals (''Over '' @ show_quarters q) = Some (True, of_nat q / 4)"
    "parse_totals (''Under '' @ show_quarters q) = Some (False, of_nat q / 4)"
    by (simp_all add: parse_totals_def startswith_def parse_show_quarters)
  from this [THEN settle_totals_unfold [OF assms]] show ?thesis
    using asian_opposite [of "4 * g - int q"] by simp
qed

lemma show_quarters_9: "show_quarters 9 = ''2.25''"
  by code_simp

theorem settle_totals_asian_witness:
  "settle_totals ''Over 2.25'' 2 = Ok Half_Lost \<and> settle_totals ''Under 2.25'' 2 = Ok Half_Won"
  using settle_totals_asian [of 9 2] by (simp add: show_quarters_9 asian_quarters_def opposite_def)

text \<open>C2: A handicap selection of either team at any line in quarter steps is graded by the adjusted
  margin: quarter lines settle two half stakes, an adjusted tie on a whole line is a push in the
  two-way sports and a loss elsewhere, and everything else is a plain win or loss.\<close>

theorem settle_spreads_asian:
  assumes "\<bar>l\<bar> < 2 ^ 50" "\<bar>hs - as\<bar> < 2 ^ 50" "home \<noteq> away"
    and "home \<noteq> []" "home \<noteq> ''Draw''" "away \<noteq> []" "away \<noteq> ''Draw''"
  shows "settle_spreads (home @ '' '' @ show_signed_quarters l) home away hs as tp
      = Ok (handicap_grade tp l (hs - as))
    \<and> settle_spreads (away @ '' '' @ show_signed_quarters l) home away hs as tp
      = Ok (handicap_grade tp l (as - hs))"
  using settle_spreads_unfold [OF assms(1,2,4,5), of home hs as away tp]
    settle_spreads_unfold [OF assms(1) _ assms(6,7), of "as - hs" home hs as away tp] assms(2,3)
  by (simp add: abs_minus_commute)

theorem settle_spreads_asian_witness:
  "settle_spreads (''Ajax'' @ '' '' @ show_signed_quarters (- 1)) ''Ajax'' ''PSV'' 1 1 False = Ok Half_Lost
   \<and> settle_spreads (''PSV'' @ '' '' @ show_signed_quarters (- 1)) ''Ajax'' ''PSV'' 1 1 False = Ok Half_Lost"
  using settle_spreads_asian [of "- 1" 1 1 "''Ajax''" "''PSV''" False]
  by (simp add: handicap_grade_def asian_quarters_def)

text \<open>In a three-way moneyline (no two-way sport) exactly one of the three legs wins, whatever the
  score: the grades of the home, draw and away selections never overlap and never leave a gap.\<close>

theorem h2h_one_winner:
  assumes "0 \<le> hs" "0 \<le> as" "home \<noteq> away" "home \<noteq> ''Draw''" "away \<noteq> ''Draw''"
    and "\<not> sport_in sport two_way_h2h_sports"
  shows "\<exists>!sel. sel \<in> {home, ''Draw'', away} \<and>
    settle_selection ''h2h'' sel home away hs as sport detail = Ok Won"
proof -
  have eq: "settle_selection ''h2h'' sel home away hs as sport detail = settle_h2h sel home away hs as False" for sel
    using assms(1,2,6) by (simp add: settle_selection_def tennis_set_score_ungradeable_def)
  consider "hs > as" | "hs = as" | "as > hs" by linarith
  then show ?thesis
    unfolding eq settle_h2h_def using assms(3-5) by cases auto
qed

theorem h2h_one_winner_witness:
  "\<exists>!sel. sel \<in> {''Ajax'', ''Draw'', ''PSV''} \<and>
    settle_selection ''h2h'' sel ''Ajax'' ''PSV'' 2 2 (Some ''soccer'') None = Ok Won"
  by (rule h2h_one_winner) (simp_all add: sport_in_def two_way_h2h_sports_def)

text \<open>Double chance is graded independently of the orientation of the fixture: swapping the two
  teams together with their scores never changes the grade (nor whether there is one), so an event
  stored with home and away exchanged settles the same pick the same way.\<close>

theorem double_chance_orientation:
  assumes "normalize_name home \<noteq> normalize_name away"
  shows "settle_double_chance sel home away hs as = settle_double_chance sel away home as hs"
  unfolding settle_double_chance_def dc_side_swap [OF assms]
  by (auto simp: Let_def won_def insert_commute split: list.splits option.splits side.splits)

theorem double_chance_orientation_witness:
  "settle_double_chance ''Ajax or Draw'' ''Ajax'' ''PSV'' 0 1 = settle_double_chance ''Ajax or Draw'' ''PSV'' ''Ajax'' 1 0"
  by (rule double_chance_orientation) code_simp

text \<open>A tennis handicap is never graded from a set score unless its market detail names the sets
  axis, whatever the selection text, the line and the score: settlement refuses and the pick stays open.\<close>

theorem tennis_spreads_fail_closed:
  assumes "hs + as \<le> 5" "\<not> is_tennis_sets_spread_detail detail"
  shows "settle_selection ''spreads'' sel home away hs as (Some ''tennis'') detail = Raise ValueError"
  using assms by (simp add: settle_selection_def tennis_set_score_ungradeable_def tennis_max_set_sum_def)

theorem tennis_spreads_fail_closed_witness:
  "settle_selection ''spreads'' ''Muchova -1.5'' ''Muchova'' ''Swiatek'' 2 1 (Some ''tennis'') (Some ''spreads_minus_1_5'')
     = Raise ValueError"
  by (rule tennis_spreads_fail_closed) (simp, code_simp)

text \<open>Settlement from a final score never voids a bet, and half outcomes only come from the totals and
  handicap markets; every other market grades to won, lost or push.\<close>

theorem settle_selection_range:
  assumes "settle_selection market sel home away hs as sport detail = Ok oc"
  shows "oc \<noteq> Void \<and> (market \<noteq> ''totals'' \<and> market \<noteq> ''spreads'' \<longrightarrow> oc \<in> {Won, Lost, Push})"
  using assms settle_totals_range settle_spreads_range settle_double_chance_cases
  by (fastforce simp: settle_selection_def settle_h2h_def settle_btts_def settle_dnb_def Let_def won_def
      split: if_splits)

theorem settle_selection_range_witness:
  "settle_selection ''dnb'' ''Ajax'' ''Ajax'' ''PSV'' 1 1 None None = Ok Push \<and> Push \<noteq> Void"
proof -
  have "settle_selection ''dnb'' ''Ajax'' ''Ajax'' ''PSV'' 1 1 None None = Ok Push"
    by (simp add: settle_selection_def settle_dnb_def)
  with settle_selection_range [OF this] show ?thesis by simp
qed

text \<open>The five grades of one bet at odds of at least evens-minus (odds of 1 or more) are ordered: losing is never
  better than half losing, which never gains, and half winning never loses and never beats winning.
  The stake is an amount the decimal context represents; every rounding of the code is included.\<close>

theorem pick_pnl_order:
  assumes stake: "0 \<le> stake" "dec stake = stake" and odds: "1 \<le> odds"
    and l: "pick_pnl Lost stake odds None = Ok l" and hl: "pick_pnl Half_Lost stake odds None = Ok hl"
    and hw: "pick_pnl Half_Won stake odds None = Ok hw" and w: "pick_pnl Won stake odds None = Ok w"
  shows "l \<le> hl \<and> hl \<le> 0 \<and> 0 \<le> hw \<and> hw \<le> w"
proof -
  define k where "k = dec (odds - 1)"
  have k: "0 \<le> k" unfolding k_def using odds by (intro dec_nonneg) simp
  have half: "0 \<le> dec (stake / 2)" "dec (stake / 2) \<le> stake"
    using stake dec_nonneg [of "stake / 2"] dec_mono [of "stake / 2" stake] by auto
  have q: "quantize_cents (dec (- stake)) = Ok l" "quantize_cents (dec (dec (- stake) / 2)) = Ok hl"
    "quantize_cents (dec (dec (stake / 2) * k)) = Ok hw" "quantize_cents (dec (stake * k)) = Ok w"
    using l hl hw w by (simp_all add: pick_pnl_def net_odds_def k_def)
  have neg: "dec (- stake) \<le> 0" using stake by (simp add: dec_uminus)
  have "dec (- stake) \<le> dec (dec (- stake) / 2)"
    using dec_mono [of "dec (- stake)" "dec (- stake) / 2"] neg by simp
  moreover have "dec (dec (- stake) / 2) \<le> 0" using dec_mono [of "dec (- stake) / 2" 0] neg by simp
  moreover have "0 \<le> dec (dec (stake / 2) * k)" using half k by (intro dec_nonneg) simp
  moreover have "dec (dec (stake / 2) * k) \<le> dec (stake * k)"
    using half k by (intro dec_mono mult_right_mono) auto
  ultimately show ?thesis
    using quantize_cents_mono [OF _ q(1,2)] quantize_cents_mono [OF _ q(2) quantize_cents_0]
      quantize_cents_mono [OF _ quantize_cents_0 q(3)] quantize_cents_mono [OF _ q(3,4)] by blast
qed

theorem pick_pnl_order_witness:
  "(- 10 :: rat) \<le> - 5 \<and> - 5 \<le> (0 :: rat) \<and> (0 :: rat) \<le> 15 / 2 \<and> (15 / 2 :: rat) \<le> 15"
proof -
  have "dec 10 = 10" "pick_pnl Lost 10 (5 / 2) None = Ok (- 10)" "pick_pnl Half_Lost 10 (5 / 2) None = Ok (- 5)"
    "pick_pnl Half_Won 10 (5 / 2) None = Ok (15 / 2)" "pick_pnl Won 10 (5 / 2) None = Ok 15"
    by code_simp+
  from pick_pnl_order [OF _ this(1) _ this(2-5)] show ?thesis by simp
qed

text \<open>A stake of whole cents is lost to the cent, half of it for a half loss of an even number of cents,
  and a push or a void returns it: no rounding ever touches a losing or a returned stake.\<close>

theorem pick_pnl_exact:
  assumes "\<bar>n\<bar> < 10 ^ 27"
  shows "pick_pnl Lost (of_int n / 100) odds b = Ok (- (of_int n / 100))
    \<and> pick_pnl Half_Lost (of_int (2 * n) / 100) odds b = Ok (- (of_int n / 100))
    \<and> pick_pnl Push (of_int n / 100) odds b = Ok 0 \<and> pick_pnl Void (of_int n / 100) odds b = Ok 0"
proof -
  have q: "quantize_cents (of_int m / 100) = Ok (of_int m / 100)" if "\<bar>m\<bar> < 10 ^ 28" for m
    using round_half_even_of_int [of m] that by (simp add: quantize_cents_def cents_of_def)
  have n: "\<bar>- n\<bar> < 10 ^ 28" "\<bar>- (2 * n)\<bar> < 10 ^ 28" using assms by auto
  have net: "net_odds oc odds b = Ok odds" if "oc \<noteq> Won" "oc \<noteq> Half_Won" for oc
    using that by (simp add: net_odds_def split: option.split)
  have half: "of_int (- (2 * n)) / 100 / 2 = (of_int (- n) / 100 :: rat)" by simp
  show ?thesis
    using q [OF n(1)] dec_cents [OF n(1)] dec_cents [OF n(2)] half by (simp add: pick_pnl_def net)
qed

theorem pick_pnl_exact_witness: "pick_pnl Lost (1234 / 100) 2 None = Ok (- (1234 / 100))"
  using pick_pnl_exact [of 1234 2 None] by simp

text \<open>A retired tennis match grades the moneyline to exactly one player (the one who advanced), voids
  every other market, and is never graded without a known advancing side.\<close>

theorem retired_grades:
  assumes "home \<noteq> away"
  shows "settle_selection_retired ''h2h'' home home away (Some w) = Ok (won (w = Home))
    \<and> settle_selection_retired ''h2h'' away home away (Some w) = Ok (won (w = Away))
    \<and> (market \<noteq> ''h2h'' \<longrightarrow> settle_selection_retired market sel home away (Some w) = Ok Void)
    \<and> settle_selection_retired market sel home away None = Raise ValueError"
  using assms by (simp add: settle_selection_retired_def)

theorem retired_grades_witness:
  "settle_selection_retired ''h2h'' ''Nadal'' ''Nadal'' ''Sinner'' (Some Away) = Ok Lost"
  using retired_grades [of "''Nadal''" "''Sinner''" Away] by (simp add: won_def)

text \<open>The provisional grade shown before settlement is the settled one: when an outcome is shown it is
  the value of the outcome settlement computes for the same score, the shown amount is the settled profit
  and loss, and nothing is shown exactly when a score is missing or settlement refuses with a
  value or type error.\<close>

theorem provisional_agrees:
  assumes "provisional_result market sel home away hs as stake odds sport book detail = Ok (shown, pnl)"
  shows "(shown = None \<longleftrightarrow> hs = None \<or> as = None \<or>
      (\<exists>e. settle_selection market sel home away (the hs) (the as) sport detail = Raise e))
    \<and> (\<forall>v. shown = Some v \<longrightarrow> (\<exists>oc.
        settle_selection market sel home away (the hs) (the as) sport detail = Ok oc \<and> v = outcome_value oc
        \<and> (\<forall>p. pnl = Some p \<longrightarrow> pick_pnl oc (the stake) (the odds) book = Ok p)))"
proof (cases "hs = None \<or> as = None")
  case True
  with assms have "shown = None" by (auto simp: provisional_result_def split: option.splits)
  with True show ?thesis by auto
next
  case False
  then obtain h a where ha: "hs = Some h" "as = Some a" by auto
  show ?thesis
  proof (cases "settle_selection market sel home away h a sport detail")
    case (Inl e)
    with assms ha show ?thesis by (simp add: provisional_result_def split: if_splits)
  next
    case (Inr oc)
    with assms ha show ?thesis
      by (cases stake; cases odds) (auto simp: provisional_result_def rmap_Ok_iff)
  qed
qed

theorem provisional_agrees_witness:
  "\<exists>oc. settle_selection ''btts'' ''Yes'' ''Ajax'' ''PSV'' 1 2 None None = Ok oc \<and> ''won'' = outcome_value oc"
proof -
  have "provisional_result ''btts'' ''Yes'' ''Ajax'' ''PSV'' (Some 1) (Some 2) None None None None None
      = Ok (Some ''won'', None)"
    by (simp add: provisional_result_def settle_selection_def settle_btts_def outcome_value_def won_def)
  from provisional_agrees [OF this] show ?thesis by simp
qed

end
