(* ===== verification/FloatFacts.thy ===== *)
theory FloatFacts
  imports PyFloat
begin

text \<open>
  Further facts about binary64 used by the staking components: gradual underflow (a difference
  of two floats rounds to zero only when they are equal), the unit in the last place and the
  successor of a float, and a correctly rounded square root.
\<close>

subsection \<open>Gradual underflow\<close>

definition eta :: rat where
  "eta = 2 powi (- 1074)"

lemma eta_pos: "0 < eta" by (simp add: eta_def)

lemma rnd_multiple_pos:
  assumes "0 < x"
  shows "\<exists>m e. rnd x = of_int m * 2 powi e \<and> \<bar>m\<bar> \<le> 2 ^ 53 \<and> - 1074 \<le> e"
proof -
  define e where "e = last_place 2 53 (- 1074) x"
  define m where "m = round_half_even (x / 2 powi e)"
  have "rnd x = of_int m * 2 powi e"
    using assms by (simp add: rnd_def round_to_def m_def e_def Let_def)
  moreover have "of_int m \<le> (of_int (2 ^ 53) :: rat)"
    using round_to_digits [of 2 x 53 "- 1074"] assms by (simp add: m_def e_def)
  then have "m \<le> 2 ^ 53" by (simp only: of_int_le_iff)
  moreover have "0 \<le> m" unfolding m_def using assms by (intro int_le_round_half_even) simp
  moreover have "- 1074 \<le> e" by (simp add: e_def last_place_def)
  ultimately show ?thesis by force
qed

lemma is_f64_repr:
  assumes "is_f64 x"
  shows "\<exists>m e. x = of_int m * 2 powi e \<and> \<bar>m\<bar> \<le> 2 ^ 53 \<and> - 1074 \<le> e"
proof -
  have x: "rnd x = x" using assms by (simp add: is_f64_def)
  consider "x = 0" | "0 < x" | "0 < - x" by linarith
  then show ?thesis
  proof cases
    case 1
    then show ?thesis by (intro exI [of _ 0] exI [of _ 0]) simp
  next
    case 2
    then show ?thesis using rnd_multiple_pos x by metis
  next
    case 3
    from rnd_multiple_pos [OF this] obtain m e
      where "- x = of_int m * 2 powi e" "\<bar>m\<bar> \<le> 2 ^ 53" "- 1074 \<le> e"
      using x by (auto simp: rnd_uminus)
    then have "x = of_int (- m) * 2 powi e" "\<bar>- m\<bar> \<le> 2 ^ 53" "- 1074 \<le> e" by auto
    then show ?thesis by blast
  qed
qed

lemma powi_split: "l \<le> e \<Longrightarrow> (2 :: rat) powi e = 2 ^ nat (e - l) * 2 powi l"
  by (simp add: power_int_add [symmetric] flip: power_int_of_nat)

lemma is_f64_eta:
  assumes "is_f64 x"
  shows "\<exists>n. x = of_int n * eta"
proof -
  from is_f64_repr [OF assms] obtain m e where x: "x = of_int m * 2 powi e" and e: "- 1074 \<le> e" by blast
  define k where "k = nat (e - - 1074)"
  have "(2 :: rat) powi e = 2 ^ k * eta"
    unfolding eta_def k_def by (rule powi_split [OF e])
  then have "x = of_int (m * 2 ^ k) * eta" using x by simp
  then show ?thesis by blast
qed

lemma rnd_eta: "rnd eta = eta"
  using rnd_dyadic [of 1 "- 1074"] by (simp add: eta_def)

lemma rnd_pos_ge_eta: "eta \<le> x \<Longrightarrow> 0 < rnd x"
  using rep_le_rnd [OF rnd_eta, of x] eta_pos by linarith

lemma rnd_diff_pos:
  assumes "is_f64 a" "is_f64 b" "a < b"
  shows "0 < rnd (b - a)"
proof -
  from assms(1,2) [THEN is_f64_eta] obtain m n where mn: "a = of_int m * eta" "b = of_int n * eta" by blast
  then have "of_int m * eta < of_int n * eta" using assms(3) by simp
  then have "m < n" using eta_pos by (simp add: mult_less_cancel_right)
  then have "(1 :: rat) \<le> of_int (n - m)" by linarith
  then have "eta \<le> of_int (n - m) * eta" using eta_pos by simp
  also have "\<dots> = b - a" by (simp add: mn algebra_simps)
  finally show ?thesis by (rule rnd_pos_ge_eta)
qed

subsection \<open>The unit in the last place\<close>

definition ulp :: "rat \<Rightarrow> rat" where
  "ulp x = 2 powi last_place 2 53 (- 1074) x"

lemma ulp_pos: "0 < ulp x" by (simp add: ulp_def)

lemma ulp_mono: "0 < x \<Longrightarrow> x \<le> y \<Longrightarrow> ulp x \<le> ulp y"
  unfolding ulp_def using last_place_mono [of 2 x y 53 "- 1074"] by (intro power_int_increasing) auto

lemma ulp_1: "ulp 1 = 1 / 2 ^ 52"
  by code_simp

lemma rnd_error: "0 < x \<Longrightarrow> \<bar>rnd x - x\<bar> \<le> ulp x / 2"
  using round_to_error [of 2 x 53 "- 1074"] by (simp add: rnd_def ulp_def)

text \<open>The next float above a positive float.\<close>

lemma rnd_succ:
  assumes x: "0 < x" "rnd x = x"
  shows "rnd (x + ulp x) = x + ulp x"
proof -
  define e where "e = last_place 2 53 (- 1074) x"
  define m where "m = round_half_even (x / 2 powi e)"
  have e: "- 1074 \<le> e" by (simp add: e_def last_place_def)
  have xm: "x = of_int m * 2 powi e"
    using x by (simp add: rnd_def round_to_def m_def e_def Let_def)
  have "(0 :: rat) < 2 powi e" by simp
  then have "(0 :: rat) < of_int m" using x xm by (metis zero_less_mult_pos2)
  then have m: "0 < m" by simp
  have "ratlog 2 x < e + 53" by (auto simp: e_def last_place_def)
  then have "x < 2 powi (e + 53)" using ratlog_less_iff [of 2 x "e + 53"] x by simp
  also have "\<dots> = of_int (2 ^ 53) * 2 powi e" by (simp add: power_int_add)
  finally have "of_int m * 2 powi e < of_int (2 ^ 53) * (2 powi e :: rat)" using xm by simp
  then have "(of_int m :: rat) < of_int (2 ^ 53)" by (simp only: mult_less_cancel_right) simp
  then have mlt: "m < 2 ^ 53" by (simp only: of_int_less_iff)
  have sum: "x + ulp x = of_int (m + 1) * 2 powi e"
    unfolding ulp_def e_def [symmetric] by (subst xm) (simp add: algebra_simps)
  show ?thesis
  proof (cases "m + 1 < 2 ^ 53")
    case True
    then show ?thesis unfolding sum using m e by (intro rnd_dyadic) auto
  next
    case False
    then have "m + 1 = 2 ^ 53" using mlt by simp
    then have "x + ulp x = of_int 1 * 2 powi (e + 53)" unfolding sum by (simp add: power_int_add)
    then show ?thesis using e rnd_dyadic [of 1 "e + 53"] by simp
  qed
qed

text \<open>
  Adding back a rounded difference may overshoot, but by no more than one unit in the last
  place of the target.
\<close>

lemma rnd_refill_le:
  assumes u: "is_f64 u" "0 \<le> u" "u \<le> m" and m: "is_f64 m" "0 < m" and g: "g \<le> rnd (m - u)"
  shows "rnd (u + g) \<le> m + ulp m"
proof (cases "u = m")
  case True
  with g have "u + g \<le> m" by simp
  then have "rnd (u + g) \<le> m" using m by (intro rnd_le_rep) (auto simp: is_f64_def)
  then show ?thesis using ulp_pos [of m] by linarith
next
  case False
  then have d: "0 < m - u" using u by simp
  have "ulp (m - u) \<le> ulp m" using d u by (intro ulp_mono) auto
  then have "rnd (m - u) \<le> (m - u) + ulp m" using rnd_error [OF d] ulp_pos [of m] by linarith
  with g have "u + g \<le> m + ulp m" by linarith
  then show ?thesis using rnd_succ [of m] m by (intro rnd_le_rep) (auto simp: is_f64_def)
qed

subsection \<open>Square roots\<close>

function isqrt :: "int \<Rightarrow> int" where
  "isqrt n = (if n \<le> 0 then 0 else let r = 2 * isqrt (n div 4) in if (r + 1) * (r + 1) \<le> n then r + 1 else r)"
  by pat_completeness auto
termination by (relation "measure nat") auto

declare isqrt.simps [simp del]

lemma isqrt_spec: "0 \<le> n \<Longrightarrow> 0 \<le> isqrt n \<and> isqrt n * isqrt n \<le> n \<and> n < (isqrt n + 1) * (isqrt n + 1)"
proof (induction n rule: isqrt.induct)
  case (1 n)
  show ?case
  proof (cases "n \<le> 0")
    case True
    then show ?thesis using 1 by (simp add: isqrt.simps [of n] isqrt.simps [of 0])
  next
    case False
    define q r where "q = isqrt (n div 4)" and "r = 2 * q"
    have q: "0 \<le> q" "q * q \<le> n div 4" "n div 4 < (q + 1) * (q + 1)"
      using 1 False by (auto simp: q_def)
    have lo: "r * r \<le> n" using q(2) by (simp add: r_def)
    have "n < 4 * ((q + 1) * (q + 1))" using q(3) by linarith
    then have hi: "n < (r + 2) * (r + 2)" by (simp add: r_def algebra_simps)
    have eq: "isqrt n = (if (r + 1) * (r + 1) \<le> n then r + 1 else r)"
      using False by (simp add: isqrt.simps [of n] q_def r_def Let_def)
    show ?thesis using eq lo hi q(1) by (simp add: r_def algebra_simps)
  qed
qed

text \<open>
  \<^theory_text>\<open>math.sqrt\<close>: the exact root rounded once.  The root is bracketed by consecutive multiples of
  \<open>2 powi (- k)\<close>, finer than half a unit in the last place of the result, so rounding the lower
  end (when exact) or the middle of the bracket rounds the root itself.
\<close>

definition sqrt_scale :: "rat \<Rightarrow> nat" where
  "sqrt_scale x = nat (56 - ratlog 2 x div 2)"

definition sqrt_rat :: "rat \<Rightarrow> rat" where
  "sqrt_rat x = (let k = sqrt_scale x; n = \<lfloor>x * 4 ^ k\<rfloor>; s = isqrt n in
     if of_int (s * s) = x * 4 ^ k then rnd (of_int s / 2 ^ k) else rnd ((of_int s + 1 / 2) / 2 ^ k))"

definition f_sqrt :: "pyfloat \<Rightarrow> pyfloat res" where
  "f_sqrt f = (case f of Fin x \<Rightarrow> if x < 0 then Raise ValueError else Ok (Fin (if x = 0 then 0 else sqrt_rat x))
     | PInf \<Rightarrow> Ok PInf | NInf \<Rightarrow> Raise ValueError | NaN \<Rightarrow> Ok NaN)"

lemma sqrt_rat_ge_1: "1 \<le> x \<Longrightarrow> 1 \<le> sqrt_rat x"
proof -
  assume x: "1 \<le> x"
  define k where "k = sqrt_scale x"
  define s where "s = isqrt \<lfloor>x * 4 ^ k\<rfloor>"
  have "(of_int (4 ^ k) :: rat) \<le> x * 4 ^ k" using x by simp
  then have fl: "4 ^ k \<le> \<lfloor>x * 4 ^ k\<rfloor>" by (simp only: le_floor_iff)
  have nn: "0 \<le> \<lfloor>x * 4 ^ k\<rfloor>" using fl by (rule order_trans [rotated]) simp
  have "2 ^ k \<le> s"
  proof (rule ccontr)
    assume "\<not> 2 ^ k \<le> s"
    then have "s + 1 \<le> 2 ^ k" by simp
    then have "(s + 1) * (s + 1) \<le> 2 ^ k * 2 ^ k"
      using isqrt_spec [OF nn] unfolding s_def by (intro mult_mono) auto
    also have "(2 :: int) ^ k * 2 ^ k = 4 ^ k" by (simp flip: power_mult_distrib)
    finally show False using isqrt_spec [OF nn] fl unfolding s_def by linarith
  qed
  then have "(of_int (2 ^ k) :: rat) \<le> of_int s" by (simp only: of_int_le_iff)
  then have a: "(2 :: rat) ^ k \<le> of_int s" by simp
  then have b: "(2 :: rat) ^ k \<le> of_int s + 1 / 2" by linarith
  have pos: "(0 :: rat) < 2 ^ k" by simp
  have "1 \<le> (of_int s :: rat) / 2 ^ k" "1 \<le> (of_int s + 1 / 2 :: rat) / 2 ^ k"
    using le_divide_eq_1_pos [OF pos] a b by blast+
  then show ?thesis
    unfolding sqrt_rat_def Let_def k_def [symmetric] s_def [symmetric]
    by (auto intro: rep_le_rnd)
qed

subsection \<open>Taking one away from a price\<close>

lemma is_f64_range:
  assumes "rnd x = x" "\<bar>x\<bar> < 2 ^ 53" shows "is_f64 x"
  using assms big_range unfolding is_f64_def by (simp add: order_less_le_trans)

lemma is_f64_minus_1:
  assumes d: "is_f64 d" "1 \<le> d" "d < 2 ^ 53"
  shows "is_f64 (d - 1)"
proof (rule is_f64_range)
  obtain m e where r: "d = of_int m * 2 powi e" "\<bar>m\<bar> \<le> 2 ^ 53" "- 1074 \<le> e" using is_f64_repr [OF d(1)] by blast
  show "rnd (d - 1) = d - 1"
  proof (cases "e \<le> 0")
    case True
    have one: "(1 :: rat) = of_int (2 ^ nat (- e)) * 2 powi e" using powi_split [of e 0] True by simp
    have e: "d - 1 = of_int (m - 2 ^ nat (- e)) * 2 powi e"
      unfolding r(1) of_int_diff left_diff_distrib one [symmetric] ..
    have "0 \<le> of_int (m - 2 ^ nat (- e)) * (2 powi e :: rat)" using e d(2) by simp
    then have "0 \<le> (of_int (m - 2 ^ nat (- e)) :: rat)" using mult_le_cancel_right_pos [of "2 powi e :: rat" 0] by simp
    then have "0 \<le> m - 2 ^ nat (- e)" by (simp only: of_int_0_le_iff)
    moreover have "0 < (2 :: int) ^ nat (- e)" by simp
    ultimately have "\<bar>m - 2 ^ nat (- e)\<bar> < 2 ^ 53" using r(2) by linarith
    then show ?thesis unfolding e using rnd_dyadic r(3) by blast
  next
    case False
    define n where "n = m * 2 ^ nat e"
    have n: "d = of_int n" using False r(1) by (simp add: n_def power_int_def)
    then have "of_int 1 \<le> (of_int n :: rat)" "(of_int n :: rat) < of_int (2 ^ 53)" using d by simp_all
    then have "\<bar>n - 1\<bar> < 2 ^ 53" by (simp only: of_int_le_iff of_int_less_iff)
    then show ?thesis using rnd_of_int [of "n - 1"] n by simp
  qed
  show "\<bar>d - 1\<bar> < 2 ^ 53" using d by simp
qed

text \<open>So adding the one back gives the price.\<close>

lemma f64_minus_1: "is_f64 d \<Longrightarrow> 1 \<le> d \<Longrightarrow> d < 2 ^ 53 \<Longrightarrow> f64 (d - 1) = Fin (d - 1)"
  by (intro f64_rep is_f64_minus_1)

text \<open>The complement of a probability of at least one half is exact.\<close>

lemma is_f64_one_minus:
  assumes j: "is_f64 j" "1 / 2 \<le> j" "j \<le> 1"
  shows "is_f64 (1 - j)"
proof (rule is_f64_range)
  obtain m e where r: "j = of_int m * 2 powi e" "\<bar>m\<bar> \<le> 2 ^ 53" "- 1074 \<le> e" using is_f64_repr [OF j(1)] by blast
  show "rnd (1 - j) = 1 - j"
  proof (cases "e \<le> 0")
    case True
    have one: "(1 :: rat) = of_int (2 ^ nat (- e)) * 2 powi e" using powi_split [of e 0] True by simp
    have q: "0 < (2 powi e :: rat)" by simp
    have e: "1 - j = of_int (2 ^ nat (- e) - m) * 2 powi e"
      unfolding r(1) of_int_diff left_diff_distrib one [symmetric] ..
    have "of_int (2 ^ nat (- e)) * (2 powi e :: rat) \<le> of_int (2 * m) * 2 powi e"
      using j(2) one r(1) by simp
    then have "(of_int (2 ^ nat (- e)) :: rat) \<le> of_int (2 * m)" using q by (simp only: mult_le_cancel_right_pos)
    then have a: "2 ^ nat (- e) \<le> 2 * m" by (simp only: of_int_le_iff)
    have "of_int m * (2 powi e :: rat) \<le> of_int (2 ^ nat (- e)) * 2 powi e" using j(3) one r(1) by simp
    then have "(of_int m :: rat) \<le> of_int (2 ^ nat (- e))" using q by (simp only: mult_le_cancel_right_pos)
    then have b: "m \<le> 2 ^ nat (- e)" by (simp only: of_int_le_iff)
    show ?thesis
    proof (cases "m = 2 ^ 53")
      case True
      have "\<exists>k. 2 ^ nat (- e) - m = 2 * k \<and> \<bar>k\<bar> < 2 ^ 53"
      proof -
        have "nat (- e) \<noteq> 0" using True b by (intro notI) simp
        then have "2 ^ nat (- e) = 2 * (2 :: int) ^ (nat (- e) - 1)" by (cases "nat (- e)") simp_all
        then show ?thesis using True a b by (intro exI [of _ "2 ^ (nat (- e) - 1) - 2 ^ 52"]) auto
      qed
      then obtain k where k: "2 ^ nat (- e) - m = 2 * k" "\<bar>k\<bar> < 2 ^ 53" by blast
      have "1 - j = of_int k * 2 powi (e + 1)" unfolding e k(1) by (simp add: power_int_add_1)
      then show ?thesis using rnd_dyadic [OF k(2), of "e + 1"] r(3) by simp
    next
      case False
      then have "\<bar>2 ^ nat (- e) - m\<bar> < 2 ^ 53" using a b r(2) by linarith
      then show ?thesis unfolding e using rnd_dyadic r(3) by blast
    qed
  next
    case False
    define n where "n = m * 2 ^ nat e"
    have n: "j = of_int n" using False r(1) by (simp add: n_def power_int_def)
    have "n = 1"
    proof -
      have "(0 :: rat) < of_int n" "(of_int n :: rat) \<le> of_int 1" using j n by simp_all
      then have "0 < n" "n \<le> 1" by (simp_all only: of_int_0_less_iff of_int_le_iff)
      then show ?thesis by simp
    qed
    then show ?thesis using n by simp
  qed
  show "\<bar>1 - j\<bar> < 2 ^ 53" using j by simp
qed

end
