(* ===== verification/Staking.thy ===== *)
theory Staking
  imports FloatFacts
begin

text \<open>
  Fractional-Kelly sizing (\<^verbatim>\<open>app/risk/staking.py\<close>).  \<^theory_text>\<open>math.log\<close> is the C library's logarithm,
  whose last digit the language does not fix: it is the parameter \<open>log_fn\<close> of the two definitions
  that reach the drawdown constraint.
\<close>

subsection \<open>Kelly\<close>

definition kelly_fraction :: "pyfloat \<Rightarrow> pyfloat \<Rightarrow> pyfloat res" where
  "kelly_fraction probability decimal_odds =
     (if \<not> (f_le (Fin 0) probability \<and> f_le probability (Fin 1)) then Raise ValueError
      else if f_le decimal_odds (Fin 1) then Raise ValueError
      else let b = f_sub decimal_odds (Fin 1) in
        rmap (\<lambda>edge_per_unit. f_max edge_per_unit (Fin 0))
          (f_div (f_sub (f_mul b probability) (f_sub (Fin 1) probability)) b))"

record stake_policy =
  fractional_kelly :: pyfloat
  max_stake_fraction :: pyfloat
  max_drawdown :: "pyfloat option"
  max_drawdown_probability :: "pyfloat option"
  edge_uncertainty_coef :: "pyfloat option"

definition default_stake_policy :: stake_policy where
  "default_stake_policy = \<lparr>fractional_kelly = Fin (1 / 4), max_stake_fraction = f64 (2 / 100),
     max_drawdown = None, max_drawdown_probability = None, edge_uncertainty_coef = None\<rparr>"

subsection \<open>Multipliers\<close>

definition in_open_unit :: "pyfloat \<Rightarrow> bool" where
  "in_open_unit f = (f_lt (Fin 0) f \<and> f_lt f (Fin 1))"

definition drawdown_constrained_multiplier ::
  "(pyfloat \<Rightarrow> pyfloat) \<Rightarrow> pyfloat \<Rightarrow> pyfloat \<Rightarrow> pyfloat res" where
  "drawdown_constrained_multiplier log_fn md mp =
     (if \<not> in_open_unit md then Raise ValueError
      else if \<not> in_open_unit mp then Raise ValueError
      else let floor = f_sub (Fin 1) md in
        rbind (f_div (log_fn mp) (log_fn floor)) (\<lambda>q.
        rbind (f_div (Fin 2) (f_add (Fin 1) q)) (\<lambda>lam. Ok (f_min lam (Fin 1)))))"

definition uncertainty_multiplier :: "pyfloat \<Rightarrow> pyfloat \<Rightarrow> pyfloat \<Rightarrow> pyfloat res" where
  "uncertainty_multiplier base edge_variance coef =
     (if f_lt edge_variance (Fin 0) then Raise ValueError
      else if f_lt coef (Fin 0) then Raise ValueError
      else f_div base (f_add (Fin 1) (f_mul coef edge_variance)))"

record shrink_policy =
  shrink_enabled :: bool
  kappa :: pyfloat

definition shrink_policy_init :: "bool \<Rightarrow> pyfloat \<Rightarrow> shrink_policy res" where
  "shrink_policy_init e k = (if f_le k (Fin 0) then Raise ValueError
     else Ok \<lparr>shrink_enabled = e, kappa = k\<rparr>)"

definition uncertainty_phi :: "int \<Rightarrow> pyfloat \<Rightarrow> pyfloat res" where
  "uncertainty_phi n_eff k =
     (if f_le k (Fin 0) then Raise ValueError
      else if n_eff < 0 then Raise ValueError
      else rbind (float_of_int n_eff) (\<lambda>n. f_div n (f_add n k)))"

definition uncertainty_shrink :: "pyfloat \<Rightarrow> int \<Rightarrow> pyfloat \<Rightarrow> pyfloat res" where
  "uncertainty_shrink fraction n_eff k =
     (if f_lt fraction (Fin 0) then Raise ValueError
      else rmap (f_mul fraction) (uncertainty_phi n_eff k))"

definition correlation_haircut :: "int \<Rightarrow> pyfloat \<Rightarrow> pyfloat res" where
  "correlation_haircut n_legs rho =
     (if n_legs < 1 then Raise ValueError
      else if \<not> (f_le (Fin 0) rho \<and> f_lt rho (Fin 1)) then Raise ValueError
      else if n_legs = 1 \<or> f_eq rho (Fin 0) then Ok (Fin 1)
      else rbind (float_of_int (n_legs - 1)) (\<lambda>n.
           rbind (f_sqrt (f_add (Fin 1) (f_mul n rho))) (\<lambda>r. f_div (Fin 1) r)))"

definition effective_kelly_multiplier :: "(pyfloat \<Rightarrow> pyfloat) \<Rightarrow> stake_policy \<Rightarrow> pyfloat res" where
  "effective_kelly_multiplier log_fn policy =
     (case (max_drawdown policy, max_drawdown_probability policy) of
        (Some md, Some mp) \<Rightarrow>
          rmap (\<lambda>lam. f_min (fractional_kelly policy) lam) (drawdown_constrained_multiplier log_fn md mp)
      | _ \<Rightarrow> Ok (fractional_kelly policy))"

subsection \<open>The recommendation\<close>

record stake_breakdown =
  raw_kelly :: pyfloat
  fractional :: pyfloat
  capped :: bool
  final :: pyfloat

definition recommended_stake ::
  "(pyfloat \<Rightarrow> pyfloat) \<Rightarrow> pyfloat \<Rightarrow> pyfloat \<Rightarrow> stake_policy \<Rightarrow> pyfloat \<Rightarrow> int \<Rightarrow> pyfloat \<Rightarrow> stake_breakdown res" where
  "recommended_stake log_fn probability decimal_odds policy edge_variance correlated_legs avg_correlation =
     rbind (kelly_fraction probability decimal_odds) (\<lambda>raw.
     rbind (effective_kelly_multiplier log_fn policy) (\<lambda>m0.
     rbind (case edge_uncertainty_coef policy of
              Some coef \<Rightarrow> if f_lt (Fin 0) edge_variance then uncertainty_multiplier m0 edge_variance coef else Ok m0
            | None \<Rightarrow> Ok m0) (\<lambda>m1.
     rbind (if correlated_legs > 1 \<and> f_lt (Fin 0) avg_correlation
            then rmap (f_mul m1) (correlation_haircut correlated_legs avg_correlation) else Ok m1) (\<lambda>mult.
     let frac = f_mul raw mult in
     Ok \<lparr>raw_kelly = raw, fractional = frac, capped = f_lt (max_stake_fraction policy) frac,
         final = f_min frac (max_stake_fraction policy)\<rparr>))))"

definition stake_amount :: "pyfloat \<Rightarrow> rat \<Rightarrow> rat res" where
  "stake_amount fraction bankroll =
     (if f_lt fraction (Fin 0) then Raise ValueError
      else case fraction of Fin x \<Rightarrow> quantize_cents_half_up (dec (repr_float x * bankroll))
        | _ \<Rightarrow> Raise InvalidOperation)"

subsection \<open>Ranges of the building blocks\<close>

text \<open>\<open>unit_float k m\<close>: a finite float between zero and \<open>m\<close>.\<close>

definition float_in :: "pyfloat \<Rightarrow> rat \<Rightarrow> bool" where
  "float_in f m \<longleftrightarrow> (case f of Fin k \<Rightarrow> 0 \<le> k \<and> k \<le> m \<and> is_f64 k | _ \<Rightarrow> False)"

lemma float_in_Fin [simp]: "float_in (Fin k) m \<longleftrightarrow> 0 \<le> k \<and> k \<le> m \<and> is_f64 k"
  by (simp add: float_in_def)

lemma float_inE:
  assumes "float_in f m" obtains k where "f = Fin k" "0 \<le> k" "k \<le> m" "is_f64 k"
  using assms by (cases f) (auto simp: float_in_def)

lemma float_in_f64: "0 \<le> x \<Longrightarrow> x \<le> m \<Longrightarrow> is_f64 m \<Longrightarrow> float_in (f64 x) m"
  using f64_Fin_between [of 0 m x] by simp

lemma float_in_mono: "float_in f m \<Longrightarrow> m \<le> n \<Longrightarrow> float_in f n"
  by (cases f) (auto simp: float_in_def)

lemma f_max_0_range: "y \<le> m \<Longrightarrow> is_f64 m \<Longrightarrow> 0 \<le> m \<Longrightarrow> float_in (f_max (f64 y) (Fin 0)) m"
proof -
  assume y: "y \<le> m" "is_f64 m" "0 \<le> m"
  have le: "f_le (f64 y) (Fin m)" using f64_mono [OF y(1)] f64_rep [OF y(2)] by simp
  show ?thesis
  proof (cases "f64 y")
    case (Fin k)
    then have "is_f64 k" using f64_FinD by blast
    with Fin le y show ?thesis by (auto simp: max_def)
  next
    case NInf
    then show ?thesis using y by (simp add: f_max_def)
  qed (use le f64_cases [of y] in auto)
qed

lemma kelly_fraction_range:
  assumes p: "is_f64 p" "0 \<le> p" "p \<le> 1" and d: "is_f64 d" "1 < d"
  shows "\<exists>k. kelly_fraction (Fin p) (Fin d) = Ok k \<and> float_in k 1"
proof -
  define b where "b = rnd (d - 1)"
  have b: "f64 (d - 1) = Fin b" "0 < b" "is_f64 b"
    using f64_Fin_between [OF is_f64_0 d(1), of "d - 1"] rnd_diff_pos [OF is_f64_1 d] d(2) by (auto simp: b_def)
  have bp: "f64 (b * p) = Fin (rnd (b * p))" "0 \<le> rnd (b * p)" "rnd (b * p) \<le> b"
    using f64_Fin_between [OF is_f64_0 b(3), of "b * p"] b(2) p mult_left_le [of p b] by auto
  have q: "f64 (1 - p) = Fin (rnd (1 - p))" "0 \<le> rnd (1 - p)" "rnd (1 - p) \<le> 1"
    using f64_Fin_between [OF is_f64_0 is_f64_1, of "1 - p"] p by auto
  define n where "n = rnd (rnd (b * p) - rnd (1 - p))"
  have n1: "is_f64 (- 1)" using is_f64_uminus [OF is_f64_1] by simp
  have n: "f64 (rnd (b * p) - rnd (1 - p)) = Fin n" "n \<le> b"
    using f64_Fin_between [OF n1 b(3), of "rnd (b * p) - rnd (1 - p)"] bp q b(2) by (auto simp: n_def)
  have "kelly_fraction (Fin p) (Fin d) = Ok (f_max (f64 (n / b)) (Fin 0))"
    using p d b bp q n by (simp add: kelly_fraction_def Let_def)
  moreover have "float_in (f_max (f64 (n / b)) (Fin 0)) 1"
    using n(2) b(2) by (intro f_max_0_range) auto
  ultimately show ?thesis by blast
qed

lemma f_div_ge_1:
  assumes m: "is_f64 m" "0 \<le> m" and t: "1 \<le> t"
  shows "\<exists>r. f_div (Fin m) (Fin t) = Ok r \<and> float_in r m"
proof -
  have "m / t \<le> m" using m t by (simp add: divide_le_eq mult_left_le_one_le mult_le_cancel_left1)
  with m t show ?thesis using float_in_f64 [of "m / t" m] by simp
qed

lemma uncertainty_multiplier_range:
  assumes m: "is_f64 m" "0 \<le> m" and "0 \<le> v" "0 \<le> c"
  shows "\<exists>r. uncertainty_multiplier (Fin m) (Fin v) (Fin c) = Ok r \<and> float_in r m"
proof -
  have cv: "0 \<le> c * v" using assms by simp
  have ge1: "x = Fin t \<Longrightarrow> 1 \<le> t" if "f_le (Fin 1) x" for x t using that by simp
  have "f_add (Fin 1) (f64 (c * v)) = PInf \<or> (\<exists>t. f_add (Fin 1) (f64 (c * v)) = Fin t \<and> 1 \<le> t)"
  proof (cases "f64 (c * v)")
    case (Fin y)
    then have "0 \<le> y" using cv rnd_nonneg f64_FinD by metis
    then have "f_le (Fin 1) (f64 (1 + y))" using f64_mono [of 1 "1 + y"] f64_rep [OF is_f64_1] by simp
    with Fin show ?thesis by (cases "f64 (1 + y)") auto
  qed (use cv f64_cases [of "c * v"] in auto)
  then show ?thesis
  proof
    assume "f_add (Fin 1) (f64 (c * v)) = PInf"
    then show ?thesis using assms by (simp add: uncertainty_multiplier_def)
  next
    assume "\<exists>t. f_add (Fin 1) (f64 (c * v)) = Fin t \<and> 1 \<le> t"
    then obtain t where t: "f_add (Fin 1) (f64 (c * v)) = Fin t" "1 \<le> t" by blast
    show ?thesis using f_div_ge_1 [OF m t(2)] assms t(1) by (simp add: uncertainty_multiplier_def)
  qed
qed

lemma correlation_haircut_range:
  assumes n: "1 \<le> n" "n < 2 ^ 53" and r: "0 \<le> r" "r < 1"
  shows "\<exists>h. correlation_haircut n (Fin r) = Ok h \<and> float_in h 1"
proof (cases "n = 1 \<or> r = 0")
  case True
  then show ?thesis using n r by (auto simp: correlation_haircut_def)
next
  case False
  have n1: "\<bar>n - 1\<bar> < 2 ^ 53" "\<bar>n\<bar> < 2 ^ 53" using n by auto
  define k :: rat where "k = of_int (n - 1)"
  have k: "float_of_int (n - 1) = Ok (Fin k)" "0 \<le> k" "is_f64 k" "is_f64 (1 + k)"
    using float_of_int_small [OF n1(1)] is_f64_of_int [OF n1(1)] is_f64_of_int [OF n1(2)] n by (auto simp: k_def)
  define y where "y = rnd (k * r)"
  have y: "f64 (k * r) = Fin y" "0 \<le> y" "y \<le> k"
    using f64_Fin_between [OF is_f64_0 k(3), of "k * r"] k(2) r mult_left_le [of r k] by (auto simp: y_def)
  define x where "x = rnd (1 + y)"
  have x: "f64 (1 + y) = Fin x" "1 \<le> x"
    using f64_Fin_between [OF is_f64_1 k(4), of "1 + y"] y by (auto simp: x_def)
  have "correlation_haircut n (Fin r) = f_div (Fin 1) (Fin (sqrt_rat x))"
    using False n r k(1) y(1) x by (simp add: correlation_haircut_def f_sqrt_def)
  then show ?thesis using f_div_ge_1 [OF is_f64_1 _ sqrt_rat_ge_1 [OF x(2)]] by simp
qed


lemma f_mul_shrink: "is_f64 x \<Longrightarrow> 0 \<le> x \<Longrightarrow> float_in h 1 \<Longrightarrow> float_in (f_mul (Fin x) h) x"
  by (elim float_inE) (auto intro!: float_in_f64 simp: mult_left_le)

text \<open>The multiplier that reaches the stake, after the two optional shrinks.\<close>

definition tightened_multiplier :: "pyfloat \<Rightarrow> stake_policy \<Rightarrow> pyfloat \<Rightarrow> int \<Rightarrow> pyfloat \<Rightarrow> pyfloat res" where
  "tightened_multiplier m0 policy edge_variance correlated_legs avg_correlation =
     rbind (case edge_uncertainty_coef policy of
              Some coef \<Rightarrow> if f_lt (Fin 0) edge_variance then uncertainty_multiplier m0 edge_variance coef else Ok m0
            | None \<Rightarrow> Ok m0) (\<lambda>m1.
     if correlated_legs > 1 \<and> f_lt (Fin 0) avg_correlation
     then rmap (f_mul m1) (correlation_haircut correlated_legs avg_correlation) else Ok m1)"

lemma recommended_stake_alt:
  "recommended_stake log_fn p d policy v n r =
     rbind (kelly_fraction p d) (\<lambda>raw. rbind (effective_kelly_multiplier log_fn policy) (\<lambda>m0.
     rmap (\<lambda>mult. let frac = f_mul raw mult in
        \<lparr>raw_kelly = raw, fractional = frac, capped = f_lt (max_stake_fraction policy) frac,
         final = f_min frac (max_stake_fraction policy)\<rparr>) (tightened_multiplier m0 policy v n r)))"
  by (cases "kelly_fraction p d"; cases "effective_kelly_multiplier log_fn policy"; cases "edge_uncertainty_coef policy")
     (auto simp: recommended_stake_def tightened_multiplier_def rmap_def rbind_def Let_def split: sum.splits)

lemma tightened_multiplier_range:
  assumes m: "is_f64 m" "0 \<le> m" and v: "0 \<le> v" and n: "1 \<le> n" "n < 2 ^ 53" and r: "0 \<le> r" "r < 1"
    and coef: "\<forall>c. edge_uncertainty_coef policy = Some c \<longrightarrow> (\<exists>k \<ge> 0. c = Fin k)"
  shows "\<exists>t. tightened_multiplier (Fin m) policy (Fin v) n (Fin r) = Ok t \<and> float_in t m"
proof -
  have "\<exists>m1. (case edge_uncertainty_coef policy of
            Some c \<Rightarrow> if f_lt (Fin 0) (Fin v) then uncertainty_multiplier (Fin m) (Fin v) c else Ok (Fin m)
          | None \<Rightarrow> Ok (Fin m)) = Ok m1 \<and> float_in m1 m"
    using coef uncertainty_multiplier_range [OF m v] m by (auto split: option.splits)
  then obtain k where k: "(case edge_uncertainty_coef policy of
            Some c \<Rightarrow> if f_lt (Fin 0) (Fin v) then uncertainty_multiplier (Fin m) (Fin v) c else Ok (Fin m)
          | None \<Rightarrow> Ok (Fin m)) = Ok (Fin k)" and k2: "0 \<le> k" "k \<le> m" "is_f64 k"
    by (auto elim!: float_inE)
  obtain h where h: "correlation_haircut n (Fin r) = Ok h" "float_in h 1"
    using correlation_haircut_range [OF n r] by blast
  have "float_in (f_mul (Fin k) h) m" by (rule float_in_mono [OF f_mul_shrink]) (use k2 h in auto)
  then show ?thesis unfolding tightened_multiplier_def k using h k2 by simp
qed

text \<open>C30: a stake recommendation never fails on a legal price and probability, and it is safe: the
  fraction is between zero and the cap, \<open>capped\<close> says exactly whether the cap bit, and the two optional
  tightenings (estimation variance, correlated legs) can only lower the stake the plain policy gives.\<close>

theorem recommended_stake_safe:
  assumes p: "is_f64 p" "0 \<le> p" "p \<le> 1" and d: "is_f64 d" "1 < d"
    and m: "effective_kelly_multiplier log_fn policy = Ok (Fin m)" "is_f64 m" "0 \<le> m"
    and c: "max_stake_fraction policy = Fin c" "is_f64 c" "0 \<le> c"
    and v: "0 \<le> v" and n: "1 \<le> n" "n < 2 ^ 53" and r: "0 \<le> r" "r < 1"
    and coef: "\<forall>k. edge_uncertainty_coef policy = Some k \<longrightarrow> (\<exists>q \<ge> 0. k = Fin q)"
  shows "\<exists>s plain. recommended_stake log_fn (Fin p) (Fin d) policy (Fin v) n (Fin r) = Ok s
    \<and> recommended_stake log_fn (Fin p) (Fin d) policy (Fin 0) 1 (Fin 0) = Ok plain
    \<and> float_in (final s) c
    \<and> capped s = f_lt (Fin c) (fractional s)
    \<and> final s = (if capped s then Fin c else fractional s)
    \<and> f_le (fractional s) (fractional plain) \<and> f_le (final s) (final plain)"
proof -
  obtain k where k: "kelly_fraction (Fin p) (Fin d) = Ok (Fin k)" "0 \<le> k" "k \<le> 1" "is_f64 k"
    using kelly_fraction_range [OF p d] by (auto elim!: float_inE)
  obtain t where t: "tightened_multiplier (Fin m) policy (Fin v) n (Fin r) = Ok (Fin t)" "0 \<le> t" "t \<le> m" "is_f64 t"
    using tightened_multiplier_range [OF m(2,3) v n r coef] by (auto elim!: float_inE)
  have t0: "tightened_multiplier (Fin m) policy (Fin 0) 1 (Fin 0) = Ok (Fin m)"
    by (simp add: tightened_multiplier_def split: option.split)
  have fin: "\<exists>y. f64 (k * x) = Fin y \<and> 0 \<le> y \<and> is_f64 y" if "0 \<le> x" "is_f64 x" for x
    using float_in_f64 [of "k * x" x] k that mult_left_le_one_le [of x k] by (auto elim!: float_inE)
  obtain y where y: "f64 (k * t) = Fin y" "0 \<le> y" "is_f64 y" using fin t by blast
  obtain z where z: "f64 (k * m) = Fin z" "0 \<le> z" "is_f64 z" using fin m by blast
  have "y \<le> z" using f64_mono [of "k * t" "k * m"] k(2) t(3) y(1) z(1) by (simp add: mult_left_mono)
  then show ?thesis
    unfolding recommended_stake_alt using k t t0 y z m(1) c by (simp add: Let_def)
qed

lemma recommended_stake_safe_witness:
  "\<exists>s plain. recommended_stake (\<lambda>_. Fin 0) (Fin (3 / 4)) (Fin 2) (default_stake_policy\<lparr>edge_uncertainty_coef := Some (Fin 1)\<rparr>) (Fin 1) 2 (Fin (1 / 2)) = Ok s
    \<and> recommended_stake (\<lambda>_. Fin 0) (Fin (3 / 4)) (Fin 2) (default_stake_policy\<lparr>edge_uncertainty_coef := Some (Fin 1)\<rparr>) (Fin 0) 1 (Fin 0) = Ok plain
    \<and> float_in (final s) (rnd (2 / 100))
    \<and> capped s = f_lt (Fin (rnd (2 / 100))) (fractional s)
    \<and> final s = (if capped s then Fin (rnd (2 / 100)) else fractional s)
    \<and> f_le (fractional s) (fractional plain) \<and> f_le (final s) (final plain)"
proof (rule recommended_stake_safe [where m = "1 / 4"])
  show "is_f64 (3 / 4)" using is_f64_quarter [of 3] by simp
  show "is_f64 (rnd (2 / 100))" by (rule f64_Fin_between(4) [OF is_f64_0 is_f64_1]) simp_all
  show "max_stake_fraction (default_stake_policy\<lparr>edge_uncertainty_coef := Some (Fin 1)\<rparr>) = Fin (rnd (2 / 100))"
    by code_simp
  show "is_f64 (1 / 4)" using is_f64_quarter [of 1] by simp
qed (simp_all add: default_stake_policy_def effective_kelly_multiplier_def is_f64_of_int [of 2, simplified] rnd_nonneg)


subsection \<open>The optional shrinks\<close>

lemma f_add_ge:
  assumes a: "is_f64 a" and b: "0 \<le> b"
  shows "f_add (Fin a) (Fin b) = PInf \<or> (\<exists>t. f_add (Fin a) (Fin b) = Fin t \<and> a \<le> t)"
proof -
  have "f_le (Fin a) (f64 (a + b))" using f64_mono [of a "a + b"] f64_rep [OF a] b by simp
  then show ?thesis by (cases "f64 (a + b)") auto
qed

lemma uncertainty_phi_range:
  assumes n: "0 \<le> n" "n < 2 ^ 53" and k: "is_f64 k" "0 < k"
  shows "\<exists>f. uncertainty_phi n (Fin k) = Ok f \<and> float_in f 1"
proof -
  have n1: "\<bar>n\<bar> < 2 ^ 53" using n by simp
  have fn: "float_of_int n = Ok (Fin (of_int n))" "is_f64 (of_int n)" "(0::rat) \<le> of_int n"
    using float_of_int_small [OF n1] is_f64_of_int [OF n1] n by auto
  have "f_add (Fin (of_int n)) (Fin k) = PInf \<or> (\<exists>t. f_add (Fin (of_int n)) (Fin k) = Fin t \<and> k \<le> t \<and> of_int n \<le> t)"
    using f_add_ge [OF k(1) fn(3)] f_add_ge [OF fn(2), of k] k(2) by (auto simp: add.commute)
  then show ?thesis
  proof
    assume "f_add (Fin (of_int n)) (Fin k) = PInf"
    then show ?thesis using n k fn(1) by (simp add: uncertainty_phi_def)
  next
    assume "\<exists>t. f_add (Fin (of_int n)) (Fin k) = Fin t \<and> k \<le> t \<and> of_int n \<le> t"
    then obtain t where t: "f_add (Fin (of_int n)) (Fin k) = Fin t" "k \<le> t" "of_int n \<le> t" by blast
    then have "float_in (f64 (of_int n / t)) 1" using k(2) fn(3) by (intro float_in_f64) auto
    then show ?thesis using n k fn(1) t by (simp add: uncertainty_phi_def)
  qed
qed

text \<open>The small-sample shrink of a stake always returns, lies between zero and the stake it
  shrinks, and is half of it when the sample is exactly \<open>kappa\<close>.\<close>

theorem uncertainty_shrink_bounds:
  assumes "is_f64 x" "0 \<le> x" "0 \<le> n" "n < 2 ^ 52" "is_f64 k" "0 < k"
  shows "(\<exists>s. uncertainty_shrink (Fin x) n (Fin k) = Ok s \<and> float_in s x)
    \<and> (k = of_int n \<longrightarrow> uncertainty_shrink (Fin x) n (Fin k) = Ok (f64 (x / 2)))"
proof
  have n: "n < 2 ^ 53" using assms by simp
  obtain f where "uncertainty_phi n (Fin k) = Ok f" "float_in f 1"
    using uncertainty_phi_range [of n k] assms n by blast
  then show "\<exists>s. uncertainty_shrink (Fin x) n (Fin k) = Ok s \<and> float_in s x"
    using assms f_mul_shrink [of x f] by (simp add: uncertainty_shrink_def)
  show "k = of_int n \<longrightarrow> uncertainty_shrink (Fin x) n (Fin k) = Ok (f64 (x / 2))"
  proof
    assume k: "k = of_int n"
    have n0: "0 < n" "\<bar>n\<bar> < 2 ^ 53" "\<bar>2 * n\<bar> < 2 ^ 53" using assms k by auto
    have "f64 (k + k) = Fin (of_int (2 * n))" "f64 (1 / 2) = Fin (1 / 2)"
      using f64_rep [OF is_f64_of_int [OF n0(3)]] k f64_rep [OF is_f64_quarter [of 2]] by simp_all
    then show "uncertainty_shrink (Fin x) n (Fin k) = Ok (f64 (x / 2))"
      using assms n0 k float_of_int_small [OF n0(2)] by (simp add: uncertainty_shrink_def uncertainty_phi_def)
  qed
qed

lemma uncertainty_shrink_bounds_witness:
  "(\<exists>s. uncertainty_shrink (Fin 1) 50 (Fin (of_int 50)) = Ok s \<and> float_in s 1)
    \<and> uncertainty_shrink (Fin 1) 50 (Fin (of_int 50)) = Ok (f64 (1 / 2))"
  using uncertainty_shrink_bounds [of 1 50 "of_int 50"] is_f64_of_int [of 50] by auto

text \<open>With a logarithm that is negative below one and zero at one, the drawdown constraint gives a
  Kelly multiplier between zero and one for every admissible pair of knobs, except that it divides by
  zero when the tolerated drawdown is so small that \<open>1.0 - max_drawdown\<close> rounds to \<open>1.0\<close>.\<close>

theorem drawdown_multiplier_outcome:
  assumes log: "\<And>x. is_f64 x \<Longrightarrow> 0 < x \<Longrightarrow> x < 1 \<Longrightarrow> \<exists>y < 0. log_fn (Fin x) = Fin y" "log_fn (Fin 1) = Fin 0"
    and md: "is_f64 md" "0 < md" "md < 1" and mp: "is_f64 mp" "0 < mp" "mp < 1"
  shows "if rnd (1 - md) = 1 then drawdown_constrained_multiplier log_fn (Fin md) (Fin mp) = Raise ZeroDivisionError
    else \<exists>l. drawdown_constrained_multiplier log_fn (Fin md) (Fin mp) = Ok l \<and> float_in l 1"
proof -
  obtain z where z: "log_fn (Fin mp) = Fin z" "z < 0" using log(1) [OF mp] by blast
  have fl: "f64 (1 - md) = Fin (rnd (1 - md))" "rnd (1 - md) \<le> 1" "is_f64 (rnd (1 - md))" "0 < rnd (1 - md)"
    using f64_Fin_between [OF is_f64_0 is_f64_1, of "1 - md"] md rnd_diff_pos [OF md(1) is_f64_1 md(3)] by auto
  show ?thesis
  proof (cases "rnd (1 - md) = 1")
    case True
    then show ?thesis using md mp fl z log(2)
      by (simp add: drawdown_constrained_multiplier_def in_open_unit_def Let_def)
  next
    case False
    then obtain w where w: "log_fn (Fin (rnd (1 - md))) = Fin w" "w < 0" using log(1) [OF fl(3,4)] fl(2) by auto
    have q0: "0 \<le> z / w" using z w by (simp add: divide_nonpos_neg)
    have "f_add (Fin 1) (f64 (z / w)) = PInf \<or> (\<exists>t. f_add (Fin 1) (f64 (z / w)) = Fin t \<and> 1 \<le> t)"
    proof (cases "f64 (z / w)")
      case (Fin y)
      then have "0 \<le> y" using q0 rnd_nonneg f64_FinD by metis
      with Fin f_add_ge [OF is_f64_1, of y] show ?thesis by simp
    qed (use q0 f64_cases [of "z / w"] in auto)
    then obtain r where r: "f_div (Fin 2) (f_add (Fin 1) (f64 (z / w))) = Ok r" "float_in r 2"
      using f_div_ge_1 [of 2] is_f64_of_int [of 2] by fastforce
    have "float_in (f_min r (Fin 1)) 1" using r(2) by (elim float_inE) (auto simp: min_def)
    then show ?thesis using False md mp fl z w r
      by (simp add: drawdown_constrained_multiplier_def in_open_unit_def Let_def)
  qed
qed

definition sign_log :: "pyfloat \<Rightarrow> pyfloat" where
  "sign_log f = (if f_lt f (Fin 1) then Fin (- 1) else Fin 0)"

lemma drawdown_multiplier_outcome_witness:
  "(if rnd (1 - 1 / 2) = 1 then drawdown_constrained_multiplier sign_log (Fin (1 / 2)) (Fin (1 / 2)) = Raise ZeroDivisionError
    else \<exists>l. drawdown_constrained_multiplier sign_log (Fin (1 / 2)) (Fin (1 / 2)) = Ok l \<and> float_in l 1)
   \<and> (if rnd (1 - 1 / 2 ^ 60) = 1 then drawdown_constrained_multiplier sign_log (Fin (1 / 2 ^ 60)) (Fin (1 / 2)) = Raise ZeroDivisionError
    else \<exists>l. drawdown_constrained_multiplier sign_log (Fin (1 / 2 ^ 60)) (Fin (1 / 2)) = Ok l \<and> float_in l 1)"
proof -
  have half: "is_f64 (1 / 2)" using is_f64_quarter [of 2] by simp
  have tiny: "is_f64 (1 / 2 ^ 60)" by code_simp
  show ?thesis
    by (intro conjI drawdown_multiplier_outcome) (simp_all add: sign_log_def half tiny [simplified])
qed

text \<open>A tolerated drawdown of \<open>2 ** -60\<close> passes the range check of the policy and stops the sizing
  with a division by zero, for any logarithm that is zero at one.\<close>

theorem tiny_drawdown_divides_by_zero:
  assumes "log_fn (Fin 1) = Fin 0"
  shows "drawdown_constrained_multiplier log_fn (Fin (1 / 2 ^ 60)) (Fin (1 / 2)) = Raise ZeroDivisionError"
proof -
  have "f_sub (Fin 1) (Fin (1 / 2 ^ 60)) = Fin 1" "in_open_unit (Fin (1 / 2 ^ 60))" "in_open_unit (Fin (1 / 2))"
    by code_simp+
  then show ?thesis using assms
    by (cases "log_fn (Fin (1 / 2))") (simp_all add: drawdown_constrained_multiplier_def Let_def)
qed

lemma tiny_drawdown_divides_by_zero_witness:
  "drawdown_constrained_multiplier sign_log (Fin (1 / 2 ^ 60)) (Fin (1 / 2)) = Raise ZeroDivisionError"
  by (rule tiny_drawdown_divides_by_zero) (simp add: sign_log_def)

end
