(* ===== verification/Exposure.thy ===== *)
theory Exposure
  imports Staking
begin

text \<open>
  The daily exposure ledger (\<^verbatim>\<open>app/risk/exposure.py\<close>): per-day and per-event fractions of the
  bankroll already recommended, reserved up to a cap, released and preloaded.  A day is its
  ordinal.
\<close>

subsection \<open>State and operations\<close>

type_synonym day = int

record ledger =
  max_daily_fraction :: pyfloat
  max_event_fraction :: "pyfloat option"
  used_days :: "day \<rightharpoonup> pyfloat"
  used_events :: "day \<times> string \<rightharpoonup> pyfloat"

definition new_ledger :: "pyfloat \<Rightarrow> pyfloat option \<Rightarrow> ledger" where
  "new_ledger md me = \<lparr>max_daily_fraction = md, max_event_fraction = me,
     used_days = Map.empty, used_events = Map.empty\<rparr>"

definition used :: "ledger \<Rightarrow> day \<Rightarrow> pyfloat" where
  "used l day = get_default (used_days l) day (Fin 0)"

definition remaining :: "ledger \<Rightarrow> day \<Rightarrow> pyfloat" where
  "remaining l day = f_max (f_sub (max_daily_fraction l) (used l day)) (Fin 0)"

definition event_used :: "ledger \<Rightarrow> day \<Rightarrow> string \<Rightarrow> pyfloat" where
  "event_used l day ev = get_default (used_events l) (day, ev) (Fin 0)"

definition event_remaining :: "ledger \<Rightarrow> day \<Rightarrow> string \<Rightarrow> pyfloat" where
  "event_remaining l day ev = (case max_event_fraction l of
     None \<Rightarrow> remaining l day
   | Some m \<Rightarrow> f_max (f_sub m (event_used l day ev)) (Fin 0))"

definition grant :: "ledger \<Rightarrow> day \<Rightarrow> pyfloat \<Rightarrow> string option \<Rightarrow> pyfloat" where
  "grant l day fraction event_id =
     (let granted = f_min fraction (remaining l day) in
      case (max_event_fraction l, event_id) of
        (Some _, Some ev) \<Rightarrow> f_min granted (event_remaining l day ev)
      | _ \<Rightarrow> granted)"

definition reserve :: "ledger \<Rightarrow> day \<Rightarrow> pyfloat \<Rightarrow> string option \<Rightarrow> (ledger \<times> pyfloat) res" where
  "reserve l day fraction event_id =
     (if f_lt fraction (Fin 0) then Raise ValueError
      else let granted = grant l day fraction event_id in
        if f_lt (Fin 0) granted then
          let l1 = l\<lparr>used_days := (used_days l)(day \<mapsto> f_add (used l day) granted)\<rparr> in
          Ok (case event_id of None \<Rightarrow> l1
              | Some ev \<Rightarrow> l1\<lparr>used_events := (used_events l1)((day, ev) \<mapsto> f_add (event_used l1 day ev) granted)\<rparr>,
              granted)
        else Ok (l, granted))"

definition preload :: "ledger \<Rightarrow> day \<Rightarrow> pyfloat \<Rightarrow> ledger res" where
  "preload l day fraction =
     (if f_lt fraction (Fin 0) then Raise ValueError
      else Ok (l\<lparr>used_days := (used_days l)(day \<mapsto> fraction)\<rparr>))"

definition preload_event :: "ledger \<Rightarrow> day \<Rightarrow> string \<Rightarrow> pyfloat \<Rightarrow> ledger res" where
  "preload_event l day ev fraction =
     (if f_lt fraction (Fin 0) then Raise ValueError
      else Ok (l\<lparr>used_events := (used_events l)((day, ev) \<mapsto> fraction)\<rparr>))"

definition release :: "ledger \<Rightarrow> day \<Rightarrow> pyfloat \<Rightarrow> string option \<Rightarrow> ledger res" where
  "release l day fraction event_id =
     (if f_lt fraction (Fin 0) then Raise ValueError
      else if f_lt (Fin 0) fraction then
        let l1 = l\<lparr>used_days := (used_days l)(day \<mapsto> f_max (f_sub (used l day) fraction) (Fin 0))\<rparr> in
        Ok (case event_id of None \<Rightarrow> l1
            | Some ev \<Rightarrow> l1\<lparr>used_events := (used_events l1)((day, ev) \<mapsto>
                f_max (f_sub (event_used l1 day ev) fraction) (Fin 0))\<rparr>)
      else Ok l)"

text \<open>\<open>Counter\<close> of the event ids, in order of first occurrence, then the haircut of each count.\<close>

definition same_event_stake_multipliers :: "string list \<Rightarrow> pyfloat \<Rightarrow> (string \<times> pyfloat) list res" where
  "same_event_stake_multipliers event_ids rho =
     rmapM (\<lambda>ev. rmap (Pair ev) (correlation_haircut (int (count_list event_ids ev)) rho))
       (dedup_onto [] event_ids)"


subsection \<open>The contract of a capped account\<close>

text \<open>
  A quantity \<open>spent\<close> of the state is kept under a limit when every step of the machine either
  lowers it, sets it within the limit, or adds an amount that fits in the room left, the room and
  the sum being rounded to floats.  Rounding lets the sum pass the limit, by one unit in the last
  place of the limit at most: that is the bound the locale proves, for one step and for runs.
\<close>

definition room :: "rat \<Rightarrow> pyfloat \<Rightarrow> pyfloat" where
  "room m u = f_max (f_sub (Fin m) u) (Fin 0)"

definition fraction_cap :: "rat \<Rightarrow> bool" where
  "fraction_cap m \<longleftrightarrow> is_f64 m \<and> 0 < m \<and> m \<le> 1"

lemma fraction_capD: "fraction_cap m \<Longrightarrow> is_f64 m \<and> 0 < m \<and> m \<le> 1"
  by (simp add: fraction_cap_def)

lemma is_f64_cap_ulp: assumes "fraction_cap m" shows "is_f64 (m + ulp m)"
proof -
  have m: "is_f64 m" "0 < m" "m \<le> 1" using assms by (auto dest: fraction_capD)
  have "ulp m \<le> 1" using ulp_mono [of m 1] m by (simp add: ulp_1)
  then have "\<bar>m + ulp m\<bar> < 2 ^ 1024" using m ulp_pos [of m] big_range by (simp add: abs_if)
  then show ?thesis using rnd_succ [of m] m(1,2) by (simp add: is_f64_def)
qed

lemma room_cases:
  assumes "fraction_cap m" "float_in (Fin u) (m + ulp m)"
  shows "room m (Fin u) = (if u \<le> m then Fin (rnd (m - u)) else Fin 0)"
proof (cases "u \<le> m")
  case True
  then show ?thesis using f64_Fin_between [of 0 m "m - u"] fraction_capD [OF assms(1)] assms(2)
    by (simp add: room_def max_def)
next
  case False
  then have "f_le (f64 (m - u)) (Fin 0)" using f64_mono [of "m - u" 0] f64_rep [OF is_f64_0] by simp
  with False show ?thesis using f64_cases [of "m - u"] by (auto simp: room_def f_max_def)
qed

lemma refill_bounded:
  assumes m: "fraction_cap m" and u: "float_in u (m + ulp m)" and g: "f_lt (Fin 0) g" "f_le g (room m u)"
  shows "float_in (f_add u g) (m + ulp m)"
proof -
  obtain v where v: "u = Fin v" "0 \<le> v" "is_f64 v" using u by (auto elim!: float_inE)
  have r: "room m (Fin v) = (if v \<le> m then Fin (rnd (m - v)) else Fin 0)" using room_cases m u v by blast
  obtain k where k: "g = Fin k" "0 < k" "v \<le> m" "k \<le> rnd (m - v)"
    using g r v(1) by (cases g) (auto split: if_splits)
  have le: "rnd (v + k) \<le> m + ulp m" using rnd_refill_le [of v m k] v k fraction_capD [OF m] by simp
  have "0 \<le> rnd (v + k)" using v k by (intro rnd_nonneg) simp
  then have "f64 (v + k) = Fin (rnd (v + k)) \<and> is_f64 (rnd (v + k))"
    using le is_f64_cap_ulp [OF m] by (simp add: f64_def is_f64_def)
  then show ?thesis using v k le \<open>0 \<le> rnd (v + k)\<close> by simp
qed

locale capped_account =
  fixes spent :: "'s \<Rightarrow> pyfloat" and limit :: "'s \<Rightarrow> pyfloat option" and step :: "'s \<Rightarrow> 's \<Rightarrow> bool"
  assumes limit_step: "step s s' \<Longrightarrow> limit s' = limit s"
    and move: "step s s' \<Longrightarrow> limit s = Some (Fin m) \<Longrightarrow> fraction_cap m \<Longrightarrow> float_in (spent s) b \<Longrightarrow>
      float_in (spent s') b \<or> float_in (spent s') m
      \<or> (\<exists>g. spent s' = f_add (spent s) g \<and> f_lt (Fin 0) g \<and> f_le g (room m (spent s)))"
begin

lemma step_bounded:
  assumes "step s s'" "limit s = Some (Fin m)" "fraction_cap m" "float_in (spent s) (m + ulp m)"
  shows "float_in (spent s') (m + ulp m)"
  using move [OF assms] assms refill_bounded [of m "spent s"] ulp_pos [of m]
  by (auto intro: float_in_mono)

lemma run_bounded:
  assumes "step\<^sup>*\<^sup>* s s'" "limit s = Some (Fin m)" "fraction_cap m" "float_in (spent s) (m + ulp m)"
  shows "limit s' = Some (Fin m) \<and> float_in (spent s') (m + ulp m)"
  using assms by (induction rule: rtranclp_induct) (auto simp: limit_step intro: step_bounded)

end


subsection \<open>The ledger as a machine\<close>

text \<open>
  Steps of a process that reserves and releases at will and seeds the ledger, at startup, with
  persisted totals that are within the caps.  A request that raises leaves the ledger as it was.
\<close>

inductive ledger_step :: "ledger \<Rightarrow> ledger \<Rightarrow> bool" where
  reserve_step: "reserve l day fraction ev = Ok (l', g) \<Longrightarrow> ledger_step l l'"
| release_step: "release l day fraction ev = Ok l' \<Longrightarrow> ledger_step l l'"
| preload_step: "max_daily_fraction l = Fin m \<Longrightarrow> float_in fraction m \<Longrightarrow>
    preload l day fraction = Ok l' \<Longrightarrow> ledger_step l l'"
| preload_event_step: "max_event_fraction l = Some (Fin m) \<Longrightarrow> float_in fraction m \<Longrightarrow>
    preload_event l day ev fraction = Ok l' \<Longrightarrow> ledger_step l l'"

inductive_cases ledger_stepE: "ledger_step l l'"

lemma f_le_refl_pos: "f_lt (Fin 0) a \<Longrightarrow> f_le a a"
  by (cases a) auto

lemma room_not_NaN: "float_in u b \<Longrightarrow> room m u \<noteq> NaN"
  by (elim float_inE) (auto simp: room_def f_max_def f64_def Let_def)

lemma f_min_left: "f_lt (Fin 0) (f_min a b) \<Longrightarrow> f_lt (Fin 0) a \<and> f_le (f_min a b) a"
  by (cases a; cases b) (auto simp: f_min_def split: if_splits)

lemma f_min_right: "f_lt (Fin 0) (f_min a b) \<Longrightarrow> b \<noteq> NaN \<Longrightarrow> f_lt (Fin 0) b \<and> f_le (f_min a b) b"
  by (cases a; cases b) (auto simp: f_min_def split: if_splits)

lemma grant_cases:
  obtains "grant l day fraction ev = f_min fraction (remaining l day)"
      "ev = None \<or> max_event_fraction l = None"
  | e m where "ev = Some e" "max_event_fraction l = Some m"
      "grant l day fraction ev = f_min (f_min fraction (remaining l day)) (event_remaining l day e)"
  by (cases ev; cases "max_event_fraction l") (auto simp: grant_def)

lemma grant_le:
  assumes "f_lt (Fin 0) (grant l day fraction ev)"
  shows "f_le (grant l day fraction ev) fraction"
    and "remaining l day \<noteq> NaN \<Longrightarrow> f_le (grant l day fraction ev) (remaining l day)"
    and "ev = Some e \<Longrightarrow> max_event_fraction l = Some m \<Longrightarrow> event_remaining l day e \<noteq> NaN \<Longrightarrow>
      f_le (grant l day fraction ev) (event_remaining l day e)"
proof -
  let ?h = "f_min fraction (remaining l day)"
  have g: "f_le (grant l day fraction ev) ?h \<and> f_lt (Fin 0) ?h"
    by (cases rule: grant_cases [of l day fraction ev])
       (use assms f_min_left [of ?h] in \<open>auto intro: f_le_refl_pos\<close>)
  show "f_le (grant l day fraction ev) fraction"
    using g f_min_left [of fraction] f_le_trans by blast
  show "remaining l day \<noteq> NaN \<Longrightarrow> f_le (grant l day fraction ev) (remaining l day)"
    using g f_min_right [of fraction] f_le_trans by blast
  show "ev = Some e \<Longrightarrow> max_event_fraction l = Some m \<Longrightarrow> event_remaining l day e \<noteq> NaN \<Longrightarrow>
      f_le (grant l day fraction ev) (event_remaining l day e)"
    by (cases rule: grant_cases [of l day fraction ev])
       (use assms f_min_right [of ?h "event_remaining l day e"] in auto)
qed

lemma room_ge_0: "float_in u b \<Longrightarrow> f_le (Fin 0) (room m u)"
  using room_not_NaN [of u b m] by (cases "room m u") (auto simp: room_def f_max_def split: if_splits)

lemma room_range: "fraction_cap m \<Longrightarrow> float_in u (m + ulp m) \<Longrightarrow> float_in (room m u) m"
  using room_cases f64_Fin_between [of 0 m] by (elim float_inE) (auto dest!: fraction_capD)

lemma f_min_room:
  assumes "float_in h b" shows "float_in (f_min h (f_max (f_sub p q) (Fin 0))) b"
proof -
  have w: "wf_float (f_sub p q)" by (cases p; cases q) (simp_all add: f_sub_def wf_float_def wf_f64 [unfolded wf_float_def])
  show ?thesis using assms w
    by (elim float_inE) (cases "f_sub p q"; auto simp: f_min_def f_max_def wf_float_def)
qed

lemma release_range:
  assumes "float_in u b" "f_lt (Fin 0) fraction"
  shows "float_in (f_max (f_sub u fraction) (Fin 0)) b"
proof -
  obtain k where k: "u = Fin k" "0 \<le> k" "k \<le> b" "is_f64 k" using assms(1) by (rule float_inE)
  show ?thesis
  proof (cases fraction)
    case (Fin q)
    then show ?thesis using k assms(2) f_max_0_range [of "k - q" k] float_in_mono by auto
  qed (use k assms(2) in \<open>auto simp: f_sub_def f_max_def\<close>)
qed

lemma remaining_room: "max_daily_fraction l = Fin m \<Longrightarrow> remaining l day = room m (used l day)"
  by (simp add: remaining_def room_def)

lemma event_remaining_room:
  "max_event_fraction l = Some (Fin m) \<Longrightarrow> event_remaining l day ev = room m (event_used l day ev)"
  by (simp add: event_remaining_def room_def)

lemma reserve_Ok_iff:
  "reserve l day fraction ev = Ok (l', g) \<longleftrightarrow> \<not> f_lt fraction (Fin 0) \<and> g = grant l day fraction ev \<and>
     l' = (if f_lt (Fin 0) g
           then l\<lparr>used_days := (used_days l)(day \<mapsto> f_add (used l day) g),
                  used_events := (case ev of None \<Rightarrow> used_events l
                    | Some e \<Rightarrow> (used_events l)((day, e) \<mapsto> f_add (event_used l day e) g))\<rparr>
           else l)"
  by (auto simp: reserve_def Let_def event_used_def split: option.splits)

lemma release_Ok_iff:
  "release l day fraction ev = Ok l' \<longleftrightarrow> \<not> f_lt fraction (Fin 0) \<and>
     l' = (if f_lt (Fin 0) fraction
           then l\<lparr>used_days := (used_days l)(day \<mapsto> f_max (f_sub (used l day) fraction) (Fin 0)),
                  used_events := (case ev of None \<Rightarrow> used_events l
                    | Some e \<Rightarrow> (used_events l)((day, e) \<mapsto> f_max (f_sub (event_used l day e) fraction) (Fin 0)))\<rparr>
           else l)"
  by (auto simp: release_def Let_def event_used_def split: option.splits)

lemma preload_Ok_iff:
  "preload l day fraction = Ok l' \<longleftrightarrow> \<not> f_lt fraction (Fin 0) \<and>
     l' = l\<lparr>used_days := (used_days l)(day \<mapsto> fraction)\<rparr>"
  by (auto simp: preload_def)

lemma preload_event_Ok_iff:
  "preload_event l day ev fraction = Ok l' \<longleftrightarrow> \<not> f_lt fraction (Fin 0) \<and>
     l' = l\<lparr>used_events := (used_events l)((day, ev) \<mapsto> fraction)\<rparr>"
  by (auto simp: preload_event_def)

lemmas ledger_ops = reserve_Ok_iff release_Ok_iff preload_Ok_iff preload_event_Ok_iff

interpretation daily: capped_account "\<lambda>l. used l day" "\<lambda>l. Some (max_daily_fraction l)" ledger_step for day
proof
  show "Some (max_daily_fraction s') = Some (max_daily_fraction s)" if "ledger_step s s'" for s s'
    using that by cases (auto simp: ledger_ops)
next
  fix s s' m b
  assume st: "ledger_step s s'" and m: "Some (max_daily_fraction s) = Some (Fin m)"
    and cap: "fraction_cap m" and b: "float_in (used s day) b"
  from st show "float_in (used s' day) b \<or> float_in (used s' day) m
      \<or> (\<exists>g. used s' day = f_add (used s day) g \<and> f_lt (Fin 0) g \<and> f_le g (room m (used s day)))"
  proof cases
    case (reserve_step d fraction ev g)
    have "remaining s day \<noteq> NaN" if "f_lt (Fin 0) (grant s day fraction ev)"
      using m b room_not_NaN by (simp add: remaining_room)
    then show ?thesis using reserve_step b m grant_le(2) [of s day fraction ev]
      by (auto simp: ledger_ops used_def remaining_room split: if_splits)
  next
    case (release_step d fraction ev)
    then show ?thesis using b release_range by (auto simp: ledger_ops used_def)
  qed (use b m in \<open>auto simp: ledger_ops used_def\<close>)
qed

interpretation per_event: capped_account "\<lambda>l. event_used l day ev" max_event_fraction ledger_step for day ev
proof
  show "max_event_fraction s' = max_event_fraction s" if "ledger_step s s'" for s s'
    using that by cases (auto simp: ledger_ops)
next
  fix s s' m b
  assume st: "ledger_step s s'" and m: "max_event_fraction s = Some (Fin m)"
    and cap: "fraction_cap m" and b: "float_in (event_used s day ev) b"
  from st show "float_in (event_used s' day ev) b \<or> float_in (event_used s' day ev) m
      \<or> (\<exists>g. event_used s' day ev = f_add (event_used s day ev) g \<and> f_lt (Fin 0) g
           \<and> f_le g (room m (event_used s day ev)))"
  proof cases
    case (reserve_step d fraction e g)
    have "event_remaining s day ev \<noteq> NaN"
      using m b room_not_NaN by (simp add: event_remaining_room)
    then show ?thesis using reserve_step b m grant_le(3) [of s day fraction "Some ev" ev]
      by (auto simp: ledger_ops event_used_def event_remaining_room split: if_splits option.splits)
  next
    case (release_step d fraction e)
    then show ?thesis using b release_range by (auto simp: ledger_ops event_used_def split: option.splits)
  qed (use b m in \<open>auto simp: ledger_ops event_used_def\<close>)
qed


subsection \<open>Correctness of the ledger\<close>

lemma ulp_nonneg_cap: "fraction_cap m \<Longrightarrow> 0 \<le> m + ulp m"
  using ulp_pos [of m] by (auto dest: fraction_capD)

text \<open>C26: whatever is reserved, released and preloaded (within the caps), on any day and for any event
  the exposure is a nonnegative float that passes its cap by one unit in the last place at most: the
  daily total the daily cap, the per-event total the per-event cap when there is one.\<close>

theorem exposure_bounded:
  assumes m: "fraction_cap m" and run: "ledger_step\<^sup>*\<^sup>* (new_ledger (Fin m) me) l"
  shows "float_in (used l day) (m + ulp m)
    \<and> (\<forall>e. me = Some (Fin e) \<longrightarrow> fraction_cap e \<longrightarrow> float_in (event_used l day ev) (e + ulp e))"
proof (intro conjI allI impI)
  show "float_in (used l day) (m + ulp m)"
    using daily.run_bounded [OF run _ m] ulp_nonneg_cap [OF m] by (simp add: new_ledger_def used_def)
  show "float_in (event_used l day ev) (e + ulp e)" if "me = Some (Fin e)" "fraction_cap e" for e
    using per_event.run_bounded [OF run _ that(2)] ulp_nonneg_cap [OF that(2)] that(1)
    by (simp add: new_ledger_def event_used_def)
qed

lemma exposure_bounded_witness:
  "\<exists>l. ledger_step\<^sup>*\<^sup>* (new_ledger (Fin (1 / 4)) (Some (Fin (1 / 8)))) l \<and> used l 7 = Fin (1 / 8)
    \<and> float_in (used l 7) (1 / 4 + ulp (1 / 4))
    \<and> float_in (event_used l 7 ''e'') (1 / 8 + ulp (1 / 8))"
proof -
  define l0 where "l0 = new_ledger (Fin (1 / 4)) (Some (Fin (1 / 8)))"
  define r where "r = reserve l0 7 (Fin 1) (Some ''e'')"
  have g: "grant l0 7 (Fin 1) (Some ''e'') = Fin (1 / 8)" and a: "f_add (Fin 0) (Fin (1 / 8)) = Fin (1 / 8)"
    unfolding l0_def by code_simp+
  then obtain l where l: "r = Ok (l, Fin (1 / 8))" "used l 7 = Fin (1 / 8)"
    unfolding r_def by (auto simp: ledger_ops used_def l0_def new_ledger_def)
  have "ledger_step\<^sup>*\<^sup>* l0 l" using l(1) unfolding r_def by (blast intro: reserve_step)
  moreover have "fraction_cap (1 / 4)" "fraction_cap (1 / 8)" by code_simp+
  ultimately show ?thesis using exposure_bounded [of "1 / 4" "Some (Fin (1 / 8))" l 7 "''e''"] l(2)
    unfolding l0_def by (intro exI [of _ l] conjI) auto
qed

text \<open>A request that is not negative is never refused with an exception; what it is granted is never
  more than it asked for nor than the room of the day and of the event; the grant is booked exactly
  once, on the day and on the event asked for, and nothing else changes.\<close>

theorem reserve_correct:
  assumes l: "max_daily_fraction l = Fin m" "fraction_cap m" "float_in (used l day) (m + ulp m)"
    and x: "is_f64 x" "0 \<le> x"
  shows "\<exists>l' g. reserve l day (Fin x) (Some ev) = Ok (l', g)
    \<and> float_in g x \<and> f_le g (remaining l day)
    \<and> (\<forall>e. max_event_fraction l = Some (Fin e) \<longrightarrow> float_in (event_used l day ev) (e + ulp e) \<longrightarrow>
         f_le g (event_remaining l day ev))
    \<and> (f_eq g (Fin 0) \<longrightarrow> l' = l)
    \<and> (f_lt (Fin 0) g \<longrightarrow> used l' day = f_add (used l day) g \<and> event_used l' day ev = f_add (event_used l day ev) g)
    \<and> (\<forall>d. d \<noteq> day \<longrightarrow> used l' d = used l d)
    \<and> (\<forall>d e. (d, e) \<noteq> (day, ev) \<longrightarrow> event_used l' d e = event_used l d e)"
proof -
  have r: "remaining l day = room m (used l day)" using remaining_room l(1) by blast
  obtain k where k: "remaining l day = Fin k" "0 \<le> k" "is_f64 k"
    using room_range [of m "used l day"] l unfolding r by (auto elim!: float_inE)
  let ?g = "grant l day (Fin x) (Some ev)"
  have "float_in ?g (min x k)"
  proof (cases "max_event_fraction l")
    case None
    then show ?thesis using k x by (simp add: grant_def min_def)
  next
    case (Some q)
    then have "event_remaining l day ev = f_max (f_sub q (event_used l day ev)) (Fin 0)" by (simp add: event_remaining_def)
    moreover have "float_in (Fin (min x k)) (min x k)" using k x by (simp add: min_def)
    ultimately show ?thesis using f_min_room [of "Fin (min x k)"] k Some by (simp add: grant_def)
  qed
  then obtain g where g: "?g = Fin g" "0 \<le> g" "g \<le> x" "g \<le> k" "is_f64 g" by (auto elim!: float_inE)
  have e: "f_le ?g (event_remaining l day ev)"
    if "max_event_fraction l = Some (Fin e)" "float_in (event_used l day ev) (e + ulp e)" for e
  proof (cases "g = 0")
    case True
    then show ?thesis using g(1) that room_ge_0 [OF that(2)] by (simp add: event_remaining_room)
  next
    case False
    then show ?thesis using g that room_not_NaN [OF that(2)]
        grant_le(3) [of l day "Fin x" "Some ev" ev] by (simp add: event_remaining_room)
  qed
  show ?thesis
    unfolding ledger_ops using g k x e by (auto simp: used_def event_used_def)
qed

lemma reserve_correct_witness:
  "\<exists>l' g. reserve (new_ledger (Fin (1 / 4)) (Some (Fin (1 / 8)))) 7 (Fin 1) (Some ''e'') = Ok (l', g)
    \<and> float_in g 1 \<and> f_le g (remaining (new_ledger (Fin (1 / 4)) (Some (Fin (1 / 8)))) 7)"
proof -
  have "fraction_cap (1 / 4)" by code_simp
  then show ?thesis
    using reserve_correct [of "new_ledger (Fin (1 / 4)) (Some (Fin (1 / 8)))" "1 / 4" 7 1 "''e''"]
    by (auto simp: new_ledger_def used_def ulp_nonneg_cap)
qed

text \<open>Rounding can push the booked total past the cap: with a cap of \<open>0.15\<close> and \<open>0.015\<close> already used,
  reserving everything that remains books more than \<open>0.15\<close>.\<close>

theorem exposure_overshoots_cap:
  "case reserve (new_ledger (f64 (15 / 100)) None) 1 (f64 (15 / 1000)) None of
     Inr (l, _) \<Rightarrow> (case reserve l 1 (Fin 1) None of
        Inr (l', g) \<Rightarrow> g = remaining l 1 \<and> f_lt (max_daily_fraction l') (used l' 1)
      | Inl _ \<Rightarrow> False)
   | Inl _ \<Rightarrow> False"
  by code_simp

text \<open>Handing back the grant of an idle day and event frees both completely, and a release larger
  than what is booked leaves zero, never a negative total.\<close>

theorem release_correct:
  assumes u: "float_in (used l day) b" and e: "float_in (event_used l day ev) b" and x: "is_f64 x" "0 \<le> x"
  shows "\<exists>l'. release l day (Fin x) (Some ev) = Ok l'
    \<and> float_in (used l' day) b \<and> float_in (event_used l' day ev) b
    \<and> f_le (used l' day) (used l day) \<and> f_le (event_used l' day ev) (event_used l day ev)
    \<and> (f_le (used l day) (Fin x) \<longrightarrow> used l' day = Fin 0)
    \<and> (\<forall>d. d \<noteq> day \<longrightarrow> used l' d = used l d)
    \<and> (\<forall>d f. (d, f) \<noteq> (day, ev) \<longrightarrow> event_used l' d f = event_used l d f)"
proof -
  obtain u where u: "used l day = Fin u" "0 \<le> u" "u \<le> b" "is_f64 u" using u by (rule float_inE)
  obtain v where v: "event_used l day ev = Fin v" "0 \<le> v" "v \<le> b" "is_f64 v" using e by (rule float_inE)
  show ?thesis
  proof (cases "x = 0")
    case True
    then show ?thesis using u v by (simp add: ledger_ops)
  next
    case False
    then have x0: "f_lt (Fin 0) (Fin x)" using x by simp
    have d: "float_in (f_max (f_sub (Fin u) (Fin x)) (Fin 0)) u" "float_in (f_max (f_sub (Fin v) (Fin x)) (Fin 0)) v"
      by (rule release_range [OF _ x0]; use u v in simp)+
    have z: "f_max (f_sub (Fin u) (Fin x)) (Fin 0) = Fin 0" if "u \<le> x"
      using d(1) f64_mono [of "u - x" 0] f64_rep [OF is_f64_0] that
      by (elim float_inE) (cases "f64 (u - x)"; auto simp: f_max_def split: if_splits)
    show ?thesis using d u v x x0 z
      by (auto simp: ledger_ops used_def event_used_def elim!: float_inE)
  qed
qed

lemma release_correct_witness:
  "\<exists>l'. release (new_ledger (Fin (1 / 4)) None\<lparr>used_days := [7 \<mapsto> Fin (1 / 8)]\<rparr>) 7 (Fin 1) (Some ''e'') = Ok l'
    \<and> used l' 7 = Fin 0"
proof -
  have "is_f64 (1 / 8)" by code_simp
  then show ?thesis
    using release_correct [of "new_ledger (Fin (1 / 4)) None\<lparr>used_days := [7 \<mapsto> Fin (1 / 8)]\<rparr>" 7 1 "''e''" 1]
    by (auto simp: new_ledger_def used_def event_used_def)
qed

text \<open>The same-event multipliers list every event of the batch once, each with a shrinking factor
  between zero and one, and one exactly for an event with a single leg.\<close>

theorem same_event_multipliers_shrink:
  assumes "is_f64 r" "0 \<le> r" "r < 1" "length event_ids < 2 ^ 53"
  shows "\<exists>ms. same_event_stake_multipliers event_ids (Fin r) = Ok ms
    \<and> map fst ms = dedup_onto [] event_ids \<and> distinct (map fst ms) \<and> set (map fst ms) = set event_ids
    \<and> (\<forall>(ev, k) \<in> set ms. float_in k 1 \<and> (count_list event_ids ev = 1 \<longrightarrow> k = Fin 1))"
proof -
  have c: "\<exists>k. correlation_haircut (int (count_list event_ids ev)) (Fin r) = Ok k \<and> float_in k 1
      \<and> (count_list event_ids ev = 1 \<longrightarrow> k = Fin 1)" if "ev \<in> set event_ids" for ev
  proof -
    have "count_list event_ids ev \<noteq> 0" "count_list event_ids ev \<le> length event_ids"
      using that by (simp_all add: count_list_0_iff count_le_length)
    then have "1 \<le> int (count_list event_ids ev)" "int (count_list event_ids ev) < 2 ^ 53" using assms(4) by auto
    from correlation_haircut_range [OF this assms(2,3)] show ?thesis
      using assms(2,3) by (cases "count_list event_ids ev = 1") (auto simp: correlation_haircut_def [of 1])
  qed
  have "\<exists>ms. rmapM (\<lambda>ev. rmap (Pair ev) (correlation_haircut (int (count_list event_ids ev)) (Fin r))) evs = Ok ms
      \<and> map fst ms = evs \<and> (\<forall>(ev, k) \<in> set ms. float_in k 1 \<and> (count_list event_ids ev = 1 \<longrightarrow> k = Fin 1))"
    if "set evs \<subseteq> set event_ids" for evs
    using that
  proof (induction evs)
    case (Cons e evs)
    then show ?case using c [of e] by fastforce
  qed simp
  from this [of "dedup_onto [] event_ids"] show ?thesis
    unfolding same_event_stake_multipliers_def by fastforce
qed

lemma same_event_multipliers_shrink_witness:
  "\<exists>ms. same_event_stake_multipliers [''a'', ''b'', ''a''] (Fin (1 / 2)) = Ok ms \<and> map fst ms = [''a'', ''b'']
    \<and> (\<forall>(ev, k) \<in> set ms. float_in k 1 \<and> (count_list [''a'', ''b'', ''a''] ev = 1 \<longrightarrow> k = Fin 1))"
proof -
  have h: "is_f64 (1 / 2)" by code_simp
  show ?thesis using same_event_multipliers_shrink [OF h, of "[''a'', ''b'', ''a'']"] by fastforce
qed

end
