(* ===== verification/PyTime.thy ===== *)
theory PyTime
  imports PyFloat
begin

text \<open>
  Python's \<^verbatim>\<open>datetime\<close> and \<^verbatim>\<open>timedelta\<close> on the UTC clock the code uses: an instant is the number of
  microseconds since the first of January of year 1, a duration a number of microseconds.
  \<^verbatim>\<open>timedelta(seconds=x)\<close> takes the whole seconds exactly and rounds the product of the fractional part
  with a million to the nearest microsecond, ties to even; instants outside years 1 to 9999
  raise; \<^verbatim>\<open>total_seconds\<close> is the correctly rounded quotient by a million.
\<close>

type_synonym time = int
type_synonym duration = int

definition max_time :: time where "max_time = 3652059 * 86400 * 10 ^ 6 - 1"

definition max_duration :: duration where "max_duration = 10 ^ 9 * 86400 * 10 ^ 6 - 1"

definition trunc_rat :: "rat \<Rightarrow> int" where
  "trunc_rat x = (if 0 \<le> x then \<lfloor>x\<rfloor> else \<lceil>x\<rceil>)"

definition timedelta_seconds :: "pyfloat \<Rightarrow> duration res" where
  "timedelta_seconds f = (case f of
     Fin x \<Rightarrow> (let whole = trunc_rat x;
                   us = (case f64 (10 ^ 6 * (x - of_int whole)) of Fin y \<Rightarrow> round_half_even y | _ \<Rightarrow> 0);
                   d = whole * 10 ^ 6 + us
               in if - (10 ^ 9 - 1) * 86400 * 10 ^ 6 \<le> d \<and> d \<le> max_duration then Ok d else Raise OverflowError)
   | NaN \<Rightarrow> Raise ValueError
   | _ \<Rightarrow> Raise OverflowError)"

definition time_add :: "time \<Rightarrow> duration \<Rightarrow> time res" where
  "time_add t d = (if 0 \<le> t + d \<and> t + d \<le> max_time then Ok (t + d) else Raise OverflowError)"

definition time_plus_seconds :: "time \<Rightarrow> pyfloat \<Rightarrow> time res" where
  "time_plus_seconds t f = rbind (timedelta_seconds f) (time_add t)"

definition time_minus_seconds :: "time \<Rightarrow> pyfloat \<Rightarrow> time res" where
  "time_minus_seconds t f = rbind (timedelta_seconds f) (\<lambda>d. time_add t (- d))"

definition total_seconds :: "duration \<Rightarrow> pyfloat" where
  "total_seconds d = f64 (of_int d / 10 ^ 6)"

text \<open>The calendar day of an instant (\<^verbatim>\<open>.date()\<close>), as an ordinal.\<close>

definition day_of :: "time \<Rightarrow> int" where
  "day_of t = t div (86400 * 10 ^ 6)"

lemma trunc_rat_of_int [simp]: "trunc_rat (of_int n) = n" by (simp add: trunc_rat_def)

lemma trunc_rat_0 [simp]: "trunc_rat 0 = 0" using trunc_rat_of_int [of 0] by simp

lemma timedelta_whole_seconds:
  assumes "\<bar>n\<bar> < 10 ^ 9 * 86400"
  shows "timedelta_seconds (Fin (of_int n)) = (if - (10 ^ 9 - 1) * 86400 \<le> n then Ok (n * 10 ^ 6) else Raise OverflowError)"
  using assms f64_rep [OF is_f64_0] round_half_even_of_int [of 0]
  by (auto simp: timedelta_seconds_def max_duration_def Let_def)

lemma total_seconds_mono: "a \<le> b \<Longrightarrow> f_le (total_seconds a) (total_seconds b)"
  unfolding total_seconds_def by (intro f64_mono) (simp add: divide_right_mono)

lemma total_seconds_whole: "\<bar>n\<bar> < 2 ^ 53 \<Longrightarrow> total_seconds (n * 10 ^ 6) = Fin (of_int n)"
  using f64_rep [OF is_f64_of_int [of n]] by (simp add: total_seconds_def)

lemma time_plus_seconds_Ok:
  "time_plus_seconds t f = Ok u \<longleftrightarrow> (\<exists>d. timedelta_seconds f = Ok d \<and> u = t + d \<and> 0 \<le> u \<and> u \<le> max_time)"
  by (auto simp: time_plus_seconds_def rbind_Ok_iff time_add_def split: if_splits)

lemma time_minus_seconds_Ok:
  "time_minus_seconds t f = Ok u \<longleftrightarrow> (\<exists>d. timedelta_seconds f = Ok d \<and> u = t - d \<and> 0 \<le> u \<and> u \<le> max_time)"
  by (auto simp: time_minus_seconds_def rbind_Ok_iff time_add_def split: if_splits)

end
