(* ===== verification/ProxyHealth.thy ===== *)
theory ProxyHealth
  imports Prelude PyTime "HOL-Library.AList"
begin

text \<open>
  The proxy health registry (\<^verbatim>\<open>app/ingestion/proxy_health.py\<close>): per-index failure counters,
  quarantine with a half-open probe, and rotation filters that fail open.  The injected clock is an
  argument: each operation takes the instants its clock reads return.  The slot dictionary is an
  association list in insertion order, the failure log a bounded list.  Log output is not modelled.
\<close>

subsection \<open>State\<close>

record proxy_slot =
  successes :: int
  failures :: int
  consecutive_failures :: int
  last_success_at :: "time option"
  last_failure_at :: "time option"
  last_error_class :: "string option"
  quarantined_until :: "time option"
  probe_claimed_until :: "time option"

definition fresh_slot :: proxy_slot where
  "fresh_slot = \<lparr>successes = 0, failures = 0, consecutive_failures = 0, last_success_at = None,
     last_failure_at = None, last_error_class = None, quarantined_until = None, probe_claimed_until = None\<rparr>"

datatype slot_state = Healthy | Quarantined | Half_Open

definition slot_state :: "proxy_slot \<Rightarrow> time \<Rightarrow> slot_state" where
  "slot_state s now = (case quarantined_until s of
     None \<Rightarrow> Healthy
   | Some q \<Rightarrow> if now < q then Quarantined else Half_Open)"

record registry =
  threshold :: int
  cooldown_seconds :: pyfloat
  half_open_claim_seconds :: pyfloat
  slots :: "(int \<times> proxy_slot) list"
  failure_log :: "(time \<times> string) list"
  fail_open_events :: int
  last_fail_open_log :: "time option"

definition failure_log_maxlen :: nat where "failure_log_maxlen = 4096"

definition new_registry :: registry where
  "new_registry = \<lparr>threshold = 3, cooldown_seconds = Fin 900, half_open_claim_seconds = Fin 30,
     slots = [], failure_log = [], fail_open_events = 0, last_fail_open_log = None\<rparr>"

definition configure_registry :: "int \<Rightarrow> pyfloat \<Rightarrow> registry \<Rightarrow> registry" where
  "configure_registry n cd r = r\<lparr>threshold := n, cooldown_seconds := cd\<rparr>"

definition slot_of :: "registry \<Rightarrow> int \<Rightarrow> proxy_slot" where
  "slot_of r i = (case map_of (slots r) i of None \<Rightarrow> fresh_slot | Some s \<Rightarrow> s)"

definition put_slot :: "int \<Rightarrow> proxy_slot \<Rightarrow> registry \<Rightarrow> registry" where
  "put_slot i s r = r\<lparr>slots := AList.update i s (slots r)\<rparr>"

text \<open>A bounded deque drops its oldest entries.\<close>

definition push_log :: "time \<times> string \<Rightarrow> (time \<times> string) list \<Rightarrow> (time \<times> string) list" where
  "push_log x xs = (let ys = xs @ [x] in drop (length ys - failure_log_maxlen) ys)"

subsection \<open>Recording\<close>

definition record_success :: "int \<Rightarrow> time \<Rightarrow> registry \<Rightarrow> registry" where
  "record_success i now r = (let s = slot_of r i in
     put_slot i (s\<lparr>successes := successes s + 1, consecutive_failures := 0, last_success_at := Some now,
                   quarantined_until := None, probe_claimed_until := None\<rparr>) r)"

text \<open>The counters are updated before the cooldown is computed, so they stay updated when the
  computation of the end of the quarantine raises.\<close>

definition record_failure :: "int \<Rightarrow> string \<Rightarrow> time \<Rightarrow> registry \<Rightarrow> registry \<times> unit res" where
  "record_failure i error_class now r =
     (let s = slot_of r i;
          s1 = s\<lparr>failures := failures s + 1, consecutive_failures := consecutive_failures s + 1,
                 last_failure_at := Some now, last_error_class := Some error_class\<rparr>;
          r1 = (put_slot i s1 r)\<lparr>failure_log := push_log (now, error_class) (failure_log r)\<rparr>
      in if threshold r \<le> consecutive_failures s1
         then case time_plus_seconds now (cooldown_seconds r) of
                Inl e \<Rightarrow> (r1, Raise e)
              | Inr q \<Rightarrow> (put_slot i (s1\<lparr>quarantined_until := Some q, probe_claimed_until := None\<rparr>) r1, Ok ())
         else (r1, Ok ()))"

subsection \<open>Selection\<close>

definition eligible_at :: "registry \<Rightarrow> int \<Rightarrow> time \<Rightarrow> bool" where
  "eligible_at r i now = (case map_of (slots r) i of
     None \<Rightarrow> True
   | Some s \<Rightarrow> (case slot_state s now of
       Healthy \<Rightarrow> True
     | Quarantined \<Rightarrow> False
     | Half_Open \<Rightarrow> \<not> (case probe_claimed_until s of None \<Rightarrow> False | Some c \<Rightarrow> now < c)))"

text \<open>\<open>_eligible\<close>: with \<open>claim\<close> the check of a half-open slot also takes its probe claim.\<close>

definition eligible :: "registry \<Rightarrow> int \<Rightarrow> time \<Rightarrow> bool \<Rightarrow> (registry \<times> bool) res" where
  "eligible r i now claim = (case map_of (slots r) i of
     None \<Rightarrow> Ok (r, True)
   | Some s \<Rightarrow> (case slot_state s now of
       Healthy \<Rightarrow> Ok (r, True)
     | Quarantined \<Rightarrow> Ok (r, False)
     | Half_Open \<Rightarrow>
         if (case probe_claimed_until s of None \<Rightarrow> False | Some c \<Rightarrow> now < c) then Ok (r, False)
         else if claim
           then rmap (\<lambda>c. (put_slot i (s\<lparr>probe_claimed_until := Some c\<rparr>) r, True))
                  (time_plus_seconds now (half_open_claim_seconds r))
           else Ok (r, True)))"

definition note_fail_open :: "time \<Rightarrow> registry \<Rightarrow> registry" where
  "note_fail_open now r = (let r1 = r\<lparr>fail_open_events := fail_open_events r + 1\<rparr> in
     case last_fail_open_log r of
       None \<Rightarrow> r1\<lparr>last_fail_open_log := Some now\<rparr>
     | Some prev \<Rightarrow> if f_le (Fin 60) (total_seconds (now - prev)) then r1\<lparr>last_fail_open_log := Some now\<rparr> else r1)"

definition half_open_slot :: "registry \<Rightarrow> time \<Rightarrow> int \<Rightarrow> bool" where
  "half_open_slot r now i = (case map_of (slots r) i of None \<Rightarrow> False | Some s \<Rightarrow> slot_state s now = Half_Open)"

fun rotation_loop :: "registry \<Rightarrow> time \<Rightarrow> int list \<Rightarrow> int list \<Rightarrow> int list \<Rightarrow> (int list \<times> int list) res" where
  "rotation_loop r now [] healthy half_open = Ok (healthy, half_open)"
| "rotation_loop r now (i # order) healthy half_open =
     rbind (eligible r i now False) (\<lambda>(r', ok).
       if \<not> ok then rotation_loop r' now order healthy half_open
       else if half_open_slot r' now i then rotation_loop r' now order healthy (half_open @ [i])
       else rotation_loop r' now order (healthy @ [i]) half_open)"

definition filter_rotation :: "int list \<Rightarrow> time \<Rightarrow> time \<Rightarrow> registry \<Rightarrow> (registry \<times> int list) res" where
  "filter_rotation order now now' r =
     rmap (\<lambda>(healthy, half_open). let out = healthy @ half_open in
        if out \<noteq> [] \<or> order = [] then (r, out) else (note_fail_open now' r, order))
       (rotation_loop r now order [] [])"

fun select_loop :: "registry \<Rightarrow> time \<Rightarrow> int list \<Rightarrow> (registry \<times> int option) res" where
  "select_loop r now [] = Ok (r, None)"
| "select_loop r now (i # order) =
     rbind (eligible r i now True) (\<lambda>(r', ok). if ok then Ok (r', Some i) else select_loop r' now order)"

definition select :: "int list \<Rightarrow> time \<Rightarrow> time \<Rightarrow> registry \<Rightarrow> (registry \<times> int option) res" where
  "select order now now' r =
     (if order = [] then Ok (r, None)
      else rmap (\<lambda>(r', found). case found of
             Some i \<Rightarrow> (r', Some i)
           | None \<Rightarrow> (note_fail_open now' r', Some (hd order))) (select_loop r now order))"

subsection \<open>Diagnostics\<close>

record slot_row =
  row_index :: int
  row_state :: slot_state
  row_successes :: int
  row_failures :: int
  row_consecutive :: int
  row_last_success :: "time option"
  row_last_failure :: "time option"
  row_error_class :: "string option"

definition slot_row_of :: "registry \<Rightarrow> time \<Rightarrow> int \<Rightarrow> slot_row" where
  "slot_row_of r now i = (let s = slot_of r i in
     \<lparr>row_index = i, row_state = slot_state s now, row_successes = successes s, row_failures = failures s,
      row_consecutive = consecutive_failures s, row_last_success = last_success_at s,
      row_last_failure = last_failure_at s, row_error_class = last_error_class s\<rparr>)"

datatype category = Cat_Healthy | Cat_Quarantined | Cat_Probing | Cat_Dead

text \<open>The counter a recorded index below the pool size goes to (none is counted for a healthy slot).\<close>

definition slot_category :: "registry \<Rightarrow> time \<Rightarrow> int \<Rightarrow> int \<Rightarrow> category" where
  "slot_category r now configured i = (case map_of (slots r) i of
     None \<Rightarrow> Cat_Healthy
   | Some s \<Rightarrow>
       if slot_state s now \<noteq> Healthy \<and> i < configured then
         if (case last_success_at s of None \<Rightarrow> True | Some t \<Rightarrow> f_lt (Fin 3600) (total_seconds (now - t))) then Cat_Dead
         else if slot_state s now = Quarantined then Cat_Quarantined
         else Cat_Probing
       else Cat_Healthy)"

text \<open>\<open>Counter.most_common(1)\<close>: the most frequent class, the first met among equals.\<close>

fun first_max :: "('a \<Rightarrow> nat) \<Rightarrow> 'a list \<Rightarrow> 'a option" where
  "first_max f [] = None"
| "first_max f (x # xs) = (case first_max f xs of
     None \<Rightarrow> Some x
   | Some y \<Rightarrow> if f y \<le> f x then Some x else Some y)"

definition most_common_class :: "string list \<Rightarrow> string option" where
  "most_common_class cs = first_max (count_list cs) (dedup_onto [] cs)"

record diagnostics =
  dg_configured :: int
  dg_healthy :: int
  dg_concurrency_floor :: int
  dg_headroom :: int
  dg_quarantined :: int
  dg_probing :: int
  dg_dead :: int
  dg_failovers_15m :: int
  dg_failovers_1h :: int
  dg_fail_open_events :: int
  dg_dominant :: "string option"
  dg_threshold :: int
  dg_cooldown :: pyfloat
  dg_verdict :: string
  dg_freshness :: "string option"
  dg_picks :: "string option"
  dg_action :: "string option"
  dg_slots :: "slot_row list"

definition diag_indices :: "registry \<Rightarrow> int \<Rightarrow> int list" where
  "diag_indices r configured = sorted_list_of_set (set [0..configured - 1] \<union> fst ` set (slots r))"

definition count_category :: "registry \<Rightarrow> time \<Rightarrow> int \<Rightarrow> category \<Rightarrow> int" where
  "count_category r now configured c =
     int (length (filter (\<lambda>i. slot_category r now configured i = c) (diag_indices r configured)))"

definition diagnostics :: "int \<Rightarrow> int \<Rightarrow> time \<Rightarrow> registry \<Rightarrow> diagnostics res" where
  "diagnostics configured cfloor now r =
     (let q = count_category r now configured Cat_Quarantined;
          p = count_category r now configured Cat_Probing;
          d = count_category r now configured Cat_Dead in
      rbind (time_minus_seconds now (Fin 900)) (\<lambda>cut_15m.
      rmap (\<lambda>cut_1h.
        let recent = filter (\<lambda>(ts, _). cut_1h \<le> ts) (failure_log r);
            degraded = q + p + d > 0;
            healthy = max (configured - q - p - d) 0 in
        \<lparr>dg_configured = configured, dg_healthy = healthy, dg_concurrency_floor = cfloor,
         dg_headroom = healthy - cfloor, dg_quarantined = q, dg_probing = p, dg_dead = d,
         dg_failovers_15m = int (length (filter (\<lambda>(ts, _). cut_15m \<le> ts) recent)),
         dg_failovers_1h = int (length recent), dg_fail_open_events = fail_open_events r,
         dg_dominant = most_common_class (map snd recent), dg_threshold = threshold r,
         dg_cooldown = cooldown_seconds r,
         dg_verdict = (if degraded then ''Proxy pool degraded'' else ''Proxy pool healthy''),
         dg_freshness = (if degraded then Some ''Freshness protected: stale candidates are being discarded'' else None),
         dg_picks = (if degraded then Some ''No stale picks minted'' else None),
         dg_action = (if degraded then Some ''Replace or expand proxy pool'' else None),
         dg_slots = map (slot_row_of r now) (diag_indices r configured)\<rparr>)
        (time_minus_seconds now (Fin 3600))))"


subsection \<open>Lookup, eligibility and the two loops\<close>

lemma put_slot_simps [simp]:
  "map_of (slots (put_slot i s r)) = (map_of (slots r))(i \<mapsto> s)"
  "threshold (put_slot i s r) = threshold r" "cooldown_seconds (put_slot i s r) = cooldown_seconds r"
  "half_open_claim_seconds (put_slot i s r) = half_open_claim_seconds r"
  "failure_log (put_slot i s r) = failure_log r"
  by (simp_all add: put_slot_def update_conv')

lemma note_fail_open_simps [simp]:
  "slots (note_fail_open now r) = slots r" "threshold (note_fail_open now r) = threshold r"
  "cooldown_seconds (note_fail_open now r) = cooldown_seconds r" "failure_log (note_fail_open now r) = failure_log r"
  "half_open_claim_seconds (note_fail_open now r) = half_open_claim_seconds r"
  "fail_open_events (note_fail_open now r) = fail_open_events r + 1"
  by (simp_all add: note_fail_open_def Let_def split: option.split)

lemma eligible_peek: "eligible r i now False = Ok (r, eligible_at r i now)"
  by (simp add: eligible_def eligible_at_def split: option.split slot_state.split)

lemma eligible_claim:
  "eligible r i now True =
     (if eligible_at r i now \<and> half_open_slot r now i
      then rmap (\<lambda>c. (put_slot i ((slot_of r i)\<lparr>probe_claimed_until := Some c\<rparr>) r, True))
             (time_plus_seconds now (half_open_claim_seconds r))
      else Ok (r, eligible_at r i now))"
  by (simp add: eligible_def eligible_at_def half_open_slot_def slot_of_def split: option.split slot_state.split)

lemma rotation_loop_eq:
  "rotation_loop r now order healthy half_open = Ok
     (healthy @ filter (\<lambda>i. eligible_at r i now \<and> \<not> half_open_slot r now i) order,
      half_open @ filter (\<lambda>i. eligible_at r i now \<and> half_open_slot r now i) order)"
  by (induction order arbitrary: healthy half_open) (simp_all add: eligible_peek)

lemma select_loop_eq:
  "select_loop r now order = (case find (\<lambda>i. eligible_at r i now) order of
     None \<Rightarrow> Ok (r, None)
   | Some i \<Rightarrow> rmap (\<lambda>(r', _). (r', Some i)) (eligible r i now True))"
proof (induction order)
  case (Cons i order)
  show ?case
  proof (cases "eligible_at r i now")
    case True
    then show ?thesis
      by (cases "time_plus_seconds now (half_open_claim_seconds r)") (simp_all add: eligible_claim)
  next
    case False
    then show ?thesis using Cons.IH by (simp add: eligible_claim)
  qed
qed simp

text \<open>The rotation filter always answers and never makes availability worse: what it returns is
  empty only for an empty rotation and drawn from the rotation; while some index is usable it is the
  healthy ones in rotation order followed by the unclaimed half-open ones, and the registry is left as
  it was; when none is usable it is the whole rotation and only the fail-open counters move.\<close>

theorem filter_rotation_fails_open:
  "\<exists>r' out. filter_rotation order now now' r = Ok (r', out)
    \<and> (out = [] \<longleftrightarrow> order = []) \<and> set out \<subseteq> set order
    \<and> (if \<exists>i \<in> set order. eligible_at r i now
       then r' = r \<and> out = filter (\<lambda>i. eligible_at r i now \<and> \<not> half_open_slot r now i) order
                        @ filter (\<lambda>i. eligible_at r i now \<and> half_open_slot r now i) order
       else out = order \<and> slots r' = slots r
         \<and> fail_open_events r' = fail_open_events r + (if order = [] then 0 else 1))"
proof (cases "\<exists>i \<in> set order. eligible_at r i now")
  case True
  then have "filter (\<lambda>i. eligible_at r i now \<and> \<not> half_open_slot r now i) order
      @ filter (\<lambda>i. eligible_at r i now \<and> half_open_slot r now i) order \<noteq> []"
    by (auto simp: filter_empty_conv)
  moreover have "order \<noteq> []" using True by auto
  ultimately show ?thesis using True by (auto simp: filter_rotation_def rotation_loop_eq Let_def)
next
  case False
  then show ?thesis by (cases "order = []") (auto simp: filter_rotation_def rotation_loop_eq Let_def filter_empty_conv)
qed

text \<open>A selection from a non-empty rotation returns one of its indices: the first usable one, or the
  first of the rotation when none is.  A half-open index it returns is claimed: nobody else is given it
  until the claim runs out.  The eligibility of the other indices does not change.\<close>

theorem select_claims_single_probe:
  assumes "order \<noteq> []" "time_plus_seconds now (half_open_claim_seconds r) = Ok c"
  shows "\<exists>r' i. select order now now' r = Ok (r', Some i) \<and> i \<in> set order
    \<and> (if eligible_at r i now
       then (\<exists>ys zs. order = ys @ i # zs \<and> (\<forall>j \<in> set ys. \<not> eligible_at r j now))
       else i = hd order \<and> (\<forall>j \<in> set order. \<not> eligible_at r j now))
    \<and> (\<forall>t. now \<le> t \<longrightarrow> t < c \<longrightarrow> eligible_at r i now \<longrightarrow> half_open_slot r now i \<longrightarrow> \<not> eligible_at r' i t)
    \<and> (\<forall>j t. j \<noteq> i \<longrightarrow> eligible_at r' j t = eligible_at r j t)"
proof (cases "find (\<lambda>i. eligible_at r i now) order")
  case None
  then have "\<forall>j \<in> set order. \<not> eligible_at r j now" by (simp add: find_None_iff)
  moreover have "eligible_at (note_fail_open now' r) j t = eligible_at r j t" for j t by (simp add: eligible_at_def)
  ultimately show ?thesis using None assms(1) by (auto simp: select_def select_loop_eq)
next
  case (Some i)
  from find_first [OF Some] have i: "eligible_at r i now" "i \<in> set order"
    "\<exists>ys zs. order = ys @ i # zs \<and> (\<forall>j \<in> set ys. \<not> eligible_at r j now)" by auto
  show ?thesis
  proof (cases "half_open_slot r now i")
    case True
    let ?r = "put_slot i ((slot_of r i)\<lparr>probe_claimed_until := Some c\<rparr>) r"
    have "\<not> eligible_at ?r i t" if "now \<le> t" "t < c" for t
      using True that by (auto simp: eligible_at_def half_open_slot_def slot_state_def slot_of_def split: option.splits if_splits)
    moreover have "eligible_at ?r j t = eligible_at r j t" if "j \<noteq> i" for j t
      using that by (simp add: eligible_at_def)
    ultimately show ?thesis using Some i True assms by (auto simp: select_def select_loop_eq eligible_claim)
  next
    case False
    then show ?thesis using Some i assms by (auto simp: select_def select_loop_eq eligible_claim)
  qed
qed

lemma select_claims_single_probe_witness:
  "\<exists>r' i. select [4, 2] 0 0 new_registry = Ok (r', Some i) \<and> i \<in> set [4, 2]"
proof -
  have "time_plus_seconds 0 (half_open_claim_seconds new_registry) = Ok (30 * 10 ^ 6)" by code_simp
  from select_claims_single_probe [OF _ this, of "[4, 2]" 0] show ?thesis by auto
qed

subsection \<open>The registry as a machine\<close>

text \<open>
  Steps of the registry: the four operations at any instants, on runs where no instant computation
  overflows.
\<close>

inductive proxy_step :: "registry \<Rightarrow> registry \<Rightarrow> bool" where
  success_step: "proxy_step r (record_success i now r)"
| failure_step: "record_failure i cls now r = (r', Ok ()) \<Longrightarrow> proxy_step r r'"
| filter_step: "filter_rotation order now now' r = Ok (r', out) \<Longrightarrow> proxy_step r r'"
| select_step: "select order now now' r = Ok (r', found) \<Longrightarrow> proxy_step r r'"

inductive_cases proxy_stepE: "proxy_step r r'"

definition slot_inv :: "int \<Rightarrow> pyfloat \<Rightarrow> proxy_slot \<Rightarrow> bool" where
  "slot_inv n cd s \<longleftrightarrow>
     0 \<le> successes s \<and> 0 \<le> consecutive_failures s \<and> consecutive_failures s \<le> failures s
     \<and> (last_success_at s = None \<longleftrightarrow> successes s = 0)
     \<and> (last_failure_at s = None \<longleftrightarrow> failures s = 0) \<and> (last_error_class s = None \<longleftrightarrow> failures s = 0)
     \<and> (quarantined_until s = None \<longleftrightarrow> consecutive_failures s < n)
     \<and> (\<forall>q. quarantined_until s = Some q \<longrightarrow> (\<exists>f. last_failure_at s = Some f \<and> time_plus_seconds f cd = Ok q))
     \<and> (quarantined_until s = None \<longrightarrow> probe_claimed_until s = None)"

definition registry_inv :: "int \<Rightarrow> pyfloat \<Rightarrow> registry \<Rightarrow> bool" where
  "registry_inv n cd r \<longleftrightarrow> threshold r = n \<and> cooldown_seconds r = cd \<and> 0 < n
     \<and> length (failure_log r) \<le> failure_log_maxlen
     \<and> (\<forall>i s. map_of (slots r) i = Some s \<longrightarrow> slot_inv n cd s)"

lemma slot_inv_fresh: "0 < n \<Longrightarrow> slot_inv n cd fresh_slot"
  by (simp add: slot_inv_def fresh_slot_def)

lemma slot_inv_of: "registry_inv n cd r \<Longrightarrow> slot_inv n cd (slot_of r i)"
  by (auto simp: registry_inv_def slot_of_def slot_inv_fresh split: option.split)

lemma registry_inv_put:
  "registry_inv n cd r \<Longrightarrow> slot_inv n cd s \<Longrightarrow> registry_inv n cd (put_slot i s r)"
  by (auto simp: registry_inv_def)

lemma push_log_length: "length xs \<le> failure_log_maxlen \<Longrightarrow> length (push_log x xs) \<le> failure_log_maxlen"
  by (simp add: push_log_def Let_def)

lemma inv_success: assumes "registry_inv n cd r" shows "registry_inv n cd (record_success i now r)"
proof -
  have "0 < n" using assms by (simp add: registry_inv_def)
  with slot_inv_of [OF assms, of i] show ?thesis
    unfolding record_success_def Let_def by (intro registry_inv_put [OF assms]) (auto simp: slot_inv_def)
qed

lemma inv_failure:
  assumes r: "registry_inv n cd r" and f: "record_failure i cls now r = (r', Ok ())"
  shows "registry_inv n cd r'"
proof -
  define s1 where "s1 = (slot_of r i)\<lparr>failures := failures (slot_of r i) + 1,
    consecutive_failures := consecutive_failures (slot_of r i) + 1, last_failure_at := Some now, last_error_class := Some cls\<rparr>"
  define r1 where "r1 = (put_slot i s1 r)\<lparr>failure_log := push_log (now, cls) (failure_log r)\<rparr>"
  have s: "slot_inv n cd (slot_of r i)" using slot_inv_of [OF r] .
  have n: "threshold r = n" "cooldown_seconds r = cd" "0 < n" using r by (simp_all add: registry_inv_def)
  have put: "registry_inv n cd (put_slot i t r1)" if "slot_inv n cd t" for t
    using r that push_log_length by (auto simp: registry_inv_def r1_def put_slot_def update_conv')
  show ?thesis
  proof (cases "n \<le> consecutive_failures s1")
    case True
    then obtain q where q: "time_plus_seconds now cd = Ok q"
      "r' = put_slot i (s1\<lparr>quarantined_until := Some q, probe_claimed_until := None\<rparr>) r1"
      using f n unfolding record_failure_def Let_def s1_def [symmetric] r1_def [symmetric]
      by (auto split: sum.splits)
    show ?thesis unfolding q(2) using s q(1) True
      by (intro put) (auto simp: slot_inv_def s1_def)
  next
    case False
    then have r': "r' = r1" using f n unfolding record_failure_def Let_def s1_def [symmetric] r1_def [symmetric] by simp
    have "slot_inv n cd s1" using s False by (auto simp: slot_inv_def s1_def)
    from registry_inv_put [OF r this, of i] show ?thesis unfolding r' r1_def
      using push_log_length by (auto simp: registry_inv_def)
  qed
qed

lemma inv_filter: "registry_inv n cd r \<Longrightarrow> filter_rotation order now now' r = Ok (r', out) \<Longrightarrow> registry_inv n cd r'"
  by (auto simp: filter_rotation_def rotation_loop_eq Let_def registry_inv_def split: if_splits)

lemma inv_claim:
  assumes "registry_inv n cd r" "half_open_slot r now i"
  shows "registry_inv n cd (put_slot i ((slot_of r i)\<lparr>probe_claimed_until := Some c\<rparr>) r)"
proof (rule registry_inv_put [OF assms(1)])
  have "quarantined_until (slot_of r i) \<noteq> None"
    using assms(2) by (auto simp: half_open_slot_def slot_state_def slot_of_def split: option.splits)
  then show "slot_inv n cd ((slot_of r i)\<lparr>probe_claimed_until := Some c\<rparr>)"
    using slot_inv_of [OF assms(1), of i] by (auto simp: slot_inv_def)
qed

lemma inv_note: "registry_inv n cd r \<Longrightarrow> registry_inv n cd (note_fail_open now r)"
  by (simp add: registry_inv_def)

lemma inv_select: "registry_inv n cd r \<Longrightarrow> select order now now' r = Ok (r', found) \<Longrightarrow> registry_inv n cd r'"
  using inv_claim inv_note
  by (auto simp: select_def select_loop_eq eligible_claim rmap_Ok_iff split: if_splits option.splits)

lemma registry_run_inv:
  assumes "proxy_step\<^sup>*\<^sup>* r r'" "registry_inv n cd r" shows "registry_inv n cd r'"
  using assms
proof (induction rule: rtranclp_induct)
  case (step y z)
  from step.hyps(2) step.IH [OF step.prems] show ?case
    by cases (auto intro: inv_success inv_failure inv_filter inv_select)
qed simp

text \<open>C34: on every run from a freshly configured registry, the eligibility of an index says exactly what
  its recent history was: it is refused when, and only when, its current streak of failures has reached
  the threshold and either its cooldown, counted from the last failure, is still running or somebody
  holds the probe claim.  The failure log never exceeds its capacity.\<close>

theorem quarantine_exact:
  assumes "0 < n" "proxy_step\<^sup>*\<^sup>* (configure_registry n cd new_registry) r" "map_of (slots r) i = Some s"
  shows "(\<not> eligible_at r i now \<longleftrightarrow> n \<le> consecutive_failures s \<and>
      (\<exists>f q. last_failure_at s = Some f \<and> time_plus_seconds f cd = Ok q
        \<and> (now < q \<or> (\<exists>c. probe_claimed_until s = Some c \<and> now < c))))
    \<and> consecutive_failures s \<le> failures s \<and> length (failure_log r) \<le> failure_log_maxlen"
proof -
  have "registry_inv n cd (configure_registry n cd new_registry)"
    using assms(1) by (simp add: registry_inv_def configure_registry_def new_registry_def)
  then have r: "registry_inv n cd r" using registry_run_inv assms(2) by blast
  then have s: "slot_inv n cd s" and l: "length (failure_log r) \<le> failure_log_maxlen"
    using assms(3) by (auto simp: registry_inv_def)
  have c: "consecutive_failures s \<le> failures s" using s by (simp add: slot_inv_def)
  show ?thesis
  proof (cases "quarantined_until s")
    case None
    then have "consecutive_failures s < n" using s by (simp add: slot_inv_def)
    with None c l show ?thesis using assms(3) by (simp add: eligible_at_def slot_state_def)
  next
    case (Some q)
    then obtain f where "n \<le> consecutive_failures s" "last_failure_at s = Some f" "time_plus_seconds f cd = Ok q"
      using s by (auto simp: slot_inv_def)
    with Some c l show ?thesis using assms(3)
      by (cases "probe_claimed_until s") (auto simp: eligible_at_def slot_state_def)
  qed
qed

lemma quarantine_exact_witness:
  "\<exists>r s. proxy_step\<^sup>*\<^sup>* (configure_registry 1 (Fin 900) new_registry) r \<and> map_of (slots r) 4 = Some s
    \<and> (\<not> eligible_at r 4 7 \<longleftrightarrow> 1 \<le> consecutive_failures s \<and>
      (\<exists>f q. last_failure_at s = Some f \<and> time_plus_seconds f (Fin 900) = Ok q
        \<and> (7 < q \<or> (\<exists>c. probe_claimed_until s = Some c \<and> 7 < c))))"
proof -
  define r0 where "r0 = configure_registry 1 (Fin 900) new_registry"
  obtain r where r: "record_failure 4 ''TimeoutError'' 5 r0 = (r, Ok ())" and m: "map_of (slots r) 4 \<noteq> None"
  proof -
    have "snd (record_failure 4 ''TimeoutError'' 5 r0) = Ok ()" unfolding r0_def by code_simp
    moreover have "map_of (slots (fst (record_failure 4 ''TimeoutError'' 5 r0))) 4 \<noteq> None"
      by (simp add: record_failure_def Let_def split: sum.split)
    ultimately show thesis using that by (metis prod.collapse)
  qed
  then obtain s where s: "map_of (slots r) 4 = Some s" by blast
  have run: "proxy_step\<^sup>*\<^sup>* r0 r" using failure_step [OF r] by blast
  from quarantine_exact [of 1 "Fin 900" r 4 s 7] s run show ?thesis unfolding r0_def by auto
qed

subsection \<open>Recovery\<close>

fun record_failures :: "int \<Rightarrow> (time \<times> string) list \<Rightarrow> registry \<Rightarrow> registry" where
  "record_failures i [] r = r"
| "record_failures i ((t, cls) # fs) r = record_failures i fs (fst (record_failure i cls t r))"

lemma record_failure_below:
  assumes "map_of (slots r) i = Some s" "quarantined_until s = None" "consecutive_failures s + 1 < threshold r"
  shows "\<exists>s'. map_of (slots (fst (record_failure i cls t r))) i = Some s' \<and> quarantined_until s' = None
    \<and> consecutive_failures s' = consecutive_failures s + 1 \<and> threshold (fst (record_failure i cls t r)) = threshold r"
  using assms by (simp add: record_failure_def slot_of_def Let_def)

lemma record_failures_below:
  "map_of (slots r) i = Some s \<Longrightarrow> quarantined_until s = None \<Longrightarrow>
   consecutive_failures s + int (length fs) < threshold r \<Longrightarrow> eligible_at (record_failures i fs r) i t"
proof (induction fs arbitrary: r s)
  case (Cons f fs)
  obtain ft cls where f: "f = (ft, cls)" by (cases f)
  obtain s' where "map_of (slots (fst (record_failure i cls ft r))) i = Some s'" "quarantined_until s' = None"
    "consecutive_failures s' = consecutive_failures s + 1" "threshold (fst (record_failure i cls ft r)) = threshold r"
    using record_failure_below [OF Cons.prems(1,2), of cls ft] Cons.prems(3) by auto
  then show ?case using Cons.IH [of "fst (record_failure i cls ft r)" s'] Cons.prems(3) f by simp
qed (simp add: eligible_at_def slot_state_def)

text \<open>One success makes an index usable at once and forgets its past: whatever the registry held, it
  then takes a full threshold of new failures before the index is refused again, at any instant; the
  other indices keep their eligibility.\<close>

theorem success_restores:
  assumes "int (length fs) < threshold r"
  shows "eligible_at (record_failures i fs (record_success i now r)) i t
    \<and> (\<forall>j. j \<noteq> i \<longrightarrow> eligible_at (record_success i now r) j t = eligible_at r j t)"
  using assms record_failures_below [of "record_success i now r" i _ fs t]
  by (auto simp: record_success_def Let_def eligible_at_def)

lemma success_restores_witness:
  "eligible_at (record_failures 3 [(1, ''E''), (2, ''E'')] (record_success 3 0 new_registry)) 3 5
    \<and> eligible_at (record_success 3 0 new_registry) 4 5 = eligible_at new_registry 4 5"
  using success_restores [of "[(1, ''E''), (2, ''E'')]" new_registry 3 0 5] by (simp add: new_registry_def)

subsection \<open>Diagnostics\<close>

lemma first_max_spec:
  "first_max f xs = None \<longleftrightarrow> xs = []"
  "first_max f xs = Some x \<Longrightarrow> x \<in> set xs \<and> (\<forall>y \<in> set xs. f y \<le> f x)"
  by (induction xs arbitrary: x) (auto split: option.splits if_splits intro: order_trans nat_le_linear)

lemma most_common_None: "most_common_class cs = None \<longleftrightarrow> cs = []"
  using set_dedup_onto [of "[]" cs] by (auto simp: most_common_class_def first_max_spec(1) simp del: set_dedup_onto)

lemma diag_indices_set: "set (diag_indices r configured) = {0..configured - 1} \<union> fst ` set (slots r)"
  by (simp add: diag_indices_def)

lemma diag_indices_distinct: "distinct (diag_indices r configured)" "sorted (diag_indices r configured)"
  by (simp_all add: diag_indices_def)

lemma slot_category_range:
  assumes "\<forall>i \<in> fst ` set (slots r). 0 \<le> i" "slot_category r now configured i \<noteq> Cat_Healthy"
  shows "i \<in> {0..<configured}"
proof -
  obtain s where "map_of (slots r) i = Some s" "i < configured"
    using assms(2) by (auto simp: slot_category_def split: option.splits if_splits)
  then show ?thesis using assms(1) map_of_SomeD [of "slots r" i s] by force
qed

lemma category_counts:
  "length (filter (\<lambda>i. c i = Cat_Quarantined) xs) + length (filter (\<lambda>i. c i = Cat_Probing) xs)
   + length (filter (\<lambda>i. c i = Cat_Dead) xs) = length (filter (\<lambda>i. c i \<noteq> Cat_Healthy) xs)"
  by (induction xs) (auto intro: category.exhaust)

lemma counts_bounded:
  assumes "\<forall>i \<in> fst ` set (slots r). 0 \<le> i" "0 \<le> configured"
  shows "count_category r now configured Cat_Quarantined + count_category r now configured Cat_Probing
    + count_category r now configured Cat_Dead \<le> configured"
proof -
  let ?bad = "filter (\<lambda>i. slot_category r now configured i \<noteq> Cat_Healthy) (diag_indices r configured)"
  have "set ?bad \<subseteq> {0..<configured}" using slot_category_range [OF assms(1)] by auto
  then have "card (set ?bad) \<le> card {0..<configured}" by (intro card_mono) auto
  moreover have "card (set ?bad) = length ?bad" by (intro distinct_card) (simp add: diag_indices_distinct)
  ultimately have "int (length ?bad) \<le> configured" using assms(2) by simp
  then show ?thesis
    using category_counts [of "slot_category r now configured" "diag_indices r configured"]
    by (simp add: count_category_def)
qed

text \<open>The diagnostics of a pool partition it: healthy, quarantined, probing and dead add up to the
  configured size, none is negative, the verdict says healthy exactly when all configured indices are;
  every configured or recorded index is listed once, in order; the dominant failure class is absent only
  without a recent failure and is otherwise a most frequent one.\<close>

theorem diagnostics_partition:
  assumes "\<forall>i \<in> fst ` set (slots r). 0 \<le> i" "0 \<le> configured" "3600 * 10 ^ 6 \<le> now" "now \<le> max_time"
  shows "\<exists>d. diagnostics configured cfloor now r = Ok d
    \<and> dg_healthy d + dg_quarantined d + dg_probing d + dg_dead d = configured
    \<and> 0 \<le> dg_healthy d \<and> 0 \<le> dg_quarantined d \<and> 0 \<le> dg_probing d \<and> 0 \<le> dg_dead d
    \<and> (dg_verdict d = ''Proxy pool healthy'' \<longleftrightarrow> dg_healthy d = configured)
    \<and> sorted (map row_index (dg_slots d)) \<and> distinct (map row_index (dg_slots d))
    \<and> set (map row_index (dg_slots d)) = {0..configured - 1} \<union> fst ` set (slots r)
    \<and> dg_failovers_15m d \<le> dg_failovers_1h d
    \<and> (dg_dominant d = None \<longleftrightarrow> dg_failovers_1h d = 0)"
proof -
  have t: "time_minus_seconds now (Fin 900) = Ok (now - 900 * 10 ^ 6)"
    "time_minus_seconds now (Fin 3600) = Ok (now - 3600 * 10 ^ 6)"
    using assms timedelta_whole_seconds [of 900] timedelta_whole_seconds [of 3600]
    by (auto simp: time_minus_seconds_Ok)
  have ids: "map (row_index \<circ> slot_row_of r now) xs = xs" "row_index (slot_row_of r now i) = i" for xs i
    by (induction xs) (simp_all add: slot_row_of_def Let_def)
  define q p x where "q = count_category r now configured Cat_Quarantined"
    and "p = count_category r now configured Cat_Probing" and "x = count_category r now configured Cat_Dead"
  have sum: "q + p + x \<le> configured" "0 \<le> q" "0 \<le> p" "0 \<le> x"
    using counts_bounded [OF assms(1,2), of now] by (simp_all add: q_def p_def x_def count_category_def)
  obtain d where d: "diagnostics configured cfloor now r = Ok d" by (simp add: diagnostics_def t Let_def)
  have f: "dg_healthy d = configured - q - p - x" "dg_quarantined d = q" "dg_probing d = p" "dg_dead d = x"
    "dg_verdict d = (if q + p + x > 0 then ''Proxy pool degraded'' else ''Proxy pool healthy'')"
    using d sum by (auto simp: diagnostics_def t Let_def q_def p_def x_def)
  have g: "map row_index (dg_slots d) = diag_indices r configured"
    using d by (auto simp: diagnostics_def t Let_def ids)
  have h: "dg_failovers_15m d \<le> dg_failovers_1h d" "dg_dominant d = None \<longleftrightarrow> dg_failovers_1h d = 0"
    using d by (auto simp: diagnostics_def t Let_def most_common_None simp del: filter_filter)
  show ?thesis
    using d f g h sum diag_indices_distinct diag_indices_set by (intro exI [of _ d]) auto
qed

lemma diagnostics_partition_witness:
  "\<exists>d. diagnostics 5 2 (3600 * 10 ^ 6) (record_success 2 0 new_registry) = Ok d
    \<and> dg_healthy d + dg_quarantined d + dg_probing d + dg_dead d = 5"
proof -
  have "\<forall>i \<in> fst ` set (slots (record_success 2 0 new_registry)). 0 \<le> i"
    by (simp add: record_success_def put_slot_def new_registry_def Let_def)
  from diagnostics_partition [OF this, of 5 "3600 * 10 ^ 6" 2] show ?thesis
    by (auto simp: max_time_def)
qed

end
