(* ===== verification/Dedupe.thy ===== *)
theory Dedupe
  imports PyText PyTime
begin

text \<open>
  The idempotency stores behind duplicate-alert prevention (\<^verbatim>\<open>app/notifications/dedupe.py\<close>): the
  contract of the protocol class as a locale, the process-local store and the Redis store as its
  interpretations.  A coroutine of a store is one atomic operation, as the server runs it; what other
  clients do between the WATCH and the EXEC of the rollout bridge is an explicit list of changes.
\<close>

subsection \<open>The contract\<close>

text \<open>
  \<open>held s k\<close>: the store refuses \<open>k\<close>.  A claim says whether it was the first and holds the key in any
  case; the legacy key of the rollout blocks it without being claimed itself.
\<close>

locale idempotency_store =
  fixes claim :: "'s \<Rightarrow> string \<Rightarrow> string option \<Rightarrow> 's \<times> bool"
    and release :: "'s \<Rightarrow> string \<Rightarrow> 's"
    and held :: "'s \<Rightarrow> string \<Rightarrow> bool"
  assumes claim_result: "snd (claim s k legacy) \<longleftrightarrow> \<not> held s k \<and> (\<forall>l. legacy = Some l \<longrightarrow> \<not> held s l)"
    and claim_held: "held (fst (claim s k legacy)) j \<longleftrightarrow> j = k \<or> held s j"
    and release_held: "held (release s k) j \<longleftrightarrow> j \<noteq> k \<and> held s j"
begin

lemma second_claim_refused: "\<not> snd (claim (fst (claim s k l)) k l')"
  by (simp add: claim_result claim_held)

lemma claim_after_release: "snd (claim (release (fst (claim s k l)) k) k None)"
  by (simp add: claim_result release_held)

lemma claim_release_frame:
  "snd (claim s k l) \<Longrightarrow> held (release (fst (claim s k l)) k) j \<longleftrightarrow> held s j"
  by (auto simp: claim_result claim_held release_held)

end

subsection \<open>The in-memory store\<close>

definition memory_claim :: "string set \<Rightarrow> string \<Rightarrow> string option \<Rightarrow> string set \<times> bool" where
  "memory_claim seen key legacy =
     (if (case legacy of None \<Rightarrow> False | Some l \<Rightarrow> l \<in> seen) then (insert key seen, False)
      else if key \<in> seen then (seen, False)
      else (insert key seen, True))"

definition memory_release :: "string set \<Rightarrow> string \<Rightarrow> string set" where
  "memory_release seen key = seen - {key}"

interpretation memory: idempotency_store memory_claim memory_release "\<lambda>seen k. k \<in> seen"
  by unfold_locales (auto simp: memory_claim_def memory_release_def split: option.splits)

subsection \<open>The Redis store\<close>

text \<open>The database maps a key to the instant it expires at.\<close>

type_synonym redis = "string \<rightharpoonup> time"

definition default_ttl_seconds :: int where "default_ttl_seconds = 7 * 24 * 60 * 60"

definition redis_key :: "string \<Rightarrow> string" where "redis_key k = ''alert:dedupe:'' @ k"

definition redis_exists :: "time \<Rightarrow> redis \<Rightarrow> string \<Rightarrow> bool" where
  "redis_exists now db k = (case db k of None \<Rightarrow> False | Some e \<Rightarrow> now < e)"

definition redis_set_nx :: "time \<Rightarrow> int \<Rightarrow> redis \<Rightarrow> string \<Rightarrow> redis \<times> bool" where
  "redis_set_nx now ttl db k =
     (if redis_exists now db k then (db, False) else (db(k \<mapsto> now + ttl * 10 ^ 6), True))"

text \<open>One attempt of the bridge: the legacy key is looked up, other clients act, and the transaction
  aborts when they changed one of the two watched keys.\<close>

fun redis_bridge :: "time \<Rightarrow> int \<Rightarrow> string \<Rightarrow> string \<Rightarrow> (redis \<Rightarrow> redis) list \<Rightarrow> redis \<Rightarrow> redis \<times> bool" where
  "redis_bridge now ttl legacy target [] db = (db, False)"
| "redis_bridge now ttl legacy target (others # rest) db =
     (let legacy_seen = redis_exists now db legacy; db1 = others db in
      if db1 legacy \<noteq> db legacy \<or> db1 target \<noteq> db target
      then redis_bridge now ttl legacy target rest db1
      else case redis_set_nx now ttl db1 target of (db2, ok) \<Rightarrow> (db2, if legacy_seen then False else ok))"

definition redis_claim :: "time \<Rightarrow> int \<Rightarrow> (redis \<Rightarrow> redis) list \<Rightarrow> redis \<Rightarrow> string \<Rightarrow> string option \<Rightarrow> redis \<times> bool" where
  "redis_claim now ttl others db key legacy = (case legacy of
     None \<Rightarrow> redis_set_nx now ttl db (redis_key key)
   | Some l \<Rightarrow> redis_bridge now ttl (redis_key l) (redis_key key) (take 3 (others @ replicate 3 id)) db)"

definition redis_release :: "redis \<Rightarrow> string \<Rightarrow> redis" where
  "redis_release db key = db(redis_key key := None)"

definition redis_held :: "time \<Rightarrow> redis \<Rightarrow> string \<Rightarrow> bool" where
  "redis_held now db k = redis_exists now db (redis_key k)"

lemma redis_key_inj [simp]: "redis_key a = redis_key b \<longleftrightarrow> a = b"
  by (simp add: redis_key_def)

lemma redis_set_nx_exists:
  "0 < ttl \<Longrightarrow> redis_exists now (fst (redis_set_nx now ttl db k)) j \<longleftrightarrow> j = k \<or> redis_exists now db j"
  by (auto simp: redis_set_nx_def redis_exists_def split: if_splits)

lemma redis_set_nx_result: "snd (redis_set_nx now ttl db k) \<longleftrightarrow> \<not> redis_exists now db k"
  by (simp add: redis_set_nx_def)

text \<open>Without contention the Redis store keeps the contract, at any instant.\<close>

interpretation redis: idempotency_store "redis_claim now default_ttl_seconds []" redis_release "redis_held now" for now
proof
  have ttl: "0 < default_ttl_seconds" by (simp add: default_ttl_seconds_def)
  have bridge: "redis_bridge now default_ttl_seconds l t (take 3 ([] @ replicate 3 id)) db =
      (fst (redis_set_nx now default_ttl_seconds db t), \<not> redis_exists now db l \<and> snd (redis_set_nx now default_ttl_seconds db t))"
    for l t db by (simp add: numeral_3_eq_3 split: prod.split)
  fix db k legacy j
  show "snd (redis_claim now default_ttl_seconds [] db k legacy) \<longleftrightarrow>
      \<not> redis_held now db k \<and> (\<forall>l. legacy = Some l \<longrightarrow> \<not> redis_held now db l)"
    using bridge by (auto simp: redis_claim_def redis_held_def redis_set_nx_result split: option.split)
  show "redis_held now (fst (redis_claim now default_ttl_seconds [] db k legacy)) j \<longleftrightarrow> j = k \<or> redis_held now db j"
    using bridge redis_set_nx_exists [OF ttl]
    by (auto simp: redis_claim_def redis_held_def split: option.split)
  show "redis_held now (redis_release db k) j \<longleftrightarrow> j \<noteq> k \<and> redis_held now db j"
    by (auto simp: redis_release_def redis_held_def redis_exists_def)
qed

text \<open>Whatever other clients do during the rollout bridge, a claim succeeds only if its key is then
  held until its time to live has passed and the legacy key is not; and in the attempt that succeeded
  nobody changed either watched key and the key was free.\<close>

theorem redis_claim_fails_closed:
  assumes "0 < ttl" "redis_claim now ttl others db key (Some legacy) = (db', True)"
  shows "redis_held now db' key \<and> db' (redis_key key) = Some (now + ttl * 10 ^ 6)
    \<and> (legacy \<noteq> key \<longrightarrow> \<not> redis_held now db' legacy)
    \<and> (\<exists>f \<in> set (others @ [id]). \<exists>db1. f db1 (redis_key legacy) = db1 (redis_key legacy)
         \<and> f db1 (redis_key key) = db1 (redis_key key) \<and> \<not> redis_held now db1 key)"
proof -
  let ?k = "redis_key key" and ?l = "redis_key legacy"
  have gen: "redis_exists now db' ?k \<and> db' ?k = Some (now + ttl * 10 ^ 6) \<and> (?l \<noteq> ?k \<longrightarrow> \<not> redis_exists now db' ?l)
      \<and> (\<exists>f \<in> set fs. \<exists>db1. f db1 ?l = db1 ?l \<and> f db1 ?k = db1 ?k \<and> \<not> redis_exists now db1 ?k)"
    if "redis_bridge now ttl ?l ?k fs db = (db', True)" for fs
    using that
  proof (induction fs arbitrary: db)
    case (Cons f fs)
    show ?case
    proof (cases "f db ?l \<noteq> db ?l \<or> f db ?k \<noteq> db ?k")
      case True
      then show ?thesis using Cons by auto
    next
      case False
      then show ?thesis using Cons.prems assms(1)
        by (auto simp: redis_set_nx_def redis_exists_def Let_def split: if_splits prod.splits)
    qed
  qed simp
  have "set (take 3 (others @ replicate 3 id)) \<subseteq> set (others @ [id])"
    by (auto dest: in_set_takeD)
  with gen [of "take 3 (others @ replicate 3 id)"] assms(2) show ?thesis
    by (fastforce simp: redis_claim_def redis_held_def)
qed

lemma redis_claim_fails_closed_witness:
  "\<exists>db'. redis_claim 5 60 [\<lambda>db. db(''x'' \<mapsto> 9)] Map.empty ''k'' (Some ''l'') = (db', True) \<and> redis_held 5 db' ''k''
    \<and> \<not> redis_held 5 db' ''l''"
proof -
  have "snd (redis_claim 5 60 [\<lambda>db. db(''x'' \<mapsto> 9)] Map.empty ''k'' (Some ''l''))" by code_simp
  then obtain db' where c: "redis_claim 5 60 [\<lambda>db. db(''x'' \<mapsto> 9)] Map.empty ''k'' (Some ''l'') = (db', True)"
    by (metis prod.collapse)
  from redis_claim_fails_closed [OF _ c] show ?thesis using c by auto
qed

end
