(* ===== verification/Dispatcher.thy ===== *)
theory Dispatcher
  imports Dedupe
begin

text \<open>
  The alert dispatcher (\<^verbatim>\<open>app/notifications/dispatcher.py\<close>) over any idempotency store.  What the
  environment does at each channel is an argument: whether the claim is cancelled or the store is down,
  and how the send ends.  A cancelled claim waits for the store's answer and gives a won key back before
  the cancellation goes on, as the shielded tasks of the code do; releases are taken to reach the store.
\<close>

subsection \<open>Model\<close>

record alert =
  pick_id :: string
  title :: string
  body :: string
  dedupe_key :: string

record sink =
  sink_name :: string
  configured :: bool

datatype claim_event = Claim_Done | Claim_Cancelled | Claim_Down
datatype send_outcome = Delivered | Refused | Send_Error | Send_Cancelled

record dispatch_result =
  skipped_duplicate :: bool
  sink_results :: "(string \<times> bool) list"

datatype dispatch_end = Done dispatch_result | Cancelled | Store_Error

definition sink_key :: "alert \<Rightarrow> sink list \<Rightarrow> sink \<Rightarrow> string" where
  "sink_key a prior s = dedupe_key a @ '':sink:'' @ sink_name s @ '':''
     @ show_nat (length (filter (\<lambda>p. sink_name p = sink_name s) prior))"

fun sink_keys :: "alert \<Rightarrow> sink list \<Rightarrow> sink list \<Rightarrow> string list" where
  "sink_keys a prior [] = []"
| "sink_keys a prior (s # ss) = sink_key a prior s # sink_keys a (prior @ [s]) ss"

fun dispatch_loop :: "('s \<Rightarrow> string \<Rightarrow> string option \<Rightarrow> 's \<times> bool) \<Rightarrow> ('s \<Rightarrow> string \<Rightarrow> 's) \<Rightarrow> alert \<Rightarrow>
    sink list \<Rightarrow> (sink \<times> claim_event \<times> send_outcome) list \<Rightarrow> 's \<Rightarrow> (string \<times> bool) list \<Rightarrow> bool \<Rightarrow> 's \<times> dispatch_end" where
  "dispatch_loop claim release a prior [] st results any_new =
     (st, Done \<lparr>skipped_duplicate = (prior \<noteq> [] \<and> \<not> any_new), sink_results = results\<rparr>)"
| "dispatch_loop claim release a prior ((s, ce, so) # rest) st results any_new =
     (let key = sink_key a prior s in
      case ce of
        Claim_Down \<Rightarrow> (st, Store_Error)
      | Claim_Cancelled \<Rightarrow>
          (case claim st key (Some (dedupe_key a)) of (st1, ok) \<Rightarrow> (if ok then release st1 key else st1, Cancelled))
      | Claim_Done \<Rightarrow>
          (case claim st key (Some (dedupe_key a)) of (st1, ok) \<Rightarrow>
             if \<not> ok then dispatch_loop claim release a (prior @ [s]) rest st1 (results @ [(sink_name s, True)]) any_new
             else if so = Send_Cancelled then (release st1 key, Cancelled)
             else let delivered = (so = Delivered);
                      st2 = (if configured s \<and> \<not> delivered then release st1 key else st1)
                  in dispatch_loop claim release a (prior @ [s]) rest st2 (results @ [(sink_name s, delivered)]) True))"

definition dispatch :: "('s \<Rightarrow> string \<Rightarrow> string option \<Rightarrow> 's \<times> bool) \<Rightarrow> ('s \<Rightarrow> string \<Rightarrow> 's) \<Rightarrow>
    (sink \<times> claim_event \<times> send_outcome) list \<Rightarrow> 's \<Rightarrow> alert \<Rightarrow> 's \<times> dispatch_end" where
  "dispatch claim release events st a = dispatch_loop claim release a [] events st [] False"

subsection \<open>Keys\<close>

lemma sink_keys_append: "sink_keys a prior (xs @ ys) = sink_keys a prior xs @ sink_keys a (prior @ xs) ys"
  by (induction xs arbitrary: prior) simp_all

lemma length_sink_keys [simp]: "length (sink_keys a prior xs) = length xs"
  by (induction xs arbitrary: prior) simp_all

lemma sink_key_not_legacy [simp]: "sink_key a prior s \<noteq> dedupe_key a" "dedupe_key a \<noteq> sink_key a prior s"
  by (simp_all add: sink_key_def)

lemma colon_split:
  assumes "CHR '':'' \<notin> set p" "CHR '':'' \<notin> set q" "x @ '':'' @ p = y @ '':'' @ q"
  shows "x = y \<and> p = q"
proof -
  have r: "rev p @ CHR '':'' # rev x = rev q @ CHR '':'' # rev y" using arg_cong [OF assms(3), of rev] by simp
  then have "takeWhile (\<lambda>c. c \<noteq> CHR '':'') (rev p @ CHR '':'' # rev x) = takeWhile (\<lambda>c. c \<noteq> CHR '':'') (rev q @ CHR '':'' # rev y)"
    by simp
  moreover have "takeWhile (\<lambda>c. c \<noteq> CHR '':'') (rev u @ CHR '':'' # v) = rev u" if "CHR '':'' \<notin> set u" for u v
    using that by (subst takeWhile_append2) auto
  ultimately have "rev p = rev q" using assms(1,2) by simp
  with r show ?thesis by simp
qed

lemma show_nat_no_colon: "CHR '':'' \<notin> set (show_nat n)"
proof -
  have "\<not> is_digit (CHR '':'')" by code_simp
  then show ?thesis using show_nat_digits [of n] by (auto simp: list_all_iff)
qed

lemma show_nat_inj: "show_nat m = show_nat n \<longleftrightarrow> m = n"
proof
  assume "show_nat m = show_nat n"
  then have "digits_val (show_nat m) = digits_val (show_nat n)" by simp
  then show "m = n" by simp
qed simp

lemma sink_key_eq_iff:
  "sink_key a prior s = sink_key a prior' s' \<longleftrightarrow> sink_name s = sink_name s'
    \<and> length (filter (\<lambda>p. sink_name p = sink_name s) prior) = length (filter (\<lambda>p. sink_name p = sink_name s') prior')"
proof -
  define n n' where "n = length (filter (\<lambda>p. sink_name p = sink_name s) prior)"
    and "n' = length (filter (\<lambda>p. sink_name p = sink_name s') prior')"
  have "sink_key a prior s = sink_key a prior' s' \<longleftrightarrow>
      sink_name s @ '':'' @ show_nat n = sink_name s' @ '':'' @ show_nat n'"
    unfolding sink_key_def n_def [symmetric] n'_def [symmetric] by (simp only: append_assoc same_append_eq)
  also have "\<dots> \<longleftrightarrow> sink_name s = sink_name s' \<and> show_nat n = show_nat n'"
    using colon_split [OF show_nat_no_colon [of n] show_nat_no_colon [of n']] by (metis (no_types))
  finally show ?thesis unfolding n_def n'_def show_nat_inj .
qed

lemma sink_key_later:
  "i < length ss \<Longrightarrow> sink_keys a (prior @ s # mid) ss ! i \<noteq> sink_key a prior s"
proof (induction ss arbitrary: mid i)
  case (Cons t ss)
  show ?case
  proof (cases i)
    case 0
    then show ?thesis by (auto simp: sink_key_eq_iff)
  next
    case (Suc j)
    then show ?thesis using Cons.IH [of j "mid @ [t]"] Cons.prems by simp
  qed
qed simp

lemma distinct_sink_keys: "distinct (sink_keys a prior ss)"
proof (induction ss arbitrary: prior)
  case (Cons s ss)
  have "sink_key a prior s \<notin> set (sink_keys a (prior @ [s]) ss)"
    using sink_key_later [of _ ss a prior s "[]"] by (auto simp: in_set_conv_nth)
  with Cons show ?case by simp
qed simp


subsection \<open>Correctness over the store contract\<close>

definition all_done :: "(sink \<times> claim_event \<times> send_outcome) list \<Rightarrow> bool" where
  "all_done events \<longleftrightarrow> (\<forall>(s, ce, so) \<in> set events. ce = Claim_Done \<and> so \<noteq> Send_Cancelled)"

text \<open>A channel keeps its claim when it accepted the alert or is not configured.\<close>

definition keeps_claim :: "sink \<times> claim_event \<times> send_outcome \<Rightarrow> bool" where
  "keeps_claim e = (case e of (s, ce, so) \<Rightarrow> so = Delivered \<or> \<not> configured s)"

definition event_sink :: "sink \<times> claim_event \<times> send_outcome \<Rightarrow> sink" where "event_sink = fst"

lemma event_sink_simp [simp]: "event_sink (s, ce, so) = s" by (simp add: event_sink_def)

definition sent_ok :: "sink \<times> claim_event \<times> send_outcome \<Rightarrow> bool" where
  "sent_ok e \<longleftrightarrow> fst (snd e) = Claim_Done \<and> snd (snd e) \<noteq> Send_Cancelled \<and> keeps_claim e"

lemma in_set_zip_keys: "j \<in> set ks \<Longrightarrow> length ks = length es \<Longrightarrow> \<exists>e \<in> set es. (j, e) \<in> set (zip ks es)"
  by (induction ks es rule: list_induct2') auto

context idempotency_store
begin

abbreviation run where "run \<equiv> dispatch_loop claim release"

lemma loop_step:
  assumes "so \<noteq> Send_Cancelled"
  obtains st2 where
    "run a prior ((s, Claim_Done, so) # rest) st results any_new =
       (if held st (sink_key a prior s) \<or> held st (dedupe_key a)
        then run a (prior @ [s]) rest st2 (results @ [(sink_name s, True)]) any_new
        else run a (prior @ [s]) rest st2 (results @ [(sink_name s, so = Delivered)]) True)"
    and "\<And>j. held st2 j \<longleftrightarrow> held st j \<or> j = sink_key a prior s \<and> (held st (dedupe_key a) \<or> keeps_claim (s, Claim_Done, so))"
proof -
  let ?key = "sink_key a prior s"
  obtain st1 ok where c: "claim st ?key (Some (dedupe_key a)) = (st1, ok)" by (cases "claim st ?key (Some (dedupe_key a))")
  have ok: "ok \<longleftrightarrow> \<not> held st ?key \<and> \<not> held st (dedupe_key a)" using claim_result [of st ?key "Some (dedupe_key a)"] c by auto
  have h: "held st1 j \<longleftrightarrow> j = ?key \<or> held st j" for j using claim_held [of st ?key "Some (dedupe_key a)" j] c by auto
  define st2 where "st2 = (if ok \<and> configured s \<and> so \<noteq> Delivered then release st1 ?key else st1)"
  show thesis
  proof (rule that [of st2])
    show "run a prior ((s, Claim_Done, so) # rest) st results any_new =
       (if held st ?key \<or> held st (dedupe_key a)
        then run a (prior @ [s]) rest st2 (results @ [(sink_name s, True)]) any_new
        else run a (prior @ [s]) rest st2 (results @ [(sink_name s, so = Delivered)]) True)"
      using c ok assms by (auto simp: st2_def Let_def)
    show "held st2 j \<longleftrightarrow> held st j \<or> j = ?key \<and> (held st (dedupe_key a) \<or> keeps_claim (s, Claim_Done, so))" for j
      using h ok by (auto simp: st2_def release_held keeps_claim_def)
  qed
qed

lemma loop_done:
  assumes "all_done events"
  shows "\<exists>st' any_new'. run a prior events st results any_new =
      (st', Done \<lparr>skipped_duplicate = (prior @ map event_sink events \<noteq> [] \<and> \<not> any_new'),
         sink_results = results @ map2 (\<lambda>k e. (sink_name (event_sink e),
             held st k \<or> held st (dedupe_key a) \<or> snd (snd e) = Delivered)) (sink_keys a prior (map event_sink events)) events\<rparr>)
    \<and> (any_new' \<longleftrightarrow> any_new \<or> (\<exists>k \<in> set (sink_keys a prior (map event_sink events)). \<not> held st k \<and> \<not> held st (dedupe_key a)))
    \<and> (\<forall>j. held st' j \<longleftrightarrow> held st j \<or> (\<exists>(k, e) \<in> set (zip (sink_keys a prior (map event_sink events)) events).
          j = k \<and> (held st (dedupe_key a) \<or> keeps_claim e)))"
  using assms
proof (induction events arbitrary: prior st results any_new)
  case (Cons e rest)
  obtain s so where e: "e = (s, Claim_Done, so)" "so \<noteq> Send_Cancelled"
    using Cons.prems by (cases e) (auto simp: all_done_def)
  have rest: "all_done rest" using Cons.prems by (simp add: all_done_def)
  let ?key = "sink_key a prior s" and ?keys = "sink_keys a (prior @ [s]) (map event_sink rest)"
  obtain st2 where st2:
    "run a prior ((s, Claim_Done, so) # rest) st results any_new =
       (if held st ?key \<or> held st (dedupe_key a)
        then run a (prior @ [s]) rest st2 (results @ [(sink_name s, True)]) any_new
        else run a (prior @ [s]) rest st2 (results @ [(sink_name s, so = Delivered)]) True)"
    and h: "\<And>j. held st2 j \<longleftrightarrow> held st j \<or> j = ?key \<and> (held st (dedupe_key a) \<or> keeps_claim (s, Claim_Done, so))"
    using loop_step [OF e(2), of a prior s rest st results any_new] by blast
  have dk: "held st2 (dedupe_key a) = held st (dedupe_key a)" by (simp add: h)
  have other: "held st2 k = held st k" if "k \<in> set ?keys" for k
  proof -
    have "k \<noteq> ?key" using that distinct_sink_keys [of a prior "s # map event_sink rest"] by auto
    then show ?thesis by (simp add: h)
  qed
  have map2: "map2 (\<lambda>k e. (sink_name (event_sink e), held st2 k \<or> held st (dedupe_key a) \<or> snd (snd e) = Delivered)) ?keys rest
      = map2 (\<lambda>k e. (sink_name (event_sink e), held st k \<or> held st (dedupe_key a) \<or> snd (snd e) = Delivered)) ?keys rest"
    using other by (auto dest: set_zip_leftD)
  let ?old = "held st ?key \<or> held st (dedupe_key a)"
  note ih = Cons.IH [OF rest, of "prior @ [s]" st2 "results @ [(sink_name s, ?old \<or> so = Delivered)]" "any_new \<or> \<not> ?old"]
  have run: "run a prior (e # rest) st results any_new =
      run a (prior @ [s]) rest st2 (results @ [(sink_name s, ?old \<or> so = Delivered)]) (any_new \<or> \<not> ?old)"
    unfolding e(1) st2 by (cases ?old) simp_all
  have any: "(\<exists>k \<in> set ?keys. \<not> held st2 k \<and> \<not> held st2 (dedupe_key a)) = (\<exists>k \<in> set ?keys. \<not> held st k \<and> \<not> held st (dedupe_key a))"
    using other dk by auto
  show ?case
    unfolding run using ih unfolding any dk map2
    by (elim exE conjE) (auto simp: e(1) h intro!: exI)
qed simp

lemma loop_step_any:
  defines "grows a prior s e st st2 \<equiv> \<forall>j. (held st j \<longrightarrow> held st2 j) \<and>
    (held st2 j \<longrightarrow> held st j \<or> j = sink_key a prior s \<and> (held st (dedupe_key a) \<or> sent_ok e))"
  assumes e: "e = (s, ce, so)"
  shows "(\<exists>st2 fin. run a prior (e # rest) st results any_new = (st2, fin) \<and> grows a prior s e st st2)
    \<or> (\<exists>st2 res an. run a prior (e # rest) st results any_new = run a (prior @ [s]) rest st2 res an \<and> grows a prior s e st st2)"
proof -
  let ?key = "sink_key a prior s"
  obtain st1 ok where c: "claim st ?key (Some (dedupe_key a)) = (st1, ok)" by (cases "claim st ?key (Some (dedupe_key a))")
  have ok: "ok \<longleftrightarrow> \<not> held st ?key \<and> \<not> held st (dedupe_key a)" using claim_result [of st ?key "Some (dedupe_key a)"] c by auto
  have h: "held st1 j \<longleftrightarrow> j = ?key \<or> held st j" for j using claim_held [of st ?key "Some (dedupe_key a)" j] c by auto
  have rel: "grows a prior s e st (release st1 ?key)" if ok using that ok h by (auto simp: grows_def release_held)
  have no: "grows a prior s e st st1" if "\<not> ok" using that ok h by (auto simp: grows_def)
  have kept: "grows a prior s e st st1" if "sent_ok e" using that h by (auto simp: grows_def)
  consider "ce = Claim_Down" | "ce = Claim_Cancelled" | "ce = Claim_Done" "so = Send_Cancelled" | "ce = Claim_Done" "so \<noteq> Send_Cancelled"
    by (cases ce) auto
  then show ?thesis
  proof cases
    case 1
    then show ?thesis using e by (auto simp: grows_def)
  next
    case 2
    then show ?thesis using e c rel no by (auto simp: Let_def)
  next
    case 3
    show ?thesis
    proof (cases ok)
      case True
      then show ?thesis using 3 e c rel by (auto simp: Let_def)
    next
      case False
      then show ?thesis using 3 e c no
        by (intro disjI2 exI [of _ st1] exI [of _ "results @ [(sink_name s, True)]"] exI [of _ any_new]) (simp add: Let_def)
    qed
  next
    case 4
    obtain st2 where st2: "run a prior (e # rest) st results any_new =
         (if held st ?key \<or> held st (dedupe_key a)
          then run a (prior @ [s]) rest st2 (results @ [(sink_name s, True)]) any_new
          else run a (prior @ [s]) rest st2 (results @ [(sink_name s, so = Delivered)]) True)"
      and h2: "\<And>j. held st2 j \<longleftrightarrow> held st j \<or> j = ?key \<and> (held st (dedupe_key a) \<or> keeps_claim (s, Claim_Done, so))"
      using loop_step [of so a prior s rest st results any_new thesis] 4 e by blast
    have "grows a prior s e st st2" using 4 e h2 by (auto simp: grows_def sent_ok_def)
    then show ?thesis unfolding st2 by (cases "held st ?key \<or> held st (dedupe_key a)") (simp_all, blast+)
  qed
qed

lemma loop_any:
  "run a prior events st results any_new = (st', fin) \<Longrightarrow>
     (held st j \<longrightarrow> held st' j) \<and>
     (held st' j \<longrightarrow> held st j \<or> (\<exists>(k, e) \<in> set (zip (sink_keys a prior (map event_sink events)) events).
        j = k \<and> (held st (dedupe_key a) \<or> sent_ok e)))"
proof (induction events arbitrary: prior st results any_new)
  case (Cons e rest)
  obtain s ce so where e: "e = (s, ce, so)" by (cases e)
  from loop_step_any [OF e, of a prior rest st results any_new] show ?case
  proof (elim disjE exE conjE)
    fix st2 fin'
    assume "run a prior (e # rest) st results any_new = (st2, fin')"
      "\<forall>j. (held st j \<longrightarrow> held st2 j) \<and> (held st2 j \<longrightarrow> held st j \<or> j = sink_key a prior s \<and> (held st (dedupe_key a) \<or> sent_ok e))"
    then show ?thesis using Cons.prems e by auto
  next
    fix st2 res an
    assume r: "run a prior (e # rest) st results any_new = run a (prior @ [s]) rest st2 res an"
      and g: "\<forall>j. (held st j \<longrightarrow> held st2 j) \<and> (held st2 j \<longrightarrow> held st j \<or> j = sink_key a prior s \<and> (held st (dedupe_key a) \<or> sent_ok e))"
    have dk: "held st2 (dedupe_key a) = held st (dedupe_key a)" using g by auto
    show ?thesis using Cons.IH [of "prior @ [s]" st2 res an] Cons.prems g r e by (fastforce simp: dk)
  qed
qed simp

lemma dispatch_complete:
  assumes "all_done events"
  defines "ks a \<equiv> sink_keys a [] (map event_sink events)"
  shows "\<exists>st'. dispatch claim release events st a =
      (st', Done \<lparr>skipped_duplicate = (events \<noteq> [] \<and> (\<forall>k \<in> set (ks a). held st k \<or> held st (dedupe_key a))),
         sink_results = map2 (\<lambda>k e. (sink_name (event_sink e),
             held st k \<or> held st (dedupe_key a) \<or> snd (snd e) = Delivered)) (ks a) events\<rparr>)
    \<and> (\<forall>j. held st' j \<longleftrightarrow> held st j \<or> (\<exists>(k, e) \<in> set (zip (ks a) events). j = k \<and> (held st (dedupe_key a) \<or> keeps_claim e)))"
  using loop_done [OF assms(1), of a "[]" st "[]" False] unfolding dispatch_def ks_def by auto

lemma dispatch_twice:
  assumes ev: "all_done events" "\<forall>e \<in> set events. keeps_claim e" "events \<noteq> []"
    and again: "all_done events'" "map event_sink events' = map event_sink events"
    and first: "dispatch claim release events st a = (st1, fin)"
  shows "\<exists>st2. dispatch claim release events' st1 a = (st2, Done \<lparr>skipped_duplicate = True,
        sink_results = map (\<lambda>e. (sink_name (event_sink e), True)) events\<rparr>)
      \<and> (\<forall>j. held st2 j = held st1 j)"
proof -
  let ?ks = "sink_keys a [] (map event_sink events)"
  have len: "length events' = length events" using arg_cong [OF again(2), of length] by simp
  have len0: "events' \<noteq> []" using len ev(3) by auto
  have h1: "held st1 j \<longleftrightarrow> held st j \<or> j \<in> set ?ks" for j
  proof -
    have "held st1 j \<longleftrightarrow> held st j \<or> (\<exists>(k, e) \<in> set (zip ?ks events). j = k \<and> (held st (dedupe_key a) \<or> keeps_claim e))"
      using dispatch_complete [OF ev(1), of st a] first by auto
    also have "\<dots> \<longleftrightarrow> held st j \<or> j \<in> set ?ks"
      using ev(2) in_set_zip_keys [of j ?ks events] by (auto dest: set_zip_leftD set_zip_rightD)
    finally show ?thesis .
  qed
  have m: "map2 (\<lambda>k e. (sink_name (event_sink e), held st1 k \<or> held st1 (dedupe_key a) \<or> snd (snd e) = Delivered)) ?ks events'
      = map (\<lambda>e. (sink_name (event_sink e), True)) events"
  proof (rule nth_equalityI)
    fix i assume "i < length (map2 (\<lambda>k e. (sink_name (event_sink e), held st1 k \<or> held st1 (dedupe_key a) \<or> snd (snd e) = Delivered)) ?ks events')"
    then have i: "i < length events" by (simp add: len)
    then have "held st1 (?ks ! i)" by (simp add: h1)
    moreover have "event_sink (events' ! i) = event_sink (events ! i)"
      using arg_cong [OF again(2), of "\<lambda>xs. xs ! i"] i len by simp
    ultimately show "map2 (\<lambda>k e. (sink_name (event_sink e), held st1 k \<or> held st1 (dedupe_key a) \<or> snd (snd e) = Delivered)) ?ks events' ! i
        = map (\<lambda>e. (sink_name (event_sink e), True)) events ! i"
      using i len by simp
  qed (simp add: len)
  obtain st2 where "dispatch claim release events' st1 a = (st2, Done \<lparr>skipped_duplicate = True,
        sink_results = map (\<lambda>e. (sink_name (event_sink e), True)) events\<rparr>)"
    and h2: "\<And>j. held st2 j \<longleftrightarrow> held st1 j \<or> (\<exists>(k, e) \<in> set (zip ?ks events'). j = k \<and> (held st1 (dedupe_key a) \<or> keeps_claim e))"
    using dispatch_complete [OF again(1), of st1 a] ev(3) len len0 unfolding again(2) m by (auto simp: h1)
  moreover have "held st2 j = held st1 j" for j using h2 h1 by (auto dest: set_zip_leftD)
  ultimately show ?thesis by blast
qed

end

subsection \<open>The dispatcher over the two stores\<close>

text \<open>The claims of one alert's channels never collide, duplicates of one channel name included, and
  two alerts whose keys have the same length (they are digests) share a channel key only when they are
  the same market state on the same channel.\<close>

theorem sink_keys_independent:
  assumes "length (dedupe_key a) = length (dedupe_key b)"
  shows "distinct (sink_keys a [] sinks)
    \<and> (sink_key a prior s = sink_key b prior' s' \<longleftrightarrow>
         dedupe_key a = dedupe_key b \<and> sink_key a prior s = sink_key a prior' s')"
  using assms by (auto simp: distinct_sink_keys sink_key_def)

lemma sink_keys_independent_witness:
  "distinct (sink_keys \<lparr>pick_id = ''1'', title = [], body = [], dedupe_key = ''k''\<rparr> []
     [\<lparr>sink_name = ''telegram'', configured = True\<rparr>, \<lparr>sink_name = ''telegram'', configured = True\<rparr>])"
  using sink_keys_independent [of "\<lparr>pick_id = ''1'', title = [], body = [], dedupe_key = ''k''\<rparr>"
    "\<lparr>pick_id = ''1'', title = [], body = [], dedupe_key = ''k''\<rparr>"] by blast

definition reports :: "('s \<Rightarrow> string \<Rightarrow> bool) \<Rightarrow> 's \<Rightarrow> alert \<Rightarrow> (sink \<times> claim_event \<times> send_outcome) list \<Rightarrow> (string \<times> bool) list" where
  "reports held st a events = map2 (\<lambda>k e. (sink_name (event_sink e),
      held st k \<or> held st (dedupe_key a) \<or> snd (snd e) = Delivered)) (sink_keys a [] (map event_sink events)) events"

text \<open>C35: an undisturbed dispatch over Redis reports every channel once, as delivered when it already had
  the alert or accepts it now; afterwards exactly the channels that had it, accepted it, or are not
  configured are held, so a failed channel is retried and a healthy one is not sent the alert again; and
  it is reported as a duplicate exactly when every channel already had it.\<close>

theorem redis_dispatch_complete:
  assumes "all_done events"
  shows "\<exists>db'. dispatch (redis_claim now default_ttl_seconds []) redis_release events db a =
      (db', Done \<lparr>skipped_duplicate = (events \<noteq> [] \<and> (\<forall>k \<in> set (sink_keys a [] (map event_sink events)).
            redis_held now db k \<or> redis_held now db (dedupe_key a))),
         sink_results = reports (redis_held now) db a events\<rparr>)
    \<and> (\<forall>j. redis_held now db' j \<longleftrightarrow> redis_held now db j
         \<or> (\<exists>(k, e) \<in> set (zip (sink_keys a [] (map event_sink events)) events).
              j = k \<and> (redis_held now db (dedupe_key a) \<or> keeps_claim e)))"
  using redis.dispatch_complete [OF assms, of now db a] by (simp add: reports_def)

definition telegram :: sink where "telegram = \<lparr>sink_name = ''telegram'', configured = True\<rparr>"
definition webhook :: sink where "webhook = \<lparr>sink_name = ''webhook'', configured = True\<rparr>"
definition demo_alert :: alert where "demo_alert = \<lparr>pick_id = ''1'', title = [], body = [], dedupe_key = ''k''\<rparr>"

lemma redis_dispatch_complete_witness:
  "\<exists>db'. dispatch (redis_claim 0 default_ttl_seconds []) redis_release
       [(telegram, Claim_Done, Delivered), (webhook, Claim_Done, Refused)] Map.empty demo_alert =
     (db', Done \<lparr>skipped_duplicate = False, sink_results = [(''telegram'', True), (''webhook'', False)]\<rparr>)"
proof -
  have d: "all_done [(telegram, Claim_Done, Delivered), (webhook, Claim_Done, Refused)]" by (simp add: all_done_def)
  show ?thesis using redis_dispatch_complete [OF d, of 0 Map.empty demo_alert]
    by (auto simp: reports_def redis_held_def redis_exists_def telegram_def webhook_def)
qed

text \<open>Once every channel has accepted an alert, dispatching the same alert again, however the channels
  would then answer, is reported as a duplicate, reports every channel as served and changes nothing.\<close>

theorem redispatch_is_duplicate:
  assumes "all_done events" "\<forall>e \<in> set events. keeps_claim e" "events \<noteq> []"
    and "all_done events'" "map event_sink events' = map event_sink events"
    and "dispatch (redis_claim now default_ttl_seconds []) redis_release events db a = (db1, fin)"
  shows "\<exists>db2. dispatch (redis_claim now default_ttl_seconds []) redis_release events' db1 a =
      (db2, Done \<lparr>skipped_duplicate = True, sink_results = map (\<lambda>e. (sink_name (event_sink e), True)) events\<rparr>)
    \<and> (\<forall>j. redis_held now db2 j = redis_held now db1 j)"
  using redis.dispatch_twice [OF assms] .

lemma redispatch_is_duplicate_witness:
  "\<exists>db2. dispatch (redis_claim 0 default_ttl_seconds []) redis_release [(telegram, Claim_Done, Refused)]
       (fst (dispatch (redis_claim 0 default_ttl_seconds []) redis_release [(telegram, Claim_Done, Delivered)] Map.empty demo_alert))
       demo_alert = (db2, Done \<lparr>skipped_duplicate = True, sink_results = [(''telegram'', True)]\<rparr>)"
proof -
  let ?d = "dispatch (redis_claim 0 default_ttl_seconds []) redis_release [(telegram, Claim_Done, Delivered)] Map.empty demo_alert"
  have "?d = (fst ?d, snd ?d)" by simp
  from redispatch_is_duplicate [OF _ _ _ _ _ this, of "[(telegram, Claim_Done, Refused)]"] show ?thesis
    by (auto simp: all_done_def keeps_claim_def telegram_def)
qed

text \<open>A dispatch cut short by a cancellation or a store failure, at any channel, forgets no earlier
  claim and holds a new key only for a channel that accepted the alert or is not configured, or when the
  alert was already held under its legacy key: no notification is consumed without a send.\<close>

theorem cancelled_dispatch_consumes_nothing:
  assumes "dispatch memory_claim memory_release events seen a = (seen', fin)"
  shows "seen \<subseteq> seen' \<and> (\<forall>j \<in> seen' - seen. \<exists>(k, e) \<in> set (zip (sink_keys a [] (map event_sink events)) events).
      j = k \<and> (dedupe_key a \<in> seen \<or> sent_ok e))"
  using memory.loop_any [OF assms [unfolded dispatch_def]] by blast

lemma cancelled_dispatch_consumes_nothing_witness:
  "\<exists>seen' fin. dispatch memory_claim memory_release
       [(telegram, Claim_Done, Delivered), (webhook, Claim_Cancelled, Refused)] {} demo_alert = (seen', fin)
    \<and> fin = Cancelled \<and> seen' \<subseteq> {sink_key demo_alert [] telegram}"
proof -
  let ?ev = "[(telegram, Claim_Done, Delivered), (webhook, Claim_Cancelled, Refused)]"
  let ?d = "dispatch memory_claim memory_release ?ev {} demo_alert"
  have d: "?d = (fst ?d, snd ?d)" by simp
  have "snd ?d = Cancelled" by (simp add: dispatch_def memory_claim_def telegram_def webhook_def sink_key_def demo_alert_def Let_def)
  moreover have "fst ?d \<subseteq> {sink_key demo_alert [] telegram}"
    using cancelled_dispatch_consumes_nothing [OF d] by (auto simp: sent_ok_def demo_alert_def)
  ultimately show ?thesis using d by blast
qed

end
