(* ===== verification/Gates.thy ===== *)
theory Gates
  imports Staking Pricing
begin

text \<open>
  The pick gates of the model strategy (\<^verbatim>\<open>app/edge/gates.py\<close>, \<^verbatim>\<open>app/edge/detector.py\<close>): every
  candidate is priced net of commission and judged against a validated policy; each failed gate
  leaves a named reason.
\<close>

subsection \<open>Model\<close>

record gate_policy =
  min_edge :: pyfloat
  min_ev :: pyfloat
  min_confidence :: pyfloat
  max_odds_age_seconds :: pyfloat
  min_liquidity :: pyfloat
  commission_by_book :: "(string \<times> pyfloat) list"

definition gate_policy_init :: "gate_policy \<Rightarrow> gate_policy res" where
  "gate_policy_init p =
     (if \<not> list_all isfinite [min_edge p, min_ev p, min_confidence p, max_odds_age_seconds p, min_liquidity p]
        then Raise ValueError
      else if \<not> (f_le (Fin (- 1)) (min_edge p) \<and> f_le (min_edge p) (Fin 1)) then Raise ValueError
      else if f_lt (min_ev p) (Fin 0) then Raise ValueError
      else if \<not> (f_le (Fin 0) (min_confidence p) \<and> f_le (min_confidence p) (Fin 1)) then Raise ValueError
      else if f_lt (max_odds_age_seconds p) (Fin 0) then Raise ValueError
      else if f_lt (min_liquidity p) (Fin 0) then Raise ValueError
      else if list_ex (\<lambda>(book, rate). strip book = [] \<or>
                \<not> isfinite rate \<or> \<not> (f_le (Fin 0) rate \<and> f_lt rate (Fin 1))) (commission_by_book p)
        then Raise ValueError
      else Ok p)"

record candidate =
  event_id :: string
  market :: string
  selection :: string
  decimal_odds :: pyfloat
  model_probability :: pyfloat
  fair_probability :: pyfloat
  confidence :: pyfloat
  odds_age_seconds :: pyfloat
  liquidity :: pyfloat
  bookmaker :: string

record decision =
  accepted :: bool
  reasons :: "string list"
  edge :: pyfloat
  ev :: pyfloat
  net_price :: pyfloat

text \<open>The first entry of the policy whose name equals the normalized bookmaker.\<close>

definition commission_rate :: "gate_policy \<Rightarrow> string \<Rightarrow> pyfloat" where
  "commission_rate p book = get_default (map_of (commission_by_book p)) (norm_book book) (Fin 0)"

definition invalid_range :: "candidate \<Rightarrow> bool" where
  "invalid_range c \<longleftrightarrow> f_le (decimal_odds c) (Fin 1)
     \<or> \<not> (f_le (Fin 0) (model_probability c) \<and> f_le (model_probability c) (Fin 1))
     \<or> \<not> (f_le (Fin 0) (fair_probability c) \<and> f_le (fair_probability c) (Fin 1))
     \<or> \<not> (f_le (Fin 0) (confidence c) \<and> f_le (confidence c) (Fin 1))
     \<or> f_lt (liquidity c) (Fin 0)"

definition evaluate :: "candidate \<Rightarrow> gate_policy \<Rightarrow> decision" where
  "evaluate c p =
     (let e = f_sub (model_probability c) (fair_probability c);
          net = f_add (Fin 1) (f_mul (f_sub (decimal_odds c) (Fin 1)) (f_sub (Fin 1) (commission_rate p (bookmaker c))));
          v = f_sub (f_mul (model_probability c) (f_sub net (Fin 1))) (f_sub (Fin 1) (model_probability c));
          invalid_numeric = (\<not> list_all isfinite [decimal_odds c, model_probability c, fair_probability c,
                               confidence c, odds_age_seconds c, liquidity c, net, e, v]);
          rs = (if invalid_numeric \<or> invalid_range c then [''invalid_numeric''] else [])
             @ (if f_lt (odds_age_seconds c) (Fin 0) then [''odds_timestamp_in_future''] else [])
             @ (if f_lt e (min_edge p) then [''edge_below_threshold''] else [])
             @ (if f_le v (Fin 0) \<or> f_lt v (min_ev p) then [''ev_below_threshold''] else [])
             @ (if f_lt (confidence c) (min_confidence p) then [''confidence_below_threshold''] else [])
             @ (if f_lt (max_odds_age_seconds p) (odds_age_seconds c) then [''odds_too_stale''] else [])
             @ (if f_lt (liquidity c) (min_liquidity p) then [''insufficient_liquidity''] else [])
      in \<lparr>accepted = (rs = []), reasons = rs, edge = e, ev = v, net_price = net\<rparr>)"

definition detect_edges :: "candidate list \<Rightarrow> gate_policy \<Rightarrow> (candidate \<times> decision) list" where
  "detect_edges cs p = map (\<lambda>c. (c, evaluate c p)) cs"

definition accepted_picks :: "candidate list \<Rightarrow> gate_policy \<Rightarrow> (candidate \<times> decision) list" where
  "accepted_picks cs p = filter (\<lambda>(c, d). accepted d) (detect_edges cs p)"

subsection \<open>Prices net of commission\<close>

lemma gate_policy_init_commission:
  assumes "gate_policy_init p = Ok q"
  shows "q = p" and "\<exists>r. commission_rate p book = Fin r \<and> 0 \<le> r \<and> r < 1"
proof -
  show "q = p" using assms by (auto simp: gate_policy_init_def split: if_splits)
  have "\<forall>(b, rate) \<in> set (commission_by_book p). isfinite rate \<and> f_le (Fin 0) rate \<and> f_lt rate (Fin 1)"
    using assms by (auto simp: gate_policy_init_def list_ex_iff split: if_splits)
  then show "\<exists>r. commission_rate p book = Fin r \<and> 0 \<le> r \<and> r < 1"
    by (auto simp: commission_rate_def get_default_def isfinite_iff split: option.split dest!: map_of_SomeD)
qed

text \<open>The net price of a price and a commission rate.\<close>

definition net_odds_of :: "pyfloat \<Rightarrow> pyfloat \<Rightarrow> pyfloat" where
  "net_odds_of d c = f_add (Fin 1) (f_mul (f_sub d (Fin 1)) (f_sub (Fin 1) c))"

lemma net_odds_range:
  assumes d: "is_f64 d" "1 < d" "d < 2 ^ 53" and c: "0 \<le> c" "c < 1"
  shows "\<exists>n. net_odds_of (Fin d) (Fin c) = Fin n \<and> is_f64 n \<and> 1 \<le> n \<and> n \<le> d" and "net_odds_of (Fin d) (Fin 0) = Fin d"
proof -
  have b: "f64 (d - 1) = Fin (d - 1)" "is_f64 (d - 1)" using f64_minus_1 [of d] is_f64_minus_1 [of d] d by auto
  define k where "k = rnd (1 - c)"
  have k: "f64 (1 - c) = Fin k" "0 \<le> k" "k \<le> 1"
    using f64_Fin_between [OF is_f64_0 is_f64_1, of "1 - c"] c by (auto simp: k_def)
  define m where "m = rnd ((d - 1) * k)"
  have "(d - 1) * k \<le> d - 1" using d k mult_left_le [of k "d - 1"] by simp
  then have m: "f64 ((d - 1) * k) = Fin m" "0 \<le> m" "m \<le> d - 1" "is_f64 m"
    using f64_Fin_between [OF is_f64_0 b(2), of "(d - 1) * k"] d k by (auto simp: m_def)
  have "f64 (1 + m) = Fin (rnd (1 + m)) \<and> 1 \<le> rnd (1 + m) \<and> rnd (1 + m) \<le> d \<and> is_f64 (rnd (1 + m))"
    using f64_Fin_between [OF is_f64_1 d(1), of "1 + m"] m by auto
  then show "\<exists>n. net_odds_of (Fin d) (Fin c) = Fin n \<and> is_f64 n \<and> 1 \<le> n \<and> n \<le> d"
    using b k m by (simp add: net_odds_of_def)
  show "net_odds_of (Fin d) (Fin 0) = Fin d"
    using b f64_rep [OF d(1)] f64_rep [OF is_f64_1] by (simp add: net_odds_of_def)
qed

lemma evaluate_net: "net_price (evaluate c p) = net_odds_of (decimal_odds c) (commission_rate p (bookmaker c))"
  by (simp add: evaluate_def net_odds_of_def Let_def)

lemma evaluate_ev:
  "ev (evaluate c p) = f_sub (f_mul (model_probability c) (f_sub (net_price (evaluate c p)) (Fin 1))) (f_sub (Fin 1) (model_probability c))"
  by (simp add: evaluate_def Let_def)

lemma net_price_range:
  assumes "gate_policy_init p0 = Ok p" "decimal_odds c = Fin d" "is_f64 d" "1 < d" "d < 2 ^ 53"
  shows "(\<exists>n. net_price (evaluate c p) = Fin n \<and> is_f64 n \<and> 1 \<le> n \<and> n \<le> d)
    \<and> (norm_book (bookmaker c) \<notin> fst ` set (commission_by_book p) \<longrightarrow> net_price (evaluate c p) = Fin d)"
proof -
  have p: "p = p0" using gate_policy_init_commission(1) [OF assms(1)] .
  obtain r where r: "commission_rate p (bookmaker c) = Fin r" "0 \<le> r" "r < 1"
    using gate_policy_init_commission(2) [OF assms(1), of "bookmaker c"] p by blast
  have "commission_rate p (bookmaker c) = Fin 0" if "norm_book (bookmaker c) \<notin> fst ` set (commission_by_book p)"
    using that by (simp add: commission_rate_def get_default_def map_of_eq_None_iff [THEN iffD2])
  then show ?thesis
    using net_odds_range [OF assms(3-5) r(2,3)] r(1) assms(2) by (auto simp: evaluate_net)
qed

text \<open>Commission only lowers the price a decision is made on: under a validated policy the net price
  is between one and the gross price, and a book without a commission entry is judged on its gross price
  bit for bit.\<close>

theorem net_price_bounded:
  assumes "gate_policy_init p0 = Ok p" "decimal_odds c = Fin d" "is_f64 d" "1 < d" "d < 2 ^ 53"
  shows "(\<exists>n. net_price (evaluate c p) = Fin n \<and> is_f64 n \<and> 1 \<le> n \<and> n \<le> d)
    \<and> (norm_book (bookmaker c) \<notin> fst ` set (commission_by_book p) \<longrightarrow> net_price (evaluate c p) = Fin d)"
  using assms by (rule net_price_range)

definition demo_policy :: gate_policy where
  "demo_policy = \<lparr>min_edge = Fin 0, min_ev = Fin 0, min_confidence = Fin 0, max_odds_age_seconds = Fin 600,
     min_liquidity = Fin 0, commission_by_book = [(''smarkets'', Fin (1 / 4))]\<rparr>"

definition demo_candidate :: "string \<Rightarrow> candidate" where
  "demo_candidate book = \<lparr>event_id = ''e'', market = ''h2h'', selection = ''Home'', decimal_odds = Fin 3,
     model_probability = Fin (1 / 2), fair_probability = Fin (1 / 4), confidence = Fin 1,
     odds_age_seconds = Fin 60, liquidity = Fin 100, bookmaker = book\<rparr>"

lemma net_price_bounded_witness:
  "(\<exists>n. net_price (evaluate (demo_candidate '' Smarkets'') demo_policy) = Fin n \<and> is_f64 n \<and> 1 \<le> n \<and> n \<le> 3)
    \<and> net_price (evaluate (demo_candidate ''bet365'') demo_policy) = Fin 3"
proof -
  have p: "gate_policy_init demo_policy = Ok demo_policy" by code_simp
  have d: "decimal_odds (demo_candidate b) = Fin 3" for b by (simp add: demo_candidate_def)
  have three: "is_f64 3" using is_f64_of_int [of 3] by simp
  have "norm_book (bookmaker (demo_candidate ''bet365'')) \<notin> fst ` set (commission_by_book demo_policy)" by code_simp
  then show ?thesis
    using net_price_bounded [OF p d three, of "'' Smarkets''"] net_price_bounded [OF p d three, of "''bet365''"] by simp
qed

lemma gates_passed:
  assumes "gate_policy_init p0 = Ok p"
  shows "accepted (evaluate c p) \<longleftrightarrow>
    list_all isfinite [decimal_odds c, model_probability c, fair_probability c, confidence c,
        odds_age_seconds c, liquidity c, net_price (evaluate c p), edge (evaluate c p), ev (evaluate c p)]
    \<and> f_lt (Fin 1) (decimal_odds c)
    \<and> f_le (Fin 0) (model_probability c) \<and> f_le (model_probability c) (Fin 1)
    \<and> f_le (Fin 0) (fair_probability c) \<and> f_le (fair_probability c) (Fin 1)
    \<and> f_le (min_confidence p) (confidence c) \<and> f_le (confidence c) (Fin 1)
    \<and> f_le (Fin 0) (odds_age_seconds c) \<and> f_le (odds_age_seconds c) (max_odds_age_seconds p)
    \<and> f_le (min_liquidity p) (liquidity c)
    \<and> f_le (min_edge p) (edge (evaluate c p))
    \<and> f_lt (Fin 0) (ev (evaluate c p)) \<and> f_le (min_ev p) (ev (evaluate c p))"
proof -
  obtain pe pv pc pa pl where q: "min_edge p = Fin pe" "min_ev p = Fin pv" "min_confidence p = Fin pc"
    "max_odds_age_seconds p = Fin pa" "min_liquidity p = Fin pl" "0 \<le> pc" "0 \<le> pl"
    using assms by (auto simp: gate_policy_init_def isfinite_iff split: if_splits)
  define n e v where "n = net_price (evaluate c p)" and "e = edge (evaluate c p)" and "v = ev (evaluate c p)"
  have "accepted (evaluate c p) \<longleftrightarrow>
      list_all isfinite [decimal_odds c, model_probability c, fair_probability c, confidence c, odds_age_seconds c, liquidity c, n, e, v]
      \<and> \<not> invalid_range c \<and> \<not> f_lt (odds_age_seconds c) (Fin 0) \<and> \<not> f_lt e (min_edge p)
      \<and> \<not> (f_le v (Fin 0) \<or> f_lt v (min_ev p)) \<and> \<not> f_lt (confidence c) (min_confidence p)
      \<and> \<not> f_lt (max_odds_age_seconds p) (odds_age_seconds c) \<and> \<not> f_lt (liquidity c) (min_liquidity p)"
    by (simp add: n_def e_def v_def evaluate_def Let_def)
  then show ?thesis
    unfolding n_def [symmetric] e_def [symmetric] v_def [symmetric] using q
    by (auto simp: isfinite_iff invalid_range_def not_less not_le)
qed



text \<open>An accepted candidate can be sized: full Kelly at its net price does not raise and is the
  expected value the gate checked, per unit of net winnings.\<close>

theorem accepted_is_stakeable:
  assumes "gate_policy_init p0 = Ok p" "accepted (evaluate c p)"
    and "decimal_odds c = Fin d" "is_f64 d" "d < 2 ^ 53" "model_probability c = Fin m" "is_f64 m"
  shows "\<exists>k n. kelly_fraction (model_probability c) (net_price (evaluate c p)) = Ok k \<and> float_in k 1
    \<and> net_price (evaluate c p) = Fin n \<and> 1 < n
    \<and> f_div (ev (evaluate c p)) (f_sub (net_price (evaluate c p)) (Fin 1)) = Ok k"
proof -
  obtain v where a: "1 < d" "0 \<le> m" "m \<le> 1" "ev (evaluate c p) = Fin v" "0 < v"
    using assms(2) unfolding gates_passed [OF assms(1)] using assms(3,6) by (auto simp: isfinite_iff)
  obtain n where n: "net_price (evaluate c p) = Fin n" "is_f64 n" "1 \<le> n" "n \<le> d"
    using net_price_range [OF assms(1,3,4) a(1) assms(5)] by blast
  have b: "f64 (n - 1) = Fin (n - 1)" using f64_minus_1 [OF n(2,3)] n(4) assms(5) by simp
  have v: "Fin v = f_sub (f64 (m * (n - 1))) (f64 (1 - m))"
    using evaluate_ev [of c p] a(4) n(1) assms(6) b by simp
  have n1: "n \<noteq> 1"
  proof
    assume "n = 1"
    have "f64 (1 - m) = Fin (rnd (1 - m))" "0 \<le> rnd (1 - m)"
      using f64_Fin_between [OF is_f64_0 is_f64_1, of "1 - m"] a by auto
    then have "Fin v = f64 (- rnd (1 - m))" using v \<open>n = 1\<close> f64_rep [OF is_f64_0] by simp
    then have "v \<le> 0" using f64_FinD [of "- rnd (1 - m)" v] \<open>0 \<le> rnd (1 - m)\<close> rnd_nonpos [of "- rnd (1 - m)"] by simp
    then show False using a(5) by simp
  qed
  then have n2: "1 < n" using n(3) by simp
  obtain k where k: "kelly_fraction (Fin m) (Fin n) = Ok k" "float_in k 1"
    using kelly_fraction_range [OF assms(7) a(2,3) n(2) n2] by blast
  have q: "0 \<le> v / (n - 1)" using a(5) n2 by simp
  have "k = f_max (f64 (v / (n - 1))) (Fin 0)"
    using k(1) a(2,3) n2 b v [symmetric] by (simp add: kelly_fraction_def Let_def mult.commute [of "n - 1"])
  also have "\<dots> = f64 (v / (n - 1))"
    using f64_mono [OF q] f64_rep [OF is_f64_0] by (cases "f64 (v / (n - 1))") (auto simp: f_max_def)
  finally show ?thesis using k n n2 assms(6) a(4) b by simp
qed

lemma accepted_is_stakeable_witness:
  "\<exists>k n. kelly_fraction (model_probability (demo_candidate ''smarkets'')) (net_price (evaluate (demo_candidate ''smarkets'') demo_policy)) = Ok k
    \<and> float_in k 1 \<and> net_price (evaluate (demo_candidate ''smarkets'') demo_policy) = Fin n \<and> 1 < n
    \<and> f_div (ev (evaluate (demo_candidate ''smarkets'') demo_policy))
        (f_sub (net_price (evaluate (demo_candidate ''smarkets'') demo_policy)) (Fin 1)) = Ok k"
proof (rule accepted_is_stakeable [where d = 3 and m = "1 / 2"])
  show "gate_policy_init demo_policy = Ok demo_policy" by code_simp
  show "accepted (evaluate (demo_candidate ''smarkets'') demo_policy)" by code_simp
  show "is_f64 3" using is_f64_of_int [of 3] by simp
  show "is_f64 (1 / 2)" using is_f64_quarter [of 2] by simp
qed (simp_all add: demo_candidate_def)

end
