(* ===== verification/Ticks.thy ===== *)
theory Ticks
  imports FloatFacts
begin

text \<open>
  The Betfair price increments (\<^verbatim>\<open>app/edge/betfair_ticks.py\<close>) and implied probabilities
  (\<^verbatim>\<open>app/probabilities/implied.py\<close>).
\<close>

definition tick_ladder :: "(pyfloat \<times> pyfloat) list" where
  "tick_ladder = [(Fin 2, f64 (1 / 100)), (Fin 3, f64 (2 / 100)), (Fin 4, f64 (5 / 100)), (Fin 6, f64 (1 / 10)),
     (Fin 10, f64 (2 / 10)), (Fin 20, f64 (5 / 10)), (Fin 30, Fin 1), (Fin 50, Fin 2), (Fin 100, Fin 5), (Fin 1000, Fin 10)]"

definition tick_eps :: pyfloat where "tick_eps = f64 (1 / 10 ^ 9)"

fun ladder_tick :: "(pyfloat \<times> pyfloat) list \<Rightarrow> pyfloat \<Rightarrow> pyfloat" where
  "ladder_tick [] price = Fin 10"
| "ladder_tick ((upper, tick) # rest) price = (if f_lt price upper then tick else ladder_tick rest price)"

definition betfair_tick_size :: "pyfloat \<Rightarrow> pyfloat" where
  "betfair_tick_size price = ladder_tick tick_ladder price"

definition within_one_tick :: "pyfloat option \<Rightarrow> pyfloat option \<Rightarrow> bool option" where
  "within_one_tick a b = (case (a, b) of
     (Some x, Some y) \<Rightarrow> Some (f_le (f_abs (f_sub x y)) (f_add (betfair_tick_size (f_max x y)) tick_eps))
   | _ \<Rightarrow> None)"

definition tick_distance :: "pyfloat option \<Rightarrow> pyfloat option \<Rightarrow> pyfloat option res" where
  "tick_distance a b = (case (a, b) of
     (Some x, Some y) \<Rightarrow> rmap Some (f_div (f_abs (f_sub x y)) (betfair_tick_size (f_max x y)))
   | _ \<Rightarrow> Ok None)"

definition implied_probability :: "pyfloat \<Rightarrow> pyfloat res" where
  "implied_probability decimal_odds =
     (if f_le decimal_odds (Fin 1) then Raise ValueError else f_div (Fin 1) decimal_odds)"

subsection \<open>The ladder\<close>

definition ladder_sizes :: "pyfloat list" where
  "ladder_sizes = map snd tick_ladder"

lemma ladder_tick_in: "ladder_tick l price \<in> insert (Fin 10) (set (map snd l))"
  by (induction l price rule: ladder_tick.induct) auto

lemma tick_size_in: "betfair_tick_size price \<in> set ladder_sizes"
  using ladder_tick_in [of tick_ladder price] by (auto simp: betfair_tick_size_def ladder_sizes_def tick_ladder_def)

fun ladder_ok :: "(pyfloat \<times> pyfloat) list \<Rightarrow> bool" where
  "ladder_ok [] \<longleftrightarrow> True"
| "ladder_ok ((u, t) # rest) \<longleftrightarrow> f_le t (Fin 10) \<and> list_all (\<lambda>(u', t'). f_le u u' \<and> f_le t t') rest \<and> ladder_ok rest"

lemma ladder_tick_ge:
  "f_le t (Fin 10) \<Longrightarrow> list_all (\<lambda>(u', t'). f_le t t') l \<Longrightarrow> f_le t (ladder_tick l p)"
  by (induction l p rule: ladder_tick.induct) auto

lemma f_lt_mono_left: "f_le a b \<Longrightarrow> f_lt b c \<Longrightarrow> f_lt a c"
  by (cases a; cases b; cases c) (auto simp: f_lt_def)

lemma ladder_tick_mono:
  "ladder_ok l \<Longrightarrow> f_le a b \<Longrightarrow> f_le (ladder_tick l a) (ladder_tick l b)"
proof (induction l)
  case (Cons e l)
  obtain u t where e: "e = (u, t)" by (cases e)
  then have ok: "f_le t (Fin 10)" "list_all (\<lambda>(u', t'). f_le t t') l" "ladder_ok l"
    using Cons.prems by (auto simp: list_all_iff)
  have tt: "f_le t t" using ok(1) by (cases t) auto
  show ?case using Cons ok ladder_tick_ge [OF ok(1,2), of b] f_lt_mono_left [OF Cons.prems(2), of u] tt e by auto
qed simp

text \<open>Every increment is a positive float, and adding the tolerance leaves room for rounding.\<close>

definition tick_fits :: "pyfloat \<Rightarrow> bool" where
  "tick_fits t = (case t of Fin x \<Rightarrow> rnd x = x \<and> 0 < x \<and> x \<le> 10 \<and>
      (case f_add t tick_eps of Fin y \<Rightarrow> x * (1 + 1 / 2 ^ 40) \<le> y | _ \<Rightarrow> False) | _ \<Rightarrow> False)"

lemma tick_values:
  "f64 (1 / 100) = Fin (5764607523034235 / 576460752303423488)"
  "f64 (2 / 100) = Fin (5764607523034235 / 288230376151711744)"
  "f64 (5 / 100) = Fin (3602879701896397 / 72057594037927936)"
  "f64 (1 / 10) = Fin (3602879701896397 / 36028797018963968)"
  "f64 (2 / 10) = Fin (3602879701896397 / 18014398509481984)"
  "f64 (5 / 10) = Fin (1 / 2)"
  by code_simp+

lemma tick_ladder_values: "tick_ladder =
    [(Fin 2, Fin (5764607523034235 / 576460752303423488)),
     (Fin 3, Fin (5764607523034235 / 288230376151711744)),
     (Fin 4, Fin (3602879701896397 / 72057594037927936)),
     (Fin 6, Fin (3602879701896397 / 36028797018963968)),
     (Fin 10, Fin (3602879701896397 / 18014398509481984)),
     (Fin 20, Fin (1 / 2)),
     (Fin 30, Fin 1),
     (Fin 50, Fin 2),
     (Fin 100, Fin 5),
     (Fin 1000, Fin 10)]"
  unfolding tick_ladder_def tick_values ..

lemma tick_fits_values:
  "tick_fits (Fin (5764607523034235 / 576460752303423488))"
  "tick_fits (Fin (5764607523034235 / 288230376151711744))"
  "tick_fits (Fin (3602879701896397 / 72057594037927936))"
  "tick_fits (Fin (3602879701896397 / 36028797018963968))"
  "tick_fits (Fin (3602879701896397 / 18014398509481984))"
  "tick_fits (Fin (1 / 2))"
  "tick_fits (Fin 1)"
  "tick_fits (Fin 2)"
  "tick_fits (Fin 5)"
  "tick_fits (Fin 10)"
  by code_simp+

lemma ladder_facts: "ladder_ok tick_ladder" "list_all tick_fits ladder_sizes"
  unfolding ladder_sizes_def tick_ladder_values by (simp, simp add: tick_fits_values)

lemma tick_size_pos: obtains t y where "betfair_tick_size p = Fin t" "0 < t" "t \<le> 10" "rnd t = t"
    "f_add (Fin t) tick_eps = Fin y" "t * (1 + 1 / 2 ^ 40) \<le> y"
proof -
  have "tick_fits (betfair_tick_size p)" using tick_size_in [of p] ladder_facts(2) by (simp only: list_all_iff)
  then show thesis using that by (auto simp: tick_fits_def split: pyfloat.splits)
qed

text \<open>The increment is a positive float of the ladder at every price and never gets finer as the price
  rises; so it is taken at the coarser side of a comparison.\<close>

theorem tick_size_monotone:
  assumes "f_le a b"
  shows "f_lt (Fin 0) (betfair_tick_size a) \<and> f_le (betfair_tick_size a) (betfair_tick_size b)
    \<and> f_le (betfair_tick_size b) (Fin 10) \<and> betfair_tick_size a \<in> set ladder_sizes"
proof -
  obtain t where "betfair_tick_size a = Fin t" "0 < t" by (rule tick_size_pos)
  moreover obtain t' where "betfair_tick_size b = Fin t'" "t' \<le> 10" by (rule tick_size_pos)
  ultimately show ?thesis
    using ladder_tick_mono [OF ladder_facts(1) assms] tick_size_in [of a] by (simp add: betfair_tick_size_def)
qed

lemma tick_size_monotone_witness:
  "f_lt (Fin 0) (betfair_tick_size (Fin 2)) \<and> f_le (betfair_tick_size (Fin 2)) (betfair_tick_size (Fin 7))
    \<and> f_le (betfair_tick_size (Fin 7)) (Fin 10) \<and> betfair_tick_size (Fin 2) \<in> set ladder_sizes"
  by (rule tick_size_monotone) simp

lemma f_abs_f64: "f_abs (f64 x) = f64 \<bar>x\<bar>"
proof (cases "0 \<le> x")
  case True
  then show ?thesis using f64_cases [of x] rnd_nonneg [of x] by auto
next
  case False
  then have "f64 \<bar>x\<bar> = f_neg (f64 x)"
    using f64_cases [of x] rnd_nonpos [of x] by (auto simp: f64_def Let_def rnd_uminus split: if_splits)
  then show ?thesis using False f64_cases [of x] rnd_nonpos [of x] by auto
qed

text \<open>The distance in ticks of two quoted prices is always a number, zero or more; when it is at most
  one the prices are within one tick; both comparisons are symmetric, and both are undefined exactly when
  a price is missing.\<close>

theorem tick_distance_sound:
  assumes a: "is_f64 a" "0 < a" and b: "is_f64 b" "0 < b"
  shows "\<exists>d. tick_distance (Some (Fin a)) (Some (Fin b)) = Ok (Some d) \<and> f_le (Fin 0) d
    \<and> (f_le d (Fin 1) \<longrightarrow> within_one_tick (Some (Fin a)) (Some (Fin b)) = Some True)
    \<and> tick_distance (Some (Fin b)) (Some (Fin a)) = Ok (Some d)
    \<and> within_one_tick (Some (Fin a)) (Some (Fin b)) = within_one_tick (Some (Fin b)) (Some (Fin a))
    \<and> tick_distance None (Some (Fin b)) = Ok None \<and> within_one_tick None (Some (Fin b)) = None"
proof -
  define x where "x = rnd \<bar>a - b\<bar>"
  have "\<bar>a - b\<bar> \<le> max a b" using a b by auto
  then have x: "f64 \<bar>a - b\<bar> = Fin x" "0 \<le> x"
    using f64_Fin_between [OF is_f64_0, of "max a b" "\<bar>a - b\<bar>"] a b by (auto simp: x_def max_def)
  obtain t y where t: "betfair_tick_size (Fin (max a b)) = Fin t" "0 < t" "f_add (Fin t) tick_eps = Fin y" "t * (1 + 1 / 2 ^ 40) \<le> y"
    by (rule tick_size_pos)
  have near: "x \<le> y" if "f_le (f64 (x / t)) (Fin 1)"
  proof (rule ccontr)
    assume "\<not> x \<le> y"
    then have "t * (1 + 1 / 2 ^ 40) \<le> x" using t(4) by simp
    then have le: "1 + 1 / 2 ^ 40 \<le> x / t" using t(2) by (simp add: pos_le_divide_eq mult.commute)
    have "f64 (1 + 1 / 2 ^ 40) = Fin (1 + 1 / 2 ^ 40)" by code_simp
    then have "f_le (Fin (1 + 1 / 2 ^ 40)) (f64 (x / t))" using f64_mono [OF le] by simp
    then show False using f_le_trans [OF _ that, of "Fin (1 + 1 / 2 ^ 40)"] by simp
  qed
  have "f_le (Fin 0) (f64 (x / t))" using f64_mono [of 0 "x / t"] f64_rep [OF is_f64_0] x t by simp
  then show ?thesis
    using x t near
    by (simp add: tick_distance_def within_one_tick_def f_abs_f64 abs_minus_commute [of b] max.commute [of b])
qed

lemma tick_distance_sound_witness:
  "\<exists>d. tick_distance (Some (Fin 2)) (Some (Fin 3)) = Ok (Some d) \<and> f_le (Fin 0) d
    \<and> within_one_tick (Some (Fin 2)) (Some (Fin 3)) = within_one_tick (Some (Fin 3)) (Some (Fin 2))"
  using tick_distance_sound [of 2 3] is_f64_of_int [of 2] is_f64_of_int [of 3] by auto

text \<open>The implied probability of a price above one is a float strictly between zero and one, or one
  itself when rounded up, and lower prices imply no smaller probabilities; a price of one or less, and it
  alone, is refused.\<close>

theorem implied_probability_range:
  assumes "is_f64 d" "1 < d"
  shows "\<exists>q. implied_probability (Fin d) = Ok (Fin q) \<and> 0 \<le> q \<and> q \<le> 1
    \<and> (\<forall>d'. d \<le> d' \<longrightarrow> (\<exists>q'. implied_probability (Fin d') = Ok (Fin q') \<and> q' \<le> q))
    \<and> (\<forall>d'. implied_probability (Fin d') = Raise ValueError \<longleftrightarrow> d' \<le> 1)"
proof -
  have f: "f64 (1 / e) = Fin (rnd (1 / e)) \<and> 0 \<le> rnd (1 / e) \<and> rnd (1 / e) \<le> 1" if "1 < e" for e
    using f64_Fin_between [OF is_f64_0 is_f64_1, of "1 / e"] that by simp
  have ok: "implied_probability (Fin e) = Ok (Fin (rnd (1 / e)))" if "1 < e" for e
    using f [OF that] that by (simp add: implied_probability_def)
  have "rnd (1 / d') \<le> rnd (1 / d)" if "d \<le> d'" for d'
    using that assms by (intro rnd_mono) (simp add: frac_le)
  then show ?thesis
    using ok f assms by (intro exI [of _ "rnd (1 / d)"]) (auto simp: implied_probability_def split: if_splits)
qed

lemma implied_probability_range_witness:
  "\<exists>q. implied_probability (Fin 2) = Ok (Fin q) \<and> 0 \<le> q \<and> q \<le> 1"
  using implied_probability_range [of 2] is_f64_of_int [of 2] by auto

end
