(* ===== verification/Confidence.thy ===== *)
theory Confidence
  imports PyText FloatFacts
begin

text \<open>
  The five-star confidence rating of a pick (\<^verbatim>\<open>app/edge/confidence.py\<close>), with the texts of the bands
  that fired.
\<close>

subsection \<open>Fixed-point formatting\<close>

text \<open>\<^verbatim>\<open>f"{x:.nf}"\<close>: the exact value rounded half to even.\<close>

definition fmt_fixed :: "nat \<Rightarrow> pyfloat \<Rightarrow> string" where
  "fmt_fixed n f = (case f of
     Fin x \<Rightarrow> (let k = nat (round_half_even (\<bar>x\<bar> * 10 ^ n)); frac = show_nat (k mod 10 ^ n) in
        (if x < 0 then ''-'' else '''') @ show_nat (k div 10 ^ n) @
        (if n = 0 then '''' else ''.'' @ replicate (n - length frac) (CHR ''0'') @ frac))
   | PInf \<Rightarrow> ''inf'' | NInf \<Rightarrow> ''-inf'' | NaN \<Rightarrow> ''nan'')"

subsection \<open>Model\<close>

definition ml_operating_point :: pyfloat where "ml_operating_point = f64 (725 / 1000)"
definition ml_weak_floor :: pyfloat where "ml_weak_floor = f64 (60 / 100)"

definition anchor_points :: "string \<Rightarrow> int" where
  "anchor_points a = (if a = ''pinnacle'' then 2 else if a = ''sharp'' then 1 else 0)"

record rating =
  level :: int
  label :: string
  score :: int
  reasons :: "string list"

definition level_labels :: "(int \<times> string) list" where
  "level_labels = [(1, ''minimal''), (2, ''low''), (3, ''moderate''), (4, ''high''), (5, ''very high'')]"

definition edge_band :: "pyfloat \<Rightarrow> pyfloat \<Rightarrow> int \<times> string" where
  "edge_band e threshold =
     (let strong = f_mul (Fin 2) threshold in
      if f_le strong e then (2, ''edge >= '' @ fmt_fixed 1 (f_mul strong (Fin 100)) @ ''% (2x floor)'')
      else if f_le threshold e then (1, ''edge >= '' @ fmt_fixed 1 (f_mul threshold (Fin 100)) @ ''% (floor)'')
      else (0, ''edge < '' @ fmt_fixed 1 (f_mul threshold (Fin 100)) @ ''% (below floor)''))"

definition anchor_band :: "string option \<Rightarrow> int \<times> string list" where
  "anchor_band anchor_type = (case anchor_type of
     None \<Rightarrow> (0, [])
   | Some a \<Rightarrow> (let p = anchor_points a in
       (p, [if p \<noteq> 0 then a @ '' anchor (+'' @ show_nat (nat p) @ '')'' else a @ '' anchor (+0)''])))"

definition ml_band :: "pyfloat option \<Rightarrow> int \<times> string list" where
  "ml_band vf = (case vf of
     None \<Rightarrow> (0, [])
   | Some s \<Rightarrow>
       if f_le ml_operating_point s then (1, [''ML score >= q* ('' @ fmt_fixed 3 ml_operating_point @ '')''])
       else if f_le ml_weak_floor s then (0, [''ML score in ['' @ fmt_fixed 2 ml_weak_floor @ '', q*)''])
       else (- 1, [''ML score < '' @ fmt_fixed 2 ml_weak_floor @ '' (weak)'']))"

definition confidence_rating ::
  "pyfloat \<Rightarrow> pyfloat \<Rightarrow> pyfloat option \<Rightarrow> string option \<Rightarrow> int option \<Rightarrow> rating res" where
  "confidence_rating e threshold vf anchor_type book_count =
     (let (se, re) = edge_band e threshold; (sa, ra) = anchor_band anchor_type; (sm, rm) = ml_band vf;
          sc = se + sa + sm; lv = max 1 (min 5 (sc + 1)) in
      case map_of level_labels lv of
        None \<Rightarrow> Raise KeyError
      | Some lb \<Rightarrow> Ok \<lparr>level = lv, label = lb, score = sc, reasons = re # ra @ rm\<rparr>)"

subsection \<open>Bands\<close>

lemma label_exists: "1 \<le> lv \<Longrightarrow> lv \<le> 5 \<Longrightarrow> \<exists>lb. map_of level_labels lv = Some lb"
proof -
  assume "1 \<le> lv" "lv \<le> 5"
  then have "lv \<in> {1, 2, 3, 4, 5}" by auto
  then show ?thesis by (auto simp: level_labels_def)
qed

definition rating_score :: "pyfloat \<Rightarrow> pyfloat \<Rightarrow> pyfloat option \<Rightarrow> string option \<Rightarrow> int" where
  "rating_score e threshold vf anchor_type = fst (edge_band e threshold) + fst (anchor_band anchor_type) + fst (ml_band vf)"

lemma confidence_rating_eq:
  "\<exists>r. confidence_rating e th vf an bc = Ok r \<and> score r = rating_score e th vf an
    \<and> level r = max 1 (min 5 (rating_score e th vf an + 1)) \<and> map_of level_labels (level r) = Some (label r)"
proof -
  let ?lv = "max 1 (min 5 (rating_score e th vf an + 1))"
  obtain lb where "map_of level_labels ?lv = Some lb" using label_exists [of ?lv] by auto
  then show ?thesis by (auto simp: confidence_rating_def rating_score_def Let_def split: prod.splits)
qed

lemma edge_band_range: "0 \<le> fst (edge_band e th) \<and> fst (edge_band e th) \<le> 2"
  by (simp add: edge_band_def Let_def)

lemma anchor_band_range: "0 \<le> fst (anchor_band an) \<and> fst (anchor_band an) \<le> 2"
  by (simp add: anchor_band_def anchor_points_def Let_def split: option.split)

lemma ml_band_range: "- 1 \<le> fst (ml_band vf) \<and> fst (ml_band vf) \<le> 1"
  by (simp add: ml_band_def split: option.split)

lemma edge_band_mono: "f_le e e' \<Longrightarrow> fst (edge_band e th) \<le> fst (edge_band e' th)"
  using f_le_trans [of "f_mul (Fin 2) th" e e'] f_le_trans [of th e e'] by (auto simp: edge_band_def Let_def)

lemma ml_band_mono: "f_le s s' \<Longrightarrow> fst (ml_band (Some s)) \<le> fst (ml_band (Some s'))"
  using f_le_trans [of ml_operating_point s s'] f_le_trans [of ml_weak_floor s s'] by (auto simp: ml_band_def)

text \<open>The rating never fails; its level is one to five with the label of that level, and it does not
  depend on the number of books.  It never falls when the edge or the filter score rises, nor when an
  absent or consensus anchor becomes sharp, or a sharp one Pinnacle.\<close>

theorem rating_monotone:
  assumes "f_le e e'" "f_le s s'" "(an, an') \<in> {(None, Some ''consensus''), (Some ''consensus'', Some ''sharp''), (Some ''sharp'', Some ''pinnacle''), (None, None)}"
  shows "\<exists>r r'. confidence_rating e th (Some s) an bc = Ok r \<and> confidence_rating e' th (Some s') an' bc' = Ok r'
    \<and> 1 \<le> level r \<and> level r \<le> 5 \<and> map_of level_labels (level r) = Some (label r)
    \<and> level r \<le> level r' \<and> score r \<le> score r'"
proof -
  obtain r r' where r: "confidence_rating e th (Some s) an bc = Ok r" "score r = rating_score e th (Some s) an"
      "level r = max 1 (min 5 (rating_score e th (Some s) an + 1))" "map_of level_labels (level r) = Some (label r)"
    and r': "confidence_rating e' th (Some s') an' bc' = Ok r'" "score r' = rating_score e' th (Some s') an'"
      "level r' = max 1 (min 5 (rating_score e' th (Some s') an' + 1))"
    using confidence_rating_eq by metis
  have "fst (anchor_band an) \<le> fst (anchor_band an')" using assms(3) by (auto simp: anchor_band_def anchor_points_def Let_def)
  then have "rating_score e th (Some s) an \<le> rating_score e' th (Some s') an'"
    using edge_band_mono [OF assms(1), of th] ml_band_mono [OF assms(2)] by (simp add: rating_score_def)
  then show ?thesis using r r' by auto
qed

lemma rating_monotone_witness:
  "\<exists>r r'. confidence_rating (Fin 0) (Fin 1) (Some (Fin 0)) None None = Ok r
    \<and> confidence_rating (Fin 1) (Fin 1) (Some (Fin 1)) (Some ''consensus'') (Some 3) = Ok r'
    \<and> 1 \<le> level r \<and> level r \<le> 5 \<and> map_of level_labels (level r) = Some (label r)
    \<and> level r \<le> level r' \<and> score r \<le> score r'"
  by (rule rating_monotone) simp_all

text \<open>Five stars are given exactly to a pick at least at the floor and anchored on Pinnacle with either
  twice the floor and no weak filter score, or a filter score at the operating point; or to a strong edge on
  another sharp anchor with such a score.\<close>

theorem five_stars_iff:
  "\<exists>r. confidence_rating e th vf an bc = Ok r \<and>
    (level r = 5 \<longleftrightarrow>
      (let strong = f_le (f_mul (Fin 2) th) e; good = (\<exists>s. vf = Some s \<and> f_le ml_operating_point s);
           weak = (\<exists>s. vf = Some s \<and> \<not> f_le ml_operating_point s \<and> \<not> f_le ml_weak_floor s) in
       an = Some ''pinnacle'' \<and> (strong \<and> \<not> weak \<or> f_le th e \<and> good)
       \<or> an = Some ''sharp'' \<and> strong \<and> good))"
proof -
  obtain r where r: "confidence_rating e th vf an bc = Ok r" "level r = max 1 (min 5 (rating_score e th vf an + 1))"
    using confidence_rating_eq by metis
  have "level r = 5 \<longleftrightarrow> 4 \<le> rating_score e th vf an" using r(2) by auto
  then show ?thesis using r(1)
    by (auto simp: rating_score_def edge_band_def anchor_band_def anchor_points_def ml_band_def Let_def split: option.splits)
qed

text \<open>A pick just at the premium floor on a consensus anchor without a filter score gets two stars.\<close>

theorem bare_premium_two_stars:
  assumes "f_le th e" "\<not> f_le (f_mul (Fin 2) th) e"
  shows "\<exists>r. confidence_rating e th None (Some ''consensus'') bc = Ok r \<and> level r = 2 \<and> label r = ''low''"
proof -
  obtain r where r: "confidence_rating e th None (Some ''consensus'') bc = Ok r"
      "level r = max 1 (min 5 (rating_score e th None (Some ''consensus'') + 1))"
      "map_of level_labels (level r) = Some (label r)"
    using confidence_rating_eq by metis
  have "level r = 2" using r(2) assms by (simp add: rating_score_def edge_band_def anchor_band_def anchor_points_def ml_band_def Let_def)
  moreover have "label r = ''low''" using r(3) unfolding \<open>level r = 2\<close> by (simp add: level_labels_def)
  ultimately show ?thesis using r(1) by blast
qed

lemma bare_premium_two_stars_witness:
  "\<exists>r. confidence_rating (f64 (4 / 100)) (f64 (3 / 100)) None (Some ''consensus'') None = Ok r \<and> level r = 2 \<and> label r = ''low''"
  by (rule bare_premium_two_stars) code_simp+

end
