(* ===== verification/Steam.thy ===== *)
theory Steam
  imports Pricing PyTime Ticks "HOL-Library.Multiset"
begin

text \<open>
  The line-movement gate (\<^verbatim>\<open>app/edge/steam.py\<close>): trajectories of one book's price, their window at an
  instant, the movement verdict, and the grouping of snapshots into trajectories.
\<close>

subsection \<open>Model\<close>

type_synonym point = "time \<times> pyfloat"

record steam_policy =
  enabled :: bool
  lookback_seconds :: pyfloat
  min_points :: int
  close_frac :: pyfloat
  min_initial_gap :: pyfloat
  anchor_staleness_seconds :: pyfloat
  steam_away_delta :: pyfloat
  demote_on_soft_steam :: bool

definition default_steam_policy :: steam_policy where
  "default_steam_policy = \<lparr>enabled = False, lookback_seconds = Fin 21600, min_points = 2, close_frac = Fin (1 / 2),
     min_initial_gap = f64 (1 / 100), anchor_staleness_seconds = Fin 7200, steam_away_delta = f64 (4 / 100),
     demote_on_soft_steam = False\<rparr>"

record steam_verdict =
  soft_toward_anchor :: bool
  stale_anchor :: bool
  soft_steamed :: bool
  tripped :: bool
  steam_reasons :: "string list"
  closed_fraction :: "pyfloat option"
  anchor_age_seconds :: "pyfloat option"
  soft_move :: "pyfloat option"

definition implied_prob :: "pyfloat \<Rightarrow> pyfloat res" where
  "implied_prob odds = (if f_le odds (Fin 1) then Raise ValueError else f_div (Fin 1) odds)"

definition in_window :: "time \<Rightarrow> time \<Rightarrow> point \<Rightarrow> bool" where
  "in_window lo now p \<longleftrightarrow> lo \<le> fst p \<and> fst p \<le> now \<and> f_lt (Fin 1) (snd p)"

definition window :: "point list \<Rightarrow> time \<Rightarrow> pyfloat \<Rightarrow> point list res" where
  "window trajectory now lookback =
     rmap (\<lambda>lo. sort_key fst (filter (in_window lo now) trajectory)) (time_minus_seconds now lookback)"

text \<open>The staleness half of the verdict: the age of the anchor and whether it is stale.\<close>

definition anchor_staleness :: "point list \<Rightarrow> time \<Rightarrow> steam_policy \<Rightarrow> pyfloat option \<times> bool" where
  "anchor_staleness anchor now policy =
     (if anchor = [] then (None, True)
      else let age = total_seconds (now - fst (last anchor)) in
        (Some age, f_lt (anchor_staleness_seconds policy) age))"

text \<open>The convergence of fill and anchor: the closed fraction, when defined, and whether it trips.\<close>

definition convergence :: "pyfloat \<Rightarrow> pyfloat \<Rightarrow> point list \<Rightarrow> steam_policy \<Rightarrow> (pyfloat option \<times> bool) res" where
  "convergence p_fill_open p_fill_now anchor policy =
     (if anchor = [] then Ok (None, False)
      else rbind (implied_prob (snd (hd anchor))) (\<lambda>p_anchor_open.
           rbind (implied_prob (snd (last anchor))) (\<lambda>p_anchor_now.
           let gap_open = f_sub p_anchor_open p_fill_open; gap_now = f_sub p_anchor_now p_fill_now in
           if f_le (min_initial_gap policy) gap_open
           then rmap (\<lambda>cf. (Some cf, f_lt gap_now gap_open \<and> f_le (close_frac policy) cf))
                  (f_div (f_sub gap_open gap_now) gap_open)
           else Ok (None, False))))"

definition steam_verdict_of :: "point list \<Rightarrow> point list \<Rightarrow> time \<Rightarrow> steam_policy \<Rightarrow> steam_verdict res" where
  "steam_verdict_of fill anchor now policy =
     (let (age, stale) = anchor_staleness anchor now policy in
      rmap (\<lambda>(move, steamed, cf, toward).
          \<lparr>soft_toward_anchor = toward, stale_anchor = stale, soft_steamed = steamed,
           tripped = (toward \<or> stale \<or> (steamed \<and> demote_on_soft_steam policy)),
           steam_reasons = (if stale then [''stale_anchor''] else []) @ (if steamed then [''soft_steamed_away''] else [])
             @ (if toward then [''soft_toward_anchor''] else []),
           closed_fraction = cf, anchor_age_seconds = age, soft_move = move\<rparr>)
        (if int (length fill) < min_points policy then Ok (None, False, None, False)
         else if fill = [] then Raise IndexError
         else rbind (implied_prob (snd (hd fill))) (\<lambda>p_open.
              rbind (implied_prob (snd (last fill))) (\<lambda>p_now.
              let move = f_sub p_now p_open in
              rmap (\<lambda>(cf, toward). (Some move, f_le (steam_away_delta policy) (f_neg move), cf, toward))
                (convergence p_open p_now anchor policy)))))"

definition evaluate_steam :: "point list \<Rightarrow> point list \<Rightarrow> time \<Rightarrow> steam_policy \<Rightarrow> steam_verdict res" where
  "evaluate_steam fill_trajectory anchor_trajectory now policy =
     rbind (window fill_trajectory now (lookback_seconds policy)) (\<lambda>fill.
     rbind (window anchor_trajectory now (lookback_seconds policy)) (\<lambda>anchor.
       steam_verdict_of fill anchor now policy))"

subsection \<open>Trajectories\<close>

record snapshot =
  event_id :: string
  bookmaker :: string
  market :: string
  selection :: string
  decimal_odds :: pyfloat
  market_detail :: "string option"
  captured_at :: time

type_synonym trajectory_key = "string \<times> string \<times> string option"
type_synonym market_trajectories = "string \<times> string \<rightharpoonup> point list"

definition key_of :: "snapshot \<Rightarrow> trajectory_key" where
  "key_of s = (event_id s, market s, market_detail s)"

definition series_of :: "snapshot \<Rightarrow> string \<times> string" where
  "series_of s = (selection s, norm_book (bookmaker s))"

definition point_of :: "snapshot \<Rightarrow> point" where
  "point_of s = (captured_at s, decimal_odds s)"

definition add_point :: "trajectory_key \<Rightarrow> string \<times> string \<Rightarrow> point \<Rightarrow>
    (trajectory_key \<rightharpoonup> market_trajectories) \<Rightarrow> (trajectory_key \<rightharpoonup> market_trajectories)" where
  "add_point k sb p out =
     (let m = get_default out k Map.empty in out(k \<mapsto> m(sb \<mapsto> get_default m sb [] @ [p])))"

fun group_snapshots :: "time \<Rightarrow> time \<Rightarrow> snapshot list \<Rightarrow> (trajectory_key \<rightharpoonup> market_trajectories) \<Rightarrow> (trajectory_key \<rightharpoonup> market_trajectories)" where
  "group_snapshots lo now [] out = out"
| "group_snapshots lo now (s # ss) out =
     (if \<not> (lo \<le> captured_at s \<and> captured_at s \<le> now) then group_snapshots lo now ss out
      else if f_le (decimal_odds s) (Fin 1) then group_snapshots lo now ss out
      else group_snapshots lo now ss (add_point (key_of s) (series_of s) (point_of s) out))"

definition build_trajectories :: "snapshot list \<Rightarrow> time \<Rightarrow> pyfloat \<Rightarrow> (trajectory_key \<rightharpoonup> market_trajectories) res" where
  "build_trajectories snapshots now lookback =
     rmap (\<lambda>lo k. map_option (\<lambda>m sb. map_option (sort_key fst) (m sb)) (group_snapshots lo now snapshots Map.empty k))
       (time_minus_seconds now lookback)"

definition lookup_trajectory :: "market_trajectories \<Rightarrow> string \<Rightarrow> string \<Rightarrow> point list" where
  "lookup_trajectory m sel book = get_default m (sel, norm_book book) []"

subsection \<open>Windows\<close>

lemma sort_key_cong_mset:
  assumes "mset xs = mset ys" "distinct (map fst xs)"
  shows "sort_key fst xs = (sort_key fst ys :: point list)"
  using assms by (intro sort_key_inj_key_eq) (auto simp: distinct_map)

lemma window_Ok_iff:
  "window traj now lb = Ok w \<longleftrightarrow> (\<exists>lo. time_minus_seconds now lb = Ok lo \<and> w = sort_key fst (filter (in_window lo now) traj))"
  by (auto simp: window_def rmap_Ok_iff)

lemma time_minus_le:
  assumes "timedelta_seconds lb = Ok d" "0 \<le> d" "d \<le> now" "now \<le> max_time"
  shows "time_minus_seconds now lb = Ok (now - d)"
  using assms by (auto simp: time_minus_seconds_Ok)

text \<open>No leakage and no order dependence: observations stamped after the instant, older than the
  lookback or with a degenerate price never influence a verdict, wherever they occur; and as long as no two
  observations of a book in the window have the same stamp, neither does the order they arrive in.\<close>

theorem verdict_depends_on_window:
  assumes "time_minus_seconds now (lookback_seconds policy) = Ok lo"
    and "mset (filter (in_window lo now) fill) = mset (filter (in_window lo now) fill')"
    and "mset (filter (in_window lo now) anchor) = mset (filter (in_window lo now) anchor')"
    and "distinct (map fst (filter (in_window lo now) fill))" "distinct (map fst (filter (in_window lo now) anchor))"
  shows "evaluate_steam fill anchor now policy = evaluate_steam fill' anchor' now policy"
  using sort_key_cong_mset [OF assms(2,4)] sort_key_cong_mset [OF assms(3,5)] assms(1)
  by (simp add: evaluate_steam_def window_def)

lemma verdict_depends_on_window_witness:
  "evaluate_steam [(10 ^ 11, Fin 2), (10 ^ 10 + 1, Fin 3)] [(10 ^ 11, Fin 2)] (10 ^ 11) default_steam_policy
   = evaluate_steam [(10 ^ 10 + 1, Fin 3), (10 ^ 11, Fin 2)] [(10 ^ 12, Fin 7), (10 ^ 11, Fin 2)] (10 ^ 11) default_steam_policy"
proof (rule verdict_depends_on_window)
  show "time_minus_seconds (10 ^ 11) (lookback_seconds default_steam_policy) = Ok (10 ^ 11 - 21600 * 10 ^ 6)"
    using timedelta_whole_seconds [of 21600] by (intro time_minus_le) (simp_all add: default_steam_policy_def max_time_def)
qed (simp_all add: in_window_def)

subsection \<open>Verdicts\<close>

lemma implied_prob_gt_1:
  assumes "f_lt (Fin 1) q" shows "\<exists>p. implied_prob q = Ok (Fin p) \<and> 0 \<le> p \<and> p \<le> 1"
proof (cases q)
  case (Fin d)
  then have "1 < d" using assms by simp
  then show ?thesis using f64_Fin_between [OF is_f64_0 is_f64_1, of "1 / d"] Fin by (simp add: implied_prob_def)
qed (use assms in \<open>auto simp: implied_prob_def\<close>)

lemma window_prices: "window traj now lb = Ok w \<Longrightarrow> p \<in> set w \<Longrightarrow> f_lt (Fin 1) (snd p) \<and> fst p \<le> now"
  by (auto simp: window_Ok_iff in_window_def)

lemma window_last:
  assumes "window traj now lb = Ok w" "w \<noteq> []"
  shows "\<forall>p \<in> set w. fst p \<le> fst (last w)"
proof -
  have s: "sorted (map fst w)" using assms(1) by (auto simp: window_Ok_iff)
  have "w = butlast w @ [last w]" using assms(2) by simp
  then have "sorted (map fst (butlast w) @ [fst (last w)])" using s by (metis map_append list.simps(8,9))
  then have "\<forall>x \<in> set (map fst (butlast w)). x \<le> fst (last w)" by (simp add: sorted_append)
  moreover have "set w = insert (last w) (set (butlast w))"
    using arg_cong [OF \<open>w = butlast w @ [last w]\<close>, of set] by simp
  ultimately show ?thesis by auto
qed

definition sane_steam_policy :: "steam_policy \<Rightarrow> bool" where
  "sane_steam_policy p \<longleftrightarrow> 0 < min_points p \<and> f_lt (Fin 0) (min_initial_gap p)"

lemma convergence_total:
  assumes "sane_steam_policy policy" "\<forall>p \<in> set anchor. f_lt (Fin 1) (snd p)" "0 \<le> a" "a \<le> 1" "0 \<le> b" "b \<le> 1"
  shows "\<exists>cf toward. convergence (Fin a) (Fin b) anchor policy = Ok (cf, toward)
    \<and> (toward \<longrightarrow> (\<exists>x. cf = Some x \<and> f_le (close_frac policy) x))"
proof (cases "anchor = []")
  case True
  then show ?thesis by (auto simp: convergence_def)
next
  case False
  then have "hd anchor \<in> set anchor" "last anchor \<in> set anchor" by simp_all
  then obtain c e where ce: "implied_prob (snd (hd anchor)) = Ok (Fin c)" "0 \<le> c" "c \<le> 1"
      "implied_prob (snd (last anchor)) = Ok (Fin e)" "0 \<le> e" "e \<le> 1"
    using assms(2) implied_prob_gt_1 by meson
  define g where "g = rnd (c - a)"
  have n1: "is_f64 (- 1)" using is_f64_uminus [OF is_f64_1] by simp
  have g: "f64 (c - a) = Fin g" using f64_Fin_between [OF n1 is_f64_1, of "c - a"] ce assms(3-6) by (simp add: g_def)
  show ?thesis
  proof (cases "f_le (min_initial_gap policy) (Fin g)")
    case True
    then have "0 < g" using assms(1) by (cases "min_initial_gap policy") (auto simp: sane_steam_policy_def)
    then show ?thesis using False ce g True
      by (cases "f_sub (Fin g) (f64 (e - b))") (auto simp: convergence_def Let_def)
  next
    case False
    then show ?thesis using ce g \<open>anchor \<noteq> []\<close> by (auto simp: convergence_def Let_def)
  qed
qed

text \<open>Under a policy that asks for at least one observation and a positive opening gap, a verdict is
  always reached.  The anchor is stale exactly when the window holds no observation of it or its latest is
  too old; the gate trips exactly on a stale anchor, a convergence past the policy's fraction, or, when the
  policy says so, a steamed price; with too few fill observations only staleness is judged.\<close>

theorem steam_verdict_total:
  assumes sane: "sane_steam_policy policy"
    and fill: "window fill_trajectory now (lookback_seconds policy) = Ok fill"
    and anchor: "window anchor_trajectory now (lookback_seconds policy) = Ok anchor"
  shows "\<exists>v. evaluate_steam fill_trajectory anchor_trajectory now policy = Ok v
    \<and> (tripped v \<longleftrightarrow> soft_toward_anchor v \<or> stale_anchor v \<or> soft_steamed v \<and> demote_on_soft_steam policy)
    \<and> (stale_anchor v \<longleftrightarrow> anchor = [] \<or>
         (\<exists>p \<in> set anchor. (\<forall>q \<in> set anchor. fst q \<le> fst p) \<and> f_lt (anchor_staleness_seconds policy) (total_seconds (now - fst p))))
    \<and> (soft_toward_anchor v \<longrightarrow> (\<exists>x. closed_fraction v = Some x \<and> f_le (close_frac policy) x))
    \<and> (soft_steamed v \<longrightarrow> (\<exists>m. soft_move v = Some m \<and> f_le (steam_away_delta policy) (f_neg m)))
    \<and> (int (length fill) < min_points policy \<longrightarrow> \<not> soft_toward_anchor v \<and> \<not> soft_steamed v \<and> soft_move v = None)
    \<and> (steam_reasons v = [] \<longleftrightarrow> \<not> soft_toward_anchor v \<and> \<not> stale_anchor v \<and> \<not> soft_steamed v)"
proof -
  define age stale where "age = fst (anchor_staleness anchor now policy)" and "stale = snd (anchor_staleness anchor now policy)"
  have st: "stale \<longleftrightarrow> anchor = [] \<or>
      (\<exists>p \<in> set anchor. (\<forall>q \<in> set anchor. fst q \<le> fst p) \<and> f_lt (anchor_staleness_seconds policy) (total_seconds (now - fst p)))"
  proof (cases "anchor = []")
    case False
    have l: "last anchor \<in> set anchor" "\<forall>q \<in> set anchor. fst q \<le> fst (last anchor)" using window_last [OF anchor False] False by auto
    have "fst p = fst (last anchor)" if "p \<in> set anchor" "\<forall>q \<in> set anchor. fst q \<le> fst p" for p
      using that l by (meson order_antisym)
    then show ?thesis using False l by (auto simp: stale_def anchor_staleness_def Let_def)
  qed (simp add: stale_def anchor_staleness_def)
  have eq: "evaluate_steam fill_trajectory anchor_trajectory now policy = steam_verdict_of fill anchor now policy"
    by (simp add: evaluate_steam_def fill anchor)
  have sp: "anchor_staleness anchor now policy = (age, stale)" by (simp add: age_def stale_def)
  show ?thesis
  proof (cases "int (length fill) < min_points policy")
    case True
    then show ?thesis unfolding eq steam_verdict_of_def sp by (simp add: st [symmetric])
  next
    case False
    then have ne: "fill \<noteq> []" using sane by (auto simp: sane_steam_policy_def)
    then have "hd fill \<in> set fill" "last fill \<in> set fill" by simp_all
    then obtain a b where ab: "implied_prob (snd (hd fill)) = Ok (Fin a)" "0 \<le> a" "a \<le> 1"
        "implied_prob (snd (last fill)) = Ok (Fin b)" "0 \<le> b" "b \<le> 1"
      using window_prices [OF fill] implied_prob_gt_1 by meson
    obtain cf toward where cv: "convergence (Fin a) (Fin b) anchor policy = Ok (cf, toward)"
        "toward \<longrightarrow> (\<exists>x. cf = Some x \<and> f_le (close_frac policy) x)"
      using convergence_total [OF sane, of anchor a b] window_prices [OF anchor] ab by blast
    show ?thesis using False ne ab cv unfolding eq steam_verdict_of_def sp
      by (simp add: st [symmetric] Let_def)
  qed
qed

lemma steam_verdict_total_witness:
  "\<exists>v. evaluate_steam [] [(10 ^ 11, Fin 2)] (10 ^ 11) default_steam_policy = Ok v \<and> soft_move v = None
    \<and> (tripped v \<longleftrightarrow> soft_toward_anchor v \<or> stale_anchor v \<or> soft_steamed v \<and> demote_on_soft_steam default_steam_policy)"
proof -
  have sane: "sane_steam_policy default_steam_policy" by code_simp
  have w: "window t (10 ^ 11) (lookback_seconds default_steam_policy)
      = Ok (sort_key fst (filter (in_window (10 ^ 11 - 21600 * 10 ^ 6) (10 ^ 11)) t))" for t
  proof -
    have "time_minus_seconds (10 ^ 11) (lookback_seconds default_steam_policy) = Ok (10 ^ 11 - 21600 * 10 ^ 6)"
      using timedelta_whole_seconds [of 21600] by (intro time_minus_le) (simp_all add: default_steam_policy_def max_time_def)
    then show ?thesis by (simp add: window_def)
  qed
  have "int (length (sort_key fst (filter (in_window (10 ^ 11 - 21600 * 10 ^ 6) (10 ^ 11)) []) :: point list)) < min_points default_steam_policy"
    by (simp add: default_steam_policy_def)
  with steam_verdict_total [OF sane w w, of "[]" "[(10 ^ 11, Fin 2)]"] show ?thesis by blast
qed

subsection \<open>Grouping\<close>

definition kept :: "time \<Rightarrow> time \<Rightarrow> snapshot \<Rightarrow> bool" where
  "kept lo now s \<longleftrightarrow> lo \<le> captured_at s \<and> captured_at s \<le> now \<and> \<not> f_le (decimal_odds s) (Fin 1)"

definition series_in :: "(trajectory_key \<rightharpoonup> market_trajectories) \<Rightarrow> trajectory_key \<Rightarrow> string \<times> string \<Rightarrow> point list" where
  "series_in out k sb = get_default (get_default out k Map.empty) sb []"

lemma series_in_add:
  "series_in (add_point k sb p out) k' sb' = series_in out k' sb' @ (if k' = k \<and> sb' = sb then [p] else [])"
  by (auto simp: series_in_def add_point_def Let_def)

lemma series_in_group:
  "series_in (group_snapshots lo now ss out) k sb =
     series_in out k sb @ map point_of (filter (\<lambda>s. kept lo now s \<and> key_of s = k \<and> series_of s = sb) ss)"
  by (induction lo now ss out rule: group_snapshots.induct) (auto simp: kept_def series_in_add)

text \<open>Grouping loses and invents nothing: the series looked up for a market, a selection and a book name
  (in any casing or padding) is exactly the snapshots of that market and selection whose book name
  normalizes the same, that are in the window and have a price above one, oldest first and in arrival order
  among equal stamps; a missing market or book gives the empty series.\<close>

theorem trajectories_exact:
  assumes "build_trajectories ss now lb = Ok out" "time_minus_seconds now lb = Ok lo"
  shows "lookup_trajectory (get_default out k Map.empty) sel book =
    sort_key fst (map point_of (filter (\<lambda>s. kept lo now s \<and> key_of s = k \<and> series_of s = (sel, norm_book book)) ss))"
proof -
  let ?g = "group_snapshots lo now ss Map.empty"
  have "out = (\<lambda>k. map_option (\<lambda>m sb. map_option (sort_key fst) (m sb)) (?g k))"
    using assms by (simp add: build_trajectories_def)
  then have "lookup_trajectory (get_default out k Map.empty) sel book = sort_key fst (series_in ?g k (sel, norm_book book))"
    by (simp add: lookup_trajectory_def series_in_def get_default_def split: option.split)
  also have "series_in ?g k (sel, norm_book book) =
      map point_of (filter (\<lambda>s. kept lo now s \<and> key_of s = k \<and> series_of s = (sel, norm_book book)) ss)"
    unfolding series_in_group by (simp add: series_in_def)
  finally show ?thesis .
qed

lemma trajectories_exact_witness:
  "\<exists>out. build_trajectories [\<lparr>event_id = ''e'', bookmaker = ''Pinnacle '', market = ''h2h'', selection = ''Home'',
       decimal_odds = Fin 2, market_detail = None, captured_at = 10 ^ 11\<rparr>] (10 ^ 11) (Fin 21600) = Ok out
    \<and> lookup_trajectory (get_default out (''e'', ''h2h'', None) Map.empty) ''Home'' ''pinnacle'' = [(10 ^ 11, Fin 2)]"
proof -
  let ?ss = "[\<lparr>event_id = ''e'', bookmaker = ''Pinnacle '', market = ''h2h'', selection = ''Home'',
       decimal_odds = Fin 2, market_detail = None, captured_at = 10 ^ 11\<rparr>]"
  have t: "time_minus_seconds (10 ^ 11) (Fin 21600) = Ok (10 ^ 11 - 21600 * 10 ^ 6)"
    using timedelta_whole_seconds [of 21600] by (intro time_minus_le) (simp_all add: max_time_def)
  then obtain out where o: "build_trajectories ?ss (10 ^ 11) (Fin 21600) = Ok out" by (simp add: build_trajectories_def)
  have n: "norm_book ''Pinnacle '' = norm_book ''pinnacle''" by code_simp
  show ?thesis using o trajectories_exact [OF o t, of "(''e'', ''h2h'', None)" "''Home''" "''pinnacle''"]
    by (auto simp: kept_def key_of_def series_of_def point_of_def n)
qed

end
