(* ===== verification/Aliases.thy ===== *)
theory Aliases
  imports Names
begin

text \<open>
  The alias table of \<^verbatim>\<open>app/resolution/matching.py\<close>: normalized aliases to normalized canonical names,
  with the quarantine of an alias that two canonicals claim.  The specification of a table is the set
  of claims made on each alias, which does not know about order; the code is shown to refine it.  The
  seed file is data of the repository and enters as an argument.
\<close>

subsection \<open>Model\<close>

record alias_table =
  alias_to_canon :: "string \<rightharpoonup> string"
  canon_to_aliases :: "string \<rightharpoonup> string set"
  conflicted :: "string \<rightharpoonup> string set"

definition empty_table :: alias_table where
  "empty_table = \<lparr>alias_to_canon = Map.empty, canon_to_aliases = Map.empty, conflicted = Map.empty\<rparr>"

definition add :: "string \<Rightarrow> string \<Rightarrow> alias_table \<Rightarrow> alias_table" where
  "add al canonical t =
     (let a = normalize_name al; c = normalize_name canonical in
      if a = [] \<or> c = [] then t
      else case conflicted t a of
        Some cs \<Rightarrow> t\<lparr>conflicted := (conflicted t)(a \<mapsto> insert c cs)\<rparr>
      | None \<Rightarrow> (case alias_to_canon t a of
          Some e \<Rightarrow>
            if e \<noteq> c
            then t\<lparr>alias_to_canon := (alias_to_canon t)(a := None),
                   canon_to_aliases := (case canon_to_aliases t e of
                      None \<Rightarrow> canon_to_aliases t | Some as \<Rightarrow> (canon_to_aliases t)(e \<mapsto> as - {a})),
                   conflicted := (conflicted t)(a \<mapsto> {e, c})\<rparr>
            else t\<lparr>alias_to_canon := (alias_to_canon t)(a \<mapsto> c),
                   canon_to_aliases := (canon_to_aliases t)(c \<mapsto> insert a (get_default (canon_to_aliases t) c {}))\<rparr>
        | None \<Rightarrow>
            t\<lparr>alias_to_canon := (alias_to_canon t)(a \<mapsto> c),
              canon_to_aliases := (canon_to_aliases t)(c \<mapsto> insert a (get_default (canon_to_aliases t) c {}))\<rparr>))"

definition build_table :: "(string \<times> string) list \<Rightarrow> alias_table" where
  "build_table claims = fold (\<lambda>(al, c). add al c) claims empty_table"

definition canonical :: "alias_table \<Rightarrow> string \<Rightarrow> string" where
  "canonical t name = (let n = normalize_name name in get_default (alias_to_canon t) n n)"

definition aliases_of :: "alias_table \<Rightarrow> string \<Rightarrow> string set" where
  "aliases_of t name = (let c = canonical t name in insert c (get_default (canon_to_aliases t) c {}))"

definition conflicts :: "alias_table \<Rightarrow> string \<rightharpoonup> string set" where
  "conflicts t = conflicted t"

definition seed_claims :: "(string \<times> string list) list \<Rightarrow> (string \<times> string) list" where
  "seed_claims teams = concat (map (\<lambda>(c, als). map (\<lambda>a. (a, c)) (c # als)) teams)"

definition from_seed :: "(string \<times> string list) list \<Rightarrow> alias_table" where
  "from_seed teams = build_table (seed_claims teams)"

subsection \<open>Specification and refinement\<close>

definition claims_on :: "(string \<times> string) list \<Rightarrow> string \<Rightarrow> string set" where
  "claims_on cl a = {normalize_name c | x c. (x, c) \<in> set cl \<and> normalize_name x = a \<and> a \<noteq> [] \<and> normalize_name c \<noteq> []}"

definition resolves :: "(string \<times> string) list \<Rightarrow> string \<Rightarrow> string \<Rightarrow> bool" where
  "resolves cl a c \<longleftrightarrow> claims_on cl a = {c}"

definition disputed :: "(string \<times> string) list \<Rightarrow> string \<Rightarrow> bool" where
  "disputed cl a \<longleftrightarrow> (\<exists>c \<in> claims_on cl a. \<exists>d \<in> claims_on cl a. c \<noteq> d)"

definition refines :: "(string \<times> string) list \<Rightarrow> alias_table \<Rightarrow> bool" where
  "refines cl t \<longleftrightarrow>
     (\<forall>a c. alias_to_canon t a = Some c \<longleftrightarrow> resolves cl a c)
     \<and> (\<forall>c. get_default (canon_to_aliases t) c {} = {a. resolves cl a c})
     \<and> (\<forall>a. conflicted t a = (if disputed cl a then Some (claims_on cl a) else None))"

lemma claims_on_snoc:
  "claims_on (cl @ [(x, c)]) a = claims_on cl a \<union>
     (if normalize_name x = a \<and> a \<noteq> [] \<and> normalize_name c \<noteq> [] then {normalize_name c} else {})"
  by (auto simp: claims_on_def)

lemma claims_cases:
  obtains "claims_on cl a = {}" "\<not> disputed cl a" "\<And>c. \<not> resolves cl a c"
  | c where "claims_on cl a = {c}" "\<not> disputed cl a" "\<And>d. resolves cl a d \<longleftrightarrow> d = c"
  | "disputed cl a" "\<And>c. \<not> resolves cl a c"
proof -
  consider "claims_on cl a = {}" | c where "claims_on cl a = {c}"
    | c d where "c \<in> claims_on cl a" "d \<in> claims_on cl a" "c \<noteq> d"
  proof (cases "\<exists>c d. c \<in> claims_on cl a \<and> d \<in> claims_on cl a \<and> c \<noteq> d")
    case False
    show ?thesis
    proof (cases "claims_on cl a = {}")
      case nonempty: False
      then obtain c where "c \<in> claims_on cl a" by auto
      then have "claims_on cl a = {c}" using False by auto
      then show ?thesis using that(2) by blast
    qed (use that(1) in blast)
  qed (use that(3) in blast)
  then show thesis
  proof cases
    case 1
    show thesis by (rule that(1)) (simp_all add: resolves_def disputed_def 1)
  next
    case (2 c)
    show thesis by (rule that(2) [of c]) (simp_all add: resolves_def disputed_def 2 eq_commute)
  next
    case (3 c d)
    have "\<not> resolves cl a e" for e
    proof
      assume "resolves cl a e"
      then have "c = e" "d = e" using 3 by (simp_all add: resolves_def)
      then show False using 3(3) by simp
    qed
    moreover have "disputed cl a" unfolding disputed_def using 3 by blast
    ultimately show thesis by (rule that(3) [rotated])
  qed
qed

lemma refines_unchanged:
  assumes "refines cl t" "\<And>b. claims_on cl' b = claims_on cl b" shows "refines cl' t"
  using assms by (simp add: refines_def resolves_def disputed_def)

lemma refines_add:
  assumes t: "refines cl t" shows "refines (cl @ [(x, d)]) (add x d t)"
proof -
  define a c where "a = normalize_name x" and "c = normalize_name d"
  show ?thesis
  proof (cases "a = [] \<or> c = []")
    case True
    then have "add x d t = t" by (simp add: add_def a_def c_def Let_def)
    moreover have "claims_on (cl @ [(x, d)]) b = claims_on cl b" for b
      using True by (auto simp: claims_on_snoc a_def c_def)
    ultimately show ?thesis using refines_unchanged [OF t] by simp
  next
    case False
    have new: "claims_on (cl @ [(x, d)]) b = (if b = a then insert c (claims_on cl a) else claims_on cl b)" for b
      using False by (auto simp: claims_on_snoc a_def c_def)
    have res: "resolves (cl @ [(x, d)]) b e \<longleftrightarrow> (if b = a then insert c (claims_on cl a) = {e} else resolves cl b e)" for b e
      by (simp add: resolves_def new)
    have dis: "disputed (cl @ [(x, d)]) b \<longleftrightarrow> (if b = a then (\<exists>e \<in> claims_on cl a. e \<noteq> c) else disputed cl b)" for b
      by (auto simp: disputed_def new)
    have t': "\<And>b e. alias_to_canon t b = Some e \<longleftrightarrow> resolves cl b e"
      "\<And>e. get_default (canon_to_aliases t) e {} = {b. resolves cl b e}"
      "\<And>b. conflicted t b = (if disputed cl b then Some (claims_on cl b) else None)"
      using t by (auto simp: refines_def)
    note unf = add_def Let_def a_def [symmetric] c_def [symmetric]
    have I: "refines (cl @ [(x, d)]) u"
      if "\<And>b e. alias_to_canon u b = Some e \<longleftrightarrow> (if b = a then insert c (claims_on cl a) = {e} else resolves cl b e)"
        "\<And>e. get_default (canon_to_aliases u) e {} = {b. if b = a then insert c (claims_on cl a) = {e} else resolves cl b e}"
        "\<And>b. conflicted u b = (if b = a then if \<exists>e \<in> claims_on cl a. e \<noteq> c then Some (insert c (claims_on cl a)) else None
           else conflicted t b)" for u
      using that t'(3) unfolding refines_def res dis new by (auto split: if_splits)
    show ?thesis
    proof (cases rule: claims_cases [of cl a])
      case 1
      have at: "conflicted t a = None" "alias_to_canon t a = None"
        using t'(3) [of a] t'(1) [of a] 1 by (auto simp: not_Some_eq [symmetric] simp del: not_Some_eq)
      have e: "add x d t = t\<lparr>alias_to_canon := (alias_to_canon t)(a \<mapsto> c),
          canon_to_aliases := (canon_to_aliases t)(c \<mapsto> insert a (get_default (canon_to_aliases t) c {}))\<rparr>"
        using at False by (simp add: unf)
      show ?thesis unfolding e
        by (rule I) (use 1 at t'(1,2) in \<open>auto split: if_splits\<close>)
    next
      case (2 e)
      then have at: "conflicted t a = None" "alias_to_canon t a = Some e" using t'(3) [of a] t'(1) [of a] by auto
      show ?thesis
      proof (cases "e = c")
        case True
        have e: "add x d t = t\<lparr>alias_to_canon := (alias_to_canon t)(a \<mapsto> c),
            canon_to_aliases := (canon_to_aliases t)(c \<mapsto> insert a (get_default (canon_to_aliases t) c {}))\<rparr>"
          using at False True by (simp add: unf)
        show ?thesis unfolding e
          by (rule I) (use 2 True at t'(1,2) in \<open>auto split: if_splits\<close>)
      next
        case ne: False
        have "a \<in> get_default (canon_to_aliases t) e {}" using t'(2) [of e] 2(3) by auto
        then obtain s where s: "canon_to_aliases t e = Some s" by (auto simp: get_default_def split: option.splits)
        then have s2: "s = {b. resolves cl b e}" using t'(2) [of e] by (simp add: get_default_def)
        have e: "add x d t = t\<lparr>alias_to_canon := (alias_to_canon t)(a := None),
            canon_to_aliases := (canon_to_aliases t)(e \<mapsto> s - {a}), conflicted := (conflicted t)(a \<mapsto> {e, c})\<rparr>"
          using at s False ne by (simp add: unf)
        show ?thesis unfolding e
          by (rule I) (use 2 ne s2 at t'(1,2) in \<open>auto split: if_splits\<close>)
      qed
    next
      case 3
      obtain p q where pq: "p \<in> claims_on cl a" "q \<in> claims_on cl a" "p \<noteq> q" using 3(1) by (auto simp: disputed_def)
      then have ex: "\<exists>e \<in> claims_on cl a. e \<noteq> c" by (cases "p = c") auto
      have ne: "insert c (claims_on cl a) \<noteq> {e}" for e
        using pq by blast
      have at: "conflicted t a = Some (claims_on cl a)" using 3 t'(3) [of a] by simp
      have na: "alias_to_canon t a \<noteq> Some e" for e using t'(1) [of a e] 3(2) by blast
      have e: "add x d t = t\<lparr>conflicted := (conflicted t)(a \<mapsto> insert c (claims_on cl a))\<rparr>"
        using at False by (simp add: unf)
      show ?thesis unfolding e
        by (rule I) (use 3(2) ex ne na t'(1,2) in \<open>auto split: if_splits\<close>)
    qed
  qed
qed

lemma refines_build: "refines cl (build_table cl)"
proof (induction cl rule: rev_induct)
  case Nil
  show ?case by (simp add: build_table_def refines_def empty_table_def resolves_def disputed_def claims_on_def)
next
  case (snoc xd cl)
  then show ?case using refines_add by (cases xd) (simp add: build_table_def)
qed

subsection \<open>Consequences\<close>

lemma canonical_spec:
  "canonical (build_table cl) n = (if \<exists>c. resolves cl (normalize_name n) c then the_elem (claims_on cl (normalize_name n)) else normalize_name n)"
proof (cases "\<exists>c. resolves cl (normalize_name n) c")
  case True
  then obtain c where c: "resolves cl (normalize_name n) c" by blast
  then have "alias_to_canon (build_table cl) (normalize_name n) = Some c" using refines_build by (simp add: refines_def)
  then show ?thesis using c by (auto simp: canonical_def get_default_def resolves_def Let_def)
next
  case False
  then have "alias_to_canon (build_table cl) (normalize_name n) = None"
    using refines_build [of cl] by (simp add: refines_def) (metis not_Some_eq)
  then show ?thesis using False by (simp add: canonical_def get_default_def Let_def)
qed

lemma canonical_resolved: "resolves cl (normalize_name n) c \<Longrightarrow> canonical (build_table cl) n = c"
  unfolding canonical_spec by (auto simp: resolves_def)

lemma canonical_unresolved: "(\<And>c. \<not> resolves cl (normalize_name n) c) \<Longrightarrow> canonical (build_table cl) n = normalize_name n"
  unfolding canonical_spec by auto

lemma aliases_spec: "aliases_of (build_table cl) n =
    insert (canonical (build_table cl) n) {a. resolves cl a (canonical (build_table cl) n)}"
  using refines_build [of cl] by (simp add: aliases_of_def refines_def Let_def)

lemma resolves_normal: "resolves cl a c \<Longrightarrow> normalize_name a = a \<and> a \<noteq> [] \<and> normalize_name c = c \<and> c \<noteq> []"
proof -
  assume "resolves cl a c"
  then have "c \<in> claims_on cl a" by (simp add: resolves_def)
  then show ?thesis by (auto simp: claims_on_def)
qed

text \<open>What a table resolves depends only on which claims were made, not on their order or repetition:
  a name resolves to a canonical exactly when that is the only canonical ever claimed for it, and otherwise
  to its own normalized form; the quarantined names are exactly those with two claimants, listed with all
  of them.\<close>

theorem alias_table_order_independent:
  assumes "set cl = set cl'"
  shows "canonical (build_table cl) n = canonical (build_table cl') n
    \<and> aliases_of (build_table cl) n = aliases_of (build_table cl') n
    \<and> conflicts (build_table cl) = conflicts (build_table cl')
    \<and> canonical (build_table cl) n =
        (if \<exists>c. claims_on cl (normalize_name n) = {c} then the_elem (claims_on cl (normalize_name n)) else normalize_name n)
    \<and> conflicts (build_table cl) a =
        (if \<exists>c d. {c, d} \<subseteq> claims_on cl a \<and> c \<noteq> d then Some (claims_on cl a) else None)"
proof -
  have c: "claims_on cl = claims_on cl'" by (rule ext) (simp add: claims_on_def assms)
  have r: "resolves cl = resolves cl'" "disputed cl = disputed cl'" by (simp_all add: resolves_def disputed_def c fun_eq_iff)
  have k: "conflicts (build_table l) a = (if disputed l a then Some (claims_on l a) else None)" for l a
    using refines_build [of l] by (simp add: refines_def conflicts_def)
  have can: "canonical (build_table cl) = canonical (build_table cl')" by (simp add: fun_eq_iff canonical_spec c r)
  have al: "aliases_of (build_table cl) n = aliases_of (build_table cl') n" by (simp add: aliases_spec can r)
  have cf: "conflicts (build_table cl) = conflicts (build_table cl')" by (rule ext) (simp add: k r c)
  have k2: "conflicts (build_table cl) a = (if \<exists>c d. {c, d} \<subseteq> claims_on cl a \<and> c \<noteq> d then Some (claims_on cl a) else None)"
    unfolding k disputed_def by auto
  have "canonical (build_table cl) n =
        (if \<exists>c. claims_on cl (normalize_name n) = {c} then the_elem (claims_on cl (normalize_name n)) else normalize_name n)"
    by (simp add: canonical_spec resolves_def)
  then show ?thesis using can al cf k2 by simp
qed

lemma alias_table_order_independent_witness:
  "canonical (build_table [(''Spurs'', ''Tottenham''), (''Man Utd'', ''Manchester United'')]) ''SPURS FC''
   = canonical (build_table [(''Man Utd'', ''Manchester United''), (''Spurs'', ''Tottenham'')]) ''SPURS FC''"
  using alias_table_order_independent [of "[(''Spurs'', ''Tottenham''), (''Man Utd'', ''Manchester United'')]"
    "[(''Man Utd'', ''Manchester United''), (''Spurs'', ''Tottenham'')]"] by auto

lemma seed_self_claim: "(x, c) \<in> set (seed_claims teams) \<Longrightarrow> (c, c) \<in> set (seed_claims teams)"
  by (auto simp: seed_claims_def)

text \<open>In a table loaded from a seed every canonical name claims itself, so resolution takes one step: the
  canonical form of a canonical form is itself, it is normalized, it is among its own aliases, and every
  listed alias resolves to it.\<close>

theorem seed_table_idempotent:
  "canonical (from_seed teams) (canonical (from_seed teams) n) = canonical (from_seed teams) n
    \<and> normalize_name (canonical (from_seed teams) n) = canonical (from_seed teams) n
    \<and> canonical (from_seed teams) n \<in> aliases_of (from_seed teams) n
    \<and> (\<forall>a \<in> aliases_of (from_seed teams) n. canonical (from_seed teams) a = canonical (from_seed teams) n)"
proof -
  let ?cl = "seed_claims teams"
  have t: "from_seed teams = build_table ?cl" by (simp add: from_seed_def)
  have fixed: "canonical (from_seed teams) c = c" if "resolves ?cl a c" for a c
  proof -
    have c: "normalize_name c = c" "c \<noteq> []" using resolves_normal [OF that] by auto
    have "c \<in> claims_on ?cl a" using that by (simp add: resolves_def)
    then obtain x d where xd: "(x, d) \<in> set ?cl" "normalize_name d = c" by (auto simp: claims_on_def)
    have "c \<in> claims_on ?cl c" using seed_self_claim [OF xd(1)] xd(2) c by (auto simp: claims_on_def)
    then have "resolves ?cl c e \<Longrightarrow> e = c" for e by (simp add: resolves_def)
    then show ?thesis unfolding t using canonical_resolved [of ?cl c c] canonical_unresolved [of ?cl c] c by metis
  qed
  have idem: "canonical (from_seed teams) (canonical (from_seed teams) n) = canonical (from_seed teams) n \<and> normalize_name (canonical (from_seed teams) n) = canonical (from_seed teams) n"
  proof (cases "\<exists>c. resolves ?cl (normalize_name n) c")
    case True
    then obtain c where c: "resolves ?cl (normalize_name n) c" by blast
    then show ?thesis using fixed [OF c] canonical_resolved [OF c] resolves_normal [OF c] t by simp
  next
    case False
    then have "canonical (from_seed teams) m = normalize_name n" if "normalize_name m = normalize_name n" for m
      unfolding t using that canonical_unresolved [of ?cl m] by simp
    then show ?thesis by simp
  qed
  have "canonical (from_seed teams) a = c" if "resolves ?cl a c" for a c
    unfolding t using canonical_resolved [of ?cl a c] that resolves_normal [OF that] by simp
  then show ?thesis using idem unfolding t aliases_spec by auto
qed

lemma seed_table_idempotent_witness:
  "canonical (from_seed [(''Spurs'', [''Tottenham''])]) (canonical (from_seed [(''Spurs'', [''Tottenham''])]) ''tottenham'')
     = canonical (from_seed [(''Spurs'', [''Tottenham''])]) ''tottenham''"
  using seed_table_idempotent [of "[(''Spurs'', [''Tottenham''])]" "''tottenham''"] by blast

subsection \<open>The interface the matchers use\<close>

text \<open>
  A canonicalizer sees a name only through its normal form and answers in normal form.  Every table is
  one; the matchers are verified against these two laws.
\<close>

locale canonicalizer =
  fixes canon :: "string \<Rightarrow> string"
  assumes canon_depends: "canon (normalize_name n) = canon n"
    and canon_normal: "normalize_name (canon n) = canon n"
begin

lemma canon_cong: "normalize_name a = normalize_name b \<Longrightarrow> canon a = canon b"
  using canon_depends by metis

end

interpretation table: canonicalizer "canonical (build_table cl)" for cl
proof
  show "canonical (build_table cl) (normalize_name n) = canonical (build_table cl) n" for n by (simp add: canonical_def)
  show "normalize_name (canonical (build_table cl) n) = canonical (build_table cl) n" for n
    using canonical_resolved [of cl n] canonical_unresolved [of cl n] resolves_normal [of cl "normalize_name n"]
    by (metis normalize_idem)
qed

end
