(* ===== verification/Similarity.thy ===== *)
theory Similarity
  imports Names FloatFacts Staking "HOL-Library.Multiset" "HOL-Library.List_Lexorder" "HOL-Library.Char_ord"
begin

text \<open>
  The string similarities of \<^verbatim>\<open>app/resolution/matching.py\<close>: Jaro and Jaro-Winkler as the code computes
  them, and the ratio of the standard library's \<^verbatim>\<open>difflib.SequenceMatcher\<close> (longest matching blocks,
  with its rule that drops popular elements from long sequences).
\<close>

subsection \<open>Jaro\<close>

definition match_window :: "string \<Rightarrow> string \<Rightarrow> nat" where
  "match_window s1 s2 = max (length s1) (length s2) div 2 - 1"

type_synonym jaro_state = "bool list \<times> bool list \<times> nat"

definition jaro_step :: "string \<Rightarrow> string \<Rightarrow> nat \<Rightarrow> jaro_state \<Rightarrow> jaro_state" where
  "jaro_step s1 s2 i st = (case st of (m1, m2, k) \<Rightarrow>
     let d = match_window s1 s2 in
     case find (\<lambda>j. \<not> m2 ! j \<and> s1 ! i = s2 ! j) [i - d ..< min (i + d + 1) (length s2)] of
       None \<Rightarrow> (m1, m2, k)
     | Some j \<Rightarrow> (m1[i := True], m2[j := True], Suc k))"

definition jaro_matches :: "string \<Rightarrow> string \<Rightarrow> jaro_state" where
  "jaro_matches s1 s2 = fold (jaro_step s1 s2) [0 ..< length s1]
     (replicate (length s1) False, replicate (length s2) False, 0)"

text \<open>The pointer loop \<^verbatim>\<open>while not s2_matches[k]\<close>.\<close>

function next_match :: "bool list \<Rightarrow> nat \<Rightarrow> nat res" where
  "next_match ms k = (if k < length ms then (if ms ! k then Ok k else next_match ms (Suc k)) else Raise IndexError)"
  by pat_completeness auto
termination by (relation "measure (\<lambda>(ms, k). length ms - k)") auto

declare next_match.simps [simp del]

fun transposition_loop :: "string \<Rightarrow> string \<Rightarrow> bool list \<Rightarrow> bool list \<Rightarrow> nat list \<Rightarrow> nat \<Rightarrow> nat \<Rightarrow> nat res" where
  "transposition_loop s1 s2 m1 m2 [] k t = Ok t"
| "transposition_loop s1 s2 m1 m2 (i # is) k t =
     (if \<not> m1 ! i then transposition_loop s1 s2 m1 m2 is k t
      else rbind (next_match m2 k) (\<lambda>k'.
        transposition_loop s1 s2 m1 m2 is (Suc k') (if s1 ! i \<noteq> s2 ! k' then Suc t else t)))"

definition jaro :: "string \<Rightarrow> string \<Rightarrow> pyfloat res" where
  "jaro s1 s2 =
     (if s1 = s2 then Ok (Fin 1)
      else if s1 = [] \<or> s2 = [] then Ok (Fin 0)
      else case jaro_matches s1 s2 of (m1, m2, matches) \<Rightarrow>
        if matches = 0 then Ok (Fin 0)
        else rbind (transposition_loop s1 s2 m1 m2 [0 ..< length s1] 0 0) (\<lambda>tr.
          rbind (float_of_int (int tr)) (\<lambda>trf. rbind (f_div trf (Fin 2)) (\<lambda>t.
          rbind (float_of_int (int matches)) (\<lambda>m.
          rbind (float_of_int (int (length s1))) (\<lambda>l1. rbind (float_of_int (int (length s2))) (\<lambda>l2.
          rbind (f_div m l1) (\<lambda>a. rbind (f_div m l2) (\<lambda>b. rbind (f_div (f_sub m t) m) (\<lambda>c.
            f_div (f_add (f_add a b) c) (Fin 3)))))))))))"

fun common_prefix :: "nat \<Rightarrow> string \<Rightarrow> string \<Rightarrow> nat" where
  "common_prefix n (a # as) (b # bs) = (if a \<noteq> b \<or> n = 4 then n else common_prefix (Suc n) as bs)"
| "common_prefix n _ _ = n"

definition jaro_winkler_w :: "pyfloat \<Rightarrow> string \<Rightarrow> string \<Rightarrow> pyfloat res" where
  "jaro_winkler_w prefix_weight s1 s2 =
     rmap (\<lambda>j. f_add j (f_mul (f_mul (Fin (of_nat (common_prefix 0 s1 s2))) prefix_weight) (f_sub (Fin 1) j))) (jaro s1 s2)"

definition jaro_winkler :: "string \<Rightarrow> string \<Rightarrow> pyfloat res" where
  "jaro_winkler s1 s2 = jaro_winkler_w (f64 (1 / 10)) s1 s2"

subsection \<open>difflib\<close>

text \<open>\<^verbatim>\<open>SequenceMatcher(None, a, b)\<close> drops from the index of \<open>b\<close> the elements that make up more than
  one percent of a \<open>b\<close> of two hundred elements or more.\<close>

definition popular :: "string \<Rightarrow> char \<Rightarrow> bool" where
  "popular b c = (200 \<le> length b \<and> length b div 100 + 1 < count_list b c)"

text \<open>The length of the run of equal indexed elements that ends at positions \<open>i\<close> and \<open>j\<close>
  (one past the last).\<close>

fun run_back :: "(char \<Rightarrow> bool) \<Rightarrow> string \<Rightarrow> string \<Rightarrow> nat" where
  "run_back pop (x # xs) (y # ys) = (if x = y \<and> \<not> pop y then Suc (run_back pop xs ys) else 0)"
| "run_back pop _ _ = 0"

definition run_at :: "(char \<Rightarrow> bool) \<Rightarrow> string \<Rightarrow> string \<Rightarrow> nat \<Rightarrow> nat \<Rightarrow> nat" where
  "run_at pop a b i j = run_back pop (rev (take i a)) (rev (take j b))"

text \<open>The first longest run, scanning \<open>a\<close> then \<open>b\<close>: its end positions and its length.\<close>

fun best_run :: "(char \<Rightarrow> bool) \<Rightarrow> string \<Rightarrow> string \<Rightarrow> (nat \<times> nat) list \<Rightarrow> nat \<times> nat \<times> nat \<Rightarrow> nat \<times> nat \<times> nat" where
  "best_run pop a b [] best = best"
| "best_run pop a b ((i, j) # ps) best =
     (let k = run_at pop a b i j in best_run pop a b ps (if snd (snd best) < k then (i - k, j - k, k) else best))"

fun grow_left :: "string \<Rightarrow> string \<Rightarrow> nat \<Rightarrow> nat \<Rightarrow> nat" where
  "grow_left a b (Suc i) (Suc j) = (if a ! i = b ! j then Suc (grow_left a b i j) else 0)"
| "grow_left a b _ _ = 0"

fun grow_right :: "string \<Rightarrow> string \<Rightarrow> nat" where
  "grow_right (x # xs) (y # ys) = (if x = y then Suc (grow_right xs ys) else 0)"
| "grow_right _ _ = 0"

definition run_ends :: "string \<Rightarrow> string \<Rightarrow> (nat \<times> nat) list" where
  "run_ends a b = List.product [1 ..< length a + 1] [1 ..< length b + 1]"

definition longest_match :: "(char \<Rightarrow> bool) \<Rightarrow> string \<Rightarrow> string \<Rightarrow> nat \<times> nat \<times> nat" where
  "longest_match pop a b =
     (case best_run pop a b (run_ends a b) (0, 0, 0) of (i, j, k) \<Rightarrow>
      let l = grow_left a b i j; r = grow_right (drop (i + k) a) (drop (j + k) b) in (i - l, j - l, l + k + r))"

text \<open>The total size of the matching blocks: the longest one, then both sides of it.\<close>

lemma run_back_le: "run_back pop xs ys \<le> length xs \<and> run_back pop xs ys \<le> length ys"
  by (induction pop xs ys rule: run_back.induct) auto

lemma run_at_le: "run_at pop a b i j \<le> min i (length a) \<and> run_at pop a b i j \<le> min j (length b)"
  using run_back_le [of pop "rev (take i a)" "rev (take j b)"] by (simp add: run_at_def min.commute)

lemma best_run_inside:
  assumes "\<forall>(i, j) \<in> set ps. i \<le> length a \<and> j \<le> length b"
    and "fst best + snd (snd best) \<le> length a" "fst (snd best) + snd (snd best) \<le> length b"
  shows "case best_run pop a b ps best of (i, j, k) \<Rightarrow> i + k \<le> length a \<and> j + k \<le> length b"
  using assms
proof (induction pop a b ps best rule: best_run.induct)
  case (2 pop a b i j ps best)
  then show ?case using run_at_le [of pop a b i j] by (auto simp: Let_def)
qed auto

lemma grow_left_le: "grow_left a b i j \<le> i \<and> grow_left a b i j \<le> j"
  by (induction a b i j rule: grow_left.induct) auto

lemma grow_right_le: "grow_right xs ys \<le> length xs \<and> grow_right xs ys \<le> length ys"
  by (induction xs ys rule: grow_right.induct) auto

lemma longest_match_inside:
  assumes "longest_match pop a b = (i, j, k)" shows "i + k \<le> length a" "j + k \<le> length b"
proof -
  obtain i0 j0 k0 where b: "best_run pop a b (run_ends a b) (0, 0, 0) = (i0, j0, k0)"
    by (cases "best_run pop a b (run_ends a b) (0, 0, 0)")
  have "\<forall>(i, j) \<in> set (run_ends a b). i \<le> length a \<and> j \<le> length b" by (auto simp: run_ends_def)
  then have in0: "i0 + k0 \<le> length a \<and> j0 + k0 \<le> length b"
    using best_run_inside [of "run_ends a b" a b "(0, 0, 0)" pop] b by simp
  then show "i + k \<le> length a" "j + k \<le> length b"
    using assms b grow_left_le [of a b i0 j0] grow_right_le [of "drop (i0 + k0) a" "drop (j0 + k0) b"]
    by (auto simp: longest_match_def Let_def)
qed

function blocks_total :: "(char \<Rightarrow> bool) \<Rightarrow> string \<Rightarrow> string \<Rightarrow> nat" where
  "blocks_total pop a b =
     (case longest_match pop a b of (i, j, k) \<Rightarrow>
        if k = 0 then 0
        else k + blocks_total pop (take i a) (take j b) + blocks_total pop (drop (i + k) a) (drop (j + k) b))"
  by pat_completeness auto
termination
  by (relation "measure (\<lambda>(pop, a, b). length a)") (auto dest!: sym [THEN longest_match_inside(1)])

declare blocks_total.simps [simp del]

definition indel_ratio :: "string \<Rightarrow> string \<Rightarrow> pyfloat res" where
  "indel_ratio s1 s2 =
     (if s1 = [] \<and> s2 = [] then Ok (Fin 100)
      else if s1 = [] \<or> s2 = [] then Ok (Fin 0)
      else rbind (float_of_int (int (blocks_total (popular s2) s1 s2))) (\<lambda>m.
           rbind (float_of_int (int (length s1 + length s2))) (\<lambda>n.
           rmap (\<lambda>r. f_mul r (Fin 100)) (f_div (f_mul (Fin 2) m) n))))"

definition token_sort_ratio :: "string \<Rightarrow> string \<Rightarrow> pyfloat res" where
  "token_sort_ratio s1 s2 = indel_ratio (join_sp (sort (split_ws s1))) (join_sp (sort (split_ws s2)))"

subsection \<open>Jaro is total and bounded\<close>

abbreviation trues :: "bool list \<Rightarrow> nat" where "trues ms \<equiv> count_list ms True"

lemma trues_set_True: "j < length ms \<Longrightarrow> \<not> ms ! j \<Longrightarrow> trues (ms[j := True]) = Suc (trues ms)"
proof (induction ms arbitrary: j)
  case (Cons m ms)
  then show ?case by (cases j) auto
qed simp

lemma trues_replicate [simp]: "trues (replicate n False) = 0"
  by (induction n) auto

lemma trues_le: "trues ms \<le> length ms" by (rule count_le_length)

definition jaro_inv :: "string \<Rightarrow> string \<Rightarrow> nat \<Rightarrow> jaro_state \<Rightarrow> bool" where
  "jaro_inv s1 s2 n st \<longleftrightarrow> (case st of (m1, m2, k) \<Rightarrow> length m1 = length s1 \<and> length m2 = length s2
     \<and> trues m1 = k \<and> trues m2 = k \<and> (\<forall>i. n \<le> i \<longrightarrow> i < length s1 \<longrightarrow> \<not> m1 ! i))"

lemma jaro_step_inv:
  assumes "jaro_inv s1 s2 i st" "i < length s1" shows "jaro_inv s1 s2 (Suc i) (jaro_step s1 s2 i st)"
proof -
  obtain m1 m2 k where st: "st = (m1, m2, k)" by (cases st)
  let ?P = "\<lambda>j. \<not> m2 ! j \<and> s1 ! i = s2 ! j"
  show ?thesis
  proof (cases "find ?P [i - match_window s1 s2 ..< min (i + match_window s1 s2 + 1) (length s2)]")
    case None
    then show ?thesis using assms st by (simp add: jaro_step_def jaro_inv_def Let_def)
  next
    case (Some j)
    then have "?P j" "j < length s2" using find_first [OF Some] by auto
    then show ?thesis using Some assms st
      by (auto simp: jaro_step_def jaro_inv_def Let_def trues_set_True nth_list_update)
  qed
qed

lemma jaro_matches_inv: "jaro_inv s1 s2 (length s1) (jaro_matches s1 s2)"
proof -
  have "n \<le> length s1 \<Longrightarrow> jaro_inv s1 s2 n (fold (jaro_step s1 s2) [0 ..< n]
     (replicate (length s1) False, replicate (length s2) False, 0))" for n
  proof (induction n)
    case 0
    show ?case by (simp add: jaro_inv_def)
  next
    case (Suc n)
    then show ?case by (simp add: jaro_step_inv)
  qed
  then show ?thesis by (simp add: jaro_matches_def)
qed

lemma trues_drop: "k < length ms \<Longrightarrow> trues (drop k ms) = (if ms ! k then 1 else 0) + trues (drop (Suc k) ms)"
  by (simp add: Cons_nth_drop_Suc [symmetric])

lemma next_match_found:
  "0 < trues (drop k ms) \<Longrightarrow> \<exists>k'. next_match ms k = Ok k' \<and> trues (drop (Suc k') ms) = trues (drop k ms) - 1"
proof (induction ms k rule: next_match.induct)
  case (1 ms k)
  have k: "k < length ms" using 1(2) by (rule contrapos_pp) simp
  show ?case
  proof (cases "ms ! k")
    case True
    then show ?thesis using k trues_drop [OF k] by (simp add: next_match.simps [of ms k])
  next
    case False
    then show ?thesis using 1 k trues_drop [OF k] by (simp add: next_match.simps [of ms k])
  qed
qed

lemma transposition_loop_total:
  "i \<le> length m1 \<Longrightarrow> trues (drop i m1) \<le> trues (drop k m2) \<Longrightarrow>
   \<exists>tr. transposition_loop s1 s2 m1 m2 [i ..< length m1] k t = Ok tr \<and> tr \<le> t + trues (drop i m1)"
proof (induction "length m1 - i" arbitrary: i k t)
  case 0
  then show ?case by simp
next
  case (Suc n)
  then have i: "i < length m1" by simp
  have up: "[i ..< length m1] = i # [Suc i ..< length m1]" using i by (simp add: upt_conv_Cons)
  show ?case
  proof (cases "m1 ! i")
    case False
    have n: "n = length m1 - Suc i" using Suc.hyps(2) by simp
    show ?thesis using False Suc.hyps(1) [OF n, of k t] Suc.prems i trues_drop [OF i] by (simp add: up)
  next
    case True
    then have "0 < trues (drop k m2)" using Suc.prems trues_drop [OF i] by simp
    then obtain k' where k': "next_match m2 k = Ok k'" "trues (drop (Suc k') m2) = trues (drop k m2) - 1"
      using next_match_found by blast
    have n: "n = length m1 - Suc i" using Suc.hyps(2) by simp
    have "trues (drop (Suc i) m1) \<le> trues (drop (Suc k') m2)" using True Suc.prems trues_drop [OF i] k'(2) by simp
    then obtain tr where "transposition_loop s1 s2 m1 m2 [Suc i ..< length m1] (Suc k')
          (if s1 ! i \<noteq> s2 ! k' then Suc t else t) = Ok tr"
        "tr \<le> (if s1 ! i \<noteq> s2 ! k' then Suc t else t) + trues (drop (Suc i) m1)"
      using Suc.hyps(1) [OF n, of "Suc k'" "if s1 ! i \<noteq> s2 ! k' then Suc t else t"] i by auto
    then show ?thesis using True k' trues_drop [OF i] by (auto simp: up split: if_splits)
  qed
qed

text \<open>Sums and quotients of floats between bounds that are integers.\<close>

lemma float_in_add:
  assumes "float_in a m" "float_in b n" "is_f64 (m + n)" shows "float_in (f_add a b) (m + n)"
  using assms by (auto elim!: float_inE intro!: float_in_f64)

lemma float_in_div:
  assumes "float_in a m" "0 < k" "is_f64 k" "is_f64 (m / k)"
  shows "\<exists>q. f_div a (Fin k) = Ok q \<and> float_in q (m / k)"
  using assms by (auto elim!: float_inE intro!: float_in_f64 divide_right_mono)

lemma small_nat: "n < 2 ^ 53 \<Longrightarrow> float_of_int (int n) = Ok (Fin (of_nat n)) \<and> is_f64 (of_nat n)"
  using float_of_int_small [of "int n"] is_f64_of_int [of "int n"] by simp

lemma ratio_in_unit: "a \<le> b \<Longrightarrow> 0 < b \<Longrightarrow> float_in (f64 (of_nat a / of_nat b)) 1"
  by (intro float_in_f64) (simp_all add: divide_le_eq_1)

lemma jaro_range:
  assumes len: "length s1 < 2 ^ 53" "length s2 < 2 ^ 53"
  shows "\<exists>j. jaro s1 s2 = Ok j \<and> float_in j 1"
proof (cases "s1 = s2 \<or> s1 = [] \<or> s2 = []")
  case True
  then show ?thesis by (auto simp: jaro_def)
next
  case False
  obtain m1 m2 k where jm: "jaro_matches s1 s2 = (m1, m2, k)" by (cases "jaro_matches s1 s2")
  have inv: "length m1 = length s1" "length m2 = length s2" "trues m1 = k" "trues m2 = k"
    using jaro_matches_inv [of s1 s2] by (auto simp: jm jaro_inv_def)
  show ?thesis
  proof (cases "k = 0")
    case True
    then show ?thesis using False jm by (simp add: jaro_def)
  next
    case k0: False
    have k: "k \<le> length s1" "k \<le> length s2" using inv trues_le [of m1] trues_le [of m2] by auto
    obtain tr where tr: "transposition_loop s1 s2 m1 m2 [0 ..< length s1] 0 0 = Ok tr" "tr \<le> k"
      using transposition_loop_total [of 0 m1 0 m2 s1 s2 0] inv by auto
    have kk: "k < 2 ^ 53" "tr < 2 ^ 53" using k len tr by linarith+
    have half: "f64 (of_nat tr / 2) = Fin (of_nat tr / 2)"
      using rnd_half_int [of "int tr"] kk(2) by (intro f64_rep is_f64_range) (simp_all add: divide_less_eq)
    define x where "x = rnd (of_nat k - of_nat tr / 2 :: rat)"
    have le: "(of_nat tr :: rat) \<le> of_nat k" using tr(2) by simp
    then have "0 \<le> (of_nat k - of_nat tr / 2 :: rat)" "of_nat k - of_nat tr / 2 \<le> (of_nat k :: rat)"
      using of_nat_0_le_iff [of tr, where ?'a = rat] by linarith+
    then have x: "f64 (of_nat k - of_nat tr / 2) = Fin x" "0 \<le> x" "x \<le> of_nat k"
      using f64_Fin_between [OF is_f64_0, of "of_nat k"] small_nat [OF kk(1)] by (auto simp: x_def)
    define a b c where "a = f64 (of_nat k / of_nat (length s1) :: rat)" and "b = f64 (of_nat k / of_nat (length s2) :: rat)"
      and "c = f64 (x / of_nat k)"
    have abc: "float_in a 1" "float_in b 1" "float_in c 1"
      using ratio_in_unit [OF k(1)] ratio_in_unit [OF k(2)] False k0 x by (auto simp: a_def b_def c_def intro!: float_in_f64)
    have two: "is_f64 2" "is_f64 3" using is_f64_of_int [of 2] is_f64_of_int [of 3] by simp_all
    have "float_in (f_add (f_add a b) c) 3"
      using float_in_add [OF float_in_add [OF abc(1,2)] abc(3)] two by simp
    then obtain q where "f_div (f_add (f_add a b) c) (Fin 3) = Ok q" "float_in q 1"
      using float_in_div [of "f_add (f_add a b) c" 3 3] two by auto
    moreover have "jaro s1 s2 = f_div (f_add (f_add a b) c) (Fin 3)"
      using False k0 jm tr half x small_nat [OF kk(1)] small_nat [OF kk(2)] small_nat [OF len(1)] small_nat [OF len(2)]
      by (simp add: jaro_def a_def b_def c_def)
    ultimately show ?thesis by simp
  qed
qed

lemma common_prefix_le: "n \<le> 4 \<Longrightarrow> n \<le> common_prefix n s1 s2 \<and> common_prefix n s1 s2 \<le> 4"
  by (induction n s1 s2 rule: common_prefix.induct) auto

lemma winkler_bonus:
  assumes "n \<le> 4" shows "\<exists>p. f_mul (Fin (of_nat n)) (f64 (1 / 10)) = Fin p \<and> float_in (Fin p) (1 / 2)"
proof -
  have v: "f64 (1 / 10) = Fin (rnd (1 / 10))" "0 \<le> rnd (1 / 10)" "rnd (1 / 10) \<le> 1 / 8"
  proof -
    have "is_f64 (1 / 8)" by code_simp
    then show "f64 (1 / 10) = Fin (rnd (1 / 10))" "0 \<le> rnd (1 / 10)" "rnd (1 / 10) \<le> 1 / 8"
      using f64_Fin_between [OF is_f64_0, of "1 / 8" "1 / 10"] by auto
  qed
  have "(of_nat n :: rat) \<le> of_nat 4" using assms by (simp only: of_nat_le_iff)
  then have "of_nat n * rnd (1 / 10) \<le> 4 * (1 / 8)" by (intro mult_mono) (use v in auto)
  moreover have half: "is_f64 (1 / 2)" using is_f64_quarter [of 2] by simp
  ultimately have "float_in (f64 (of_nat n * rnd (1 / 10))) (1 / 2)"
    using v by (intro float_in_f64) auto
  then show ?thesis unfolding v by (auto elim: float_inE)
qed

lemma jaro_winkler_total:
  assumes "length s1 < 2 ^ 53" "length s2 < 2 ^ 53"
  shows "\<exists>q. jaro_winkler s1 s2 = Ok q \<and> float_in q 1"
proof -
  obtain j where j: "jaro s1 s2 = Ok (Fin j)" "0 \<le> j" "j \<le> 1" "is_f64 j"
    using jaro_range [OF assms] by (auto elim!: float_inE)
  obtain p where p: "f_mul (Fin (of_nat (common_prefix 0 s1 s2))) (f64 (1 / 10)) = Fin p" "0 \<le> p" "p \<le> 1 / 2"
    using winkler_bonus [of "common_prefix 0 s1 s2"] common_prefix_le [of 0] by auto
  define d where "d = rnd (1 - j)"
  have d: "f64 (1 - j) = Fin d" "0 \<le> d" "d \<le> 1" "is_f64 d"
    using f64_Fin_between [OF is_f64_0 is_f64_1, of "1 - j"] j by (auto simp: d_def)
  define y where "y = rnd (p * d)"
  have le: "p * d \<le> d" "p * d \<le> 1 / 2"
    using p d mult_left_le_one_le [of d p] mult_mono [of p "1 / 2" d 1] by auto
  have half: "is_f64 (1 / 2)" using is_f64_quarter [of 2] by simp
  have y: "f64 (p * d) = Fin y" "0 \<le> y" "y \<le> d" "y \<le> 1 / 2"
    using f64_Fin_between [OF is_f64_0 d(4), of "p * d"] f64_Fin_between [OF is_f64_0 half, of "p * d"] le p d by (auto simp: y_def)
  have "j + y \<le> 1"
  proof (cases "1 / 2 \<le> j")
    case True
    then have "d = 1 - j" using is_f64_one_minus [OF j(4) _ j(3)] by (simp add: d_def is_f64_def)
    then show ?thesis using y by simp
  next
    case False
    then show ?thesis using y by simp
  qed
  then have "float_in (f64 (j + y)) 1" using j y by (intro float_in_f64) auto
  then show ?thesis using j p d y by (simp add: jaro_winkler_def jaro_winkler_w_def)
qed

lemma jaro_winkler_self: "jaro_winkler s s = Ok (Fin 1)"
proof -
  obtain p where "f_mul (Fin (of_nat (common_prefix 0 s s))) (f64 (1 / 10)) = Fin p"
    using winkler_bonus [of "common_prefix 0 s s"] common_prefix_le [of 0] by auto
  then show ?thesis
    using f64_rep [OF is_f64_0] f64_rep [OF is_f64_1] by (simp add: jaro_winkler_def jaro_winkler_w_def jaro_def)
qed

text \<open>C36: the Jaro-Winkler similarity of two names never fails (its pointer loop stays inside the string), is
  a float between zero and one in spite of rounding, and is one for equal names.\<close>

theorem jaro_winkler_range:
  assumes "length s1 < 2 ^ 53" "length s2 < 2 ^ 53"
  shows "(\<exists>q. jaro_winkler s1 s2 = Ok q \<and> float_in q 1) \<and> jaro_winkler s s = Ok (Fin 1)"
  by (intro conjI jaro_winkler_total [OF assms] jaro_winkler_self)

lemma jaro_winkler_range_witness: "\<exists>q. jaro_winkler ''arsenal'' ''arsenl'' = Ok q \<and> float_in q 1"
  by (rule jaro_winkler_range [THEN conjunct1]) simp_all

subsection \<open>difflib is bounded\<close>

lemma blocks_total_le: "blocks_total pop a b \<le> length a \<and> blocks_total pop a b \<le> length b"
proof (induction pop a b rule: blocks_total.induct)
  case (1 pop a b)
  obtain i j k where l: "longest_match pop a b = (i, j, k)" by (cases "longest_match pop a b")
  show ?case
  proof (cases "k = 0")
    case True
    then show ?thesis using l by (simp add: blocks_total.simps [of pop a b])
  next
    case False
    have in0: "i + k \<le> length a" "j + k \<le> length b" using longest_match_inside [OF l] by auto
    have r: "blocks_total pop (take i a) (take j b) \<le> i \<and> blocks_total pop (take i a) (take j b) \<le> j"
        "blocks_total pop (drop (i + k) a) (drop (j + k) b) \<le> length a - (i + k)
         \<and> blocks_total pop (drop (i + k) a) (drop (j + k) b) \<le> length b - (j + k)"
      using 1 [OF l [symmetric] refl False] in0 by auto
    have "blocks_total pop a b = k + blocks_total pop (take i a) (take j b) + blocks_total pop (drop (i + k) a) (drop (j + k) b)"
      using False l by (simp add: blocks_total.simps [of pop a b])
    then show ?thesis using r in0 by linarith
  qed
qed

lemma indel_ratio_range:
  assumes "length s1 + length s2 < 2 ^ 52"
  shows "\<exists>q. indel_ratio s1 s2 = Ok q \<and> float_in q 100"
proof (cases "s1 = [] \<or> s2 = []")
  case True
  have "is_f64 100" using is_f64_of_int [of 100] by simp
  then show ?thesis using True by (auto simp: indel_ratio_def)
next
  case False
  define m n where "m = blocks_total (popular s2) s1 s2" and "n = length s1 + length s2"
  have mn: "2 * m \<le> n" "0 < n" "m < 2 ^ 53" "2 * m < 2 ^ 53" "n < 2 ^ 53"
    using blocks_total_le [of "popular s2" s1 s2] assms False by (auto simp: m_def n_def)
  have f: "float_of_int (int m) = Ok (Fin (of_nat m))" "float_of_int (int n) = Ok (Fin (of_nat n))"
    using small_nat mn by blast+
  have two: "f64 (2 * of_nat m) = Fin (of_nat (2 * m))" using f64_rep [of "of_nat (2 * m)"] small_nat [OF mn(4)] by simp
  have q: "float_in (f64 (of_nat (2 * m) / of_nat n)) 1" by (rule ratio_in_unit [OF mn(1,2)])
  then obtain r where r: "f64 (of_nat (2 * m) / of_nat n) = Fin r" "0 \<le> r" "r \<le> 1" by (auto elim!: float_inE)
  have "is_f64 100" using is_f64_of_int [of 100] by simp
  then have "float_in (f64 (r * 100)) 100" using r by (intro float_in_f64) auto
  then show ?thesis using False f two r mn(2)
    by (simp add: indel_ratio_def m_def [symmetric] n_def [symmetric] del: of_nat_add of_nat_mult)
qed

lemma sort_tokens_cong: "mset (split_ws s) = mset (split_ws t) \<Longrightarrow> sort (split_ws s) = sort (split_ws t)"
  by (rule properties_for_sort) (metis mset_sort, simp)

lemma length_join_sp: "length (join_sp ts) = sum_list (map length ts) + (length ts - 1)"
  by (induction ts rule: join_sp.induct) auto

lemma length_join_sort: "length (join_sp (sort ts)) = length (join_sp ts)"
proof -
  have "mset (map length (sort ts)) = mset (map length ts)" by simp
  then have "sum_list (map length (sort ts)) = sum_list (map length ts)" by (metis sum_mset_sum_list)
  then show ?thesis by (simp add: length_join_sp)
qed

lemma token_sort_total:
  assumes "length (join_sp (split_ws s)) + length (join_sp (split_ws u)) < 2 ^ 52"
  shows "\<exists>q. token_sort_ratio s u = Ok q \<and> float_in q 100"
  unfolding token_sort_ratio_def by (rule indel_ratio_range) (simp add: length_join_sort assms [simplified])

text \<open>The token-sort ratio of two names never fails and is a float between zero and a hundred; the order
  and spacing of the words of either name do not matter.\<close>

theorem token_sort_ratio_spec:
  assumes "length (join_sp (split_ws s)) + length (join_sp (split_ws u)) < 2 ^ 52"
    and "mset (split_ws s) = mset (split_ws t)"
  shows "(\<exists>q. token_sort_ratio s u = Ok q \<and> float_in q 100)
    \<and> token_sort_ratio s u = token_sort_ratio t u \<and> token_sort_ratio u s = token_sort_ratio u t"
  using token_sort_total [OF assms(1)] sort_tokens_cong [OF assms(2)] by (simp add: token_sort_ratio_def)

lemma token_sort_ratio_spec_witness:
  "(\<exists>q. token_sort_ratio ''real madrid'' ''madrid'' = Ok q \<and> float_in q 100)
    \<and> token_sort_ratio ''real madrid'' ''madrid'' = token_sort_ratio ''madrid  real'' ''madrid''
    \<and> token_sort_ratio ''madrid'' ''real madrid'' = token_sort_ratio ''madrid'' ''madrid  real''"
proof (rule token_sort_ratio_spec)
  have t: "split_ws ''real madrid'' = [''real'', ''madrid'']" "split_ws ''madrid  real'' = [''madrid'', ''real'']"
    "split_ws ''madrid'' = [''madrid'']" by code_simp+
  show "length (join_sp (split_ws ''real madrid'')) + length (join_sp (split_ws ''madrid'')) < 2 ^ 52" by (simp add: t)
  show "mset (split_ws ''real madrid'') = mset (split_ws ''madrid  real'')" by (simp add: t)
qed

end
