(* ===== verification/Slugs.thy ===== *)
theory Slugs
  imports Names
begin

text \<open>
  Team names from match references (\<^verbatim>\<open>oddsportal_slug_names\<close> to \<^verbatim>\<open>marker_safe_slug_names\<close> of
  \<^verbatim>\<open>app/resolution/matching.py\<close>): the slug of an OddsPortal address or an OddsChecker path, as a
  fallback match key that may not lose a marker the display names carry.
\<close>

subsection \<open>Model\<close>

abbreviation newline :: char where "newline \<equiv> CHR 0x0A"

fun after_first :: "string \<Rightarrow> string \<Rightarrow> string option" where
  "after_first sep [] = (if sep = [] then Some [] else None)"
| "after_first sep (c # cs) = (if startswith sep (c # cs) then Some (drop (length sep) (c # cs)) else after_first sep cs)"

definition before_char :: "char \<Rightarrow> string \<Rightarrow> string" where
  "before_char c s = takeWhile (\<lambda>d. d \<noteq> c) s"

definition path_parts :: "string \<Rightarrow> string list" where
  "path_parts s = tok (\<lambda>c. c = CHR ''/'') [] s"

text \<open>The substitution of \<^verbatim>\<open>-[A-Za-z0-9]{8}$\<close> by nothing; \<open>$\<close> also matches before a final newline.\<close>

definition id_suffix :: "string \<Rightarrow> bool" where
  "id_suffix s = (9 \<le> length s \<and> s ! (length s - 9) = CHR ''-'' \<and> list_all is_alnum_ascii (drop (length s - 8) s))"

definition cut_id :: "string \<Rightarrow> string" where
  "cut_id s = (if id_suffix s then take (length s - 9) s
     else if s \<noteq> [] \<and> last s = newline \<and> id_suffix (butlast s) then take (length s - 10) s @ [newline]
     else s)"

definition undash :: "string \<Rightarrow> string" where
  "undash s = strip (map (\<lambda>c. if c = CHR ''-'' then CHR '' '' else c) s)"

definition oddsportal_slug_names :: "string \<Rightarrow> (string \<times> string) option" where
  "oddsportal_slug_names ref = (case after_first ''oddsportal.com/'' ref of
     None \<Rightarrow> None
   | Some rest \<Rightarrow> (case rev (path_parts (before_char (CHR ''#'') rest)) of
        a # h # _ \<Rightarrow> (let home = undash (cut_id h); away = undash (cut_id a) in
           if home = [] \<or> away = [] then None else Some (home, away))
      | _ \<Rightarrow> None))"

text \<open>\<^verbatim>\<open>^(.+?)SEP(.+)$\<close>: the shortest non-empty start before a separator that leaves a non-empty line.\<close>

definition line_rest :: "string \<Rightarrow> string option" where
  "line_rest r = (let r' = (if r \<noteq> [] \<and> last r = newline then butlast r else r) in
     if r' = [] \<or> newline \<in> set r' then None else Some r')"

fun lazy_split :: "string \<Rightarrow> string \<Rightarrow> string \<Rightarrow> (string \<times> string) option" where
  "lazy_split sep cur [] = None"
| "lazy_split sep cur (c # cs) =
     (case (if cur \<noteq> [] \<and> startswith sep (c # cs) then line_rest (drop (length sep) (c # cs)) else None) of
        Some r \<Rightarrow> Some (cur, r)
      | None \<Rightarrow> if c = newline then None else lazy_split sep (cur @ [c]) cs)"

definition segment_names :: "string \<Rightarrow> (string \<times> string) option" where
  "segment_names seg = (case lazy_split ''-v-'' [] seg of
     Some (h, a) \<Rightarrow> Some (h, a)
   | None \<Rightarrow> (case lazy_split ''-at-'' [] seg of Some (a, h) \<Rightarrow> Some (h, a) | None \<Rightarrow> None))"

fun scan_segments :: "string list \<Rightarrow> (string \<times> string) option" where
  "scan_segments [] = None"
| "scan_segments (seg # segs) = (case segment_names seg of
     None \<Rightarrow> scan_segments segs
   | Some (h, a) \<Rightarrow> (let home = undash h; away = undash a in
       if home \<noteq> [] \<and> away \<noteq> [] then Some (home, away) else scan_segments segs))"

definition oddschecker_slug_names :: "string \<Rightarrow> (string \<times> string) option" where
  "oddschecker_slug_names ref =
     (if \<not> startswith ''oddschecker:'' ref then None
      else scan_segments (rev (path_parts (before_char (CHR ''#'') (drop 12 ref)))))"

definition slug_names :: "string \<Rightarrow> (string \<times> string) option" where
  "slug_names ref = (case oddsportal_slug_names ref of Some p \<Rightarrow> Some p | None \<Rightarrow> oddschecker_slug_names ref)"

definition marker_safe_slug_names :: "string \<Rightarrow> string \<Rightarrow> string \<Rightarrow> (string \<times> string) option" where
  "marker_safe_slug_names ref home away = (case slug_names ref of
     None \<Rightarrow> None
   | Some (h, a) \<Rightarrow>
       if distinguishing_markers home \<subseteq> distinguishing_markers h
        \<and> distinguishing_markers away \<subseteq> distinguishing_markers a then Some (h, a) else None)"

subsection \<open>What a slug yields\<close>

lemma scan_nonempty: "scan_segments segs = Some (h, a) \<Longrightarrow> h \<noteq> [] \<and> a \<noteq> []"
  by (induction segs) (auto simp: Let_def split: option.splits prod.splits if_splits)

lemma slug_nonempty: "slug_names ref = Some (h, a) \<Longrightarrow> h \<noteq> [] \<and> a \<noteq> []"
  using scan_nonempty
  by (auto simp: slug_names_def oddsportal_slug_names_def oddschecker_slug_names_def Let_def
      split: option.splits list.splits if_splits)

text \<open>A slug accepted as a fallback key has two non-empty names and carries, side by side, every marker
  the display names carry; a slug that lost one on either side is refused.\<close>

theorem slug_keeps_markers:
  "marker_safe_slug_names ref home away = Some (h, a) \<longleftrightarrow>
     slug_names ref = Some (h, a) \<and> h \<noteq> [] \<and> a \<noteq> []
     \<and> distinguishing_markers home \<subseteq> distinguishing_markers h \<and> distinguishing_markers away \<subseteq> distinguishing_markers a"
  using slug_nonempty [of ref h a]
  by (auto simp: marker_safe_slug_names_def split: option.splits prod.splits if_splits)

subsection \<open>Reading back a slug\<close>

fun join_dash :: "string list \<Rightarrow> string" where
  "join_dash [] = []"
| "join_dash [t] = t"
| "join_dash (t # u # ts) = t @ ''-'' @ join_dash (u # ts)"

definition slug_word :: "string \<Rightarrow> bool" where
  "slug_word t \<longleftrightarrow> t \<noteq> [] \<and> list_all norm_char t"

lemma norm_char_plain: "norm_char c \<Longrightarrow> c \<noteq> CHR ''-'' \<and> c \<noteq> newline \<and> c \<noteq> CHR ''/'' \<and> c \<noteq> CHR ''#'' \<and> \<not> is_space c"
  by (auto simp: norm_char_def is_digit_def is_lower_ascii_def is_space_def code_def Let_def)

lemma lazy_split_word:
  assumes "list_all norm_char w" "sep = CHR ''-'' # sep'"
  shows "lazy_split sep cur (w @ s) = lazy_split sep (cur @ w) s"
  using assms(1)
proof (induction w arbitrary: cur)
  case (Cons c w)
  then have "c \<noteq> CHR ''-''" "c \<noteq> newline" using norm_char_plain by auto
  then show ?case using Cons assms(2) by (simp add: startswith_def)
qed simp

lemma starts_v:
  assumes "slug_word t" "t \<noteq> ''v''" shows "\<not> startswith ''v-'' (t @ CHR ''-'' # s)"
proof -
  obtain c t' where t: "t = c # t'" using assms by (cases t) (auto simp: slug_word_def)
  show ?thesis
  proof (cases t')
    case Nil
    then show ?thesis using assms(2) t by (auto simp: startswith_def)
  next
    case (Cons d t'')
    then have "d \<noteq> CHR ''-''" using assms(1) t norm_char_plain by (auto simp: slug_word_def)
    then show ?thesis using t Cons by (simp add: startswith_def)
  qed
qed

lemma lazy_split_join:
  assumes "list_all slug_word ts" "ts \<noteq> []" "''v'' \<notin> set (tl ts)" "line_rest r = Some r'"
  shows "lazy_split ''-v-'' cur (join_dash ts @ ''-v-'' @ r) = Some (cur @ join_dash ts, r')"
  using assms(1-3)
proof (induction ts arbitrary: cur rule: join_dash.induct)
  case (2 t)
  then have t: "list_all norm_char t" "t \<noteq> []" by (simp_all add: slug_word_def)
  show ?case using lazy_split_word [OF t(1), of "''-v-''" "''v-''" cur "''-v-'' @ r"] t(2) assms(4)
    by (simp add: startswith_def)
next
  case (3 t u ts)
  then have t: "list_all norm_char t" "t \<noteq> []" by (simp_all add: slug_word_def)
  have u: "slug_word u" "u \<noteq> ''v''" using 3 by auto
  obtain s where s: "join_dash (u # ts) @ ''-v-'' @ r = u @ CHR ''-'' # s"
    by (cases ts) auto
  have "\<not> startswith ''-v-'' (CHR ''-'' # join_dash (u # ts) @ ''-v-'' @ r)"
    using starts_v [OF u, of s] unfolding s by (simp add: startswith_def)
  moreover have "lazy_split ''-v-'' cur (t @ CHR ''-'' # join_dash (u # ts) @ ''-v-'' @ r) =
      lazy_split ''-v-'' (cur @ t) (CHR ''-'' # join_dash (u # ts) @ ''-v-'' @ r)"
    using lazy_split_word [OF t(1), of "''-v-''" "''v-''"] by simp
  ultimately show ?case using 3 t(2) by simp
qed simp

lemma strip_id: "s \<noteq> [] \<Longrightarrow> \<not> is_space (hd s) \<Longrightarrow> \<not> is_space (last s) \<Longrightarrow> strip s = s"
proof -
  assume s: "s \<noteq> []" "\<not> is_space (hd s)" "\<not> is_space (last s)"
  have d: "dropWhile is_space t = t" if "t \<noteq> []" "\<not> is_space (hd t)" for t
    using that by (cases t) auto
  have "dropWhile is_space (rev s) = rev s" using s by (intro d) (auto simp: hd_rev)
  then show ?thesis using d [of s] s by (simp add: strip_def)
qed

lemma join_dash_chars: "list_all slug_word ts \<Longrightarrow> c \<in> set (join_dash ts) \<Longrightarrow> norm_char c \<or> c = CHR ''-''"
  by (induction ts rule: join_dash.induct) (auto simp: slug_word_def list_all_iff)

lemma join_sp_ends:
  assumes "list_all slug_word ts" "ts \<noteq> []"
  shows "join_sp ts \<noteq> [] \<and> hd (join_sp ts) = hd (hd ts) \<and> last (join_sp ts) = last (last ts)"
  using assms by (induction ts rule: join_sp.induct) (auto simp: slug_word_def)

lemma undash_join:
  assumes "list_all slug_word ts" "ts \<noteq> []" shows "undash (join_dash ts) = join_sp ts"
proof -
  have w: "map (\<lambda>c. if c = CHR ''-'' then CHR '' '' else c) t = t" if "slug_word t" for t
    using that norm_char_plain by (intro map_idI) (auto simp: slug_word_def list_all_iff)
  have m: "map (\<lambda>c. if c = CHR ''-'' then CHR '' '' else c) (join_dash ts) = join_sp ts"
    using assms(1) by (induction ts rule: join_dash.induct) (auto simp: w)
  have "slug_word (hd ts)" "slug_word (last ts)" using assms by (auto simp: list_all_iff)
  then have "\<not> is_space (hd (hd ts))" "\<not> is_space (last (last ts))"
    using norm_char_plain by (auto simp: slug_word_def list_all_iff)
  then show ?thesis unfolding undash_def m using join_sp_ends [OF assms] by (intro strip_id) auto
qed

lemma tok_last:
  assumes "p x" "list_all (\<lambda>c. \<not> p c) b" "b \<noteq> []"
  shows "tok p cur (a @ x # b) = tok p cur (a @ [x]) @ [b]"
proof (induction a arbitrary: cur)
  case Nil
  then show ?case using assms tok_skip [of p b "[]" "[]"] by simp
qed simp

lemma rev_parts_last:
  assumes "CHR ''#'' \<notin> set pre" "CHR ''#'' \<notin> set seg" "CHR ''/'' \<notin> set seg" "seg \<noteq> []"
  shows "\<exists>more. rev (path_parts (before_char (CHR ''#'') (pre @ ''/'' @ seg))) = seg # more"
proof -
  have "before_char (CHR ''#'') (pre @ ''/'' @ seg) = pre @ CHR ''/'' # seg"
    using assms(1,2) unfolding before_char_def by (subst takeWhile_eq_all_conv [THEN iffD2]) auto
  moreover have "list_all (\<lambda>c. c \<noteq> CHR ''/'') seg" using assms(3) by (auto simp: list_all_iff)
  ultimately show ?thesis
    using tok_last [of "\<lambda>c. c = CHR ''/''" "CHR ''/''" seg "[]" pre] assms(4) by (simp add: path_parts_def)
qed

lemma line_rest_id: "s \<noteq> [] \<Longrightarrow> newline \<notin> set s \<Longrightarrow> line_rest s = Some s"
proof -
  assume s: "s \<noteq> []" "newline \<notin> set s"
  then have "last s \<noteq> newline" using last_in_set [OF s(1)] by metis
  then show ?thesis using s by (simp add: line_rest_def)
qed

text \<open>Reading back an OddsChecker match path gives the two names it was written from, words separated by
  blanks, whatever the sport and competition in front of it, for names of plain words of which the home
  one has no later word \<open>v\<close>.\<close>

theorem oddschecker_roundtrip:
  assumes "list_all slug_word ts" "list_all slug_word us" "ts \<noteq> []" "us \<noteq> []" "''v'' \<notin> set (tl ts)"
    and "CHR ''#'' \<notin> set pre"
  shows "oddschecker_slug_names (''oddschecker:'' @ pre @ ''/'' @ join_dash ts @ ''-v-'' @ join_dash us)
    = Some (join_sp ts, join_sp us)"
proof -
  let ?seg = "join_dash ts @ ''-v-'' @ join_dash us"
  have ch: "c \<in> set ?seg \<Longrightarrow> c \<noteq> CHR ''#'' \<and> c \<noteq> CHR ''/'' \<and> c \<noteq> newline" for c
    using join_dash_chars [OF assms(1)] join_dash_chars [OF assms(2)] norm_char_plain [of c]
    by (auto simp: norm_char_def is_digit_def is_lower_ascii_def code_def)
  have ne: "join_dash us \<noteq> []" using assms(2,4) by (cases us rule: join_dash.cases) (auto simp: slug_word_def)
  have "newline \<notin> set (join_dash us)" using ch by auto
  then have lr: "line_rest (join_dash us) = Some (join_dash us)"
    using ne line_rest_id by blast
  have seg: "segment_names ?seg = Some (join_dash ts, join_dash us)"
    using lazy_split_join [OF assms(1,3,5) lr, of "[]"] by (simp add: segment_names_def)
  have names: "undash (join_dash ts) = join_sp ts" "undash (join_dash us) = join_sp us"
    using undash_join assms by auto
  have nonempty: "join_sp ts \<noteq> []" "join_sp us \<noteq> []" using join_sp_ends assms by auto
  obtain more where "rev (path_parts (before_char (CHR ''#'') (pre @ ''/'' @ ?seg))) = ?seg # more"
    using rev_parts_last [of pre ?seg] assms(6) ch by force
  then show ?thesis using seg names nonempty
    by (simp add: oddschecker_slug_names_def startswith_def Let_def)
qed

lemma oddschecker_roundtrip_witness:
  "oddschecker_slug_names (''oddschecker:'' @ ''football/english'' @ ''/'' @ join_dash [''crystal'', ''palace''] @ ''-v-'' @ join_dash [''arsenal''])
    = Some (join_sp [''crystal'', ''palace''], join_sp [''arsenal''])"
proof (rule oddschecker_roundtrip)
  show "list_all slug_word [''crystal'', ''palace'']" "list_all slug_word [''arsenal'']" by code_simp+
qed simp_all

end
