(* ===== verification/Matching.thy ===== *)
theory Matching
  imports Similarity Aliases PyTime "HOL-Library.Product_Lexorder"
begin

text \<open>
  The event matchers of \<^verbatim>\<open>app/resolution/matching.py\<close>: the strict matcher and the hardened one with its
  review tap.  An alias table is used only through its \<open>canonical\<close> function, the argument \<open>canon\<close>.
  The similarities are read through \<open>val\<close>: they never raise on names shorter than \<open>2 ^ 53\<close>.
\<close>

subsection \<open>Candidates\<close>

record event_candidate =
  ref :: string
  home :: string
  away :: string
  kickoff :: time

definition seconds_apart :: "time \<Rightarrow> time \<Rightarrow> pyfloat" where
  "seconds_apart a b = f_abs (total_seconds (a - b))"

definition within_minutes :: "time \<Rightarrow> time \<Rightarrow> int \<Rightarrow> bool" where
  "within_minutes a b minutes = (\<not> float_gt_int (seconds_apart a b) (minutes * 60))"

definition same_day_window :: "time \<Rightarrow> time \<Rightarrow> int \<Rightarrow> bool" where
  "same_day_window a b max_day_drift = (\<bar>day_of a - day_of b\<bar> \<le> max_day_drift)"

definition fin_val :: "pyfloat \<Rightarrow> rat" where
  "fin_val f = (case f of Fin x \<Rightarrow> x | _ \<Rightarrow> 0)"

text \<open>The key both matchers rank by: distance in time, then the reference.\<close>

definition near_key :: "time \<Rightarrow> event_candidate \<Rightarrow> rat \<times> string" where
  "near_key t c = (fin_val (seconds_apart (kickoff c) t), ref c)"

subsection \<open>The strict matcher\<close>

definition match_event :: "(string \<Rightarrow> string) \<Rightarrow> string \<Rightarrow> string \<Rightarrow> time \<Rightarrow> event_candidate list \<Rightarrow> int \<Rightarrow> int \<Rightarrow> bool
    \<Rightarrow> event_candidate option" where
  "match_event canon h a t candidates max_day_drift max_minute_drift ordered =
     (let th = canon h; ta = canon a in
      if th = [] \<or> ta = [] then None
      else if th = ta then None
      else let matched = filter (\<lambda>c.
             same_day_window t (kickoff c) max_day_drift
             \<and> within_minutes (kickoff c) t max_minute_drift
             \<and> (let ch = canon (home c); ca = canon (away c) in
                ch \<noteq> [] \<and> ca \<noteq> []
                \<and> (if ordered then ch = th \<and> ca = ta else {ch, ca} = {th, ta}))) candidates in
        if matched = [] then None
        else if length (remdups (map ref matched)) > 1 then None
        else Some (arg_min_list (near_key t) matched))"

subsection \<open>Name acceptance\<close>

definition val :: "pyfloat res \<Rightarrow> pyfloat" where
  "val r = (case r of Inr f \<Rightarrow> f | Inl _ \<Rightarrow> NaN)"

definition jw :: "string \<Rightarrow> string \<Rightarrow> pyfloat" where "jw a b = val (jaro_winkler a b)"

definition jw_accept :: pyfloat where "jw_accept = f64 (92 / 100)"
definition token_sort_accept :: pyfloat where "token_sort_accept = Fin 90"
definition jw_review_floor :: pyfloat where "jw_review_floor = f64 (84 / 100)"
definition ambiguity_margin :: pyfloat where "ambiguity_margin = f64 (4 / 100)"
definition accept_minute_drift :: int where "accept_minute_drift = 360"
definition duplicate_capture_seconds :: int where "duplicate_capture_seconds = accept_minute_drift * 60"

definition disambiguating_tokens :: "string list" where
  "disambiguating_tokens = [''united'', ''city'', ''town'', ''rovers'', ''athletic'', ''atletico'', ''wanderers'',
     ''albion'', ''county'', ''sociedad'', ''real'', ''inter'', ''internazionale'', ''sporting'', ''racing'',
     ''dynamo'', ''dinamo'', ''lokomotiv'', ''spartak'', ''zenit'', ''central'', ''nacional'', ''junior'', ''juniors'',
     ''north'', ''south'', ''east'', ''west'', ''b'', ''ii'']"

definition tennis_initial :: "string \<Rightarrow> char option" where
  "tennis_initial name = (let tokens = split_ws name in
     if length tokens < 2 then None
     else case last tokens of [c] \<Rightarrow> if is_alpha c then Some c else None | _ \<Rightarrow> None)"

definition initials_clash :: "string \<Rightarrow> string \<Rightarrow> bool" where
  "initials_clash a b = (case (tennis_initial a, tennis_initial b) of (Some x, Some y) \<Rightarrow> x \<noteq> y | _ \<Rightarrow> False)"

definition token_diff :: "string \<Rightarrow> string \<Rightarrow> string set" where
  "token_diff a b = (set (split_ws a) - set (split_ws b)) \<union> (set (split_ws b) - set (split_ws a))"

definition clubs_clash :: "string \<Rightarrow> string \<Rightarrow> bool" where
  "clubs_clash a b = (token_diff a b \<noteq> {} \<and> token_diff a b \<subseteq> set disambiguating_tokens)"

definition base_name_ok :: "string \<Rightarrow> string \<Rightarrow> bool" where
  "base_name_ok a b =
     (if a = [] \<or> b = [] then False
      else if a = b then True
      else if initials_clash a b then False
      else if clubs_clash a b then False
      else let j = jw a b in
        if f_lt j jw_review_floor then False
        else f_le jw_accept j \<and> f_le token_sort_accept (val (token_sort_ratio a b)))"

datatype side_status = Side_Ok | Jw_Below_Accept | Token_Sort_Below_Accept

definition review_side_status :: "string \<Rightarrow> string \<Rightarrow> side_status option" where
  "review_side_status a b =
     (if a = [] \<or> b = [] then None
      else if a = b then Some Side_Ok
      else if initials_clash a b then None
      else if clubs_clash a b then None
      else let j = jw a b in
        if f_lt j jw_review_floor then None
        else if f_le jw_accept j
          then Some (if f_le token_sort_accept (val (token_sort_ratio a b)) then Side_Ok else Token_Sort_Below_Accept)
        else Some Jw_Below_Accept)"

definition leagues_agree :: "string option \<Rightarrow> string option \<Rightarrow> bool" where
  "leagues_agree league cand_league = (case (league, cand_league) of
     (Some l, Some c) \<Rightarrow> l = [] \<or> c = [] \<or> normalize_name l = normalize_name c
   | _ \<Rightarrow> True)"

definition present :: "string option \<Rightarrow> bool" where
  "present league = (case league of Some l \<Rightarrow> l \<noteq> [] | None \<Rightarrow> False)"

definition pair_score :: "string \<Rightarrow> string \<Rightarrow> string \<Rightarrow> string \<Rightarrow> pyfloat" where
  "pair_score a1 a2 b1 b2 = f_add (jw a1 b1) (jw a2 b2)"

subsection \<open>Marker compatibility\<close>

definition markers_conflict :: "string \<Rightarrow> string \<Rightarrow> string \<Rightarrow> string \<Rightarrow> bool" where
  "markers_conflict h a ch ca =
     (distinguishing_markers h \<noteq> distinguishing_markers ch \<or> distinguishing_markers a \<noteq> distinguishing_markers ca)"

text \<open>The curated roster of the seed file, normalized; invalid or duplicate entries empty it.\<close>

definition confirmed_canonicals :: "string list option \<Rightarrow> string set" where
  "confirmed_canonicals roster = (case roster of
     None \<Rightarrow> {}
   | Some teams \<Rightarrow> (let cs = map normalize_name teams in
       if cs = [] \<or> [] \<in> set cs \<or> \<not> distinct cs then {} else set cs))"

definition has_literal_w_marker :: "string \<Rightarrow> bool" where
  "has_literal_w_marker name = (''w'' \<in> set (split_ws (normalize_name name)))"

text \<open>One side of the exception: the canonical it resolves to and whether the markers differ, or a refusal.\<close>

definition w_side :: "(string \<Rightarrow> string) \<Rightarrow> string set \<Rightarrow> string \<Rightarrow> string \<Rightarrow> (string \<times> bool) option" where
  "w_side canon roster q c =
     (let qm = distinguishing_markers q; cm = distinguishing_markers c in
      if (qm \<union> cm) - {Women} \<noteq> {} then None
      else if qm \<noteq> cm \<and> (((qm - cm) \<union> (cm - qm)) \<noteq> {Women}
             \<or> \<not> has_literal_w_marker (if Women \<in> qm then q else c)) then None
      else if canon q \<noteq> canon c \<or> canon q \<notin> roster then None
      else Some (canon q, qm \<noteq> cm))"

definition wnba_exception :: "(string \<Rightarrow> string) \<Rightarrow> string set \<Rightarrow> string \<Rightarrow> string \<Rightarrow> string \<Rightarrow> string \<Rightarrow> bool" where
  "wnba_exception canon roster h a ch ca =
     (case (w_side canon roster h ch, w_side canon roster a ca) of
        (Some (x, dx), Some (y, dy)) \<Rightarrow> (dx \<or> dy) \<and> x \<noteq> y
      | _ \<Rightarrow> False)"

definition fixture_markers_compatible :: "(string \<Rightarrow> string) \<Rightarrow> string set \<Rightarrow> string \<Rightarrow> string \<Rightarrow> string \<Rightarrow> string \<Rightarrow> bool" where
  "fixture_markers_compatible canon roster h a ch ca =
     (if \<not> markers_conflict h a ch ca then True else wnba_exception canon roster h a ch ca)"

subsection \<open>The hardened matcher\<close>

record match_query =
  q_home :: string
  q_away :: string
  q_kickoff :: time
  q_ordered :: bool
  q_league :: "string option"
  q_cand_leagues :: "string \<rightharpoonup> string"
  q_fetch_minutes :: int
  q_accept_minutes :: int
  q_allow_flip :: bool

datatype match_method = Exact_Canonical | Jw_Two_Tier

record match_outcome =
  oc_candidate :: event_candidate
  oc_confidence :: pyfloat
  oc_method :: match_method

datatype review_reason = R_Jw_Below_Accept | R_Token_Sort_Below_Accept | R_Ambiguity_Margin | R_Kickoff_Drift | R_Same_Teams_Split

record review_candidate =
  rv_candidate :: event_candidate
  rv_confidence :: pyfloat
  rv_reason :: review_reason
  rv_bases :: "(string \<times> string) \<times> (string \<times> string)"
  rv_jw :: "pyfloat \<times> pyfloat"
  rv_token_sort :: "pyfloat \<times> pyfloat"
  rv_delta :: pyfloat

type_synonym scored = "pyfloat \<times> event_candidate \<times> bool"

definition base_of :: "(string \<Rightarrow> string) \<Rightarrow> string \<Rightarrow> string" where
  "base_of canon name = canon (strip_markers name)"

definition oriented_bases :: "(string \<Rightarrow> string) \<Rightarrow> event_candidate \<Rightarrow> bool \<Rightarrow> string \<times> string" where
  "oriented_bases canon c swapped =
     (let h = base_of canon (home c); a = base_of canon (away c) in if swapped then (a, h) else (h, a))"

definition min_side_jw :: "string \<Rightarrow> string \<Rightarrow> string \<times> string \<Rightarrow> pyfloat" where
  "min_side_jw bh ba bases = f_min (jw bh (fst bases)) (jw ba (snd bases))"

definition review_of :: "match_query \<Rightarrow> string \<Rightarrow> string \<Rightarrow> string \<times> string \<Rightarrow> event_candidate \<Rightarrow> review_reason \<Rightarrow> review_candidate" where
  "review_of q bh ba bases c reason =
     \<lparr>rv_candidate = c, rv_confidence = min_side_jw bh ba bases, rv_reason = reason, rv_bases = ((bh, ba), bases),
      rv_jw = (round_places 4 (jw bh (fst bases)), round_places 4 (jw ba (snd bases))),
      rv_token_sort = (round_places 2 (val (token_sort_ratio bh (fst bases))), round_places 2 (val (token_sort_ratio ba (snd bases)))),
      rv_delta = seconds_apart (kickoff c) (q_kickoff q)\<rparr>"

text \<open>What happens to one candidate: it enters the scored list in one orientation, or is put up for
  review, or is dropped.\<close>

datatype candidate_class = Scored pyfloat bool | Review review_reason | Dropped

definition classify :: "(string \<Rightarrow> string) \<Rightarrow> string set \<Rightarrow> match_query \<Rightarrow> string \<Rightarrow> string \<Rightarrow> event_candidate \<Rightarrow> candidate_class" where
  "classify canon roster q bh ba c =
     (let cl = q_cand_leagues q (ref c); ch = base_of canon (home c); ca = base_of canon (away c) in
      if \<not> within_minutes (kickoff c) (q_kickoff q) (q_fetch_minutes q) then Dropped
      else if \<not> leagues_agree (q_league q) cl then Dropped
      else if canon (home c) = canon (away c) then Dropped
      else if fixture_markers_compatible canon roster (q_home q) (q_away q) (home c) (away c)
           \<and> base_name_ok bh ch \<and> base_name_ok ba ca
        then Scored (pair_score bh ba ch ca) False
      else if (\<not> q_ordered q \<or> (q_allow_flip q \<and> present (q_league q) \<and> present cl))
           \<and> fixture_markers_compatible canon roster (q_home q) (q_away q) (away c) (home c)
           \<and> base_name_ok bh ca \<and> base_name_ok ba ch
        then Scored (pair_score bh ba ca ch) True
      else if fixture_markers_compatible canon roster (q_home q) (q_away q) (home c) (away c)
        then (case (review_side_status bh ch, review_side_status ba ca) of
                (Some sh, Some sa) \<Rightarrow>
                  if sh = Side_Ok \<and> sa = Side_Ok then Dropped
                  else Review (if sh = Jw_Below_Accept \<or> sa = Jw_Below_Accept then R_Jw_Below_Accept else R_Token_Sort_Below_Accept)
              | _ \<Rightarrow> Dropped)
      else Dropped)"

definition scored_of :: "(event_candidate \<Rightarrow> candidate_class) \<Rightarrow> event_candidate list \<Rightarrow> scored list" where
  "scored_of cls cs = List.map_filter (\<lambda>c. case cls c of Scored s sw \<Rightarrow> Some (s, c, sw) | _ \<Rightarrow> None) cs"

definition reviews_of :: "(event_candidate \<Rightarrow> candidate_class) \<Rightarrow> (event_candidate \<Rightarrow> review_reason \<Rightarrow> review_candidate) \<Rightarrow>
    event_candidate list \<Rightarrow> review_candidate list" where
  "reviews_of cls mk cs = List.map_filter (\<lambda>c. case cls c of Review r \<Rightarrow> Some (mk c r) | _ \<Rightarrow> None) cs"

definition same_fixture :: "(string \<Rightarrow> string) \<Rightarrow> event_candidate \<Rightarrow> event_candidate \<Rightarrow> bool" where
  "same_fixture canon x y = (canon (home x) = canon (home y) \<and> canon (away x) = canon (away y))"

definition rank_key :: "time \<Rightarrow> scored \<Rightarrow> rat \<times> rat \<times> string" where
  "rank_key t s = (- fin_val (fst s), near_key t (fst (snd s)))"

text \<open>The first distinct fixture behind the best, when it is within the margin.\<close>

fun margin_rival :: "(string \<Rightarrow> string) \<Rightarrow> scored \<Rightarrow> scored list \<Rightarrow> scored option" where
  "margin_rival canon best [] = None"
| "margin_rival canon best (r # rs) =
     (if same_fixture canon (fst (snd r)) (fst (snd best)) then margin_rival canon best rs
      else if f_lt (f_sub (fst best) (fst r)) ambiguity_margin then Some r
      else None)"

definition kickoff_split :: "(string \<Rightarrow> string) \<Rightarrow> scored \<Rightarrow> scored list \<Rightarrow> bool" where
  "kickoff_split canon best rs = list_ex (\<lambda>r. same_fixture canon (fst (snd r)) (fst (snd best))
     \<and> float_gt_int (seconds_apart (kickoff (fst (snd r))) (kickoff (fst (snd best)))) duplicate_capture_seconds) rs"

definition accept :: "(string \<Rightarrow> string) \<Rightarrow> string \<Rightarrow> string \<Rightarrow> scored \<Rightarrow> match_outcome" where
  "accept canon bh ba best =
     (let bases = oriented_bases canon (fst (snd best)) (snd (snd best)) in
      if bh = fst bases \<and> ba = snd bases
      then \<lparr>oc_candidate = fst (snd best), oc_confidence = Fin 1, oc_method = Exact_Canonical\<rparr>
      else \<lparr>oc_candidate = fst (snd best), oc_confidence = f_min (Fin 1) (f_max (Fin 0) (min_side_jw bh ba bases)),
            oc_method = Jw_Two_Tier\<rparr>)"

text \<open>The decision among the candidates inside the accept window.\<close>

definition decide :: "(string \<Rightarrow> string) \<Rightarrow> match_query \<Rightarrow> string \<Rightarrow> string \<Rightarrow> scored list \<Rightarrow> match_outcome option \<times> review_candidate list" where
  "decide canon q bh ba eligible =
     (case sort_key (rank_key (q_kickoff q)) eligible of
        [] \<Rightarrow> (None, [])
      | best # rest \<Rightarrow>
          let rv = (\<lambda>s reason. review_of q bh ba (oriented_bases canon (fst (snd s)) (snd (snd s))) (fst (snd s)) reason) in
          (case margin_rival canon best rest of
             Some r \<Rightarrow> (None, [rv best R_Ambiguity_Margin, rv r R_Ambiguity_Margin])
           | None \<Rightarrow>
               if kickoff_split canon best rest then (None, [rv best R_Same_Teams_Split])
               else (Some (accept canon bh ba best), [])))"

definition in_accept_window :: "match_query \<Rightarrow> event_candidate \<Rightarrow> bool" where
  "in_accept_window q c = within_minutes (kickoff c) (q_kickoff q) (q_accept_minutes q)"

definition match_event_hardened_scored :: "(string \<Rightarrow> string) \<Rightarrow> string set \<Rightarrow> match_query \<Rightarrow> event_candidate list \<Rightarrow>
    match_outcome option \<times> review_candidate list" where
  "match_event_hardened_scored canon roster q candidates =
     (let th = canon (q_home q); ta = canon (q_away q) in
      if th = [] \<or> ta = [] \<or> th = ta then (None, [])
      else let bh = base_of canon (q_home q); ba = base_of canon (q_away q);
               cls = classify canon roster q bh ba;
               scored = scored_of cls candidates;
               taps = reviews_of cls (\<lambda>c. review_of q bh ba (oriented_bases canon c False) c) candidates in
        if scored = [] then (None, taps)
        else let eligible = filter (\<lambda>s. in_accept_window q (fst (snd s))) scored in
          if eligible = []
          then let d = arg_min_list (\<lambda>s. - fin_val (fst s)) scored in
            (None, taps @ [review_of q bh ba (oriented_bases canon (fst (snd d)) (snd (snd d))) (fst (snd d)) R_Kickoff_Drift])
          else case decide canon q bh ba eligible of (outcome, extra) \<Rightarrow> (outcome, taps @ extra))"

definition match_event_hardened :: "(string \<Rightarrow> string) \<Rightarrow> string set \<Rightarrow> match_query \<Rightarrow> event_candidate list \<Rightarrow> event_candidate option" where
  "match_event_hardened canon roster q candidates =
     map_option oc_candidate (fst (match_event_hardened_scored canon roster q candidates))"

end
