(* ===== verification/MatchFacts.thy ===== *)
theory MatchFacts
  imports Matching
begin

text \<open>
  Correctness of the event matchers: the strict matcher returns the one reference its candidates agree
  on, nothing when they disagree, and sees team names only through their normal form; the hardened
  matcher returns a candidate that passed every guard and has no rival inside the margin, and its
  decision does not depend on the order of the candidates or on the ones outside the accept window.
\<close>

subsection \<open>The strict matcher\<close>

text \<open>What the strict matcher asks of one candidate.\<close>

definition same_teams :: "(string \<Rightarrow> string) \<Rightarrow> bool \<Rightarrow> string \<Rightarrow> string \<Rightarrow> event_candidate \<Rightarrow> bool" where
  "same_teams canon ordered h a c =
     (canon (home c) = canon h \<and> canon (away c) = canon a
      \<or> \<not> ordered \<and> canon (home c) = canon a \<and> canon (away c) = canon h)"

definition strict_hit :: "(string \<Rightarrow> string) \<Rightarrow> string \<Rightarrow> string \<Rightarrow> time \<Rightarrow> int \<Rightarrow> int \<Rightarrow> bool \<Rightarrow> event_candidate \<Rightarrow> bool" where
  "strict_hit canon h a t days minutes ordered c =
     (same_day_window t (kickoff c) days \<and> within_minutes (kickoff c) t minutes \<and> same_teams canon ordered h a c)"

definition two_teams :: "(string \<Rightarrow> string) \<Rightarrow> string \<Rightarrow> string \<Rightarrow> bool" where
  "two_teams canon h a = (canon h \<noteq> [] \<and> canon a \<noteq> [] \<and> canon h \<noteq> canon a)"

lemma strict_hits:
  assumes "two_teams canon h a"
  shows "match_event canon h a t cs days minutes ordered =
    (let hits = filter (strict_hit canon h a t days minutes ordered) cs in
     if hits = [] \<or> length (remdups (map ref hits)) > 1 then None else Some (arg_min_list (near_key t) hits))"
proof -
  have *: "(same_day_window t (kickoff c) days \<and> within_minutes (kickoff c) t minutes
        \<and> (let ch = canon (home c); ca = canon (away c) in ch \<noteq> [] \<and> ca \<noteq> []
           \<and> (if ordered then ch = canon h \<and> ca = canon a else {ch, ca} = {canon h, canon a})))
      = strict_hit canon h a t days minutes ordered c" for c
    using assms by (auto simp: strict_hit_def same_teams_def two_teams_def Let_def doubleton_eq_iff)
  show ?thesis using assms unfolding match_event_def Let_def * [unfolded Let_def] by (auto simp: two_teams_def)
qed

lemma strict_degenerate: "\<not> two_teams canon h a \<Longrightarrow> match_event canon h a t cs days minutes ordered = None"
  by (auto simp: match_event_def two_teams_def Let_def)

lemma one_ref: "length (remdups (map ref cs)) > 1 \<longleftrightarrow> (\<exists>x \<in> set cs. \<exists>y \<in> set cs. ref x \<noteq> ref y)"
proof -
  have "length (remdups (map ref cs)) = card (ref ` set cs)" by (simp add: length_remdups_card_conv)
  moreover have "card S > 1 \<longleftrightarrow> (\<exists>x \<in> S. \<exists>y \<in> S. x \<noteq> y)" if "finite S" for S :: "string set"
    using that by (metis One_nat_def card_le_Suc0_iff_eq not_less)
  ultimately show ?thesis by auto
qed

text \<open>The strict matcher returns a candidate exactly when the query names two different teams, some
  candidate of those teams lies in both time windows and all such candidates carry one reference; the
  one returned is such a candidate and none of them is nearer in time.\<close>

theorem match_event_correct:
  "(case match_event canon h a t cs days minutes ordered of
      None \<Rightarrow> \<not> two_teams canon h a
        \<or> (\<forall>c \<in> set cs. \<not> strict_hit canon h a t days minutes ordered c)
        \<or> (\<exists>x \<in> set cs. \<exists>y \<in> set cs. strict_hit canon h a t days minutes ordered x
              \<and> strict_hit canon h a t days minutes ordered y \<and> ref x \<noteq> ref y)
    | Some c \<Rightarrow> two_teams canon h a \<and> c \<in> set cs \<and> strict_hit canon h a t days minutes ordered c
        \<and> (\<forall>x \<in> set cs. strict_hit canon h a t days minutes ordered x \<longrightarrow>
              ref x = ref c \<and> near_key t c \<le> near_key t x))"
proof (cases "two_teams canon h a")
  case False
  then show ?thesis by (simp add: strict_degenerate)
next
  case True
  define hits where "hits = filter (strict_hit canon h a t days minutes ordered) cs"
  note eq = strict_hits [OF True, of t cs days minutes ordered, folded hits_def, unfolded Let_def]
  show ?thesis
  proof (cases "hits = [] \<or> length (remdups (map ref hits)) > 1")
    case None: True
    then have "match_event canon h a t cs days minutes ordered = None" by (simp add: eq)
    moreover have "(\<forall>c \<in> set cs. \<not> strict_hit canon h a t days minutes ordered c)
        \<or> (\<exists>x \<in> set hits. \<exists>y \<in> set hits. ref x \<noteq> ref y)"
      using None one_ref [of hits] by (auto simp: hits_def filter_empty_conv)
    ultimately show ?thesis by (auto simp: hits_def)
  next
    case False
    then have r: "match_event canon h a t cs days minutes ordered = Some (arg_min_list (near_key t) hits)" by (simp add: eq)
    have m: "arg_min_list (near_key t) hits \<in> set hits" using False by (intro arg_min_list_in) simp
    have near: "near_key t (arg_min_list (near_key t) hits) \<le> near_key t x" if "x \<in> set hits" for x
    proof -
      have "hits \<noteq> []" using False by blast
      then have "near_key t (arg_min_list (near_key t) hits) = Min (near_key t ` set hits)" by (rule f_arg_min_list_f)
      moreover have "Min (near_key t ` set hits) \<le> near_key t x" by (rule Min_le) (use that in blast)+
      ultimately show ?thesis by (simp only:)
    qed
    have same: "ref x = ref (arg_min_list (near_key t) hits)" if "x \<in> set hits" for x
      using that m False one_ref [of hits] by blast
    have "x \<in> set hits \<longleftrightarrow> x \<in> set cs \<and> strict_hit canon h a t days minutes ordered x" for x by (simp add: hits_def)
    then show ?thesis using m True near same unfolding r option.case by blast
  qed
qed

lemma zero_apart: "within_minutes x x n \<longleftrightarrow> 0 \<le> n" "same_day_window x x d \<longleftrightarrow> 0 \<le> d"
  using total_seconds_whole [of 0]
  by (auto simp: within_minutes_def seconds_apart_def float_gt_int_def same_day_window_def)

text \<open>A fixture of one archive row, used to exercise the theorems.\<close>

definition derby_row :: event_candidate where
  "derby_row = \<lparr>ref = ''e1'', home = ''Arsenal'', away = ''Chelsea FC'', kickoff = 0\<rparr>"

lemma derby_names:
  "normalize_name ''FC Arsenal'' = ''arsenal''" "normalize_name ''Chelsea'' = ''chelsea''"
  "normalize_name ''Arsenal'' = ''arsenal''" "normalize_name ''Chelsea FC'' = ''chelsea''"
  by code_simp+

lemma derby_hit:
  "two_teams normalize_name ''FC Arsenal'' ''Chelsea''"
  "strict_hit normalize_name ''FC Arsenal'' ''Chelsea'' 0 0 0 True derby_row"
  by (simp_all add: two_teams_def strict_hit_def same_teams_def derby_names zero_apart derby_row_def)

lemma match_event_correct_witness:
  "\<exists>c. match_event normalize_name ''FC Arsenal'' ''Chelsea'' 0 [derby_row] 0 0 True = Some c \<and> ref c = ''e1''"
proof -
  note * = match_event_correct [where canon = normalize_name and h = "''FC Arsenal''" and a = "''Chelsea''" and t = 0
        and cs = "[derby_row]" and days = 0 and minutes = 0 and ordered = True]
  have r: "ref derby_row = ''e1''" by (simp add: derby_row_def)
  show ?thesis
    by (cases "match_event normalize_name ''FC Arsenal'' ''Chelsea'' 0 [derby_row] 0 0 True") (use * derby_hit r in simp_all)
qed

subsection \<open>Names matter through their normal form only\<close>

text \<open>Two candidates that differ at most in the spelling of their names.\<close>

definition respelled :: "event_candidate \<Rightarrow> event_candidate \<Rightarrow> bool" where
  "respelled c c' = (ref c = ref c' \<and> kickoff c = kickoff c'
     \<and> normalize_name (home c) = normalize_name (home c') \<and> normalize_name (away c) = normalize_name (away c'))"

lemma list_all2_filter:
  "list_all2 R xs ys \<Longrightarrow> (\<And>x y. R x y \<Longrightarrow> P x = Q y) \<Longrightarrow> list_all2 R (filter P xs) (filter Q ys)"
  by (induction rule: list_all2_induct) auto

lemma arg_min_list_rel:
  "list_all2 R xs ys \<Longrightarrow> xs \<noteq> [] \<Longrightarrow> (\<And>x y. R x y \<Longrightarrow> f x = g y) \<Longrightarrow> R (arg_min_list f xs) (arg_min_list g ys)"
proof (induction f xs arbitrary: ys rule: arg_min_list.induct)
  case (1 f x)
  then show ?case by (auto simp: list_all2_Cons1)
next
  case (2 f x y zs)
  then obtain x' y' zs' where ys: "ys = x' # y' # zs'" "R x x'" "list_all2 R (y # zs) (y' # zs')"
    by (auto simp: list_all2_Cons1)
  have m: "R (arg_min_list f (y # zs)) (arg_min_list g (y' # zs'))" using 2 ys by simp
  show ?case using "2.prems"(3) [OF m] "2.prems"(3) [OF ys(2)] m ys by (auto simp: Let_def)
qed simp

lemma list_all2_map_eq: "list_all2 R xs ys \<Longrightarrow> (\<And>x y. R x y \<Longrightarrow> f x = g y) \<Longrightarrow> map f xs = map g ys"
  by (induction rule: list_all2_induct) auto

context canonicalizer
begin

lemma two_teams_cong:
  "normalize_name h = normalize_name h' \<Longrightarrow> normalize_name a = normalize_name a' \<Longrightarrow> two_teams canon h a = two_teams canon h' a'"
  by (simp add: two_teams_def canon_cong [of h h'] canon_cong [of a a'])

lemma strict_hit_cong:
  assumes "normalize_name h = normalize_name h'" "normalize_name a = normalize_name a'" "respelled c c'"
  shows "strict_hit canon h a t days minutes ordered c = strict_hit canon h' a' t days minutes ordered c'"
  using assms by (simp add: strict_hit_def same_teams_def respelled_def canon_cong [of h h'] canon_cong [of a a']
      canon_cong [of "home c" "home c'"] canon_cong [of "away c" "away c'"])

lemma match_event_cong:
  assumes "normalize_name h = normalize_name h'" "normalize_name a = normalize_name a'" "list_all2 respelled cs cs'"
  shows "rel_option respelled (match_event canon h a t cs days minutes ordered) (match_event canon h' a' t cs' days minutes ordered)"
proof (cases "two_teams canon h a")
  case False
  then show ?thesis using two_teams_cong [OF assms(1, 2)] by (simp add: strict_degenerate)
next
  case True
  define P where "P = filter (strict_hit canon h a t days minutes ordered) cs"
  define Q where "Q = filter (strict_hit canon h' a' t days minutes ordered) cs'"
  have rel: "list_all2 respelled P Q"
    unfolding P_def Q_def using assms strict_hit_cong by (intro list_all2_filter) auto
  have refs: "map ref P = map ref Q" by (rule list_all2_map_eq [OF rel]) (simp add: respelled_def)
  have empty: "P = [] \<longleftrightarrow> Q = []" using rel by auto
  have best: "P \<noteq> [] \<Longrightarrow> respelled (arg_min_list (near_key t) P) (arg_min_list (near_key t) Q)"
    by (rule arg_min_list_rel [OF rel]) (simp_all add: respelled_def near_key_def)
  show ?thesis
    using True two_teams_cong [OF assms(1, 2)] refs empty best
    by (auto simp: strict_hits Let_def simp flip: P_def Q_def)
qed

lemma match_event_swap:
  "match_event canon h a t cs days minutes False = match_event canon a h t cs days minutes False"
proof -
  have "strict_hit canon h a t days minutes False = strict_hit canon a h t days minutes False"
    by (auto simp: strict_hit_def same_teams_def)
  moreover have "two_teams canon h a = two_teams canon a h" by (auto simp: two_teams_def)
  ultimately show ?thesis by (cases "two_teams canon h a") (simp_all add: strict_hits strict_degenerate)
qed

end

text \<open>Under any alias table the strict matcher gives the same answer, up to spelling, when the query or any
  candidate spells a name differently with the same normal form; for unordered events the two sides of
  the query can be exchanged.\<close>

theorem match_event_spelling:
  assumes "normalize_name h = normalize_name h'" "normalize_name a = normalize_name a'" "list_all2 respelled cs cs'"
  shows "rel_option respelled (match_event (canonical (build_table cl)) h a t cs days minutes ordered)
      (match_event (canonical (build_table cl)) h' a' t cs' days minutes ordered)
    \<and> match_event (canonical (build_table cl)) h a t cs days minutes False
      = match_event (canonical (build_table cl)) a h t cs days minutes False"
  using table.match_event_cong [OF assms] table.match_event_swap by blast

lemma match_event_spelling_witness:
  "rel_option respelled
     (match_event (canonical (build_table [])) ''FC Arsenal'' ''Chelsea'' 0
        [\<lparr>ref = ''e1'', home = ''Arsenal'', away = ''Chelsea FC'', kickoff = 0\<rparr>] 0 0 True)
     (match_event (canonical (build_table [])) ''Arsenal'' ''Chelsea FC'' 0
        [\<lparr>ref = ''e1'', home = ''FC Arsenal'', away = ''Chelsea'', kickoff = 0\<rparr>] 0 0 True)"
proof (rule match_event_spelling [THEN conjunct1])
  have c: "normalize_name ''FC Arsenal'' = ''arsenal''" "normalize_name ''Chelsea'' = ''chelsea''"
      "normalize_name ''Arsenal'' = ''arsenal''" "normalize_name ''Chelsea FC'' = ''chelsea''" by code_simp+
  show "normalize_name ''FC Arsenal'' = normalize_name ''Arsenal''" by (simp only: c)
  show "normalize_name ''Chelsea'' = normalize_name ''Chelsea FC''" by (simp only: c)
  show "list_all2 respelled [\<lparr>ref = ''e1'', home = ''Arsenal'', away = ''Chelsea FC'', kickoff = 0\<rparr>]
      [\<lparr>ref = ''e1'', home = ''FC Arsenal'', away = ''Chelsea'', kickoff = 0\<rparr>]"
    by (simp only: list_all2_Cons list_all2_Nil respelled_def event_candidate.simps c simp_thms)
qed

subsection \<open>The hardened matcher: what an accepted candidate has passed\<close>

text \<open>The similarity of two names of realistic length is a float in the unit interval.\<close>

definition short_name :: "string \<Rightarrow> bool" where "short_name s = (length s < 2 ^ 53)"

lemma jw_in: "short_name a \<Longrightarrow> short_name b \<Longrightarrow> float_in (jw a b) 1"
  using jaro_winkler_total [of a b] by (auto simp: short_name_def jw_def val_def)

lemma is_f64_2: "is_f64 2" using is_f64_of_int [of 2] by simp

lemma pair_score_in:
  assumes "short_name a" "short_name b" "short_name c" "short_name d" shows "float_in (pair_score a b c d) 2"
  using float_in_add [OF jw_in [OF assms(1, 3)] jw_in [OF assms(2, 4)]] is_f64_2 by (simp add: pair_score_def)


text \<open>The guards of one candidate in one orientation.\<close>

definition flip_allowed :: "match_query \<Rightarrow> event_candidate \<Rightarrow> bool" where
  "flip_allowed q c = (\<not> q_ordered q \<or> q_allow_flip q \<and> present (q_league q) \<and> present (q_cand_leagues q (ref c)))"

definition passes_guards :: "(string \<Rightarrow> string) \<Rightarrow> string set \<Rightarrow> match_query \<Rightarrow> event_candidate \<Rightarrow> bool \<Rightarrow> bool" where
  "passes_guards canon roster q c swapped =
     (let h = if swapped then away c else home c; a = if swapped then home c else away c in
      within_minutes (kickoff c) (q_kickoff q) (q_fetch_minutes q)
      \<and> leagues_agree (q_league q) (q_cand_leagues q (ref c))
      \<and> canon (home c) \<noteq> canon (away c)
      \<and> (swapped \<longrightarrow> flip_allowed q c)
      \<and> fixture_markers_compatible canon roster (q_home q) (q_away q) h a
      \<and> base_name_ok (base_of canon (q_home q)) (base_of canon h)
      \<and> base_name_ok (base_of canon (q_away q)) (base_of canon a))"

definition query_class :: "(string \<Rightarrow> string) \<Rightarrow> string set \<Rightarrow> match_query \<Rightarrow> event_candidate \<Rightarrow> candidate_class" where
  "query_class canon roster q = classify canon roster q (base_of canon (q_home q)) (base_of canon (q_away q))"

definition query_score :: "(string \<Rightarrow> string) \<Rightarrow> match_query \<Rightarrow> event_candidate \<Rightarrow> bool \<Rightarrow> pyfloat" where
  "query_score canon q c swapped = (let bases = oriented_bases canon c swapped in
     pair_score (base_of canon (q_home q)) (base_of canon (q_away q)) (fst bases) (snd bases))"

lemma classify_Scored:
  assumes "query_class canon roster q c = Scored s sw"
  shows "passes_guards canon roster q c sw \<and> s = query_score canon q c sw"
  using assms unfolding query_class_def classify_def Let_def
  by (auto simp: passes_guards_def flip_allowed_def query_score_def oriented_bases_def Let_def
      split: if_splits option.splits)

text \<open>The decision works on the scored candidates inside the accept window, and on nothing else.\<close>

definition in_play :: "(string \<Rightarrow> string) \<Rightarrow> string set \<Rightarrow> match_query \<Rightarrow> event_candidate list \<Rightarrow> scored list" where
  "in_play canon roster q cs = scored_of (query_class canon roster q) (filter (in_accept_window q) cs)"

lemma filter_scored_of: "filter (\<lambda>s. P (fst (snd s))) (scored_of cls cs) = scored_of cls (filter P cs)"
  by (induction cs) (auto simp: scored_of_def map_filter_simps split: candidate_class.splits)

lemma decide_Nil: "decide canon q bh ba [] = (None, [])" by (simp add: decide_def)

lemma hardened_decision:
  "fst (match_event_hardened_scored canon roster q cs) =
    (if two_teams canon (q_home q) (q_away q)
     then fst (decide canon q (base_of canon (q_home q)) (base_of canon (q_away q)) (in_play canon roster q cs))
     else None)"
proof -
  have "in_play canon roster q cs = []" if "scored_of (query_class canon roster q) cs = []"
    using that filter_scored_of [of "in_accept_window q" "query_class canon roster q" cs] by (simp add: in_play_def)
  then show ?thesis
    unfolding match_event_hardened_scored_def Let_def query_class_def [symmetric] filter_scored_of in_play_def [symmetric]
    by (auto simp: two_teams_def decide_Nil split: prod.splits)
qed

lemma in_scored_of: "(s, c, sw) \<in> set (scored_of cls cs) \<longleftrightarrow> c \<in> set cs \<and> cls c = Scored s sw"
  by (induction cs) (auto simp: scored_of_def map_filter_simps split: candidate_class.splits)

lemma in_in_play:
  "(s, c, sw) \<in> set (in_play canon roster q cs) \<longleftrightarrow>
     c \<in> set cs \<and> in_accept_window q c \<and> query_class canon roster q c = Scored s sw"
  by (auto simp: in_play_def in_scored_of)

text \<open>The ranking: better scores first, and a rival that survives the margin test keeps its distance.\<close>

lemma f_lt_le_trans: "f_le a b \<Longrightarrow> f_lt b m \<Longrightarrow> f_lt a m"
  by (cases a; cases b; cases m) (simp_all add: f_lt_def)

lemma margin_clear:
  assumes "margin_rival canon best rs = None" "fst best = Fin b"
    and "sorted (map (\<lambda>s. - fin_val (fst s)) rs)" "\<forall>s \<in> set rs. \<exists>x. fst s = Fin x" "r \<in> set rs"
    and "\<not> same_fixture canon (fst (snd r)) (fst (snd best))"
  shows "\<not> f_lt (f_sub (fst best) (fst r)) ambiguity_margin"
  using assms
proof (induction rs)
  case (Cons r' rs)
  show ?case
  proof (cases "same_fixture canon (fst (snd r')) (fst (snd best))")
    case True
    then show ?thesis using Cons by auto
  next
    case False
    then have far: "\<not> f_lt (f_sub (fst best) (fst r')) ambiguity_margin" using Cons.prems(1) by (simp split: if_splits)
    obtain x y where xy: "fst r' = Fin x" "fst r = Fin y" using Cons.prems by fastforce
    have "y \<le> x" using Cons.prems(3, 5) xy by (auto simp: fin_val_def)
    then have "f_le (f_sub (fst best) (fst r')) (f_sub (fst best) (fst r))"
      unfolding xy assms(2) f_sub_Fin by (intro f64_mono) simp
    then show ?thesis using far f_lt_le_trans by blast
  qed
qed simp

lemma sorted_scores: "sorted (map (rank_key t) xs) \<Longrightarrow> sorted (map (\<lambda>s. - fin_val (fst s)) xs)"
  by (induction xs) (auto simp: rank_key_def less_eq_prod_def)

lemma margin_rivalD:
  "margin_rival canon best rs = Some r \<Longrightarrow>
    r \<in> set rs \<and> \<not> same_fixture canon (fst (snd r)) (fst (snd best)) \<and> f_lt (f_sub (fst best) (fst r)) ambiguity_margin"
  by (induction rs) (auto split: if_splits)

definition too_close :: "(string \<Rightarrow> string) \<Rightarrow> scored \<Rightarrow> scored \<Rightarrow> bool" where
  "too_close canon best r =
     (if same_fixture canon (fst (snd r)) (fst (snd best))
      then float_gt_int (seconds_apart (kickoff (fst (snd r))) (kickoff (fst (snd best)))) duplicate_capture_seconds
      else f_lt (f_sub (fst best) (fst r)) ambiguity_margin)"

text \<open>The decision, as a rule: the best by rank is accepted when nothing is too close to it.\<close>

lemma decide_cases:
  assumes "sort_key (rank_key (q_kickoff q)) es = best # rest" "\<forall>s \<in> set es. \<exists>x. fst s = Fin x"
  shows "fst (decide canon q bh ba es) = (if list_ex (too_close canon best) rest then None else Some (accept canon bh ba best))"
proof -
  have set: "set es = insert best (set rest)" using assms(1) by (metis list.simps(15) set_sort)
  have srt: "sorted (map (\<lambda>s. - fin_val (fst s)) rest)"
    using sorted_scores [of "q_kickoff q" "best # rest"] sorted_sort_key [of "rank_key (q_kickoff q)" es]
    by (simp add: assms(1))
  obtain b where b: "fst best = Fin b" using assms(2) set by auto
  have fin: "\<forall>s \<in> set rest. \<exists>x. fst s = Fin x" using assms(2) set by auto
  show ?thesis
  proof (cases "margin_rival canon best rest")
    case (Some r)
    then have "list_ex (too_close canon best) rest" using margin_rivalD [OF Some] by (auto simp: list_ex_iff too_close_def)
    then show ?thesis using Some by (simp add: decide_def assms(1))
  next
    case None
    have "list_ex (too_close canon best) rest \<longleftrightarrow> kickoff_split canon best rest"
      using margin_clear [OF None b srt fin] by (auto simp: list_ex_iff too_close_def kickoff_split_def)
    then show ?thesis using None by (simp add: decide_def assms(1))
  qed
qed

subsection \<open>The hardened matcher: its decision\<close>

definition short_names :: "(string \<Rightarrow> string) \<Rightarrow> match_query \<Rightarrow> event_candidate list \<Rightarrow> bool" where
  "short_names canon q cs = (short_name (base_of canon (q_home q)) \<and> short_name (base_of canon (q_away q))
     \<and> list_all (\<lambda>c. short_name (base_of canon (home c)) \<and> short_name (base_of canon (away c))) cs)"

lemma short_oriented:
  "short_names canon q cs \<Longrightarrow> c \<in> set cs \<Longrightarrow>
    short_name (fst (oriented_bases canon c sw)) \<and> short_name (snd (oriented_bases canon c sw))"
  by (auto simp: short_names_def list_all_iff oriented_bases_def Let_def)

lemma query_score_in:
  "short_names canon q cs \<Longrightarrow> c \<in> set cs \<Longrightarrow> float_in (query_score canon q c sw) 2"
  using short_oriented [of canon q cs c sw] by (simp add: query_score_def Let_def pair_score_in short_names_def)

lemma in_play_fin: "short_names canon q cs \<Longrightarrow> \<forall>s \<in> set (in_play canon roster q cs). \<exists>x. fst s = Fin x"
proof
  fix e assume short: "short_names canon q cs" and e: "e \<in> set (in_play canon roster q cs)"
  obtain s c sw where scs: "e = (s, c, sw)" by (cases e) auto
  then have "c \<in> set cs" "s = query_score canon q c sw" using e in_in_play classify_Scored by blast+
  then have "float_in (fst e) 2" using query_score_in [OF short] scs by simp
  then show "\<exists>x. fst e = Fin x" by (auto elim: float_inE)
qed


lemma too_close_self: "\<not> too_close canon e e"
  using total_seconds_whole [of 0]
  by (simp add: too_close_def same_fixture_def seconds_apart_def float_gt_int_def duplicate_capture_seconds_def accept_minute_drift_def)

lemma hardened_cases:
  assumes "two_teams canon (q_home q) (q_away q)" "short_names canon q cs" "in_play canon roster q cs \<noteq> []"
  obtains best rest where "sort_key (rank_key (q_kickoff q)) (in_play canon roster q cs) = best # rest"
    "fst (match_event_hardened_scored canon roster q cs)
       = (if list_ex (too_close canon best) (in_play canon roster q cs) then None
          else Some (accept canon (base_of canon (q_home q)) (base_of canon (q_away q)) best))"
proof -
  obtain best rest where br: "sort_key (rank_key (q_kickoff q)) (in_play canon roster q cs) = best # rest"
    using assms(3) by (metis list.exhaust length_0_conv length_sort)
  have "set (in_play canon roster q cs) = insert best (set rest)" using br by (metis list.simps(15) set_sort)
  then have "list_ex (too_close canon best) (in_play canon roster q cs) = list_ex (too_close canon best) rest"
    by (auto simp: list_ex_iff too_close_self)
  then show ?thesis using that [OF br] assms(1) decide_cases [OF br in_play_fin [OF assms(2)]] hardened_decision by simp
qed


text \<open>The candidates in play, and so the outcome, do not depend on the order of the offers.\<close>

lemma scored_of_map: "scored_of cls cs = map (\<lambda>c. case cls c of Scored s sw \<Rightarrow> (s, c, sw) | _ \<Rightarrow> (NaN, c, False))
    (filter (\<lambda>c. case cls c of Scored _ _ \<Rightarrow> True | _ \<Rightarrow> False) cs)"
  by (induction cs) (auto simp: scored_of_def map_filter_simps split: candidate_class.splits)

lemma in_play_perm: "mset cs = mset cs' \<Longrightarrow> mset (in_play canon roster q cs) = mset (in_play canon roster q cs')"
  by (simp add: in_play_def scored_of_map)

lemma rank_key_inj:
  assumes "distinct (map ref cs)" shows "inj_on (rank_key t) (set (in_play canon roster q cs))"
proof (rule inj_onI)
  fix x y assume x: "x \<in> set (in_play canon roster q cs)" and y: "y \<in> set (in_play canon roster q cs)"
    and k: "rank_key t x = rank_key t y"
  obtain s c sw s' c' sw' where xy: "x = (s, c, sw)" "y = (s', c', sw')" by (cases x; cases y) auto
  have "ref c = ref c'" using k by (simp add: xy rank_key_def near_key_def)
  then have "c = c'" using assms x y unfolding xy in_in_play by (auto simp: distinct_map inj_on_def)
  then show "x = y" using x y unfolding xy in_in_play by simp
qed

text \<open>When references are unique the hardened matcher gives the same answer for every order of the candidates,
  and candidates outside the accept window do not influence it: the answer is the one for the
  candidates inside the window alone.\<close>

theorem hardened_order_and_window:
  assumes "mset cs = mset cs'" "distinct (map ref cs)"
  shows "fst (match_event_hardened_scored canon roster q cs) = fst (match_event_hardened_scored canon roster q cs')
    \<and> fst (match_event_hardened_scored canon roster q (filter (in_accept_window q) cs))
      = fst (match_event_hardened_scored canon roster q cs)"
proof
  have "sort_key (rank_key (q_kickoff q)) (in_play canon roster q cs) = sort_key (rank_key (q_kickoff q)) (in_play canon roster q cs')"
    by (rule sort_key_inj_key_eq) (use in_play_perm [OF assms(1)] rank_key_inj [OF assms(2)] in simp_all)
  then show "fst (match_event_hardened_scored canon roster q cs) = fst (match_event_hardened_scored canon roster q cs')"
    by (simp add: hardened_decision decide_def)
  show "fst (match_event_hardened_scored canon roster q (filter (in_accept_window q) cs))
      = fst (match_event_hardened_scored canon roster q cs)" by (simp add: hardened_decision in_play_def)
qed

text \<open>No candidate whose names were accepted is turned down silently: when the query names two teams and some
  candidate was scored, a rejection ends with an entry in the review queue that says why.\<close>

theorem hardened_rejection_reviewed:
  assumes "two_teams canon (q_home q) (q_away q)" "scored_of (query_class canon roster q) cs \<noteq> []"
    and "fst (match_event_hardened_scored canon roster q cs) = None"
  shows "snd (match_event_hardened_scored canon roster q cs) \<noteq> []
    \<and> rv_reason (last (snd (match_event_hardened_scored canon roster q cs)))
        \<in> {R_Ambiguity_Margin, R_Kickoff_Drift, R_Same_Teams_Split}"
proof -
  have decide: "fst (decide canon q bh ba es) = None \<Longrightarrow> es \<noteq> [] \<Longrightarrow> snd (decide canon q bh ba es) \<noteq> []
      \<and> rv_reason (last (snd (decide canon q bh ba es))) \<in> {R_Ambiguity_Margin, R_Same_Teams_Split}" for bh ba es
  proof -
    assume d: "fst (decide canon q bh ba es) = None" "es \<noteq> []"
    obtain b rs where "sort_key (rank_key (q_kickoff q)) es = b # rs" using d(2) by (metis list.exhaust length_0_conv length_sort)
    then show ?thesis using d(1) by (auto simp: decide_def review_of_def Let_def split: option.splits if_splits)
  qed
  show ?thesis
    using assms decide [of "base_of canon (q_home q)" "base_of canon (q_away q)" "in_play canon roster q cs"]
    unfolding match_event_hardened_scored_def Let_def query_class_def [symmetric] filter_scored_of in_play_def [symmetric]
    by (auto simp: two_teams_def review_of_def split: prod.splits if_splits)
qed

lemma classify_forward:
  "passes_guards canon roster q c False \<Longrightarrow> query_class canon roster q c = Scored (query_score canon q c False) False"
  by (auto simp: passes_guards_def query_class_def classify_def query_score_def oriented_bases_def Let_def)

text \<open>A candidate with exactly the query's base names that passes the guards and is the only one inside the
  accept window is accepted, with full confidence and as an exact match.\<close>

theorem exact_candidate_accepted:
  assumes "two_teams canon (q_home q) (q_away q)" "short_names canon q cs"
    and "c \<in> set cs" "passes_guards canon roster q c False" "in_accept_window q c"
    and "base_of canon (home c) = base_of canon (q_home q)" "base_of canon (away c) = base_of canon (q_away q)"
    and "filter (\<lambda>x. x \<noteq> c) (filter (in_accept_window q) cs) = []"
  shows "fst (match_event_hardened_scored canon roster q cs)
    = Some \<lparr>oc_candidate = c, oc_confidence = Fin 1, oc_method = Exact_Canonical\<rparr>
    \<and> match_event_hardened canon roster q cs = Some c"
proof -
  define e where "e = (query_score canon q c False, c, False)"
  have cls: "query_class canon roster q c = Scored (query_score canon q c False) False" by (rule classify_forward [OF assms(4)])
  have only: "x = c" if "x \<in> set cs" "in_accept_window q x" for x using assms(8) that by (auto simp: filter_empty_conv)
  have mem: "x \<in> set (in_play canon roster q cs) \<longleftrightarrow> x = e" for x
  proof (cases x)
    case (fields s d sw)
    have "(d \<in> set cs \<and> in_accept_window q d \<and> query_class canon roster q d = Scored s sw)
        \<longleftrightarrow> d = c \<and> s = query_score canon q c False \<and> sw = False"
      using only assms(3, 5) cls by (metis candidate_class.inject(1))
    then show ?thesis unfolding fields in_in_play e_def by blast
  qed
  have "in_play canon roster q cs \<noteq> []" using mem [of e] by force
  then obtain best rest where br: "sort_key (rank_key (q_kickoff q)) (in_play canon roster q cs) = best # rest"
    and res: "fst (match_event_hardened_scored canon roster q cs)
       = (if list_ex (too_close canon best) (in_play canon roster q cs) then None
          else Some (accept canon (base_of canon (q_home q)) (base_of canon (q_away q)) best))"
    using hardened_cases [OF assms(1, 2)] by blast
  have "best \<in> set (in_play canon roster q cs)" using br by (metis list.set_intros(1) set_sort)
  then have best: "best = e" using mem by blast
  have "\<not> list_ex (too_close canon best) (in_play canon roster q cs)" unfolding list_ex_iff best using too_close_self mem by metis
  then have "fst (match_event_hardened_scored canon roster q cs)
      = Some \<lparr>oc_candidate = c, oc_confidence = Fin 1, oc_method = Exact_Canonical\<rparr>"
    using assms(6, 7) unfolding res by (simp add: accept_def oriented_bases_def best e_def)
  then show ?thesis by (simp add: match_event_hardened_def)
qed

subsection \<open>The theorems at work\<close>

definition derby_query :: match_query where
  "derby_query = \<lparr>q_home = ''FC Arsenal'', q_away = ''Chelsea'', q_kickoff = 0, q_ordered = True, q_league = None,
     q_cand_leagues = (\<lambda>r. None), q_fetch_minutes = 2880, q_accept_minutes = 360, q_allow_flip = False\<rparr>"

text \<open>The same teams two days later: name-accepted, outside the accept window.\<close>

definition rematch_row :: event_candidate where
  "rematch_row = \<lparr>ref = ''e2'', home = ''Arsenal'', away = ''Chelsea'', kickoff = 172800000000\<rparr>"

lemma derby_bases:
  "base_of normalize_name ''FC Arsenal'' = ''arsenal''" "base_of normalize_name ''Chelsea'' = ''chelsea''"
  "base_of normalize_name ''Arsenal'' = ''arsenal''" "base_of normalize_name ''Chelsea FC'' = ''chelsea''"
  by code_simp+

lemma derby_markers:
  "distinguishing_markers ''FC Arsenal'' = {}" "distinguishing_markers ''Chelsea'' = {}"
  "distinguishing_markers ''Arsenal'' = {}" "distinguishing_markers ''Chelsea FC'' = {}"
  by code_simp+

lemma rematch_drift: "within_minutes 172800000000 0 n \<longleftrightarrow> 2880 \<le> n"
  using total_seconds_whole [of 172800] by (simp add: within_minutes_def seconds_apart_def float_gt_int_def not_less)

lemma derby_facts:
  "two_teams normalize_name (q_home derby_query) (q_away derby_query)"
  "short_names normalize_name derby_query [derby_row, rematch_row]"
  "passes_guards normalize_name {} derby_query derby_row False"
  "passes_guards normalize_name {} derby_query rematch_row False"
  "in_accept_window derby_query derby_row" "\<not> in_accept_window derby_query rematch_row"
  by (simp_all add: derby_query_def derby_row_def rematch_row_def two_teams_def short_names_def short_name_def derby_names
      derby_bases passes_guards_def rematch_drift zero_apart
      leagues_agree_def fixture_markers_compatible_def markers_conflict_def derby_markers base_name_ok_def
      in_accept_window_def)

abbreviation derby_outcome :: "event_candidate list \<Rightarrow> match_outcome option" where
  "derby_outcome cs \<equiv> fst (match_event_hardened_scored normalize_name {} derby_query cs)"

lemma derby_class:
  "query_class normalize_name {} derby_query derby_row = Scored (query_score normalize_name derby_query derby_row False) False"
  "query_class normalize_name {} derby_query rematch_row = Scored (query_score normalize_name derby_query rematch_row False) False"
  by (rule classify_forward [OF derby_facts(3)], rule classify_forward [OF derby_facts(4)])



lemma hardened_order_and_window_witness:
  "derby_outcome [derby_row, rematch_row] = derby_outcome [rematch_row, derby_row]"
  by (rule hardened_order_and_window [THEN conjunct1]) (simp_all add: derby_row_def rematch_row_def)

lemma hardened_rejection_reviewed_witness:
  "rv_reason (last (snd (match_event_hardened_scored normalize_name {} derby_query [rematch_row])))
     \<in> {R_Ambiguity_Margin, R_Kickoff_Drift, R_Same_Teams_Split}"
proof (rule hardened_rejection_reviewed [THEN conjunct2, OF derby_facts(1)])
  show "scored_of (query_class normalize_name {} derby_query) [rematch_row] \<noteq> []"
    by (simp add: scored_of_def map_filter_simps derby_class)
  show "derby_outcome [rematch_row] = None"
    by (simp add: hardened_decision in_play_def derby_facts(6) scored_of_def map_filter_simps decide_Nil)
qed

lemma exact_candidate_accepted_witness:
  "derby_outcome [derby_row, rematch_row]
     = Some \<lparr>oc_candidate = derby_row, oc_confidence = Fin 1, oc_method = Exact_Canonical\<rparr>"
proof (rule exact_candidate_accepted [THEN conjunct1, OF derby_facts(1, 2) _ derby_facts(3, 5)])
  show "derby_row \<in> set [derby_row, rematch_row]" by simp
  show "base_of normalize_name (home derby_row) = base_of normalize_name (q_home derby_query)"
    "base_of normalize_name (away derby_row) = base_of normalize_name (q_away derby_query)"
    by (simp_all add: derby_query_def derby_row_def derby_bases)
  show "filter (\<lambda>x. x \<noteq> derby_row) (filter (in_accept_window derby_query) [derby_row, rematch_row]) = []"
    using derby_facts(5, 6) by simp
qed

end
