(* ===== verification/CloseTrust.thy ===== *)
theory CloseTrust
  imports Pricing PyTime
begin

text \<open>
  Close provenance, from \<^verbatim>\<open>app/edge/value.py\<close>: whether a closing price is evidence that is independent
  of the pick, the boolean that is persisted for it, the label that names the first guard it trips, and
  the cohort of old handicap picks whose close prices another product.  The keyword arguments of the
  functions are the fields of one record.
\<close>

subsection \<open>The evidence\<close>

record close_case =
  close_anchor_book :: string
  fill_book :: string
  pick_fair :: "pyfloat option"
  closing_fair :: pyfloat
  fill_eff :: pyfloat
  mint_devig_fell_back :: "bool option"
  close_devig_fell_back :: "bool option"
  close_captured_at :: "time option"
  pick_created_at :: "time option"
  mint_anchor_book :: "string option"
  mint_anchor_type :: "string option"
  clv_log_value :: "pyfloat option"
  has_snapshot_close :: bool

definition anchor_type_name :: "anchor_type \<Rightarrow> string" where
  "anchor_type_name t = (case t of Anchor_Pinnacle \<Rightarrow> ''pinnacle'' | Anchor_Sharp \<Rightarrow> ''sharp'' | Anchor_Consensus \<Rightarrow> ''consensus'')"

text \<open>The anchor is the consensus median, or unknown.\<close>

definition no_named_anchor :: "string \<Rightarrow> bool" where
  "no_named_anchor book = (book = [] \<or> book = consensus_anchor)"

definition close_is_independent_of_fill :: "string \<Rightarrow> string \<Rightarrow> string \<Rightarrow> string \<Rightarrow> string \<Rightarrow> bool" where
  "close_is_independent_of_fill close_book fill pick_type close_type pick_book =
     (if no_named_anchor close_book then True
      else if norm_book close_book = norm_book fill then False
      else if pick_book \<noteq> [] \<and> pick_book \<noteq> consensus_anchor \<and> close_book \<noteq> consensus_anchor
        then norm_book pick_book \<noteq> norm_book close_book
      else \<not> (pick_type \<noteq> [] \<and> close_type \<noteq> [] \<and> norm_book pick_type = norm_book close_type))"

definition clv_tautology_eps :: pyfloat where "clv_tautology_eps = f64 (1 / 1000)"

definition close_moved_from_pick_fair :: "pyfloat option \<Rightarrow> pyfloat \<Rightarrow> bool" where
  "close_moved_from_pick_fair fair close = (case fair of
     None \<Rightarrow> False
   | Some f \<Rightarrow> f_lt clv_tautology_eps (f_abs (f_sub close f)))"

definition captured_before :: "time option \<Rightarrow> time option \<Rightarrow> bool" where
  "captured_before captured created = (case (captured, created) of (Some c, Some p) \<Rightarrow> c \<le> p | _ \<Rightarrow> False)"

definition close_is_mint_echo :: "close_case \<Rightarrow> bool" where
  "close_is_mint_echo c =
     (case (close_captured_at c, pick_created_at c) of
        (Some captured, Some created) \<Rightarrow>
          if captured > created then False
          else if no_named_anchor (close_anchor_book c)
            then mint_anchor_book c = Some consensus_anchor
              \<or> (mint_anchor_book c = None \<or> mint_anchor_book c = Some [])
                \<and> mint_anchor_type c = Some (anchor_type_name Anchor_Consensus)
          else (case mint_anchor_book c of
              Some b \<Rightarrow> if b \<noteq> [] \<and> b \<noteq> consensus_anchor then norm_book b = norm_book (close_anchor_book c)
                else mint_anchor_type c \<in> {Some (anchor_type_name Anchor_Pinnacle), Some (anchor_type_name Anchor_Sharp)}
                  \<and> mint_anchor_type c = Some (anchor_type_name (anchor_type_for (close_anchor_book c)))
            | None \<Rightarrow> mint_anchor_type c \<in> {Some (anchor_type_name Anchor_Pinnacle), Some (anchor_type_name Anchor_Sharp)}
                  \<and> mint_anchor_type c = Some (anchor_type_name (anchor_type_for (close_anchor_book c))))
      | _ \<Rightarrow> False)"

definition persisted_close_independent :: "close_case \<Rightarrow> bool" where
  "persisted_close_independent c =
     (if \<not> close_is_independent_of_fill (close_anchor_book c) (fill_book c) [] [] [] then False
      else if close_is_mint_echo c then False
      else close_moved_from_pick_fair (pick_fair c) (closing_fair c))"

subsection \<open>The label\<close>

datatype exclusion = Fabricated | Circular_Self_Priced | Stale_Echo | Tautological | Asymmetric_Devig_Fallback
  | Legacy_Product_Mismatch | No_Snapshot_Close | Trusted

definition exclusion_name :: "exclusion \<Rightarrow> string" where
  "exclusion_name r = (case r of Fabricated \<Rightarrow> ''fabricated'' | Circular_Self_Priced \<Rightarrow> ''circular_self_priced''
     | Stale_Echo \<Rightarrow> ''stale_echo'' | Tautological \<Rightarrow> ''tautological''
     | Asymmetric_Devig_Fallback \<Rightarrow> ''asymmetric_devig_fallback''
     | Legacy_Product_Mismatch \<Rightarrow> ''legacy_product_mismatch'' | No_Snapshot_Close \<Rightarrow> ''no_snapshot_close''
     | Trusted \<Rightarrow> ''trusted'')"

definition implausible_close_edge :: pyfloat where "implausible_close_edge = f64 (20 / 100)"
definition implausible_log :: pyfloat where "implausible_log = f64 (5 / 10)"

definition edge_fabricated :: "pyfloat \<Rightarrow> pyfloat \<Rightarrow> bool res" where
  "edge_fabricated eff close =
     (if f_lt (Fin 0) eff \<and> f_lt (Fin 0) close \<and> f_lt close (Fin 1)
      then rmap (\<lambda>q. f_lt implausible_close_edge (f_sub close q)) (f_div (Fin 1) eff)
      else Ok False)"

definition devig_asymmetric :: "bool option \<Rightarrow> bool option \<Rightarrow> bool" where
  "devig_asymmetric mint close = (case (mint, close) of (Some m, Some c) \<Rightarrow> m \<noteq> c | _ \<Rightarrow> False)"

definition log_fabricated :: "pyfloat option \<Rightarrow> bool" where
  "log_fabricated clv = (case clv of None \<Rightarrow> False | Some v \<Rightarrow> f_lt implausible_log (f_abs v))"

definition close_exclusion_reason :: "close_case \<Rightarrow> exclusion res" where
  "close_exclusion_reason c = rbind (edge_fabricated (fill_eff c) (closing_fair c)) (\<lambda>fab. Ok
     (if fab then Fabricated
      else if \<not> close_is_independent_of_fill (close_anchor_book c) (fill_book c) [] [] [] then Circular_Self_Priced
      else if \<not> close_moved_from_pick_fair (pick_fair c) (closing_fair c)
        then (if captured_before (close_captured_at c) (pick_created_at c) then Stale_Echo else Tautological)
      else if close_is_mint_echo c then Stale_Echo
      else if devig_asymmetric (mint_devig_fell_back c) (close_devig_fell_back c) then Asymmetric_Devig_Fallback
      else if log_fabricated (clv_log_value c) then Fabricated
      else if \<not> has_snapshot_close c then No_Snapshot_Close
      else Trusted))"

subsection \<open>The legacy handicap cohort\<close>

text \<open>The second of August 2026, 21:30 UTC.\<close>

definition legacy_fix_deployed_at :: time where "legacy_fix_deployed_at = 63921303000 * 10 ^ 6"

text \<open>A full match of \<^verbatim>\<open>spreads_(?:minus_|plus_)?\d+\<close>.\<close>

definition is_digits :: "string \<Rightarrow> bool" where
  "is_digits s = (s \<noteq> [] \<and> list_all is_digit s)"

definition drop_prefix :: "string \<Rightarrow> string \<Rightarrow> string" where
  "drop_prefix p s = (if startswith p s then drop (length p) s else s)"

definition integer_spreads_detail :: "string \<Rightarrow> bool" where
  "integer_spreads_detail d =
     (startswith ''spreads_'' d
      \<and> (let r = drop (length ''spreads_'') d in
         is_digits r \<or> startswith ''minus_'' r \<and> is_digits (drop 6 r) \<or> startswith ''plus_'' r \<and> is_digits (drop 5 r)))"

definition is_legacy_product_mismatch :: "string option \<Rightarrow> string option \<Rightarrow> string option \<Rightarrow> time option \<Rightarrow> bool" where
  "is_legacy_product_mismatch sport market market_detail minted_at =
     (case minted_at of
        None \<Rightarrow> False
      | Some m \<Rightarrow>
          if sport \<noteq> Some ''soccer'' \<or> market \<noteq> Some ''spreads'' then False
          else if m \<ge> legacy_fix_deployed_at then False
          else (case market_detail of None \<Rightarrow> True | Some d \<Rightarrow> integer_spreads_detail d))"

subsection \<open>The label and the boolean agree\<close>

lemma edge_fabricated_total: "\<exists>b. edge_fabricated eff close = Ok b"
  by (cases eff) (auto simp: edge_fabricated_def)

lemma label_agrees:
  "\<exists>r fab. close_exclusion_reason c = Ok r \<and> edge_fabricated (fill_eff c) (closing_fair c) = Ok fab
     \<and> r \<noteq> Legacy_Product_Mismatch
     \<and> (r \<in> {Circular_Self_Priced, Stale_Echo, Tautological} \<longrightarrow> \<not> persisted_close_independent c)
     \<and> (r \<in> {Asymmetric_Devig_Fallback, No_Snapshot_Close, Trusted} \<longrightarrow> persisted_close_independent c)
     \<and> (r = Trusted \<longleftrightarrow> persisted_close_independent c \<and> \<not> fab
          \<and> \<not> devig_asymmetric (mint_devig_fell_back c) (close_devig_fell_back c)
          \<and> \<not> log_fabricated (clv_log_value c) \<and> has_snapshot_close c)"
proof -
  obtain fab where "edge_fabricated (fill_eff c) (closing_fair c) = Ok fab" using edge_fabricated_total by blast
  then show ?thesis by (auto simp: close_exclusion_reason_def persisted_close_independent_def)
qed

text \<open>The label of a close is always defined and is never the read-time one; it says that the close trips
  the independence guards only when the persisted boolean is false, that it passes them only when the
  boolean is true, and it is \<open>Trusted\<close> exactly when the boolean is true, the edge and the logarithm are
  plausible, both sides were devigged alike and a snapshot close exists.\<close>

theorem exclusion_reason_agrees:
  "\<exists>r fab. close_exclusion_reason c = Ok r \<and> edge_fabricated (fill_eff c) (closing_fair c) = Ok fab
     \<and> r \<noteq> Legacy_Product_Mismatch
     \<and> (r \<in> {Circular_Self_Priced, Stale_Echo, Tautological} \<longrightarrow> \<not> persisted_close_independent c)
     \<and> (r \<in> {Asymmetric_Devig_Fallback, No_Snapshot_Close, Trusted} \<longrightarrow> persisted_close_independent c)
     \<and> (r = Trusted \<longleftrightarrow> persisted_close_independent c \<and> \<not> fab
          \<and> \<not> devig_asymmetric (mint_devig_fell_back c) (close_devig_fell_back c)
          \<and> \<not> log_fabricated (clv_log_value c) \<and> has_snapshot_close c)"
  by (rule label_agrees)

text \<open>A clean close, and the same one captured before the pick.\<close>

definition moved_close :: close_case where
  "moved_close = \<lparr>close_anchor_book = ''Pinnacle'', fill_book = ''bet365'', pick_fair = Some (Fin (1 / 2)),
     closing_fair = Fin (9 / 16), fill_eff = Fin 2, mint_devig_fell_back = None, close_devig_fell_back = None,
     close_captured_at = Some 1, pick_created_at = Some 0, mint_anchor_book = Some ''pinnacle'',
     mint_anchor_type = None, clv_log_value = None, has_snapshot_close = True\<rparr>"

lemma moved_close_trusted: "close_exclusion_reason moved_close = Ok Trusted" by code_simp

lemma exclusion_reason_agrees_witness: "persisted_close_independent moved_close"
  using exclusion_reason_agrees [of moved_close] moved_close_trusted by auto

text \<open>C33: A close that was captured when or before the pick was created, anchored by the very book that set the
  fair price of the pick, is never trusted, however its price moved; and only a close captured no later
  than the pick can be an echo of it.\<close>

theorem echo_never_trusted:
  assumes "captured_before (close_captured_at c) (pick_created_at c)"
    and "mint_anchor_book c = Some b" "\<not> no_named_anchor b" "\<not> no_named_anchor (close_anchor_book c)"
    and "norm_book b = norm_book (close_anchor_book c)"
  shows "\<not> persisted_close_independent c \<and> close_exclusion_reason c \<noteq> Ok Trusted
    \<and> (close_is_mint_echo d \<longrightarrow> captured_before (close_captured_at d) (pick_created_at d))"
proof -
  have "close_is_mint_echo c"
    using assms by (auto simp: close_is_mint_echo_def captured_before_def no_named_anchor_def split: option.splits)
  then have "\<not> persisted_close_independent c" by (simp add: persisted_close_independent_def)
  moreover from this have "close_exclusion_reason c \<noteq> Ok Trusted" using label_agrees [of c] by auto
  moreover have "close_is_mint_echo d \<Longrightarrow> captured_before (close_captured_at d) (pick_created_at d)"
    by (auto simp: close_is_mint_echo_def captured_before_def split: option.splits if_splits)
  ultimately show ?thesis by blast
qed

definition echoed_close :: close_case where
  "echoed_close = moved_close\<lparr>close_captured_at := Some 0\<rparr>"

lemma echo_never_trusted_witness: "close_exclusion_reason echoed_close \<noteq> Ok Trusted"
proof (rule echo_never_trusted [THEN conjunct2, THEN conjunct1])
  show "captured_before (close_captured_at echoed_close) (pick_created_at echoed_close)" by code_simp
  show "mint_anchor_book echoed_close = Some ''pinnacle''" by code_simp
  show "\<not> no_named_anchor ''pinnacle''" "\<not> no_named_anchor (close_anchor_book echoed_close)" by code_simp+
  show "norm_book ''pinnacle'' = norm_book (close_anchor_book echoed_close)" by code_simp
qed

text \<open>Among handicap details, the whole-number lines of either sign are in the legacy cohort exactly when the
  pick was minted before the fix; lines with a fraction and the tennis set lines never are.\<close>

theorem legacy_cohort_details:
  "is_legacy_product_mismatch (Some ''soccer'') (Some ''spreads'') (Some (''spreads_minus_'' @ show_nat n)) (Some t)
      = (t < legacy_fix_deployed_at)
    \<and> is_legacy_product_mismatch (Some ''soccer'') (Some ''spreads'') (Some (''spreads_plus_'' @ show_nat n)) (Some t)
      = (t < legacy_fix_deployed_at)
    \<and> \<not> is_legacy_product_mismatch sport market (Some (''spreads_minus_'' @ show_nat n @ ''_'' @ rest)) minted
    \<and> \<not> is_legacy_product_mismatch sport market (Some (''spreads_plus_'' @ show_nat n @ ''_'' @ rest)) minted
    \<and> \<not> is_legacy_product_mismatch sport market (Some (''spreads_sets_'' @ rest)) minted"
proof -
  have digit: "is_digits (show_nat n)" using show_nat_digits [of n] by (simp add: is_digits_def)
  have nd: "\<not> is_digit CHR ''_''" "\<not> is_digit CHR ''m''" "\<not> is_digit CHR ''p''" "\<not> is_digit CHR ''s''"
    by code_simp+
  then have frac: "\<not> is_digits (show_nat n @ ''_'' @ rest)" by (simp add: is_digits_def)
  have shape: "integer_spreads_detail (''spreads_minus_'' @ x) = is_digits x"
    "integer_spreads_detail (''spreads_plus_'' @ x) = is_digits x"
    "\<not> integer_spreads_detail (''spreads_sets_'' @ x)" for x
    using nd by (simp_all add: integer_spreads_detail_def startswith_def is_digits_def)
  have i: "integer_spreads_detail (''spreads_minus_'' @ show_nat n)" "integer_spreads_detail (''spreads_plus_'' @ show_nat n)"
    "\<not> integer_spreads_detail (''spreads_minus_'' @ show_nat n @ ''_'' @ rest)"
    "\<not> integer_spreads_detail (''spreads_plus_'' @ show_nat n @ ''_'' @ rest)"
    "\<not> integer_spreads_detail (''spreads_sets_'' @ rest)"
    using shape digit frac by metis+
  show ?thesis
    using i by (auto simp: is_legacy_product_mismatch_def simp del: append.append_Cons split: option.splits)
qed

end
