(* ===== verification/Spreads.thy ===== *)
theory Spreads
  imports Pricing
begin

text \<open>
  The selection-level guards of \<^verbatim>\<open>app/edge/value.py\<close>: the reading of a handicap selection, the test that
  the selections of one group are complementary, and the recognition of a draw leg.
\<close>

subsection \<open>Handicap selections\<close>

definition newline :: char where "newline = char_of (10 :: nat)"

text \<open>A match of \<^verbatim>\<open>^(?P<team>.*\S)\s+(?P<line>[+-]\d+(?:\.\d+)?)$\<close> on a stripped text: a line has no white
  space, so it is the last token; the dot matches everything but a newline.\<close>

definition parse_spread_selection :: "string \<Rightarrow> (string \<times> pyfloat) option" where
  "parse_spread_selection selection =
     (let r = rev (strip selection);
          line = rev (takeWhile (\<lambda>c. \<not> is_space c) r);
          team = rev (dropWhile is_space (dropWhile (\<lambda>c. \<not> is_space c) r)) in
      if team = [] \<or> newline \<in> set team then None
      else map_option (\<lambda>x. (norm_book team, f64 x)) (parse_signed line))"

definition is_draw_spread_leg :: "string \<Rightarrow> bool" where
  "is_draw_spread_leg selection =
     (let key = norm_book selection; key = (if startswith ''the '' key then drop 4 key else key) in
      key = ''draw'' \<or> startswith ''draw '' key \<or> startswith ''draw('' key)"

definition pair_coherent :: "string \<Rightarrow> string \<Rightarrow> bool" where
  "pair_coherent x y = (case (parse_spread_selection x, parse_spread_selection y) of
     (Some (team_a, line_a), Some (team_b, line_b)) \<Rightarrow> if team_a = team_b then False else f_eq line_a (f_neg line_b)
   | _ \<Rightarrow> False)"

definition spread_pair_coherent :: "string list \<Rightarrow> bool" where
  "spread_pair_coherent sels =
     (let legs = if length sels = 3 then filter (\<lambda>s. \<not> is_draw_spread_leg s) sels else sels in
      case legs of [x, y] \<Rightarrow> pair_coherent x y | _ \<Rightarrow> False)"

subsection \<open>Draw legs\<close>

text \<open>\<^verbatim>\<open>str.casefold\<close> on these code points: the sharp s becomes two letters.\<close>

definition casefold :: "string \<Rightarrow> string" where
  "casefold s = concat (map (\<lambda>c. if code c = 223 then ''ss'' else [lower_char c]) s)"

definition draw_selection_demotion :: "string \<Rightarrow> string \<Rightarrow> bool" where
  "draw_selection_demotion market selection =
     (let normalized = casefold (strip selection) in
      if market = ''h2h'' then normalized = ''draw''
      else if market = ''double_chance''
        then (normalized = ''1x'' \<or> normalized = ''x2'' \<or> ''draw'' \<in> set (map strip (split_on '' or '' normalized)))
      else False)"

subsection \<open>Reading back a selection\<close>

text \<open>A team name as the feeds carry it: no white space at its ends, no line break.\<close>

definition club_name :: "string \<Rightarrow> bool" where
  "club_name t = (t \<noteq> [] \<and> strip t = t \<and> newline \<notin> set t)"

lemma digit_not_space: "is_digit c \<Longrightarrow> \<not> is_space c"
  by (auto simp: is_digit_def is_space_def Let_def)

lemma signed_line_solid: "list_all (\<lambda>c. \<not> is_space c) (show_signed_quarters k)"
proof -
  have n: "list_all (\<lambda>c. \<not> is_space c) (show_nat m)" for m
    using show_nat_digits [of m] digit_not_space by (auto simp: list_all_iff)
  have f: "\<not> is_space CHR ''.''" "\<not> is_space CHR ''5''" "\<not> is_space CHR ''2''" "\<not> is_space CHR ''7''"
    "\<not> is_space CHR ''+''" "\<not> is_space CHR ''-''" by code_simp+
  show ?thesis using n f by (simp add: show_signed_quarters_def show_quarters_def)
qed

lemma parse_rendered:
  assumes "club_name t" "\<bar>k\<bar> < 2 ^ 53"
  shows "parse_spread_selection (t @ '' '' @ show_signed_quarters k) = Some (norm_book t, Fin (of_int k / 4))"
proof -
  define l where "l = show_signed_quarters k"
  have l: "l \<noteq> []" "list_all (\<lambda>c. \<not> is_space c) l" using signed_line_solid [of k] by (simp_all add: l_def show_signed_quarters_def)
  have t: "t \<noteq> []" "\<not> is_space (hd t)" "\<not> is_space (last t)" "newline \<notin> set t"
    using assms(1) strip_ends [of t] by (auto simp: club_name_def)
  have s: "strip (t @ '' '' @ l) = t @ '' '' @ l"
    using l t last_in_set [of l] by (subst strip_ends) (auto simp: list_all_iff)
  have r: "rev (t @ '' '' @ l) = rev l @ CHR '' '' # rev t" by simp
  have lr: "list_all (\<lambda>c. \<not> is_space c) (rev l)" using l by (simp add: list_all_iff)
  have tw: "takeWhile (\<lambda>c. \<not> is_space c) (rev l @ CHR '' '' # rev t) = rev l"
    using lr by (subst takeWhile_append2) (auto simp: list_all_iff)
  have dw: "dropWhile (\<lambda>c. \<not> is_space c) (rev l @ CHR '' '' # rev t) = CHR '' '' # rev t"
    using lr by (subst dropWhile_append2) (auto simp: list_all_iff)
  have dt: "dropWhile is_space (rev t) = rev t" using t by (intro dropWhile_hd) (simp_all add: hd_rev)
  have "parse_signed l = Some (of_int k / 4)" by (simp add: l_def parse_show_signed_quarters)
  then show ?thesis
    using t f64_quarter [OF assms(2)]
    unfolding l_def [symmetric] parse_spread_selection_def Let_def s r tw dw by (simp add: dt)
qed

text \<open>Two rendered handicap legs form a group that may be devigged exactly when they name different teams and
  carry opposite lines; two legs on the same side of the line are refused, unless both lines are zero.\<close>

theorem rendered_pair_coherent:
  assumes "club_name t" "club_name u" "\<bar>k\<bar> < 2 ^ 53" "\<bar>l\<bar> < 2 ^ 53"
  shows "parse_spread_selection (t @ '' '' @ show_signed_quarters k) = Some (norm_book t, Fin (of_int k / 4))
    \<and> spread_pair_coherent [t @ '' '' @ show_signed_quarters k, u @ '' '' @ show_signed_quarters l]
      = (norm_book t \<noteq> norm_book u \<and> k = - l)"
proof -
  have "rat_of_int k = - rat_of_int l \<longleftrightarrow> k = - l" by (simp flip: of_int_minus)
  moreover have "(rat_of_int k / 4 = - (rat_of_int l / 4)) = (rat_of_int k = - rat_of_int l)" by auto
  ultimately show ?thesis
    by (simp add: spread_pair_coherent_def pair_coherent_def parse_rendered [OF assms(1, 3), simplified append_Cons append_Nil]
        parse_rendered [OF assms(2, 4), simplified append_Cons append_Nil])
qed

lemma rendered_pair_coherent_witness:
  "\<not> spread_pair_coherent [''Toronto Argonauts'' @ '' '' @ show_signed_quarters (- 10), ''Ottawa'' @ '' '' @ show_signed_quarters (- 10)]"
proof -
  have c: "club_name ''Toronto Argonauts''" "club_name ''Ottawa''" by code_simp+
  show ?thesis using rendered_pair_coherent [OF c, of "-10" "-10"] by simp
qed

text \<open>The coherence of a group does not depend on the order of its selections, a group of one or of four and more
  is refused, and so is a pair with the same team on both sides.\<close>

theorem coherence_group_shape:
  assumes "spread_pair_coherent sels"
  shows "(length sels = 2 \<or> length sels = 3) \<and> spread_pair_coherent (rev sels)
    \<and> length (filter (\<lambda>s. \<not> is_draw_spread_leg s \<or> length sels = 2) sels) = 2"
proof -
  define legs where "legs = (if length sels = 3 then filter (\<lambda>s. \<not> is_draw_spread_leg s) sels else sels)"
  have "f_eq a (f_neg b) \<Longrightarrow> f_eq b (f_neg a)" for a b by (cases a; cases b) auto
  then have sym: "pair_coherent x y \<Longrightarrow> pair_coherent y x" for x y
    by (auto simp: pair_coherent_def split: option.splits if_splits)
  obtain x y where xy: "legs = [x, y]" "pair_coherent x y"
    using assms by (auto simp: spread_pair_coherent_def legs_def [symmetric] split: list.splits)
  have "(if length (rev sels) = 3 then filter (\<lambda>s. \<not> is_draw_spread_leg s) (rev sels) else rev sels) = rev legs"
    by (simp add: legs_def rev_filter)
  then have "spread_pair_coherent (rev sels)" using sym xy by (simp add: spread_pair_coherent_def)
  moreover have "length sels = 2 \<or> length sels = 3" using xy(1) by (auto simp: legs_def split: if_splits)
  ultimately show ?thesis using xy(1) by (auto simp: legs_def split: if_splits)
qed

lemma coherence_group_shape_witness:
  "length (filter (\<lambda>s. \<not> is_draw_spread_leg s \<or> length [''Home -1'', ''Draw (-1)'', ''Away +1''] = 2)
     [''Home -1'', ''Draw (-1)'', ''Away +1'']) = 2"
proof -
  have "spread_pair_coherent [''Home -1'', ''Draw (-1)'', ''Away +1'']" by code_simp
  from coherence_group_shape [OF this] show ?thesis by blast
qed

end
