(* ===== verification/Devig.thy ===== *)
theory Devig
  imports Staking
begin

text \<open>
  Removal of the bookmaker's margin, \<^verbatim>\<open>app/probabilities/devig.py\<close>: every method, the dispatch, the
  fallback to proportional normalisation and its reason.  numpy and scipy are third-party: the sum of an
  array, the transcendental functions and the root finder are the fields of a record that every
  definition takes.  The arithmetic of array elements is IEEE arithmetic, which never raises.
\<close>

subsection \<open>The numerical library\<close>

record numerics =
  n_sum :: "pyfloat list \<Rightarrow> pyfloat"
  n_power :: "pyfloat \<Rightarrow> pyfloat \<Rightarrow> pyfloat"
  n_exp :: "pyfloat \<Rightarrow> pyfloat"
  n_log :: "pyfloat \<Rightarrow> pyfloat"
  n_sqrt :: "pyfloat \<Rightarrow> pyfloat"
  n_ppf :: "pyfloat \<Rightarrow> pyfloat"
  n_cdf :: "pyfloat \<Rightarrow> pyfloat"
  brentq :: "(pyfloat \<Rightarrow> pyfloat) \<Rightarrow> pyfloat \<Rightarrow> pyfloat \<Rightarrow> pyfloat res"

text \<open>Division of array elements: a zero divisor gives an infinity or a NaN.\<close>

definition np_div :: "pyfloat \<Rightarrow> pyfloat \<Rightarrow> pyfloat" where
  "np_div a b = (case f_div a b of Inr q \<Rightarrow> q
     | Inl _ \<Rightarrow> if f_lt (Fin 0) a then PInf else if f_lt a (Fin 0) then NInf else NaN)"

definition np_clip :: "pyfloat \<Rightarrow> pyfloat \<Rightarrow> pyfloat \<Rightarrow> pyfloat" where
  "np_clip lo hi x = (if f_lt x lo then lo else if f_lt hi x then hi else x)"

definition np_maximum0 :: "pyfloat \<Rightarrow> pyfloat" where
  "np_maximum0 x = (if f_lt x (Fin 0) then Fin 0 else x)"

subsection \<open>Methods and fallbacks\<close>

datatype devig_method = Multiplicative | Additive | Power | Shin | Probit | Odds_Ratio | Logarithmic
  | Differential_Margin | Goto

datatype fallback_reason = Additive_Non_Positive | Power_Solve_Failed | Logarithmic_Solve_Failed | Probit_Solve_Failed
  | Differential_Margin_Non_Positive | Differential_Margin_Out_Of_Range | Shin_Underround | Shin_Degenerate
  | Shin_Solve_Failed | Goto_Non_Positive

definition expected_fallbacks :: "fallback_reason set" where
  "expected_fallbacks = {Shin_Underround, Shin_Degenerate, Differential_Margin_Non_Positive,
     Differential_Margin_Out_Of_Range, Goto_Non_Positive}"

definition solver_eps :: pyfloat where "solver_eps = f64 (1 / 10 ^ 12)"

definition multiplicative :: "numerics \<Rightarrow> pyfloat list \<Rightarrow> pyfloat list" where
  "multiplicative num q = map (\<lambda>x. np_div x (n_sum num q)) q"

type_synonym devigged = "pyfloat list \<times> fallback_reason option"

definition size_of :: "pyfloat list \<Rightarrow> pyfloat" where "size_of q = Fin (of_nat (length q))"

text \<open>The book sums to one already.\<close>

definition is_fair_book :: "pyfloat \<Rightarrow> bool" where
  "is_fair_book booksum = f_lt (f_abs (f_sub booksum (Fin 1))) solver_eps"

definition devig_additive :: "numerics \<Rightarrow> pyfloat list \<Rightarrow> devigged" where
  "devig_additive num q =
     (let share = np_div (f_sub (n_sum num q) (Fin 1)) (size_of q); p = map (\<lambda>x. f_sub x share) q in
      if list_ex (\<lambda>x. f_le x (Fin 0)) p then (multiplicative num q, Some Additive_Non_Positive) else (p, None))"

definition power_objective :: "numerics \<Rightarrow> pyfloat list \<Rightarrow> pyfloat \<Rightarrow> pyfloat" where
  "power_objective num q k = f_sub (n_sum num (map (\<lambda>x. n_power num x k) q)) (Fin 1)"

text \<open>The bracket search: the upper end is two to the power \<open>n\<close>, doubled while the objective is positive.\<close>

function power_bracket :: "(pyfloat \<Rightarrow> pyfloat) \<Rightarrow> nat \<Rightarrow> pyfloat option" where
  "power_bracket f n =
     (if f_lt (Fin 0) (f (Fin (2 ^ n)))
      then (if (2 :: rat) ^ Suc n > 1024 then None else power_bracket f (Suc n))
      else Some (Fin (2 ^ n)))"
  by pat_completeness auto

lemma power_gt_1024: "(2 :: rat) ^ Suc n > 1024 \<longleftrightarrow> 10 \<le> n"
  using power_strict_increasing_iff [of "2 :: rat" 10 "Suc n"] by (simp del: power_Suc) linarith

termination power_bracket
  by (relation "measure (\<lambda>(f, n). 10 - n)") (auto simp: power_gt_1024 simp del: power_Suc)

declare power_bracket.simps [simp del]

definition devig_power :: "numerics \<Rightarrow> pyfloat list \<Rightarrow> devigged" where
  "devig_power num q =
     (if is_fair_book (n_sum num q) then (q, None)
      else case power_bracket (power_objective num q) 0 of
          None \<Rightarrow> (multiplicative num q, Some Power_Solve_Failed)
        | Some hi \<Rightarrow> (case brentq num (power_objective num q) (f64 (1 / 1000)) hi of
              Inl _ \<Rightarrow> (multiplicative num q, Some Power_Solve_Failed)
            | Inr k \<Rightarrow> (map (\<lambda>x. n_power num x k) q, None)))"

text \<open>A search in the first bracket, or in the second one when the first raises \<open>ValueError\<close>; that error of
  the second is a fallback, any other error escapes.\<close>

definition two_brackets :: "numerics \<Rightarrow> (pyfloat \<Rightarrow> pyfloat) \<Rightarrow> (pyfloat \<Rightarrow> pyfloat list) \<Rightarrow> devigged \<Rightarrow> devigged res" where
  "two_brackets num f probs fallback =
     (case (case brentq num f (Fin 0) (Fin 20) of
              Inl ValueError \<Rightarrow> brentq num f (Fin (- 20)) (Fin 20)
            | r \<Rightarrow> r) of
        Inr c \<Rightarrow> Ok (probs c, None)
      | Inl ValueError \<Rightarrow> Ok fallback
      | Inl e \<Rightarrow> Raise e)"

definition safe_prob :: "pyfloat \<Rightarrow> pyfloat" where
  "safe_prob x = np_clip (f64 (1 / 10 ^ 15)) (f_sub (Fin 1) (f64 (1 / 10 ^ 15))) x"

definition inv_logit :: "numerics \<Rightarrow> pyfloat \<Rightarrow> pyfloat" where
  "inv_logit num x = np_div (Fin 1) (f_add (Fin 1) (n_exp num (f_neg x)))"

definition devig_logarithmic :: "numerics \<Rightarrow> pyfloat list \<Rightarrow> devigged res" where
  "devig_logarithmic num q =
     (if is_fair_book (n_sum num q) then Ok (q, None)
      else let log_odds = map (\<lambda>x. n_log num (np_div (safe_prob x) (f_sub (Fin 1) (safe_prob x)))) q;
               probs = (\<lambda>c. map (\<lambda>l. inv_logit num (f_sub l c)) log_odds) in
        two_brackets num (\<lambda>c. f_sub (n_sum num (probs c)) (Fin 1)) probs
          (multiplicative num q, Some Logarithmic_Solve_Failed))"

definition devig_probit :: "numerics \<Rightarrow> pyfloat list \<Rightarrow> devigged res" where
  "devig_probit num q =
     (if is_fair_book (n_sum num q) then Ok (q, None)
      else let z = map (\<lambda>x. n_ppf num (safe_prob x)) q;
               probs = (\<lambda>c. map (\<lambda>x. n_cdf num (f_sub x c)) z) in
        two_brackets num (\<lambda>c. f_sub (n_sum num (probs c)) (Fin 1)) probs
          (multiplicative num q, Some Probit_Solve_Failed))"

definition devig_differential_margin :: "numerics \<Rightarrow> pyfloat list \<Rightarrow> pyfloat list \<Rightarrow> devigged" where
  "devig_differential_margin num odds q =
     (let margin = f_sub (n_sum num q) (Fin 1); n = size_of odds;
          denom = map (\<lambda>o1. f_sub n (f_mul margin o1)) odds in
      if list_ex (\<lambda>x. f_le x (Fin 0)) denom then (multiplicative num q, Some Differential_Margin_Non_Positive)
      else let p = map2 (\<lambda>d o1. np_div d (f_mul n o1)) denom odds in
        if list_ex (\<lambda>x. f_le x (Fin 0)) p \<or> list_ex (\<lambda>x. f_le (Fin 1) x) p
        then (multiplicative num q, Some Differential_Margin_Out_Of_Range)
        else (p, None))"

definition devig_goto :: "numerics \<Rightarrow> pyfloat list \<Rightarrow> devigged" where
  "devig_goto num q =
     (if is_fair_book (n_sum num q) then (q, None)
      else let se = map (\<lambda>x. n_sqrt num (f_sub (Fin 1) x)) q;
               step = np_div (f_sub (n_sum num q) (Fin 1)) (n_sum num se);
               p = map2 (\<lambda>x s. f_sub x (f_mul step s)) q se in
        if list_ex (\<lambda>x. f_le x (Fin 0)) p then (multiplicative num q, Some Goto_Non_Positive) else (p, None))"

definition shin_probs :: "numerics \<Rightarrow> pyfloat list \<Rightarrow> pyfloat \<Rightarrow> pyfloat \<Rightarrow> pyfloat list" where
  "shin_probs num q booksum z =
     map (\<lambda>x. let inner = f_add (f_mul z z) (np_div (f_mul (f_mul (Fin 4) (f_sub (Fin 1) z)) (f_mul x x)) booksum) in
        np_div (f_sub (n_sqrt num (np_maximum0 inner)) z) (f_mul (Fin 2) (f_sub (Fin 1) z))) q"

definition shin_z_max :: pyfloat where "shin_z_max = f64 (999 / 1000)"

text \<open>The insider share of a two-outcome book, in closed form.\<close>

definition shin_two :: "numerics \<Rightarrow> pyfloat list \<Rightarrow> pyfloat \<Rightarrow> pyfloat \<Rightarrow> pyfloat \<Rightarrow> devigged" where
  "shin_two num q booksum q0 q1 =
     (let d = f_sub q0 q1; denom = f_mul booksum (f_sub (f_mul d d) (Fin 1)) in
      if f_le (f_abs denom) (f64 (1 / 10 ^ 15)) then (multiplicative num q, Some Shin_Degenerate)
      else let z2 = np_div (f_mul (f_sub booksum (Fin 1)) (f_sub (f_mul d d) booksum)) denom in
        (shin_probs num q booksum (f_min (f_max z2 (Fin 0)) shin_z_max), None))"

definition devig_shin :: "numerics \<Rightarrow> pyfloat list \<Rightarrow> devigged" where
  "devig_shin num q =
     (let booksum = n_sum num q in
      if f_le booksum (f_add (Fin 1) solver_eps)
      then (if is_fair_book booksum then (q, None) else (multiplicative num q, Some Shin_Underround))
      else case q of
          [q0, q1] \<Rightarrow> shin_two num q booksum q0 q1
        | _ \<Rightarrow> (let f = (\<lambda>z. f_sub (n_sum num (shin_probs num q booksum z)) (Fin 1)) in
            if f_lt (Fin 0) (f shin_z_max) then (multiplicative num q, Some Shin_Solve_Failed)
            else (case brentq num f (Fin 0) shin_z_max of
                Inl _ \<Rightarrow> (multiplicative num q, Some Shin_Solve_Failed)
              | Inr z \<Rightarrow> (shin_probs num q booksum z, None))))"

subsection \<open>Dispatch\<close>

definition devig_raw :: "numerics \<Rightarrow> pyfloat list \<Rightarrow> pyfloat list \<Rightarrow> devig_method \<Rightarrow> devigged res" where
  "devig_raw num odds q method = (case method of
     Multiplicative \<Rightarrow> Ok (multiplicative num q, None)
   | Additive \<Rightarrow> Ok (devig_additive num q)
   | Power \<Rightarrow> Ok (devig_power num q)
   | Shin \<Rightarrow> Ok (devig_shin num q)
   | Probit \<Rightarrow> devig_probit num q
   | Odds_Ratio \<Rightarrow> devig_logarithmic num q
   | Logarithmic \<Rightarrow> devig_logarithmic num q
   | Differential_Margin \<Rightarrow> Ok (devig_differential_margin num odds q)
   | Goto \<Rightarrow> Ok (devig_goto num q))"

definition normalise :: "numerics \<Rightarrow> pyfloat list \<Rightarrow> pyfloat list" where
  "normalise num p = map (\<lambda>x. np_div x (n_sum num p)) p"

definition devig_with_fallback :: "numerics \<Rightarrow> pyfloat list \<Rightarrow> devig_method \<Rightarrow> devigged res" where
  "devig_with_fallback num odds method =
     (if length odds < 2 then Raise ValueError
      else if list_ex (\<lambda>o1. f_le o1 (Fin 1)) odds then Raise ValueError
      else rmap (\<lambda>(p, reason). (normalise num p, reason))
             (devig_raw num odds (map (np_div (Fin 1)) odds) method))"

definition devig :: "numerics \<Rightarrow> pyfloat list \<Rightarrow> devig_method \<Rightarrow> pyfloat list res" where
  "devig num odds method = rmap fst (devig_with_fallback num odds method)"

definition devig_with_provenance :: "numerics \<Rightarrow> pyfloat list \<Rightarrow> devig_method \<Rightarrow> (pyfloat list \<times> bool) res" where
  "devig_with_provenance num odds method =
     rmap (\<lambda>(p, reason). (p, reason \<noteq> None)) (devig_with_fallback num odds method)"

definition devig_with_diagnostics :: "numerics \<Rightarrow> pyfloat list \<Rightarrow> devig_method \<Rightarrow> devigged res" where
  "devig_with_diagnostics num odds method = devig_with_fallback num odds method"

definition devig_fell_back :: "numerics \<Rightarrow> pyfloat list \<Rightarrow> devig_method \<Rightarrow> bool res" where
  "devig_fell_back num odds method = rmap (\<lambda>r. snd r \<noteq> None) (devig_with_fallback num odds method)"

subsection \<open>What holds whatever the library computes\<close>

lemma devig_dispatch:
  "length odds \<ge> 2 \<Longrightarrow> list_all (\<lambda>o1. \<not> f_le o1 (Fin 1)) odds \<Longrightarrow>
   devig_with_fallback num odds method
     = rmap (\<lambda>(p, reason). (normalise num p, reason)) (devig_raw num odds (map (np_div (Fin 1)) odds) method)"
  by (auto simp: devig_with_fallback_def list_all_iff list_ex_iff)

lemma two_brackets_cases:
  "two_brackets num f probs fb = Ok r \<Longrightarrow> (\<exists>c. r = (probs c, None)) \<or> r = fb"
  by (auto simp: two_brackets_def split: sum.splits py_error.splits)

lemma shin_probs_length: "length (shin_probs num q b z) = length q" by (simp add: shin_probs_def)

text \<open>A method either applies, or returns the proportional normalisation with a reason; the number of outcomes
  is kept.\<close>

lemma raw_shape:
  assumes "devig_raw num odds q dm = Ok (p, reason)" "length q = length odds"
  shows "length p = length q \<and> (reason \<noteq> None \<longrightarrow> p = multiplicative num q)"
proof (cases dm)
  case Shin
  then show ?thesis using assms
    by (auto simp: devig_raw_def devig_shin_def shin_two_def multiplicative_def shin_probs_length Let_def
        split: if_splits list.splits sum.splits) (simp_all add: shin_probs_def)
next
  case Probit
  then show ?thesis using assms
    by (auto simp: devig_raw_def devig_probit_def multiplicative_def Let_def dest!: two_brackets_cases split: if_splits)
next
  case Logarithmic
  then show ?thesis using assms
    by (auto simp: devig_raw_def devig_logarithmic_def multiplicative_def Let_def dest!: two_brackets_cases split: if_splits)
next
  case Odds_Ratio
  then show ?thesis using assms
    by (auto simp: devig_raw_def devig_logarithmic_def multiplicative_def Let_def dest!: two_brackets_cases split: if_splits)
qed (use assms in \<open>auto simp: devig_raw_def devig_additive_def devig_power_def devig_differential_margin_def devig_goto_def
      multiplicative_def Let_def split: if_splits option.splits sum.splits\<close>)

lemma raw_total:
  assumes "\<And>f a b e. brentq num f a b = Raise e \<Longrightarrow> e = ValueError"
  shows "\<exists>r. devig_raw num odds q dm = Ok r"
proof -
  have "\<exists>r. two_brackets num f probs fb = Ok r" for f probs fb
    using assms by (auto simp: two_brackets_def split: sum.splits py_error.splits)
  then have "\<exists>r. devig_logarithmic num q = Ok r" "\<exists>r. devig_probit num q = Ok r"
    by (simp_all add: devig_logarithmic_def devig_probit_def Let_def)
  then show ?thesis by (cases dm) (auto simp: devig_raw_def)
qed

text \<open>Devigging raises exactly on a market of fewer than two outcomes or with a price of one or less, as long as
  the root finder only fails by \<open>ValueError\<close>; otherwise it returns one probability per outcome, a fallback
  returns exactly what the proportional method returns, the proportional method never falls back, and
  the odds-ratio method is the logarithmic one.\<close>

theorem devig_fallback_is_multiplicative:
  assumes "\<And>f a b e. brentq num f a b = Raise e \<Longrightarrow> e = ValueError"
  shows "(if length odds < 2 \<or> list_ex (\<lambda>o1. f_le o1 (Fin 1)) odds then devig_with_fallback num odds dm = Raise ValueError
      else \<exists>p reason. devig_with_fallback num odds dm = Ok (p, reason) \<and> length p = length odds
        \<and> (reason = None \<or> devig num odds Multiplicative = Ok p))
    \<and> devig_fell_back num odds Multiplicative \<noteq> Ok True
    \<and> devig_with_fallback num odds Odds_Ratio = devig_with_fallback num odds Logarithmic"
proof (intro conjI)
  show "devig_fell_back num odds Multiplicative \<noteq> Ok True"
    by (simp add: devig_fell_back_def devig_with_fallback_def devig_raw_def)
  show "devig_with_fallback num odds Odds_Ratio = devig_with_fallback num odds Logarithmic"
    by (simp add: devig_with_fallback_def devig_raw_def)
  show "if length odds < 2 \<or> list_ex (\<lambda>o1. f_le o1 (Fin 1)) odds then devig_with_fallback num odds dm = Raise ValueError
      else \<exists>p reason. devig_with_fallback num odds dm = Ok (p, reason) \<and> length p = length odds
        \<and> (reason = None \<or> devig num odds Multiplicative = Ok p)"
  proof (cases "length odds < 2 \<or> list_ex (\<lambda>o1. f_le o1 (Fin 1)) odds")
    case True
    then have "devig_with_fallback num odds dm = Raise ValueError" by (auto simp: devig_with_fallback_def)
    then show ?thesis using True by simp
  next
    case False
    then have ok: "length odds \<ge> 2" "list_all (\<lambda>o1. \<not> f_le o1 (Fin 1)) odds" by (auto simp: list_all_iff list_ex_iff)
    define q where "q = map (np_div (Fin 1)) odds"
    obtain p reason where r: "devig_raw num odds q dm = Ok (p, reason)"
      using raw_total [where num = num and odds = odds and q = q and dm = dm] assms by fastforce
    have "devig_with_fallback num odds dm = Ok (normalise num p, reason)"
      using devig_dispatch [OF ok] r by (simp add: q_def)
    moreover have "devig num odds Multiplicative = Ok (normalise num (multiplicative num q))"
      using devig_dispatch [OF ok] by (simp add: devig_def devig_raw_def q_def)
    moreover have "length (normalise num p) = length odds" using raw_shape [OF r] by (simp add: normalise_def q_def)
    ultimately show ?thesis using False raw_shape [OF r] by (auto simp: q_def)
  qed
qed

text \<open>A library whose root finder never finds a bracket.\<close>

definition no_solver :: numerics where
  "no_solver = \<lparr>n_sum = (\<lambda>xs. foldl f_add (Fin 0) xs), n_power = (\<lambda>x k. x), n_exp = (\<lambda>x. x), n_log = (\<lambda>x. x),
     n_sqrt = (\<lambda>x. x), n_ppf = (\<lambda>x. x), n_cdf = (\<lambda>x. x), brentq = (\<lambda>f a b. Raise ValueError)\<rparr>"

lemma devig_fallback_is_multiplicative_witness:
  "\<exists>p reason. devig_with_fallback no_solver [Fin 2, Fin (3 / 2)] Power = Ok (p, reason) \<and> length p = 2
     \<and> (reason = None \<or> devig no_solver [Fin 2, Fin (3 / 2)] Multiplicative = Ok p)"
proof -
  have "\<not> list_ex (\<lambda>o1. f_le o1 (Fin 1)) [Fin 2, Fin (3 / 2)]" by simp
  moreover have "brentq no_solver f a b = Raise e \<Longrightarrow> e = ValueError" for f a b e by (simp add: no_solver_def)
  ultimately show ?thesis
    using devig_fallback_is_multiplicative [of no_solver "[Fin 2, Fin (3 / 2)]" Power] by (simp add: numeral_2_eq_2)
qed

subsection \<open>The proportional method\<close>

definition price_ok :: "pyfloat \<Rightarrow> bool" where
  "price_ok o1 = (case o1 of Fin x \<Rightarrow> 1 < x \<and> is_f64 x | _ \<Rightarrow> False)"

lemma np_div_Fin: "b \<noteq> 0 \<Longrightarrow> np_div (Fin a) (Fin b) = f64 (a / b)" by (simp add: np_div_def)

lemma inverse_price:
  assumes "price_ok o1" shows "float_in (np_div (Fin 1) o1) 1"
proof -
  obtain x where x: "o1 = Fin x" "1 < x" using assms by (auto simp: price_ok_def split: pyfloat.splits)
  then show ?thesis by (simp add: np_div_Fin float_in_f64)
qed

lemma inverse_price_antimono:
  assumes "price_ok a" "price_ok b" "f_le a b" shows "f_le (np_div (Fin 1) b) (np_div (Fin 1) a)"
proof -
  obtain x y where "a = Fin x" "1 < x" "b = Fin y" "1 < y" "x \<le> y"
    using assms by (auto simp: price_ok_def split: pyfloat.splits)
  then show ?thesis by (simp add: np_div_Fin f64_mono frac_le)
qed

text \<open>Division by a total that is positive and no smaller than the elements keeps them in the unit interval and
  in order.\<close>

lemma share_in: "float_in x 1 \<Longrightarrow> 0 < s \<Longrightarrow> f_le x (Fin s) \<Longrightarrow> float_in (np_div x (Fin s)) 1"
  by (elim float_inE) (simp add: np_div_Fin float_in_f64)

lemma share_mono: "float_in x 1 \<Longrightarrow> float_in y 1 \<Longrightarrow> 0 < s \<Longrightarrow> f_le x y \<Longrightarrow> f_le (np_div x (Fin s)) (np_div y (Fin s))"
  by (elim float_inE) (simp add: np_div_Fin f64_mono divide_right_mono)

text \<open>The sum of an array is finite, positive and not below any element: so it is for the arrays of a market.\<close>

definition sums_up :: "numerics \<Rightarrow> pyfloat list \<Rightarrow> bool" where
  "sums_up num xs = (case n_sum num xs of Fin s \<Rightarrow> 0 < s \<and> list_all (\<lambda>x. f_le x (Fin s)) xs | _ \<Rightarrow> False)"

lemma normalise_shares:
  assumes "sums_up num xs" "list_all (\<lambda>x. float_in x 1) xs"
  shows "list_all (\<lambda>x. float_in x 1) (normalise num xs)
    \<and> (i < length xs \<longrightarrow> j < length xs \<longrightarrow> f_le (xs ! i) (xs ! j) \<longrightarrow> f_le (normalise num xs ! i) (normalise num xs ! j))"
proof -
  obtain s where s: "n_sum num xs = Fin s" "0 < s" "list_all (\<lambda>x. f_le x (Fin s)) xs"
    using assms(1) by (auto simp: sums_up_def split: pyfloat.splits)
  have "float_in (xs ! k) 1" if "k < length xs" for k using assms(2) that by (simp add: list_all_length)
  then show ?thesis using s assms(2) share_in share_mono by (auto simp: normalise_def list_all_iff)
qed

text \<open>On a market of finite prices above one, proportional devigging returns numbers between zero and one, and a
  shorter price never gets a smaller probability.\<close>

theorem multiplicative_orders_prices:
  assumes "length odds \<ge> 2" "list_all price_ok odds"
    and "sums_up num (map (np_div (Fin 1)) odds)" "sums_up num (multiplicative num (map (np_div (Fin 1)) odds))"
    and "i < length odds" "j < length odds" "f_le (odds ! i) (odds ! j)"
  shows "\<exists>p. devig num odds Multiplicative = Ok p \<and> length p = length odds \<and> list_all (\<lambda>x. float_in x 1) p
    \<and> f_le (p ! j) (p ! i)"
proof -
  define q where "q = map (np_div (Fin 1)) odds"
  have m: "multiplicative num xs = normalise num xs" for xs by (simp add: multiplicative_def normalise_def)
  have "price_ok o1 \<Longrightarrow> \<not> f_le o1 (Fin 1)" for o1 by (cases o1) (simp_all add: price_ok_def)
  then have ok: "list_all (\<lambda>o1. \<not> f_le o1 (Fin 1)) odds" using assms(2) by (auto simp: list_all_iff)
  have q: "list_all (\<lambda>x. float_in x 1) q" using assms(2) inverse_price by (auto simp: q_def list_all_iff)
  have le: "f_le (q ! j) (q ! i)" using assms inverse_price_antimono by (simp add: q_def list_all_length)
  note n1 = normalise_shares [OF assms(3) [folded q_def] q, of j i]
  then have p: "list_all (\<lambda>x. float_in x 1) (normalise num q)" by blast
  have le2: "f_le (normalise num q ! j) (normalise num q ! i)" using n1 le assms(5, 6) by (simp add: q_def)
  note n2 = normalise_shares [OF assms(4) [folded q_def, unfolded m] p, of j i]
  have "devig num odds Multiplicative = Ok (normalise num (normalise num q))"
    using devig_dispatch [OF assms(1) ok] by (simp add: devig_def devig_raw_def q_def m)
  then show ?thesis using n2 le2 assms(5, 6) by (auto simp: normalise_def q_def)
qed

lemma multiplicative_orders_prices_witness:
  "\<exists>p. devig no_solver [Fin (3 / 2), Fin 2] Multiplicative = Ok p \<and> f_le (p ! 1) (p ! 0)"
proof -
  have "\<exists>p. devig no_solver [Fin (3 / 2), Fin 2] Multiplicative = Ok p \<and> length p = length [Fin (3 / 2), Fin 2]
     \<and> list_all (\<lambda>x. float_in x 1) p \<and> f_le (p ! 1) (p ! 0)"
  proof (rule multiplicative_orders_prices)
    show "list_all price_ok [Fin (3 / 2), Fin 2]" by code_simp
    show "sums_up no_solver (map (np_div (Fin 1)) [Fin (3 / 2), Fin 2])" by code_simp
    show "sums_up no_solver (multiplicative no_solver (map (np_div (Fin 1)) [Fin (3 / 2), Fin 2]))" by code_simp
  qed simp_all
  then show ?thesis by blast
qed

end
