(* ===== verification/PyStats.thy ===== *)
theory PyStats
  imports Staking "HOL-Library.Multiset"
begin

text \<open>
  Ordering floats, the built-in \<^verbatim>\<open>sum\<close> of floats and \<^verbatim>\<open>statistics.median\<close>.  On everything but NaN the order
  is Python's \<^verbatim>\<open><\<close>; NaN is put last.  Since version 3.12 the built-in sum of floats is compensated
  (Neumaier's algorithm).  The lemmas bound the median by the values around it: one outlier among
  three or more values cannot carry it past the others.
\<close>

subsection \<open>The order of floats\<close>

instantiation pyfloat :: linorder
begin

definition less_eq_pyfloat :: "pyfloat \<Rightarrow> pyfloat \<Rightarrow> bool" where
  "a \<le> b \<longleftrightarrow> f_le a b \<or> b = NaN"

definition less_pyfloat :: "pyfloat \<Rightarrow> pyfloat \<Rightarrow> bool" where
  "a < b \<longleftrightarrow> a \<le> b \<and> \<not> b \<le> (a :: pyfloat)"

instance
proof
  fix x y z :: pyfloat
  show "x \<le> x" by (cases x) (simp_all add: less_eq_pyfloat_def)
  show "x \<le> y \<Longrightarrow> y \<le> z \<Longrightarrow> x \<le> z" by (cases x; cases y; cases z) (simp_all add: less_eq_pyfloat_def)
  show "x \<le> y \<Longrightarrow> y \<le> x \<Longrightarrow> x = y" by (cases x; cases y) (simp_all add: less_eq_pyfloat_def)
  show "x \<le> y \<or> y \<le> x" by (cases x; cases y) (auto simp: less_eq_pyfloat_def)
qed (simp add: less_pyfloat_def)

end

lemma pyfloat_le: "b \<noteq> NaN \<Longrightarrow> a \<le> b \<longleftrightarrow> f_le a b"
  by (simp add: less_eq_pyfloat_def)

lemma pyfloat_less: "a \<noteq> NaN \<Longrightarrow> b \<noteq> NaN \<Longrightarrow> a < b \<longleftrightarrow> f_lt a b"
  by (cases a; cases b) (auto simp: less_pyfloat_def less_eq_pyfloat_def f_lt_def)

lemma Fin_le [simp]: "Fin a \<le> Fin b \<longleftrightarrow> a \<le> b"
  by (simp add: less_eq_pyfloat_def)

subsection \<open>The built-in sum\<close>

definition f_ge_abs :: "pyfloat \<Rightarrow> pyfloat \<Rightarrow> bool" where
  "f_ge_abs a b = f_le (f_abs b) (f_abs a)"

text \<open>One step: the running sum and its compensation.\<close>

definition sum_step :: "pyfloat \<times> pyfloat \<Rightarrow> pyfloat \<Rightarrow> pyfloat \<times> pyfloat" where
  "sum_step = (\<lambda>(r, c) x. let t = f_add r x in
     (t, f_add c (if f_ge_abs r x then f_add (f_sub r t) x else f_add (f_sub x t) r)))"

definition py_sum :: "pyfloat list \<Rightarrow> pyfloat" where
  "py_sum xs = (case xs of [] \<Rightarrow> Fin 0
     | x # ys \<Rightarrow> (case foldl sum_step (x, Fin 0) ys of (r, c) \<Rightarrow>
         if c \<noteq> Fin 0 \<and> isfinite c then f_add r c else r))"

subsection \<open>The median\<close>

definition mean2 :: "pyfloat \<Rightarrow> pyfloat \<Rightarrow> pyfloat" where
  "mean2 a b = (case f_add a b of Fin s \<Rightarrow> f64 (s / 2) | f \<Rightarrow> f)"

definition median :: "pyfloat list \<Rightarrow> pyfloat" where
  "median xs = (let s = sort xs; n = length xs in
     if odd n then s ! (n div 2) else mean2 (s ! (n div 2 - 1)) (s ! (n div 2)))"

lemma median_perm: "mset xs = mset ys \<Longrightarrow> median xs = median ys"
  using properties_for_sort [of "sort xs" ys] mset_eq_length [of xs ys] by (simp add: median_def)

lemma is_f64_double:
  assumes "is_f64 x" "\<bar>x\<bar> < 2 ^ 1023" shows "is_f64 (2 * x)"
proof -
  obtain m e where x: "x = of_int m * 2 powi e" "\<bar>m\<bar> \<le> 2 ^ 53" "- 1074 \<le> e" using is_f64_repr [OF assms(1)] by blast
  have d: "2 * x = of_int m * 2 powi (e + 1)" by (simp add: x(1) power_int_add_1)
  have "rnd (of_int m * 2 powi (e + 1)) = (of_int m * 2 powi (e + 1) :: rat)"
  proof (cases "\<bar>m\<bar> < 2 ^ 53")
    case True
    then show ?thesis using x(3) by (intro rnd_dyadic) simp_all
  next
    case False
    then consider "m = 1 * 2 ^ 53" | "m = - 1 * 2 ^ 53" using x(2) by linarith
    then obtain k where k: "m = k * 2 ^ 53" "\<bar>k\<bar> = 1" by (metis abs_1 abs_minus_cancel)
    have "(2 :: rat) powi (e + 54) = 2 ^ 53 * 2 powi (e + 1)" using powi_split [of "e + 1" "e + 54"] by simp
    then have "of_int m * 2 powi (e + 1) = (of_int k * 2 powi (e + 54) :: rat)" by (simp add: k(1))
    then show ?thesis using rnd_dyadic [of k "e + 54"] k(2) x(3) by simp
  qed
  then have "rnd (2 * x) = 2 * x" by (simp only: d)
  moreover have "\<bar>2 * x\<bar> < 2 ^ 1024" using assms(2) by (simp add: abs_mult)
  ultimately show ?thesis by (simp add: is_f64_def)
qed

text \<open>A price: a finite float of moderate size.\<close>

definition moderate :: "pyfloat \<Rightarrow> bool" where
  "moderate f = (case f of Fin x \<Rightarrow> is_f64 x \<and> \<bar>x\<bar> < 2 ^ 1023 | _ \<Rightarrow> False)"

lemma moderate_int: assumes "\<bar>n\<bar> < 2 ^ 53" shows "moderate (Fin (of_int n))"
proof -
  have "\<bar>of_int n :: rat\<bar> < 2 ^ 53" using assms by (simp flip: of_int_abs)
  also have "(2 :: rat) ^ 53 < 2 ^ 1023" by (rule power_strict_increasing) simp_all
  finally show ?thesis using is_f64_of_int [OF assms] by (simp add: moderate_def)
qed

lemma mean2_between:
  assumes "moderate a" "moderate b" "a \<le> b" shows "a \<le> mean2 a b \<and> mean2 a b \<le> b"
proof -
  obtain x y where xy: "a = Fin x" "is_f64 x" "\<bar>x\<bar> < 2 ^ 1023" "b = Fin y" "is_f64 y" "\<bar>y\<bar> < 2 ^ 1023" "x \<le> y"
    using assms by (auto simp: moderate_def split: pyfloat.splits)
  define s where "s = rnd (x + y)"
  have s: "f64 (x + y) = Fin s" "2 * x \<le> s" "s \<le> 2 * y"
    using f64_Fin_between [OF is_f64_double [OF xy(2, 3)] is_f64_double [OF xy(5, 6)], of "x + y"] xy(7) by (auto simp: s_def)
  then have "f64 (s / 2) = Fin (rnd (s / 2)) \<and> x \<le> rnd (s / 2) \<and> rnd (s / 2) \<le> y"
    using f64_Fin_between [OF xy(2, 5), of "s / 2"] by auto
  then show ?thesis using s by (simp add: mean2_def xy(1, 4))
qed

lemma median_two:
  assumes "length xs \<ge> 1" "list_all moderate xs"
  shows "sort xs ! ((length xs - 1) div 2) \<le> median xs \<and> median xs \<le> sort xs ! (length xs div 2)"
proof (cases "odd (length xs)")
  case True
  then have "(length xs - 1) div 2 = length xs div 2" by (auto elim: oddE)
  then show ?thesis using True by (simp add: median_def)
next
  case False
  define m where "m = length xs div 2"
  have m: "length xs = 2 * m" "m \<ge> 1" "(length xs - 1) div 2 = m - 1" using False assms(1) by (auto simp: m_def elim!: evenE)
  have mod: "moderate (sort xs ! i)" if "i < length xs" for i
    using assms(2) that nth_mem [of i "sort xs"] by (auto simp: list_all_iff)
  have "sort xs ! (m - 1) \<le> sort xs ! m" using m by (intro sorted_nth_mono) simp_all
  then show ?thesis using mean2_between [of "sort xs ! (m - 1)" "sort xs ! m"] mod m by (simp add: median_def Let_def m_def [symmetric])
qed

text \<open>Without any one of its values, the others still surround the median of three or more values.\<close>

lemma median_outlier:
  assumes "mset xs = mset (x # ys)" "length ys \<ge> 2" "list_all moderate xs"
  shows "(\<exists>lo \<in> set ys. lo \<le> median xs) \<and> (\<exists>hi \<in> set ys. median xs \<le> hi)"
proof -
  define s where "s = sort xs"
  define n where "n = length s"
  have ms: "mset s = mset (x # ys)" using assms(1) by (simp add: s_def)
  then have "length s = length (x # ys)" by (rule mset_eq_length)
  then have n: "n \<ge> 3" "length xs = n" using assms(2) by (auto simp: n_def s_def)
  have ys: "mset ys = mset s - {#x#}" using ms by simp
  have other: "s ! i \<in> set ys \<or> s ! j \<in> set ys" if ij: "i < j" "j < n" for i j
  proof -
    have s: "s = take i s @ s ! i # drop (Suc i) s" using ij by (simp add: n_def id_take_nth_drop)
    have "s ! j \<in> set (drop (Suc i) s)"
      using ij nth_mem [of "j - Suc i" "drop (Suc i) s"] by (simp add: n_def)
    then have "{#s ! i, s ! j#} \<subseteq># mset s"
      by (subst s) (simp add: insert_subset_eq_iff)
    then have c: "count {#s ! i, s ! j#} z \<le> count (mset s) z" for z by (simp add: subseteq_mset_def)
    have "s ! i \<in># mset s - {#x#} \<or> s ! j \<in># mset s - {#x#}"
      using c [of "s ! i"] c [of "s ! j"] nth_mem [of i s] ij by (auto simp: in_diff_count n_def split: if_splits)
    then show ?thesis using ys by (metis set_mset_mset)
  qed
  have le: "s ! i \<le> s ! j" if "i \<le> j" "j < n" for i j using that unfolding s_def n_def by (intro sorted_nth_mono) simp_all
  have med: "s ! ((n - 1) div 2) \<le> median xs" "median xs \<le> s ! (n div 2)"
    using median_two [of xs] assms(3) n by (simp_all add: s_def)
  have at: "1 \<le> (n - 1) div 2" "(n - 1) div 2 < n" "n div 2 \<le> n - 1" "n div 2 \<le> n - 2" "n - 1 < n" "n - 2 < n"
    using n(1) by presburger+
  have lo: "s ! 0 \<le> median xs" "s ! 1 \<le> median xs"
    using le [of 0 "(n - 1) div 2"] le [of 1 "(n - 1) div 2"] med(1) at(1, 2) by (auto intro: order_trans)
  have hi: "median xs \<le> s ! (n - 1)" "median xs \<le> s ! (n - 2)"
    using le [of "n div 2" "n - 1"] le [of "n div 2" "n - 2"] med(2) at(3-) by (auto intro: order_trans)
  have o: "n - 2 < n - 1" "(0 :: nat) < 1" "1 < n" using n(1) by linarith+
  show ?thesis
  proof
    show "\<exists>lo \<in> set ys. lo \<le> median xs" using other [OF o(2, 3)] lo by (elim disjE) (rule bexI, assumption, assumption)+
    show "\<exists>hi \<in> set ys. median xs \<le> hi" using other [OF o(1) at(5)] hi by (elim disjE) (rule bexI, assumption, assumption)+
  qed
qed

end
