(* ===== verification/ValueScan.thy ===== *)
theory ValueScan
  imports Pricing PyStats Devig PyTime "HOL-Library.AList"
begin

text \<open>
  The value finder of \<^verbatim>\<open>app/edge/value.py\<close>: the choice of a fair-value anchor for a market, the guard
  against swapped anchors, the scan of the other books' prices against the fair probabilities, and the
  candidate-level guards.  Dictionaries are association lists in insertion order with distinct keys.  The
  anchor is modelled with the log-odds pool switched off, its default; that pool is not modelled.
\<close>

type_synonym 'v dict = "(string \<times> 'v) list"
type_synonym prices = "pyfloat dict dict"

definition dict_get :: "'v dict \<Rightarrow> string \<Rightarrow> 'v option" where
  "dict_get d k = map_of d k"

definition lookup_book :: "'v dict \<Rightarrow> string \<Rightarrow> 'v option" where
  "lookup_book book_odds nb = map_option snd (find (\<lambda>e. norm_book (fst e) = nb) book_odds)"

definition overround :: "pyfloat list \<Rightarrow> pyfloat res" where
  "overround odds = rmap (\<lambda>qs. f_sub (py_sum qs) (Fin 1)) (rmapM (f_div (Fin 1)) odds)"

definition sane_overround :: "pyfloat \<Rightarrow> pyfloat list \<Rightarrow> bool res" where
  "sane_overround max_overround odds = rmap (\<lambda>o1. f_le (Fin 0) o1 \<and> f_le o1 max_overround) (overround odds)"

subsection \<open>The named sharp anchor\<close>

datatype sharp_miss = Miss_No_Full_Market | Miss_Liquidity_Floor | Miss_Exchange_Demoted | Miss_Overround

record anchor_config =
  ac_sharp_books :: "string list"
  ac_commissions :: commissions
  ac_max_overround :: pyfloat
  ac_liquidity :: "pyfloat option dict dict"
  ac_min_liquidity :: pyfloat
  ac_exchange_demoted :: bool

text \<open>The quotes of one book for every selection, or nothing when it leaves one out.\<close>

definition full_market_quotes :: "prices \<Rightarrow> string \<Rightarrow> pyfloat list option" where
  "full_market_quotes prices pref =
     (let qs = map (\<lambda>e. lookup_book (snd e) pref) prices in
      if None \<in> set qs then None else Some (map the qs))"

definition is_exchange :: "commissions \<Rightarrow> string \<Rightarrow> bool" where
  "is_exchange cs book = (map_of cs (norm_book book) \<noteq> None)"

definition known_thin :: "anchor_config \<Rightarrow> prices \<Rightarrow> string \<Rightarrow> bool" where
  "known_thin cfg prices pref = list_ex (\<lambda>e.
     case dict_get (ac_liquidity cfg) (fst e) of
       None \<Rightarrow> False
     | Some books \<Rightarrow> (case lookup_book books (norm_book pref) of
           Some (Some lq) \<Rightarrow> f_lt lq (ac_min_liquidity cfg)
         | _ \<Rightarrow> False)) prices"

text \<open>The first raw spelling of a book, in the order of the selections and of their quotes.\<close>

definition raw_name :: "prices \<Rightarrow> string \<Rightarrow> string res" where
  "raw_name prices pref = (case find (\<lambda>b. norm_book b = pref) (concat (map (map fst \<circ> snd) prices)) of
     Some b \<Rightarrow> Ok b | None \<Rightarrow> Raise KeyError)"

definition first_miss :: "sharp_miss option \<Rightarrow> sharp_miss \<Rightarrow> sharp_miss option" where
  "first_miss seen m = (case seen of None \<Rightarrow> Some m | Some s \<Rightarrow> Some s)"

type_synonym sharp_result = "(string \<times> pyfloat list) option \<times> sharp_miss option"

fun sharp_loop :: "anchor_config \<Rightarrow> prices \<Rightarrow> sharp_miss option \<Rightarrow> string list \<Rightarrow> sharp_result res" where
  "sharp_loop cfg prices miss [] = Ok (None, Some (case miss of Some m \<Rightarrow> m | None \<Rightarrow> Miss_No_Full_Market))"
| "sharp_loop cfg prices miss (pref # prefs) =
     (case full_market_quotes prices pref of
        None \<Rightarrow> sharp_loop cfg prices miss prefs
      | Some gross \<Rightarrow>
          if f_lt (Fin 0) (ac_min_liquidity cfg) \<and> is_exchange (ac_commissions cfg) pref \<and> known_thin cfg prices pref
            then sharp_loop cfg prices (first_miss miss Miss_Liquidity_Floor) prefs
          else if ac_exchange_demoted cfg \<and> is_exchange (ac_commissions cfg) pref
            then sharp_loop cfg prices (first_miss miss Miss_Exchange_Demoted) prefs
          else rbind (sane_overround (ac_max_overround cfg) (map (effective_odds_in (ac_commissions cfg) pref) gross)) (\<lambda>sane.
            if sane then rmap (\<lambda>b. (Some (b, gross), None)) (raw_name prices pref)
            else sharp_loop cfg prices (first_miss miss Miss_Overround) prefs))"

definition named_sharp_anchor :: "anchor_config \<Rightarrow> prices \<Rightarrow> sharp_result res" where
  "named_sharp_anchor cfg prices = sharp_loop cfg prices None (ac_sharp_books cfg)"

subsection \<open>The consensus anchor\<close>

definition min_consensus_books :: nat where "min_consensus_books = 3"

definition common_books :: "prices \<Rightarrow> string set" where
  "common_books prices = foldr (\<lambda>e s. (norm_book ` fst ` set (snd e)) \<inter> s) (tl prices) (norm_book ` fst ` set (snd (hd prices)))"

text \<open>Per normalized book the best price net of commission, with the gross price it comes from.\<close>

definition keep_best :: "commissions \<Rightarrow> string set \<Rightarrow> (pyfloat \<times> pyfloat) dict \<Rightarrow> string \<times> pyfloat \<Rightarrow> (pyfloat \<times> pyfloat) dict" where
  "keep_best cs books d e = (let nb = norm_book (fst e); net = effective_odds_in cs (fst e) (snd e) in
     if nb \<notin> books then d
     else case map_of d nb of
         None \<Rightarrow> AList.update nb (net, snd e) d
       | Some (best, _) \<Rightarrow> if f_lt best net then AList.update nb (net, snd e) d else d)"

definition best_by_book :: "commissions \<Rightarrow> string set \<Rightarrow> pyfloat dict \<Rightarrow> (pyfloat \<times> pyfloat) dict" where
  "best_by_book cs books quotes = foldl (keep_best cs books) [] quotes"

definition consensus_prices :: "anchor_config \<Rightarrow> prices \<Rightarrow> (string \<times> pyfloat list) option res" where
  "consensus_prices cfg prices =
     (let books = common_books prices in
      if card books < min_consensus_books then Ok None
      else let per = map (\<lambda>e. map snd (best_by_book (ac_commissions cfg) books (snd e))) prices in
        rmap (\<lambda>sane. if sane then Some (consensus_anchor, map (median \<circ> map snd) per) else None)
          (sane_overround (ac_max_overround cfg) (map (median \<circ> map fst) per)))"

subsection \<open>Fair probabilities of a market\<close>

record anchored =
  an_book :: string
  an_fair :: "pyfloat dict"
  an_fell_back :: bool

definition anchor_fair_probs_with_provenance ::
    "numerics \<Rightarrow> devig_method \<Rightarrow> anchor_config \<Rightarrow> prices \<Rightarrow> (anchored option \<times> sharp_miss option) res" where
  "anchor_fair_probs_with_provenance num method cfg prices =
     (if length prices < 2 \<or> \<not> distinct (map fst prices) then Ok (None, None)
      else rbind (named_sharp_anchor cfg prices) (\<lambda>(sharp, miss).
        rbind (case sharp of Some a \<Rightarrow> Ok (Some a) | None \<Rightarrow> consensus_prices cfg prices) (\<lambda>anchor.
          case anchor of
            None \<Rightarrow> Ok (None, miss)
          | Some (book, odds) \<Rightarrow> rmap (\<lambda>(fair, fell).
              (Some \<lparr>an_book = book, an_fair = zip (map fst prices) fair, an_fell_back = fell\<rparr>, miss))
              (devig_with_provenance num odds method))))"

definition anchor_fair_probs :: "numerics \<Rightarrow> devig_method \<Rightarrow> anchor_config \<Rightarrow> prices \<Rightarrow> (string \<times> pyfloat dict) option res" where
  "anchor_fair_probs num method cfg prices =
     rmap (\<lambda>r. map_option (\<lambda>a. (an_book a, an_fair a)) (fst r)) (anchor_fair_probs_with_provenance num method cfg prices)"

text \<open>Double chance from the match odds: the pairwise sums.\<close>

definition double_chance_fair :: "pyfloat dict \<Rightarrow> string \<Rightarrow> string \<Rightarrow> string \<Rightarrow> pyfloat dict" where
  "double_chance_fair h2h_fair home away draw =
     (case (dict_get h2h_fair home, dict_get h2h_fair draw, dict_get h2h_fair away) of
        (Some h, Some d, Some a) \<Rightarrow>
          AList.update (draw @ '' or '' @ away) (f_add d a)
            (AList.update (home @ '' or '' @ away) (f_add h a) [(home @ '' or '' @ draw, f_add h d)])
      | _ \<Rightarrow> [])"

subsection \<open>The swap guard\<close>

definition anchor_swap_tolerance :: pyfloat where "anchor_swap_tolerance = f64 (10 / 100)"

text \<open>Per normalized book the lowest implied probability of one selection.\<close>

definition keep_lowest :: "commissions \<Rightarrow> pyfloat dict res \<Rightarrow> string \<times> pyfloat \<Rightarrow> pyfloat dict res" where
  "keep_lowest cs acc e = rbind acc (\<lambda>d.
     if f_le (snd e) (Fin 1) then Ok d
     else rmap (\<lambda>implied. let nb = norm_book (fst e) in
         case map_of d nb of
           None \<Rightarrow> AList.update nb implied d
         | Some low \<Rightarrow> if f_lt implied low then AList.update nb implied d else d)
       (f_div (Fin 1) (effective_odds_in cs (fst e) (snd e))))"

definition lowest_by_book :: "commissions \<Rightarrow> pyfloat dict \<Rightarrow> pyfloat dict res" where
  "lowest_by_book cs quotes = foldl (keep_lowest cs) (Ok []) quotes"

fun consensus_refs :: "prices \<Rightarrow> commissions \<Rightarrow> string list \<Rightarrow> pyfloat dict option res" where
  "consensus_refs prices cs [] = Ok (Some [])"
| "consensus_refs prices cs (sel # sels) =
     rbind (lowest_by_book cs (case dict_get prices sel of Some q \<Rightarrow> q | None \<Rightarrow> [])) (\<lambda>by_norm.
       if length by_norm < min_consensus_books then Ok None
       else rmap (map_option (Cons (sel, median (map snd by_norm)))) (consensus_refs prices cs sels))"

definition consensus_implied :: "prices \<Rightarrow> pyfloat dict \<Rightarrow> commissions \<Rightarrow> pyfloat dict option res" where
  "consensus_implied prices fair cs =
     rbind (consensus_refs prices cs (map fst fair)) (\<lambda>refs. case refs of
         None \<Rightarrow> Ok None
       | Some ref \<Rightarrow> (let s = py_sum (map snd ref) in
           if f_le s (Fin 0) then Ok None
           else rmap (\<lambda>qs. Some (zip (map fst ref) qs)) (rmapM (\<lambda>p. f_div p s) (map snd ref))))"

definition get0 :: "pyfloat dict \<Rightarrow> string \<Rightarrow> pyfloat" where
  "get0 d k = (case map_of d k of Some v \<Rightarrow> v | None \<Rightarrow> NaN)"

definition inverts :: "pyfloat dict \<Rightarrow> pyfloat dict \<Rightarrow> pyfloat \<Rightarrow> string \<Rightarrow> string \<Rightarrow> bool" where
  "inverts ref fair tolerance a b =
     (f_lt tolerance (f_sub (get0 ref a) (get0 ref b)) \<and> f_le (get0 fair a) (get0 fair b))"

definition anchor_disagrees_with_consensus :: "prices \<Rightarrow> pyfloat dict \<Rightarrow> commissions \<Rightarrow> pyfloat \<Rightarrow> bool res" where
  "anchor_disagrees_with_consensus prices fair cs tolerance =
     rmap (\<lambda>ref. case ref of
         None \<Rightarrow> False
       | Some ref \<Rightarrow> list_ex (\<lambda>a. list_ex (inverts ref fair tolerance a) (map fst fair)) (map fst fair))
       (consensus_implied prices fair cs)"

subsection \<open>The scan\<close>

record value_bet =
  selection :: string
  best_book :: string
  best_odds :: pyfloat
  best_odds_effective :: pyfloat
  sharp_book :: string
  sharp_fair_prob :: pyfloat
  implied_prob :: pyfloat
  edge :: pyfloat
  ev :: pyfloat
  sharp_devig_fell_back :: bool
  theoretical_best_book :: string
  theoretical_best_odds :: pyfloat
  theoretical_best_odds_effective :: pyfloat
  theoretical_edge :: pyfloat
  fill_gap :: pyfloat

type_synonym fill = "string \<times> pyfloat \<times> pyfloat"

text \<open>A quote that may be the price of a pick: a book that is neither the anchor nor sharp, on the allowlist
  when there is one, at more than even money back.\<close>

definition fillable :: "string \<Rightarrow> string set \<Rightarrow> string \<times> pyfloat \<Rightarrow> bool" where
  "fillable anchor_book allowlist e =
     (let nb = norm_book (fst e) in
      nb \<noteq> norm_book anchor_book \<and> nb \<notin> set sharp_book_norms \<and> (allowlist = {} \<or> nb \<in> allowlist) \<and> \<not> f_le (snd e) (Fin 1))"

definition better_fill :: "commissions \<Rightarrow> fill option \<Rightarrow> string \<times> pyfloat \<Rightarrow> fill option" where
  "better_fill cs best e = (let eff = effective_odds_in cs (fst e) (snd e) in
     case best of None \<Rightarrow> Some (fst e, snd e, eff)
       | Some (b, r, x) \<Rightarrow> if f_lt x eff then Some (fst e, snd e, eff) else best)"

definition best_other_book :: "pyfloat dict \<Rightarrow> string \<Rightarrow> commissions \<Rightarrow> string set \<Rightarrow> fill option" where
  "best_other_book book_odds anchor_book cs allowlist =
     foldl (better_fill cs) None (filter (fillable anchor_book allowlist) book_odds)"

record scan_config =
  sc_min_edge :: pyfloat
  sc_min_odds :: pyfloat
  sc_max_edge :: pyfloat
  sc_commissions :: commissions
  sc_allowlist :: "string set"

definition scan_selection :: "scan_config \<Rightarrow> pyfloat dict \<Rightarrow> string \<Rightarrow> bool \<Rightarrow> string \<times> pyfloat dict \<Rightarrow> value_bet option res" where
  "scan_selection cfg fair anchor_book fell e =
     (case dict_get fair (fst e) of
        None \<Rightarrow> Ok None
      | Some fair_p \<Rightarrow>
        (case best_other_book (snd e) anchor_book (sc_commissions cfg) {} of
           None \<Rightarrow> Ok None
         | Some (th_book, th_raw, th_eff) \<Rightarrow>
           (case (if sc_allowlist cfg \<noteq> {} then best_other_book (snd e) anchor_book (sc_commissions cfg) (sc_allowlist cfg)
                  else Some (th_book, th_raw, th_eff)) of
              None \<Rightarrow> Ok None
            | Some (book, raw, eff) \<Rightarrow>
                if f_lt eff (sc_min_odds cfg) then Ok None
                else rbind (f_div (Fin 1) eff) (\<lambda>implied.
                  let edge = f_sub fair_p implied in
                  if f_lt edge (sc_min_edge cfg) \<or> f_lt (sc_max_edge cfg) edge then Ok None
                  else rmap (\<lambda>th_implied. let th_edge = f_sub fair_p th_implied in
                    Some \<lparr>selection = fst e, best_book = book, best_odds = raw, best_odds_effective = eff,
                      sharp_book = anchor_book, sharp_fair_prob = fair_p, implied_prob = implied, edge = edge,
                      ev = f_sub (f_mul fair_p (f_sub eff (Fin 1))) (f_sub (Fin 1) fair_p),
                      sharp_devig_fell_back = fell, theoretical_best_book = th_book, theoretical_best_odds = th_raw,
                      theoretical_best_odds_effective = th_eff, theoretical_edge = th_edge,
                      fill_gap = f_sub th_edge edge\<rparr>) (f_div (Fin 1) th_eff)))))"

definition catSomes :: "'a option list \<Rightarrow> 'a list" where
  "catSomes xs = List.map_filter id xs"

definition scan_against_fair :: "scan_config \<Rightarrow> prices \<Rightarrow> pyfloat dict \<Rightarrow> string \<Rightarrow> bool \<Rightarrow> value_bet list res" where
  "scan_against_fair cfg prices fair anchor_book fell =
     rbind (anchor_disagrees_with_consensus prices fair (sc_commissions cfg) anchor_swap_tolerance) (\<lambda>swapped.
       if swapped then Ok []
       else rmap (\<lambda>bets. sort_key (\<lambda>v. f_neg (edge v)) (catSomes bets))
              (rmapM (scan_selection cfg fair anchor_book fell) prices))"

definition find_value_bets :: "numerics \<Rightarrow> devig_method \<Rightarrow> anchor_config \<Rightarrow> scan_config \<Rightarrow> prices \<Rightarrow> value_bet list res" where
  "find_value_bets num method acfg cfg prices =
     rbind (anchor_fair_probs_with_provenance num method (acfg\<lparr>ac_exchange_demoted := False\<rparr>) prices) (\<lambda>(anchored, miss).
       case anchored of
         None \<Rightarrow> Ok []
       | Some a \<Rightarrow> scan_against_fair (cfg\<lparr>sc_commissions := ac_commissions acfg\<rparr>) prices (an_fair a) (an_book a) (an_fell_back a))"

definition find_value_bets_with_fair :: "scan_config \<Rightarrow> prices \<Rightarrow> pyfloat dict \<Rightarrow> string \<Rightarrow> bool \<Rightarrow> value_bet list res" where
  "find_value_bets_with_fair cfg prices fair anchor_book fell = scan_against_fair cfg prices fair anchor_book fell"

subsection \<open>Guards on one candidate\<close>

definition within_ratio :: "value_bet \<Rightarrow> pyfloat \<Rightarrow> bool res" where
  "within_ratio bet max_ratio =
     (if f_le (implied_prob bet) (Fin 0) then Ok False
      else rmap (\<lambda>r. f_le r max_ratio) (f_div (sharp_fair_prob bet) (implied_prob bet)))"

definition ah_candidate_plausible :: "value_bet \<Rightarrow> pyfloat \<Rightarrow> pyfloat \<Rightarrow> bool res" where
  "ah_candidate_plausible bet max_odds max_ratio =
     (if f_lt max_odds (best_odds bet) then Ok False else within_ratio bet max_ratio)"

definition dc_candidate_plausible :: "value_bet \<Rightarrow> pyfloat \<Rightarrow> bool res" where
  "dc_candidate_plausible bet max_ratio = within_ratio bet max_ratio"

definition global_odds_ceiling_violation :: "value_bet \<Rightarrow> pyfloat \<Rightarrow> bool" where
  "global_odds_ceiling_violation bet max_odds = (f_lt (Fin 0) max_odds \<and> f_le max_odds (best_odds bet))"

definition premium_floor_shadow_dnb_min_edge :: pyfloat where
  "premium_floor_shadow_dnb_min_edge = f64 (15 / 1000)"

definition premium_floor_shadow_dnb :: "string \<Rightarrow> pyfloat \<Rightarrow> pyfloat \<Rightarrow> string \<Rightarrow> bool" where
  "premium_floor_shadow_dnb market e premium_floor anchor_book =
     (norm_book market = ''dnb'' \<and> is_sharp_anchored anchor_book
      \<and> f_le premium_floor_shadow_dnb_min_edge e \<and> f_lt e premium_floor)"

definition structural_sanity_violation :: "value_bet \<Rightarrow> pyfloat \<Rightarrow> pyfloat \<Rightarrow> commissions \<Rightarrow> bool res" where
  "structural_sanity_violation bet min_edge sanity_max_edge cs =
     (if f_lt sanity_max_edge (edge bet) then Ok True
      else if \<not> (f_lt (Fin 0) (sharp_fair_prob bet) \<and> f_lt (sharp_fair_prob bet) (Fin 1)) then Ok True
      else rbind (f_div (Fin 1) (sharp_fair_prob bet)) (\<lambda>fair_odds.
        if f_le (best_odds_effective bet) fair_odds then Ok True
        else rmap (\<lambda>floor. case floor of None \<Rightarrow> True | Some x \<Rightarrow> f_lt (best_odds bet) x)
          (min_acceptable_odds cs (sharp_fair_prob bet) min_edge (best_book bet))))"

text \<open>Odds rounded up for display: \<open>math.ceil\<close> raises on what is not finite.\<close>

definition ceil_float :: "pyfloat \<Rightarrow> int res" where
  "ceil_float f = (case f of Fin x \<Rightarrow> Ok \<lceil>x\<rceil> | NaN \<Rightarrow> Raise ValueError | _ \<Rightarrow> Raise OverflowError)"

definition ceil_odds :: "pyfloat \<Rightarrow> nat \<Rightarrow> pyfloat res" where
  "ceil_odds v decimals =
     (let scale = f64 (10 ^ decimals) in
      rbind (ceil_float (round_places 6 (f_mul v scale))) (\<lambda>n. rbind (float_of_int n) (\<lambda>x. f_div x scale)))"

end
