(* ===== verification/ValueFacts.thy ===== *)
theory ValueFacts
  imports ValueScan
begin

text \<open>
  Correctness of the value finder: what a bet of the scan has passed and that its price is the best one
  that may be taken, the sign of the fill gap, which book becomes the sharp anchor, the resistance of the
  consensus to one outlying book, and the display of odds.
\<close>

subsection \<open>The best price\<close>

lemma f_lt_trans: "f_lt a b \<Longrightarrow> f_lt b c \<Longrightarrow> f_lt a c"
  by (cases a; cases b; cases c) auto

abbreviation net_price :: "commissions \<Rightarrow> string \<times> pyfloat \<Rightarrow> pyfloat" where
  "net_price cs e \<equiv> effective_odds_in cs (fst e) (snd e)"

text \<open>What the fold keeps: a quote it has seen, at its price, beaten by none.\<close>

definition best_of :: "commissions \<Rightarrow> (string \<times> pyfloat) set \<Rightarrow> fill option \<Rightarrow> bool" where
  "best_of cs seen r = (case r of None \<Rightarrow> seen = {}
     | Some (b, raw, eff) \<Rightarrow> (b, raw) \<in> seen \<and> eff = net_price cs (b, raw) \<and> (\<forall>e \<in> seen. \<not> f_lt eff (net_price cs e)))"

lemma f_lt_irrefl: "\<not> f_lt a a" using f_lt_asym by blast

lemma better_fill_best:
  assumes "best_of cs seen r" shows "best_of cs (insert e seen) (better_fill cs r e)"
proof (cases r)
  case None
  then show ?thesis using assms by (simp add: best_of_def better_fill_def f_lt_irrefl Let_def)
next
  case (Some f)
  obtain b raw eff where f: "f = (b, raw, eff)" by (cases f) auto
  have s: "(b, raw) \<in> seen" "eff = net_price cs (b, raw)" "\<And>e. e \<in> seen \<Longrightarrow> \<not> f_lt eff (net_price cs e)"
    using assms by (auto simp: best_of_def Some f)
  show ?thesis
  proof (cases "f_lt eff (net_price cs e)")
    case True
    then have "\<not> f_lt (net_price cs e) (net_price cs e')" if "e' \<in> insert e seen" for e'
      using that s(3) f_lt_trans f_lt_irrefl by blast
    then show ?thesis using True by (simp add: best_of_def better_fill_def Some f Let_def)
  next
    case False
    then show ?thesis using s by (auto simp: best_of_def better_fill_def Some f Let_def)
  qed
qed

lemma fold_best: "best_of cs seen r \<Longrightarrow> best_of cs (set qs \<union> seen) (foldl (better_fill cs) r qs)"
proof (induction qs arbitrary: seen r)
  case (Cons e qs)
  then show ?case using Cons.IH [OF better_fill_best [OF Cons.prems, of e]] by simp
qed simp

lemma best_other_book_best:
  "best_of cs {x \<in> set quotes. fillable anchor allow x} (best_other_book quotes anchor cs allow)"
  using fold_best [of cs "{}" None "filter (fillable anchor allow) quotes"]
  by (simp add: best_other_book_def best_of_def)

lemma fillable_mono: "fillable anchor allow e \<Longrightarrow> fillable anchor {} e" by (simp add: fillable_def Let_def)

subsection \<open>What a bet has passed\<close>

definition good_fill :: "scan_config \<Rightarrow> string \<Rightarrow> pyfloat dict \<Rightarrow> value_bet \<Rightarrow> bool" where
  "good_fill cfg anchor quotes v =
     ((best_book v, best_odds v) \<in> set quotes
      \<and> fillable anchor (sc_allowlist cfg) (best_book v, best_odds v)
      \<and> best_odds_effective v = net_price (sc_commissions cfg) (best_book v, best_odds v)
      \<and> list_all (\<lambda>e. fillable anchor (sc_allowlist cfg) e \<longrightarrow> \<not> f_lt (best_odds_effective v) (net_price (sc_commissions cfg) e)) quotes)"

definition good_edge :: "scan_config \<Rightarrow> value_bet \<Rightarrow> bool" where
  "good_edge cfg v = (\<not> f_lt (best_odds_effective v) (sc_min_odds cfg)
      \<and> f_div (Fin 1) (best_odds_effective v) = Ok (implied_prob v)
      \<and> edge v = f_sub (sharp_fair_prob v) (implied_prob v)
      \<and> \<not> f_lt (edge v) (sc_min_edge cfg) \<and> \<not> f_lt (sc_max_edge cfg) (edge v))"

lemma scan_selection_sound:
  assumes "scan_selection cfg fair anchor fell e = Ok (Some v)"
  shows "selection v = fst e \<and> dict_get fair (fst e) = Some (sharp_fair_prob v) \<and> good_fill cfg anchor (snd e) v \<and> good_edge cfg v
    \<and> sharp_book v = anchor
    \<and> best_of (sc_commissions cfg) {x \<in> set (snd e). fillable anchor {} x}
        (Some (theoretical_best_book v, theoretical_best_odds v, theoretical_best_odds_effective v))
    \<and> (\<exists>i. f_div (Fin 1) (theoretical_best_odds_effective v) = Ok i \<and> theoretical_edge v = f_sub (sharp_fair_prob v) i)
    \<and> fill_gap v = f_sub (theoretical_edge v) (edge v)
    \<and> (sc_allowlist cfg = {} \<longrightarrow> theoretical_best_odds_effective v = best_odds_effective v)"
proof -
  obtain fair_p where f: "dict_get fair (fst e) = Some fair_p" using assms by (auto simp: scan_selection_def split: option.splits)
  obtain tb tr te where th: "best_other_book (snd e) anchor (sc_commissions cfg) {} = Some (tb, tr, te)"
    using assms f by (auto simp: scan_selection_def split: option.splits)
  define r where "r = (if sc_allowlist cfg \<noteq> {} then best_other_book (snd e) anchor (sc_commissions cfg) (sc_allowlist cfg)
      else Some (tb, tr, te))"
  obtain b raw eff where r': "r = Some (b, raw, eff)"
    using assms f th by (auto simp: scan_selection_def r_def [symmetric] split: option.splits)
  have best: "best_of (sc_commissions cfg) {x \<in> set (snd e). fillable anchor (sc_allowlist cfg) x} r"
    using best_other_book_best [of "sc_commissions cfg" "snd e" anchor "sc_allowlist cfg"] th by (auto simp: r_def split: if_splits)
  have thb: "best_of (sc_commissions cfg) {x \<in> set (snd e). fillable anchor {} x} (Some (tb, tr, te))"
    using best_other_book_best [of "sc_commissions cfg" "snd e" anchor "{}"] th by simp
  have same: "sc_allowlist cfg = {} \<Longrightarrow> te = eff" using r' by (simp add: r_def)
  have fill: "(b, raw) \<in> set (snd e)" "fillable anchor (sc_allowlist cfg) (b, raw)" "eff = net_price (sc_commissions cfg) (b, raw)"
    "\<And>q. q \<in> set (snd e) \<Longrightarrow> fillable anchor (sc_allowlist cfg) q \<Longrightarrow> \<not> f_lt eff (net_price (sc_commissions cfg) q)"
    using best by (auto simp: best_of_def r')
  obtain q q' where q: "f_div (Fin 1) eff = Ok q" "f_div (Fin 1) te = Ok q'" "\<not> f_lt eff (sc_min_odds cfg)"
      "\<not> f_lt (f_sub fair_p q) (sc_min_edge cfg)" "\<not> f_lt (sc_max_edge cfg) (f_sub fair_p q)"
    and v: "v = \<lparr>selection = fst e, best_book = b, best_odds = raw, best_odds_effective = eff,
                      sharp_book = anchor, sharp_fair_prob = fair_p, implied_prob = q, edge = f_sub fair_p q,
                      ev = f_sub (f_mul fair_p (f_sub eff (Fin 1))) (f_sub (Fin 1) fair_p),
                      sharp_devig_fell_back = fell, theoretical_best_book = tb, theoretical_best_odds = tr,
                      theoretical_best_odds_effective = te, theoretical_edge = f_sub fair_p q',
                      fill_gap = f_sub (f_sub fair_p q') (f_sub fair_p q)\<rparr>"
    using assms f th r' by (auto simp: scan_selection_def r_def [symmetric] Let_def rbind_Ok_iff rmap_Ok_iff split: if_splits)
  show ?thesis
    using f thb same fill q by (auto simp: v good_fill_def good_edge_def list_all_iff)
qed

lemma rmapM_mem: "rmapM f xs = Ok ys \<Longrightarrow> y \<in> set ys \<Longrightarrow> \<exists>x \<in> set xs. f x = Ok y"
  by (induction xs arbitrary: ys) (auto simp: rbind_Ok_iff)

lemma set_catSomes: "v \<in> set (catSomes xs) \<longleftrightarrow> Some v \<in> set xs"
  by (induction xs) (auto simp: catSomes_def map_filter_simps split: option.splits)

lemma scan_members:
  assumes "scan_against_fair cfg prices fair anchor fell = Ok bets" "v \<in> set bets"
  shows "anchor_disagrees_with_consensus prices fair (sc_commissions cfg) anchor_swap_tolerance = Ok False
    \<and> (\<exists>e \<in> set prices. scan_selection cfg fair anchor fell e = Ok (Some v))"
proof -
  from assms obtain sw where sw: "anchor_disagrees_with_consensus prices fair (sc_commissions cfg) anchor_swap_tolerance = Ok sw"
    by (auto simp: scan_against_fair_def rbind_Ok_iff)
  then have "\<not> sw" using assms by (auto simp: scan_against_fair_def)
  then obtain rs where rs: "rmapM (scan_selection cfg fair anchor fell) prices = Ok rs" "v \<in> set (catSomes rs)"
    using assms sw by (auto simp: scan_against_fair_def rmap_Ok_iff)
  then show ?thesis using sw \<open>\<not> sw\<close> rmapM_mem [OF rs(1)] by (auto simp: set_catSomes)
qed

text \<open>C27: Every bet of the scan is priced at a quote of its selection from a book that is neither the anchor nor a
  sharp book and is on the allowlist when there is one; no such quote is better net of commission; its
  effective price reaches the minimum odds and its edge, the fair probability minus the inverse of that
  price, lies between the floor and the ceiling; and the anchor does not invert the consensus order.\<close>

theorem value_bets_sound:
  assumes "find_value_bets_with_fair cfg prices fair anchor fell = Ok bets" "v \<in> set bets"
  shows "\<exists>quotes. (selection v, quotes) \<in> set prices \<and> dict_get fair (selection v) = Some (sharp_fair_prob v)
    \<and> good_fill cfg anchor quotes v \<and> good_edge cfg v
    \<and> anchor_disagrees_with_consensus prices fair (sc_commissions cfg) anchor_swap_tolerance = Ok False"
proof -
  obtain e where e: "e \<in> set prices" "scan_selection cfg fair anchor fell e = Ok (Some v)"
    "anchor_disagrees_with_consensus prices fair (sc_commissions cfg) anchor_swap_tolerance = Ok False"
    using scan_members assms by (fastforce simp: find_value_bets_with_fair_def)
  then show ?thesis using scan_selection_sound [OF e(2)] by (intro exI [of _ "snd e"]) (cases e; simp)
qed

subsection \<open>The fill gap\<close>

lemma inverse_antimono:
  assumes "f_lt (Fin 0) a" "\<not> f_lt b a" "b \<noteq> NaN" "f_div (Fin 1) a = Ok q" "f_div (Fin 1) b = Ok r"
  shows "f_le r q"
proof (cases a)
  case (Fin x)
  then have x: "0 < x" using assms(1) by simp
  have "0 \<le> q'" if "f64 (1 / x) = Fin q'" for q' using that x f64_FinD [of "1 / x" q'] by (auto intro: rnd_nonneg)
  then have pos: "f_le (Fin 0) (f64 (1 / x))" using x f64_cases [of "1 / x"] by (auto simp: rnd_nonneg)
  show ?thesis
  proof (cases b)
    case (Fin y)
    then have "x \<le> y" using assms(2) \<open>a = Fin x\<close> by simp
    then show ?thesis using assms(4, 5) x \<open>a = Fin x\<close> Fin by (auto simp: f64_mono frac_le)
  qed (use assms x pos Fin in auto)
next
  case PInf
  then have "b = PInf" using assms(2, 3) by (cases b) auto
  then show ?thesis using assms(4, 5) PInf by auto
qed (use assms in auto)

lemma f64_not_NaN: "f64 x \<noteq> NaN" using f64_cases [of x] by auto

lemma f_le_ends: "a \<noteq> NaN \<Longrightarrow> f_le NInf a" "a \<noteq> NaN \<Longrightarrow> f_le a PInf" by (cases a; simp)+

lemma f_sub_antimono: "f_le r q \<Longrightarrow> f_le (f_sub (Fin p) q) (f_sub (Fin p) r)"
  by (cases r; cases q) (auto simp: f_sub_def f64_not_NaN intro: f64_mono f_le_ends)

lemma gap_nonneg: assumes "f_le (Fin e) t" shows "\<not> f_lt (f_sub t (Fin e)) (Fin 0)"
proof (cases t)
  case (Fin y)
  then have "f_le (f64 0) (f64 (y - e))" using assms by (intro f64_mono) simp
  then have "f_le (Fin 0) (f64 (y - e))" using f64_rep [OF is_f64_0] by simp
  then show ?thesis using Fin by (cases "f64 (y - e)") (auto simp: f_lt_def)
qed (use assms in \<open>auto simp: f_sub_def\<close>)

text \<open>When the odds floor is positive, the edge left on the table by an allowlist is never negative, and without
  an allowlist it is exactly zero, in spite of rounding.\<close>

theorem fill_gap_sign:
  assumes "find_value_bets_with_fair cfg prices fair anchor fell = Ok bets" "v \<in> set bets"
    and "f_lt (Fin 0) (sc_min_odds cfg)" "edge v = Fin x" "sharp_fair_prob v = Fin p"
  shows "\<not> f_lt (fill_gap v) (Fin 0) \<and> (sc_allowlist cfg = {} \<longrightarrow> fill_gap v = Fin 0)"
proof -
  obtain e where e: "scan_selection cfg fair anchor fell e = Ok (Some v)"
    using scan_members assms(1, 2) by (fastforce simp: find_value_bets_with_fair_def)
  note s = scan_selection_sound [OF e]
  define te where "te = theoretical_best_odds_effective v"
  obtain i where i: "f_div (Fin 1) te = Ok i" "theoretical_edge v = f_sub (Fin p) i" using s assms(5) by (auto simp: te_def)
  have q: "f_div (Fin 1) (best_odds_effective v) = Ok (implied_prob v)" "Fin x = f_sub (Fin p) (implied_prob v)"
    "\<not> f_lt (best_odds_effective v) (sc_min_odds cfg)" using s assms(4, 5) by (auto simp: good_edge_def)
  have nn: "best_odds_effective v \<noteq> NaN" using q by (auto simp: f_sub_def)
  have pos: "f_lt (Fin 0) (best_odds_effective v)"
    using q(3) assms(3) nn by (cases "best_odds_effective v"; cases "sc_min_odds cfg") auto
  have te: "\<not> f_lt te (best_odds_effective v)"
    using s fillable_mono [of anchor "sc_allowlist cfg"] by (auto simp: best_of_def good_fill_def te_def)
  have gap: "fill_gap v = f_sub (f_sub (Fin p) i) (Fin x)" using s i assms(4) by simp
  have "\<not> f_lt (fill_gap v) (Fin 0)"
  proof (cases "te = NaN")
    case True
    then show ?thesis using i(1) gap by (auto simp: f_sub_def)
  next
    case False
    have "f_le i (implied_prob v)" by (rule inverse_antimono [OF pos te False q(1) i(1)])
    then have "f_le (Fin x) (f_sub (Fin p) i)" unfolding q(2) by (rule f_sub_antimono)
    then show ?thesis using gap_nonneg gap by simp
  qed
  moreover have "fill_gap v = Fin 0" if none: "sc_allowlist cfg = {}"
  proof -
    have "te = best_odds_effective v" using s none by (simp add: te_def)
    then have "i = implied_prob v" using i(1) q(1) by simp
    then have "f_sub (Fin p) i = Fin x" using q(2) by simp
    then show ?thesis using gap f64_rep [OF is_f64_0] by simp
  qed
  ultimately show ?thesis by blast
qed

subsection \<open>A scan at work\<close>

text \<open>One selection of a thin market, priced at 1.46 against a fair probability one percent above.\<close>

definition thin_prices :: prices where "thin_prices = [(''Home'', [(''bet365'', f64 (146 / 100))])]"

definition thin_fair :: "pyfloat dict" where "thin_fair = [(''Home'', f64 (694931506849315 / 10 ^ 15))]"

definition one_percent :: scan_config where
  "one_percent = \<lparr>sc_min_edge = f64 (1 / 100), sc_min_odds = f64 (130 / 100), sc_max_edge = PInf,
     sc_commissions = exchange_commission, sc_allowlist = {}\<rparr>"

lemma thin_scan:
  "rmap (map (\<lambda>v. (selection v, isfinite (edge v), isfinite (sharp_fair_prob v))))
     (find_value_bets_with_fair one_percent thin_prices thin_fair ''pinnacle'' False) = Ok [(''Home'', True, True)]"
  by code_simp

lemma thin_bets: "\<exists>v. find_value_bets_with_fair one_percent thin_prices thin_fair ''pinnacle'' False = Ok [v]
    \<and> isfinite (edge v) \<and> isfinite (sharp_fair_prob v)"
  using thin_scan by (auto simp: rmap_Ok_iff)

lemma value_bets_sound_witness:
  "\<exists>v quotes. (selection v, quotes) \<in> set thin_prices \<and> good_fill one_percent ''pinnacle'' quotes v \<and> good_edge one_percent v"
proof -
  obtain v where "find_value_bets_with_fair one_percent thin_prices thin_fair ''pinnacle'' False = Ok [v]" using thin_bets by blast
  then show ?thesis using value_bets_sound [of one_percent thin_prices thin_fair "''pinnacle''" False "[v]" v] by auto
qed

lemma fill_gap_sign_witness:
  "\<exists>v. find_value_bets_with_fair one_percent thin_prices thin_fair ''pinnacle'' False = Ok [v] \<and> fill_gap v = Fin 0"
proof -
  obtain v where v: "find_value_bets_with_fair one_percent thin_prices thin_fair ''pinnacle'' False = Ok [v]"
    "isfinite (edge v)" "isfinite (sharp_fair_prob v)" using thin_bets by blast
  then obtain x p where "edge v = Fin x" "sharp_fair_prob v = Fin p" by (auto simp: isfinite_iff)
  moreover have "f_lt (Fin 0) (sc_min_odds one_percent)" by code_simp
  ultimately show ?thesis
    using v fill_gap_sign [of one_percent thin_prices thin_fair "''pinnacle''" False "[v]" v x p] by (simp add: one_percent_def)
qed

text \<open>The minimum acceptable price is not always the smallest price that keeps the edge: for this market the scan
  accepts 1.46, whose edge reaches the floor, but the minimum computed for the same floor is above 1.46,
  so the structural check calls the accepted bet a contradiction.\<close>

theorem accepted_bet_flagged:
  "rmap (map (\<lambda>v. (best_odds v, structural_sanity_violation v (sc_min_edge one_percent) (f64 (15 / 100)) exchange_commission)))
     (find_value_bets_with_fair one_percent thin_prices thin_fair ''pinnacle'' False) = Ok [(f64 (146 / 100), Ok True)]"
  by code_simp

subsection \<open>The named sharp anchor\<close>

text \<open>Why the loop passes over a book, and when it stops at one.\<close>

definition anchor_refused :: "anchor_config \<Rightarrow> prices \<Rightarrow> string \<Rightarrow> bool" where
  "anchor_refused cfg prices pref =
     (is_exchange (ac_commissions cfg) pref
      \<and> (f_lt (Fin 0) (ac_min_liquidity cfg) \<and> known_thin cfg prices pref \<or> ac_exchange_demoted cfg))"

definition anchor_eligible :: "anchor_config \<Rightarrow> prices \<Rightarrow> string \<Rightarrow> pyfloat list \<Rightarrow> bool" where
  "anchor_eligible cfg prices pref gross =
     (full_market_quotes prices pref = Some gross \<and> \<not> anchor_refused cfg prices pref
      \<and> sane_overround (ac_max_overround cfg) (map (effective_odds_in (ac_commissions cfg) pref) gross) = Ok True)"

lemma sharp_loop_found:
  "sharp_loop cfg prices miss prefs = Ok (Some (b, gross), m) \<Longrightarrow>
   \<exists>pre pref post. prefs = pre @ pref # post \<and> anchor_eligible cfg prices pref gross \<and> norm_book b = pref \<and> m = None
     \<and> (\<forall>p \<in> set pre. \<forall>g. \<not> anchor_eligible cfg prices p g)"
proof (induction cfg prices miss prefs rule: sharp_loop.induct)
  case (2 cfg prices miss pref prefs)
  have step: ?case if found: "sharp_loop cfg prices miss' prefs = Ok (Some (b, gross), m)"
    and skip: "\<And>g. \<not> anchor_eligible cfg prices pref g"
    and IH: "sharp_loop cfg prices miss' prefs = Ok (Some (b, gross), m) \<Longrightarrow>
      \<exists>pre pref post. prefs = pre @ pref # post \<and> anchor_eligible cfg prices pref gross \<and> norm_book b = pref \<and> m = None
     \<and> (\<forall>p \<in> set pre. \<forall>g. \<not> anchor_eligible cfg prices p g)" for miss'
  proof -
    obtain pre p post where "prefs = pre @ p # post" "anchor_eligible cfg prices p gross" "norm_book b = p" "m = None"
      "\<forall>p \<in> set pre. \<forall>g. \<not> anchor_eligible cfg prices p g" using IH [OF found] by blast
    then show ?thesis using skip by (intro exI [of _ "pref # pre"]) auto
  qed
  show ?case
  proof (cases "full_market_quotes prices pref")
    case None
    then show ?thesis using 2 by (intro step [of miss]) (auto simp: anchor_eligible_def)
  next
    case (Some g)
    show ?thesis
    proof (cases "f_lt (Fin 0) (ac_min_liquidity cfg) \<and> is_exchange (ac_commissions cfg) pref \<and> known_thin cfg prices pref")
      case True
      then show ?thesis using 2 Some
        by (intro step [of "first_miss miss Miss_Liquidity_Floor"]) (auto simp: anchor_eligible_def anchor_refused_def)
    next
      case thick: False
      show ?thesis
      proof (cases "ac_exchange_demoted cfg \<and> is_exchange (ac_commissions cfg) pref")
        case True
        then show ?thesis using 2 Some thick
          by (intro step [of "first_miss miss Miss_Exchange_Demoted"]) (auto simp: anchor_eligible_def anchor_refused_def)
      next
        case live: False
        obtain sane where sane: "sane_overround (ac_max_overround cfg) (map (effective_odds_in (ac_commissions cfg) pref) g) = Ok sane"
          using 2(5) Some thick live by (auto simp: rbind_Ok_iff)
        show ?thesis
        proof (cases sane)
          case False
          then show ?thesis using 2 Some thick live sane
            by (intro step [of "first_miss miss Miss_Overround"]) (auto simp: anchor_eligible_def)
        next
          case True
          then have r: "raw_name prices pref = Ok b" "g = gross" "m = None"
            using 2(5) Some thick live sane by (auto simp: rmap_Ok_iff)
          then have "norm_book b = pref" by (auto simp: raw_name_def find_Some_iff split: option.splits)
          moreover have "anchor_eligible cfg prices pref gross"
            using Some thick live sane True r by (auto simp: anchor_eligible_def anchor_refused_def)
          ultimately show ?thesis using r(3) by (intro exI [of _ "[] :: string list"] exI [of _ pref] exI [of _ prefs]) auto
        qed
      qed
    qed
  qed
qed simp

text \<open>A named sharp anchor is a sharp book that quotes every selection, with its quotes returned before
  commission; it is no exchange that is demoted or known to be thin, the overround of its prices net of
  commission is plausible, and no book earlier in the order of preference qualifies.\<close>

theorem sharp_anchor_first_eligible:
  assumes "named_sharp_anchor cfg prices = Ok (Some (b, gross), m)"
  shows "\<exists>pre post. ac_sharp_books cfg = pre @ norm_book b # post \<and> anchor_eligible cfg prices (norm_book b) gross
     \<and> m = None \<and> (\<forall>p \<in> set pre. \<forall>g. \<not> anchor_eligible cfg prices p g)"
  using sharp_loop_found assms unfolding named_sharp_anchor_def by blast

definition even_market :: prices where
  "even_market = [(''Home'', [(''Pinnacle'', f64 (19 / 10))]), (''Away'', [(''pinnacle'', Fin 2)])]"

definition plain_config :: anchor_config where
  "plain_config = \<lparr>ac_sharp_books = sharp_books, ac_commissions = exchange_commission, ac_max_overround = f64 (12 / 100),
     ac_liquidity = [], ac_min_liquidity = Fin 0, ac_exchange_demoted = False\<rparr>"

lemma even_market_anchor:
  "named_sharp_anchor plain_config even_market = Ok (Some (''Pinnacle'', [f64 (19 / 10), Fin 2]), None)"
  by code_simp

lemma sharp_anchor_first_eligible_witness:
  "anchor_eligible plain_config even_market ''pinnacle'' [f64 (19 / 10), Fin 2]"
proof -
  have "norm_book ''Pinnacle'' = ''pinnacle''" by code_simp
  then show ?thesis using sharp_anchor_first_eligible [OF even_market_anchor] by auto
qed

subsection \<open>The consensus\<close>

text \<open>The table of best prices: one entry per common book seen, carrying a quote of that book.\<close>

definition book_table :: "string set \<Rightarrow> (string \<times> pyfloat) set \<Rightarrow> (pyfloat \<times> pyfloat) dict \<Rightarrow> bool" where
  "book_table books seen d = (distinct (map fst d) \<and> fst ` set d = books \<inter> norm_book ` fst ` seen
     \<and> (\<forall>e \<in> set d. \<exists>b. norm_book b = fst e \<and> (b, snd (snd e)) \<in> seen))"

lemma update_members: "x \<in> set (AList.update k v d) \<Longrightarrow> x \<in> set d \<or> x = (k, v)"
  by (induction d) (auto split: if_splits)

lemma book_table_update:
  assumes "book_table books seen d" "norm_book (fst e) \<in> books"
  shows "book_table books (insert e seen) (AList.update (norm_book (fst e)) (net, snd e) d)"
proof -
  have "\<exists>b. norm_book b = fst x \<and> (b, snd (snd x)) \<in> insert e seen"
    if "x \<in> set (AList.update (norm_book (fst e)) (net, snd e) d)" for x
  proof (cases "x \<in> set d")
    case True
    then show ?thesis using assms(1) by (auto simp: book_table_def)
  next
    case False
    then have "x = (norm_book (fst e), (net, snd e))" using update_members [OF that] by simp
    then show ?thesis by (intro exI [of _ "fst e"]) simp
  qed
  then show ?thesis using assms by (auto simp: book_table_def AList.dom_update distinct_update)
qed

lemma keep_best_table:
  assumes "book_table books seen d" shows "book_table books (insert e seen) (keep_best cs books d e)"
proof (cases "norm_book (fst e) \<in> books")
  case False
  then have "keep_best cs books d e = d" by (simp add: keep_best_def Let_def)
  moreover have "books \<inter> norm_book ` fst ` insert e seen = books \<inter> norm_book ` fst ` seen" using False by auto
  ultimately show ?thesis using assms unfolding book_table_def by auto
next
  case True
  define net where "net = effective_odds_in cs (fst e) (snd e)"
  show ?thesis
  proof (cases "keep_best cs books d e = AList.update (norm_book (fst e)) (net, snd e) d")
    case upd: True
    then show ?thesis using book_table_update [OF assms True] by simp
  next
    case False
    then have d: "keep_best cs books d e = d" "map_of d (norm_book (fst e)) \<noteq> None"
      using True by (auto simp: keep_best_def net_def Let_def split: option.splits if_splits)
    then have "norm_book (fst e) \<in> fst ` set d" by (simp add: map_of_eq_None_iff)
    then have "books \<inter> norm_book ` fst ` insert e seen = fst ` set d" using assms by (auto simp: book_table_def)
    then show ?thesis using assms d unfolding book_table_def by auto
  qed
qed

lemma best_by_book_table: "book_table books (set quotes) (best_by_book cs books quotes)"
proof -
  have "book_table books seen d \<Longrightarrow> book_table books (set qs \<union> seen) (foldl (keep_best cs books) d qs)" for seen d qs
  proof (induction qs arbitrary: seen d)
    case (Cons e qs)
    then show ?case using Cons.IH [OF keep_best_table [OF Cons.prems, of e cs]] by simp
  qed simp
  from this [of "{}" "[]" quotes] show ?thesis by (simp add: best_by_book_def book_table_def)
qed

lemma common_books_sub:
  assumes "e \<in> set prices" shows "common_books prices \<subseteq> norm_book ` fst ` set (snd e)"
proof -
  define meet where "meet = (\<lambda>(e :: string \<times> pyfloat dict) s. (norm_book ` fst ` set (snd e)) \<inter> s)"
  have below: "foldr meet es s \<subseteq> s" for es s by (induction es) (auto simp: meet_def)
  have inside: "x \<in> set es \<Longrightarrow> foldr meet es s \<subseteq> norm_book ` fst ` set (snd x)" for es s x
    by (induction es) (auto simp: meet_def)
  obtain p ps where p: "prices = p # ps" using assms by (cases prices) auto
  have c: "common_books prices = foldr meet ps (norm_book ` fst ` set (snd p))"
    by (simp add: common_books_def p meet_def)
  show ?thesis
  proof (cases "e = p")
    case True
    then show ?thesis unfolding c using below by simp
  next
    case False
    then have "e \<in> set ps" using assms p by simp
    then show ?thesis unfolding c by (rule inside)
  qed
qed

text \<open>In a table of three or more books the other books' quotes surround the median.\<close>

lemma table_median:
  assumes d: "book_table books (set quotes) d" and n: "length d \<ge> 3" and m: "list_all (\<lambda>e. moderate (snd e)) quotes"
  shows "\<exists>lo hi. lo \<in> set quotes \<and> hi \<in> set quotes \<and> norm_book (fst lo) \<noteq> nb \<and> norm_book (fst hi) \<noteq> nb
    \<and> snd lo \<le> median (map (snd \<circ> snd) d) \<and> median (map (snd \<circ> snd) d) \<le> snd hi"
proof -
  obtain e where e: "e \<in> set d" "\<And>x. x \<in> set (remove1 e d) \<Longrightarrow> fst x \<noteq> nb"
  proof (cases "nb \<in> fst ` set d")
    case True
    then obtain e where e: "e \<in> set d" "fst e = nb" by auto
    then obtain d1 d2 where ds: "d = d1 @ e # d2" "e \<notin> set d1" by (meson split_list_first)
    have "distinct (map fst d)" using d by (simp add: book_table_def)
    then have "fst e \<notin> fst ` (set d1 \<union> set d2)" by (auto simp: ds(1))
    moreover have "remove1 e d = d1 @ d2" by (simp add: ds remove1_append)
    ultimately have "fst x \<noteq> nb" if "x \<in> set (remove1 e d)" for x
      using that unfolding e(2) [symmetric] by (metis imageI set_append)
    then show ?thesis using that e by blast
  next
    case False
    have "hd d \<in> set d" using n by (intro hd_in_set) auto
    then show ?thesis using that [of "hd d"] False by (metis image_eqI notin_set_remove1)
  qed
  let ?f = "snd \<circ> snd"
  have "mset d = mset (e # remove1 e d)" using e(1) by simp
  then have ms: "mset (map ?f d) = mset (?f e # map ?f (remove1 e d))" by (metis list.simps(9) mset_map)
  have len: "length (map ?f (remove1 e d)) \<ge> 2" using n e(1) by (simp add: length_remove1)
  have q: "\<exists>b. norm_book b = fst x \<and> (b, ?f x) \<in> set quotes" if "x \<in> set d" for x using d that by (auto simp: book_table_def)
  have mod: "list_all moderate (map ?f d)" using q m by (fastforce simp: list_all_iff)
  have src: "\<exists>s \<in> set quotes. norm_book (fst s) \<noteq> nb \<and> snd s = y" if "y \<in> set (map ?f (remove1 e d))" for y
  proof -
    from that obtain x where x: "x \<in> set (remove1 e d)" "y = ?f x" by auto
    then obtain b where "norm_book b = fst x" "(b, ?f x) \<in> set quotes" using q notin_set_remove1 by metis
    then show ?thesis using e(2) [OF x(1)] x(2) by (intro bexI [of _ "(b, ?f x)"]) simp_all
  qed
  show ?thesis using median_outlier [OF ms len mod] src by metis
qed

text \<open>The consensus needs three books on every selection and is the median of their prices; whichever one book is
  distrusted, each consensus price lies between two quotes that other books made for that selection.\<close>

theorem consensus_resists_one_book:
  assumes "consensus_prices cfg prices = Ok (Some (book, med))" "prices \<noteq> []"
    and "i < length prices" "list_all (\<lambda>e. moderate (snd e)) (snd (prices ! i))"
  shows "book = consensus_anchor \<and> length med = length prices \<and> card (common_books prices) \<ge> 3
    \<and> (\<exists>lo hi. lo \<in> set (snd (prices ! i)) \<and> hi \<in> set (snd (prices ! i)) \<and> norm_book (fst lo) \<noteq> distrusted
        \<and> norm_book (fst hi) \<noteq> distrusted \<and> snd lo \<le> med ! i \<and> med ! i \<le> snd hi)"
proof -
  define books where "books = common_books prices"
  define d where "d = best_by_book (ac_commissions cfg) books (snd (prices ! i))"
  have c: "3 \<le> card books" "book = consensus_anchor"
    "med = map (median \<circ> map snd) (map (\<lambda>e. map snd (best_by_book (ac_commissions cfg) books (snd e))) prices)"
    using assms(1) by (auto simp: consensus_prices_def books_def min_consensus_books_def rmap_Ok_iff Let_def split: if_splits)
  have t: "book_table books (set (snd (prices ! i))) d" unfolding d_def by (rule best_by_book_table)
  have "books \<subseteq> norm_book ` fst ` set (snd (prices ! i))"
    unfolding books_def by (rule common_books_sub) (use assms(3) in simp)
  then have "fst ` set d = books" using t by (auto simp: book_table_def)
  then have "length d = card books" using t by (metis book_table_def distinct_card length_map set_map)
  then have "length d \<ge> 3" using c(1) by simp
  note m = table_median [OF t this assms(4), of distrusted]
  have "med ! i = median (map (snd \<circ> snd) d)" using assms(3) by (simp add: c(3) d_def)
  then show ?thesis using m c by (auto simp: books_def)
qed

definition soft_market :: prices where
  "soft_market = [(''Home'', [(''bet365'', Fin 2), (''unibet'', Fin 2), (''bwin'', Fin 8)]),
     (''Away'', [(''bet365'', Fin (15 / 8)), (''unibet'', Fin 2), (''bwin'', Fin 2)])]"

lemma soft_market_consensus:
  "consensus_prices plain_config soft_market = Ok (Some (''consensus(median)'', [Fin 2, Fin 2]))"
  by code_simp

lemma consensus_resists_one_book_witness:
  "\<exists>hi. hi \<in> set (snd (soft_market ! 0)) \<and> norm_book (fst hi) \<noteq> ''bwin'' \<and> Fin 2 \<le> snd hi"
proof -
  have m: "list_all (\<lambda>e. moderate (snd e)) (snd (soft_market ! 0))"
    using moderate_int [of 2] moderate_int [of 8] by (simp add: soft_market_def)
  have n: "soft_market \<noteq> []" "0 < length soft_market" by (simp_all add: soft_market_def)
  show ?thesis using consensus_resists_one_book [OF soft_market_consensus n m, of "''bwin''"] by auto
qed

subsection \<open>Odds for display\<close>

lemma ulp_rel: assumes "1 / 100 \<le> x" shows "ulp x \<le> x / 2 ^ 52"
proof -
  have x: "0 < x" using assms by simp
  have r: "2 powi ratlog 2 x \<le> x" using ratlog_bounds(1) [of 2 x] x by simp
  have "ratlog 2 x \<ge> - 8"
  proof (rule ccontr)
    assume "\<not> ratlog 2 x \<ge> - 8"
    then have "ratlog 2 x + 1 \<le> - 8" by simp
    then have "(2 :: rat) powi (ratlog 2 x + 1) \<le> 2 powi (- 8)" by (intro power_int_increasing) simp_all
    then have "x < 2 powi (- 8)" using ratlog_bounds(2) [of 2 x] x by simp
    then show False using assms by (simp add: power_int_minus)
  qed
  then have l: "last_place 2 53 (- 1074) x = ratlog 2 x - 52" by (simp add: last_place_def)
  have "(2 :: rat) powi ratlog 2 x = 2 ^ 52 * 2 powi (ratlog 2 x - 52)"
    using powi_split [of "ratlog 2 x - 52" "ratlog 2 x"] by simp
  then show ?thesis unfolding ulp_def l using r by (simp add: field_simps)
qed

lemma rnd_rel: "1 / 100 \<le> x \<Longrightarrow> \<bar>rnd x - x\<bar> \<le> x / 2 ^ 53"
  using rnd_error [of x] ulp_rel [of x] by simp

text \<open>Text of two decimals survives: the product with a hundred is within a rounding error of the cents.\<close>

lemma cents_recovered:
  assumes "0 < n" "n < (10 :: int) ^ 9"
  shows "round_half_even (rnd (rnd (of_int n / 100) * 100) * 10 ^ 6) = n * 10 ^ 6"
proof -
  define v where "v = rnd (of_int n / 100)"
  define y where "y = rnd (v * 100)"
  have n: "(1 :: rat) \<le> of_int n" "(of_int n :: rat) < 10 ^ 9" using assms by (simp_all flip: of_int_power)
  have v: "\<bar>v - of_int n / 100\<bar> \<le> of_int n / 100 / 2 ^ 53" unfolding v_def by (rule rnd_rel) (use n in simp)
  then have v100: "\<bar>v * 100 - of_int n\<bar> \<le> of_int n / 2 ^ 53" by (simp add: abs_le_iff field_simps)
  have small: "(of_int n :: rat) / 2 ^ 53 \<le> 1 / 10 ^ 6" using n by (simp add: field_simps)
  have "of_int n - v * 100 \<le> 1 / 10 ^ 6" using abs_le_D2 [OF v100] small by linarith
  then have big: "1 / 100 \<le> v * 100" using n(1) by simp
  have y: "\<bar>y - v * 100\<bar> \<le> v * 100 / 2 ^ 53" unfolding y_def by (rule rnd_rel [OF big])
  have "v * 100 - of_int n \<le> 1 / 10 ^ 6" using abs_le_D1 [OF v100] small by linarith
  then have "v * 100 \<le> of_int n + 1" by simp
  then have "v * 100 / 2 ^ 53 \<le> (of_int n + 1) / 2 ^ 53" by (simp add: divide_right_mono)
  then have yv: "\<bar>y - v * 100\<bar> \<le> (of_int n + 1) / 2 ^ 53" using y by linarith
  have "\<bar>y - of_int n\<bar> \<le> \<bar>y - v * 100\<bar> + \<bar>v * 100 - of_int n\<bar>" by simp
  also have "\<dots> \<le> (of_int n + 1) / 2 ^ 53 + of_int n / 2 ^ 53" using yv v100 by (rule add_mono)
  also have "\<dots> = (2 * of_int n + 1) / 2 ^ 53" by (simp add: add_divide_distrib)
  finally have "\<bar>y - of_int n\<bar> \<le> (2 * of_int n + 1) / 2 ^ 53" .
  also have "\<dots> < 1 / (2 * 10 ^ 6)" using n by (simp add: field_simps)
  finally have c: "\<bar>y - of_int n\<bar> < 1 / (2 * 10 ^ 6)" .
  have "\<bar>y * 10 ^ 6 - of_int (n * 10 ^ 6)\<bar> = \<bar>(y - of_int n) * 10 ^ 6\<bar>" by (simp add: left_diff_distrib)
  also have "\<dots> = \<bar>y - of_int n\<bar> * 10 ^ 6" by (simp only: abs_mult) simp
  also have "\<dots> < 1 / 2" using c by simp
  finally have "\<bar>y * 10 ^ 6 - of_int (n * 10 ^ 6)\<bar> < 1 / 2" .
  moreover have "\<bar>of_int (round_half_even (y * 10 ^ 6)) - y * 10 ^ 6\<bar> \<le> 1 / 2" by (rule round_half_even_close)
  ultimately have "\<bar>of_int (round_half_even (y * 10 ^ 6)) - of_int (n * 10 ^ 6)\<bar> < (1 :: rat)" by linarith
  then have "\<bar>round_half_even (y * 10 ^ 6) - n * 10 ^ 6\<bar> < 1" by (simp flip: of_int_diff of_int_abs only: of_int_less_1_iff)
  then show ?thesis by (simp add: v_def y_def)
qed

text \<open>Rounding displayed odds up leaves a price of two decimals alone: the noise of its binary representation does
  not move it a tick.\<close>

theorem ceil_odds_cents:
  assumes "0 < n" "n < (10 :: int) ^ 9"
  shows "ceil_odds (f64 (of_int n / 100)) 2 = Ok (f64 (of_int n / 100))"
proof -
  define v where "v = rnd (of_int n / 100)"
  have n: "(1 :: rat) \<le> of_int n" "(of_int n :: rat) < 10 ^ 9" using assms by (simp_all flip: of_int_power)
  have nb: "\<bar>n\<bar> < 2 ^ 53" using assms by simp
  have b: "is_f64 (10 ^ 9)" "is_f64 (10 ^ 12)" using is_f64_of_int [of "10 ^ 9"] is_f64_of_int [of "10 ^ 12"] by simp_all
  have v: "f64 (of_int n / 100) = Fin v" "0 \<le> v" "v \<le> 10 ^ 9"
    using f64_Fin_between [OF is_f64_0 b(1), of "of_int n / 100"] n by (auto simp: v_def)
  have s: "f64 (10 ^ 2) = Fin 100" using f64_rep [OF is_f64_of_int [of 100]] by simp
  have y: "f64 (v * 100) = Fin (rnd (v * 100))" using f64_Fin_between(1) [OF is_f64_0 b(2), of "v * 100"] v by auto
  have "round_places 6 (f_mul (Fin v) (Fin 100)) = Fin (of_int n)"
    using cents_recovered [OF assms, folded v_def] f64_rep [OF is_f64_of_int [OF nb]] by (simp add: round_places_def y)
  then show ?thesis
    unfolding ceil_odds_def Let_def s v(1) using float_of_int_small [OF nb] v(1) by (simp add: ceil_float_def)
qed

lemma ceil_odds_cents_witness: "ceil_odds (f64 (185 / 100)) 2 = Ok (f64 (185 / 100))"
  using ceil_odds_cents [of 185] by simp

end
