(* ===== verification/ValuePolicy.thy ===== *)
theory ValuePolicy
  imports Devig Pricing Names
begin

text \<open>
  The refinements of the value gate, \<^verbatim>\<open>app/edge/value_policy.py\<close>: the policy with its inert defaults, the
  per-market overrides (line detail before market family), the league and market tiers, the odds bands and
  the count of distinct books.
\<close>

subsection \<open>The policy\<close>

type_synonym 'v overrides = "(string \<times> 'v) list"

record value_policy =
  min_edge_by_market :: "pyfloat overrides"
  odds_bands :: "(pyfloat \<times> pyfloat) list"
  min_books_by_market :: "int overrides"
  major_leagues :: "string list"
  book_allowlist :: "string set"
  require_sharp_anchor :: bool
  max_edge :: pyfloat
  sanity_max_edge :: pyfloat
  max_edge_by_market :: "pyfloat overrides"
  devig_by_market :: "devig_method overrides"
  visibility_only_markets :: "string list"
  ah_max_odds :: pyfloat
  ah_max_sharp_soft_ratio :: pyfloat
  dc_max_sharp_soft_ratio :: pyfloat
  moneyline_max_odds :: pyfloat
  max_odds :: pyfloat
  consensus_logit_pool :: bool
  exchange_min_liquidity :: pyfloat
  betfair_api_promote :: bool
  betfair_staleness_guard :: bool
  betfair_staleness_shadow :: bool
  demote_draw_selections :: bool
  sharp_anchor_only_sports :: "string set"
  premium_max_hours_to_kickoff :: pyfloat
  shots_totals_veto :: bool
  stake_same_event_rho :: pyfloat

definition default_value_policy :: value_policy where
  "default_value_policy = \<lparr>min_edge_by_market = [], odds_bands = [], min_books_by_market = [], major_leagues = [],
     book_allowlist = {}, require_sharp_anchor = False, max_edge = PInf, sanity_max_edge = f64 (15 / 100),
     max_edge_by_market = [], devig_by_market = [], visibility_only_markets = [], ah_max_odds = Fin 15,
     ah_max_sharp_soft_ratio = Fin 3, dc_max_sharp_soft_ratio = f64 (15 / 10), moneyline_max_odds = PInf,
     max_odds = Fin 0, consensus_logit_pool = False, exchange_min_liquidity = Fin 0, betfair_api_promote = False,
     betfair_staleness_guard = False, betfair_staleness_shadow = True, demote_draw_selections = False,
     sharp_anchor_only_sports = {}, premium_max_hours_to_kickoff = PInf, shots_totals_veto = False,
     stake_same_event_rho = Fin 0\<rparr>"

subsection \<open>Overrides\<close>

text \<open>The lookup keys, most specific first; \<^verbatim>\<open>strip().lower()\<close> is \<open>norm_book\<close>.\<close>

definition detail_key :: "string option \<Rightarrow> string" where
  "detail_key market_detail = (case market_detail of None \<Rightarrow> [] | Some d \<Rightarrow> norm_book d)"

definition market_lookup_keys :: "string \<Rightarrow> string option \<Rightarrow> string list" where
  "market_lookup_keys market market_detail =
     (let keys = (if detail_key market_detail = [] then [] else [detail_key market_detail]); family = norm_book market in
      if family \<in> set keys then keys else keys @ [family])"

text \<open>\<open>dict\<close> of a tuple of pairs keeps the last value of a key; the first key with a value decides.\<close>

definition override_for :: "'v overrides \<Rightarrow> string \<Rightarrow> string option \<Rightarrow> 'v \<Rightarrow> 'v" where
  "override_for pairs market market_detail def =
     (let by_key = map_of (rev pairs) in
      case List.map_filter by_key (market_lookup_keys market market_detail) of v # _ \<Rightarrow> v | [] \<Rightarrow> def)"

definition min_edge_for :: "value_policy \<Rightarrow> string \<Rightarrow> string option \<Rightarrow> pyfloat \<Rightarrow> pyfloat" where
  "min_edge_for policy = override_for (min_edge_by_market policy)"

definition max_edge_for :: "value_policy \<Rightarrow> string \<Rightarrow> string option \<Rightarrow> pyfloat \<Rightarrow> pyfloat" where
  "max_edge_for policy = override_for (max_edge_by_market policy)"

definition devig_method_for :: "value_policy \<Rightarrow> string \<Rightarrow> string option \<Rightarrow> devig_method \<Rightarrow> devig_method" where
  "devig_method_for policy = override_for (devig_by_market policy)"

definition min_books_for :: "value_policy \<Rightarrow> string \<Rightarrow> string option \<Rightarrow> int" where
  "min_books_for policy market market_detail = override_for (min_books_by_market policy) market market_detail 0"

subsection \<open>Leagues\<close>

definition normalize_league :: "string \<Rightarrow> string" where
  "normalize_league name =
     lower (join_sp (split_ws (map (\<lambda>c. if is_alnum_ascii c then c else CHR '' '') (nfkd_ascii name))))"

definition is_major_league :: "value_policy \<Rightarrow> string \<Rightarrow> bool" where
  "is_major_league policy league_name =
     (if major_leagues policy = [] then True
      else let norm = normalize_league league_name in
        if norm = [] then False else norm \<in> normalize_league ` set (major_leagues policy))"

subsection \<open>Markets capped at the volume tier\<close>

definition partition_colon :: "string \<Rightarrow> string \<times> string" where
  "partition_colon key = (takeWhile (\<lambda>c. c \<noteq> CHR '':'') key, tl (dropWhile (\<lambda>c. c \<noteq> CHR '':'') key))"

definition split_sport_market :: "string \<Rightarrow> string option \<times> string" where
  "split_sport_market entry =
     (let key = norm_book entry in
      if CHR '':'' \<in> set key
      then let (sport, market) = partition_colon key; sport = strip sport in
        (if sport = [] then None else Some sport, strip market)
      else (None, key))"

definition sport_in_scope :: "string option \<Rightarrow> string \<Rightarrow> bool" where
  "sport_in_scope entry_sport candidate_sport = (case entry_sport of
     None \<Rightarrow> True
   | Some s \<Rightarrow> if candidate_sport = [] then False
               else candidate_sport = s \<or> startswith (s @ ''_'') candidate_sport)"

definition entry_caps :: "string list \<Rightarrow> string \<Rightarrow> string \<Rightarrow> string \<Rightarrow> bool" where
  "entry_caps keys detail candidate_sport entry =
     (let (entry_sport, entry_market) = split_sport_market entry in
      if entry_market = [] then False
      else if \<not> sport_in_scope entry_sport candidate_sport then False
      else entry_market \<in> set keys
        \<or> detail \<noteq> [] \<and> (detail = entry_market \<or> startswith (entry_market @ ''_'') detail))"

definition is_visibility_only_market :: "value_policy \<Rightarrow> string \<Rightarrow> string option \<Rightarrow> string option \<Rightarrow> bool" where
  "is_visibility_only_market policy market market_detail sport =
     (if visibility_only_markets policy = [] then False
      else list_ex (entry_caps (market_lookup_keys market market_detail) (detail_key market_detail)
             (case sport of None \<Rightarrow> [] | Some s \<Rightarrow> norm_book s)) (visibility_only_markets policy))"

subsection \<open>Bands and books\<close>

definition odds_in_bands :: "pyfloat \<Rightarrow> (pyfloat \<times> pyfloat) list \<Rightarrow> bool" where
  "odds_in_bands odds bands = (if bands = [] then True else list_ex (\<lambda>(lo, hi). f_le lo odds \<and> f_le odds hi) bands)"

definition distinct_book_count :: "(string \<times> (string \<times> pyfloat) list) list \<Rightarrow> string set \<Rightarrow> nat" where
  "distinct_book_count prices excluded =
     card (set (filter (\<lambda>nb. nb \<notin> excluded) (map norm_book (concat (map (map fst \<circ> snd) prices)))))"

subsection \<open>Overrides are looked up by normal form, most specific first\<close>

lemma code_lower_char: "is_space (lower_char c) = is_space c"
proof (cases "is_upper_ascii c \<or> 192 \<le> code c \<and> code c \<le> 222 \<and> code c \<noteq> 215")
  case True
  then have n: "65 \<le> code c \<and> code c \<le> 90 \<or> 192 \<le> code c \<and> code c \<le> 222" by (auto simp: is_upper_ascii_def Let_def)
  then have "code (lower_char c) = code c + 32" using True by (auto simp: lower_char_def Let_def)
  then show ?thesis using n by (auto simp: is_space_def Let_def)
next
  case False
  then have "lower_char c = c" by (auto simp: lower_char_def Let_def)
  then show ?thesis by simp
qed

declare lower_idem [simp]

lemma strip_lower: "strip (lower s) = lower (strip s)"
proof -
  have d: "dropWhile is_space (map lower_char x) = map lower_char (dropWhile is_space x)" for x
    by (simp add: dropWhile_map o_def code_lower_char)
  show ?thesis by (simp add: strip_def lower_def d rev_map)
qed

lemma strip_idem [simp]: "strip (strip s) = strip s"
proof (cases "strip s = []")
  case True
  have "strip [] = []" by (simp add: strip_def)
  then show ?thesis by (simp only: True)
next
  case False
  define d where "d = dropWhile is_space s"
  define r where "r = dropWhile is_space (rev d)"
  have s: "strip s = rev r" by (simp add: strip_def d_def r_def)
  have r: "r \<noteq> []" using False s by simp
  then have last: "\<not> is_space (last (strip s))" using hd_dropWhile [of is_space "rev d"] by (simp add: s r_def last_rev)
  have "last r = hd d"
  proof -
    obtain w where "rev d = w @ r" unfolding r_def by (metis takeWhile_dropWhile_id)
    then have "last (rev d) = last r" using r by simp
    then show ?thesis by (simp add: last_rev)
  qed
  moreover have "d \<noteq> []" using r by (auto simp: r_def)
  ultimately have "\<not> is_space (hd (strip s))" using hd_dropWhile [of is_space s] by (simp add: s d_def hd_rev)
  then show ?thesis using strip_ends [OF False] last by simp
qed

lemma norm_book_idem [simp]: "norm_book (norm_book s) = norm_book s"
  by (simp add: norm_book_def strip_lower)

text \<open>An override of the line detail wins over one of the market family, which wins over the default; the
  spelling of the candidate's market and detail does not matter; and the default policy overrides nothing.\<close>

theorem override_most_specific:
  "override_for pairs market d v
     = (case (if detail_key d = [] then None else map_of (rev pairs) (detail_key d)) of
          Some x \<Rightarrow> x
        | None \<Rightarrow> (case map_of (rev pairs) (norm_book market) of Some x \<Rightarrow> x | None \<Rightarrow> v))
   \<and> override_for pairs (norm_book market) (Some (detail_key d)) v = override_for pairs market d v
   \<and> min_edge_for default_value_policy market d e = e \<and> max_edge_for default_value_policy market d e = e
   \<and> devig_method_for default_value_policy market d m = m \<and> min_books_for default_value_policy market d = 0"
proof -
  have key: "detail_key (Some (detail_key d)) = detail_key d" by (cases d) (simp_all add: detail_key_def, simp add: norm_book_def strip_def lower_def)
  have keys: "market_lookup_keys (norm_book market) (Some (detail_key d)) = market_lookup_keys market d"
    unfolding market_lookup_keys_def Let_def key by simp
  have dfl: "min_edge_for default_value_policy market d e = e" "max_edge_for default_value_policy market d e = e"
    "devig_method_for default_value_policy market d m = m" "min_books_for default_value_policy market d = 0"
    by (simp_all add: min_edge_for_def max_edge_for_def devig_method_for_def min_books_for_def default_value_policy_def
        override_for_def market_lookup_keys_def map_filter_simps Let_def)
  have first: "override_for pairs market d v
     = (case (if detail_key d = [] then None else map_of (rev pairs) (detail_key d)) of
          Some x \<Rightarrow> x
        | None \<Rightarrow> (case map_of (rev pairs) (norm_book market) of Some x \<Rightarrow> x | None \<Rightarrow> v))"
    by (auto simp: override_for_def market_lookup_keys_def map_filter_simps Let_def split: option.splits)
  show ?thesis using first dfl by (simp add: override_for_def keys)
qed

subsection \<open>Leagues\<close>

lemma clean_is: "clean s = map lower_char (map (\<lambda>c. if is_alnum_ascii c then c else CHR '' '') (nfkd_ascii s))"
proof -
  have "clean_char c = lower_char (if is_alnum_ascii c then c else CHR '' '')" if "code c < 128" for c
  proof -
    have l: "is_alnum_ascii (lower_char c) = is_alnum_ascii c" using that
      by (auto simp: is_alnum_ascii_def is_digit_def is_upper_ascii_def is_lower_ascii_def lower_char_def Let_def)
    have "lower_char CHR '' '' = CHR '' ''" by code_simp
    then show ?thesis using l by (simp add: clean_char_def Let_def)
  qed
  then show ?thesis using nfkd_ascii_is_ascii by (simp add: clean_def)
qed

lemma lower_tok: "list_all (\<lambda>c. \<not> is_space c) cur \<Longrightarrow> tok is_space (map lower_char cur) (map lower_char s) = map (map lower_char) (tok is_space cur s)"
  by (induction is_space cur s rule: tok.induct) (simp_all add: code_lower_char)

lemma lower_join_sp: "lower (join_sp ts) = join_sp (map lower ts)"
proof -
  have "lower_char CHR '' '' = CHR '' ''" by code_simp
  then show ?thesis by (induction ts rule: join_sp.induct) (simp_all add: lower_def)
qed

lemma normalize_league_clean: "normalize_league s = join_sp (split_ws (clean s))"
  unfolding normalize_league_def clean_is split_ws_def lower_join_sp
  using lower_tok [of "[]"] by (simp add: lower_def [abs_def] del: map_map)

text \<open>League names are compared in a normal form that is stable, so a configured league is major however it is
  spelled; a name without letters or digits is major only when no league is configured; and adding a
  league to the configured ones never demotes another.\<close>

theorem major_league_by_normal_form:
  "normalize_league (normalize_league s) = normalize_league s
   \<and> is_major_league policy (normalize_league s) = is_major_league policy s
   \<and> (normalize_league s = [] \<longrightarrow> is_major_league policy s = (major_leagues policy = []))
   \<and> (major_leagues policy \<noteq> [] \<and> is_major_league policy s
        \<longrightarrow> is_major_league (policy\<lparr>major_leagues := l # major_leagues policy\<rparr>) s)"
proof -
  have w: "list_all is_word (split_ws (clean s))" by (auto simp: list_all_iff dest: split_ws_words)
  have "norm_char c" if t: "t \<in> set (split_ws (clean s))" and c: "c \<in> set t" for t c
  proof -
    have "c \<in> set (clean s)" using split_ws_chars [OF t] c by blast
    moreover have "c \<noteq> CHR '' ''" using split_ws_words [OF t] c by (auto simp: is_word_def list_all_iff)
    ultimately show ?thesis using clean_chars by blast
  qed
  then have "list_all (list_all norm_char) (split_ws (clean s))" by (auto simp: list_all_iff)
  then have idem: "normalize_league (normalize_league s) = normalize_league s"
    by (simp add: normalize_league_clean clean_join_chars split_ws_join_sp w)
  then show ?thesis by (auto simp: is_major_league_def Let_def)
qed

lemma major_league_by_normal_form_witness:
  "is_major_league (default_value_policy\<lparr>major_leagues := [''La Liga'', ''Premier League'']\<rparr>) ''premier  LEAGUE''"
proof -
  have "is_major_league (default_value_policy\<lparr>major_leagues := [''Premier League'']\<rparr>) ''premier  LEAGUE''" by code_simp
  then show ?thesis
    using major_league_by_normal_form [of "''premier  LEAGUE''" "default_value_policy\<lparr>major_leagues := [''Premier League'']\<rparr>" "''La Liga''"]
    by simp
qed

subsection \<open>The visibility cap\<close>

text \<open>A name as a configuration entry carries it.\<close>

definition key_word :: "string \<Rightarrow> bool" where
  "key_word s = (s \<noteq> [] \<and> strip s = s \<and> lower s = s \<and> CHR '':'' \<notin> set s)"

lemma split_qualified:
  assumes "key_word s" "key_word m" shows "split_sport_market (s @ '':'' @ m) = (Some s, m) \<and> split_sport_market m = (None, m)"
proof -
  have c: "lower_char CHR '':'' = CHR '':''" by code_simp
  have ne: "s @ '':'' @ m \<noteq> []" by simp
  have "strip (s @ '':'' @ m) = s @ '':'' @ m"
    using assms strip_ends [OF ne] strip_ends [of s] strip_ends [of m] by (auto simp: key_word_def)
  then have k: "norm_book (s @ '':'' @ m) = s @ '':'' @ m" "norm_book m = m"
    using assms c by (auto simp: norm_book_def key_word_def lower_def)
  have tw: "takeWhile (\<lambda>c. c \<noteq> CHR '':'') (s @ '':'' @ m) = s"
    using assms by (subst takeWhile_append2) (auto simp: key_word_def)
  have dw: "dropWhile (\<lambda>c. c \<noteq> CHR '':'') (s @ '':'' @ m) = '':'' @ m"
    using assms by (subst dropWhile_append2) (auto simp: key_word_def)
  have "split_sport_market (s @ '':'' @ m) = (Some s, m)"
    unfolding split_sport_market_def Let_def k partition_colon_def prod.case tw dw using assms by (simp add: key_word_def)
  moreover have "split_sport_market m = (None, m)"
    unfolding split_sport_market_def k using assms by (simp add: key_word_def Let_def)
  ultimately show ?thesis by simp
qed

definition market_capped :: "string \<Rightarrow> string \<Rightarrow> string option \<Rightarrow> bool" where
  "market_capped entry_market market d = (entry_market \<in> set (market_lookup_keys market d)
     \<or> detail_key d \<noteq> [] \<and> (detail_key d = entry_market \<or> startswith (entry_market @ ''_'') (detail_key d)))"

text \<open>A plain entry caps its market, and every line of it, for all sports; an entry qualified by a sport does so for
  that sport and the leagues filed under it, and for nothing when the sport is unknown; without entries
  nothing is capped.\<close>

theorem visibility_cap_exact:
  assumes "key_word s" "key_word m"
  shows "is_visibility_only_market (policy\<lparr>visibility_only_markets := [m]\<rparr>) market d sport = market_capped m market d
    \<and> is_visibility_only_market (policy\<lparr>visibility_only_markets := [s @ '':'' @ m]\<rparr>) market d (Some c)
      = ((norm_book c = s \<or> startswith (s @ ''_'') (norm_book c)) \<and> market_capped m market d)
    \<and> \<not> is_visibility_only_market (policy\<lparr>visibility_only_markets := [s @ '':'' @ m]\<rparr>) market d None
    \<and> \<not> is_visibility_only_market (policy\<lparr>visibility_only_markets := []\<rparr>) market d sport"
proof -
  have ne: "m \<noteq> []" "s \<noteq> []" using assms by (auto simp: key_word_def)
  note sp = split_qualified [OF assms, simplified append_Cons append_Nil]
  have "norm_book c = [] \<Longrightarrow> \<not> startswith (s @ ''_'') (norm_book c)" by (simp add: startswith_def)
  then show ?thesis
    unfolding is_visibility_only_market_def entry_caps_def market_capped_def using ne
    by (auto simp: sp sport_in_scope_def)
qed

lemma visibility_cap_exact_witness:
  "is_visibility_only_market (default_value_policy\<lparr>visibility_only_markets := [''soccer'' @ '':'' @ ''asian_handicap'']\<rparr>)
     ''spreads'' (Some ''Asian_Handicap_-1_5'') (Some ''soccer_epl'')"
proof -
  have k: "key_word ''soccer''" "key_word ''asian_handicap''" by code_simp+
  have "norm_book ''soccer_epl'' = ''soccer'' \<or> startswith (''soccer'' @ ''_'') (norm_book ''soccer_epl'')"
    "market_capped ''asian_handicap'' ''spreads'' (Some ''Asian_Handicap_-1_5'')" by code_simp+
  then show ?thesis using visibility_cap_exact [OF k] by blast
qed

end
