(* ===== verification/Results.thy ===== *)
theory Results
  imports Names PyTime
begin

text \<open>
  Final scores and their lookup, \<^verbatim>\<open>app/settlement/results.py\<close>: the settlement spelling of a team, the
  comparison of names across providers, the index of scores, the lookup that tolerates one day of date
  skew and refuses what is ambiguous, and the choice of results sources.  Logging and the record of what
  was already warned about do not influence the answers and are not modelled; neither is the download
  of the files.
\<close>

subsection \<open>The settlement spelling\<close>

text \<open>The letters without a decomposition, as far as the modelled code points go.\<close>

definition transliterate_char :: "char \<Rightarrow> string" where
  "transliterate_char c = (let n = code c in
     if n = 248 then ''o'' else if n = 216 then ''O'' else if n = 230 then ''ae'' else if n = 198 then ''Ae''
     else if n = 240 then ''d'' else if n = 208 then ''D'' else if n = 254 then ''th'' else if n = 222 then ''Th''
     else if n = 223 then ''ss'' else [c])"

definition transliterate :: "string \<Rightarrow> string" where
  "transliterate s = concat (map transliterate_char s)"

definition name_aliases :: "(string \<times> string) list" where
  "name_aliases = [(''f c kobenhavn'', ''fc copenhagen''), (''heart of midlothian'', ''hearts''),
     (''red star belgrade'', ''crvena zvezda''), (''the new saints'', ''tns''), (''din tbilisi'', ''dinamo tbilisi''),
     (''dinamo city'', ''dinamo tirana''), (''ml vitebsk'', ''bc maxline''), (''red bull new york'', ''new york red bulls''),
     (''abroath'', ''arbroath''), (''hapoel be er'', ''hapoel beer sheva''), (''pafos'', ''aep paphos''),
     (''botic van de zandschulo'', ''botic van de zandschulp'')]"

definition alias_of :: "string \<Rightarrow> string" where
  "alias_of normalized = (case map_of name_aliases normalized of Some c \<Rightarrow> c | None \<Rightarrow> normalized)"

definition normalize_team :: "string \<Rightarrow> string" where
  "normalize_team name = alias_of (join_sp (split_ws (clean (transliterate name))))"

subsection \<open>Comparing names\<close>

definition club_tokens :: "string list" where
  "club_tokens = [''fc'', ''fk'', ''cf'', ''sc'', ''ce'', ''ss'', ''bc'', ''kf'', ''cs'', ''sk'', ''ac'', ''cd'', ''if'', ''bk'',
     ''afc'', ''nk'', ''hnk'', ''us'', ''as'', ''rc'', ''sv'', ''sd'', ''ud'', ''ca'', ''ki'', ''club'', ''fci'']"

definition token_rewrite :: "string \<Rightarrow> string" where
  "token_rewrite t = (if t = ''utd'' then ''united'' else if t = ''queens'' then ''queen'' else t)"

definition core_tokens :: "string \<Rightarrow> string set" where
  "core_tokens normalized = token_rewrite ` set (filter (\<lambda>t. t \<notin> set club_tokens \<and> length t > 1) (split_ws normalized))"

definition names_match :: "string \<Rightarrow> string \<Rightarrow> bool" where
  "names_match ours theirs =
     (if ours = theirs \<or> contains ours theirs \<or> contains theirs ours then True
      else let u = core_tokens ours; t = core_tokens theirs in
        u \<noteq> {} \<and> t \<noteq> {} \<and> (u = t \<or> u \<subseteq> t \<or> t \<subseteq> u))"

definition markers_agree :: "string \<Rightarrow> string \<Rightarrow> bool" where
  "markers_agree ours theirs = (distinguishing_markers ours = distinguishing_markers theirs)"

subsection \<open>The score book\<close>

datatype completion = Full | Retired | Void_Match
datatype winner_side = Home_Side | Away_Side

type_synonym date = int

record final_score =
  home_team :: string
  away_team :: string
  match_date :: date
  home_score :: int
  away_score :: int
  completion :: completion
  winner_side :: "winner_side option"

record score_book =
  exact_scores :: "(string \<times> string \<times> date) \<rightharpoonup> final_score"
  by_date :: "date \<rightharpoonup> final_score list"
  score_count :: nat

definition empty_book :: score_book where
  "empty_book = \<lparr>exact_scores = Map.empty, by_date = Map.empty, score_count = 0\<rparr>"

definition on_date :: "score_book \<Rightarrow> date \<Rightarrow> final_score list" where
  "on_date b d = (case by_date b d of Some ss \<Rightarrow> ss | None \<Rightarrow> [])"

definition score_key :: "final_score \<Rightarrow> string \<times> string \<times> date" where
  "score_key s = (normalize_team (home_team s), normalize_team (away_team s), match_date s)"

definition add_score :: "score_book \<Rightarrow> final_score \<Rightarrow> score_book" where
  "add_score b s = b\<lparr>exact_scores := (exact_scores b)(score_key s \<mapsto> s),
     by_date := (by_date b)(match_date s \<mapsto> on_date b (match_date s) @ [s]), score_count := Suc (score_count b)\<rparr>"

definition build_book :: "final_score list \<Rightarrow> score_book" where
  "build_book scores = foldl add_score empty_book scores"

definition contained :: "score_book \<Rightarrow> string \<Rightarrow> string \<Rightarrow> date \<Rightarrow> final_score list" where
  "contained b home away d = filter (\<lambda>s.
     names_match (normalize_team home) (normalize_team (home_team s))
     \<and> names_match (normalize_team away) (normalize_team (away_team s))
     \<and> markers_agree home (home_team s) \<and> markers_agree away (away_team s)) (on_date b d)"

definition payload :: "final_score \<Rightarrow> int \<times> int \<times> completion \<times> winner_side option" where
  "payload s = (home_score s, away_score s, completion s, winner_side s)"

text \<open>The candidates of the second stage: those of the date, else those of one adjacent date.\<close>

definition stage_two :: "score_book \<Rightarrow> string \<Rightarrow> string \<Rightarrow> date \<Rightarrow> final_score list" where
  "stage_two b home away d0 =
     (let own = contained b home away d0;
          before = contained b home away (d0 - 1); after = contained b home away (d0 + 1) in
      if own \<noteq> [] then own
      else if before \<noteq> [] \<and> after \<noteq> [] then []
      else if before \<noteq> [] then before else after)"

definition settle_among :: "final_score list \<Rightarrow> final_score option" where
  "settle_among cs = (case cs of [] \<Rightarrow> None
     | s # _ \<Rightarrow> if length (remdups (map payload cs)) = 1 then Some s else None)"

definition lookup :: "score_book \<Rightarrow> string \<Rightarrow> string \<Rightarrow> time \<Rightarrow> final_score option" where
  "lookup b home away kickoff_utc =
     (let h = normalize_team home; a = normalize_team away; d0 = day_of kickoff_utc in
      case exact_scores b (h, a, d0) of
        Some s \<Rightarrow> Some s
      | None \<Rightarrow> (case (exact_scores b (h, a, d0 - 1), exact_scores b (h, a, d0 + 1)) of
            (Some p, Some n) \<Rightarrow> None
          | (Some p, None) \<Rightarrow> Some p
          | (None, Some n) \<Rightarrow> Some n
          | (None, None) \<Rightarrow> settle_among (stage_two b home away d0)))"

subsection \<open>Sources\<close>

datatype score_source = International | New_League string | Season string

definition slug_sources :: "(string \<times> score_source) list" where
  "slug_sources = [(''world-cup'', International), (''brazil-serie-a'', New_League ''BRA''),
     (''argentina-liga-profesional'', New_League ''ARG''), (''mexico-liga-mx'', New_League ''MEX''),
     (''england-premier-league'', Season ''E0''), (''england-championship'', Season ''E1''),
     (''scotland-premiership'', Season ''SC0''), (''scotland-championship'', Season ''SC1''),
     (''germany-bundesliga'', Season ''D1''), (''germany-bundesliga-2'', Season ''D2''), (''italy-serie-a'', Season ''I1''),
     (''italy-serie-b'', Season ''I2''), (''spain-laliga'', Season ''SP1''), (''spain-laliga2'', Season ''SP2''),
     (''france-ligue-1'', Season ''F1''), (''liga-portugal'', Season ''P1''), (''netherlands-eredivisie'', Season ''N1''),
     (''belgium-jupiler-pro-league'', Season ''B1''), (''turkey-super-lig'', Season ''T1''),
     (''greece-super-league'', Season ''G1''), (''scotland-league-one'', Season ''SC2''), (''scotland-league-two'', Season ''SC3'')]"

definition add_source :: "score_source list \<Rightarrow> score_source \<Rightarrow> score_source list" where
  "add_source sources s = (if s \<in> set sources then sources else sources @ [s])"

definition slug_step :: "score_source list \<Rightarrow> string \<Rightarrow> score_source list" where
  "slug_step sources slug =
     (if slug = ''all'' then foldl add_source sources (map snd slug_sources)
      else case map_of slug_sources slug of None \<Rightarrow> sources | Some s \<Rightarrow> add_source sources s)"

definition league_score_sources :: "string list \<Rightarrow> score_source list" where
  "league_score_sources slugs = foldl slug_step [] slugs"

definition two_digits :: "int \<Rightarrow> string" where
  "two_digits n = (if n < 10 then ''0'' else []) @ show_nat (nat n)"

definition current_season_code :: "int \<Rightarrow> int \<Rightarrow> string" where
  "current_season_code year month =
     (let start_year = (if month \<ge> 7 then year else year - 1) in
      two_digits (start_year mod 100) @ two_digits ((start_year + 1) mod 100))"

subsection \<open>The settlement spelling is stable\<close>

lemma norm_chars_tokens: "list_all (list_all norm_char) (split_ws (clean s)) \<and> list_all is_word (split_ws (clean s))"
proof -
  have w: "list_all is_word (split_ws (clean s))" by (auto simp: list_all_iff dest: split_ws_words)
  have "norm_char c" if t: "t \<in> set (split_ws (clean s))" and c: "c \<in> set t" for t c
  proof -
    have "c \<in> set (clean s)" using split_ws_chars [OF t] c by blast
    moreover have "c \<noteq> CHR '' ''" using split_ws_words [OF t] c by (auto simp: is_word_def list_all_iff)
    ultimately show ?thesis using clean_chars by blast
  qed
  then show ?thesis using w by (auto simp: list_all_iff)
qed

lemma transliterate_ascii: "\<forall>c \<in> set s. code c < 128 \<Longrightarrow> transliterate s = s"
  by (induction s) (auto simp: transliterate_def transliterate_char_def Let_def)

lemma spelled_stable:
  assumes "n = join_sp (split_ws (clean s))" shows "join_sp (split_ws (clean (transliterate n))) = n"
proof -
  define ts where "ts = split_ws (clean s)"
  have ts: "list_all (list_all norm_char) ts" "list_all is_word ts" using norm_chars_tokens [of s] by (simp_all add: ts_def)
  have "code c < 128" if c: "c \<in> set n" for c
  proof -
    have "c = CHR '' '' \<or> norm_char c" using c set_join_sp [of ts] ts(1) by (auto simp: assms ts_def [symmetric] list_all_iff)
    then show ?thesis by (auto simp: norm_char_def is_digit_def is_lower_ascii_def Let_def)
  qed
  then have "transliterate n = n" by (simp add: transliterate_ascii)
  then show ?thesis using ts by (simp add: assms ts_def [symmetric] clean_join_chars split_ws_join_sp)
qed

lemma alias_targets_stable: "list_all (\<lambda>e. normalize_team (snd e) = snd e) name_aliases" by code_simp

text \<open>The settlement spelling is a normal form: respelling a respelled name changes nothing, through the alias
  table as well.\<close>

theorem normalize_team_idem: "normalize_team (normalize_team name) = normalize_team name"
proof -
  define n where "n = join_sp (split_ws (clean (transliterate name)))"
  show ?thesis
  proof (cases "map_of name_aliases n")
    case None
    then have "normalize_team name = n" by (simp add: normalize_team_def alias_of_def n_def)
    moreover have "normalize_team n = n"
      using spelled_stable [OF n_def] None by (simp add: normalize_team_def alias_of_def)
    ultimately show ?thesis by simp
  next
    case (Some c)
    then have "normalize_team name = c" by (simp add: normalize_team_def alias_of_def n_def)
    moreover have "normalize_team c = c" using map_of_SomeD [OF Some] alias_targets_stable by (auto simp: list_all_iff)
    ultimately show ?thesis by simp
  qed
qed

subsection \<open>What the book holds\<close>






subsection \<open>What a lookup returns\<close>








text \<open>A feed row of the day after the kickoff, a same-day row of two other teams, and a pick.\<close>

definition sample_row :: "string \<Rightarrow> string \<Rightarrow> date \<Rightarrow> int \<Rightarrow> int \<Rightarrow> final_score" where
  "sample_row h a d x y = \<lparr>home_team = h, away_team = a, match_date = d, home_score = x, away_score = y,
     completion = Full, winner_side = None\<rparr>"




subsection \<open>Names without letters\<close>

lemma markers_blank: "distinguishing_markers ''??'' = {}" by code_simp

text \<open>A name none of whose characters survives the spelling, such as one written in another script, is the
  empty string, which every name contains: a pick with two such names is settled by the only score of its
  date, whatever two unmarked teams that score belongs to.\<close>

theorem blank_names_settle:
  "lookup (build_book [sample_row ''Hearts'' ''Rangers'' 0 3 1]) ''??'' ''??'' 0 = Some (sample_row ''Hearts'' ''Rangers'' 0 3 1)
   \<and> names_match (normalize_team ''??'') t"
proof -
  have "normalize_team ''??'' = []" by code_simp
  moreover have "contains [] t" by (cases t) (simp_all add: startswith_def)
  moreover have "lookup (build_book [sample_row ''Hearts'' ''Rangers'' 0 3 1]) ''??'' ''??'' 0 = Some (sample_row ''Hearts'' ''Rangers'' 0 3 1)"
    by code_simp
  ultimately show ?thesis by (simp add: names_match_def)
qed

end
