(* ===== verification/Settlement.thy ===== *)
theory Settlement
  imports Results Outcomes "HOL-Library.List_Lexorder" "HOL-Library.Char_ord"
begin

text \<open>
  The settlement engine, \<^verbatim>\<open>app/settlement/engine.py\<close>, over the tables it reads and writes: events, sports,
  picks, logged bets and results, the last with the unique constraint on the pick.  Every operation is one
  database transaction run on its own; what happens between concurrent transactions is the subject of
  \<^verbatim>\<open>SettleLocks\<close>.  The rows of a query come in the order of the table.  Amounts are the numbers handed to the
  database, before a column rounds them.  The columns of the closing line, which only
  \<^verbatim>\<open>finalize_closing_from_snapshots\<close> writes, are not part of the state, and logging is left out.
\<close>

subsection \<open>Tables\<close>

record event_row =
  ev_sport :: int
  ev_home :: string
  ev_away :: string
  ev_starts :: "time option"
  ev_status :: string
  ev_scraped_home :: "int option"
  ev_scraped_away :: "int option"

record pick_row =
  pk_id :: int
  pk_event :: int
  pk_model :: int
  pk_market :: string
  pk_detail :: "string option"
  pk_selection :: string
  pk_book :: string
  pk_odds :: rat
  pk_stake :: rat
  pk_basis_stake :: rat
  pk_basis_term :: rat
  pk_created :: time
  pk_status :: string

record bet_log =
  bl_id :: int
  bl_pick :: int
  bl_placed :: bool
  bl_stake :: "rat option"
  bl_odds :: "rat option"
  bl_book :: "string option"

record result_row =
  rr_outcome :: outcome
  rr_pnl :: rat
  rr_roi :: "rat option"
  rr_stake :: rat
  rr_odds :: rat
  rr_scores :: "(int \<times> int) option"
  rr_note :: "string option"
  rr_at :: time

record store =
  events :: "int \<rightharpoonup> event_row"
  sports :: "int \<rightharpoonup> string"
  picks :: "pick_row list"
  logs :: "bet_log list"
  results :: "int \<rightharpoonup> result_row"

definition alerted :: string where "alerted = ''alerted''"
definition settled :: string where "settled = ''settled''"
definition superseded :: string where "superseded = ''superseded''"

definition set_status :: "int \<Rightarrow> string \<Rightarrow> store \<Rightarrow> store" where
  "set_status i s db = db\<lparr>picks := map (\<lambda>p. if pk_id p = i then p\<lparr>pk_status := s\<rparr> else p) (picks db)\<rparr>"

text \<open>An insert that does nothing when the pick has a result; whether a row was inserted.\<close>

definition insert_result :: "int \<Rightarrow> result_row \<Rightarrow> store \<Rightarrow> bool \<times> store" where
  "insert_result i row db =
     (case results db i of Some _ \<Rightarrow> (False, db) | None \<Rightarrow> (True, db\<lparr>results := (results db)(i \<mapsto> row)\<rparr>))"

text \<open>\<^verbatim>\<open>update(Event).where(status != "finished")\<close>.\<close>

definition finish_event :: "int \<Rightarrow> store \<Rightarrow> store" where
  "finish_event i db = (case events db i of
     Some e \<Rightarrow> if ev_status e \<noteq> ''finished'' then db\<lparr>events := (events db)(i \<mapsto> e\<lparr>ev_status := ''finished''\<rparr>)\<rparr> else db
   | None \<Rightarrow> db)"

subsection \<open>Delays and tolerances\<close>

definition hours :: "int \<Rightarrow> duration" where "hours n = n * 3600 * 10 ^ 6"

definition dedup_fixture_tolerance :: duration where "dedup_fixture_tolerance = hours 2"

definition dedup_tolerance :: "string \<Rightarrow> duration" where
  "dedup_tolerance sport_key = (if sport_key = ''tennis'' then hours 6 else dedup_fixture_tolerance)"

definition base_settle_delay :: duration where "base_settle_delay = hours 2"

definition sport_settle_delay :: "(string \<times> duration) list" where
  "sport_settle_delay = [(''basketball'', hours 4), (''american_football'', hours 4 + 30 * 60 * 10 ^ 6), (''tennis'', hours 6)]"

definition settle_delay_for :: "string \<Rightarrow> duration \<Rightarrow> duration" where
  "settle_delay_for sport_key base =
     max base (case map_of sport_settle_delay sport_key of Some d \<Rightarrow> d | None \<Rightarrow> base)"

definition stale_null_kickoff_age :: duration where "stale_null_kickoff_age = 14 * hours 24"
definition stale_unsettleable_age :: duration where "stale_unsettleable_age = 15 * hours 24"
definition score_window :: duration where "score_window = 14 * hours 24"

definition expired_note :: string where "expired_note = ''expired_no_result_source''"

subsection \<open>Stakes\<close>

definition settlement_basis :: "pick_row \<Rightarrow> rat \<times> rat \<times> string option" where
  "settlement_basis p =
     (if pk_basis_stake p > 0 \<and> pk_basis_term p > 0
      then (pk_basis_stake p, dec (pk_basis_term p / pk_basis_stake p), None)
      else (pk_stake p, pk_odds p, Some (pk_book p)))"

text \<open>The price handed over, net of commission once.  An infinite price is no price.\<close>

definition effective_settlement_odds :: "rat \<Rightarrow> string option \<Rightarrow> rat res" where
  "effective_settlement_odds odds bookmaker = (case bookmaker of
     None \<Rightarrow> Ok odds
   | Some b \<Rightarrow> (case effective_odds b (f64 odds) of Fin x \<Rightarrow> Ok (repr_float x) | _ \<Rightarrow> Raise InvalidOperation))"

text \<open>The placed bet with a stake that was logged last.\<close>

definition latest_log :: "store \<Rightarrow> int \<Rightarrow> bet_log option" where
  "latest_log db i =
     (case rev (sort_key bl_id (filter (\<lambda>l. bl_pick l = i \<and> bl_placed l \<and> bl_stake l \<noteq> None) (logs db))) of
        [] \<Rightarrow> None | l # _ \<Rightarrow> Some l)"

definition stake_and_odds :: "store \<Rightarrow> pick_row \<Rightarrow> rat \<times> rat \<times> string option" where
  "stake_and_odds db p = (case latest_log db (pk_id p) of
     None \<Rightarrow> settlement_basis p
   | Some l \<Rightarrow> (case (bl_stake l, bl_odds l) of
        (None, _) \<Rightarrow> settlement_basis p
      | (Some st, Some od) \<Rightarrow>
          (st, od, Some (case bl_book l of Some b \<Rightarrow> if b = [] then pk_book p else b | None \<Rightarrow> pk_book p))
      | (Some st, None) \<Rightarrow> (case settlement_basis p of (_, od, b) \<Rightarrow> (st, od, b))))"

subsection \<open>The instrument of a pick\<close>

text \<open>\<^verbatim>\<open>str.isdigit\<close>, which also holds of the superscripts.\<close>

definition py_isdigit :: "char \<Rightarrow> bool" where
  "py_isdigit c = (is_digit c \<or> code c = 178 \<or> code c = 179 \<or> code c = 185)"

fun join_or :: "string list \<Rightarrow> string" where
  "join_or [] = []"
| "join_or [t] = t"
| "join_or (t # u # ts) = t @ '' or '' @ join_or (u # ts)"

definition selection_dedup_key :: "string \<Rightarrow> string" where
  "selection_dedup_key selection =
     (let base = strip_live_status selection; (team, raw_line) = rpartition_sp base in
      if team \<noteq> [] \<and> parse_signed raw_line \<noteq> None
      then let norm = normalize_name (strip_live_status team) in
        if norm \<noteq> [] then norm @ '' '' @ raw_line else base
      else if contains '' or '' base
      then let parts = map normalize_name (split_on '' or '' base) in
        if [] \<notin> set parts then join_or (sort parts) else base
      else if list_ex py_isdigit base then base
      else if normalize_name base \<noteq> [] then normalize_name base else base)"

definition sport_of :: "store \<Rightarrow> event_row \<Rightarrow> string option" where
  "sport_of db e = sports db (ev_sport e)"

text \<open>The pick with its event and the key of its sport, as the queries join them.\<close>

definition joined :: "store \<Rightarrow> pick_row \<Rightarrow> (event_row \<times> string) option" where
  "joined db p = (case events db (pk_event p) of None \<Rightarrow> None
     | Some e \<Rightarrow> map_option (Pair e) (sport_of db e))"

definition starts_within :: "event_row \<Rightarrow> time \<Rightarrow> duration \<Rightarrow> bool" where
  "starts_within e t tol = (case ev_starts e of None \<Rightarrow> False | Some s \<Rightarrow> t - tol \<le> s \<and> s \<le> t + tol)"

definition settled_sibling :: "store \<Rightarrow> pick_row \<Rightarrow> int \<Rightarrow> time \<Rightarrow> string \<Rightarrow> string set \<Rightarrow> pick_row \<Rightarrow> bool" where
  "settled_sibling db p sport starts sport_key pair q =
     (results db (pk_id q) \<noteq> None \<and> pk_id q \<noteq> pk_id p \<and> pk_event q \<noteq> pk_event p
      \<and> pk_market q = pk_market p \<and> pk_detail q = pk_detail p \<and> pk_model q = pk_model p
      \<and> (case events db (pk_event q) of None \<Rightarrow> False
         | Some f \<Rightarrow> ev_sport f = sport \<and> starts_within f starts (dedup_tolerance sport_key)
             \<and> fixture_pair_key (ev_home f) (ev_away f) = Some pair)
      \<and> selection_dedup_key (pk_selection q) = selection_dedup_key (pk_selection p))"

definition settled_sibling_exists :: "store \<Rightarrow> pick_row \<Rightarrow> int \<Rightarrow> time \<Rightarrow> string \<Rightarrow> string set \<Rightarrow> bool" where
  "settled_sibling_exists db p sport starts sport_key pair =
     list_ex (settled_sibling db p sport starts sport_key pair) (picks db)"

text \<open>The check before a result is written: the pick is a duplicate of a settled one.  Without a fixture key
  or a kickoff there is nothing to compare.\<close>

definition is_duplicate :: "store \<Rightarrow> pick_row \<Rightarrow> event_row \<Rightarrow> string \<Rightarrow> bool" where
  "is_duplicate db p e sport_key =
     (case (fixture_pair_key (ev_home e) (ev_away e), ev_starts e) of
        (Some pair, Some s) \<Rightarrow> settled_sibling_exists db p (ev_sport e) s sport_key pair
      | _ \<Rightarrow> False)"

subsection \<open>Writing results\<close>

text \<open>The result of a pick, its status, and whether a row was written.\<close>

definition record_outcome :: "outcome \<Rightarrow> (int \<times> int) option \<Rightarrow> string option \<Rightarrow> string option \<Rightarrow> time \<Rightarrow> pick_row \<Rightarrow> rat \<Rightarrow> rat \<Rightarrow>
    string option \<Rightarrow> store \<Rightarrow> (bool \<times> store) res" where
  "record_outcome oc scores pnl_book note now p stake odds book db =
     rbind (pick_pnl oc stake odds pnl_book) (\<lambda>pnl.
     rbind (effective_settlement_odds odds book) (\<lambda>eff.
       let row = \<lparr>rr_outcome = oc, rr_pnl = pnl, rr_roi = pick_roi pnl stake, rr_stake = stake, rr_odds = eff,
                  rr_scores = scores, rr_note = note, rr_at = now\<rparr>;
           (inserted, db1) = insert_result (pk_id p) row db in
       Ok (if inserted then (True, set_status (pk_id p) settled db1) else (False, db1))))"

definition void_pick :: "string option \<Rightarrow> time \<Rightarrow> pick_row \<Rightarrow> store \<Rightarrow> (bool \<times> store) res" where
  "void_pick note now p db =
     (case stake_and_odds db p of (stake, odds, book) \<Rightarrow> record_outcome Void None None note now p stake odds book db)"

definition side_of :: "winner_side option \<Rightarrow> side option" where
  "side_of w = (case w of None \<Rightarrow> None | Some Home_Side \<Rightarrow> Some Home | Some Away_Side \<Rightarrow> Some Away)"

definition grade :: "pick_row \<Rightarrow> string \<Rightarrow> string \<Rightarrow> int \<Rightarrow> int \<Rightarrow> completion \<Rightarrow> winner_side option \<Rightarrow> string \<Rightarrow> outcome res" where
  "grade p home away hs as compl winner sport_key = (case compl of
     Void_Match \<Rightarrow> Ok Void
   | Retired \<Rightarrow> settle_selection_retired (pk_market p) (pk_selection p) home away (side_of winner)
   | Full \<Rightarrow> settle_selection (pk_market p) (pk_selection p) home away hs as (Some sport_key) (pk_detail p))"

definition set_score_guard :: "pick_row \<Rightarrow> int \<Rightarrow> int \<Rightarrow> completion \<Rightarrow> string \<Rightarrow> bool" where
  "set_score_guard p hs as compl sport_key =
     (compl = Full \<and> sport_key = ''tennis''
      \<and> tennis_set_score_ungradeable (pk_market p) (pk_selection p) hs as (pk_detail p))"

definition settle_one :: "pick_row \<Rightarrow> string \<Rightarrow> string \<Rightarrow> int \<Rightarrow> int \<Rightarrow> time \<Rightarrow> completion \<Rightarrow> winner_side option \<Rightarrow> string \<Rightarrow> store \<Rightarrow>
    (bool \<times> store) res" where
  "settle_one p home away hs as now compl winner sport_key db =
     (if set_score_guard p hs as compl sport_key then Ok (False, db)
      else case grade p home away hs as compl winner sport_key of
          Inl ValueError \<Rightarrow> Ok (False, db)
        | Inl e \<Rightarrow> Raise e
        | Inr oc \<Rightarrow>
          (case stake_and_odds db p of (stake, odds, book) \<Rightarrow>
             rmap (\<lambda>(written, db1). (written, if written \<and> compl \<noteq> Void_Match then finish_event (pk_event p) db1 else db1))
               (record_outcome oc (if compl = Void_Match then None else Some (hs, as)) book None now p stake odds book db)))"

subsection \<open>Passes over the rows of a query\<close>

text \<open>One handler per row; the result counts the rows for which it answered yes.  An exception ends the pass.\<close>

fun sweep :: "('a \<Rightarrow> store \<Rightarrow> (bool \<times> store) res) \<Rightarrow> 'a list \<Rightarrow> store \<Rightarrow> (nat \<times> store) res" where
  "sweep f [] db = Ok (0, db)"
| "sweep f (r # rs) db =
     rbind (f r db) (\<lambda>(counted, db1). rmap (\<lambda>(n, db2). (if counted then Suc n else n, db2)) (sweep f rs db1))"

type_synonym pick_join = "pick_row \<times> event_row \<times> string"

text \<open>The alerted picks whose joined row satisfies a condition.\<close>

definition open_rows :: "(pick_row \<Rightarrow> event_row \<Rightarrow> string \<Rightarrow> bool) \<Rightarrow> store \<Rightarrow> pick_join list" where
  "open_rows cond db = List.map_filter (\<lambda>p. case joined db p of
       Some (e, k) \<Rightarrow> if pk_status p = alerted \<and> cond p e k then Some (p, e, k) else None
     | None \<Rightarrow> None) (picks db)"

definition supersede :: "pick_row \<Rightarrow> store \<Rightarrow> (bool \<times> store) res" where
  "supersede p db = Ok (False, set_status (pk_id p) superseded db)"

subsection \<open>Voiding what can never settle\<close>

definition null_kickoff_rows :: "time \<Rightarrow> store \<Rightarrow> pick_row list" where
  "null_kickoff_rows cutoff db = filter (\<lambda>p. pk_status p = alerted
     \<and> (case events db (pk_event p) of Some e \<Rightarrow> ev_starts e = None | None \<Rightarrow> False) \<and> pk_created p < cutoff) (picks db)"

definition void_stale_null_kickoff_picks :: "time \<Rightarrow> duration \<Rightarrow> store \<Rightarrow> (nat \<times> store) res" where
  "void_stale_null_kickoff_picks now max_age db = sweep (void_pick None now) (null_kickoff_rows (now - max_age) db) db"

definition void_or_supersede :: "time \<Rightarrow> pick_join \<Rightarrow> store \<Rightarrow> (bool \<times> store) res" where
  "void_or_supersede now r db = (case r of (p, e, k) \<Rightarrow>
     if is_duplicate db p e k then supersede p db else void_pick (Some expired_note) now p db)"

definition kickoff_before :: "time \<Rightarrow> event_row \<Rightarrow> bool" where
  "kickoff_before t e = (case ev_starts e of None \<Rightarrow> False | Some s \<Rightarrow> s < t)"

definition kickoff_by :: "time \<Rightarrow> event_row \<Rightarrow> bool" where
  "kickoff_by t e = (case ev_starts e of None \<Rightarrow> False | Some s \<Rightarrow> s \<le> t)"

definition void_unsettleable_known_kickoff_picks :: "time \<Rightarrow> duration \<Rightarrow> store \<Rightarrow> (nat \<times> store) res" where
  "void_unsettleable_known_kickoff_picks now max_age db =
     sweep (void_or_supersede now)
       (open_rows (\<lambda>p e k. kickoff_before (now - max_age) e \<and> ev_scraped_home e = None) db) db"

definition score_for :: "score_book \<Rightarrow> event_row \<Rightarrow> final_score option" where
  "score_for b e = (case ev_starts e of None \<Rightarrow> None | Some s \<Rightarrow> lookup b (ev_home e) (ev_away e) s)"

text \<open>Past the kickoff by the delay of the sport, as every automatic path demands.\<close>

definition due :: "time \<Rightarrow> duration \<Rightarrow> event_row \<Rightarrow> string \<Rightarrow> bool" where
  "due now delay e k = (kickoff_by (now - delay) e \<and> kickoff_by (now - settle_delay_for k delay) e)"

definition report_and_expire_no_result_picks :: "score_book \<Rightarrow> time \<Rightarrow> duration \<Rightarrow> duration option \<Rightarrow> store \<Rightarrow> (nat \<times> store) res" where
  "report_and_expire_no_result_picks b now delay expire_after db =
     (if score_count b = 0 then Ok (0, db)
      else let gap = open_rows (\<lambda>p e k. due now delay e k \<and> score_for b e = None) db in
        case expire_after of
          None \<Rightarrow> Ok (0, db)
        | Some age \<Rightarrow> sweep (void_or_supersede now) (filter (\<lambda>(p, e, k). kickoff_before (now - age) e) gap) db)"

subsection \<open>The bulk hint\<close>

text \<open>One query per chunk of candidates bounds the settled rows by the values that occur in the chunk; the
  fingerprint of each candidate is then looked up among them.\<close>

type_synonym fingerprint = "int \<times> string \<times> string option \<times> int \<times> string \<times> string set"

definition settlement_fingerprint :: "int \<Rightarrow> pick_row \<Rightarrow> string set \<Rightarrow> fingerprint" where
  "settlement_fingerprint sport p pair = (sport, pk_market p, pk_detail p, pk_model p, selection_dedup_key (pk_selection p), pair)"

record hint_row =
  hr_pick :: int
  hr_event :: int
  hr_starts :: time
  hr_print :: fingerprint

definition chunk_window :: "pick_join list \<Rightarrow> (time \<times> time) list" where
  "chunk_window chunk = List.map_filter (\<lambda>(p, e, k). map_option (\<lambda>s. (s - dedup_tolerance k, s + dedup_tolerance k)) (ev_starts e)) chunk"

text \<open>The condition of the query on a settled pick, the sport and the kickoff of its event.\<close>

definition in_chunk :: "pick_join list \<Rightarrow> pick_row \<Rightarrow> int \<Rightarrow> time \<Rightarrow> bool" where
  "in_chunk chunk q sport s = (let windows = chunk_window chunk in
     sport \<in> set (map (\<lambda>(p, e, k). ev_sport e) chunk)
     \<and> Min (set (map fst windows)) \<le> s \<and> s \<le> Max (set (map snd windows))
     \<and> pk_market q \<in> set (map (\<lambda>(p, e, k). pk_market p) chunk)
     \<and> pk_detail q \<in> set (map (\<lambda>(p, e, k). pk_detail p) chunk)
     \<and> pk_model q \<in> set (map (\<lambda>(p, e, k). pk_model p) chunk))"

definition chunk_row :: "pick_join list \<Rightarrow> store \<Rightarrow> pick_row \<Rightarrow> hint_row option" where
  "chunk_row chunk db q = (case events db (pk_event q) of
       None \<Rightarrow> None
     | Some f \<Rightarrow> (case (ev_starts f, fixture_pair_key (ev_home f) (ev_away f)) of
          (Some s, Some pair) \<Rightarrow>
            if results db (pk_id q) \<noteq> None \<and> in_chunk chunk q (ev_sport f) s
            then Some \<lparr>hr_pick = pk_id q, hr_event = pk_event q, hr_starts = s,
                   hr_print = settlement_fingerprint (ev_sport f) q pair\<rparr>
            else None
        | _ \<Rightarrow> None))"

definition chunk_rows :: "pick_join list \<Rightarrow> store \<Rightarrow> hint_row list" where
  "chunk_rows chunk db = List.map_filter (chunk_row chunk db) (picks db)"

definition hinted :: "hint_row list \<Rightarrow> pick_join \<Rightarrow> bool" where
  "hinted rows r = (case r of (p, e, k) \<Rightarrow>
     (case (fixture_pair_key (ev_home e) (ev_away e), ev_starts e) of
        (Some pair, Some s) \<Rightarrow> list_ex (\<lambda>h. hr_pick h \<noteq> pk_id p \<and> hr_event h \<noteq> pk_event p
             \<and> \<bar>hr_starts h - s\<bar> \<le> dedup_tolerance k)
           (filter (\<lambda>h. hr_print h = settlement_fingerprint (ev_sport e) p pair) rows)
      | _ \<Rightarrow> False))"

definition has_pair :: "pick_join \<Rightarrow> bool" where
  "has_pair r = (case r of (p, e, k) \<Rightarrow> fixture_pair_key (ev_home e) (ev_away e) \<noteq> None)"

function chunks :: "nat \<Rightarrow> 'a list \<Rightarrow> 'a list list" where
  "chunks n xs = (if xs = [] then [] else take (Suc n) xs # chunks n (drop (Suc n) xs))"
  by pat_completeness auto
termination
  by (relation "measure (\<lambda>(n, xs). length xs)") auto

declare chunks.simps [simp del]

definition prefetch_chunk_size :: nat where "prefetch_chunk_size = 1000"

definition prefetch_settled_sibling_candidate_ids :: "store \<Rightarrow> pick_join list \<Rightarrow> int set" where
  "prefetch_settled_sibling_candidate_ids db candidates =
     set (concat (map (\<lambda>chunk. map (pk_id \<circ> fst) (filter (hinted (chunk_rows chunk db)) chunk))
       (chunks (prefetch_chunk_size - 1) (filter has_pair candidates))))"

subsection \<open>Settling\<close>

text \<open>A score that can be graded: there is one, and it is not a set score for a line in games.\<close>

definition gradeable :: "score_book \<Rightarrow> pick_join \<Rightarrow> bool" where
  "gradeable b r = (case r of (p, e, k) \<Rightarrow> (case score_for b e of
       None \<Rightarrow> False
     | Some s \<Rightarrow> \<not> set_score_guard p (home_score s) (away_score s) (completion s) k))"

definition settle_candidate :: "score_book \<Rightarrow> time \<Rightarrow> pick_join \<Rightarrow> store \<Rightarrow> (bool \<times> store) res" where
  "settle_candidate b now r db = (case r of (p, e, k) \<Rightarrow>
     if is_duplicate db p e k then supersede p db
     else (case score_for b e of None \<Rightarrow> Ok (False, db)
       | Some s \<Rightarrow> settle_one p (ev_home e) (ev_away e) (home_score s) (away_score s) now (completion s) (winner_side s) k db))"

definition defer_candidate :: "int set \<Rightarrow> pick_join \<Rightarrow> store \<Rightarrow> (bool \<times> store) res" where
  "defer_candidate hint r db = (case r of (p, e, k) \<Rightarrow>
     if pk_id p \<in> hint \<and> is_duplicate db p e k then supersede p db else Ok (False, db))"

definition settle_open_picks :: "score_book \<Rightarrow> time \<Rightarrow> duration \<Rightarrow> store \<Rightarrow> (nat \<times> store) res" where
  "settle_open_picks b now delay db =
     (if score_count b = 0 then Ok (0, db)
      else let candidates = open_rows (\<lambda>p e k. due now delay e k) db;
               deferred = filter (\<lambda>r. \<not> gradeable b r) candidates in
        rbind (sweep (settle_candidate b now) (filter (gradeable b) candidates) db) (\<lambda>(n, db1).
        rmap (\<lambda>(_, db2). (n, db2))
          (sweep (defer_candidate (prefetch_settled_sibling_candidate_ids db1 deferred)) deferred db1)))"

text \<open>The score entered by hand for one event; the rows that were not settled are the skipped ones.\<close>

definition settle_entered :: "int \<Rightarrow> int \<Rightarrow> time \<Rightarrow> pick_join \<Rightarrow> store \<Rightarrow> (bool \<times> store) res" where
  "settle_entered hs as now r db = (case r of (p, e, k) \<Rightarrow>
     if is_duplicate db p e k then supersede p db
     else settle_one p (ev_home e) (ev_away e) hs as now Full None k db)"

definition settle_event_picks :: "int \<Rightarrow> int \<Rightarrow> int \<Rightarrow> time \<Rightarrow> store \<Rightarrow> ((nat \<times> nat) \<times> store) res" where
  "settle_event_picks event_id hs as now db =
     (let rows = open_rows (\<lambda>p e k. pk_event p = event_id) db in
      rmap (\<lambda>(n, db1). ((n, length rows - n), db1)) (sweep (settle_entered hs as now) rows db))"

subsection \<open>One cycle\<close>

definition scraped_final :: "time \<Rightarrow> pick_join \<Rightarrow> (string \<times> string \<times> time \<times> int \<times> int) option" where
  "scraped_final now r = (case r of (p, e, k) \<Rightarrow>
     (case (ev_scraped_home e, ev_scraped_away e, ev_starts e) of
        (Some hs, Some as, Some s) \<Rightarrow>
          if k \<noteq> ''tennis'' \<and> s < now then Some (ev_home e, ev_away e, s, hs, as) else None
      | _ \<Rightarrow> None))"

definition load_scraped_finals :: "time \<Rightarrow> store \<Rightarrow> final_score list" where
  "load_scraped_finals now db =
     map (\<lambda>(h, a, s, hs, as). \<lparr>home_team = h, away_team = a, match_date = day_of s, home_score = hs, away_score = as,
            completion = Full, winner_side = None\<rparr>)
       (remdups (List.map_filter (scraped_final now) (open_rows (\<lambda>p e k. True) db)))"

definition void_stale :: "time \<Rightarrow> store \<Rightarrow> store res" where
  "void_stale now db = rbind (void_stale_null_kickoff_picks now stale_null_kickoff_age db) (\<lambda>(_, db1).
     rmap snd (void_unsettleable_known_kickoff_picks now stale_unsettleable_age db1))"

definition settle_pass :: "final_score list \<Rightarrow> time \<Rightarrow> store \<Rightarrow> (nat \<times> store) res" where
  "settle_pass scores now db =
     (if scores = [] then Ok (0, db) else settle_open_picks (build_book scores) now base_settle_delay db)"

definition settle_transaction :: "final_score list \<Rightarrow> final_score list \<Rightarrow> int \<Rightarrow> time \<Rightarrow> store \<Rightarrow> (nat \<times> store) res" where
  "settle_transaction feed scraped expire_days now db =
     rbind (settle_pass feed now db) (\<lambda>(m, db1).
     rbind (settle_pass scraped now db1) (\<lambda>(n, db2).
     rmap (\<lambda>(_, db3). (m + n, db3))
       (report_and_expire_no_result_picks (build_book (feed @ scraped)) now base_settle_delay
          (if expire_days > 0 then Some (expire_days * hours 24) else None) db2)))"

text \<open>The state after a cycle and what it returns: the first transaction is committed before the scores are
  loaded, the second one is rolled back when it raises.\<close>

definition run_settlement_cycle :: "final_score list \<Rightarrow> bool \<Rightarrow> int \<Rightarrow> time \<Rightarrow> store \<Rightarrow> store \<times> nat res" where
  "run_settlement_cycle feed from_scraped expire_days now db = (case void_stale now db of
     Inl e \<Rightarrow> (db, Raise e)
   | Inr db1 \<Rightarrow>
       (let scraped = (if from_scraped then load_scraped_finals now db1 else []) in
        if feed = [] \<and> scraped = [] then (db1, Ok 0)
        else case settle_transaction feed scraped expire_days now db1 of
            Inl e \<Rightarrow> (db1, Raise e)
          | Inr (n, db2) \<Rightarrow> (db2, Ok n)))"

end
