(* ===== verification/SettleFacts.thy ===== *)
theory SettleFacts
  imports Settlement
begin

text \<open>
  What the settlement engine guarantees.  The specification is a step relation on the tables: a step
  supersedes an open pick that has a settled twin, writes one result for an open pick that has none, or
  marks an event as finished.  Every operation of the engine is a sequence of such steps; the invariant (no
  two twins are both settled) and the frame facts (results and closed picks never change) are shown once, by
  induction over the steps.  The locale \<open>row_handler\<close> states what a handler of one row owes to a pass over
  the rows, and is interpreted on every handler of the engine.
\<close>

subsection \<open>Twins\<close>

text \<open>An event without its status, which is the only column the engine changes.\<close>

definition core :: "event_row \<Rightarrow> event_row" where
  "core e = e\<lparr>ev_status := []\<rparr>"

definition same_fixture_rows :: "event_row \<Rightarrow> event_row \<Rightarrow> string \<Rightarrow> bool" where
  "same_fixture_rows e f k =
     (ev_sport e = ev_sport f \<and> fixture_pair_key (ev_home e) (ev_away e) = fixture_pair_key (ev_home f) (ev_away f)
      \<and> fixture_pair_key (ev_home e) (ev_away e) \<noteq> None
      \<and> (case (ev_starts e, ev_starts f) of (Some s, Some t) \<Rightarrow> \<bar>s - t\<bar> \<le> dedup_tolerance k | _ \<Rightarrow> False))"

text \<open>Two picks on one instrument of one real fixture, filed under two events.\<close>

definition twins :: "store \<Rightarrow> pick_row \<Rightarrow> pick_row \<Rightarrow> bool" where
  "twins db p q =
     (pk_id p \<noteq> pk_id q \<and> pk_event p \<noteq> pk_event q \<and> pk_market p = pk_market q \<and> pk_detail p = pk_detail q
      \<and> pk_model p = pk_model q \<and> selection_dedup_key (pk_selection p) = selection_dedup_key (pk_selection q)
      \<and> (case (joined db p, joined db q) of (Some (e, k), Some (f, _)) \<Rightarrow> same_fixture_rows e f k | _ \<Rightarrow> False))"

definition settled_twin :: "store \<Rightarrow> pick_row \<Rightarrow> bool" where
  "settled_twin db p = (\<exists>q \<in> set (picks db). results db (pk_id q) \<noteq> None \<and> twins db p q)"

lemma core_eq_iff:
  "core e = core f \<longleftrightarrow> ev_sport e = ev_sport f \<and> ev_home e = ev_home f \<and> ev_away e = ev_away f \<and> ev_starts e = ev_starts f
     \<and> ev_scraped_home e = ev_scraped_home f \<and> ev_scraped_away e = ev_scraped_away f"
  by (cases e; cases f) (simp add: core_def)

lemma same_fixture_sym: "same_fixture_rows e f k = same_fixture_rows f e k"
proof -
  have "same_fixture_rows e f k \<Longrightarrow> same_fixture_rows f e k" for e f
    unfolding same_fixture_rows_def by (cases "ev_starts e"; cases "ev_starts f") (auto simp: abs_minus_commute dest!: sym [of "Some _"])
  then show ?thesis by blast
qed

lemma joined_sport: "joined db p = Some (e, k) \<Longrightarrow> sports db (ev_sport e) = Some k \<and> events db (pk_event p) = Some e"
  by (auto simp: joined_def sport_of_def split: option.splits)

lemma twins_sym: "twins db p q = twins db q p"
proof -
  have "same_fixture_rows e f k = same_fixture_rows f e l"
    if "joined db p = Some (e, k)" "joined db q = Some (f, l)" for e f k l
  proof (cases "ev_sport e = ev_sport f")
    case True
    then have "k = l" using joined_sport [OF that(1)] joined_sport [OF that(2)] by simp
    then show ?thesis using same_fixture_sym by simp
  next
    case False
    then show ?thesis by (auto simp: same_fixture_rows_def)
  qed
  then show ?thesis by (auto simp: twins_def split: option.splits)
qed

lemma core_same_fixture: "core e = core e' \<Longrightarrow> core f = core f' \<Longrightarrow> same_fixture_rows e f k = same_fixture_rows e' f' k"
  by (simp add: core_eq_iff same_fixture_rows_def)

text \<open>The engine's check is the specification's.\<close>

lemma is_duplicate_iff:
  assumes "joined db p = Some (e', k)" "core e = core e'"
  shows "is_duplicate db p e k \<longleftrightarrow> settled_twin db p"
proof -
  have c: "ev_sport e = ev_sport e'" "ev_home e = ev_home e'" "ev_away e = ev_away e'" "ev_starts e = ev_starts e'"
    using assms(2) by (simp_all add: core_eq_iff)
  have k: "sports db (ev_sport e') = Some k" using joined_sport [OF assms(1)] by simp
  show ?thesis
  proof (cases "fixture_pair_key (ev_home e') (ev_away e')")
    case None
    then show ?thesis
      by (auto simp: is_duplicate_def c settled_twin_def twins_def assms(1) same_fixture_rows_def split: option.splits)
  next
    case pair: (Some pair)
    show ?thesis
    proof (cases "ev_starts e'")
      case None
      then show ?thesis
        by (auto simp: is_duplicate_def c settled_twin_def twins_def assms(1) same_fixture_rows_def split: option.splits)
    next
      case (Some s)
      have "settled_sibling db p (ev_sport e') s k pair q \<longleftrightarrow> results db (pk_id q) \<noteq> None \<and> twins db p q" for q
      proof (cases "events db (pk_event q)")
        case None
        then show ?thesis by (auto simp: settled_sibling_def twins_def joined_def split: option.splits)
      next
        case f: (Some f)
        have w: "starts_within f s (dedup_tolerance k) \<longleftrightarrow> (\<exists>t. ev_starts f = Some t \<and> \<bar>s - t\<bar> \<le> dedup_tolerance k)"
          by (auto simp: starts_within_def split: option.splits)
        show ?thesis
        proof (cases "ev_sport f = ev_sport e'")
          case True
          then have "joined db q = Some (f, k)" using f k by (simp add: joined_def sport_of_def)
          then show ?thesis
            using f True pair Some
            by (cases "ev_starts f")
              (auto simp: settled_sibling_def twins_def assms(1) same_fixture_rows_def w)
        next
          case False
          then have "\<not> twins db p q" using f joined_sport [of db q]
            by (auto simp: twins_def assms(1) same_fixture_rows_def split: option.splits)
          then show ?thesis using f False by (simp add: settled_sibling_def)
        qed
      qed
      then show ?thesis
        by (simp add: is_duplicate_def c pair Some settled_sibling_exists_def settled_twin_def list_ex_iff)
    qed
  qed
qed

subsection \<open>The steps\<close>

inductive engine_step :: "(store \<Rightarrow> pick_row \<Rightarrow> result_row \<Rightarrow> bool) \<Rightarrow> store \<Rightarrow> store \<Rightarrow> bool" for good where
  step_supersede: "p \<in> set (picks db) \<Longrightarrow> pk_status p = alerted \<Longrightarrow> settled_twin db p \<Longrightarrow>
    engine_step good db (set_status (pk_id p) superseded db)"
| step_write: "p \<in> set (picks db) \<Longrightarrow> pk_status p = alerted \<Longrightarrow> results db (pk_id p) = None \<Longrightarrow> \<not> settled_twin db p \<Longrightarrow>
    good db p row \<Longrightarrow> engine_step good db (set_status (pk_id p) settled (db\<lparr>results := (results db)(pk_id p \<mapsto> row)\<rparr>))"
| step_finish: "engine_step good db (finish_event i db)"

abbreviation engine_steps :: "(store \<Rightarrow> pick_row \<Rightarrow> result_row \<Rightarrow> bool) \<Rightarrow> store \<Rightarrow> store \<Rightarrow> bool" where
  "engine_steps good \<equiv> (engine_step good)\<^sup>*\<^sup>*"

lemma engine_steps_mono:
  assumes "engine_steps good db db'" "\<And>db p row. good db p row \<Longrightarrow> good' db p row"
  shows "engine_steps good' db db'"
  using assms(1)
proof (induction rule: rtranclp_induct)
  case (step db1 db2)
  from step.hyps(2) have "engine_step good' db1 db2" by cases (auto intro: engine_step.intros assms(2))
  then show ?case using step.IH by simp
qed simp

lemma alerted_distinct [simp]:
  "alerted \<noteq> settled" "alerted \<noteq> superseded" "settled \<noteq> superseded"
  "settled \<noteq> alerted" "superseded \<noteq> alerted" "superseded \<noteq> settled"
  by (simp_all add: alerted_def settled_def superseded_def)

lemma set_status_simps [simp]:
  "results (set_status i s db) = results db" "events (set_status i s db) = events db" "sports (set_status i s db) = sports db"
  "logs (set_status i s db) = logs db"
  "picks (set_status i s db) = map (\<lambda>p. if pk_id p = i then p\<lparr>pk_status := s\<rparr> else p) (picks db)"
  by (simp_all add: set_status_def)

lemma finish_event_simps [simp]:
  "results (finish_event i db) = results db" "sports (finish_event i db) = sports db" "logs (finish_event i db) = logs db"
  "picks (finish_event i db) = picks db"
  by (auto simp: finish_event_def split: option.splits)

lemma finish_event_core: "map_option core (events (finish_event i db) j) = map_option core (events db j)"
  by (auto simp: finish_event_def core_def split: option.splits)

text \<open>What the twin relation reads.\<close>

lemma joined_core:
  assumes "sports db' = sports db" "\<And>j. map_option core (events db' j) = map_option core (events db j)"
    "joined db p = Some (e, k)" "pk_event p' = pk_event p"
  shows "\<exists>e'. joined db' p' = Some (e', k) \<and> core e' = core e"
proof -
  have e: "events db (pk_event p) = Some e" "sports db (ev_sport e) = Some k" using joined_sport [OF assms(3)] by simp_all
  then obtain e' where e': "events db' (pk_event p) = Some e'" "core e' = core e"
    using assms(2) [of "pk_event p"] by auto
  then have "ev_sport e' = ev_sport e" by (simp add: core_eq_iff)
  then have "joined db' p' = Some (e', k)" using e e' assms(1, 4) by (simp add: joined_def sport_of_def)
  then show ?thesis using e' by blast
qed

lemma joined_core_None:
  assumes "sports db' = sports db" "\<And>j. map_option core (events db' j) = map_option core (events db j)"
    "joined db p = None" "pk_event p' = pk_event p"
  shows "joined db' p' = None"
proof (rule ccontr)
  assume "joined db' p' \<noteq> None"
  then obtain e k where j: "joined db' p' = Some (e, k)" by auto
  have "sports db = sports db'" "\<And>j. map_option core (events db j) = map_option core (events db' j)" using assms by simp_all
  from joined_core [OF this j assms(4) [symmetric]] show False using assms(3) by simp
qed

lemma twins_cong:
  assumes "sports db' = sports db" "\<And>j. map_option core (events db' j) = map_option core (events db j)"
  shows "twins db' (p\<lparr>pk_status := s\<rparr>) (q\<lparr>pk_status := t\<rparr>) = twins db p q"
proof -
  let ?p = "p\<lparr>pk_status := s\<rparr>" and ?q = "q\<lparr>pk_status := t\<rparr>"
  have sf: "same_fixture_rows e' f' k = same_fixture_rows e f k" if "core e' = core e" "core f' = core f" for e e' f f' k
    using core_same_fixture that by blast
  show ?thesis
  proof (cases "joined db p")
    case None
    then have "joined db' ?p = None" using joined_core_None [OF assms, of p ?p] by simp
    then show ?thesis using None by (simp add: twins_def)
  next
    case p: (Some ek)
    then obtain e k where p: "joined db p = Some (e, k)" by (cases ek) auto
    then obtain e' where p': "joined db' ?p = Some (e', k)" "core e' = core e"
      using joined_core [OF assms, of p e k ?p] by auto
    show ?thesis
    proof (cases "joined db q")
      case None
      then have "joined db' ?q = None" using joined_core_None [OF assms, of q ?q] by simp
      then show ?thesis using None p p' by (simp add: twins_def)
    next
      case (Some fl)
      then obtain f l where q: "joined db q = Some (f, l)" by (cases fl) auto
      then obtain f' where q': "joined db' ?q = Some (f', l)" "core f' = core f"
        using joined_core [OF assms, of q f l ?q] by auto
      show ?thesis using p p' q q' sf [OF p'(2) q'(2)] by (simp add: twins_def)
    qed
  qed
qed

subsection \<open>The invariant\<close>

definition engine_inv :: "store \<Rightarrow> bool" where
  "engine_inv db \<longleftrightarrow> distinct (map pk_id (picks db))
     \<and> (\<forall>p \<in> set (picks db). results db (pk_id p) \<noteq> None \<longleftrightarrow> pk_status p = settled)
     \<and> (\<forall>p \<in> set (picks db). \<forall>q \<in> set (picks db).
          results db (pk_id p) \<noteq> None \<longrightarrow> results db (pk_id q) \<noteq> None \<longrightarrow> \<not> twins db p q)"

lemma engine_invD:
  assumes "engine_inv db"
  shows "distinct (map pk_id (picks db))"
    "p \<in> set (picks db) \<Longrightarrow> results db (pk_id p) \<noteq> None \<longleftrightarrow> pk_status p = settled"
    "p \<in> set (picks db) \<Longrightarrow> q \<in> set (picks db) \<Longrightarrow> results db (pk_id p) \<noteq> None \<Longrightarrow> results db (pk_id q) \<noteq> None \<Longrightarrow> \<not> twins db p q"
  using assms unfolding engine_inv_def by blast+

lemma id_unique: "distinct (map pk_id ps) \<Longrightarrow> p \<in> set ps \<Longrightarrow> q \<in> set ps \<Longrightarrow> pk_id p = pk_id q \<Longrightarrow> p = q"
  by (metis distinct_map inj_onD)

lemma status_map_ids: "map pk_id (picks (set_status i s db)) = map pk_id (picks db)"
  by simp

lemma twins_same:
  assumes "sports db' = sports db" "\<And>j. map_option core (events db' j) = map_option core (events db j)"
  shows "twins db' (if b then p\<lparr>pk_status := s\<rparr> else p) (if c then q\<lparr>pk_status := t\<rparr> else q) = twins db p q"
proof -
  note cong = twins_cong [OF assms]
  show ?thesis
    using cong [of s p t q] cong [of s p "pk_status q" q] cong [of "pk_status p" p t q]
      cong [of "pk_status p" p "pk_status q" q]
    by (cases b; cases c) simp_all
qed

lemma inv_status:
  assumes inv: "engine_inv db" and p: "p \<in> set (picks db)" "pk_status p = alerted"
  shows "engine_inv (set_status (pk_id p) superseded db)"
proof -
  let ?u = "\<lambda>q. if pk_id q = pk_id p then q\<lparr>pk_status := superseded\<rparr> else q"
  note id = id_unique [OF engine_invD(1) [OF inv]]
  have st: "results db (pk_id q) \<noteq> None \<longleftrightarrow> pk_status (?u q) = settled" if q: "q \<in> set (picks db)" for q
    using engine_invD(2) [OF inv q] id [OF q p(1)] p(2) by auto
  have tw: "\<not> twins (set_status (pk_id p) superseded db) (?u q) (?u r)"
    if "q \<in> set (picks db)" "r \<in> set (picks db)" "results db (pk_id q) \<noteq> None" "results db (pk_id r) \<noteq> None" for q r
    using engine_invD(3) [OF inv that] twins_same [of "set_status (pk_id p) superseded db" db] by simp
  have pid: "pk_id (?u q) = pk_id q" for q by simp
  have d: "distinct (map pk_id (picks (set_status (pk_id p) superseded db)))"
    unfolding status_map_ids by (rule engine_invD(1) [OF inv])
  show ?thesis
    unfolding engine_inv_def
  proof (intro conjI ballI impI)
    show "distinct (map pk_id (picks (set_status (pk_id p) superseded db)))" by (rule d)
  next
    fix q' assume "q' \<in> set (picks (set_status (pk_id p) superseded db))"
    then obtain q where "q \<in> set (picks db)" "q' = ?u q" by auto
    then show "results (set_status (pk_id p) superseded db) (pk_id q') \<noteq> None \<longleftrightarrow> pk_status q' = settled"
      using st [of q] pid [of q] by simp
  next
    fix q' r' assume q': "q' \<in> set (picks (set_status (pk_id p) superseded db))" and r': "r' \<in> set (picks (set_status (pk_id p) superseded db))"
      and res: "results (set_status (pk_id p) superseded db) (pk_id q') \<noteq> None" "results (set_status (pk_id p) superseded db) (pk_id r') \<noteq> None"
    from q' obtain q where q: "q \<in> set (picks db)" "q' = ?u q" by auto
    from r' obtain r where r: "r \<in> set (picks db)" "r' = ?u r" by auto
    show "\<not> twins (set_status (pk_id p) superseded db) q' r'"
      unfolding q(2) r(2) using q(1) r(1) res pid [of q] pid [of r] q(2) r(2) by (intro tw) simp_all
  qed
qed

lemma inv_write:
  assumes inv: "engine_inv db" and p: "p \<in> set (picks db)" "pk_status p = alerted" and fresh: "\<not> settled_twin db p"
  shows "engine_inv (set_status (pk_id p) settled (db\<lparr>results := (results db)(pk_id p \<mapsto> row)\<rparr>))" (is "engine_inv ?db")
proof -
  let ?u = "\<lambda>q. if pk_id q = pk_id p then q\<lparr>pk_status := settled\<rparr> else q"
  note id = id_unique [OF engine_invD(1) [OF inv]]
  have res: "results ?db j \<noteq> None \<longleftrightarrow> j = pk_id p \<or> results db j \<noteq> None" for j by simp
  have st: "results ?db (pk_id q) \<noteq> None \<longleftrightarrow> pk_status (?u q) = settled" if q: "q \<in> set (picks db)" for q
    unfolding res using engine_invD(2) [OF inv q] by auto
  have nt: "\<not> twins db p r" if "r \<in> set (picks db)" "results db (pk_id r) \<noteq> None" for r
    using fresh that by (auto simp: settled_twin_def)
  have tw: "\<not> twins db q r"
    if q: "q \<in> set (picks db)" "results ?db (pk_id q) \<noteq> None" and r: "r \<in> set (picks db)" "results ?db (pk_id r) \<noteq> None" for q r
  proof (cases "pk_id q = pk_id p \<or> pk_id r = pk_id p")
    case True
    then consider "q = p" | "r = p" using id [OF q(1) p(1)] id [OF r(1) p(1)] by blast
    then show ?thesis
    proof cases
      case 1
      have "\<not> twins db p p" by (simp add: twins_def)
      then show ?thesis using 1 nt [OF r(1)] r(2) id [OF r(1) p(1)] unfolding res by blast
    next
      case 2
      have "\<not> twins db p p" by (simp add: twins_def)
      then show ?thesis using 2 nt [OF q(1)] q(2) id [OF q(1) p(1)] twins_sym [of db q p] unfolding res by blast
    qed
  next
    case False
    then show ?thesis using engine_invD(3) [OF inv q(1) r(1)] q(2) r(2) unfolding res by blast
  qed
  have ts: "twins ?db (?u q) (?u r) = twins db q r" for q r by (rule twins_same) simp_all
  have pid: "pk_id (?u q) = pk_id q" for q by simp
  show ?thesis
    unfolding engine_inv_def
  proof (intro conjI ballI impI)
    show "distinct (map pk_id (picks ?db))" unfolding status_map_ids using engine_invD(1) [OF inv] by simp
  next
    fix q' assume "q' \<in> set (picks ?db)"
    then obtain q where "q \<in> set (picks db)" "q' = ?u q" by auto
    then show "results ?db (pk_id q') \<noteq> None \<longleftrightarrow> pk_status q' = settled" using st [of q] pid [of q] by (simp only:)
  next
    fix q' r' assume q': "q' \<in> set (picks ?db)" and r': "r' \<in> set (picks ?db)"
      and rs: "results ?db (pk_id q') \<noteq> None" "results ?db (pk_id r') \<noteq> None"
    from q' obtain q where q: "q \<in> set (picks db)" "q' = ?u q" by auto
    from r' obtain r where r: "r \<in> set (picks db)" "r' = ?u r" by auto
    have "results ?db (pk_id q) \<noteq> None" "results ?db (pk_id r) \<noteq> None" using rs unfolding q(2) r(2) pid .
    then show "\<not> twins ?db q' r'" unfolding q(2) r(2) ts using tw q(1) r(1) by blast
  qed
qed

lemma inv_finish: "engine_inv db \<Longrightarrow> engine_inv (finish_event i db)"
proof -
  assume inv: "engine_inv db"
  have "twins (finish_event i db) p q = twins db p q" for p q
    using twins_same [of "finish_event i db" db False settled p False settled q] finish_event_core [of i db] by simp
  then show ?thesis using inv by (simp add: engine_inv_def)
qed

lemma engine_step_inv: "engine_step good db db' \<Longrightarrow> engine_inv db \<Longrightarrow> engine_inv db'"
  by (erule engine_step.cases) (auto intro: inv_status inv_write inv_finish)

lemma engine_steps_inv: "engine_steps good db db' \<Longrightarrow> engine_inv db \<Longrightarrow> engine_inv db'"
  by (induction rule: rtranclp_induct) (auto intro: engine_step_inv)

end
