(* ===== verification/SettleOps.thy ===== *)
theory SettleOps
  imports SettleFacts
begin

text \<open>
  The passes of the settlement engine refine the step relation of \<^verbatim>\<open>SettleFacts\<close>: the contract of a row handler,
  its interpretation on every handler, and what follows for the operations and for whole runs of the engine:
  no double settlement, nothing settled is rewritten, nothing gradeable is left open, and the bulk hint of the
  second phase is exact.
\<close>

subsection \<open>Frames\<close>

text \<open>Nothing but the pick \<open>i\<close> and event statuses may differ.\<close>

definition touches :: "int \<Rightarrow> store \<Rightarrow> store \<Rightarrow> bool" where
  "touches i db db' \<longleftrightarrow> filter (\<lambda>p. pk_id p \<noteq> i) (picks db') = filter (\<lambda>p. pk_id p \<noteq> i) (picks db)
     \<and> (\<forall>j. j \<noteq> i \<longrightarrow> results db' j = results db j) \<and> sports db' = sports db \<and> logs db' = logs db
     \<and> (\<forall>j. map_option core (events db' j) = map_option core (events db j))"

lemma touches_refl: "touches i db db" by (simp add: touches_def)

lemma touches_trans: "touches i a b \<Longrightarrow> touches i b c \<Longrightarrow> touches i a c" by (simp add: touches_def)

lemma touches_status: "touches i db (set_status i s db)"
proof -
  have "filter (\<lambda>p. pk_id p \<noteq> i) (map (\<lambda>p. if pk_id p = i then p\<lparr>pk_status := s\<rparr> else p) ps) = filter (\<lambda>p. pk_id p \<noteq> i) ps" for ps
    by (induction ps) auto
  then show ?thesis by (simp add: touches_def)
qed

lemma touches_result: "touches i db (db\<lparr>results := (results db)(i \<mapsto> row)\<rparr>)" by (simp add: touches_def)

lemma touches_finish: "touches i db (finish_event j db)" by (simp add: touches_def finish_event_core)

lemma touches_pick: "touches i db db' \<Longrightarrow> pk_id p \<noteq> i \<Longrightarrow> p \<in> set (picks db') \<longleftrightarrow> p \<in> set (picks db)"
  unfolding touches_def by (metis (mono_tags, lifting) mem_Collect_eq set_filter)

lemma touches_joined:
  assumes "touches i db db'" "joined db p = Some (e, k)"
  shows "\<exists>e'. joined db' p = Some (e', k) \<and> core e' = core e"
  using assms by (intro joined_core [of db' db p e k p]) (simp_all add: touches_def)

text \<open>What every step keeps: closed picks, results, and all that the engine does not write.\<close>

definition keeps :: "store \<Rightarrow> store \<Rightarrow> bool" where
  "keeps db db' \<longleftrightarrow> map pk_id (picks db') = map pk_id (picks db)
     \<and> (\<forall>p \<in> set (picks db). pk_status p \<noteq> alerted \<longrightarrow> p \<in> set (picks db'))
     \<and> (\<forall>p' \<in> set (picks db'). \<exists>p \<in> set (picks db). p' = p \<or> pk_status p = alerted
           \<and> (p' = p\<lparr>pk_status := settled\<rparr> \<and> results db' (pk_id p) \<noteq> None \<or> p' = p\<lparr>pk_status := superseded\<rparr>))
     \<and> (\<forall>i r. results db i = Some r \<longrightarrow> results db' i = Some r)
     \<and> sports db' = sports db \<and> logs db' = logs db
     \<and> (\<forall>j. map_option core (events db' j) = map_option core (events db j))"

lemma keeps_refl: "keeps db db" by (auto simp: keeps_def)

lemma keeps_trans:
  assumes ab: "keeps a b" and bc: "keeps b c"
  shows "keeps a c"
proof -
  have "\<exists>p \<in> set (picks a). p' = p \<or> pk_status p = alerted
           \<and> (p' = p\<lparr>pk_status := settled\<rparr> \<and> results c (pk_id p) \<noteq> None \<or> p' = p\<lparr>pk_status := superseded\<rparr>)"
    if c: "p' \<in> set (picks c)" for p'
  proof -
    obtain q where q: "q \<in> set (picks b)" "p' = q \<or> pk_status q = alerted
        \<and> (p' = q\<lparr>pk_status := settled\<rparr> \<and> results c (pk_id q) \<noteq> None \<or> p' = q\<lparr>pk_status := superseded\<rparr>)"
      using bc c unfolding keeps_def by meson
    obtain p where p: "p \<in> set (picks a)" "q = p \<or> pk_status p = alerted
        \<and> (q = p\<lparr>pk_status := settled\<rparr> \<and> results b (pk_id p) \<noteq> None \<or> q = p\<lparr>pk_status := superseded\<rparr>)"
      using ab q(1) unfolding keeps_def by meson
    have mono: "results b (pk_id p) \<noteq> None \<Longrightarrow> results c (pk_id p) \<noteq> None" using bc unfolding keeps_def by auto
    show ?thesis
    proof (cases "q = p")
      case True
      then show ?thesis using p q by (intro bexI [of _ p]) auto
    next
      case False
      then have "pk_status q \<noteq> alerted" using p(2) by auto
      then have "p' = q" using q(2) by blast
      then show ?thesis using p False mono by (intro bexI [of _ p]) auto
    qed
  qed
  then show ?thesis using ab bc unfolding keeps_def by auto
qed

lemma keeps_close:
  assumes d: "distinct (map pk_id (picks db))" and p: "p \<in> set (picks db)" "pk_status p = alerted"
    and res: "results db' = results db \<and> s = superseded \<or> results db (pk_id p) = None \<and> results db' = (results db)(pk_id p \<mapsto> row) \<and> s = settled"
    and rest: "sports db' = sports db" "logs db' = logs db" "events db' = events db"
    and ps: "picks db' = map (\<lambda>q. if pk_id q = pk_id p then q\<lparr>pk_status := s\<rparr> else q) (picks db)"
  shows "keeps db db'"
proof -
  have id: "q = p" if "q \<in> set (picks db)" "pk_id q = pk_id p" for q using id_unique [OF d that(1) p(1) that(2)] .
  have mono: "results db i = Some r \<Longrightarrow> results db' i = Some r" for i r using res by auto
  have mem: "\<exists>q \<in> set (picks db). p' = q \<or> pk_status q = alerted
           \<and> (p' = q\<lparr>pk_status := settled\<rparr> \<and> results db' (pk_id q) \<noteq> None \<or> p' = q\<lparr>pk_status := superseded\<rparr>)"
    if m: "p' \<in> set (picks db')" for p'
  proof -
    obtain q where q: "q \<in> set (picks db)" "p' = (if pk_id q = pk_id p then q\<lparr>pk_status := s\<rparr> else q)"
      using m unfolding ps set_map by blast
    show ?thesis
    proof (cases "pk_id q = pk_id p")
      case True
      then have "q = p" using id q(1) by blast
      then show ?thesis using q p res by (intro bexI [of _ p]) auto
    qed (use q in auto)
  qed
  have "q \<in> set (picks db')" if "q \<in> set (picks db)" "pk_status q \<noteq> alerted" for q
  proof -
    have "pk_id q \<noteq> pk_id p" using id that p(2) by blast
    then show ?thesis using that(1) by (force simp: ps)
  qed
  moreover have "map pk_id (picks db') = map pk_id (picks db)" by (simp add: ps)
  ultimately show ?thesis using mem mono rest unfolding keeps_def by simp
qed

lemma engine_step_keeps:
  assumes "engine_step good db db'" "engine_inv db" shows "keeps db db'"
  using assms(1)
proof cases
  case (step_supersede p)
  then show ?thesis using engine_invD(1) [OF assms(2)] by (intro keeps_close [of db p db' superseded]) simp_all
next
  case (step_write p row)
  then show ?thesis using engine_invD(1) [OF assms(2)] by (intro keeps_close [of db p db' settled row]) simp_all
next
  case (step_finish i)
  then show ?thesis by (auto simp: keeps_def finish_event_core)
qed

lemma engine_steps_keep: "engine_steps good db db' \<Longrightarrow> engine_inv db \<Longrightarrow> keeps db db'"
proof (induction rule: rtranclp_induct)
  case base
  then show ?case by (simp add: keeps_refl)
next
  case (step b c)
  then show ?case using keeps_trans engine_step_keeps engine_steps_inv by blast
qed

subsection \<open>The contract of a row handler\<close>

text \<open>
  A handler of one row, given the tables in a state where the row is still what the query saw: it makes engine
  steps that only touch the pick of the row, leaves the row closed, and answers whether it wrote a result.
\<close>

locale row_handler =
  fixes h :: "'a \<Rightarrow> store \<Rightarrow> (bool \<times> store) res"
    and pick_of :: "'a \<Rightarrow> pick_row"
    and ready :: "'a \<Rightarrow> store \<Rightarrow> bool"
    and closed :: "'a \<Rightarrow> store \<Rightarrow> bool"
    and good :: "store \<Rightarrow> pick_row \<Rightarrow> result_row \<Rightarrow> bool"
  assumes h_steps: "ready r db \<Longrightarrow> h r db = Ok (c, db') \<Longrightarrow> engine_steps good db db'"
    and h_touches: "ready r db \<Longrightarrow> h r db = Ok (c, db') \<Longrightarrow> touches (pk_id (pick_of r)) db db'"
    and h_closed: "ready r db \<Longrightarrow> h r db = Ok (c, db') \<Longrightarrow> closed r db'"
    and h_count: "ready r db \<Longrightarrow> h r db = Ok (c, db') \<Longrightarrow> c = (results db' (pk_id (pick_of r)) \<noteq> None)"
    and ready_stable: "touches i db db' \<Longrightarrow> i \<noteq> pk_id (pick_of r) \<Longrightarrow> ready r db \<Longrightarrow> ready r db'"
    and closed_stable: "touches i db db' \<Longrightarrow> i \<noteq> pk_id (pick_of r) \<Longrightarrow> closed r db \<Longrightarrow> closed r db'"
begin

lemma sweep_keeps:
  assumes stable: "\<And>r db db'. r \<in> set rs \<Longrightarrow> touches (pk_id (pick_of r)) db db' \<Longrightarrow> Q db \<Longrightarrow> Q db'"
  shows "distinct (map (\<lambda>r. pk_id (pick_of r)) rs) \<Longrightarrow> (\<And>r. r \<in> set rs \<Longrightarrow> ready r db) \<Longrightarrow> sweep h rs db = Ok (n, db') \<Longrightarrow> Q db \<Longrightarrow> Q db'"
  using stable
proof (induction rs arbitrary: db n)
  case (Cons r rs)
  from Cons.prems(3) obtain c db1 m where h: "h r db = Ok (c, db1)" "sweep h rs db1 = Ok (m, db')"
    by (auto simp: rbind_Ok_iff rmap_Ok_iff)
  have t: "touches (pk_id (pick_of r)) db db1" using h_touches [OF _ h(1)] Cons.prems(2) by simp
  have "ready r' db1" if "r' \<in> set rs" for r'
    using ready_stable [OF t, of r'] Cons.prems(1, 2) that by fastforce
  moreover have "Q db1" using Cons.prems(5) [of r db db1] t Cons.prems(4) by simp
  ultimately show ?case using Cons.IH [of db1 m] Cons.prems h(2) by fastforce
qed simp

lemma sweep_refines:
  "distinct (map (\<lambda>r. pk_id (pick_of r)) rs) \<Longrightarrow> (\<And>r. r \<in> set rs \<Longrightarrow> ready r db) \<Longrightarrow> sweep h rs db = Ok (n, db') \<Longrightarrow>
    engine_steps good db db' \<and> (\<forall>r \<in> set rs. closed r db')
    \<and> n = length (filter (\<lambda>r. results db' (pk_id (pick_of r)) \<noteq> None) rs)"
proof (induction rs arbitrary: db n)
  case (Cons r rs)
  from Cons.prems(3) obtain c db1 m where h: "h r db = Ok (c, db1)" "sweep h rs db1 = Ok (m, db')" "n = (if c then Suc m else m)"
    by (auto simp: rbind_Ok_iff rmap_Ok_iff)
  have r: "ready r db" using Cons.prems(2) by simp
  have t: "touches (pk_id (pick_of r)) db db1" using h_touches [OF r h(1)] .
  have ready: "ready r' db1" if "r' \<in> set rs" for r'
    using ready_stable [OF t, of r'] Cons.prems(1, 2) that by fastforce
  have d: "distinct (map (\<lambda>r. pk_id (pick_of r)) rs)" using Cons.prems(1) by simp
  note IH = Cons.IH [OF d ready h(2)]
  have other: "pk_id (pick_of r') \<noteq> pk_id (pick_of r)" if "r' \<in> set rs" for r' using Cons.prems(1) that by (auto simp: image_iff)
  have "closed r db'"
    by (rule sweep_keeps [where Q = "closed r", OF _ d ready h(2) h_closed [OF r h(1)]])
      (use closed_stable other in blast)+
  moreover have "(results db' (pk_id (pick_of r)) \<noteq> None) = (results db1 (pk_id (pick_of r)) \<noteq> None)"
  proof -
    have "results db' (pk_id (pick_of r)) = results db1 (pk_id (pick_of r))"
      by (rule sweep_keeps [where Q = "\<lambda>x. results x (pk_id (pick_of r)) = results db1 (pk_id (pick_of r))", OF _ d ready h(2) refl])
        (metis other touches_def)
    then show ?thesis by simp
  qed
  moreover have "engine_steps good db db'" using h_steps [OF r h(1)] IH by (simp add: rtranclp_trans)
  ultimately show ?case using IH h(3) h_count [OF r h(1)] by auto
qed simp

end

subsection \<open>The rows of a query\<close>

text \<open>The tables still show the row the way the query returned it.\<close>

definition row_ready :: "pick_join \<Rightarrow> store \<Rightarrow> bool" where
  "row_ready r db = (case r of (p, e, k) \<Rightarrow> p \<in> set (picks db) \<and> pk_status p = alerted \<and> results db (pk_id p) = None
     \<and> (\<exists>e'. joined db p = Some (e', k) \<and> core e = core e'))"

lemma row_ready_stable: "touches i db db' \<Longrightarrow> i \<noteq> pk_id (fst r) \<Longrightarrow> row_ready r db \<Longrightarrow> row_ready r db'"
proof -
  assume t: "touches i db db'" "i \<noteq> pk_id (fst r)" and r: "row_ready r db"
  obtain p e k where pek: "r = (p, e, k)" by (cases r)
  then obtain e' where e': "joined db p = Some (e', k)" "core e = core e'" using r by (auto simp: row_ready_def)
  then obtain e'' where e'': "joined db' p = Some (e'', k)" "core e'' = core e'" using touches_joined [OF t(1)] by blast
  have "p \<in> set (picks db')" "results db' (pk_id p) = None"
    using r t touches_pick [OF t(1), of p] by (auto simp: pek row_ready_def touches_def)
  then show ?thesis using r e' e'' by (auto simp: pek row_ready_def)
qed

lemma gone_stable: "touches i db db' \<Longrightarrow> i \<noteq> pk_id p \<Longrightarrow> p \<notin> set (picks db) \<Longrightarrow> p \<notin> set (picks db')"
  using touches_pick [of i db db' p] by simp

lemma gone_after_status:
  assumes "pk_status p = alerted" "s \<noteq> alerted" shows "p \<notin> set (picks (set_status (pk_id p) s db))"
proof
  assume "p \<in> set (picks (set_status (pk_id p) s db))"
  then obtain q where "p = (if pk_id q = pk_id p then q\<lparr>pk_status := s\<rparr> else q)" unfolding set_status_simps set_map by blast
  then have "p = q\<lparr>pk_status := s\<rparr> \<or> pk_id p \<noteq> pk_id q \<and> p = q" by (simp split: if_splits)
  then have "pk_status p = s" by (elim disjE conjE) simp_all
  then show False using assms by simp
qed

lemma row_readyD:
  assumes "row_ready (p, e, k) db"
  shows "p \<in> set (picks db)" "pk_status p = alerted" "results db (pk_id p) = None"
    "\<exists>e'. joined db p = Some (e', k) \<and> core e = core e'"
  using assms by (simp_all add: row_ready_def)

lemma row_duplicate: "row_ready (p, e, k) db \<Longrightarrow> is_duplicate db p e k = settled_twin db p"
  using row_readyD(4) [of p e k db] is_duplicate_iff [of db p _ k e] by blast

lemma supersede_step:
  assumes "row_ready (p, e, k) db" "is_duplicate db p e k" "supersede p db = Ok (c, db')"
  shows "engine_steps good db db' \<and> touches (pk_id p) db db' \<and> p \<notin> set (picks db') \<and> c = (results db' (pk_id p) \<noteq> None)"
proof -
  have db': "db' = set_status (pk_id p) superseded db" and c: "\<not> c" using assms(3) by (simp_all add: supersede_def)
  note r = row_readyD [OF assms(1)]
  have "settled_twin db p" using assms(2) row_duplicate [OF assms(1)] by simp
  then have "engine_step good db db'" unfolding db' by (rule step_supersede [OF r(1, 2)])
  moreover have "p \<notin> set (picks db')" unfolding db' by (rule gone_after_status) (simp_all add: r(2))
  moreover have "touches (pk_id p) db db'" unfolding db' by (rule touches_status)
  moreover have "results db' (pk_id p) = None" unfolding db' using r(3) by simp
  ultimately show ?thesis using c by (simp add: r_into_rtranclp)
qed

text \<open>The row that \<open>record_outcome\<close> writes.\<close>

definition outcome_row :: "outcome \<Rightarrow> (int \<times> int) option \<Rightarrow> string option \<Rightarrow> string option \<Rightarrow> time \<Rightarrow> rat \<Rightarrow> rat \<Rightarrow> string option \<Rightarrow> result_row \<Rightarrow> bool" where
  "outcome_row oc scores pnl_book note now stake odds book row \<longleftrightarrow>
     rr_outcome row = oc \<and> pick_pnl oc stake odds pnl_book = Ok (rr_pnl row) \<and> rr_roi row = pick_roi (rr_pnl row) stake
     \<and> rr_stake row = stake \<and> effective_settlement_odds odds book = Ok (rr_odds row) \<and> rr_scores row = scores
     \<and> rr_note row = note \<and> rr_at row = now"

lemma record_outcome_fresh:
  assumes "record_outcome oc scores pb note now p stake odds book db = Ok (c, db')" "results db (pk_id p) = None"
  obtains row where "c" "outcome_row oc scores pb note now stake odds book row"
    "db' = set_status (pk_id p) settled (db\<lparr>results := (results db)(pk_id p \<mapsto> row)\<rparr>)"
proof -
  obtain pnl eff where pe: "pick_pnl oc stake odds pb = Ok pnl" "effective_settlement_odds odds book = Ok eff"
    using assms(1) unfolding record_outcome_def rbind_Ok_iff by blast
  define row where "row = \<lparr>rr_outcome = oc, rr_pnl = pnl, rr_roi = pick_roi pnl stake, rr_stake = stake, rr_odds = eff,
     rr_scores = scores, rr_note = note, rr_at = now\<rparr>"
  have ins: "insert_result (pk_id p) row db = (True, db\<lparr>results := (results db)(pk_id p \<mapsto> row)\<rparr>)"
    using assms(2) by (simp add: insert_result_def)
  have "record_outcome oc scores pb note now p stake odds book db
      = Ok (True, set_status (pk_id p) settled (db\<lparr>results := (results db)(pk_id p \<mapsto> row)\<rparr>))"
    unfolding record_outcome_def pe rbind_simps Let_def row_def [symmetric] ins by simp
  then have "c" "db' = set_status (pk_id p) settled (db\<lparr>results := (results db)(pk_id p \<mapsto> row)\<rparr>)" using assms(1) by simp_all
  moreover have "outcome_row oc scores pb note now stake odds book row" by (simp add: outcome_row_def row_def pe)
  ultimately show thesis using that by blast
qed

lemma write_step:
  assumes r: "p \<in> set (picks db)" "pk_status p = alerted" "results db (pk_id p) = None" "\<not> settled_twin db p"
    and w: "record_outcome oc scores pb note now p stake odds book db = Ok (c, db1)" "db' = db1 \<or> db' = finish_event i db1"
    and g: "\<And>row. outcome_row oc scores pb note now stake odds book row \<Longrightarrow> good db p row"
  shows "engine_steps good db db' \<and> touches (pk_id p) db db' \<and> p \<notin> set (picks db') \<and> c \<and> results db' (pk_id p) \<noteq> None"
proof -
  obtain row where row: "c" "outcome_row oc scores pb note now stake odds book row"
    "db1 = set_status (pk_id p) settled (db\<lparr>results := (results db)(pk_id p \<mapsto> row)\<rparr>)"
    using record_outcome_fresh [OF w(1) r(3)] .
  have step: "engine_step good db db1" unfolding row(3) by (rule step_write [where good = good, OF r g [OF row(2)]])
  have t: "touches (pk_id p) db db1"
    unfolding row(3) using touches_trans [OF touches_result touches_status] .
  have gone: "p \<notin> set (picks db1)" unfolding row(3) by (rule gone_after_status) (simp_all add: r(2))
  have res: "results db1 (pk_id p) \<noteq> None" by (simp add: row(3))
  show ?thesis
  proof (cases "db' = db1")
    case True
    then show ?thesis using step t gone res row(1) by blast
  next
    case False
    then have f: "db' = finish_event i db1" using w(2) by blast
    have "engine_steps good db db'" unfolding f using step step_finish [of good db1 i] by (rule converse_rtranclp_into_rtranclp [OF _ r_into_rtranclp])
    moreover have "touches (pk_id p) db db'" unfolding f using touches_trans [OF t touches_finish] .
    ultimately show ?thesis using gone res row(1) by (simp add: f)
  qed
qed

lemma ready_fresh:
  "row_ready (p, e, k) db \<Longrightarrow> \<not> is_duplicate db p e k \<Longrightarrow>
     p \<in> set (picks db) \<and> pk_status p = alerted \<and> results db (pk_id p) = None \<and> \<not> settled_twin db p"
  using row_readyD [of p e k db] row_duplicate [of p e k db] by simp

subsection \<open>The handlers keep the contract\<close>

definition voided :: "string option \<Rightarrow> time \<Rightarrow> store \<Rightarrow> pick_row \<Rightarrow> result_row \<Rightarrow> bool" where
  "voided note now db p row \<longleftrightarrow> rr_outcome row = Void \<and> rr_pnl row = 0 \<and> rr_scores row = None \<and> rr_note row = note
     \<and> rr_stake row = fst (stake_and_odds db p) \<and> rr_at row = now"

lemma pnl_void: "pick_pnl Void stake odds None = Ok 0" by (simp add: pick_pnl_def net_odds_def)

lemma void_pick_step:
  assumes "p \<in> set (picks db)" "pk_status p = alerted" "results db (pk_id p) = None" "\<not> settled_twin db p"
    "void_pick note now p db = Ok (c, db')"
  shows "engine_steps (voided note now) db db' \<and> touches (pk_id p) db db' \<and> p \<notin> set (picks db') \<and> c \<and> results db' (pk_id p) \<noteq> None"
proof -
  obtain stake odds book where so: "stake_and_odds db p = (stake, odds, book)" by (cases "stake_and_odds db p")
  have "record_outcome Void None None note now p stake odds book db = Ok (c, db')" using assms(5) by (simp add: void_pick_def so)
  then show ?thesis
    using assms(1-4) by (intro write_step) (auto simp: voided_def outcome_row_def pnl_void so)
qed

lemma void_or_supersede_step:
  assumes "row_ready (p, e, k) db" "void_or_supersede now (p, e, k) db = Ok (c, db')"
  shows "engine_steps (voided (Some expired_note) now) db db' \<and> touches (pk_id p) db db' \<and> p \<notin> set (picks db')
    \<and> c = (results db' (pk_id p) \<noteq> None)"
proof (cases "is_duplicate db p e k")
  case True
  then show ?thesis using supersede_step [OF assms(1) True] assms(2) by (simp add: void_or_supersede_def)
next
  case False
  then have "void_pick (Some expired_note) now p db = Ok (c, db')" using assms(2) by (simp add: void_or_supersede_def)
  then show ?thesis using void_pick_step ready_fresh [OF assms(1) False] by blast
qed

interpretation expiry: row_handler "void_or_supersede now" fst row_ready "\<lambda>r db. fst r \<notin> set (picks db)" "voided (Some expired_note) now" for now
proof
  fix r db c db'
  assume r: "row_ready r db" "void_or_supersede now r db = Ok (c, db')"
  obtain p e k where pek: "r = (p, e, k)" by (cases r)
  note s = void_or_supersede_step [OF r [unfolded pek]]
  show "engine_steps (voided (Some expired_note) now) db db'" "touches (pk_id (fst r)) db db'" "fst r \<notin> set (picks db')"
    "c = (results db' (pk_id (fst r)) \<noteq> None)"
    using s by (simp_all add: pek)
qed (use row_ready_stable gone_stable in blast)+

text \<open>A pick whose event has no kickoff has no twin.\<close>

definition null_ready :: "pick_row \<Rightarrow> store \<Rightarrow> bool" where
  "null_ready p db \<longleftrightarrow> p \<in> set (picks db) \<and> pk_status p = alerted \<and> results db (pk_id p) = None
     \<and> (\<exists>e. events db (pk_event p) = Some e \<and> ev_starts e = None)"

lemma null_no_twin: "null_ready p db \<Longrightarrow> \<not> settled_twin db p"
  using joined_sport [of db p] by (fastforce simp: null_ready_def settled_twin_def twins_def same_fixture_rows_def split: option.splits)

lemma null_ready_stable: "touches i db db' \<Longrightarrow> i \<noteq> pk_id p \<Longrightarrow> null_ready p db \<Longrightarrow> null_ready p db'"
proof -
  assume t: "touches i db db'" "i \<noteq> pk_id p" and n: "null_ready p db"
  obtain e where e: "events db (pk_event p) = Some e" "ev_starts e = None" using n by (auto simp: null_ready_def)
  have "map_option core (events db' (pk_event p)) = map_option core (events db (pk_event p))" using t(1) by (simp add: touches_def)
  then obtain e' where "events db' (pk_event p) = Some e'" "core e' = core e" using e by auto
  then have "events db' (pk_event p) = Some e'" "ev_starts e' = None" using e by (simp_all add: core_eq_iff)
  then show ?thesis using t n touches_pick [OF t(1), of p] by (auto simp: null_ready_def touches_def)
qed

interpretation null_void: row_handler "void_pick None now" "\<lambda>p. p" null_ready "\<lambda>p db. p \<notin> set (picks db)" "voided None now" for now
proof
  fix p db c db'
  assume r: "null_ready p db" "void_pick None now p db = Ok (c, db')"
  have "engine_steps (voided None now) db db' \<and> touches (pk_id p) db db' \<and> p \<notin> set (picks db') \<and> c \<and> results db' (pk_id p) \<noteq> None"
    using r null_no_twin [OF r(1)] by (intro void_pick_step) (auto simp: null_ready_def)
  then show "engine_steps (voided None now) db db'" "touches (pk_id p) db db'" "p \<notin> set (picks db')"
    "c = (results db' (pk_id p) \<noteq> None)" by simp_all
qed (use null_ready_stable gone_stable in blast)+

text \<open>A result that grades the pick by a score.\<close>

definition graded :: "int \<Rightarrow> int \<Rightarrow> completion \<Rightarrow> winner_side option \<Rightarrow> time \<Rightarrow> store \<Rightarrow> pick_row \<Rightarrow> result_row \<Rightarrow> bool" where
  "graded hs as compl w now db p row \<longleftrightarrow> (\<exists>e k stake odds book. joined db p = Some (e, k) \<and> \<not> set_score_guard p hs as compl k
     \<and> grade p (ev_home e) (ev_away e) hs as compl w k = Ok (rr_outcome row) \<and> stake_and_odds db p = (stake, odds, book)
     \<and> outcome_row (rr_outcome row) (if compl = Void_Match then None else Some (hs, as)) book None now stake odds book row)"

definition ungradeable :: "pick_join \<Rightarrow> int \<Rightarrow> int \<Rightarrow> completion \<Rightarrow> winner_side option \<Rightarrow> bool" where
  "ungradeable r hs as compl w = (case r of (p, e, k) \<Rightarrow>
     set_score_guard p hs as compl k \<or> grade p (ev_home e) (ev_away e) hs as compl w k = Raise ValueError)"

lemma settle_one_step:
  assumes r: "row_ready (p, e, k) db" "\<not> is_duplicate db p e k"
    and s: "settle_one p (ev_home e) (ev_away e) hs as now compl w k db = Ok (c, db')"
    and good: "\<And>row. graded hs as compl w now db p row \<Longrightarrow> good db p row"
  shows "engine_steps good db db' \<and> touches (pk_id p) db db'
    \<and> (p \<notin> set (picks db') \<or> ungradeable (p, e, k) hs as compl w) \<and> c = (results db' (pk_id p) \<noteq> None)"
proof (cases "ungradeable (p, e, k) hs as compl w")
  case True
  then have "settle_one p (ev_home e) (ev_away e) hs as now compl w k db = Ok (False, db)"
    by (auto simp: ungradeable_def settle_one_def)
  then show ?thesis using s True touches_refl row_readyD(3) [OF r(1)] by simp
next
  case ok: False
  then have guard: "\<not> set_score_guard p hs as compl k" by (simp add: ungradeable_def)
  obtain oc where oc: "grade p (ev_home e) (ev_away e) hs as compl w k = Ok oc"
  proof (cases "grade p (ev_home e) (ev_away e) hs as compl w k")
    case (Inl x)
    then show thesis using s ok guard by (cases x) (simp_all add: settle_one_def ungradeable_def)
  qed
  obtain stake odds book where so: "stake_and_odds db p = (stake, odds, book)" by (cases "stake_and_odds db p")
  let ?scores = "if compl = Void_Match then None else Some (hs, as)"
  obtain c1 db1 where rec: "record_outcome oc ?scores book None now p stake odds book db = Ok (c1, db1)"
      "c = c1" "db' = (if c1 \<and> compl \<noteq> Void_Match then finish_event (pk_event p) db1 else db1)"
    using s by (auto simp: settle_one_def guard oc so rmap_Ok_iff)
  obtain e' where e': "joined db p = Some (e', k)" "core e = core e'" using row_readyD(4) [OF r(1)] by blast
  have g: "graded hs as compl w now db p row" if "outcome_row oc ?scores book None now stake odds book row" for row
  proof -
    have "rr_outcome row = oc" using that by (simp add: outcome_row_def)
    moreover have "ev_home e' = ev_home e" "ev_away e' = ev_away e" using e'(2) by (simp_all add: core_eq_iff)
    ultimately show ?thesis unfolding graded_def using e'(1) guard oc so that by auto
  qed
  have f: "db' = db1 \<or> db' = finish_event (pk_event p) db1" using rec(3) by (simp split: if_splits)
  note fresh = ready_fresh [OF r]
  have w: "engine_steps good db db' \<and> touches (pk_id p) db db' \<and> p \<notin> set (picks db') \<and> c1
    \<and> results db' (pk_id p) \<noteq> None"
    by (rule write_step [where good = good, OF _ _ _ _ rec(1) f good [OF g]]) (use fresh in blast)+
  then show ?thesis using rec(2) by blast
qed

definition from_book :: "score_book \<Rightarrow> time \<Rightarrow> duration \<Rightarrow> store \<Rightarrow> pick_row \<Rightarrow> result_row \<Rightarrow> bool" where
  "from_book b now delay db p row \<longleftrightarrow> (\<exists>e k s. joined db p = Some (e, k) \<and> due now delay e k \<and> score_for b e = Some s
     \<and> graded (home_score s) (away_score s) (completion s) (winner_side s) now db p row)"

definition settle_ready :: "score_book \<Rightarrow> time \<Rightarrow> duration \<Rightarrow> pick_join \<Rightarrow> store \<Rightarrow> bool" where
  "settle_ready b now delay r db = (row_ready r db \<and> gradeable b r \<and> due now delay (fst (snd r)) (snd (snd r)))"

definition settle_closed :: "score_book \<Rightarrow> pick_join \<Rightarrow> store \<Rightarrow> bool" where
  "settle_closed b r db = (fst r \<notin> set (picks db) \<or> (\<exists>s. score_for b (fst (snd r)) = Some s
     \<and> ungradeable r (home_score s) (away_score s) (completion s) (winner_side s)))"

lemma core_due: "core e = core e' \<Longrightarrow> due now delay e k = due now delay e' k \<and> score_for b e = score_for b e'"
  by (auto simp: core_eq_iff due_def kickoff_by_def score_for_def split: option.splits)

lemma settle_candidate_step:
  assumes "settle_ready b now delay (p, e, k) db" "settle_candidate b now (p, e, k) db = Ok (c, db')"
  shows "engine_steps (from_book b now delay) db db' \<and> touches (pk_id p) db db' \<and> settle_closed b (p, e, k) db'
    \<and> c = (results db' (pk_id p) \<noteq> None)"
proof -
  have r: "row_ready (p, e, k) db" "gradeable b (p, e, k)" "due now delay e k" using assms(1) by (simp_all add: settle_ready_def)
  then obtain s where s: "score_for b e = Some s" by (auto simp: gradeable_def split: option.splits)
  show ?thesis
  proof (cases "is_duplicate db p e k")
    case True
    then have "supersede p db = Ok (c, db')" using assms(2) by (simp add: settle_candidate_def)
    then show ?thesis using supersede_step [OF r(1) True] by (simp add: settle_closed_def)
  next
    case False
    then have "settle_one p (ev_home e) (ev_away e) (home_score s) (away_score s) now (completion s) (winner_side s) k db = Ok (c, db')"
      using assms(2) s by (simp add: settle_candidate_def)
    moreover obtain e' where e': "joined db p = Some (e', k)" "core e = core e'" using row_readyD(4) [OF r(1)] by blast
    then have "from_book b now delay db p row"
      if "graded (home_score s) (away_score s) (completion s) (winner_side s) now db p row" for row
      using that core_due [OF e'(2)] r(3) s by (simp add: from_book_def)
    ultimately have "engine_steps (from_book b now delay) db db' \<and> touches (pk_id p) db db'
      \<and> (p \<notin> set (picks db') \<or> ungradeable (p, e, k) (home_score s) (away_score s) (completion s) (winner_side s))
      \<and> c = (results db' (pk_id p) \<noteq> None)"
      by (rule settle_one_step [OF r(1) False])
    then show ?thesis using s by (auto simp: settle_closed_def)
  qed
qed

interpretation settling: row_handler "settle_candidate b now" fst "settle_ready b now delay" "settle_closed b" "from_book b now delay"
  for b now delay
proof
  fix r :: pick_join and db c db'
  assume r: "settle_ready b now delay r db" "settle_candidate b now r db = Ok (c, db')"
  obtain p e k where pek: "r = (p, e, k)" by (cases r)
  note s = settle_candidate_step [OF r [unfolded pek]]
  show "engine_steps (from_book b now delay) db db'" "touches (pk_id (fst r)) db db'" "settle_closed b r db'"
    "c = (results db' (pk_id (fst r)) \<noteq> None)"
    using s by (simp_all add: pek)
next
  fix i db db' and r :: pick_join
  assume t: "touches i db db'" "i \<noteq> pk_id (fst r)"
  show "settle_ready b now delay r db \<Longrightarrow> settle_ready b now delay r db'"
    using row_ready_stable [OF t] by (simp add: settle_ready_def)
  show "settle_closed b r db \<Longrightarrow> settle_closed b r db'"
    using gone_stable [OF t] by (auto simp: settle_closed_def)
qed

text \<open>A row of the second phase is superseded or left alone.\<close>

lemma defer_candidate_step:
  assumes "row_ready (p, e, k) db" "defer_candidate hint (p, e, k) db = Ok (c, db')"
  shows "engine_steps good db db' \<and> touches (pk_id p) db db' \<and> c = (results db' (pk_id p) \<noteq> None)
    \<and> (p \<notin> set (picks db') \<longleftrightarrow> pk_id p \<in> hint \<and> settled_twin db p)"
proof (cases "pk_id p \<in> hint \<and> is_duplicate db p e k")
  case True
  then have "supersede p db = Ok (c, db')" using assms(2) by (simp add: defer_candidate_def)
  then show ?thesis
    using supersede_step [OF assms(1) conjunct2 [OF True]] True row_duplicate [OF assms(1)] by simp
next
  case False
  then have "c = False" "db' = db" using assms(2) by (auto simp: defer_candidate_def)
  then show ?thesis using False touches_refl row_readyD [OF assms(1)] row_duplicate [OF assms(1)] by simp
qed

interpretation deferring: row_handler "defer_candidate hint" fst row_ready "\<lambda>r db. True" good for hint good
proof
  fix r :: pick_join and db c db'
  assume r: "row_ready r db" "defer_candidate hint r db = Ok (c, db')"
  obtain p e k where pek: "r = (p, e, k)" by (cases r)
  note s = defer_candidate_step [OF r [unfolded pek]]
  show "engine_steps good db db'" "touches (pk_id (fst r)) db db'" "c = (results db' (pk_id (fst r)) \<noteq> None)"
    using s by (simp_all add: pek)
qed (use row_ready_stable in blast)+

definition entered :: "int \<Rightarrow> int \<Rightarrow> time \<Rightarrow> store \<Rightarrow> pick_row \<Rightarrow> result_row \<Rightarrow> bool" where
  "entered hs as now = graded hs as Full None now"

definition entered_closed :: "int \<Rightarrow> int \<Rightarrow> pick_join \<Rightarrow> store \<Rightarrow> bool" where
  "entered_closed hs as r db = (fst r \<notin> set (picks db) \<or> ungradeable r hs as Full None)"

interpretation entering: row_handler "settle_entered hs as now" fst row_ready "entered_closed hs as" "entered hs as now"
  for hs as now
proof
  fix r :: pick_join and db c db'
  assume r: "row_ready r db" "settle_entered hs as now r db = Ok (c, db')"
  obtain p e k where pek: "r = (p, e, k)" by (cases r)
  have "engine_steps (entered hs as now) db db' \<and> touches (pk_id p) db db' \<and> entered_closed hs as (p, e, k) db'
    \<and> c = (results db' (pk_id p) \<noteq> None)"
  proof (cases "is_duplicate db p e k")
    case True
    then have "supersede p db = Ok (c, db')" using r(2) by (simp add: settle_entered_def pek)
    then show ?thesis using supersede_step [OF r(1) [unfolded pek] True] by (simp add: entered_closed_def)
  next
    case False
    then have "settle_one p (ev_home e) (ev_away e) hs as now Full None k db = Ok (c, db')"
      using r(2) by (simp add: settle_entered_def pek)
    from settle_one_step [OF r(1) [unfolded pek] False this, of "entered hs as now"]
    show ?thesis by (simp add: entered_closed_def entered_def)
  qed
  then show "engine_steps (entered hs as now) db db'" "touches (pk_id (fst r)) db db'" "entered_closed hs as r db'"
    "c = (results db' (pk_id (fst r)) \<noteq> None)"
    by (simp_all add: pek)
next
  fix i db db' and r :: pick_join
  assume t: "touches i db db'" "i \<noteq> pk_id (fst r)"
  show "row_ready r db \<Longrightarrow> row_ready r db'" using row_ready_stable [OF t] .
  show "entered_closed hs as r db \<Longrightarrow> entered_closed hs as r db'"
    using gone_stable [OF t] by (auto simp: entered_closed_def)
qed

end
