(* ===== verification/SettleRuns.thy ===== *)
theory SettleRuns
  imports SettleOps
begin

text \<open>
  The operations of the settlement engine as sequences of engine steps, and the properties that follow: runs of
  cycles and entered scores never settle one bet twice and never rewrite what is settled; a pass leaves nothing
  open that a score of its book can grade, and writes only what such a score says; the bulk hint is exact; and
  the key of a selection keeps its line.
\<close>

subsection \<open>Rows of a query\<close>

lemma distinct_map_filter_key:
  assumes "\<And>x y. g x = Some y \<Longrightarrow> key y = f x"
  shows "distinct (map f xs) \<Longrightarrow> distinct (map key (List.map_filter g xs))"
proof (induction xs)
  case Nil
  then show ?case by (simp add: List.map_filter_simps)
next
  case (Cons x xs)
  have sub: "key ` set (List.map_filter g xs) \<subseteq> f ` set xs"
    using assms by (auto simp: List.map_filter_def)
  show ?case
  proof (cases "g x")
    case None
    then show ?thesis using Cons by (simp add: List.map_filter_simps)
  next
    case (Some y)
    then show ?thesis using Cons sub assms [OF Some] by (auto simp: List.map_filter_simps)
  qed
qed

lemma map_filter_mem: "y \<in> set (List.map_filter g xs) \<longleftrightarrow> (\<exists>x \<in> set xs. g x = Some y)"
  by (induction xs) (auto simp: List.map_filter_simps split: option.splits)

lemma open_rows_mem:
  "(p, e, k) \<in> set (open_rows cond db) \<longleftrightarrow> p \<in> set (picks db) \<and> pk_status p = alerted \<and> joined db p = Some (e, k) \<and> cond p e k"
proof -
  have "(case joined db q of Some (e, k) \<Rightarrow> if pk_status q = alerted \<and> cond q e k then Some (q, e, k) else None | None \<Rightarrow> None) = Some (p, e, k)
    \<longleftrightarrow> q = p \<and> pk_status p = alerted \<and> joined db p = Some (e, k) \<and> cond p e k" for q
    by (cases "joined db q") (auto split: if_splits)
  then show ?thesis by (auto simp: open_rows_def map_filter_mem)
qed

lemma open_rows_distinct:
  assumes "engine_inv db" shows "distinct (map (\<lambda>r. pk_id (fst r)) (open_rows cond db))"
proof -
  have key: "pk_id (fst r) = pk_id p"
    if "(case joined db p of Some (e, k) \<Rightarrow> if pk_status p = alerted \<and> cond p e k then Some (p, e, k) else None | None \<Rightarrow> None) = Some r"
    for p and r :: pick_join
  proof (cases "joined db p")
    case None
    then show ?thesis using that by simp
  next
    case (Some ek)
    obtain e k where "ek = (e, k)" by (cases ek)
    then have "fst r = p" using that Some by (simp split: if_splits) auto
    then show ?thesis by simp
  qed
  show ?thesis unfolding open_rows_def by (rule distinct_map_filter_key [OF key engine_invD(1) [OF assms]])
qed

lemma open_row_ready: "engine_inv db \<Longrightarrow> r \<in> set (open_rows cond db) \<Longrightarrow> row_ready r db"
proof -
  assume inv: "engine_inv db" and m: "r \<in> set (open_rows cond db)"
  obtain p e k where pek: "r = (p, e, k)" by (cases r)
  then have p: "p \<in> set (picks db)" "pk_status p = alerted" "joined db p = Some (e, k)" using m open_rows_mem by blast+
  have "results db (pk_id p) = None"
  proof (rule ccontr)
    assume "results db (pk_id p) \<noteq> None"
    then have "pk_status p = settled" using engine_invD(2) [OF inv p(1)] by blast
    then show False using p(2) by simp
  qed
  then show ?thesis using p by (simp add: row_ready_def pek)
qed

lemmas open_rows_filter = distinct_map_filter [OF open_rows_distinct]

subsection \<open>Operations are sequences of steps\<close>

lemma void_null_steps:
  assumes inv: "engine_inv db" and op: "void_stale_null_kickoff_picks now age db = Ok (n, db')"
  shows "engine_steps (voided None now) db db'"
proof -
  have d: "distinct (map pk_id (null_kickoff_rows (now - age) db))"
    unfolding null_kickoff_rows_def by (rule distinct_map_filter [OF engine_invD(1) [OF inv]])
  have r: "null_ready p db" if "p \<in> set (null_kickoff_rows (now - age) db)" for p
  proof -
    have p: "p \<in> set (picks db)" "pk_status p = alerted"
      "case events db (pk_event p) of Some e \<Rightarrow> ev_starts e = None | None \<Rightarrow> False"
      using that by (auto simp: null_kickoff_rows_def)
    moreover have "results db (pk_id p) = None"
    proof (rule ccontr)
      assume "results db (pk_id p) \<noteq> None"
      then have "pk_status p = settled" using engine_invD(2) [OF inv p(1)] by blast
      then show False using p(2) by simp
    qed
    ultimately show ?thesis by (auto simp: null_ready_def split: option.splits)
  qed
  show ?thesis
    using null_void.sweep_refines [OF d r op [unfolded void_stale_null_kickoff_picks_def]] by blast
qed

lemma void_or_supersede_steps:
  assumes inv: "engine_inv db" and op: "sweep (void_or_supersede now) (filter P (open_rows cond db)) db = Ok (n, db')"
  shows "engine_steps (voided (Some expired_note) now) db db'"
proof -
  have "row_ready r db" if "r \<in> set (filter P (open_rows cond db))" for r
    by (rule open_row_ready [OF inv]) (use that in auto)
  then show ?thesis using expiry.sweep_refines [OF open_rows_filter [OF inv] _ op] by blast
qed

lemma void_known_steps:
  assumes inv: "engine_inv db" and op: "void_unsettleable_known_kickoff_picks now age db = Ok (n, db')"
  shows "engine_steps (voided (Some expired_note) now) db db'"
  using void_or_supersede_steps [OF inv, of now "\<lambda>_. True"] op
  unfolding void_unsettleable_known_kickoff_picks_def by simp

lemma expire_steps:
  assumes inv: "engine_inv db" and op: "report_and_expire_no_result_picks b now delay age db = Ok (n, db')"
  shows "engine_steps (voided (Some expired_note) now) db db'"
proof (cases "score_count b = 0 \<or> age = None")
  case True
  then have "db' = db" using op by (cases "score_count b = 0"; cases age) (simp_all add: report_and_expire_no_result_picks_def Let_def)
  then show ?thesis by simp
next
  case False
  then obtain a where "age = Some a" "score_count b \<noteq> 0" by auto
  then show ?thesis
    using void_or_supersede_steps [OF inv] op
    unfolding report_and_expire_no_result_picks_def Let_def by auto
qed

lemma entered_steps:
  assumes inv: "engine_inv db" and op: "settle_event_picks i hs as now db = Ok (counts, db')"
  shows "engine_steps (entered hs as now) db db'"
proof -
  let ?rows = "open_rows (\<lambda>p e k. pk_event p = i) db"
  obtain n where "sweep (settle_entered hs as now) ?rows db = Ok (n, db')"
    using op by (auto simp: settle_event_picks_def Let_def rmap_Ok_iff)
  then show ?thesis
    using entering.sweep_refines [OF open_rows_distinct [OF inv]] open_row_ready [OF inv] by blast
qed

text \<open>The two phases of a settlement pass.\<close>

lemma settle_open_phases:
  assumes inv: "engine_inv db" and op: "settle_open_picks b now delay db = Ok (n, db')" and ne: "score_count b \<noteq> 0"
  defines "cands \<equiv> open_rows (\<lambda>p e k. due now delay e k) db"
  obtains db1 m where "engine_steps (from_book b now delay) db db1" "engine_steps (from_book b now delay) db1 db'"
    "\<And>r. r \<in> set cands \<Longrightarrow> gradeable b r \<Longrightarrow> settle_closed b r db1"
    "n = length (filter (\<lambda>r. results db1 (pk_id (fst r)) \<noteq> None) (filter (gradeable b) cands))"
proof -
  let ?deferred = "filter (\<lambda>r. \<not> gradeable b r) cands"
  obtain db1 where one: "sweep (settle_candidate b now) (filter (gradeable b) cands) db = Ok (n, db1)"
    and two: "\<exists>m. sweep (defer_candidate (prefetch_settled_sibling_candidate_ids db1 ?deferred)) ?deferred db1 = Ok (m, db')"
    using op ne unfolding settle_open_picks_def Let_def cands_def by (auto simp: rbind_Ok_iff rmap_Ok_iff)
  have ready: "settle_ready b now delay r db" if "r \<in> set (filter (gradeable b) cands)" for r
  proof -
    have "r \<in> set cands" "gradeable b r" using that by auto
    moreover obtain p e k where "r = (p, e, k)" by (cases r)
    ultimately show ?thesis using open_row_ready [OF inv] open_rows_mem by (auto simp: settle_ready_def cands_def)
  qed
  have d: "distinct (map (\<lambda>r. pk_id (fst r)) (filter P cands))" for P
    unfolding cands_def by (rule open_rows_filter [OF inv])
  note s1 = settling.sweep_refines [OF d ready one]
  have t1: "row_ready r db1" if r: "r \<in> set ?deferred" for r
  proof -
    have r0: "row_ready r db" by (rule open_row_ready [OF inv]) (use r in \<open>auto simp: cands_def\<close>)
    have other: "pk_id (fst r) \<noteq> pk_id (fst r')" if "r' \<in> set (filter (gradeable b) cands)" for r'
    proof
      assume "pk_id (fst r) = pk_id (fst r')"
      moreover have "r \<in> set cands" "r' \<in> set cands" using r that by auto
      ultimately have "r = r'" using open_rows_distinct [OF inv, of "\<lambda>p e k. due now delay e k", folded cands_def] unfolding distinct_map inj_on_def by blast
      then show False using r that by auto
    qed
    show ?thesis
    proof (rule settling.sweep_keeps [where Q = "row_ready r", OF _ d ready one r0])
      fix r' x y assume "r' \<in> set (filter (gradeable b) cands)" "touches (pk_id (fst r')) x y" "row_ready r x"
      then show "row_ready r y" using row_ready_stable other by metis
    qed
  qed
  obtain m where two': "sweep (defer_candidate (prefetch_settled_sibling_candidate_ids db1 ?deferred)) ?deferred db1 = Ok (m, db')"
    using two by blast
  note s2 = deferring.sweep_refines [where good = "from_book b now delay", OF d t1 two']
  show thesis using that [of db1] s1 s2 by auto
qed

lemma settle_open_steps:
  assumes "engine_inv db" "settle_open_picks b now delay db = Ok (n, db')"
  shows "engine_steps (from_book b now delay) db db'"
proof (cases "score_count b = 0")
  case True
  then show ?thesis using assms(2) by (simp add: settle_open_picks_def)
next
  case False
  then show ?thesis using settle_open_phases [OF assms False] by (metis rtranclp_trans)
qed

subsection \<open>Runs\<close>

text \<open>A scheduled cycle, or a score entered by hand, whose transaction is rolled back when it raises.\<close>

datatype command = Cycle "final_score list" bool int time | Enter int int int time

fun run_command :: "command \<Rightarrow> store \<Rightarrow> store" where
  "run_command (Cycle feed from_scraped expire_days now) db = fst (run_settlement_cycle feed from_scraped expire_days now db)"
| "run_command (Enter event_id hs as now) db =
     (case settle_event_picks event_id hs as now db of Inl _ \<Rightarrow> db | Inr (_, db') \<Rightarrow> db')"

definition run_commands :: "command list \<Rightarrow> store \<Rightarrow> store" where
  "run_commands cs db = foldl (\<lambda>d c. run_command c d) db cs"

abbreviation any_row :: "store \<Rightarrow> pick_row \<Rightarrow> result_row \<Rightarrow> bool" where "any_row \<equiv> \<lambda>_ _ _. True"

lemma any_steps: "engine_steps good db db' \<Longrightarrow> engine_steps any_row db db'" by (rule engine_steps_mono) simp_all

lemma void_stale_steps: "engine_inv db \<Longrightarrow> void_stale now db = Ok db' \<Longrightarrow> engine_steps any_row db db'"
proof -
  assume inv: "engine_inv db" and op: "void_stale now db = Ok db'"
  obtain m db1 n where o1: "void_stale_null_kickoff_picks now stale_null_kickoff_age db = Ok (m, db1)"
    and o2: "void_unsettleable_known_kickoff_picks now stale_unsettleable_age db1 = Ok (n, db')"
    using op by (auto simp: void_stale_def rbind_Ok_iff rmap_Ok_iff)
  have s1: "engine_steps any_row db db1" by (rule any_steps [OF void_null_steps [OF inv o1]])
  have "engine_steps any_row db1 db'" by (rule any_steps [OF void_known_steps [OF engine_steps_inv [OF s1 inv] o2]])
  then show ?thesis using s1 by simp
qed

lemma settle_pass_steps:
  "engine_inv db \<Longrightarrow> settle_pass scores now db = Ok (n, db') \<Longrightarrow> engine_steps (from_book (build_book scores) now base_settle_delay) db db'"
  using settle_open_steps [of db "build_book scores" now base_settle_delay n db'] by (auto simp: settle_pass_def split: if_splits)

lemma settle_transaction_steps:
  assumes inv: "engine_inv db" and op: "settle_transaction feed scraped d now db = Ok (n, db')"
  shows "engine_steps any_row db db'"
proof -
  obtain k db1 l db2 j where o: "settle_pass feed now db = Ok (k, db1)" "settle_pass scraped now db1 = Ok (l, db2)"
    "report_and_expire_no_result_picks (build_book (feed @ scraped)) now base_settle_delay
       (if d > 0 then Some (d * hours 24) else None) db2 = Ok (j, db')"
    using op unfolding settle_transaction_def rbind_Ok_iff rmap_Ok_iff by (elim exE conjE) (auto simp: rbind_Ok_iff rmap_Ok_iff)
  have s1: "engine_steps any_row db db1" by (rule any_steps [OF settle_pass_steps [OF inv o(1)]])
  note i1 = engine_steps_inv [OF s1 inv]
  have s2: "engine_steps any_row db1 db2" by (rule any_steps [OF settle_pass_steps [OF i1 o(2)]])
  note i2 = engine_steps_inv [OF s2 i1]
  have "engine_steps any_row db2 db'" by (rule any_steps [OF expire_steps [OF i2 o(3)]])
  then show ?thesis using s1 s2 by simp
qed

lemma cycle_steps: "engine_inv db \<Longrightarrow> engine_steps any_row db (fst (run_settlement_cycle feed fs d now db))"
proof -
  assume inv: "engine_inv db"
  show ?thesis
  proof (cases "void_stale now db")
    case (Inl e)
    then show ?thesis by (simp add: run_settlement_cycle_def)
  next
    case (Inr db1)
    have s1: "engine_steps any_row db db1" by (rule void_stale_steps [OF inv Inr])
    note i1 = engine_steps_inv [OF s1 inv]
    define scraped where "scraped = (if fs then load_scraped_finals now db1 else [])"
    show ?thesis
    proof (cases "feed = [] \<and> scraped = []")
      case True
      then show ?thesis using Inr s1 by (simp add: run_settlement_cycle_def scraped_def)
    next
      case False
      have eq: "run_settlement_cycle feed fs d now db = (case settle_transaction feed scraped d now db1 of
            Inl e \<Rightarrow> (db1, Raise e) | Inr (n, db2) \<Rightarrow> (db2, Ok n))"
        unfolding run_settlement_cycle_def Inr sum.case Let_def scraped_def [symmetric] if_not_P [OF False] ..
      show ?thesis
      proof (cases "settle_transaction feed scraped d now db1")
        case (Inl e)
        then show ?thesis using s1 by (simp add: eq)
      next
        case Inr2: (Inr r)
        obtain n db2 where r: "r = (n, db2)" by (cases r)
        have "engine_steps any_row db1 db2" using settle_transaction_steps [OF i1 Inr2 [unfolded r]] .
        then show ?thesis using s1 by (simp add: eq Inr2 r)
      qed
    qed
  qed
qed

lemma command_steps: "engine_inv db \<Longrightarrow> engine_steps any_row db (run_command c db)"
proof (cases c)
  case (Cycle feed fs d now)
  then show "engine_inv db \<Longrightarrow> ?thesis" using cycle_steps by simp
next
  case (Enter i hs as now)
  assume inv: "engine_inv db"
  show ?thesis
  proof (cases "settle_event_picks i hs as now db")
    case (Inl e)
    then show ?thesis by (simp add: Enter)
  next
    case (Inr r)
    obtain counts db' where r: "r = (counts, db')" by (cases r)
    have "engine_steps any_row db db'" by (rule any_steps [OF entered_steps [OF inv Inr [unfolded r]]])
    then show ?thesis by (simp add: Enter Inr r)
  qed
qed

lemma run_steps: "engine_inv db \<Longrightarrow> engine_steps any_row db (run_commands cs db)"
proof (induction cs arbitrary: db)
  case Nil
  then show ?case by (simp add: run_commands_def)
next
  case (Cons c cs)
  note s = command_steps [OF Cons.prems, of c]
  from Cons.IH [OF engine_steps_inv [OF s Cons.prems]] s show ?case by (simp add: run_commands_def)
qed

subsection \<open>What a pass writes\<close>

lemma keeps_alerted: "keeps db db' \<Longrightarrow> p \<in> set (picks db') \<Longrightarrow> pk_status p = alerted \<Longrightarrow> p \<in> set (picks db)"
proof -
  assume k: "keeps db db'" and p: "p \<in> set (picks db')" "pk_status p = alerted"
  obtain q where "q \<in> set (picks db)" "p = q \<or> p = q\<lparr>pk_status := settled\<rparr> \<or> p = q\<lparr>pk_status := superseded\<rparr>"
    using k p(1) unfolding keeps_def by meson
  then show ?thesis using p(2) by auto
qed

lemma steps_results:
  assumes steps: "engine_steps good db db'" and inv: "engine_inv db"
    and stable: "\<And>x p row. keeps db x \<Longrightarrow> good x p row \<Longrightarrow> good db p row"
  shows "results db' i = Some row \<Longrightarrow>
    results db i = Some row \<or> (\<exists>p \<in> set (picks db). pk_id p = i \<and> pk_status p = alerted \<and> good db p row)"
  using steps
proof (induction arbitrary: row rule: rtranclp_induct)
  case (step x y)
  have k: "keeps db x" by (rule engine_steps_keep [OF step.hyps(1) inv])
  from step.hyps(2) show ?case
  proof cases
    case (step_write p row')
    show ?thesis
    proof (cases "i = pk_id p")
      case True
      then have "row = row'" using step.prems step_write(1) by simp
      moreover have "p \<in> set (picks db)" using keeps_alerted [OF k] step_write by blast
      ultimately show ?thesis using stable [OF k] step_write True by blast
    next
      case False
      then show ?thesis using step.IH step.prems step_write(1) by simp
    qed
  qed (use step in simp_all)
qed simp

lemma keeps_joined: "keeps db x \<Longrightarrow> joined x p = Some (e, k) \<Longrightarrow> \<exists>e'. joined db p = Some (e', k) \<and> core e' = core e"
  by (rule joined_core [of db x p e k p]) (simp_all add: keeps_def)

lemma keeps_stake: "keeps db x \<Longrightarrow> stake_and_odds x p = stake_and_odds db p"
  by (simp add: keeps_def stake_and_odds_def latest_log_def)

lemma graded_stable:
  assumes k: "keeps db x" and g: "graded hs as compl w now x p row" shows "graded hs as compl w now db p row"
proof -
  obtain e l stake odds book where g: "joined x p = Some (e, l)" "\<not> set_score_guard p hs as compl l"
     "grade p (ev_home e) (ev_away e) hs as compl w l = Ok (rr_outcome row)" "stake_and_odds x p = (stake, odds, book)"
     "outcome_row (rr_outcome row) (if compl = Void_Match then None else Some (hs, as)) book None now stake odds book row"
    using g unfolding graded_def by blast
  obtain e' where e': "joined db p = Some (e', l)" "core e' = core e" using keeps_joined [OF k g(1)] by blast
  then have "ev_home e' = ev_home e" "ev_away e' = ev_away e" by (simp_all add: core_eq_iff)
  then show ?thesis unfolding graded_def using e'(1) g keeps_stake [OF k] by auto
qed

lemma from_book_stable:
  assumes k: "keeps db x" and g: "from_book b now delay x p row" shows "from_book b now delay db p row"
proof -
  obtain e l s where g: "joined x p = Some (e, l)" "due now delay e l" "score_for b e = Some s"
     "graded (home_score s) (away_score s) (completion s) (winner_side s) now x p row"
    using g unfolding from_book_def by blast
  obtain e' where e': "joined db p = Some (e', l)" "core e' = core e" using keeps_joined [OF k g(1)] by blast
  have "due now delay e' l \<and> score_for b e' = Some s" using core_due [OF e'(2)] g(2, 3) by simp
  then show ?thesis unfolding from_book_def using e'(1) graded_stable [OF k g(4)] by blast
qed

lemma settle_open_results:
  assumes "engine_inv db" "settle_open_picks b now delay db = Ok (n, db')" "results db' i = Some row"
  shows "results db i = Some row \<or> (\<exists>p \<in> set (picks db). pk_id p = i \<and> pk_status p = alerted \<and> from_book b now delay db p row)"
  using steps_results [OF settle_open_steps [OF assms(1, 2)] assms(1) from_book_stable assms(3)] .

lemma settle_open_finishes:
  assumes inv: "engine_inv db" and op: "settle_open_picks b now delay db = Ok (n, db')"
    and p: "p \<in> set (picks db)" "pk_status p = alerted" "joined db p = Some (e, k)" "due now delay e k"
    and s: "score_for b e = Some s" "score_count b \<noteq> 0"
      "\<not> ungradeable (p, e, k) (home_score s) (away_score s) (completion s) (winner_side s)"
  shows "p \<notin> set (picks db')"
proof -
  obtain db1 where db1: "engine_steps (from_book b now delay) db db1" "engine_steps (from_book b now delay) db1 db'"
    and closed: "\<And>r. r \<in> set (open_rows (\<lambda>p e k. due now delay e k) db) \<Longrightarrow> gradeable b r \<Longrightarrow> settle_closed b r db1"
    using settle_open_phases [OF inv op s(2)] by metis
  have g: "gradeable b (p, e, k)" using s by (simp add: gradeable_def ungradeable_def)
  have "(p, e, k) \<in> set (open_rows (\<lambda>p e k. due now delay e k) db)" unfolding open_rows_mem using p by blast
  then have "settle_closed b (p, e, k) db1" using closed g by blast
  then have gone: "p \<notin> set (picks db1)" using s by (simp add: settle_closed_def)
  have "keeps db1 db'" by (rule engine_steps_keep [OF db1(2) engine_steps_inv [OF db1(1) inv]])
  then show ?thesis using gone keeps_alerted p(2) by blast
qed

subsection \<open>The bulk hint\<close>

lemma concat_chunks: "concat (chunks n xs) = xs"
  by (induction n xs rule: chunks.induct) (subst chunks.simps, simp)

lemma chunk_row_Some:
  "chunk_row chunk db q = Some h \<longleftrightarrow> (\<exists>f s pair. events db (pk_event q) = Some f \<and> ev_starts f = Some s
     \<and> fixture_pair_key (ev_home f) (ev_away f) = Some pair \<and> results db (pk_id q) \<noteq> None \<and> in_chunk chunk q (ev_sport f) s
     \<and> h = \<lparr>hr_pick = pk_id q, hr_event = pk_event q, hr_starts = s, hr_print = settlement_fingerprint (ev_sport f) q pair\<rparr>)"
proof (cases "events db (pk_event q)")
  case None
  then show ?thesis by (simp add: chunk_row_def)
next
  case (Some f)
  then show ?thesis
    by (cases "ev_starts f"; cases "fixture_pair_key (ev_home f) (ev_away f)") (auto simp: chunk_row_def)
qed

lemma chunk_window_mem:
  "(p, e, k) \<in> set chunk \<Longrightarrow> ev_starts e = Some s \<Longrightarrow> (s - dedup_tolerance k, s + dedup_tolerance k) \<in> set (chunk_window chunk)"
  unfolding chunk_window_def map_filter_mem by (rule bexI [of _ "(p, e, k)"]) simp_all

text \<open>Among the rows of its chunk a candidate is hinted exactly when the check on the tables finds a sibling.\<close>

lemma hinted_iff:
  assumes m: "(p, e, k) \<in> set chunk" and s: "ev_starts e = Some s"
  shows "hinted (chunk_rows chunk db) (p, e, k) \<longleftrightarrow> is_duplicate db p e k"
proof (cases "fixture_pair_key (ev_home e) (ev_away e)")
  case None
  then show ?thesis by (simp add: hinted_def is_duplicate_def)
next
  case (Some pair)
  let ?tol = "dedup_tolerance k"
  have w: "(s - ?tol, s + ?tol) \<in> set (chunk_window chunk)" by (rule chunk_window_mem [OF m s])
  have lo: "Min (set (map fst (chunk_window chunk))) \<le> s - ?tol" using w by (intro Min_le) force+
  have hi: "s + ?tol \<le> Max (set (map snd (chunk_window chunk)))" using w by (intro Max_ge) force+
  have "hinted (chunk_rows chunk db) (p, e, k) \<longleftrightarrow> (\<exists>h \<in> set (chunk_rows chunk db). hr_print h = settlement_fingerprint (ev_sport e) p pair
      \<and> hr_pick h \<noteq> pk_id p \<and> hr_event h \<noteq> pk_event p \<and> \<bar>hr_starts h - s\<bar> \<le> ?tol)"
    by (auto simp: hinted_def Some s list_ex_iff)
  also have "\<dots> \<longleftrightarrow> (\<exists>q \<in> set (picks db). settled_sibling db p (ev_sport e) s k pair q)"
  proof
    assume "\<exists>h \<in> set (chunk_rows chunk db). hr_print h = settlement_fingerprint (ev_sport e) p pair
      \<and> hr_pick h \<noteq> pk_id p \<and> hr_event h \<noteq> pk_event p \<and> \<bar>hr_starts h - s\<bar> \<le> ?tol"
    then obtain h where h: "h \<in> set (chunk_rows chunk db)" "hr_print h = settlement_fingerprint (ev_sport e) p pair"
      "hr_pick h \<noteq> pk_id p" "hr_event h \<noteq> pk_event p" "\<bar>hr_starts h - s\<bar> \<le> ?tol" by blast
    obtain q f t pair' where q: "q \<in> set (picks db)" "events db (pk_event q) = Some f" "ev_starts f = Some t"
      "fixture_pair_key (ev_home f) (ev_away f) = Some pair'" "results db (pk_id q) \<noteq> None"
      "h = \<lparr>hr_pick = pk_id q, hr_event = pk_event q, hr_starts = t, hr_print = settlement_fingerprint (ev_sport f) q pair'\<rparr>"
      using h(1) unfolding chunk_rows_def map_filter_mem chunk_row_Some by blast
    have "settled_sibling db p (ev_sport e) s k pair q"
      using h(2-5) q by (auto simp: settled_sibling_def settlement_fingerprint_def starts_within_def)
    then show "\<exists>q \<in> set (picks db). settled_sibling db p (ev_sport e) s k pair q" using q(1) by blast
  next
    assume "\<exists>q \<in> set (picks db). settled_sibling db p (ev_sport e) s k pair q"
    then obtain q where q: "q \<in> set (picks db)" "settled_sibling db p (ev_sport e) s k pair q" by blast
    then obtain f t where f: "events db (pk_event q) = Some f" "ev_starts f = Some t" "s - ?tol \<le> t" "t \<le> s + ?tol"
      "ev_sport f = ev_sport e" "fixture_pair_key (ev_home f) (ev_away f) = Some pair"
      by (auto simp: settled_sibling_def starts_within_def split: option.splits)
    let ?h = "\<lparr>hr_pick = pk_id q, hr_event = pk_event q, hr_starts = t, hr_print = settlement_fingerprint (ev_sport f) q pair\<rparr>"
    have same: "pk_market q = pk_market p" "pk_detail q = pk_detail p" "pk_model q = pk_model p" "results db (pk_id q) \<noteq> None"
      "pk_id q \<noteq> pk_id p" "pk_event q \<noteq> pk_event p" "selection_dedup_key (pk_selection q) = selection_dedup_key (pk_selection p)"
      using q(2) unfolding settled_sibling_def by blast+
    have "in_chunk chunk q (ev_sport f) t"
      unfolding in_chunk_def Let_def set_map using f lo hi same m by (force simp: image_iff)
    then have "chunk_row chunk db q = Some ?h" unfolding chunk_row_Some using f same by blast
    then have "?h \<in> set (chunk_rows chunk db)" using q(1) unfolding chunk_rows_def map_filter_mem by blast
    moreover have "hr_print ?h = settlement_fingerprint (ev_sport e) p pair"
      using same f(5) by (simp add: settlement_fingerprint_def)
    ultimately show "\<exists>h \<in> set (chunk_rows chunk db). hr_print h = settlement_fingerprint (ev_sport e) p pair
      \<and> hr_pick h \<noteq> pk_id p \<and> hr_event h \<noteq> pk_event p \<and> \<bar>hr_starts h - s\<bar> \<le> ?tol"
      using same f(3, 4) by (intro bexI [of _ ?h]) auto
  qed
  finally show ?thesis by (simp add: is_duplicate_def Some s settled_sibling_exists_def list_ex_iff)
qed

lemma hint_mem:
  assumes "\<And>p e k. (p, e, k) \<in> set cands \<Longrightarrow> ev_starts e \<noteq> None"
  shows "i \<in> prefetch_settled_sibling_candidate_ids db cands \<longleftrightarrow>
    (\<exists>p e k. (p, e, k) \<in> set cands \<and> pk_id p = i \<and> is_duplicate db p e k)"
proof -
  let ?cs = "chunks (prefetch_chunk_size - 1) (filter has_pair cands)"
  have sub: "r \<in> set cands \<and> has_pair r" if "chunk \<in> set ?cs" "r \<in> set chunk" for chunk r
  proof -
    have "r \<in> set (concat ?cs)" using that by auto
    then show ?thesis unfolding concat_chunks by auto
  qed
  have hint: "hinted (chunk_rows chunk db) (p, e, k) = is_duplicate db p e k" if c: "chunk \<in> set ?cs" "(p, e, k) \<in> set chunk" for chunk p e k
  proof -
    obtain s where "ev_starts e = Some s" using assms sub [OF c] by blast
    then show ?thesis by (rule hinted_iff [OF c(2)])
  qed
  have "i \<in> prefetch_settled_sibling_candidate_ids db cands \<longleftrightarrow>
    (\<exists>chunk \<in> set ?cs. \<exists>p e k. (p, e, k) \<in> set chunk \<and> pk_id p = i \<and> is_duplicate db p e k)"
    using hint by (force simp: prefetch_settled_sibling_candidate_ids_def)
  also have "\<dots> \<longleftrightarrow> (\<exists>p e k. (p, e, k) \<in> set (concat ?cs) \<and> pk_id p = i \<and> is_duplicate db p e k)" by auto
  also have "\<dots> \<longleftrightarrow> (\<exists>p e k. (p, e, k) \<in> set cands \<and> pk_id p = i \<and> is_duplicate db p e k)"
    unfolding concat_chunks by (auto simp: is_duplicate_def has_pair_def split: option.splits)
  finally show ?thesis .
qed

end
