(* ===== verification/SettleClaims.thy ===== *)
theory SettleClaims
  imports SettleRuns
begin

text \<open>
  The properties of the settlement engine, with a small book of bets on which they are applied: one bet, filed
  twice because two sources name its fixture differently.
\<close>

subsection \<open>The line of a handicap\<close>

definition spread_line :: "string \<Rightarrow> string option" where
  "spread_line selection = (case rpartition_sp (strip_live_status selection) of
     (team, raw) \<Rightarrow> if team \<noteq> [] \<and> parse_signed raw \<noteq> None then Some raw else None)"

lemma rpartition_sp_split: "rpartition_sp s = (a, b) \<Longrightarrow> a \<noteq> [] \<Longrightarrow> s = a @ '' '' @ b \<and> CHR '' '' \<notin> set b"
proof -
  assume r: "rpartition_sp s = (a, b)" and a: "a \<noteq> []"
  define u v where "u = takeWhile (\<lambda>c. c \<noteq> CHR '' '') (rev s)" and "v = dropWhile (\<lambda>c. c \<noteq> CHR '' '') (rev s)"
  have rp: "rpartition_sp s = (if v = [] then ([], s) else (rev (tl v), rev u))"
    unfolding rpartition_sp_def Let_def u_def v_def ..
  have v: "v \<noteq> []" using r a rp by auto
  then have "hd v = CHR '' ''" using hd_dropWhile [of "\<lambda>c. c \<noteq> CHR '' ''" "rev s"] by (simp add: v_def)
  then have "v = CHR '' '' # tl v" using v by (cases v) auto
  moreover have "rev s = u @ v" by (simp add: u_def v_def)
  moreover have ab: "a = rev (tl v)" "b = rev u" using r v unfolding rp by simp_all
  ultimately have "s = rev (tl v) @ '' '' @ rev u" by (metis append_Cons append_Nil rev.simps(2) rev_append rev_rev_ident append_assoc)
  moreover have "CHR '' '' \<notin> set u" by (auto simp: u_def dest: set_takeWhileD)
  ultimately show ?thesis by (simp add: ab)
qed

lemma dedup_key_of_spread:
  assumes "spread_line s = Some l"
  obtains x where "selection_dedup_key s = x @ '' '' @ l" "CHR '' '' \<notin> set l" "rpartition_sp (selection_dedup_key s) = (x, l)"
proof -
  obtain team where r: "rpartition_sp (strip_live_status s) = (team, l)" "team \<noteq> []" "parse_signed l \<noteq> None"
    using assms by (auto simp: spread_line_def split: if_splits prod.splits)
  note sp = rpartition_sp_split [OF r(1, 2)]
  have "\<exists>x. selection_dedup_key s = x @ '' '' @ l"
  proof (cases "normalize_name (strip_live_status team) = []")
    case True
    then have "selection_dedup_key s = strip_live_status s" using r by (simp add: selection_dedup_key_def Let_def)
    then show ?thesis using sp by metis
  next
    case False
    then have "selection_dedup_key s = normalize_name (strip_live_status team) @ '' '' @ l"
      using r by (simp add: selection_dedup_key_def Let_def)
    then show ?thesis by blast
  qed
  then obtain x where x: "selection_dedup_key s = x @ '' '' @ l" by blast
  show thesis using that [OF x] sp rpartition_sp_last [of l x] x by metis
qed

subsection \<open>A bet filed twice\<close>

definition sample_event :: "string \<Rightarrow> string \<Rightarrow> time \<Rightarrow> event_row" where
  "sample_event h a t = \<lparr>ev_sport = 1, ev_home = h, ev_away = a, ev_starts = Some t, ev_status = ''scheduled'',
     ev_scraped_home = None, ev_scraped_away = None\<rparr>"

definition sample_pick :: "int \<Rightarrow> int \<Rightarrow> string \<Rightarrow> pick_row" where
  "sample_pick i ev sel = \<lparr>pk_id = i, pk_event = ev, pk_model = 1, pk_market = ''h2h'', pk_detail = None, pk_selection = sel,
     pk_book = ''bet365'', pk_odds = 2, pk_stake = 10, pk_basis_stake = 10, pk_basis_term = 20, pk_created = 0, pk_status = alerted\<rparr>"

definition sample_store :: store where
  "sample_store = \<lparr>events = [1 \<mapsto> sample_event ''Ox'' ''Ely'' (hours 3), 2 \<mapsto> sample_event ''Ox FC'' ''Ely'' (hours 4)],
     sports = [1 \<mapsto> ''soccer''], picks = [sample_pick 10 1 ''Ox'', sample_pick 11 2 ''Ox FC''], logs = [], results = Map.empty\<rparr>"

definition sample_scores :: "final_score list" where "sample_scores = [sample_row ''Ox'' ''Ely'' 0 2 1]"

lemma sample_inv: "engine_inv sample_store"
  by (simp add: engine_inv_def sample_store_def sample_pick_def alerted_def settled_def)

lemma sample_pass:
  "rmap (\<lambda>(n, db). (n, map pk_status (picks db), map_option rr_pnl (results db 10))) (settle_open_picks (build_book sample_scores) (hours 20) base_settle_delay sample_store)
    = Ok (1, [settled, superseded], Some 10)"
  by code_simp

lemma sample_settles:
  obtains db where "settle_open_picks (build_book sample_scores) (hours 20) base_settle_delay sample_store = Ok (1, db)"
    "map pk_status (picks db) = [settled, superseded]" "map_option rr_pnl (results db 10) = Some 10"
proof -
  obtain n db where r: "settle_open_picks (build_book sample_scores) (hours 20) base_settle_delay sample_store = Ok (n, db)"
    using sample_pass by (cases "settle_open_picks (build_book sample_scores) (hours 20) base_settle_delay sample_store") auto
  then show thesis using that [of db] sample_pass by simp
qed

subsection \<open>Properties\<close>

text \<open>C3: however cycles and scores entered by hand follow each other, one bet on one real fixture is never settled
  twice, although several sources file it under several events: no two settled picks are twins.  Pick ids stay
  unique, and a pick has a result exactly when its status says so.\<close>

theorem no_double_settlement:
  assumes "engine_inv db"
  shows "engine_inv (run_commands cs db)
    \<and> (\<forall>p \<in> set (picks (run_commands cs db)). \<forall>q \<in> set (picks (run_commands cs db)).
         pk_status p = settled \<and> pk_status q = settled \<longrightarrow> \<not> twins (run_commands cs db) p q)"
proof -
  have inv: "engine_inv (run_commands cs db)" using engine_steps_inv [OF run_steps [OF assms] assms] .
  then show ?thesis using engine_invD(2, 3) [OF inv] by blast
qed

lemma no_double_settlement_witness: "engine_inv (run_commands [Cycle sample_scores True 0 (hours 20), Enter 2 2 1 (hours 21)] sample_store)"
  using no_double_settlement [OF sample_inv] by blast

text \<open>C5: what is settled stays settled: over any run no result is changed or removed, no pick that is not open changes,
  an open pick only changes its status, to settled with a result or to superseded, and teams, kickoffs, scores
  and logged bets are left alone.  So a result from a feed is never overridden by a scraped score.\<close>

theorem settled_is_final:
  assumes "engine_inv db"
  shows "keeps db (run_commands cs db) \<and> (results db i = Some row \<longrightarrow> results (run_commands cs db) i = Some row)"
  using engine_steps_keep [OF run_steps [OF assms] assms, of cs] by (auto simp: keeps_def)

lemma settled_is_final_witness: "keeps sample_store (run_commands [Cycle sample_scores True 0 (hours 20)] sample_store)"
  using settled_is_final [OF sample_inv] by blast



text \<open>C6: every result a settlement pass writes is the grade of an open pick by the score its book returns for the
  teams and the kickoff of the fixture, not before the delay of the sport has passed, with the profit of that
  grade at the stake and the price of the pick.\<close>

theorem settle_open_justified:
  assumes "engine_inv db" "settle_open_picks b now delay db = Ok (n, db')" "results db i = None" "results db' i = Some row"
  shows "\<exists>p \<in> set (picks db). \<exists>e k s start stake odds book. pk_id p = i \<and> pk_status p = alerted \<and> joined db p = Some (e, k)
     \<and> ev_starts e = Some start \<and> start + delay \<le> now \<and> start + settle_delay_for k delay \<le> now
     \<and> lookup b (ev_home e) (ev_away e) start = Some s
     \<and> grade p (ev_home e) (ev_away e) (home_score s) (away_score s) (completion s) (winner_side s) k = Ok (rr_outcome row)
     \<and> stake_and_odds db p = (stake, odds, book) \<and> rr_stake row = stake
     \<and> pick_pnl (rr_outcome row) stake odds book = Ok (rr_pnl row) \<and> rr_at row = now"
proof -
  obtain p where p: "p \<in> set (picks db)" "pk_id p = i" "pk_status p = alerted" "from_book b now delay db p row"
    using settle_open_results [OF assms(1, 2, 4)] assms(3) by auto
  obtain e k s where e: "joined db p = Some (e, k)" "due now delay e k" "score_for b e = Some s"
     "graded (home_score s) (away_score s) (completion s) (winner_side s) now db p row"
    using p(4) unfolding from_book_def by blast
  obtain start where st: "ev_starts e = Some start" "start + delay \<le> now" "start + settle_delay_for k delay \<le> now"
    "lookup b (ev_home e) (ev_away e) start = Some s"
    using e(2, 3) by (auto simp: due_def kickoff_by_def score_for_def split: option.splits)
  obtain stake odds book where g: "grade p (ev_home e) (ev_away e) (home_score s) (away_score s) (completion s) (winner_side s) k = Ok (rr_outcome row)"
     "stake_and_odds db p = (stake, odds, book)"
     "outcome_row (rr_outcome row) (if completion s = Void_Match then None else Some (home_score s, away_score s)) book None now stake odds book row"
    using e(4) e(1) unfolding graded_def by auto
  have "rr_stake row = stake" "pick_pnl (rr_outcome row) stake odds book = Ok (rr_pnl row)" "rr_at row = now"
    using g(3) by (simp_all add: outcome_row_def)
  then show ?thesis using p e(1) st g by blast
qed

lemma settle_open_justified_witness:
  "\<exists>db row p. settle_open_picks (build_book sample_scores) (hours 20) base_settle_delay sample_store = Ok (1, db)
     \<and> results db 10 = Some row \<and> p \<in> set (picks sample_store) \<and> pk_id p = 10"
proof -
  obtain db where db: "settle_open_picks (build_book sample_scores) (hours 20) base_settle_delay sample_store = Ok (1, db)"
    "map_option rr_pnl (results db 10) = Some 10" using sample_settles by metis
  then obtain row where row: "results db 10 = Some row" by auto
  have "results sample_store 10 = None" by (simp add: sample_store_def)
  then show ?thesis using settle_open_justified [OF sample_inv db(1) _ row] db(1) row by blast
qed

text \<open>The expiry of picks without a result spares what has one: a pick whose fixture has any score in the book, or
  whose sport's delay has not passed, is left as it is; a pick is voided with its stake returned and marked as
  expired; and with an empty book, or without an age, nothing expires.\<close>

theorem expiry_spares_scored:
  assumes "engine_inv db" "report_and_expire_no_result_picks b now delay age db = Ok (n, db')"
  shows "(\<forall>p e k. p \<in> set (picks db) \<and> joined db p = Some (e, k) \<and> (score_for b e \<noteq> None \<or> \<not> due now delay e k) \<longrightarrow> p \<in> set (picks db'))
    \<and> (\<forall>i row. results db i = None \<and> results db' i = Some row
         \<longrightarrow> rr_outcome row = Void \<and> rr_pnl row = 0 \<and> rr_note row = Some expired_note)
    \<and> (score_count b = 0 \<or> age = None \<longrightarrow> n = 0 \<and> db' = db)"
proof -
  have none: "score_count b = 0 \<or> age = None \<Longrightarrow> n = 0 \<and> db' = db"
    using assms(2) by (cases "score_count b = 0"; cases age) (simp_all add: report_and_expire_no_result_picks_def Let_def)
  have void: "rr_outcome row = Void \<and> rr_pnl row = 0 \<and> rr_note row = Some expired_note"
    if "results db i = None" "results db' i = Some row" for i row
  proof -
    have "voided (Some expired_note) now x p row \<Longrightarrow> keeps db x \<Longrightarrow> voided (Some expired_note) now db p row" for x p row
      using keeps_stake [of db x p] by (simp add: voided_def)
    then have "\<exists>p \<in> set (picks db). pk_id p = i \<and> pk_status p = alerted \<and> voided (Some expired_note) now db p row"
      using steps_results [OF expire_steps [OF assms] assms(1) _ that(2)] that(1) by auto
    then show ?thesis by (auto simp: voided_def)
  qed
  have spare: "p \<in> set (picks db')"
    if p: "p \<in> set (picks db)" "joined db p = Some (e, k)" "score_for b e \<noteq> None \<or> \<not> due now delay e k" for p e k
  proof (cases "score_count b = 0 \<or> age = None")
    case True
    then show ?thesis using none p(1) by simp
  next
    case False
    then obtain a where a: "age = Some a" "score_count b \<noteq> 0" by auto
    let ?rows = "filter (\<lambda>(p, e, k). kickoff_before (now - a) e) (open_rows (\<lambda>p e k. due now delay e k \<and> score_for b e = None) db)"
    have sw: "sweep (void_or_supersede now) ?rows db = Ok (n, db')"
      using assms(2) a by (simp add: report_and_expire_no_result_picks_def Let_def)
    have ready: "row_ready r db" if "r \<in> set ?rows" for r by (rule open_row_ready [OF assms(1)]) (use that in auto)
    have other: "pk_id (fst r) \<noteq> pk_id p" if r: "r \<in> set ?rows" for r
    proof
      assume same: "pk_id (fst r) = pk_id p"
      obtain q f l where q: "r = (q, f, l)" by (cases r)
      then have m: "q \<in> set (picks db)" "joined db q = Some (f, l)" "due now delay f l \<and> score_for b f = None"
        using r open_rows_mem by auto
      then have "q = p" using id_unique [OF engine_invD(1) [OF assms(1)] m(1) p(1)] same q by simp
      then show False using m p(2, 3) by auto
    qed
    show ?thesis
    proof (rule expiry.sweep_keeps [where Q = "\<lambda>x. p \<in> set (picks x)", OF _ open_rows_filter [OF assms(1)] ready sw p(1)])
      fix r x y assume r: "r \<in> set ?rows" and t: "touches (pk_id (fst r)) x y" and px: "p \<in> set (picks x)"
      show "p \<in> set (picks y)" using touches_pick [OF t other [OF r, symmetric]] px by (rule iffD2)
    qed
  qed
  show ?thesis
proof (intro conjI allI impI)
    fix p e k assume "p \<in> set (picks db) \<and> joined db p = Some (e, k) \<and> (score_for b e \<noteq> None \<or> \<not> due now delay e k)"
    then show "p \<in> set (picks db')" by (elim conjE) (rule spare)
  next
    fix i row assume r: "results db i = None \<and> results db' i = Some row"
    note v = void [OF conjunct1 [OF r] conjunct2 [OF r]]
    show "rr_outcome row = Void" "rr_pnl row = 0" "rr_note row = Some expired_note" using v by simp_all
  next
    assume z: "score_count b = 0 \<or> age = None"
    show "n = 0" "db' = db" using none [OF z] by simp_all
  qed
qed

lemma expiry_spares_scored_witness: "report_and_expire_no_result_picks empty_book 0 0 (Some 1) sample_store = Ok (0, sample_store)"
proof -
  have "report_and_expire_no_result_picks empty_book 0 0 (Some 1) sample_store = Ok (0, sample_store)"
    by (simp add: report_and_expire_no_result_picks_def empty_book_def)
  from expiry_spares_scored [OF sample_inv this] this show ?thesis by blast
qed

text \<open>The bulk hint of the second phase loses nothing and invents nothing: for candidates with a kickoff, chunked and
  bounded as the query does it, it names exactly the candidates that the row-by-row check finds to be duplicates.\<close>

theorem prefetch_exact:
  assumes "list_all (\<lambda>(p, e, k). ev_starts e \<noteq> None) cands"
  shows "prefetch_settled_sibling_candidate_ids db cands = (\<lambda>(p, e, k). pk_id p) ` set (filter (\<lambda>(p, e, k). is_duplicate db p e k) cands)"
proof -
  have "ev_starts e \<noteq> None" if "(p, e, k) \<in> set cands" for p e k using assms that by (auto simp: list_all_iff)
  then have mem: "i \<in> prefetch_settled_sibling_candidate_ids db cands \<longleftrightarrow>
    (\<exists>p e k. (p, e, k) \<in> set cands \<and> pk_id p = i \<and> is_duplicate db p e k)" for i by (rule hint_mem)
  show ?thesis
  proof (rule set_eqI)
    fix i
    show "i \<in> prefetch_settled_sibling_candidate_ids db cands \<longleftrightarrow> i \<in> (\<lambda>(p, e, k). pk_id p) ` set (filter (\<lambda>(p, e, k). is_duplicate db p e k) cands)"
      unfolding mem by (force simp: image_iff)
  qed
qed

lemma prefetch_exact_witness:
  "prefetch_settled_sibling_candidate_ids sample_store [(sample_pick 10 1 ''Ox'', sample_event ''Ox'' ''Ely'' 0, ''soccer'')] = {}"
proof -
  have "\<not> is_duplicate sample_store p e k" for p e k
    by (auto simp: is_duplicate_def settled_sibling_exists_def settled_sibling_def list_ex_iff sample_store_def split: option.splits)
  then show ?thesis by (subst prefetch_exact) (simp_all add: sample_event_def)
qed

text \<open>Bets on different lines are never taken for twins: the key under which selections are compared keeps the signed
  line of a handicap as written, so twins with handicaps carry the same line.\<close>

theorem twins_same_line:
  assumes "spread_line (pk_selection p) = Some l" "spread_line (pk_selection q) = Some m"
  shows "(selection_dedup_key (pk_selection p) = selection_dedup_key (pk_selection q) \<longrightarrow> l = m) \<and> (twins db p q \<longrightarrow> l = m)"
proof -
  obtain x where x: "rpartition_sp (selection_dedup_key (pk_selection p)) = (x, l)" by (rule dedup_key_of_spread [OF assms(1)])
  obtain y where y: "rpartition_sp (selection_dedup_key (pk_selection q)) = (y, m)" by (rule dedup_key_of_spread [OF assms(2)])
  show ?thesis using x y by (auto simp: twins_def)
qed

lemma twins_same_line_witness:
  "\<not> twins sample_store (sample_pick 10 1 ''Ox -1.5'') (sample_pick 11 2 ''Ox +1.5'')"
proof -
  have "spread_line ''Ox -1.5'' = Some ''-1.5''" "spread_line ''Ox +1.5'' = Some ''+1.5''" by code_simp+
  then show ?thesis
    using twins_same_line [of "sample_pick 10 1 ''Ox -1.5''" "''-1.5''" "sample_pick 11 2 ''Ox +1.5''" "''+1.5''" sample_store]
    by (simp add: sample_pick_def)
qed

end
