(* ===== verification/SettleLocks.thy ===== *)
theory SettleLocks
  imports SettleClaims
begin

text \<open>
  Concurrent settlement, \<^verbatim>\<open>_lock_settlement_instrument\<close> and \<^verbatim>\<open>_supersede_if_settled_sibling\<close> in
  \<^verbatim>\<open>app/settlement/engine.py\<close>: several workers, each in a transaction of its own, interleave the steps of
  settling picks.  A worker sees the committed results and its own; the advisory lock on the instrument of a
  pick is held until the transaction ends.  The hash by which the database numbers the locks is a parameter.
  The result table is locked row by row: an insert for a pick that another open transaction has inserted waits
  for the end of that transaction.
\<close>

subsection \<open>Instruments\<close>

text \<open>What the lock is taken on.  The kickoff is not part of it.\<close>

type_synonym instrument = "int \<times> string set \<times> string \<times> string option \<times> string \<times> int"

definition instrument_of :: "store \<Rightarrow> pick_row \<Rightarrow> instrument option" where
  "instrument_of db p = (case joined db p of
     None \<Rightarrow> None
   | Some (e, k) \<Rightarrow> map_option (\<lambda>pair. (ev_sport e, pair, pk_market p, pk_detail p, selection_dedup_key (pk_selection p), pk_model p))
       (fixture_pair_key (ev_home e) (ev_away e)))"

lemma twinsE:
  assumes "twins db p q"
  obtains e k f l where "joined db p = Some (e, k)" "joined db q = Some (f, l)" "same_fixture_rows e f k"
    "pk_market p = pk_market q" "pk_detail p = pk_detail q" "pk_model p = pk_model q"
    "selection_dedup_key (pk_selection p) = selection_dedup_key (pk_selection q)"
  using assms by (cases "joined db p"; cases "joined db q") (auto simp: twins_def)

lemma twins_same_instrument:
  assumes "twins db p q" shows "instrument_of db p = instrument_of db q" "instrument_of db p \<noteq> None"
proof -
  from assms obtain e k f l where j: "joined db p = Some (e, k)" "joined db q = Some (f, l)" "same_fixture_rows e f k"
    "pk_market p = pk_market q" "pk_detail p = pk_detail q" "pk_model p = pk_model q"
    "selection_dedup_key (pk_selection p) = selection_dedup_key (pk_selection q)" by (rule twinsE)
  have s: "ev_sport e = ev_sport f" "fixture_pair_key (ev_home e) (ev_away e) = fixture_pair_key (ev_home f) (ev_away f)"
    "fixture_pair_key (ev_home e) (ev_away e) \<noteq> None"
    using j(3) unfolding same_fixture_rows_def by blast+
  show "instrument_of db p = instrument_of db q" using j s(1, 2) by (simp add: instrument_of_def)
  show "instrument_of db p \<noteq> None" using j s(3) by (simp add: instrument_of_def)
qed

subsection \<open>Workers\<close>

text \<open>Between picks; holding the lock of a pick; past the check of a pick.\<close>

datatype phase = Between | Locked pick_row | Cleared pick_row

record workers =
  committed :: "pick_row set"
  pending :: "nat \<Rightarrow> pick_row set"
  holder :: "int \<Rightarrow> nat option"
  phase_of :: "nat \<Rightarrow> phase"

definition start :: workers where
  "start = \<lparr>committed = {}, pending = (\<lambda>_. {}), holder = (\<lambda>_. None), phase_of = (\<lambda>_. Between)\<rparr>"

definition visible :: "workers \<Rightarrow> nat \<Rightarrow> pick_row set" where
  "visible s w = committed s \<union> pending s w"

definition lock_number :: "(instrument \<Rightarrow> int) \<Rightarrow> store \<Rightarrow> pick_row \<Rightarrow> int option" where
  "lock_number hash db p = map_option hash (instrument_of db p)"

definition finish_worker :: "nat \<Rightarrow> workers \<Rightarrow> workers" where
  "finish_worker w s = s\<lparr>pending := (pending s)(w := {}), holder := (\<lambda>n. if holder s n = Some w then None else holder s n),
     phase_of := (phase_of s)(w := Between)\<rparr>"

inductive settle_step :: "(instrument \<Rightarrow> int) \<Rightarrow> store \<Rightarrow> workers \<Rightarrow> workers \<Rightarrow> bool" for hash db where
  no_fixture_key: "phase_of s w = Between \<Longrightarrow> lock_number hash db p = None \<Longrightarrow>
    settle_step hash db s (s\<lparr>phase_of := (phase_of s)(w := Cleared p)\<rparr>)"
| take_lock: "phase_of s w = Between \<Longrightarrow> lock_number hash db p = Some n \<Longrightarrow> holder s n = None \<or> holder s n = Some w \<Longrightarrow>
    settle_step hash db s (s\<lparr>holder := (holder s)(n := Some w), phase_of := (phase_of s)(w := Locked p)\<rparr>)"
| found_sibling: "phase_of s w = Locked p \<Longrightarrow> q \<in> visible s w \<Longrightarrow> twins db p q \<Longrightarrow>
    settle_step hash db s (s\<lparr>phase_of := (phase_of s)(w := Between)\<rparr>)"
| no_sibling: "phase_of s w = Locked p \<Longrightarrow> \<forall>q \<in> visible s w. \<not> twins db p q \<Longrightarrow>
    settle_step hash db s (s\<lparr>phase_of := (phase_of s)(w := Cleared p)\<rparr>)"
| insert_row: "phase_of s w = Cleared p \<Longrightarrow> p \<notin> committed s \<Longrightarrow> \<forall>v. p \<notin> pending s v \<Longrightarrow>
    settle_step hash db s (s\<lparr>pending := (pending s)(w := insert p (pending s w)), phase_of := (phase_of s)(w := Between)\<rparr>)"
| insert_conflict: "phase_of s w = Cleared p \<Longrightarrow> p \<in> visible s w \<Longrightarrow>
    settle_step hash db s (s\<lparr>phase_of := (phase_of s)(w := Between)\<rparr>)"
| commit: "phase_of s w = Between \<Longrightarrow>
    settle_step hash db s (finish_worker w (s\<lparr>committed := committed s \<union> pending s w\<rparr>))"
| rollback: "settle_step hash db s (finish_worker w s)"

inductive_cases settle_stepE: "settle_step hash db s s'"

subsection \<open>Mutual exclusion\<close>

text \<open>All results, of every transaction.\<close>

definition written :: "workers \<Rightarrow> pick_row set" where
  "written s = committed s \<union> (\<Union>w. pending s w)"

text \<open>Who has written or is about to write a pick with a lock holds its lock; past the check there is no twin.\<close>

definition locks_inv :: "(instrument \<Rightarrow> int) \<Rightarrow> store \<Rightarrow> workers \<Rightarrow> bool" where
  "locks_inv hash db s \<longleftrightarrow>
     (\<forall>w p n. lock_number hash db p = Some n \<and> (p \<in> pending s w \<or> phase_of s w = Locked p \<or> phase_of s w = Cleared p)
        \<longrightarrow> holder s n = Some w)
     \<and> (\<forall>w p q. phase_of s w = Cleared p \<and> q \<in> visible s w \<longrightarrow> \<not> twins db p q)
     \<and> (\<forall>p q. p \<in> written s \<and> q \<in> written s \<longrightarrow> \<not> twins db p q)"

lemma locks_invD:
  assumes "locks_inv hash db s"
  shows "lock_number hash db p = Some n \<Longrightarrow> p \<in> pending s w \<or> phase_of s w = Locked p \<or> phase_of s w = Cleared p \<Longrightarrow> holder s n = Some w"
    "phase_of s w = Cleared p \<Longrightarrow> q \<in> visible s w \<Longrightarrow> \<not> twins db p q"
    "p \<in> written s \<Longrightarrow> q \<in> written s \<Longrightarrow> \<not> twins db p q"
  using assms unfolding locks_inv_def by blast+

lemma twins_lock: "twins db p q \<Longrightarrow> \<exists>n. lock_number hash db p = Some n \<and> lock_number hash db q = Some n"
proof -
  assume t: "twins db p q"
  obtain i where "instrument_of db p = Some i" using twins_same_instrument(2) [OF t] by blast
  then show ?thesis using twins_same_instrument(1) [OF t] by (simp add: lock_number_def)
qed

text \<open>A worker past the check has no twin among the results of any transaction.\<close>

lemma cleared_fresh:
  assumes inv: "locks_inv hash db s" and c: "phase_of s w = Cleared p" and q: "q \<in> written s"
  shows "\<not> twins db p q"
proof
  assume t: "twins db p q"
  then obtain n where n: "lock_number hash db p = Some n" "lock_number hash db q = Some n" using twins_lock by blast
  have h: "holder s n = Some w" using locks_invD(1) [OF inv n(1)] c by blast
  have "q \<in> visible s w"
  proof (cases "q \<in> committed s")
    case False
    then obtain v where v: "q \<in> pending s v" using q by (auto simp: written_def)
    then have "holder s n = Some v" using locks_invD(1) [OF inv n(2)] by blast
    then show ?thesis using h v by (simp add: visible_def)
  qed (simp add: visible_def)
  then show False using locks_invD(2) [OF inv c] t by blast
qed

lemma written_finish: "written (finish_worker w s) \<subseteq> written s" "visible (finish_worker w s) v \<subseteq> visible s v"
  by (auto simp: written_def visible_def finish_worker_def split: if_splits)

lemma finish_inv: "locks_inv hash db s \<Longrightarrow> locks_inv hash db (finish_worker w s)"
proof -
  assume inv: "locks_inv hash db s"
  have "holder (finish_worker w s) n = Some v"
    if "lock_number hash db p = Some n" "p \<in> pending (finish_worker w s) v \<or> phase_of (finish_worker w s) v = Locked p \<or> phase_of (finish_worker w s) v = Cleared p"
    for p n v
  proof -
    have "v \<noteq> w" using that(2) by (auto simp: finish_worker_def)
    then show ?thesis using locks_invD(1) [OF inv that(1), of v] that(2) by (simp add: finish_worker_def)
  qed
  moreover have "\<not> twins db p q" if "phase_of (finish_worker w s) v = Cleared p" "q \<in> visible (finish_worker w s) v" for p q v
  proof -
    have "phase_of s v = Cleared p" using that(1) by (simp add: finish_worker_def split: if_splits)
    then show ?thesis using locks_invD(2) [OF inv] written_finish(2) that(2) by blast
  qed
  moreover have "\<not> twins db p q" if "p \<in> written (finish_worker w s)" "q \<in> written (finish_worker w s)" for p q
    using locks_invD(3) [OF inv] written_finish(1) that by blast
  ultimately show ?thesis unfolding locks_inv_def by blast
qed

lemma commit_inv: "locks_inv hash db s \<Longrightarrow> phase_of s w = Between \<Longrightarrow> locks_inv hash db (s\<lparr>committed := committed s \<union> pending s w\<rparr>)"
proof -
  assume inv: "locks_inv hash db s" and b: "phase_of s w = Between"
  let ?s = "s\<lparr>committed := committed s \<union> pending s w\<rparr>"
  have wr: "written ?s = written s" by (auto simp: written_def)
  have "visible ?s v \<subseteq> written s" for v by (auto simp: visible_def written_def)
  then have "\<not> twins db p q" if "phase_of s v = Cleared p" "q \<in> visible ?s v" for p q v
    using cleared_fresh [OF inv that(1)] that(2) by blast
  then show ?thesis using locks_invD(1, 3) [OF inv] unfolding locks_inv_def wr by simp blast
qed

lemma insert_inv:
  assumes inv: "locks_inv hash db s" and c: "phase_of s w = Cleared p"
  shows "locks_inv hash db (s\<lparr>pending := (pending s)(w := insert p (pending s w)), phase_of := (phase_of s)(w := Between)\<rparr>)"
    (is "locks_inv hash db ?s")
proof -
  have wr: "written ?s = insert p (written s)" by (auto simp: written_def split: if_splits)
  have "holder ?s n = Some v" if n: "lock_number hash db r = Some n" "r \<in> pending ?s v \<or> phase_of ?s v = Locked r \<or> phase_of ?s v = Cleared r" for r n v
  proof (cases "v = w")
    case True
    then have "r \<in> pending s w \<or> phase_of s w = Cleared r" using n(2) c by auto
    then show ?thesis using locks_invD(1) [OF inv n(1), of w] True by auto
  next
    case False
    then show ?thesis using locks_invD(1) [OF inv n(1), of v] n(2) by simp
  qed
  moreover have "\<not> twins db r q" if "phase_of ?s v = Cleared r" "q \<in> visible ?s v" for r q v
  proof -
    have "v \<noteq> w" using that(1) by auto
    then show ?thesis using locks_invD(2) [OF inv, of v r q] that by (simp add: visible_def)
  qed
  moreover have "\<not> twins db r q" if "r \<in> written ?s" "q \<in> written ?s" for r q
  proof -
    have "\<not> twins db p p" by (simp add: twins_def)
    then show ?thesis using that locks_invD(3) [OF inv] cleared_fresh [OF inv c] twins_sym [of db r q] unfolding wr by blast
  qed
  ultimately show ?thesis unfolding locks_inv_def by blast
qed

text \<open>A step that only moves one worker to a new phase.\<close>

lemma phase_inv:
  assumes inv: "locks_inv hash db s"
    and lock: "\<And>p n. ph = Locked p \<or> ph = Cleared p \<Longrightarrow> lock_number hash db p = Some n \<Longrightarrow> holder s n = Some w"
    and clear: "\<And>p q. ph = Cleared p \<Longrightarrow> q \<in> visible s w \<Longrightarrow> \<not> twins db p q"
  shows "locks_inv hash db (s\<lparr>phase_of := (phase_of s)(w := ph)\<rparr>)" (is "locks_inv hash db ?s")
proof -
  have same: "written ?s = written s" "visible ?s = visible s" by (auto simp: written_def visible_def)
  have "holder ?s n = Some v" if n: "lock_number hash db r = Some n" "r \<in> pending ?s v \<or> phase_of ?s v = Locked r \<or> phase_of ?s v = Cleared r" for r n v
    using locks_invD(1) [OF inv n(1), of v] lock [of r n] n by (auto split: if_splits)
  moreover have "\<not> twins db r q" if "phase_of ?s v = Cleared r" "q \<in> visible s v" for r q v
    using locks_invD(2) [OF inv, of v r q] clear [of r q] that by (auto split: if_splits)
  ultimately show ?thesis using locks_invD(3) [OF inv] unfolding locks_inv_def same by blast
qed

lemma lock_inv:
  assumes inv: "locks_inv hash db s" and n: "holder s n = None \<or> holder s n = Some w" "phase_of s w = Between"
  shows "locks_inv hash db (s\<lparr>holder := (holder s)(n := Some w)\<rparr>)" (is "locks_inv hash db ?s")
proof -
  have same: "written ?s = written s" "visible ?s = visible s" by (auto simp: written_def visible_def)
  have "holder ?s m = Some v" if m: "lock_number hash db r = Some m" "r \<in> pending s v \<or> phase_of s v = Locked r \<or> phase_of s v = Cleared r" for r m v
    using locks_invD(1) [OF inv m] n by auto
  moreover have "\<not> twins db r q" if "phase_of ?s v = Cleared r" "q \<in> visible s v" for r q v
    using locks_invD(2) [OF inv, of v r q] that by simp
  ultimately show ?thesis using locks_invD(3) [OF inv] unfolding locks_inv_def same by fastforce
qed

lemma settle_step_inv: "settle_step hash db s s' \<Longrightarrow> locks_inv hash db s \<Longrightarrow> locks_inv hash db s'"
proof (erule settle_stepE)
  fix w p assume "locks_inv hash db s" "lock_number hash db p = None" "s' = s\<lparr>phase_of := (phase_of s)(w := Cleared p)\<rparr>"
  then show "locks_inv hash db s'" using twins_lock [of db p _ hash] by (auto intro!: phase_inv)
next
  fix w p n assume a: "locks_inv hash db s" "phase_of s w = Between" "lock_number hash db p = Some n" "holder s n = None \<or> holder s n = Some w"
    "s' = s\<lparr>holder := (holder s)(n := Some w), phase_of := (phase_of s)(w := Locked p)\<rparr>"
  have "locks_inv hash db ((s\<lparr>holder := (holder s)(n := Some w)\<rparr>)\<lparr>phase_of := (phase_of s)(w := Locked p)\<rparr>)"
    by (rule phase_inv [OF lock_inv [OF a(1, 4, 2)], of "Locked p" w, simplified]) (use a(3) in auto)
  then show "locks_inv hash db s'" using a(5) by simp
next
  fix w p q assume "locks_inv hash db s" "s' = s\<lparr>phase_of := (phase_of s)(w := Between)\<rparr>" "phase_of s w = Locked p"
  then show "locks_inv hash db s'" by (auto intro!: phase_inv)
next
  fix w p assume a: "locks_inv hash db s" "s' = s\<lparr>phase_of := (phase_of s)(w := Cleared p)\<rparr>" "phase_of s w = Locked p"
    "\<forall>q \<in> visible s w. \<not> twins db p q"
  show "locks_inv hash db s'" unfolding a(2) by (rule phase_inv [OF a(1)]) (use a locks_invD(1) [OF a(1)] in auto)
next
  fix w p assume "locks_inv hash db s" "phase_of s w = Cleared p"
    "s' = s\<lparr>pending := (pending s)(w := insert p (pending s w)), phase_of := (phase_of s)(w := Between)\<rparr>"
  then show "locks_inv hash db s'" using insert_inv by simp
next
  fix w p assume "locks_inv hash db s" "s' = s\<lparr>phase_of := (phase_of s)(w := Between)\<rparr>" "phase_of s w = Cleared p"
  then show "locks_inv hash db s'" by (auto intro!: phase_inv)
next
  fix w assume "locks_inv hash db s" "phase_of s w = Between" "s' = finish_worker w (s\<lparr>committed := committed s \<union> pending s w\<rparr>)"
  then show "locks_inv hash db s'" using finish_inv [OF commit_inv] by simp
next
  fix w assume "locks_inv hash db s" "s' = finish_worker w s"
  then show "locks_inv hash db s'" using finish_inv by simp
qed

lemma start_inv: "locks_inv hash db start"
  by (auto simp: locks_inv_def start_def written_def visible_def)

lemma reachable_inv: "(settle_step hash db)\<^sup>*\<^sup>* start s \<Longrightarrow> locks_inv hash db s"
  by (induction rule: rtranclp_induct) (use start_inv settle_step_inv in blast)+

text \<open>C4: concurrent settlement does not settle one bet twice either: in every state that any number of workers reach, whatever
  their interleaving and whatever hash numbers the locks, no two results, committed or still open, are of twins.\<close>

theorem concurrent_no_double_settlement:
  assumes "(settle_step hash db)\<^sup>*\<^sup>* start s" "p \<in> written s" "q \<in> written s"
  shows "\<not> twins db p q"
  using locks_invD(3) [OF reachable_inv [OF assms(1)] assms(2, 3)] .

lemma sample_lock: "lock_number (\<lambda>_. 0) sample_store (sample_pick 10 1 ''Ox'') = Some 0"
proof -
  have "fixture_pair_key ''Ox'' ''Ely'' \<noteq> None" by code_simp
  then have "instrument_of sample_store (sample_pick 10 1 ''Ox'') \<noteq> None"
    by (simp add: instrument_of_def joined_def sport_of_def sample_store_def sample_pick_def sample_event_def)
  then show ?thesis by (auto simp: lock_number_def)
qed

lemma concurrent_no_double_settlement_witness:
  "\<exists>s. (settle_step (\<lambda>_. 0) sample_store)\<^sup>*\<^sup>* start s \<and> sample_pick 10 1 ''Ox'' \<in> written s
     \<and> \<not> twins sample_store (sample_pick 10 1 ''Ox'') (sample_pick 10 1 ''Ox'')"
proof -
  let ?p = "sample_pick 10 1 ''Ox''" and ?step = "settle_step (\<lambda>_. 0) sample_store"
  define s1 where "s1 = start\<lparr>holder := (holder start)(0 := Some 0), phase_of := (phase_of start)(0 := Locked ?p)\<rparr>"
  define s2 where "s2 = s1\<lparr>phase_of := (phase_of s1)(0 := Cleared ?p)\<rparr>"
  define s3 where "s3 = s2\<lparr>pending := (pending s2)(0 := insert ?p (pending s2 0)), phase_of := (phase_of s2)(0 := Between)\<rparr>"
  have "?step start s1" unfolding s1_def by (rule take_lock) (simp_all add: sample_lock, simp_all add: start_def)
  moreover have "?step s1 s2" unfolding s2_def by (rule no_sibling) (simp_all add: s1_def start_def visible_def)
  moreover have "?step s2 s3" unfolding s3_def by (rule insert_row) (simp_all add: s2_def s1_def start_def)
  ultimately have r: "?step\<^sup>*\<^sup>* start s3" by (meson converse_rtranclp_into_rtranclp r_into_rtranclp)
  moreover have "?p \<in> written s3" by (auto simp: written_def s3_def)
  ultimately show ?thesis using concurrent_no_double_settlement [of "\<lambda>_. 0" sample_store s3 ?p ?p] by blast
qed

end
