(* ===== verification/PickStore.thy ===== *)
theory PickStore
  imports Exposure PyTime Pricing PyStats
begin

text \<open>
  Recording a pick and reserving its exposure: \<^verbatim>\<open>persist_pick\<close> and \<^verbatim>\<open>update_pick_stake\<close> of
  \<^verbatim>\<open>app/storage/repositories.py\<close>, the transaction around them, \<^verbatim>\<open>_persist_and_reserve\<close> of \<^verbatim>\<open>app/pipeline.py\<close>,
  the funding of the premium candidates of a cycle, and the seeding of the ledger at start,
  \<^verbatim>\<open>seed_exposure_ledger\<close> of \<^verbatim>\<open>app/scheduler.py\<close>.

  The table of picks is a list of rows with the unique key (event, market, detail, selection, version).  A
  numeric column rounds half away from zero to its scale and rejects what does not fit.  The numbers of a
  detection are finite floats: the schema checks most of them, and a number that is not finite is rejected here.
  The resolution of names to the ids of events and versions is a parameter; the other tables it
  fills are not read by these operations.  Where the database may fail, it does so when an argument says it.
\<close>

subsection \<open>Columns\<close>

definition numeric :: "nat \<Rightarrow> nat \<Rightarrow> rat \<Rightarrow> rat res" where
  "numeric precision scale x =
     (let n = round_half_up (x * 10 ^ scale) in
      if \<bar>n\<bar> < 10 ^ precision then Ok (of_int n / 10 ^ scale) else Raise DatabaseError)"

abbreviation odds_column :: "rat \<Rightarrow> rat res" where "odds_column \<equiv> numeric 10 4"
abbreviation prob_column :: "rat \<Rightarrow> rat res" where "prob_column \<equiv> numeric 8 6"
abbreviation money_column :: "rat \<Rightarrow> rat res" where "money_column \<equiv> numeric 12 2"
abbreviation metric_column :: "rat \<Rightarrow> rat res" where "metric_column \<equiv> numeric 12 6"
abbreviation basis_column :: "rat \<Rightarrow> rat res" where "basis_column \<equiv> numeric 22 6"

text \<open>\<^verbatim>\<open>Decimal(str(x))\<close> on its way into a column.\<close>

definition float_column :: "(rat \<Rightarrow> rat res) \<Rightarrow> pyfloat \<Rightarrow> rat res" where
  "float_column col f = (case f of Fin x \<Rightarrow> col (repr_float x) | _ \<Rightarrow> Raise DatabaseError)"

definition opt_column :: "('a \<Rightarrow> 'b res) \<Rightarrow> 'a option \<Rightarrow> 'b option res" where
  "opt_column col v = (case v of None \<Rightarrow> Ok None | Some x \<Rightarrow> rmap Some (col x))"

subsection \<open>Identities\<close>

definition utf8_length :: "string \<Rightarrow> nat" where
  "utf8_length s = sum_list (map (\<lambda>c. if code c < 128 then 1 else 2) s)"

definition require_bounded_identity :: "string \<Rightarrow> nat \<Rightarrow> bool \<Rightarrow> string res" where
  "require_bounded_identity s maximum_bytes allow_empty =
     (if \<not> allow_empty \<and> s = [] then Raise ValueError
      else if utf8_length s > maximum_bytes then Raise ValueError
      else Ok s)"

definition bookmaker_max_bytes :: nat where "bookmaker_max_bytes = 512"
definition market_detail_max_bytes :: nat where "market_detail_max_bytes = 512"
definition selection_max_bytes :: nat where "selection_max_bytes = 1024"

subsection \<open>Detections and rows\<close>

record breakdown_out =
  bo_raw_kelly :: pyfloat
  bo_fractional :: pyfloat
  bo_capped :: bool
  bo_final :: pyfloat
  bo_daily_clipped :: bool

text \<open>What a detection says about its price besides the price, and where it comes from.\<close>

record mint =
  mi_model_probability :: pyfloat
  mi_fair_probability :: pyfloat
  mi_edge :: pyfloat
  mi_ev :: pyfloat
  mi_confidence :: pyfloat
  mi_filter_score :: "pyfloat option"
  mi_anchor_type :: "string option"
  mi_anchor_book :: "string option"
  mi_anchor_confidence :: "pyfloat option"
  mi_anchor_how :: "string option"
  mi_staleness :: "string option"
  mi_steam_tripped :: "bool option"
  mi_steam_reasons :: "string option"
  mi_steam_closed :: "pyfloat option"
  mi_steam_age :: "pyfloat option"
  mi_book_count :: "int option"
  mi_fingerprint :: "string option"
  mi_devig_fell_back :: "bool option"

record detection =
  dt_ref :: string
  dt_market :: string
  dt_detail :: "string option"
  dt_selection :: string
  dt_book :: string
  dt_odds :: pyfloat
  dt_fraction :: pyfloat
  dt_amount :: rat
  dt_breakdown :: breakdown_out
  dt_reason :: string
  dt_tier :: string
  dt_hours :: "pyfloat option"
  dt_mint :: mint

record mint_row =
  mr_model_probability :: rat
  mr_fair_probability :: rat
  mr_edge :: rat
  mr_ev :: rat
  mr_confidence :: rat
  mr_filter_score :: "rat option"
  mr_anchor_type :: "string option"
  mr_anchor_book :: "string option"
  mr_anchor_confidence :: "rat option"
  mr_anchor_how :: "string option"
  mr_staleness :: "string option"
  mr_steam_tripped :: "bool option"
  mr_steam_reasons :: "string option"
  mr_steam_closed :: "rat option"
  mr_steam_age :: "rat option"
  mr_book_count :: "int option"
  mr_fingerprint :: "string option"
  mr_devig_fell_back :: "bool option"

text \<open>The close and the current price, which other parts of the program write on an open pick.\<close>

record close_columns =
  cc_closing_odds :: "rat option"
  cc_closing_fair :: "rat option"
  cc_clv_log :: "rat option"
  cc_beat_close :: "bool option"
  cc_anchor_type :: "string option"
  cc_has_snapshot :: "bool option"
  cc_independent :: "bool option"
  cc_exclusion :: "string option"
  cc_devig_fell_back :: "bool option"
  cc_anchor_book :: "string option"
  cc_captured_at :: "time option"
  cc_current_odds :: "rat option"
  cc_current_edge :: "rat option"
  cc_current_book :: "string option"
  cc_revalidated_at :: "time option"

definition no_close :: close_columns where
  "no_close = \<lparr>cc_closing_odds = None, cc_closing_fair = None, cc_clv_log = None, cc_beat_close = None,
     cc_anchor_type = None, cc_has_snapshot = None, cc_independent = None, cc_exclusion = None,
     cc_devig_fell_back = None, cc_anchor_book = None, cc_captured_at = None, cc_current_odds = None,
     cc_current_edge = None, cc_current_book = None, cc_revalidated_at = None\<rparr>"

record stored_pick =
  sp_event :: int
  sp_version :: int
  sp_market :: string
  sp_detail :: "string option"
  sp_selection :: string
  sp_book :: string
  sp_odds :: rat
  sp_fraction :: rat
  sp_amount :: rat
  sp_basis_stake :: rat
  sp_basis_raw :: rat
  sp_basis_effective :: rat
  sp_basis_book :: "string option"
  sp_basis_repriced :: bool
  sp_reserved_on :: "day option"
  sp_reserved :: "rat option"
  sp_breakdown :: breakdown_out
  sp_reason :: string
  sp_tier :: string
  sp_status :: string
  sp_created :: time
  sp_hours :: "rat option"
  sp_mint :: mint_row
  sp_close :: close_columns

definition premium :: string where "premium = ''premium''"
definition volume :: string where "volume = ''volume''"

definition open_status :: string where "open_status = ''alerted''"
definition displaced_status :: string where "displaced_status = ''superseded''"

subsection \<open>The values of a detection as columns\<close>

definition six_places :: "(rat \<Rightarrow> rat res) \<Rightarrow> pyfloat \<Rightarrow> rat res" where
  "six_places col f = float_column col (round_places 6 f)"

definition mint_columns :: "string option \<Rightarrow> mint \<Rightarrow> mint_row res" where
  "mint_columns anchor_book m =
     rbind (float_column prob_column (mi_model_probability m)) (\<lambda>mp.
     rbind (float_column prob_column (mi_fair_probability m)) (\<lambda>fp.
     rbind (float_column metric_column (mi_edge m)) (\<lambda>ed.
     rbind (float_column metric_column (mi_ev m)) (\<lambda>ev.
     rbind (float_column prob_column (mi_confidence m)) (\<lambda>cf.
     rbind (opt_column (six_places prob_column) (mi_filter_score m)) (\<lambda>fs.
     rbind (opt_column (six_places prob_column) (mi_anchor_confidence m)) (\<lambda>ac.
     rbind (opt_column (six_places metric_column) (mi_steam_closed m)) (\<lambda>sc.
     rbind (opt_column (six_places metric_column) (mi_steam_age m)) (\<lambda>sa.
       Ok \<lparr>mr_model_probability = mp, mr_fair_probability = fp, mr_edge = ed, mr_ev = ev, mr_confidence = cf,
         mr_filter_score = fs, mr_anchor_type = mi_anchor_type m, mr_anchor_book = anchor_book,
         mr_anchor_confidence = ac, mr_anchor_how = mi_anchor_how m, mr_staleness = mi_staleness m,
         mr_steam_tripped = mi_steam_tripped m, mr_steam_reasons = mi_steam_reasons m, mr_steam_closed = sc,
         mr_steam_age = sa, mr_book_count = mi_book_count m, mr_fingerprint = mi_fingerprint m,
         mr_devig_fell_back = mi_devig_fell_back m\<rparr>)))))))))"

text \<open>The hours to the kickoff, clamped into the range of their column.\<close>

definition clamp_hours :: "pyfloat \<Rightarrow> pyfloat" where
  "clamp_hours h = f_min (f_max h (Fin (- 999999))) (Fin 999999)"

text \<open>The terms of the settlement basis: the stake at the raw price and at the price net of commission.\<close>

definition settlement_basis_terms :: "rat \<Rightarrow> string \<Rightarrow> rat \<Rightarrow> (rat \<times> rat) res" where
  "settlement_basis_terms stake book odds =
     (if stake < 0 then Raise ValueError
      else case effective_odds book (f64 odds) of
          Fin e \<Rightarrow> Ok (dec (stake * odds), dec (stake * repr_float e))
        | _ \<Rightarrow> Raise InvalidOperation)"

text \<open>The checked identities, and \<^verbatim>\<open>Decimal(str(pick.decimal_odds))\<close>.\<close>

definition checked_identities :: "detection \<Rightarrow> (string \<times> string \<times> string option) res" where
  "checked_identities d =
     rbind (require_bounded_identity (dt_selection d) selection_max_bytes False) (\<lambda>sel.
     rbind (require_bounded_identity (dt_book d) bookmaker_max_bytes False) (\<lambda>book.
     rbind (opt_column (\<lambda>s. require_bounded_identity s market_detail_max_bytes True) (dt_detail d)) (\<lambda>detail.
       Ok (sel, book, detail))))"

definition decimal_odds_of :: "detection \<Rightarrow> rat res" where
  "decimal_odds_of d = float_column Ok (dt_odds d)"

text \<open>The stake columns with their basis, as a new or a promoted row has them.\<close>

record stake_row =
  sr_odds :: rat
  sr_fraction :: rat
  sr_amount :: rat
  sr_raw :: rat
  sr_effective :: rat
  sr_basis_book :: "string option"

definition stake_columns :: "detection \<Rightarrow> stake_row res" where
  "stake_columns d =
     rbind (decimal_odds_of d) (\<lambda>odds.
     rbind (settlement_basis_terms (dt_amount d) (dt_book d) odds) (\<lambda>(raw, effective).
     rbind (odds_column odds) (\<lambda>oc.
     rbind (float_column prob_column (dt_fraction d)) (\<lambda>fc.
     rbind (money_column (dt_amount d)) (\<lambda>ac.
     rbind (basis_column raw) (\<lambda>rc.
     rbind (basis_column effective) (\<lambda>ec.
       Ok \<lparr>sr_odds = oc, sr_fraction = fc, sr_amount = ac, sr_raw = rc, sr_effective = ec,
         sr_basis_book = (if dt_amount d > 0 then Some (dt_book d) else None)\<rparr>)))))))"

definition new_row :: "int \<Rightarrow> int \<Rightarrow> time \<Rightarrow> detection \<Rightarrow> stored_pick res" where
  "new_row event version now d =
     rbind (stake_columns d) (\<lambda>s.
     rbind (mint_columns (mi_anchor_book (dt_mint d)) (dt_mint d)) (\<lambda>m.
     rbind (opt_column (six_places metric_column) (map_option clamp_hours (dt_hours d))) (\<lambda>h.
       Ok \<lparr>sp_event = event, sp_version = version, sp_market = dt_market d, sp_detail = dt_detail d,
         sp_selection = dt_selection d, sp_book = dt_book d, sp_odds = sr_odds s, sp_fraction = sr_fraction s,
         sp_amount = sr_amount s, sp_basis_stake = sr_amount s, sp_basis_raw = sr_raw s,
         sp_basis_effective = sr_effective s, sp_basis_book = sr_basis_book s, sp_basis_repriced = False,
         sp_reserved_on = None, sp_reserved = None, sp_breakdown = dt_breakdown d, sp_reason = dt_reason d,
         sp_tier = dt_tier d, sp_status = open_status, sp_created = now, sp_hours = h, sp_mint = m,
         sp_close = no_close\<rparr>)))"

subsection \<open>Recording a pick\<close>

type_synonym book = "stored_pick list"

definition has_key :: "int \<Rightarrow> int \<Rightarrow> detection \<Rightarrow> stored_pick \<Rightarrow> bool" where
  "has_key event version d r = (sp_event r = event \<and> sp_market r = dt_market d \<and> sp_detail r = dt_detail d
     \<and> sp_selection r = dt_selection d \<and> sp_version r = version)"

text \<open>Older versions of the same bet.  A volume pick leaves premium rows alone.\<close>

definition older_version :: "int \<Rightarrow> int \<Rightarrow> detection \<Rightarrow> string \<Rightarrow> stored_pick \<Rightarrow> bool" where
  "older_version event version d tier r = (sp_event r = event \<and> sp_market r = dt_market d \<and> sp_detail r = dt_detail d
     \<and> sp_selection r = dt_selection d \<and> sp_version r \<noteq> version \<and> sp_status r = open_status
     \<and> (tier \<noteq> premium \<longrightarrow> sp_tier r \<noteq> premium))"

definition supersede_older_versions :: "int \<Rightarrow> int \<Rightarrow> detection \<Rightarrow> string \<Rightarrow> book \<Rightarrow> book" where
  "supersede_older_versions event version d tier rows =
     map (\<lambda>r. if older_version event version d tier r then r\<lparr>sp_status := displaced_status\<rparr> else r) rows"

text \<open>Change the rows with the key, of which the constraint allows one.\<close>

definition change_row :: "int \<Rightarrow> int \<Rightarrow> detection \<Rightarrow> (stored_pick \<Rightarrow> stored_pick) \<Rightarrow> book \<Rightarrow> book" where
  "change_row event version d f rows = map (\<lambda>r. if has_key event version d r then f r else r) rows"

datatype persist_outcome = Inserted | Upgraded | Duplicate | Duplicate_Denied | Repriced pyfloat

text \<open>Promotion of a volume row: the row takes the numbers of the detection and forgets the close.\<close>

definition promoted :: "time \<Rightarrow> detection \<Rightarrow> stake_row \<Rightarrow> mint_row \<Rightarrow> stored_pick \<Rightarrow> stored_pick" where
  "promoted now d s m r = r\<lparr>sp_tier := premium, sp_book := dt_book d, sp_odds := sr_odds s,
     sp_fraction := sr_fraction s, sp_amount := sr_amount s, sp_basis_stake := sr_amount s,
     sp_basis_raw := sr_raw s, sp_basis_effective := sr_effective s, sp_basis_book := sr_basis_book s,
     sp_basis_repriced := False, sp_breakdown := dt_breakdown d, sp_reason := dt_reason d, sp_mint := m,
     sp_created := now, sp_close := no_close\<rparr>"

text \<open>A new price or venue: the alert state moves, the settlement basis stays.\<close>

definition repriced :: "detection \<Rightarrow> stake_row \<Rightarrow> mint_row \<Rightarrow> stored_pick \<Rightarrow> stored_pick" where
  "repriced d s m r = r\<lparr>sp_basis_repriced := True, sp_book := dt_book d, sp_odds := sr_odds s,
     sp_fraction := sr_fraction s, sp_amount := sr_amount s, sp_breakdown := dt_breakdown d,
     sp_reason := dt_reason d, sp_mint := m, sp_close := no_close\<rparr>"

definition price_moved :: "detection \<Rightarrow> rat \<Rightarrow> stored_pick \<Rightarrow> bool" where
  "price_moved d odds r = (sp_odds r \<noteq> odds \<or> sp_book r \<noteq> dt_book d)"

definition persist_pick :: "int \<Rightarrow> int \<Rightarrow> time \<Rightarrow> detection \<Rightarrow> book \<Rightarrow> (persist_outcome \<times> book) res" where
  "persist_pick event version now d rows =
     rbind (checked_identities d) (\<lambda>_.
     rbind (opt_column (\<lambda>s. require_bounded_identity s bookmaker_max_bytes False) (mi_anchor_book (dt_mint d))) (\<lambda>_.
     rbind (decimal_odds_of d) (\<lambda>odds.
     rbind (stake_columns d) (\<lambda>s.
     rbind (mint_columns (mi_anchor_book (dt_mint d)) (dt_mint d)) (\<lambda>m.
     rbind (new_row event version now d) (\<lambda>row.
       Ok (case find (has_key event version d) rows of
           None \<Rightarrow> (Inserted, supersede_older_versions event version d (dt_tier d) rows @ [row])
         | Some r \<Rightarrow>
             if dt_tier d = premium \<and> sp_tier r = volume \<and> sp_status r = open_status
             then (Upgraded, supersede_older_versions event version d premium (change_row event version d (promoted now d s m) rows))
             else if sp_fraction r \<le> 0 then (Duplicate_Denied, rows)
             else if dt_tier d = premium \<and> sp_tier r = premium \<and> sp_status r = open_status \<and> price_moved d odds r
             then (Repriced (f64 (sp_fraction r)), change_row event version d (repriced d s m) rows)
             else (Duplicate, rows))))))))"

subsection \<open>Writing the granted stake\<close>

text \<open>The basis of a row after a stake is written: reset to it, or increased by what was newly granted.\<close>

definition reset_basis :: "detection \<Rightarrow> rat \<Rightarrow> stored_pick \<Rightarrow> stored_pick res" where
  "reset_basis d odds r =
     rbind (settlement_basis_terms (dt_amount d) (dt_book d) odds) (\<lambda>(raw, effective).
     rbind (money_column (dt_amount d)) (\<lambda>ac.
     rbind (basis_column raw) (\<lambda>rc.
     rbind (basis_column effective) (\<lambda>ec.
       Ok (r\<lparr>sp_basis_stake := ac, sp_basis_raw := rc, sp_basis_effective := ec,
         sp_basis_book := (if dt_amount d > 0 then Some (dt_book d) else None), sp_basis_repriced := False\<rparr>)))))"

definition increase_basis :: "detection \<Rightarrow> rat \<Rightarrow> rat \<Rightarrow> stored_pick \<Rightarrow> stored_pick res" where
  "increase_basis d odds increment r =
     (if increment < 0 then Raise ValueError
      else if increment > 0 then
        rbind (settlement_basis_terms increment (dt_book d) odds) (\<lambda>(raw, effective).
        rbind (money_column (dec (sp_basis_stake r + increment))) (\<lambda>sc.
        rbind (basis_column (dec (sp_basis_raw r + raw))) (\<lambda>rc.
        rbind (basis_column (dec (sp_basis_effective r + effective))) (\<lambda>ec.
          Ok (r\<lparr>sp_basis_stake := sc, sp_basis_raw := rc, sp_basis_effective := ec,
            sp_basis_book := (if sp_basis_stake r \<le> 0 then Some (dt_book d)
                              else if sp_basis_book r \<noteq> Some (dt_book d) then None
                              else sp_basis_book r)\<rparr>)))))
      else Ok r)"

text \<open>The durable charge of the day, which the ledger is seeded from after a restart.\<close>

definition charge_day :: "day option \<Rightarrow> pyfloat \<Rightarrow> stored_pick \<Rightarrow> stored_pick res" where
  "charge_day on delta r =
     (if f_lt delta (Fin 0) then Raise ValueError
      else case on of
          None \<Rightarrow> Ok r
        | Some day \<Rightarrow>
            if \<not> f_lt (Fin 0) delta then Ok r
            else rbind (float_column Ok delta) (\<lambda>x.
              if sp_reserved_on r = Some day
              then rmap (\<lambda>c. r\<lparr>sp_reserved := Some c\<rparr>)
                (prob_column (dec ((case sp_reserved r of None \<Rightarrow> 0 | Some y \<Rightarrow> y) + x)))
              else rmap (\<lambda>c. r\<lparr>sp_reserved_on := Some day, sp_reserved := Some c\<rparr>) (prob_column x)))"

definition restaked :: "detection \<Rightarrow> bool \<Rightarrow> day option \<Rightarrow> pyfloat \<Rightarrow> rat option \<Rightarrow> stored_pick \<Rightarrow> stored_pick res" where
  "restaked d persist_tier on delta increment r =
     rbind (float_column prob_column (dt_fraction d)) (\<lambda>fc.
     rbind (money_column (dt_amount d)) (\<lambda>ac.
     rbind (decimal_odds_of d) (\<lambda>odds.
     rbind (case increment of
              None \<Rightarrow> reset_basis d odds (r\<lparr>sp_fraction := fc, sp_amount := ac, sp_breakdown := dt_breakdown d\<rparr>)
            | Some i \<Rightarrow> increase_basis d odds i (r\<lparr>sp_fraction := fc, sp_amount := ac, sp_breakdown := dt_breakdown d\<rparr>)) (\<lambda>r1.
     rbind (charge_day on delta r1) (\<lambda>r2.
       Ok (if persist_tier then r2\<lparr>sp_tier := dt_tier d, sp_reason := dt_reason d\<rparr> else r2))))))"

definition update_pick_stake :: "int \<Rightarrow> int \<Rightarrow> detection \<Rightarrow> bool \<Rightarrow> day option \<Rightarrow> pyfloat \<Rightarrow> rat option \<Rightarrow> book \<Rightarrow>
    (bool \<times> book) res" where
  "update_pick_stake event version d persist_tier on delta increment rows =
     rbind (checked_identities d) (\<lambda>_.
       case find (has_key event version d) rows of
         None \<Rightarrow> Ok (False, rows)
       | Some r \<Rightarrow> rmap (\<lambda>r'. (True, change_row event version d (\<lambda>_. r') rows)) (restaked d persist_tier on delta increment r))"

subsection \<open>One transaction\<close>

text \<open>The granted stake replaces the recommended one.\<close>

definition with_stake :: "detection \<Rightarrow> pyfloat \<Rightarrow> rat \<Rightarrow> bool \<Rightarrow> detection" where
  "with_stake d whole amount clipped = d\<lparr>dt_fraction := whole, dt_amount := amount,
     dt_breakdown := (dt_breakdown d)\<lparr>bo_final := whole, bo_daily_clipped := clipped\<rparr>\<rparr>"

definition stake_zero_note :: string where
  "stake_zero_note = '' | stake_zero: daily exposure cap granted 0 '' @ [CHR 0xE2, CHR 0x80, CHR 0x94] @ '' demoted to volume''"

definition demoted :: "detection \<Rightarrow> rat \<Rightarrow> detection" where
  "demoted d amount = (with_stake d (Fin 0) amount True)\<lparr>dt_tier := volume, dt_reason := dt_reason d @ stake_zero_note\<rparr>"

datatype where_it_fails = Nowhere | In_Persist | In_Update | In_Commit

definition previous_stake :: "persist_outcome \<Rightarrow> pyfloat" where
  "previous_stake oc = (case oc of Repriced p \<Rightarrow> p | _ \<Rightarrow> Fin 0)"

definition requested_stake :: "persist_outcome \<Rightarrow> pyfloat \<Rightarrow> pyfloat" where
  "requested_stake oc final_stake = (case oc of Repriced p \<Rightarrow> f_max (f_sub final_stake p) (Fin 0) | _ \<Rightarrow> final_stake)"

definition total_stake :: "persist_outcome \<Rightarrow> pyfloat \<Rightarrow> pyfloat" where
  "total_stake oc granted = (case oc of Repriced p \<Rightarrow> f_add p granted | _ \<Rightarrow> granted)"

definition is_repriced :: "persist_outcome \<Rightarrow> bool" where
  "is_repriced oc = (case oc of Repriced _ \<Rightarrow> True | _ \<Rightarrow> False)"

text \<open>What follows the grant up to the commit: the pick to announce, if any, and the rows.\<close>

definition write_grant :: "int \<Rightarrow> int \<Rightarrow> rat \<Rightarrow> time \<Rightarrow> detection \<Rightarrow> pyfloat \<Rightarrow> persist_outcome \<Rightarrow> pyfloat \<Rightarrow> book \<Rightarrow>
    (detection option \<times> book) res" where
  "write_grant event version bankroll now d final_stake oc granted rows =
     (let whole = total_stake oc granted in
      if f_le whole (Fin 0) \<and> \<not> is_repriced oc then
        rbind (stake_amount (Fin 0) bankroll) (\<lambda>zero.
        rbind (update_pick_stake event version (demoted d zero) True None (Fin 0) None rows) (\<lambda>(updated, rows1).
          if updated then Ok (None, rows1) else Raise RuntimeError))
      else
        rbind (if \<not> f_eq whole final_stake \<or> is_repriced oc
               then rmap (\<lambda>a. with_stake d whole a (f_lt whole final_stake)) (stake_amount whole bankroll)
               else Ok d) (\<lambda>staked.
        rbind (if is_repriced oc then rmap Some (stake_amount granted bankroll) else Ok None) (\<lambda>increment.
        rbind (update_pick_stake event version staked False (Some (day_of now)) granted increment rows) (\<lambda>(updated, rows1).
          if updated then Ok (Some staked, rows1) else Raise RuntimeError))))"

datatype report = Unpersisted | Stored persist_outcome

text \<open>After a failure the session is gone with its changes, and what was granted is handed back.\<close>

definition hand_back :: "day \<Rightarrow> pyfloat \<Rightarrow> string \<Rightarrow> ledger \<Rightarrow> ledger" where
  "hand_back day granted ref l =
     (if f_lt (Fin 0) granted then (case release l day granted (Some ref) of Inr l' \<Rightarrow> l' | Inl _ \<Rightarrow> l) else l)"

text \<open>The directory of a cycle: absent when persistence is not configured, and silent on an event it does not
  know; otherwise the ids of the event and of the version.\<close>

type_synonym directory = "(detection \<Rightarrow> (int \<times> int) option) option"

definition persist_and_reserve :: "directory \<Rightarrow> rat \<Rightarrow> where_it_fails \<Rightarrow> time \<Rightarrow> detection \<Rightarrow> pyfloat \<Rightarrow> string \<Rightarrow>
    ledger \<Rightarrow> book \<Rightarrow> (report \<times> detection option) \<times> ledger \<times> book" where
  "persist_and_reserve dir bankroll fault now d final_stake ref l rows = (case dir of
     None \<Rightarrow> ((Unpersisted, Some d), l, rows)
   | Some known \<Rightarrow> (case known d of
       None \<Rightarrow> ((Unpersisted, None), l, rows)
     | Some (event, version) \<Rightarrow>
      (case (if fault = In_Persist then Raise DatabaseError else persist_pick event version now d rows) of
        Inl _ \<Rightarrow> ((Unpersisted, None), l, rows)
      | Inr (oc, rows1) \<Rightarrow>
          if oc = Duplicate_Denied \<or> oc = Duplicate then
            (if fault = In_Commit then ((Unpersisted, None), l, rows)
             else ((Stored oc, if oc = Duplicate then Some d else None), l, rows1))
          else (case reserve l (day_of now) (requested_stake oc final_stake) (Some ref) of
            Inl _ \<Rightarrow> ((Unpersisted, None), l, rows)
          | Inr (l1, granted) \<Rightarrow>
             (case (if fault = In_Update then Raise DatabaseError
                    else write_grant event version bankroll now d final_stake oc granted rows1) of
                Inl _ \<Rightarrow> ((Unpersisted, None), hand_back (day_of now) granted ref l1, rows)
              | Inr (staked, rows2) \<Rightarrow>
                  if fault = In_Commit then ((Unpersisted, None), hand_back (day_of now) granted ref l1, rows)
                  else ((Stored oc, staked), l1, rows2))))))"

text \<open>Volume picks are recorded without a reservation.\<close>

definition maybe_persist :: "directory \<Rightarrow> where_it_fails \<Rightarrow> time \<Rightarrow> detection \<Rightarrow> book \<Rightarrow> report \<times> book" where
  "maybe_persist dir fault now d rows = (case dir of
     None \<Rightarrow> (Unpersisted, rows)
   | Some known \<Rightarrow> (case known d of
       None \<Rightarrow> (Unpersisted, rows)
     | Some (event, version) \<Rightarrow>
        (case (if fault = Nowhere then persist_pick event version now d rows else Raise DatabaseError) of
          Inl _ \<Rightarrow> (Unpersisted, rows)
        | Inr (oc, rows1) \<Rightarrow> (Stored oc, rows1))))"

subsection \<open>The tier of an edge\<close>

definition pick_tier :: "pyfloat \<Rightarrow> pyfloat \<Rightarrow> pyfloat \<Rightarrow> string option" where
  "pick_tier edge premium_min_edge volume_min_edge =
     (if f_le premium_min_edge edge then Some premium
      else if f_le volume_min_edge edge then Some volume
      else None)"

subsection \<open>Funding the premium candidates of a cycle\<close>

text \<open>A candidate: the detection, its stake breakdown and the reference of its event.\<close>

type_synonym candidate = "detection \<times> stake_breakdown \<times> string"

text \<open>\<^verbatim>\<open>f"{x:.3f}"\<close> for a nonnegative finite number.\<close>

definition show_3f :: "rat \<Rightarrow> string" where
  "show_3f x = (let n = nat (round_half_even (x * 1000)) in
     show_nat (n div 1000) @ ''.'' @ map (\<lambda>k. char_of (48 + k)) [n div 100 mod 10, n div 10 mod 10, n mod 10])"

definition haircut_note :: "pyfloat \<Rightarrow> string" where
  "haircut_note f = '' | same-event correlation haircut x'' @ (case f of Fin x \<Rightarrow> show_3f x | _ \<Rightarrow> [])"

definition haircut_one :: "rat \<Rightarrow> (string \<times> pyfloat) list \<Rightarrow> candidate \<Rightarrow> candidate res" where
  "haircut_one bankroll multipliers c = (case c of (d, bd, ref) \<Rightarrow>
     (case map_of multipliers ref of
        None \<Rightarrow> Raise KeyError
      | Some f \<Rightarrow>
          if f_lt f (Fin 1) \<and> f_lt (Fin 0) (final bd) then
            (let cut = f_mul (final bd) f in
             rmap (\<lambda>a. (d\<lparr>dt_fraction := cut, dt_amount := a, dt_breakdown := (dt_breakdown d)\<lparr>bo_final := cut\<rparr>,
                         dt_reason := dt_reason d @ haircut_note f\<rparr>, bd\<lparr>final := cut\<rparr>, ref))
               (stake_amount cut bankroll))
          else Ok c))"

definition haircut_candidates :: "rat \<Rightarrow> pyfloat \<Rightarrow> candidate list \<Rightarrow> candidate list res" where
  "haircut_candidates bankroll rho cs =
     (if f_lt (Fin 0) rho \<and> cs \<noteq> [] then
        rbind (same_event_stake_multipliers
                 (map (\<lambda>(d, bd, ref). ref) (filter (\<lambda>(d, bd, ref). f_lt (Fin 0) (final bd)) cs)) rho) (\<lambda>multipliers.
          rmapM (haircut_one bankroll multipliers) cs)
      else Ok cs)"

text \<open>\<^verbatim>\<open>sort(key, reverse=True)\<close>, which keeps the order of equal keys.\<close>

definition by_growth :: "candidate list \<Rightarrow> candidate list" where
  "by_growth cs = rev (sort_key (\<lambda>(d, bd, ref). raw_kelly bd) (rev cs))"

record alert =
  al_pick :: detection
  al_correlated :: bool
  al_repriced :: bool

record funding =
  fu_picks :: "detection list"
  fu_alerts :: "alert list"
  fu_withheld :: nat

definition no_funding :: funding where
  "no_funding = \<lparr>fu_picks = [], fu_alerts = [], fu_withheld = 0\<rparr>"

definition fund_one :: "directory \<Rightarrow> rat \<Rightarrow> where_it_fails \<Rightarrow> time \<Rightarrow> candidate \<Rightarrow>
    funding \<times> ledger \<times> book \<Rightarrow> funding \<times> ledger \<times> book" where
  "fund_one dir bankroll fault now c s = (case (c, s) of ((d, bd, ref), (fu, l, rows)) \<Rightarrow>
     (let prior = event_used l (day_of now) ref in
      case persist_and_reserve dir bankroll fault now d (final bd) ref l rows of
        ((oc, staked), l1, rows1) \<Rightarrow>
          (if oc = Unpersisted \<and> dir \<noteq> None then (fu\<lparr>fu_withheld := Suc (fu_withheld fu)\<rparr>, l1, rows1)
           else case staked of
               None \<Rightarrow> (fu, l1, rows1)
             | Some p \<Rightarrow>
                 (fu\<lparr>fu_picks := (if oc \<in> {Stored Inserted, Stored Upgraded, Unpersisted} then fu_picks fu @ [p] else fu_picks fu),
                     fu_alerts := fu_alerts fu @ [\<lparr>al_pick = p, al_correlated = f_lt (Fin 0) prior,
                        al_repriced = (case oc of Stored o1 \<Rightarrow> is_repriced o1 | Unpersisted \<Rightarrow> False)\<rparr>]\<rparr>, l1, rows1))))"

text \<open>The candidates with what goes wrong in the transaction of each.\<close>

fun fund_all :: "directory \<Rightarrow> rat \<Rightarrow> time \<Rightarrow> (candidate \<times> where_it_fails) list \<Rightarrow> funding \<times> ledger \<times> book \<Rightarrow> funding \<times> ledger \<times> book" where
  "fund_all dir bankroll now [] s = s"
| "fund_all dir bankroll now ((c, fault) # rest) s = fund_all dir bankroll now rest (fund_one dir bankroll fault now c s)"

definition fund_premium :: "directory \<Rightarrow> rat \<Rightarrow> pyfloat \<Rightarrow> time \<Rightarrow> (nat \<Rightarrow> where_it_fails) \<Rightarrow> candidate list \<Rightarrow> ledger \<Rightarrow> book \<Rightarrow>
    (funding \<times> ledger \<times> book) res" where
  "fund_premium dir bankroll rho now faults cs l rows =
     rmap (\<lambda>cut. fund_all dir bankroll now (map (\<lambda>(i, c). (c, faults i)) (enumerate 0 (by_growth cut))) (no_funding, l, rows))
       (haircut_candidates bankroll rho cs)"

subsection \<open>Seeding the ledger\<close>

definition charged_today :: "day \<Rightarrow> stored_pick \<Rightarrow> bool" where
  "charged_today day r = (sp_tier r = premium
     \<and> (sp_reserved_on r = Some day \<or> sp_reserved_on r = None \<and> day_of (sp_created r) = day))"

definition exposure_charge :: "day \<Rightarrow> stored_pick \<Rightarrow> rat" where
  "exposure_charge day r =
     (if sp_reserved_on r = Some day then (case sp_reserved r of None \<Rightarrow> 0 | Some x \<Rightarrow> x)
      else if sp_reserved_on r = None \<and> day_of (sp_created r) = day then sp_fraction r else 0)"

definition day_charges :: "day \<Rightarrow> book \<Rightarrow> rat" where
  "day_charges day rows = sum_list (map (exposure_charge day) (filter (charged_today day) rows))"

definition seed_events :: "day \<Rightarrow> (int \<Rightarrow> string) \<Rightarrow> book \<Rightarrow> (string \<times> rat) list" where
  "seed_events day ref_of rows = (let today = filter (charged_today day) rows in
     map (\<lambda>ref. (ref, day_charges day (filter (\<lambda>r. ref_of (sp_event r) = ref) today)))
       (dedup_onto [] (map (ref_of \<circ> sp_event) today)))"

fun preload_events :: "day \<Rightarrow> (string \<times> rat) list \<Rightarrow> ledger \<Rightarrow> ledger res" where
  "preload_events day [] l = Ok l"
| "preload_events day ((ref, x) # rest) l = rbind (preload_event l day ref (f64 x)) (preload_events day rest)"

definition seed_exposure_ledger :: "time \<Rightarrow> (int \<Rightarrow> string) \<Rightarrow> book \<Rightarrow> ledger \<Rightarrow> ledger res" where
  "seed_exposure_ledger now ref_of rows l = (let day = day_of now in
     rbind (preload l day (f64 (day_charges day rows))) (\<lambda>l1.
       if max_event_fraction l = None then Ok l1 else preload_events day (seed_events day ref_of rows) l1))"

end
