(* ===== verification/PickFacts.thy ===== *)
theory PickFacts
  imports PickStore
begin

text \<open>
  Facts about recording picks: columns, the row with a key, what a transaction does to the durable charges of a
  day, and the invariant of the table.
\<close>

subsection \<open>Columns\<close>

lemma round_half_up_error: "\<bar>of_int (round_half_up x) - x\<bar> \<le> 1 / 2"
proof (cases "0 \<le> x")
  case True
  have "\<bar>of_int \<lfloor>x + 1 / 2\<rfloor> - x\<bar> \<le> 1 / 2" by linarith
  then show ?thesis using True by (simp add: round_half_up_def)
next
  case False
  have "\<bar>- of_int \<lfloor>- x + 1 / 2\<rfloor> - x\<bar> \<le> 1 / 2" by linarith
  then show ?thesis using False by (simp add: round_half_up_def)
qed

lemma round_half_up_int [simp]: "round_half_up (of_int n) = n"
proof (cases "0 \<le> n")
  case True
  have "\<lfloor>of_int n + 1 / 2 :: rat\<rfloor> = n" by linarith
  then show ?thesis using True by (simp add: round_half_up_def)
next
  case False
  have "\<lfloor>- of_int n + 1 / 2 :: rat\<rfloor> = - n" by linarith
  then show ?thesis using False by (simp add: round_half_up_def)
qed

lemma round_half_up_mono: "x \<le> y \<Longrightarrow> round_half_up x \<le> round_half_up y"
proof -
  assume le: "x \<le> y"
  show ?thesis
  proof (cases "0 \<le> x")
    case True
    then show ?thesis using le by (simp add: round_half_up_def floor_mono)
  next
    case False
    have x: "0 \<le> \<lfloor>- x + 1 / 2\<rfloor>" using False by simp
    show ?thesis
    proof (cases "0 \<le> y")
      case True
      then have "0 \<le> round_half_up y" by (simp add: round_half_up_def)
      moreover have "round_half_up x = - \<lfloor>- x + 1 / 2\<rfloor>" using False by (simp add: round_half_up_def)
      ultimately show ?thesis using x by linarith
    next
      case y: False
      then show ?thesis using False le floor_mono [of "- y + 1 / 2" "- x + 1 / 2"] by (simp add: round_half_up_def)
    qed
  qed
qed

definition on_grid :: "nat \<Rightarrow> rat \<Rightarrow> bool" where
  "on_grid s x \<longleftrightarrow> of_int \<lfloor>x * 10 ^ s\<rfloor> = x * 10 ^ s"

lemma on_grid_iff: "on_grid s x \<longleftrightarrow> (\<exists>n. x * 10 ^ s = of_int n)"
  unfolding on_grid_def by (metis floor_of_int)

lemma on_gridE: assumes "on_grid s x" obtains n where "x = of_int n / 10 ^ s"
proof -
  obtain n where "x * 10 ^ s = of_int n" using assms by (auto simp: on_grid_iff)
  then have "x = of_int n / 10 ^ s" by (simp add: field_simps)
  then show thesis by (rule that)
qed

lemma on_gridI [intro]: "on_grid s (of_int n / 10 ^ s)"
  by (auto simp: on_grid_iff)

lemma on_grid_add: "on_grid s x \<Longrightarrow> on_grid s y \<Longrightarrow> on_grid s (x + y)"
proof -
  assume "on_grid s x" "on_grid s y"
  then obtain m n where "x * 10 ^ s = of_int m" "y * 10 ^ s = of_int n" by (auto simp: on_grid_iff)
  then have "(x + y) * 10 ^ s = of_int (m + n)" by (simp add: distrib_right)
  then show ?thesis unfolding on_grid_iff by blast
qed

lemma on_grid_0 [simp]: "on_grid s 0"
  unfolding on_grid_iff by (rule exI [of _ 0]) simp

lemma on_grid_finer: "on_grid s x \<Longrightarrow> s \<le> t \<Longrightarrow> on_grid t x"
proof -
  assume g: "on_grid s x" "s \<le> t"
  obtain n where "x * 10 ^ s = of_int n" using g(1) by (auto simp: on_grid_iff)
  then have "x * 10 ^ t = of_int (n * 10 ^ (t - s))" using g(2) by (simp add: mult.assoc flip: power_add)
      (metis g(2) le_add_diff_inverse mult.assoc power_add)
  then show ?thesis unfolding on_grid_iff by blast
qed

lemma numeric_Ok: "numeric p s x = Ok c \<Longrightarrow> on_grid s c \<and> \<bar>c - x\<bar> \<le> 1 / (2 * 10 ^ s)"
proof -
  assume "numeric p s x = Ok c"
  then have c: "c = of_int (round_half_up (x * 10 ^ s)) / 10 ^ s" by (simp add: numeric_def Let_def split: if_splits)
  have pos: "(0 :: rat) < 10 ^ s" by simp
  have "c - x = (of_int (round_half_up (x * 10 ^ s)) - x * 10 ^ s) / 10 ^ s" unfolding c using pos by (simp add: diff_divide_distrib)
  then have "\<bar>c - x\<bar> = \<bar>of_int (round_half_up (x * 10 ^ s)) - x * 10 ^ s\<bar> / 10 ^ s" using pos by simp
  also have "\<dots> \<le> (1 / 2) / 10 ^ s" using round_half_up_error [of "x * 10 ^ s"] pos by (intro divide_right_mono) simp_all
  finally show ?thesis unfolding c using on_gridI by simp
qed

lemma numeric_grid: "on_grid s x \<Longrightarrow> numeric p s x = Ok c \<Longrightarrow> c = x"
  by (erule on_gridE) (simp add: numeric_def split: if_splits)

lemma numeric_mono: "numeric p s x = Ok a \<Longrightarrow> numeric q s y = Ok b \<Longrightarrow> x \<le> y \<Longrightarrow> a \<le> b"
  using round_half_up_mono [of "x * 10 ^ s" "y * 10 ^ s"]
  by (auto simp: numeric_def Let_def divide_right_mono mult_right_mono split: if_splits)

lemma numeric_ge: "numeric p s x = Ok a \<Longrightarrow> on_grid s y \<Longrightarrow> y \<le> x \<Longrightarrow> y \<le> a"
proof (erule on_gridE)
  fix n assume a: "numeric p s x = Ok a" and y: "y = of_int n / 10 ^ s" "y \<le> x"
  have "y * 10 ^ s \<le> x * 10 ^ s" using y(2) by (intro mult_right_mono) simp_all
  then have "of_int n \<le> x * 10 ^ s" using y(1) by simp
  then have "n \<le> round_half_up (x * 10 ^ s)" using round_half_up_mono [of "of_int n" "x * 10 ^ s"] by simp
  then show "y \<le> a" using a y(1) by (auto simp: numeric_def Let_def divide_right_mono split: if_splits)
qed

lemma numeric_le: "numeric p s x = Ok a \<Longrightarrow> on_grid s y \<Longrightarrow> x \<le> y \<Longrightarrow> a \<le> y"
proof (erule on_gridE)
  fix n assume a: "numeric p s x = Ok a" and y: "y = of_int n / 10 ^ s" "x \<le> y"
  have "x * 10 ^ s \<le> y * 10 ^ s" using y(2) by (intro mult_right_mono) simp_all
  then have "x * 10 ^ s \<le> of_int n" using y(1) by simp
  then have "round_half_up (x * 10 ^ s) \<le> n" using round_half_up_mono [of "x * 10 ^ s" "of_int n"] by simp
  then show "a \<le> y" using a y(1) by (auto simp: numeric_def Let_def divide_right_mono split: if_splits)
qed

lemma numeric_bound: "numeric p s x = Ok a \<Longrightarrow> \<bar>a\<bar> < 10 ^ p / 10 ^ s"
proof -
  assume "numeric p s x = Ok a"
  then have a: "a = of_int (round_half_up (x * 10 ^ s)) / 10 ^ s" "\<bar>round_half_up (x * 10 ^ s)\<bar> < 10 ^ p"
    by (auto simp: numeric_def Let_def split: if_splits)
  have "(of_int \<bar>round_half_up (x * 10 ^ s)\<bar> :: rat) < of_int (10 ^ p)" using a(2) by (simp only: of_int_less_iff)
  then show ?thesis unfolding a(1) by (simp add: divide_strict_right_mono)
qed

lemma numeric_0 [simp]: "numeric p s 0 = Ok 0"
  using round_half_up_int [of 0] by (simp add: numeric_def Let_def)

subsection \<open>The row with a key\<close>

type_synonym pick_key = "int \<times> string \<times> string option \<times> string \<times> int"

definition key_of :: "stored_pick \<Rightarrow> pick_key" where
  "key_of r = (sp_event r, sp_market r, sp_detail r, sp_selection r, sp_version r)"

definition detection_key :: "int \<Rightarrow> int \<Rightarrow> detection \<Rightarrow> pick_key" where
  "detection_key event version d = (event, dt_market d, dt_detail d, dt_selection d, version)"

lemma has_key_iff: "has_key event version d r \<longleftrightarrow> key_of r = detection_key event version d"
  by (auto simp: has_key_def key_of_def detection_key_def)

definition unique_keys :: "book \<Rightarrow> bool" where
  "unique_keys rows \<longleftrightarrow> distinct (map key_of rows)"

lemma unique_key_row: "unique_keys rows \<Longrightarrow> r \<in> set rows \<Longrightarrow> q \<in> set rows \<Longrightarrow> key_of r = key_of q \<Longrightarrow> r = q"
  unfolding unique_keys_def by (metis distinct_map inj_onD)

lemma find_key_Some:
  "find (has_key event version d) rows = Some r \<Longrightarrow> r \<in> set rows \<and> has_key event version d r"
  by (auto simp: find_Some_iff)

lemma find_key_None: "find (has_key event version d) rows = None \<Longrightarrow> r \<in> set rows \<Longrightarrow> \<not> has_key event version d r"
  by (auto simp: find_None_iff)

text \<open>Changing the row with a key and closing older versions, row by row.\<close>

lemma change_row_simps [simp]:
  "change_row event version d f [] = []"
  "change_row event version d f (r # rows) = (if has_key event version d r then f r else r) # change_row event version d f rows"
  by (simp_all add: change_row_def)

lemma change_row_mem:
  "q \<in> set (change_row event version d f rows) \<longleftrightarrow>
     (\<exists>r \<in> set rows. q = (if has_key event version d r then f r else r))"
  by (auto simp: change_row_def)

lemma supersede_mem:
  "q \<in> set (supersede_older_versions event version d tier rows) \<longleftrightarrow>
     (\<exists>r \<in> set rows. q = (if older_version event version d tier r then r\<lparr>sp_status := displaced_status\<rparr> else r))"
  unfolding supersede_older_versions_def by (simp only: set_map image_iff)

lemma key_status [simp]: "key_of (r\<lparr>sp_status := s\<rparr>) = key_of r"
  by (simp add: key_of_def)

lemma supersede_keys [simp]: "map key_of (supersede_older_versions event version d tier rows) = map key_of rows"
  by (simp add: supersede_older_versions_def)

lemma change_row_keys: "(\<And>r. key_of (f r) = key_of r) \<Longrightarrow> map key_of (change_row event version d f rows) = map key_of rows"
  by (simp add: change_row_def)

lemma change_known_keys: "key_of r' = detection_key event version d \<Longrightarrow>
    map key_of (change_row event version d (\<lambda>_. r') rows) = map key_of rows"
  by (simp add: change_row_def has_key_iff)

lemma find_changed:
  assumes "\<And>r. key_of (f r) = key_of r"
  shows "find (has_key event version d) (change_row event version d f rows) = map_option f (find (has_key event version d) rows)"
proof (induction rows)
  case (Cons r rows)
  have "has_key event version d (f r) = has_key event version d r" unfolding has_key_iff assms ..
  then show ?case using Cons by (cases "has_key event version d r") simp_all
qed simp

lemma find_superseded:
  "find (has_key event version d) (supersede_older_versions event version d tier rows) = find (has_key event version d) rows"
proof (induction rows)
  case (Cons r rows)
  have "has_key event version d r \<Longrightarrow> \<not> older_version event version d tier r" by (auto simp: has_key_def older_version_def)
  then show ?case using Cons by (auto simp: supersede_older_versions_def has_key_iff)
qed (simp add: supersede_older_versions_def)

subsection \<open>Charges\<close>

definition charge_of :: "day \<Rightarrow> stored_pick \<Rightarrow> rat" where
  "charge_of day r = (if charged_today day r then exposure_charge day r else 0)"

lemma day_charges_sum: "day_charges day rows = sum_list (map (charge_of day) rows)"
  unfolding day_charges_def by (induction rows) (simp_all add: charge_of_def)

lemma charge_status [simp]: "charge_of day (r\<lparr>sp_status := s\<rparr>) = charge_of day r"
  by (auto simp: charge_of_def charged_today_def exposure_charge_def)

lemma supersede_charges [simp]: "day_charges day (supersede_older_versions event version d tier rows) = day_charges day rows"
  by (simp add: day_charges_sum supersede_older_versions_def comp_def if_distrib cong: if_cong)

lemma charges_append [simp]: "day_charges day (rows @ rows') = day_charges day rows + day_charges day rows'"
  by (simp add: day_charges_sum)

lemma change_charges:
  assumes "unique_keys rows" "find (has_key event version d) rows = Some r"
  shows "day_charges day (change_row event version d f rows) = day_charges day rows - charge_of day r + charge_of day (f r)"
  using assms
proof (induction rows)
  case (Cons q rows)
  have d: "unique_keys rows" "key_of q \<notin> key_of ` set rows" using Cons.prems(1) by (auto simp: unique_keys_def)
  show ?case
  proof (cases "has_key event version d q")
    case True
    then have "\<not> has_key event version d x" if "x \<in> set rows" for x
      using d(2) that True unfolding has_key_iff by (metis imageI)
    then have "change_row event version d f rows = rows" unfolding change_row_def by (simp add: map_idI)
    then show ?thesis using True Cons.prems(2) by (simp add: day_charges_sum)
  next
    case False
    then show ?thesis using Cons.IH [OF d(1)] Cons.prems(2) by (simp add: day_charges_sum)
  qed
qed simp

subsection \<open>What the operations do, case by case\<close>

lemma persist_cases:
  assumes "persist_pick event version now d rows = Ok (oc, rows')"
  obtains (insert) row where "oc = Inserted" "find (has_key event version d) rows = None"
      "new_row event version now d = Ok row" "rows' = supersede_older_versions event version d (dt_tier d) rows @ [row]"
    | (upgrade) r s m where "oc = Upgraded" "find (has_key event version d) rows = Some r" "dt_tier d = premium"
      "sp_tier r = volume" "sp_status r = open_status" "stake_columns d = Ok s"
      "rows' = supersede_older_versions event version d premium (change_row event version d (promoted now d s m) rows)"
    | (denied) r where "oc = Duplicate_Denied" "find (has_key event version d) rows = Some r" "sp_fraction r \<le> 0" "rows' = rows"
    | (reprice) r s m odds where "oc = Repriced (f64 (sp_fraction r))" "find (has_key event version d) rows = Some r"
      "dt_tier d = premium" "sp_tier r = premium" "sp_status r = open_status" "stake_columns d = Ok s"
      "decimal_odds_of d = Ok odds" "price_moved d odds r" "rows' = change_row event version d (repriced d s m) rows"
    | (duplicate) r where "oc = Duplicate" "find (has_key event version d) rows = Some r" "rows' = rows"
proof -
  obtain odds s m row where p: "decimal_odds_of d = Ok odds" "stake_columns d = Ok s" "new_row event version now d = Ok row"
    "(case find (has_key event version d) rows of
           None \<Rightarrow> (Inserted, supersede_older_versions event version d (dt_tier d) rows @ [row])
         | Some r \<Rightarrow>
             if dt_tier d = premium \<and> sp_tier r = volume \<and> sp_status r = open_status
             then (Upgraded, supersede_older_versions event version d premium (change_row event version d (promoted now d s m) rows))
             else if sp_fraction r \<le> 0 then (Duplicate_Denied, rows)
             else if dt_tier d = premium \<and> sp_tier r = premium \<and> sp_status r = open_status \<and> price_moved d odds r
             then (Repriced (f64 (sp_fraction r)), change_row event version d (repriced d s m) rows)
             else (Duplicate, rows)) = (oc, rows')"
    using assms by (auto simp: persist_pick_def rbind_Ok_iff)
  show thesis
  proof (cases "find (has_key event version d) rows")
    case None
    then show thesis using insert p by simp
  next
    case (Some r)
    then show thesis
      using p upgrade [OF _ Some, of s m] denied [OF _ Some] reprice [OF _ Some, of s odds m] duplicate [OF _ Some]
      by (simp split: if_splits)
  qed
qed

lemma new_row_facts:
  assumes "new_row event version now d = Ok row"
  shows "key_of row = detection_key event version d" "sp_tier row = dt_tier d" "sp_status row = open_status"
    "sp_reserved_on row = None" "sp_created row = now" "sp_close row = no_close"
    "\<exists>s. stake_columns d = Ok s \<and> sp_basis_stake row = sr_amount s \<and> sp_basis_raw row = sr_raw s \<and> sp_basis_effective row = sr_effective s"
  using assms by (auto simp: new_row_def rbind_Ok_iff key_of_def detection_key_def)

lemma key_changes [simp]:
  "key_of (promoted now d s m r) = key_of r" "key_of (repriced d s m r) = key_of r"
  by (simp_all add: key_of_def promoted_def repriced_def)

lemma has_key_stake [simp]:
  "has_key event version (with_stake d x a b) = has_key event version d"
  "has_key event version (demoted d a) = has_key event version d"
  by (intro ext; simp add: has_key_def with_stake_def demoted_def)+

text \<open>What a new stake leaves alone.\<close>

lemma basis_other:
  "reset_basis d odds r = Ok r' \<Longrightarrow> key_of r' = key_of r \<and> sp_tier r' = sp_tier r \<and> sp_status r' = sp_status r
     \<and> sp_created r' = sp_created r \<and> sp_close r' = sp_close r \<and> sp_reserved_on r' = sp_reserved_on r
     \<and> sp_reserved r' = sp_reserved r \<and> sp_fraction r' = sp_fraction r"
  "increase_basis d odds i r = Ok r' \<Longrightarrow> key_of r' = key_of r \<and> sp_tier r' = sp_tier r \<and> sp_status r' = sp_status r
     \<and> sp_created r' = sp_created r \<and> sp_close r' = sp_close r \<and> sp_reserved_on r' = sp_reserved_on r
     \<and> sp_reserved r' = sp_reserved r \<and> sp_fraction r' = sp_fraction r"
  by (auto simp: reset_basis_def increase_basis_def rbind_Ok_iff key_of_def split: if_splits)

lemma charge_dayE:
  assumes "charge_day on delta r = Ok r'"
  obtains (free) "r' = r" "on = None \<or> \<not> f_lt (Fin 0) delta"
    | (more) day x c where "on = Some day" "f_lt (Fin 0) delta" "float_column Ok delta = Ok x" "sp_reserved_on r = Some day"
      "prob_column (dec ((case sp_reserved r of None \<Rightarrow> 0 | Some y \<Rightarrow> y) + x)) = Ok c" "r' = r\<lparr>sp_reserved := Some c\<rparr>"
    | (first) day x c where "on = Some day" "f_lt (Fin 0) delta" "float_column Ok delta = Ok x" "sp_reserved_on r \<noteq> Some day"
      "prob_column x = Ok c" "r' = r\<lparr>sp_reserved_on := Some day, sp_reserved := Some c\<rparr>"
proof -
  have nn: "\<not> f_lt delta (Fin 0)" using assms by (simp add: charge_day_def split: if_splits)
  show thesis
  proof (cases "on = None \<or> \<not> f_lt (Fin 0) delta")
    case True
    then show thesis using free assms nn by (cases on) (simp_all add: charge_day_def)
  next
    case False
    then obtain day where d: "on = Some day" "f_lt (Fin 0) delta" by auto
    then obtain x where x: "float_column Ok delta = Ok x"
      using assms nn by (cases "float_column Ok delta") (simp_all add: charge_day_def)
    show thesis
    proof (cases "sp_reserved_on r = Some day")
      case True
      then show thesis using more [OF d x] assms nn d x by (auto simp: charge_day_def rmap_Ok_iff)
    next
      case False
      then show thesis using first [OF d x] assms nn d x by (auto simp: charge_day_def rmap_Ok_iff)
    qed
  qed
qed

lemma charge_day_other:
  "charge_day on delta r = Ok r' \<Longrightarrow> key_of r' = key_of r \<and> sp_tier r' = sp_tier r \<and> sp_status r' = sp_status r
     \<and> sp_created r' = sp_created r \<and> sp_close r' = sp_close r \<and> sp_fraction r' = sp_fraction r
     \<and> sp_basis_stake r' = sp_basis_stake r \<and> sp_basis_effective r' = sp_basis_effective r"
  by (erule charge_dayE) (simp_all add: key_of_def)

lemma restakedE:
  assumes "restaked d keep_tier on delta increment r = Ok r'"
  obtains r0 r1 r2 odds where "key_of r0 = key_of r" "sp_tier r0 = sp_tier r" "sp_status r0 = sp_status r" "sp_created r0 = sp_created r"
    "sp_close r0 = sp_close r" "sp_reserved_on r0 = sp_reserved_on r" "sp_reserved r0 = sp_reserved r"
    "sp_basis_stake r0 = sp_basis_stake r" "sp_basis_effective r0 = sp_basis_effective r"
    "decimal_odds_of d = Ok odds"
    "(case increment of None \<Rightarrow> reset_basis d odds r0 | Some i \<Rightarrow> increase_basis d odds i r0) = Ok r1"
    "charge_day on delta r1 = Ok r2"
    "r' = (if keep_tier then r2\<lparr>sp_tier := dt_tier d, sp_reason := dt_reason d\<rparr> else r2)"
proof -
  from assms obtain fc ac odds r1 r2 where
    "decimal_odds_of d = Ok odds"
    "(case increment of None \<Rightarrow> reset_basis d odds (r\<lparr>sp_fraction := fc, sp_amount := ac, sp_breakdown := dt_breakdown d\<rparr>)
       | Some i \<Rightarrow> increase_basis d odds i (r\<lparr>sp_fraction := fc, sp_amount := ac, sp_breakdown := dt_breakdown d\<rparr>)) = Ok r1"
    "charge_day on delta r1 = Ok r2"
    "r' = (if keep_tier then r2\<lparr>sp_tier := dt_tier d, sp_reason := dt_reason d\<rparr> else r2)"
    by (auto simp: restaked_def rbind_Ok_iff)
  then show thesis using that [of "r\<lparr>sp_fraction := fc, sp_amount := ac, sp_breakdown := dt_breakdown d\<rparr>" odds r1 r2]
    by (simp add: key_of_def)
qed

lemma restaked_stake:
  assumes "restaked d keep_tier on delta increment r = Ok r'"
  shows "float_column prob_column (dt_fraction d) = Ok (sp_fraction r')"
proof -
  obtain fc ac odds r1 r2 where x: "float_column prob_column (dt_fraction d) = Ok fc"
    "(case increment of None \<Rightarrow> reset_basis d odds (r\<lparr>sp_fraction := fc, sp_amount := ac, sp_breakdown := dt_breakdown d\<rparr>)
       | Some i \<Rightarrow> increase_basis d odds i (r\<lparr>sp_fraction := fc, sp_amount := ac, sp_breakdown := dt_breakdown d\<rparr>)) = Ok r1"
    "charge_day on delta r1 = Ok r2"
    "r' = (if keep_tier then r2\<lparr>sp_tier := dt_tier d, sp_reason := dt_reason d\<rparr> else r2)"
    using assms by (auto simp: restaked_def rbind_Ok_iff)
  have "sp_fraction r1 = fc" using x(2) basis_other(1) [of d odds _ r1] basis_other(2) [of d odds _ _ r1] by (cases increment) fastforce+
  then show ?thesis using x charge_day_other [OF x(3)] by simp
qed

lemma restaked_other:
  assumes "restaked d keep_tier on delta increment r = Ok r'"
  shows "key_of r' = key_of r" "sp_status r' = sp_status r" "sp_created r' = sp_created r" "sp_close r' = sp_close r"
    "sp_tier r' = (if keep_tier then dt_tier d else sp_tier r)"
proof -
  obtain r0 r1 r2 odds where r: "key_of r0 = key_of r" "sp_tier r0 = sp_tier r" "sp_status r0 = sp_status r" "sp_created r0 = sp_created r"
    "sp_close r0 = sp_close r"
    "(case increment of None \<Rightarrow> reset_basis d odds r0 | Some i \<Rightarrow> increase_basis d odds i r0) = Ok r1"
    "charge_day on delta r1 = Ok r2"
    "r' = (if keep_tier then r2\<lparr>sp_tier := dt_tier d, sp_reason := dt_reason d\<rparr> else r2)"
    using restakedE [OF assms] by metis
  have "key_of r1 = key_of r0 \<and> sp_tier r1 = sp_tier r0 \<and> sp_status r1 = sp_status r0 \<and> sp_created r1 = sp_created r0 \<and> sp_close r1 = sp_close r0"
    using r(6) basis_other(1) [of d odds r0 r1] basis_other(2) [of d odds _ r0 r1] by (cases increment) auto
  then show "key_of r' = key_of r" "sp_status r' = sp_status r" "sp_created r' = sp_created r" "sp_close r' = sp_close r"
    "sp_tier r' = (if keep_tier then dt_tier d else sp_tier r)"
    using r charge_day_other [OF r(7)] by (auto simp: key_of_def)
qed

subsection \<open>Transactions\<close>

lemma update_Ok:
  assumes "update_pick_stake event version d keep_tier on delta increment rows = Ok (updated, rows')" "updated"
  obtains r r' where "find (has_key event version d) rows = Some r" "restaked d keep_tier on delta increment r = Ok r'"
    "rows' = change_row event version d (\<lambda>_. r') rows"
  using assms by (auto simp: update_pick_stake_def rbind_Ok_iff rmap_Ok_iff split: option.splits)

definition same_bet :: "detection \<Rightarrow> detection \<Rightarrow> bool" where
  "same_bet p d \<longleftrightarrow> p = d \<or> (\<exists>x a c. p = with_stake d x a c)"

lemma same_bet_facts:
  assumes "same_bet p d"
  shows "has_key event version p = has_key event version d" "dt_tier p = dt_tier d" "dt_book p = dt_book d" "dt_odds p = dt_odds d"
    "decimal_odds_of p = decimal_odds_of d"
  using assms by (auto simp: same_bet_def has_key_def with_stake_def decimal_odds_of_def)

lemma write_grantE:
  assumes "write_grant event version bankroll now d final_stake oc g rows1 = Ok (staked, rows2)"
  obtains (demote) r r' z where "staked = None" "f_le g (Fin 0)" "\<not> is_repriced oc" "stake_amount (Fin 0) bankroll = Ok z"
      "find (has_key event version d) rows1 = Some r" "restaked (demoted d z) True None (Fin 0) None r = Ok r'"
      "rows2 = change_row event version d (\<lambda>_. r') rows1"
    | (stake) p r r' inc where "staked = Some p" "is_repriced oc \<or> \<not> f_le g (Fin 0)" "same_bet p d"
      "dt_fraction p = total_stake oc g \<or> p = d \<and> f_eq (total_stake oc g) final_stake"
      "p = d \<or> stake_amount (total_stake oc g) bankroll = Ok (dt_amount p)"
      "(if is_repriced oc then rmap Some (stake_amount g bankroll) else Ok None) = Ok inc"
      "find (has_key event version d) rows1 = Some r" "restaked p False (Some (day_of now)) g inc r = Ok r'"
      "rows2 = change_row event version d (\<lambda>_. r') rows1"
proof -
  let ?w = "total_stake oc g"
  have w: "\<not> is_repriced oc \<Longrightarrow> ?w = g" by (cases oc) (simp_all add: total_stake_def is_repriced_def)
  show thesis
  proof (cases "f_le ?w (Fin 0) \<and> \<not> is_repriced oc")
    case True
    then obtain z u where u: "update_pick_stake event version (demoted d z) True None (Fin 0) None rows1 = Ok (u, rows2)" "u" "staked = None"
      "stake_amount (Fin 0) bankroll = Ok z"
      using assms by (auto simp: write_grant_def Let_def rbind_Ok_iff split: if_splits)
    obtain r r' where r: "find (has_key event version (demoted d z)) rows1 = Some r"
      "restaked (demoted d z) True None (Fin 0) None r = Ok r'" "rows2 = change_row event version (demoted d z) (\<lambda>_. r') rows1"
      using update_Ok [OF u(1, 2)] .
    show thesis using demote [OF u(3) _ _ u(4) _ r(2)] r(1, 3) True w by (simp add: change_row_def)
  next
    case False
    then obtain p inc u where u: "(if \<not> f_eq ?w final_stake \<or> is_repriced oc
          then rmap (\<lambda>a. with_stake d ?w a (f_lt ?w final_stake)) (stake_amount ?w bankroll) else Ok d) = Ok p"
      "(if is_repriced oc then rmap Some (stake_amount g bankroll) else Ok None) = Ok inc"
      "update_pick_stake event version p False (Some (day_of now)) g inc rows1 = Ok (u, rows2)" "u" "staked = Some p"
      using assms unfolding write_grant_def Let_def by (auto simp: rbind_Ok_iff split: if_splits)
    have sb: "same_bet p d" "dt_fraction p = ?w \<or> p = d \<and> f_eq ?w final_stake" "p = d \<or> stake_amount ?w bankroll = Ok (dt_amount p)"
      using u(1) by (auto simp: same_bet_def with_stake_def rmap_Ok_iff split: if_splits)
    obtain r r' where r: "find (has_key event version p) rows1 = Some r"
      "restaked p False (Some (day_of now)) g inc r = Ok r'" "rows2 = change_row event version p (\<lambda>_. r') rows1"
      using update_Ok [OF u(3, 4)] .
    have "is_repriced oc \<or> \<not> f_le g (Fin 0)" using False w by auto
    then show thesis using stake [OF u(5) _ sb u(2) _ r(2)] r(1, 3) same_bet_facts(1) [OF sb(1)] by (simp add: change_row_def)
  qed
qed

lemma stored_result:
  assumes "persist_and_reserve dir bankroll fault now d final_stake ref l rows = ((Stored oc, staked), l', rows')"
  obtains (known) known event version where "dir = Some known" "known d = Some (event, version)"
      "oc = Duplicate \<and> staked = Some d \<or> oc = Duplicate_Denied \<and> staked = None" "l' = l" "rows' = rows"
    | (new) known event version rows1 g where "dir = Some known" "known d = Some (event, version)"
      "oc \<noteq> Duplicate" "oc \<noteq> Duplicate_Denied" "persist_pick event version now d rows = Ok (oc, rows1)"
      "reserve l (day_of now) (requested_stake oc final_stake) (Some ref) = Ok (l', g)"
      "write_grant event version bankroll now d final_stake oc g rows1 = Ok (staked, rows')"
proof -
  from assms obtain known event version where k: "dir = Some known" "known d = Some (event, version)"
    by (auto simp: persist_and_reserve_def split: option.splits)
  from assms obtain oc' rows1 where p: "persist_pick event version now d rows = Ok (oc', rows1)"
    by (auto simp: persist_and_reserve_def k split: sum.splits if_splits)
  show thesis
  proof (cases "oc' = Duplicate_Denied \<or> oc' = Duplicate")
    case True
    then have "rows1 = rows" using p by (auto elim: persist_cases)
    then show thesis using known [OF k] assms True by (auto simp: persist_and_reserve_def k p split: if_splits)
  next
    case False
    then show thesis using new [OF k] assms by (auto simp: persist_and_reserve_def k p split: sum.splits if_splits)
  qed
qed

lemma unpersisted_result:
  assumes "persist_and_reserve dir bankroll fault now d final_stake ref l rows = ((Unpersisted, staked), l', rows')"
  shows "rows' = rows \<and> (dir \<noteq> None \<longrightarrow> staked = None)
    \<and> (l' = l \<or> (\<exists>oc g l1. reserve l (day_of now) (requested_stake oc final_stake) (Some ref) = Ok (l1, g)
        \<and> l' = hand_back (day_of now) g ref l1))"
proof (cases dir)
  case None
  then show ?thesis using assms by (simp add: persist_and_reserve_def)
next
  case (Some known)
  then show ?thesis
    using assms by (auto simp: persist_and_reserve_def split: option.splits sum.splits if_splits prod.splits)
qed

end
