(* ===== verification/PickBook.thy ===== *)
theory PickBook
  imports PickFacts Gates
begin

text \<open>
  The table of picks and the ledger as one machine: the transactions of a day, the shadow picks, and what other
  parts of the program do to a row.  The invariant of the table, the durable charges, and the settlement basis.
\<close>

subsection \<open>The invariant of the table\<close>

definition bet_of :: "stored_pick \<Rightarrow> int \<times> string \<times> string option \<times> string" where
  "bet_of r = (sp_event r, sp_market r, sp_detail r, sp_selection r)"

definition live_premium :: "stored_pick \<Rightarrow> bool" where
  "live_premium r \<longleftrightarrow> sp_tier r = premium \<and> sp_status r = open_status"

text \<open>A basis is in cents and its price is at least one.\<close>

definition basis_ok :: "rat \<Rightarrow> rat \<Rightarrow> bool" where
  "basis_ok stake effective \<longleftrightarrow> 0 \<le> stake \<and> stake < 10 ^ 10 \<and> on_grid 2 stake \<and> stake \<le> effective"

text \<open>A premium row carries a charge and a volume row does not.\<close>

definition row_inv :: "stored_pick \<Rightarrow> bool" where
  "row_inv r \<longleftrightarrow> (sp_tier r = premium \<and> sp_reserved_on r \<noteq> None \<or> sp_tier r = volume \<and> sp_reserved_on r = None)
     \<and> (case sp_reserved r of None \<Rightarrow> True | Some c \<Rightarrow> on_grid 6 c \<and> 0 \<le> c \<and> c < 100)
     \<and> basis_ok (sp_basis_stake r) (sp_basis_effective r)"

definition pick_inv :: "book \<Rightarrow> bool" where
  "pick_inv rows \<longleftrightarrow> unique_keys rows \<and> (\<forall>r \<in> set rows. row_inv r)
     \<and> (\<forall>r \<in> set rows. \<forall>q \<in> set rows. live_premium r \<and> live_premium q \<and> bet_of r = bet_of q \<longrightarrow> r = q)"

lemma pick_invD:
  assumes "pick_inv rows"
  shows "unique_keys rows" "r \<in> set rows \<Longrightarrow> row_inv r"
    "r \<in> set rows \<Longrightarrow> q \<in> set rows \<Longrightarrow> live_premium r \<Longrightarrow> live_premium q \<Longrightarrow> bet_of r = bet_of q \<Longrightarrow> r = q"
  using assms unfolding pick_inv_def by blast+

text \<open>What the schema of a detection guarantees, and what its stake is made of.\<close>

definition valid_detection :: "detection \<Rightarrow> bool" where
  "valid_detection d \<longleftrightarrow> (case dt_odds d of Fin x \<Rightarrow> is_f64 x \<and> 1 < x \<and> x \<le> 1000 | _ \<Rightarrow> False) \<and> on_grid 2 (dt_amount d)"

subsection \<open>The basis\<close>

lemma repr_ge_1: "is_f64 x \<Longrightarrow> 1 \<le> x \<Longrightarrow> 1 \<le> repr_float x"
proof (rule ccontr)
  assume x: "is_f64 x" "1 \<le> x" and n: "\<not> 1 \<le> repr_float x"
  have r: "rnd (repr_float x) = x" using repr_float_roundtrip [OF x(1)] by (simp add: f64_def Let_def split: if_splits)
  have "rnd (repr_float x) \<le> rnd 1" using n by (intro rnd_mono) simp
  then have "x = 1" using r x(2) by (simp add: rnd_1)
  moreover have "repr_float 1 = 1" by code_simp
  ultimately show False using n by simp
qed

lemma cents_dec:
  assumes "on_grid 2 x" "\<bar>x\<bar> < 10 ^ 26" shows "dec x = x"
proof -
  obtain n where "x = of_int n / 10 ^ 2" using assms(1) by (rule on_gridE)
  then have n: "x = of_int n / 100" by simp
  have "of_int \<bar>n\<bar> < (of_int (10 ^ 28) :: rat)" using assms(2) unfolding n by simp
  then have "\<bar>n\<bar> < 10 ^ 28" by (simp only: of_int_less_iff)
  then show ?thesis using dec_cents [of n] unfolding n by simp
qed

text \<open>The price net of commission is at least one.\<close>

lemma net_price_at_least_1:
  assumes "is_f64 d" "1 < d" "d < 2 ^ 53"
  shows "\<exists>n. effective_odds book (Fin d) = Fin n \<and> is_f64 n \<and> 1 \<le> n"
proof -
  have "commission_of exchange_commission book \<in> {Fin 0, f64 (5 / 100), f64 (2 / 100)}"
    by (auto simp: commission_of_def exchange_commission_def get_default_def split: option.splits)
  moreover have "case f64 (5 / 100) of Fin c \<Rightarrow> 0 \<le> c \<and> c < 1 | _ \<Rightarrow> False" "case f64 (2 / 100) of Fin c \<Rightarrow> 0 \<le> c \<and> c < 1 | _ \<Rightarrow> False"
    by code_simp+
  then have "\<exists>c. f64 (5 / 100) = Fin c \<and> 0 \<le> c \<and> c < 1" "\<exists>c. f64 (2 / 100) = Fin c \<and> 0 \<le> c \<and> c < 1"
    by (auto split: pyfloat.splits)
  ultimately obtain c where c: "commission_of exchange_commission book = Fin c" "0 \<le> c" "c < 1" by auto
  then show ?thesis using net_odds_range(1) [OF assms c(2, 3)]
    by (auto simp: effective_odds_def effective_odds_in_def net_odds_of_def Let_def)
qed

lemma money_exact:
  assumes "on_grid 2 x" "0 \<le> x" "money_column (dec x) = Ok c" shows "c = x \<and> x < 10 ^ 10 \<and> dec x = x"
proof -
  have small: "x < 10 ^ 26"
  proof (rule ccontr)
    assume "\<not> x < 10 ^ 26"
    then have "dec (10 ^ 26) \<le> dec x" by (intro dec_mono) simp
    moreover have "dec (10 ^ 26) = 10 ^ 26" by code_simp
    ultimately have "(10 ^ 26 * 100 :: rat) \<le> dec x * 10 ^ 2" by simp
    then have "round_half_up (of_int (10 ^ 28)) \<le> round_half_up (dec x * 10 ^ 2)" by (intro round_half_up_mono) simp
    then have "10 ^ 28 \<le> round_half_up (dec x * 10 ^ 2)" by (simp only: round_half_up_int)
    then show False using assms(3) by (simp add: numeric_def Let_def split: if_splits)
  qed
  then have d: "dec x = x" using cents_dec [OF assms(1)] assms(2) by simp
  then have "c = x" using numeric_grid [OF assms(1)] assms(3) by simp
  moreover have "x < 10 ^ 10"
  proof -
    obtain n where n: "x = of_int n / 10 ^ 2" using assms(1) by (rule on_gridE)
    then have "n < 10 ^ 12" using assms(3) unfolding d by (simp add: numeric_def Let_def split: if_splits)
    then have "(of_int n :: rat) < of_int (10 ^ 12)" by (simp only: of_int_less_iff)
    then show ?thesis unfolding n by simp
  qed
  ultimately show ?thesis using d by simp
qed

lemma terms_ge:
  assumes "settlement_basis_terms stake book odds = Ok (raw, effective)" "on_grid 2 stake" "stake < 10 ^ 10"
    "f64 odds = Fin x" "is_f64 x" "1 < x" "x < 2 ^ 53"
  shows "stake \<le> effective" "0 \<le> stake"
proof -
  obtain n where n: "effective_odds book (f64 odds) = Fin n" "is_f64 n" "1 \<le> n"
    using net_price_at_least_1 [OF assms(5-7), of book] assms(4) by auto
  have s: "0 \<le> stake" "effective = dec (stake * repr_float n)" using assms(1) n(1) by (auto simp: settlement_basis_terms_def split: if_splits)
  have "stake * 1 \<le> stake * repr_float n" using repr_ge_1 [OF n(2, 3)] s(1) by (intro mult_left_mono) simp_all
  then have "dec stake \<le> effective" unfolding s(2) by (intro dec_mono) simp
  moreover have "dec stake = stake" using cents_dec [OF assms(2)] assms(3) s(1) by simp
  ultimately show "stake \<le> effective" "0 \<le> stake" using s(1) by simp_all
qed

lemma money_cents: "on_grid 2 x \<Longrightarrow> 0 \<le> x \<Longrightarrow> money_column x = Ok c \<Longrightarrow> c = x \<and> x < 10 ^ 10"
proof (intro conjI)
  assume x: "on_grid 2 x" "0 \<le> x" "money_column x = Ok c"
  show "c = x" by (rule numeric_grid [OF x(1, 3)])
  obtain n where n: "x = of_int n / 10 ^ 2" using x(1) by (rule on_gridE)
  then have "n < 10 ^ 12" using x(3) by (simp add: numeric_def Let_def split: if_splits)
  then have "(of_int n :: rat) < of_int (10 ^ 12)" by (simp only: of_int_less_iff)
  then show "x < 10 ^ 10" unfolding n by simp
qed

text \<open>The odds of a valid detection read back as the float they came from.\<close>

lemma valid_odds:
  assumes "valid_detection d" "decimal_odds_of d = Ok odds"
  obtains x where "f64 odds = Fin x" "is_f64 x" "1 < x" "x < 2 ^ 53"
proof -
  obtain x where x: "dt_odds d = Fin x" "is_f64 x" "1 < x" "x \<le> 1000" using assms(1) by (auto simp: valid_detection_def split: pyfloat.splits)
  then have "odds = repr_float x" using assms(2) by (simp add: decimal_odds_of_def float_column_def)
  moreover have "x < 2 ^ 53" using x(4) by simp
  ultimately show thesis using that repr_float_roundtrip [OF x(2)] x(2, 3) by simp
qed

lemma basis_okI:
  assumes "settlement_basis_terms stake book odds = Ok (raw, effective)" "on_grid 2 stake" "money_column stake = Ok ac"
    "basis_column effective = Ok ec" "f64 odds = Fin x" "is_f64 x" "1 < x" "x < 2 ^ 53"
  shows "basis_ok ac ec"
proof -
  have s: "0 \<le> stake" using assms(1) by (simp add: settlement_basis_terms_def split: if_splits)
  have m: "ac = stake" "stake < 10 ^ 10" using money_cents [OF assms(2) s assms(3)] by simp_all
  have "stake \<le> effective" using terms_ge(1) [OF assms(1, 2) m(2) assms(5-8)] .
  then have "stake \<le> ec" using numeric_ge [OF assms(4) on_grid_finer [OF assms(2)]] by simp
  then show ?thesis using m s assms(2) by (simp add: basis_ok_def)
qed

lemma stake_columns_basis: "valid_detection d \<Longrightarrow> stake_columns d = Ok s \<Longrightarrow> basis_ok (sr_amount s) (sr_effective s)"
proof -
  assume v: "valid_detection d" and s: "stake_columns d = Ok s"
  then obtain odds raw effective where t: "decimal_odds_of d = Ok odds" "settlement_basis_terms (dt_amount d) (dt_book d) odds = Ok (raw, effective)"
    "money_column (dt_amount d) = Ok (sr_amount s)" "basis_column effective = Ok (sr_effective s)"
    by (auto simp: stake_columns_def rbind_Ok_iff)
  obtain x where x: "f64 odds = Fin x" "is_f64 x" "1 < x" "x < 2 ^ 53" using valid_odds [OF v t(1)] .
  show ?thesis using basis_okI [OF t(2) _ t(3, 4) x] v by (simp add: valid_detection_def)
qed

lemma reset_basis_ok:
  assumes "valid_detection d" "decimal_odds_of d = Ok odds" "reset_basis d odds r = Ok r'"
  shows "basis_ok (sp_basis_stake r') (sp_basis_effective r')"
proof -
  obtain raw effective ac ec where t: "settlement_basis_terms (dt_amount d) (dt_book d) odds = Ok (raw, effective)"
    "money_column (dt_amount d) = Ok ac" "basis_column effective = Ok ec" "sp_basis_stake r' = ac" "sp_basis_effective r' = ec"
    using assms(3) by (auto simp: reset_basis_def rbind_Ok_iff)
  obtain x where x: "f64 odds = Fin x" "is_f64 x" "1 < x" "x < 2 ^ 53" using valid_odds [OF assms(1, 2)] .
  show ?thesis using basis_okI [OF t(1) _ t(2, 3) x] t(4, 5) assms(1) by (simp add: valid_detection_def)
qed

lemma increase_basis_ok:
  assumes "valid_detection d" "decimal_odds_of d = Ok odds" "on_grid 2 i" "increase_basis d odds i r = Ok r'"
    and ok: "basis_ok (sp_basis_stake r) (sp_basis_effective r)"
  shows "basis_ok (sp_basis_stake r') (sp_basis_effective r')"
proof (cases "i > 0")
  case False
  then show ?thesis using assms(4) ok by (simp add: increase_basis_def split: if_splits)
next
  case True
  obtain raw effective sc ec where t: "settlement_basis_terms i (dt_book d) odds = Ok (raw, effective)"
    "money_column (dec (sp_basis_stake r + i)) = Ok sc" "basis_column (dec (sp_basis_effective r + effective)) = Ok ec"
    "sp_basis_stake r' = sc" "sp_basis_effective r' = ec"
    using assms(4) True by (auto simp: increase_basis_def rbind_Ok_iff)
  obtain x where x: "f64 odds = Fin x" "is_f64 x" "1 < x" "x < 2 ^ 53" using valid_odds [OF assms(1, 2)] .
  let ?n = "sp_basis_stake r + i"
  have n: "on_grid 2 ?n" "0 \<le> ?n" using ok assms(3) True by (auto simp: basis_ok_def intro: on_grid_add)
  have m: "sc = ?n" "?n < 10 ^ 10" "dec ?n = ?n" using money_exact [OF n t(2)] by simp_all
  have "i < 10 ^ 10" using m(2) ok by (simp add: basis_ok_def)
  then have "i \<le> effective" using terms_ge(1) [OF t(1) assms(3) _ x] by simp
  then have "?n \<le> sp_basis_effective r + effective" using ok by (simp add: basis_ok_def)
  then have "dec ?n \<le> dec (sp_basis_effective r + effective)" by (rule dec_mono)
  then have "?n \<le> ec" using numeric_ge [OF t(3) on_grid_finer [OF n(1)]] m(3) by simp
  then show ?thesis using t m n by (simp add: basis_ok_def)
qed

subsection \<open>The durable charge\<close>

text \<open>What a grant is worth, as the decimal that is written.\<close>

definition granted_value :: "pyfloat \<Rightarrow> rat" where
  "granted_value g = (case g of Fin y \<Rightarrow> if 0 < y then repr_float y else 0 | _ \<Rightarrow> 0)"

lemma repr_from_pos: "0 < x \<Longrightarrow> 0 < repr_from x p n"
proof (induction x p n rule: repr_from.induct)
  case (2 x p n)
  show ?case
  proof (cases "repr_cands x p")
    case Nil
    with 2 show ?thesis by simp
  next
    case (Cons c cs)
    then have "c \<in> set (repr_cands x p)" by simp
    then have "rnd c = x" by (simp only: repr_cands_def Let_def set_filter mem_Collect_eq)
    then have "0 < c" using rnd_nonpos [of c] 2(2) by (cases "0 < c") auto
    with Cons show ?thesis by simp
  qed
qed simp

lemma granted_value_column: "f_lt (Fin 0) g \<Longrightarrow> float_column Ok g = Ok x \<Longrightarrow> x = granted_value g \<and> 0 < x"
  using repr_from_pos by (cases g) (auto simp: float_column_def granted_value_def repr_float_def)

lemma dec_grid: "on_grid 6 x \<Longrightarrow> \<bar>x\<bar> < 10 ^ 20 \<Longrightarrow> dec x = x"
proof -
  assume "on_grid 6 x" and b: "\<bar>x\<bar> < 10 ^ 20"
  then obtain n where n: "x = of_int n / 10 ^ 6" by (auto elim: on_gridE)
  have "of_int \<bar>n\<bar> < (of_int (10 ^ 28) :: rat)" using b unfolding n by simp
  then have m: "\<bar>n\<bar> < 10 ^ 28" by (simp only: of_int_less_iff)
  have e: "(10 :: rat) powi (- 6) = 1 / 10 ^ 6" by (simp add: power_int_def power_one_over)
  have "(- 1000026 :: int) \<le> - 6" by simp
  from dec_exact [OF m this] show ?thesis unfolding n e by simp
qed

text \<open>A sum on its way into the column moves by less than its last digit, the rounding to 28 digits included.\<close>

lemma column_near:
  assumes "prob_column (dec w) = Ok c" "0 \<le> w"
  shows "\<bar>c - w\<bar> \<le> 1 / 10 ^ 6 \<and> 0 \<le> c \<and> c < 100 \<and> on_grid 6 c"
proof -
  have c: "\<bar>c\<bar> < 100" using numeric_bound [OF assms(1)] by simp
  have w: "w < 1000"
  proof (rule ccontr)
    assume "\<not> w < 1000"
    then have "dec 1000 \<le> dec w" by (intro dec_mono) simp
    moreover have "dec 1000 = 1000" by code_simp
    moreover have "on_grid 6 1000" unfolding on_grid_iff by (rule exI [of _ "1000 * 10 ^ 6"]) simp
    ultimately show False using numeric_ge [OF assms(1), of 1000] c by simp
  qed
  define k where "k = of_int \<lfloor>w * 10 ^ 6\<rfloor> / (10 ^ 6 :: rat)"
  have kg: "on_grid 6 k" unfolding k_def by (rule on_gridI)
  have k: "on_grid 6 k" "k \<le> w" "w \<le> k + 1 / 10 ^ 6" "0 \<le> k"
    using kg unfolding k_def using of_int_floor_le [of "w * 10 ^ 6"] floor_correct [of "w * 10 ^ 6"] assms(2) by (auto simp: field_simps)
  have "on_grid 6 (1 / 10 ^ 6)" using on_gridI [of 6 1] by simp
  then have k1: "on_grid 6 (k + 1 / 10 ^ 6)" using on_grid_add [OF k(1)] by blast
  have "dec k = k" "dec (k + 1 / 10 ^ 6) = k + 1 / 10 ^ 6"
    using dec_grid [OF k(1)] dec_grid [OF k1] k w by simp_all
  then have "k \<le> dec w" "dec w \<le> k + 1 / 10 ^ 6" using dec_mono [OF k(2)] dec_mono [OF k(3)] by simp_all
  then have "k \<le> c" "c \<le> k + 1 / 10 ^ 6" using numeric_ge [OF assms(1) k(1)] numeric_le [OF assms(1) k1] by simp_all
  then have "\<bar>c - w\<bar> \<le> 1 / 10 ^ 6" "0 \<le> c" using k by linarith+
  then show ?thesis using c numeric_Ok [OF assms(1)] by auto
qed

subsection \<open>Replacing a row\<close>

lemma bet_key: "key_of r = key_of q \<longleftrightarrow> bet_of r = bet_of q \<and> sp_version r = sp_version q"
  by (auto simp: key_of_def bet_of_def)

lemma detection_bet: "key_of r = detection_key event version d \<longleftrightarrow>
    bet_of r = (event, dt_market d, dt_detail d, dt_selection d) \<and> sp_version r = version"
  by (auto simp: key_of_def bet_of_def detection_key_def)

lemma status_inv [simp]: "row_inv (r\<lparr>sp_status := s\<rparr>) = row_inv r" "bet_of (r\<lparr>sp_status := s\<rparr>) = bet_of r"
  by (simp_all add: row_inv_def bet_of_def)

lemma displaced_not_live [simp]: "\<not> live_premium (r\<lparr>sp_status := displaced_status\<rparr>)"
  by (simp add: live_premium_def displaced_status_def open_status_def)

definition close_older :: "int \<Rightarrow> int \<Rightarrow> detection \<Rightarrow> string \<Rightarrow> stored_pick \<Rightarrow> stored_pick" where
  "close_older event version d tier r = (if older_version event version d tier r then r\<lparr>sp_status := displaced_status\<rparr> else r)"

lemma supersede_map: "supersede_older_versions event version d tier rows = map (close_older event version d tier) rows"
  by (simp add: supersede_older_versions_def close_older_def [abs_def])

lemma close_older_facts:
  "row_inv (close_older event version d tier r) = row_inv r" "bet_of (close_older event version d tier r) = bet_of r"
  "live_premium (close_older event version d tier r) \<Longrightarrow> \<not> older_version event version d tier r"
  "\<not> older_version event version d tier r \<Longrightarrow> close_older event version d tier r = r"
  by (simp_all add: close_older_def split: if_splits)

lemma inv_supersede:
  assumes inv: "pick_inv rows" shows "pick_inv (supersede_older_versions event version d tier rows)"
proof -
  let ?c = "close_older event version d tier"
  have "?c r = ?c q" if r: "r \<in> set rows" "q \<in> set rows" and l: "live_premium (?c r)" "live_premium (?c q)" "bet_of (?c r) = bet_of (?c q)" for r q
  proof -
    have "?c r = r" "?c q = q" using l(1, 2) close_older_facts(3, 4) by blast+
    then show ?thesis using pick_invD(3) [OF inv r] l by simp
  qed
  moreover have "row_inv (?c r)" if "r \<in> set rows" for r using pick_invD(2) [OF inv that] by (simp add: close_older_facts)
  moreover have "unique_keys (map ?c rows)"
    using pick_invD(1) [OF inv] unfolding unique_keys_def supersede_map [symmetric] supersede_keys .
  ultimately show ?thesis unfolding pick_inv_def supersede_map by auto
qed

text \<open>After a premium row took over, no other version of the bet is open as a premium row.\<close>

lemma superseded_alone:
  assumes "q \<in> set (supersede_older_versions event version d premium rows)" "live_premium q"
    "bet_of q = (event, dt_market d, dt_detail d, dt_selection d)"
  shows "sp_version q = version"
proof -
  obtain r where r: "q = close_older event version d premium r" using assms(1) unfolding supersede_map by auto
  then have n: "\<not> older_version event version d premium r" "q = r" using assms(2) close_older_facts(3, 4) by blast+
  then show ?thesis using assms(2, 3) by (simp add: older_version_def bet_of_def live_premium_def)
qed

lemma inv_append:
  assumes inv: "pick_inv rows" and new: "\<And>q. q \<in> set rows \<Longrightarrow> key_of q \<noteq> key_of r'" "row_inv r'"
    "\<And>q. q \<in> set rows \<Longrightarrow> live_premium r' \<Longrightarrow> live_premium q \<Longrightarrow> bet_of q \<noteq> bet_of r'"
  shows "pick_inv (rows @ [r'])"
  unfolding pick_inv_def
proof (intro conjI ballI impI)
  have "key_of r' \<notin> key_of ` set rows" using new(1) by (metis imageE)
  then show "unique_keys (rows @ [r'])" using pick_invD(1) [OF inv] unfolding unique_keys_def by simp
next
  fix r assume "r \<in> set (rows @ [r'])"
  then show "row_inv r" using pick_invD(2) [OF inv] new(2) by auto
next
  fix r q assume m: "r \<in> set (rows @ [r'])" "q \<in> set (rows @ [r'])" and l: "live_premium r \<and> live_premium q \<and> bet_of r = bet_of q"
  have r: "r = r' \<or> r \<in> set rows" and q: "q = r' \<or> q \<in> set rows" using m by auto
  show "r = q"
  proof (cases "r \<in> set rows \<and> q \<in> set rows")
    case True
    then show ?thesis using pick_invD(3) [OF inv, of r q] l by blast
  next
    case False
    then show ?thesis using r q l new(3) by metis
  qed
qed

lemma inv_change:
  assumes inv: "pick_inv rows" and r: "find (has_key event version d) rows = Some r" and k: "key_of r' = detection_key event version d"
    and new: "row_inv r'" "\<And>q. q \<in> set rows \<Longrightarrow> q \<noteq> r \<Longrightarrow> live_premium r' \<Longrightarrow> live_premium q \<Longrightarrow> bet_of q \<noteq> bet_of r'"
  shows "pick_inv (change_row event version d (\<lambda>_. r') rows)"
  unfolding pick_inv_def
proof (intro conjI ballI impI)
  show "unique_keys (change_row event version d (\<lambda>_. r') rows)"
    using pick_invD(1) [OF inv] unfolding unique_keys_def change_known_keys [OF k] .
  have only: "q = r" if "q \<in> set rows" "has_key event version d q" for q
    using unique_key_row [OF pick_invD(1) [OF inv] that(1)] find_key_Some [OF r] that(2) by (simp add: has_key_iff)
  have mem: "q = r' \<or> q \<in> set rows \<and> q \<noteq> r" if "q \<in> set (change_row event version d (\<lambda>_. r') rows)" for q
    using that find_key_Some [OF r] unfolding change_row_mem by (auto split: if_splits)
  show "row_inv q" if "q \<in> set (change_row event version d (\<lambda>_. r') rows)" for q
    using mem [OF that] new(1) pick_invD(2) [OF inv] by auto
  show "p = q" if "p \<in> set (change_row event version d (\<lambda>_. r') rows)" "q \<in> set (change_row event version d (\<lambda>_. r') rows)"
    "live_premium p \<and> live_premium q \<and> bet_of p = bet_of q" for p q
  proof (cases "p = r' \<or> q = r'")
    case True
    then show ?thesis using mem [OF that(1)] mem [OF that(2)] that(3) new(2) by metis
  next
    case False
    then show ?thesis using mem [OF that(1)] mem [OF that(2)] that(3) pick_invD(3) [OF inv, of p q] by blast
  qed
qed

lemma change_superseded:
  assumes "\<And>r. key_of (f r) = key_of r" "key_of r' = detection_key event version d"
  shows "change_row event version d (\<lambda>_. r') (supersede_older_versions event version d tier (change_row event version d f rows))
    = supersede_older_versions event version d tier (change_row event version d (\<lambda>_. r') rows)"
proof (induction rows)
  case (Cons r rows)
  have old: "\<not> older_version event version d tier q" if "key_of q = detection_key event version d" for q
    using that by (auto simp: key_of_def detection_key_def older_version_def)
  show ?case
  proof (cases "has_key event version d r")
    case True
    then have "key_of (f r) = detection_key event version d" by (simp add: has_key_iff assms(1))
    then show ?thesis using Cons True old [of "f r"] old [OF assms(2)]
      by (simp add: supersede_older_versions_def has_key_iff)
  next
    case False
    then show ?thesis using Cons by (auto simp: supersede_older_versions_def has_key_iff)
  qed
qed (simp add: supersede_older_versions_def)

lemma change_appended:
  assumes "find (has_key event version d) rows = None" "has_key event version d row"
  shows "change_row event version d (\<lambda>_. r') (supersede_older_versions event version d tier rows @ [row])
    = supersede_older_versions event version d tier rows @ [r']"
proof -
  have "\<not> has_key event version d q" if "q \<in> set (supersede_older_versions event version d tier rows)" for q
    using find_key_None [of event version d "supersede_older_versions event version d tier rows" q] assms(1) that by (simp add: find_superseded)
  then show ?thesis using assms(2) by (simp add: change_row_def map_idI)
qed

subsection \<open>The row after a grant\<close>

definition reserved_ok :: "stored_pick \<Rightarrow> bool" where
  "reserved_ok r \<longleftrightarrow> (case sp_reserved r of None \<Rightarrow> True | Some c \<Rightarrow> on_grid 6 c \<and> 0 \<le> c \<and> c < 100)"

text \<open>What the row already carries for the day.\<close>

definition carried :: "day \<Rightarrow> stored_pick \<Rightarrow> rat" where
  "carried day r = (if sp_reserved_on r = Some day then (case sp_reserved r of None \<Rightarrow> 0 | Some x \<Rightarrow> x) else 0)"

lemma carried_nonneg: "reserved_ok r \<Longrightarrow> 0 \<le> carried day r"
  by (auto simp: reserved_ok_def carried_def split: option.splits)

lemma charge_carried: "sp_tier r = premium \<Longrightarrow> sp_reserved_on r \<noteq> None \<Longrightarrow> charge_of day r = carried day r"
  by (auto simp: charge_of_def charged_today_def exposure_charge_def carried_def)

lemma charge_volume: "sp_tier r = volume \<Longrightarrow> charge_of day r = 0"
  by (simp add: charge_of_def charged_today_def premium_def volume_def)

lemma charge_day_carries:
  assumes "charge_day (Some day) g r = Ok r'" "reserved_ok r"
  shows "reserved_ok r' \<and> (f_lt (Fin 0) g \<longrightarrow> sp_reserved_on r' = Some day) \<and> (\<not> f_lt (Fin 0) g \<longrightarrow> r' = r)
    \<and> \<bar>carried day r' - carried day r - granted_value g\<bar> \<le> 1 / 10 ^ 6"
  using assms(1)
proof (cases rule: charge_dayE)
  case free
  then have "granted_value g = 0" by (cases g) (auto simp: granted_value_def)
  then show ?thesis using free assms(2) by simp
next
  case (more day' x c)
  have x: "x = granted_value g" "0 < x" using granted_value_column [OF more(2, 3)] by simp_all
  let ?o = "case sp_reserved r of None \<Rightarrow> 0 | Some y \<Rightarrow> y"
  have o: "carried day r = ?o" "carried day r' = c" "day' = day" using more by (simp_all add: carried_def)
  have "0 \<le> ?o + x" using carried_nonneg [OF assms(2), of day] o(1) x(2) by simp
  then have "\<bar>c - (?o + x)\<bar> \<le> 1 / 10 ^ 6 \<and> 0 \<le> c \<and> c < 100 \<and> on_grid 6 c" using column_near [OF more(5)] by simp
  then show ?thesis using more(2, 4, 6) o x(1) by (simp add: reserved_ok_def algebra_simps)
next
  case (first day' x c)
  have x: "x = granted_value g" "0 < x" using granted_value_column [OF first(2, 3)] by simp_all
  have c: "on_grid 6 c" "\<bar>c - x\<bar> \<le> 1 / (2 * 10 ^ 6)" "\<bar>c\<bar> < 100" using numeric_Ok [OF first(5)] numeric_bound [OF first(5)] by simp_all
  have "0 \<le> c" using numeric_ge [OF first(5), of 0] x(2) by simp
  then show ?thesis using first c x(1) by (simp add: reserved_ok_def carried_def)
qed

lemma restaked_grant:
  assumes r: "restaked p False (Some day) g increment r = Ok r'"
    and p: "valid_detection p" "case increment of None \<Rightarrow> True | Some i \<Rightarrow> on_grid 2 i"
    and ok: "sp_tier r = premium" "reserved_ok r" "basis_ok (sp_basis_stake r) (sp_basis_effective r)"
      "f_lt (Fin 0) g \<or> sp_reserved_on r \<noteq> None"
  shows "row_inv r' \<and> sp_tier r' = premium \<and> \<bar>charge_of day r' - carried day r - granted_value g\<bar> \<le> 1 / 10 ^ 6"
proof -
  obtain r0 r1 odds where b: "sp_tier r0 = sp_tier r" "sp_reserved_on r0 = sp_reserved_on r" "sp_reserved r0 = sp_reserved r"
    "sp_basis_stake r0 = sp_basis_stake r" "sp_basis_effective r0 = sp_basis_effective r" "decimal_odds_of p = Ok odds"
    "(case increment of None \<Rightarrow> reset_basis p odds r0 | Some i \<Rightarrow> increase_basis p odds i r0) = Ok r1"
    "charge_day (Some day) g r1 = Ok r'"
    using restakedE [OF r] by metis
  have s: "sp_tier r1 = premium \<and> sp_reserved_on r1 = sp_reserved_on r \<and> sp_reserved r1 = sp_reserved r"
    using b ok(1) basis_other(1) [of p odds r0 r1] basis_other(2) [of p odds _ r0 r1] by (cases increment) auto
  have bok: "basis_ok (sp_basis_stake r1) (sp_basis_effective r1)"
    using b(7) p ok(3) b(4, 5) reset_basis_ok [OF p(1) b(6)] increase_basis_ok [OF p(1) b(6)] by (cases increment) auto
  have c: "reserved_ok r1" "carried day r1 = carried day r" using ok(2) s by (simp_all add: reserved_ok_def carried_def)
  note g = charge_day_carries [OF b(8) c(1)]
  have o: "sp_tier r' = premium" "sp_basis_stake r' = sp_basis_stake r1" "sp_basis_effective r' = sp_basis_effective r1"
    using charge_day_other [OF b(8)] s by simp_all
  have on: "sp_reserved_on r' \<noteq> None" using g s ok(4) by (cases "f_lt (Fin 0) g") auto
  then have "charge_of day r' = carried day r'" using charge_carried o(1) by blast
  then show ?thesis using g c(2) o on bok by (simp add: row_inv_def reserved_ok_def)
qed

lemma restaked_demote:
  assumes r: "restaked d True None (Fin 0) None r = Ok r'" and d: "valid_detection d" "dt_tier d = volume"
    and ok: "reserved_ok r" "sp_reserved_on r = None"
  shows "row_inv r' \<and> sp_tier r' = volume"
proof -
  obtain r0 r1 r2 odds where b: "sp_reserved_on r0 = sp_reserved_on r" "sp_reserved r0 = sp_reserved r"
    "decimal_odds_of d = Ok odds" "reset_basis d odds r0 = Ok r1"
    "charge_day None (Fin 0) r1 = Ok r2" "r' = r2\<lparr>sp_tier := dt_tier d, sp_reason := dt_reason d\<rparr>"
    using restakedE [OF r] by (metis option.case(1))
  have "r2 = r1" using b(5) by (auto elim: charge_dayE)
  moreover have "basis_ok (sp_basis_stake r1) (sp_basis_effective r1)" by (rule reset_basis_ok [OF d(1) b(3, 4)])
  moreover have "sp_reserved_on r1 = None" "sp_reserved r1 = sp_reserved r" using basis_other(1) [OF b(4)] b(1, 2) ok(2) by simp_all
  ultimately show ?thesis using b(6) d(2) ok(1) by (simp add: row_inv_def reserved_ok_def)
qed

subsection \<open>A transaction\<close>

lemma find_snoc: "find P xs = None \<Longrightarrow> find P (xs @ [x]) = (if P x then Some x else None)"
  by (induction xs) (auto split: if_splits)

text \<open>A premium candidate as the cycle makes it: its fraction is the final stake of its breakdown.\<close>

definition candidate_ok :: "detection \<Rightarrow> pyfloat \<Rightarrow> bool" where
  "candidate_ok d final_stake \<longleftrightarrow> valid_detection d \<and> dt_tier d = premium \<and> dt_fraction d = final_stake"

lemma stake_amount_grid: "stake_amount f bankroll = Ok a \<Longrightarrow> on_grid 2 a"
proof -
  assume "stake_amount f bankroll = Ok a"
  then obtain y where "quantize_cents_half_up y = Ok a" by (auto simp: stake_amount_def split: if_splits pyfloat.splits)
  then have "a = of_int (round_half_up (y * 100)) / 100" by (simp add: quantize_cents_half_up_def cents_of_def split: if_splits)
  then obtain n where "a = of_int n / 100" by blast
  then have "a * 10 ^ 2 = of_int n" by simp
  then show ?thesis unfolding on_grid_iff by blast
qed

lemma valid_same_bet: "same_bet p d \<Longrightarrow> valid_detection d \<Longrightarrow> p = d \<or> stake_amount x bankroll = Ok (dt_amount p) \<Longrightarrow> valid_detection p"
  using stake_amount_grid [of x bankroll "dt_amount p"] same_bet_facts(4) [of p d] by (auto simp: valid_detection_def)

lemma float_eq_Fin: "f_eq a (Fin y) \<Longrightarrow> a = Fin y"
  by (cases a) auto

lemma grant_positive:
  assumes "restaked p False on g increment r = Ok r'" "dt_fraction p = g \<or> f_eq g (dt_fraction p)" "\<not> f_le g (Fin 0)"
  shows "f_lt (Fin 0) g"
proof -
  obtain y where "dt_fraction p = Fin y"
    using restaked_stake [OF assms(1)] by (cases "dt_fraction p") (auto simp: float_column_def)
  then have "g = Fin y" using assms(2) float_eq_Fin by auto
  then show ?thesis using assms(3) by simp
qed

text \<open>The row before the stake is written, and how the table ends up, for the three kinds of transaction.\<close>

definition before_stake :: "persist_outcome \<Rightarrow> stored_pick \<Rightarrow> bool" where
  "before_stake oc r \<longleftrightarrow> sp_tier r = premium \<and> sp_status r = open_status \<and> sp_close r = no_close \<and> reserved_ok r
    \<and> basis_ok (sp_basis_stake r) (sp_basis_effective r)
    \<and> (is_repriced oc \<longleftrightarrow> sp_reserved_on r \<noteq> None)"

lemma persisted_row:
  assumes inv: "pick_inv rows" and d: "valid_detection d" "dt_tier d = premium"
    and p: "persist_pick event version now d rows = Ok (oc, rows1)" "oc \<noteq> Duplicate" "oc \<noteq> Duplicate_Denied"
    and f: "find (has_key event version d) rows1 = Some r" and k: "key_of r' = key_of r" and i': "before_stake oc r \<Longrightarrow> row_inv r'"
  shows "before_stake oc r \<and> pick_inv (change_row event version d (\<lambda>_. r') rows1)
    \<and> day_charges day (change_row event version d (\<lambda>_. r') rows1)
        = day_charges day rows - (if is_repriced oc then carried day r else 0) + charge_of day r'"
  using p(1)
proof (cases rule: persist_cases)
  case (insert row)
  note n = new_row_facts [OF insert(3)]
  have h: "has_key event version d row" using n(1) by (simp add: has_key_iff)
  have r: "r = row" using f h find_snoc [of "has_key event version d" "supersede_older_versions event version d (dt_tier d) rows" row] insert(2)
    by (simp add: insert(4) find_superseded)
  have c: "change_row event version d (\<lambda>_. r') rows1 = supersede_older_versions event version d premium rows @ [r']"
    unfolding insert(4) d(2) by (rule change_appended [OF insert(2) h])
  have b: "basis_ok (sp_basis_stake row) (sp_basis_effective row)" using n(7) stake_columns_basis [OF d(1)] by auto
  have res: "sp_reserved row = None" using insert(3) by (auto simp: new_row_def rbind_Ok_iff)
  have kr: "key_of r' = detection_key event version d" using k r n(1) by simp
  have before: "before_stake oc r" using n b res r insert(1) d(2) by (simp add: before_stake_def reserved_ok_def is_repriced_def)
  note i = i' [OF before]
  have "pick_inv (supersede_older_versions event version d premium rows @ [r'])"
  proof (rule inv_append [OF inv_supersede [OF inv] _ i])
    show nk: "key_of q \<noteq> key_of r'" if "q \<in> set (supersede_older_versions event version d premium rows)" for q
      using find_key_None [of event version d "supersede_older_versions event version d premium rows" q] insert(2) that kr
      by (simp add: find_superseded has_key_iff)
    show "bet_of q \<noteq> bet_of r'" if q: "q \<in> set (supersede_older_versions event version d premium rows)" "live_premium q" for q
    proof
      assume e: "bet_of q = bet_of r'"
      then have "bet_of q = (event, dt_market d, dt_detail d, dt_selection d)" using kr by (simp add: detection_bet)
      then have "sp_version q = version" using superseded_alone [OF q] by blast
      then show False using nk [OF q(1)] e kr by (simp add: bet_key detection_bet)
    qed
  qed
  then show ?thesis using before insert(1) unfolding c by (simp add: is_repriced_def) (simp add: day_charges_sum)
next
  case (upgrade r0 s m)
  have r: "r = promoted now d s m r0"
    using f unfolding upgrade(7) by (simp add: find_superseded find_changed upgrade(2))
  have r0: "r0 \<in> set rows" "has_key event version d r0" using find_key_Some [OF upgrade(2)] by simp_all
  have i0: "row_inv r0" using pick_invD(2) [OF inv r0(1)] .
  have kr: "key_of r' = detection_key event version d" using k r r0(2) by (simp add: has_key_iff)
  have "sp_reserved_on r0 = None" using i0 upgrade(4) by (auto simp: row_inv_def premium_def volume_def)
  moreover have "basis_ok (sr_amount s) (sr_effective s)" by (rule stake_columns_basis [OF d(1) upgrade(6)])
  ultimately have before: "before_stake oc r"
    using r upgrade(1, 5) i0 by (simp add: before_stake_def promoted_def is_repriced_def reserved_ok_def row_inv_def)
  note i = i' [OF before]
  have c: "change_row event version d (\<lambda>_. r') rows1 = change_row event version d (\<lambda>_. r') (supersede_older_versions event version d premium rows)"
    unfolding upgrade(7) change_superseded [OF key_changes(1) kr]
    using change_superseded [where f = "\<lambda>x. x", OF refl kr, of premium rows] by (simp add: change_row_def)
  have fs: "find (has_key event version d) (supersede_older_versions event version d premium rows) = Some r0" by (simp add: find_superseded upgrade(2))
  have "pick_inv (change_row event version d (\<lambda>_. r') (supersede_older_versions event version d premium rows))"
  proof (rule inv_change [OF inv_supersede [OF inv] fs kr i])
    fix q assume q: "q \<in> set (supersede_older_versions event version d premium rows)" "q \<noteq> r0" "live_premium q"
    show "bet_of q \<noteq> bet_of r'"
    proof
      assume e: "bet_of q = bet_of r'"
      then have "bet_of q = (event, dt_market d, dt_detail d, dt_selection d)" using kr by (simp add: detection_bet)
      then have "sp_version q = version" using superseded_alone [OF q(1, 3)] by blast
      then have "key_of q = key_of r0" using e kr r0(2) by (simp add: bet_key has_key_iff detection_bet)
      then show False using unique_key_row [OF pick_invD(1) [OF inv_supersede [OF inv]] q(1)] find_key_Some [OF fs] q(2) by blast
    qed
  qed
  moreover have "day_charges day (change_row event version d (\<lambda>_. r') (supersede_older_versions event version d premium rows))
      = day_charges day rows + charge_of day r'"
    using change_charges [OF pick_invD(1) [OF inv_supersede [OF inv]] fs] charge_volume [OF upgrade(4)] by simp
  ultimately show ?thesis using before upgrade(1) unfolding c by (simp add: is_repriced_def)
next
  case (reprice r0 s m odds)
  have r: "r = repriced d s m r0" using f unfolding reprice(9) by (simp add: find_changed reprice(2))
  have r0: "r0 \<in> set rows" "has_key event version d r0" using find_key_Some [OF reprice(2)] by simp_all
  have i0: "row_inv r0" using pick_invD(2) [OF inv r0(1)] .
  have kr: "key_of r' = detection_key event version d" using k r r0(2) by (simp add: has_key_iff)
  have c: "change_row event version d (\<lambda>_. r') rows1 = change_row event version d (\<lambda>_. r') rows"
    unfolding reprice(9) using kr by (simp add: change_row_def has_key_iff comp_def)
  have on: "sp_reserved_on r0 \<noteq> None" using i0 reprice(4) by (auto simp: row_inv_def premium_def volume_def)
  have before: "before_stake oc r" using r reprice(1, 4, 5) i0 on
    by (simp add: before_stake_def repriced_def is_repriced_def reserved_ok_def row_inv_def)
  note i = i' [OF before]
  have "pick_inv (change_row event version d (\<lambda>_. r') rows)"
  proof (rule inv_change [OF inv reprice(2) kr i])
    fix q assume q: "q \<in> set rows" "q \<noteq> r0" "live_premium q"
    have "live_premium r0" using reprice(4, 5) by (simp add: live_premium_def)
    then have "bet_of q \<noteq> bet_of r0" using pick_invD(3) [OF inv q(1) r0(1)] q by blast
    moreover have "bet_of r' = bet_of r0" using kr r0(2) by (simp add: has_key_iff) (metis bet_key)
    ultimately show "bet_of q \<noteq> bet_of r'" by simp
  qed
  moreover have "charge_of day r0 = carried day r0" by (rule charge_carried [OF reprice(4) on])
  moreover have "carried day r = carried day r0" unfolding r by (simp add: carried_def repriced_def)
  ultimately show ?thesis using before reprice(1) change_charges [OF pick_invD(1) [OF inv] reprice(2)]
    unfolding c by (simp add: is_repriced_def)
qed (use p in auto)

text \<open>What a transaction that stores does: the invariant stays, and the durable charge follows the grant.\<close>

lemma stored_transaction:
  assumes inv: "pick_inv rows" and d: "candidate_ok d final_stake"
    and t: "persist_and_reserve dir bankroll fault now d final_stake ref l rows = ((Stored oc, staked), l', rows')"
    and oc: "oc \<noteq> Duplicate" "oc \<noteq> Duplicate_Denied"
  shows "pick_inv rows' \<and> (\<exists>g. reserve l (day_of now) (requested_stake oc final_stake) (Some ref) = Ok (l', g)
    \<and> \<bar>day_charges (day_of now) rows' - day_charges (day_of now) rows - granted_value g\<bar> \<le> 1 / 10 ^ 6)"
  using t
proof (cases rule: stored_result)
  case (known kn event version)
  then show ?thesis using oc by blast
next
  case (new kn event version rows1 g)
  let ?d = "day_of now"
  have v: "valid_detection d" "dt_tier d = premium" "dt_fraction d = final_stake" using d by (simp_all add: candidate_ok_def)
  have bd: "before_stake oc r \<Longrightarrow> sp_tier r = premium \<and> reserved_ok r \<and> basis_ok (sp_basis_stake r) (sp_basis_effective r)
      \<and> (is_repriced oc \<longleftrightarrow> sp_reserved_on r \<noteq> None)" for r
    by (simp add: before_stake_def)
  have gain: "pick_inv rows' \<and> \<bar>day_charges ?d rows' - day_charges ?d rows - granted_value g\<bar> \<le> 1 / 10 ^ 6"
    using new(7)
  proof (cases rule: write_grantE)
    case (demote r r' z)
    have vz: "valid_detection (demoted d z)" "dt_tier (demoted d z) = volume"
      using v(1) stake_amount_grid [OF demote(4)] by (simp_all add: valid_detection_def demoted_def with_stake_def)
    have g0: "granted_value g = 0" using demote(2) by (cases g) (simp_all add: granted_value_def)
    have after: "before_stake oc r \<Longrightarrow> row_inv r' \<and> sp_tier r' = volume"
      using restaked_demote [OF demote(6) vz] bd [of r] demote(3) by blast
    note row = persisted_row [OF inv v(1, 2) new(5, 3, 4) demote(5) restaked_other(1) [OF demote(6)], of ?d]
    have "charge_of ?d r' = 0" using after row charge_volume by blast
    then show ?thesis using row after g0 demote(3, 7) by simp
  next
    case (stake p r r' inc)
    have vp: "valid_detection p" using valid_same_bet [OF stake(3) v(1) stake(5)] .
    have iv: "case inc of None \<Rightarrow> True | Some i \<Rightarrow> on_grid 2 i"
      using stake(6) stake_amount_grid by (auto simp: rmap_Ok_iff split: if_splits)
    have pos: "\<not> is_repriced oc \<Longrightarrow> f_lt (Fin 0) g"
    proof -
      assume nr: "\<not> is_repriced oc"
      then have "total_stake oc g = g" by (cases oc) (simp_all add: total_stake_def is_repriced_def)
      then have "dt_fraction p = g \<or> f_eq g (dt_fraction p)" using stake(4) v(3) by auto
      then show ?thesis using grant_positive [OF stake(8)] stake(2) nr by blast
    qed
    have after: "before_stake oc r \<Longrightarrow> row_inv r' \<and> sp_tier r' = premium
        \<and> \<bar>charge_of ?d r' - carried ?d r - granted_value g\<bar> \<le> 1 / 10 ^ 6"
      using restaked_grant [OF stake(8) vp iv] bd [of r] pos by blast
    note row = persisted_row [OF inv v(1, 2) new(5, 3, 4) stake(7) restaked_other(1) [OF stake(8)], of ?d]
    have b: "before_stake oc r" using row after by blast
    have "\<not> is_repriced oc \<Longrightarrow> carried ?d r = 0" using bd [OF b] by (simp add: carried_def)
    then show ?thesis using row after [OF b] stake(9) by (cases "is_repriced oc") simp_all
  qed
  then show ?thesis using new(6) by blast
qed

end
