(* ===== verification/PickRuns.thy ===== *)
theory PickRuns
  imports PickBook
begin

text \<open>
  Runs: recommendations, shadow picks, and what other parts of the program write on a row, in any order.  The
  invariant of the table, the durable charges of the day against what was granted, and the seed of the ledger.
\<close>

subsection \<open>Actions\<close>

type_synonym desk = "ledger \<times> book"

text \<open>A premium candidate of a cycle, a volume pick, the end of an open pick with what was written on its
  close, and a restart, whose ledger is seeded from the table.  No other part of the program opens a pick again
  or touches its tier, its stake or its charge.\<close>

datatype action =
    Recommend directory rat where_it_fails time detection string
  | Shadow directory where_it_fails time detection
  | Elsewhere pick_key string close_columns
  | Restart time "int \<Rightarrow> string"

definition written_elsewhere :: "pick_key \<Rightarrow> string \<Rightarrow> close_columns \<Rightarrow> stored_pick \<Rightarrow> stored_pick" where
  "written_elsewhere k status close r = (if key_of r = k then r\<lparr>sp_status := status, sp_close := close\<rparr> else r)"

fun act :: "action \<Rightarrow> desk \<Rightarrow> desk" where
  "act (Recommend dir bankroll fault now d ref) (l, rows) = snd (persist_and_reserve dir bankroll fault now d (dt_fraction d) ref l rows)"
| "act (Shadow dir fault now d) (l, rows) = (l, snd (maybe_persist dir fault now d rows))"
| "act (Elsewhere k status close) (l, rows) = (l, map (written_elsewhere k status close) rows)"
| "act (Restart now ref_of) (l, rows) =
     (case seed_exposure_ledger now ref_of rows (new_ledger (max_daily_fraction l) (max_event_fraction l)) of
        Inl _ \<Rightarrow> (l, rows) | Inr l1 \<Rightarrow> (l1, rows))"

text \<open>What an action grants for good.\<close>

fun granted_by :: "action \<Rightarrow> desk \<Rightarrow> rat" where
  "granted_by (Recommend dir bankroll fault now d ref) (l, rows) =
     (case fst (fst (persist_and_reserve dir bankroll fault now d (dt_fraction d) ref l rows)) of
        Unpersisted \<Rightarrow> 0
      | Stored oc \<Rightarrow> if oc = Duplicate \<or> oc = Duplicate_Denied then 0
          else (case reserve l (day_of now) (requested_stake oc (dt_fraction d)) (Some ref) of
                  Inl _ \<Rightarrow> 0 | Inr (_, g) \<Rightarrow> granted_value g))"
| "granted_by (Shadow dir fault now d) s = 0"
| "granted_by (Elsewhere k status close) s = 0"
| "granted_by (Restart now ref_of) s = 0"

fun run :: "action list \<Rightarrow> desk \<Rightarrow> desk" where
  "run [] s = s"
| "run (a # as) s = run as (act a s)"

fun granted_in :: "action list \<Rightarrow> desk \<Rightarrow> rat" where
  "granted_in [] s = 0"
| "granted_in (a # as) s = granted_by a s + granted_in as (act a s)"

text \<open>Actions of one day.  A row that was displaced or settled is not written as open.\<close>

fun action_of :: "day \<Rightarrow> action \<Rightarrow> bool" where
  "action_of day (Recommend dir bankroll fault now d ref) \<longleftrightarrow> day_of now = day \<and> valid_detection d \<and> dt_tier d = premium \<and> float_in (dt_fraction d) 1"
| "action_of day (Shadow dir fault now d) \<longleftrightarrow> valid_detection d \<and> dt_tier d = volume"
| "action_of day (Elsewhere k status close) \<longleftrightarrow> status \<noteq> open_status"
| "action_of day (Restart now ref_of) \<longleftrightarrow> day_of now = day"

subsection \<open>Each action\<close>

lemma recommend_kept:
  assumes "pick_inv rows" "valid_detection d" "dt_tier d = premium"
  shows "pick_inv (snd (act (Recommend dir bankroll fault now d ref) (l, rows)))
    \<and> \<bar>day_charges (day_of now) (snd (act (Recommend dir bankroll fault now d ref) (l, rows))) - day_charges (day_of now) rows
        - granted_by (Recommend dir bankroll fault now d ref) (l, rows)\<bar> \<le> 1 / 10 ^ 6"
proof -
  obtain rep staked l' rows' where t: "persist_and_reserve dir bankroll fault now d (dt_fraction d) ref l rows = ((rep, staked), l', rows')"
    by (metis surj_pair)
  show ?thesis
  proof (cases rep)
    case Unpersisted
    then show ?thesis using unpersisted_result [of dir bankroll fault now d "dt_fraction d" ref l rows staked l' rows'] t assms(1) by simp
  next
    case (Stored oc)
    note t = t [unfolded Stored]
    have d: "candidate_ok d (dt_fraction d)" using assms by (simp add: candidate_ok_def)
    show ?thesis
    proof (cases "oc = Duplicate \<or> oc = Duplicate_Denied")
      case True
      from t have "rows' = rows"
      proof (cases rule: stored_result)
        case new
        then show ?thesis using True by blast
      qed simp
      then show ?thesis using t True assms(1) by simp
    next
      case False
      then obtain g where "pick_inv rows'" "reserve l (day_of now) (requested_stake oc (dt_fraction d)) (Some ref) = Ok (l', g)"
        "\<bar>day_charges (day_of now) rows' - day_charges (day_of now) rows - granted_value g\<bar> \<le> 1 / 10 ^ 6"
        using stored_transaction [OF assms(1) d t] by blast
      then show ?thesis using t False by simp
    qed
  qed
qed

lemma volume_persist:
  assumes "persist_pick event version now d rows = Ok (oc, rows')" "dt_tier d = volume"
  obtains "rows' = rows" | row where "find (has_key event version d) rows = None" "new_row event version now d = Ok row"
    "rows' = supersede_older_versions event version d volume rows @ [row]"
  using assms(1)
proof (cases rule: persist_cases)
  case insert
  then show thesis using that assms(2) by simp
qed (use that assms(2) in \<open>simp_all add: premium_def volume_def\<close>)

lemma shadow_persist:
  assumes "persist_pick event version now d rows = Ok (oc, rows')" "dt_tier d = volume" "valid_detection d" "pick_inv rows"
  shows "pick_inv rows' \<and> day_charges day rows' = day_charges day rows"
  using assms(1, 2)
proof (cases rule: volume_persist)
  case (2 row)
  let ?rows = "supersede_older_versions event version d volume rows"
  note n = new_row_facts [OF 2(2)]
  have "sp_reserved row = None" using 2(2) by (auto simp: new_row_def rbind_Ok_iff)
  then have i: "row_inv row" using n(2, 4, 7) stake_columns_basis [OF assms(3)] assms(2) by (auto simp: row_inv_def)
  have "\<not> live_premium row" using n(2) assms(2) by (simp add: live_premium_def premium_def volume_def)
  moreover have "key_of q \<noteq> key_of row" if "q \<in> set ?rows" for q
    using find_key_None [of event version d ?rows q] 2(1) that n(1) by (simp add: find_superseded has_key_iff)
  ultimately have "pick_inv (?rows @ [row])" using inv_append [OF inv_supersede [OF assms(4)] _ i] by blast
  moreover have "charge_of day row = 0" using charge_volume n(2) assms(2) by simp
  ultimately show ?thesis using 2(3) by (simp add: day_charges_sum) (simp flip: day_charges_sum)
qed (use assms(4) in simp)

lemma shadow_kept:
  assumes "pick_inv rows" "valid_detection d" "dt_tier d = volume"
  shows "pick_inv (snd (act (Shadow dir fault now d) (l, rows)))
    \<and> day_charges day (snd (act (Shadow dir fault now d) (l, rows))) = day_charges day rows"
proof -
  have "snd (maybe_persist dir fault now d rows) = rows
    \<or> (\<exists>event version oc. persist_pick event version now d rows = Ok (oc, snd (maybe_persist dir fault now d rows)))"
    by (auto simp: maybe_persist_def split: option.splits sum.splits)
  then show ?thesis using shadow_persist [OF _ assms(3, 2, 1)] assms(1) by auto
qed

lemma elsewhere_facts:
  "key_of (written_elsewhere k status close r) = key_of r" "charge_of day (written_elsewhere k status close r) = charge_of day r"
  "row_inv (written_elsewhere k status close r) = row_inv r" "bet_of (written_elsewhere k status close r) = bet_of r"
  "status \<noteq> open_status \<Longrightarrow> live_premium (written_elsewhere k status close r) \<Longrightarrow> written_elsewhere k status close r = r"
proof -
  have w: "written_elsewhere k status close r = (if key_of r = k then r\<lparr>sp_status := status, sp_close := close\<rparr> else r)"
    by (rule written_elsewhere_def)
  show "key_of (written_elsewhere k status close r) = key_of r" "charge_of day (written_elsewhere k status close r) = charge_of day r"
    "row_inv (written_elsewhere k status close r) = row_inv r" "bet_of (written_elsewhere k status close r) = bet_of r"
    unfolding w by (simp_all add: key_of_def charge_of_def charged_today_def exposure_charge_def row_inv_def bet_of_def) auto
  show "status \<noteq> open_status \<Longrightarrow> live_premium (written_elsewhere k status close r) \<Longrightarrow> written_elsewhere k status close r = r"
    by (cases "key_of r = k") (simp_all add: w live_premium_def)
qed

lemma elsewhere_kept:
  assumes inv: "pick_inv rows" and st: "status \<noteq> open_status"
  shows "pick_inv (map (written_elsewhere k status close) rows) \<and> day_charges day (map (written_elsewhere k status close) rows) = day_charges day rows"
proof
  let ?w = "written_elsewhere k status close"
  show "day_charges day (map ?w rows) = day_charges day rows" by (simp add: day_charges_sum comp_def elsewhere_facts)
  have "?w r = ?w q" if r: "r \<in> set rows" "q \<in> set rows" and l: "live_premium (?w r)" "live_premium (?w q)" "bet_of (?w r) = bet_of (?w q)" for r q
  proof -
    have "?w r = r" "?w q = q" using l(1, 2) elsewhere_facts(5) [OF st] by blast+
    then show ?thesis using pick_invD(3) [OF inv r] l by simp
  qed
  moreover have "unique_keys (map ?w rows)" using pick_invD(1) [OF inv] by (simp add: unique_keys_def comp_def elsewhere_facts)
  ultimately show "pick_inv (map ?w rows)" using pick_invD(2) [OF inv] unfolding pick_inv_def by (auto simp: elsewhere_facts)
qed

lemma act_kept:
  assumes "pick_inv (snd s)" "action_of day a"
  shows "pick_inv (snd (act a s)) \<and> \<bar>day_charges day (snd (act a s)) - day_charges day (snd s) - granted_by a s\<bar> \<le> 1 / 10 ^ 6"
proof (cases a)
  case (Recommend dir bankroll fault now d ref)
  then show ?thesis using recommend_kept [of "snd s" d dir bankroll fault now ref "fst s"] assms by simp
next
  case (Shadow dir fault now d)
  then show ?thesis using shadow_kept [of "snd s" d dir fault now "fst s" day] assms by simp
next
  case (Elsewhere k status close)
  then show ?thesis using elsewhere_kept [of "snd s" status k close day] assms by (cases s) simp
next
  case (Restart now ref_of)
  then show ?thesis using assms(1) by (cases s) (simp split: sum.splits)
qed

subsection \<open>Runs\<close>

lemma run_kept:
  "pick_inv (snd s) \<Longrightarrow> list_all (action_of day) as \<Longrightarrow>
     pick_inv (snd (run as s)) \<and> \<bar>day_charges day (snd (run as s)) - day_charges day (snd s) - granted_in as s\<bar> \<le> of_nat (length as) / 10 ^ 6"
proof (induction as arbitrary: s)
  case (Cons a as)
  have k: "pick_inv (snd (act a s))" "\<bar>day_charges day (snd (act a s)) - day_charges day (snd s) - granted_by a s\<bar> \<le> 1 / 10 ^ 6"
    using act_kept [OF Cons.prems(1), of day a] Cons.prems(2) by simp_all
  have "pick_inv (snd (run as (act a s)))"
    "\<bar>day_charges day (snd (run as (act a s))) - day_charges day (snd (act a s)) - granted_in as (act a s)\<bar> \<le> of_nat (length as) / 10 ^ 6"
    using Cons.IH [OF k(1)] Cons.prems(2) by simp_all
  moreover have "(of_nat (length (a # as)) :: rat) / 10 ^ 6 = of_nat (length as) / 10 ^ 6 + 1 / 10 ^ 6" by (simp add: add_divide_distrib)
  ultimately show ?case using k(2) unfolding run.simps granted_in.simps by linarith
qed simp

subsection \<open>The ledger of the day against the table\<close>

lemma near: "0 \<le> x \<Longrightarrow> x \<le> 4 \<Longrightarrow> f64 x = Fin (rnd x) \<and> 0 \<le> rnd x \<and> is_f64 (rnd x) \<and> \<bar>rnd x - x\<bar> \<le> 1 / 10 ^ 7"
proof (intro conjI)
  assume x: "0 \<le> x" "x \<le> 4"
  have "is_f64 4" by code_simp
  from f64_Fin_between [OF is_f64_0 this x] show "f64 x = Fin (rnd x)" "0 \<le> rnd x" "is_f64 (rnd x)" by blast+
  show "\<bar>rnd x - x\<bar> \<le> 1 / 10 ^ 7"
  proof (cases "x = 0")
    case False
    then have "\<bar>rnd x - x\<bar> \<le> ulp x / 2" "ulp x \<le> ulp 4" using rnd_error [of x] ulp_mono [of x 4] x by auto
    moreover have "ulp 4 / 2 \<le> 1 / 10 ^ 7" by code_simp
    ultimately show ?thesis by linarith
  qed simp
qed

lemma repr_near: "is_f64 y \<Longrightarrow> 0 < y \<Longrightarrow> y \<le> 1 \<Longrightarrow> \<bar>repr_float y - y\<bar> \<le> 1 / 10 ^ 7"
proof -
  assume y: "is_f64 y" "0 < y" "y \<le> 1"
  have r: "rnd (repr_float y) = y" using repr_float_roundtrip [OF y(1)] by (simp add: f64_def Let_def split: if_splits)
  have "0 \<le> repr_float y" using repr_from_pos y(2) by (simp add: repr_float_def less_imp_le)
  moreover have "repr_float y \<le> 4"
  proof (rule ccontr)
    assume "\<not> repr_float y \<le> 4"
    then have "rnd 4 \<le> y" using rnd_mono [of 4 "repr_float y"] r by simp
    moreover have "rnd 4 = 4" by code_simp
    ultimately show False using y(3) by simp
  qed
  ultimately show ?thesis using near [of "repr_float y"] r by (simp add: abs_minus_commute)
qed

lemma wf_ops [wf_intros]:
  "wf_float (f_sub a b)" "wf_float a \<Longrightarrow> wf_float b \<Longrightarrow> wf_float (f_min a b)"
  "wf_float a \<Longrightarrow> wf_float b \<Longrightarrow> wf_float (f_max a b)" "wf_float (Fin 0)"
  by (cases a; cases b; simp add: f_sub_def f_min_def f_max_def wf_float_def wf_f64 [unfolded wf_float_def])+

lemma tiny: "(1 / 10 ^ 7 :: rat) = 1 / 10 ^ 6 / 10" "(0 :: rat) < 1 / 10 ^ 6"
  by simp_all

text \<open>The day's charges and the ledger differ by at most \<^verbatim>\<open>e\<close>, and neither exceeds the cap by more.\<close>

definition desk_inv :: "rat \<Rightarrow> day \<Rightarrow> rat \<Rightarrow> desk \<Rightarrow> bool" where
  "desk_inv m day e s \<longleftrightarrow> max_daily_fraction (fst s) = Fin m \<and> pick_inv (snd s)
     \<and> day_charges day (snd s) \<le> m + ulp m + e
     \<and> (case used (fst s) day of Fin u \<Rightarrow> is_f64 u \<and> 0 \<le> u \<and> u \<le> m + ulp m + e \<and> \<bar>day_charges day (snd s) - u\<bar> \<le> e | _ \<Rightarrow> False)"

lemma desk_invI:
  "max_daily_fraction l = Fin m \<Longrightarrow> pick_inv rows \<Longrightarrow> day_charges day rows \<le> m + ulp m + e \<Longrightarrow> used l day = Fin u \<Longrightarrow>
     is_f64 u \<Longrightarrow> 0 \<le> u \<Longrightarrow> u \<le> m + ulp m + e \<Longrightarrow> \<bar>day_charges day rows - u\<bar> \<le> e \<Longrightarrow> desk_inv m day e (l, rows)"
  by (simp add: desk_inv_def)

lemma desk_invE:
  assumes "desk_inv m day e (l, rows)"
  obtains u where "max_daily_fraction l = Fin m" "pick_inv rows" "day_charges day rows \<le> m + ulp m + e" "used l day = Fin u"
    "is_f64 u" "0 \<le> u" "u \<le> m + ulp m + e" "\<bar>day_charges day rows - u\<bar> \<le> e"
  using assms by (auto simp: desk_inv_def split: pyfloat.splits)

lemma cap_ulp: "fraction_cap m \<Longrightarrow> 0 < m \<and> m \<le> 1 \<and> m + ulp m \<le> 1 + 1 / 10 ^ 7"
proof -
  assume "fraction_cap m"
  then have m: "0 < m" "m \<le> 1" using fraction_capD by blast+
  have "ulp m \<le> ulp 1" using ulp_mono m by blast
  moreover have "ulp 1 \<le> 1 / 10 ^ 7" by code_simp
  ultimately show ?thesis using m by linarith
qed

text \<open>What a reservation does to the ledger.\<close>

lemma reserve_used:
  assumes m: "max_daily_fraction l = Fin m" "fraction_cap m" and u: "used l day = Fin u" "is_f64 u" "0 \<le> u" "u \<le> 4"
    and x: "wf_float x" and r: "reserve l day x (Some ref) = Ok (l', g)"
  obtains (none) "l' = l" "\<not> f_lt (Fin 0) g" "granted_value g = 0"
    | (some) y where "g = Fin y" "0 < y" "y \<le> 1" "is_f64 y" "u \<le> m" "used l' day = Fin (rnd (u + y))" "is_f64 (rnd (u + y))"
      "rnd (u + y) \<le> m + ulp m" "0 \<le> rnd (u + y)" "\<bar>rnd (u + y) - (u + y)\<bar> \<le> 1 / 10 ^ 7" "\<bar>granted_value g - y\<bar> \<le> 1 / 10 ^ 7"
      "max_daily_fraction l' = Fin m"
proof (cases "f_lt (Fin 0) g")
  case False
  then have "l' = l" using r by (simp add: reserve_Ok_iff split: if_splits)
  moreover have "granted_value g = 0" using False by (cases g) (simp_all add: granted_value_def)
  ultimately show thesis using none False by blast
next
  case True
  have g: "g = grant l day x (Some ref)" using r by (simp add: reserve_Ok_iff)
  have mm: "is_f64 m" "0 < m" "m \<le> 1" using m(2) fraction_capD by blast+
  have rem: "remaining l day = room m (Fin u)" using remaining_room [OF m(1)] u(1) by simp
  have um: "u \<le> m \<and> room m (Fin u) = Fin (rnd (m - u)) \<and> rnd (m - u) \<le> m"
  proof (cases "u \<le> m")
    case True
    have "room m (Fin u) = f_max (f64 (m - u)) (Fin 0)" by (simp add: room_def)
    moreover have "f64 (m - u) = Fin (rnd (m - u))" "0 \<le> rnd (m - u)" "rnd (m - u) \<le> m"
      using f64_Fin_between [OF is_f64_0 mm(1), of "m - u"] u True by simp_all
    ultimately show ?thesis using True by simp
  next
    case False
    have "rnd (m - u) \<le> 0" using rnd_nonpos [of "m - u"] False by simp
    moreover have "f64 (m - u) = Fin (rnd (m - u))" using near [of "u - m"] False u mm rnd_uminus [of "u - m"]
      by (auto simp: f64_def Let_def split: if_splits)
    ultimately have "room m (Fin u) = Fin 0" by (auto simp: room_def)
    then have "f_le g (Fin 0)" using grant_le(2) [of l day x "Some ref"] True g rem by simp
    then show ?thesis using True by (cases g) simp_all
  qed
  have "f_le g (Fin (rnd (m - u)))" using grant_le(2) [of l day x "Some ref"] True g rem um by simp
  then obtain y where y: "g = Fin y" "0 < y" "y \<le> rnd (m - u)" using True by (cases g) auto
  have "wf_float g" unfolding g grant_def remaining_def event_remaining_def using x
    by (auto simp: Let_def split: option.splits intro!: wf_intros)
  then have fy: "is_f64 y" using y(1) by (simp add: wf_float_def)
  have y1: "y \<le> 1" using y(3) um mm by linarith
  have nr: "rnd (u + y) \<le> m + ulp m" using rnd_refill_le [OF u(2, 3) conjunct1 [OF um] mm(1, 2) y(3)] .
  have s: "f64 (u + y) = Fin (rnd (u + y)) \<and> 0 \<le> rnd (u + y) \<and> is_f64 (rnd (u + y)) \<and> \<bar>rnd (u + y) - (u + y)\<bar> \<le> 1 / 10 ^ 7"
    using near [of "u + y"] u(3) y(2) y1 um mm by simp
  have l': "used l' day = f_add (used l day) g" "max_daily_fraction l' = Fin m"
    using r True m(1) by (auto simp: reserve_Ok_iff used_def)
  show thesis using some [OF y(1, 2) y1 fy conjunct1 [OF um] _ _ nr] s l' u(1) y repr_near [OF fy y(2) y1]
    by (simp add: granted_value_def)
qed

lemma released:
  assumes "max_daily_fraction l = Fin m" "used l day = Fin v" "0 \<le> v" "v \<le> 4" "0 < y" "y \<le> v"
  shows "used (hand_back day (Fin y) ref l) day = Fin (rnd (v - y))" "is_f64 (rnd (v - y))" "0 \<le> rnd (v - y)"
    "\<bar>rnd (v - y) - (v - y)\<bar> \<le> 1 / 10 ^ 7" "max_daily_fraction (hand_back day (Fin y) ref l) = Fin m"
proof -
  note n = near [of "v - y"]
  obtain l' where l': "release l day (Fin y) (Some ref) = Ok l'" using assms(5) by (auto simp: release_def Let_def)
  then have "hand_back day (Fin y) ref l = l'" using assms(5) by (simp add: hand_back_def)
  then show "used (hand_back day (Fin y) ref l) day = Fin (rnd (v - y))" "is_f64 (rnd (v - y))" "0 \<le> rnd (v - y)"
    "\<bar>rnd (v - y) - (v - y)\<bar> \<le> 1 / 10 ^ 7" "max_daily_fraction (hand_back day (Fin y) ref l) = Fin m"
    using l' n assms by (auto simp: release_Ok_iff used_def)
qed

lemma requested_wf: "float_in x 1 \<Longrightarrow> wf_float (requested_stake oc x)"
  by (cases oc) (auto simp: requested_stake_def intro!: wf_intros elim!: float_inE, auto simp: wf_float_def)

subsection \<open>Seeding\<close>

lemma charge_nonneg: "row_inv r \<Longrightarrow> 0 \<le> charge_of day r"
  by (auto simp: row_inv_def charge_of_def charged_today_def exposure_charge_def premium_def volume_def split: option.splits)

lemma charges_nonneg: "\<forall>r \<in> set rows. row_inv r \<Longrightarrow> 0 \<le> day_charges day rows"
  unfolding day_charges_sum by (rule sum_list_nonneg) (auto simp: charge_nonneg)

lemma not_negative: "0 \<le> x \<Longrightarrow> \<not> f_lt (f64 x) (Fin 0)"
  using rnd_nonneg [of x] by (auto simp: f64_def Let_def)

lemma preload_events_Ok:
  assumes "\<forall>(ref, x) \<in> set evs. 0 \<le> x" "distinct (map fst evs)"
  shows "\<exists>l1. preload_events day evs l = Ok l1 \<and> used_days l1 = used_days l \<and> max_daily_fraction l1 = max_daily_fraction l
    \<and> max_event_fraction l1 = max_event_fraction l
    \<and> (\<forall>ref. event_used l1 day ref = (case map_of evs ref of None \<Rightarrow> event_used l day ref | Some x \<Rightarrow> f64 x))"
  using assms
proof (induction day evs l rule: preload_events.induct)
  case (2 day ref x rest l)
  let ?l = "l\<lparr>used_events := (used_events l)((day, ref) \<mapsto> f64 x)\<rparr>"
  have p: "preload_event l day ref (f64 x) = Ok ?l" using 2(2) not_negative [of x] by (simp add: preload_event_def)
  obtain l1 where l1: "preload_events day rest ?l = Ok l1" "used_days l1 = used_days ?l" "max_daily_fraction l1 = max_daily_fraction ?l"
    "max_event_fraction l1 = max_event_fraction ?l"
    "\<And>r. event_used l1 day r = (case map_of rest r of None \<Rightarrow> event_used ?l day r | Some y \<Rightarrow> f64 y)"
    using 2(1) [of ?l] 2(2, 3) p by (auto simp: rbind_Ok_iff)
  have "map_of rest ref = None" using 2(3) by (simp add: map_of_eq_None_iff)
  then have "event_used l1 day r = (case map_of ((ref, x) # rest) r of None \<Rightarrow> event_used l day r | Some y \<Rightarrow> f64 y)" for r
    using l1(5) [of r] by (auto simp: event_used_def split: option.splits)
  then show ?case using l1 p by (intro exI [of _ l1]) (simp add: rbind_Ok_iff)
qed (simp add: event_used_def)

lemma day_charges_today: "day_charges day (filter (\<lambda>r. P r) (filter (charged_today day) rows)) = day_charges day (filter P rows)"
  unfolding day_charges_def by (simp add: conj_comms conj_left_commute)

lemma seed_exact:
  assumes "\<forall>r \<in> set rows. row_inv r"
  shows "\<exists>l1. seed_exposure_ledger now ref_of rows l = Ok l1 \<and> used l1 (day_of now) = f64 (day_charges (day_of now) rows)
    \<and> max_daily_fraction l1 = max_daily_fraction l \<and> max_event_fraction l1 = max_event_fraction l
    \<and> (max_event_fraction l = None \<or> (\<forall>r \<in> set rows. \<not> charged_today (day_of now) r \<or>
          event_used l1 (day_of now) (ref_of (sp_event r)) = f64 (day_charges (day_of now) (filter (\<lambda>q. ref_of (sp_event q) = ref_of (sp_event r)) rows))))"
proof -
  let ?d = "day_of now" and ?l = "l\<lparr>used_days := (used_days l)(day_of now \<mapsto> f64 (day_charges (day_of now) rows))\<rparr>"
  have p: "preload l ?d (f64 (day_charges ?d rows)) = Ok ?l" using not_negative [OF charges_nonneg [OF assms]] by (simp add: preload_def)
  show ?thesis
  proof (cases "max_event_fraction l = None")
    case True
    then show ?thesis using p by (simp add: seed_exposure_ledger_def Let_def rbind_Ok_iff used_def)
  next
    case False
    let ?evs = "seed_events ?d ref_of rows"
    have s: "?evs = map (\<lambda>ref. (ref, day_charges ?d (filter (\<lambda>r. ref_of (sp_event r) = ref) rows)))
        (dedup_onto [] (map (ref_of \<circ> sp_event) (filter (charged_today ?d) rows)))"
      unfolding seed_events_def Let_def day_charges_today ..
    have "\<forall>(ref, x) \<in> set ?evs. 0 \<le> x" unfolding s using assms by (auto intro!: charges_nonneg)
    moreover have "distinct (map fst ?evs)" unfolding s by (simp add: comp_def)
    ultimately obtain l1 where l1: "preload_events ?d ?evs ?l = Ok l1" "used_days l1 = used_days ?l"
      "max_daily_fraction l1 = max_daily_fraction l" "max_event_fraction l1 = max_event_fraction l"
      "\<And>ref. event_used l1 ?d ref = (case map_of ?evs ref of None \<Rightarrow> event_used ?l ?d ref | Some x \<Rightarrow> f64 x)"
      using preload_events_Ok [of ?evs ?d ?l] by auto
    have "event_used l1 ?d (ref_of (sp_event r)) = f64 (day_charges ?d (filter (\<lambda>q. ref_of (sp_event q) = ref_of (sp_event r)) rows))"
      if r: "r \<in> set rows" "charged_today ?d r" for r
    proof -
      have "ref_of (sp_event r) \<in> set (dedup_onto [] (map (ref_of \<circ> sp_event) (filter (charged_today ?d) rows)))" using r by auto
      then have "map_of ?evs (ref_of (sp_event r)) = Some (day_charges ?d (filter (\<lambda>q. ref_of (sp_event q) = ref_of (sp_event r)) rows))"
        unfolding s by (simp only: map_of_map_restrict restrict_in comp_def)
      then show ?thesis using l1(5) by simp
    qed
    then show ?thesis using l1 p False by (intro exI [of _ l1]) (auto simp: seed_exposure_ledger_def Let_def rbind_Ok_iff used_def)
  qed
qed

subsection \<open>The machine of a day\<close>

lemma desk_recommend:
  assumes m: "fraction_cap m" and inv: "desk_inv m day e (l, rows)" and e: "0 \<le> e" "e \<le> 2"
    and a: "action_of day (Recommend dir bankroll fault now d ref)"
  shows "desk_inv m day (e + 2 / 10 ^ 6) (act (Recommend dir bankroll fault now d ref) (l, rows))"
proof -
  obtain u where u: "max_daily_fraction l = Fin m" "pick_inv rows" "day_charges day rows \<le> m + ulp m + e" "used l day = Fin u"
    "is_f64 u" "0 \<le> u" "u \<le> m + ulp m + e" "\<bar>day_charges day rows - u\<bar> \<le> e"
    using inv by (rule desk_invE)
  have mm: "0 < m" "m \<le> 1" "m + ulp m \<le> 1 + 1 / 10 ^ 7" using cap_ulp [OF m] by simp_all
  have u4: "u \<le> 4" using u(7) mm(3) e by simp
  have d: "day_of now = day" "valid_detection d" "dt_tier d = premium" "float_in (dt_fraction d) 1" using a by simp_all
  note k = recommend_kept [OF u(2) d(2, 3), of dir bankroll fault now ref l, unfolded d(1)]
  obtain rep staked l' rows' where t: "persist_and_reserve dir bankroll fault now d (dt_fraction d) ref l rows = ((rep, staked), l', rows')"
    by (metis surj_pair)
  have kept: "desk_inv m day (e + 2 / 10 ^ 6) (l, rows)" using u e by (intro desk_invI [OF u(1, 2)]) auto
  show ?thesis
  proof (cases rep)
    case Unpersisted
    have r: "rows' = rows \<and> (l' = l \<or> (\<exists>oc g l1. reserve l (day_of now) (requested_stake oc (dt_fraction d)) (Some ref) = Ok (l1, g)
        \<and> l' = hand_back (day_of now) g ref l1))"
      using unpersisted_result [OF t [unfolded Unpersisted]] by blast
    show ?thesis
    proof (cases "l' = l")
      case True
      then show ?thesis using kept r t by simp
    next
      case False
      then obtain oc g l1 where g: "reserve l day (requested_stake oc (dt_fraction d)) (Some ref) = Ok (l1, g)" "l' = hand_back day g ref l1"
        using r d(1) by auto
      show ?thesis using u(1) m u(4-6) u4 requested_wf [OF d(4)] g(1)
      proof (cases rule: reserve_used)
        case none
        then show ?thesis using kept r t g(2) by (simp add: hand_back_def)
      next
        case (some y)
        have v: "rnd (u + y) \<le> 4" "y \<le> rnd (u + y)" using some mm rnd_mono [of y "u + y"] u(6) by (simp_all add: is_f64_def)
        note b = released [OF some(12, 6, 9) v(1) some(2) v(2)]
        have "\<bar>rnd (rnd (u + y) - y) - (rnd (u + y) - y)\<bar> \<le> 1 / 10000000" "\<bar>rnd (u + y) - (u + y)\<bar> \<le> 1 / 10000000"
          using b(4) some(10) by simp_all
        then have "\<bar>rnd (rnd (u + y) - y) - u\<bar> \<le> 1 / 5000000" by linarith
        then have "rnd (rnd (u + y) - y) \<le> m + ulp m + (e + 1 / 500000)" "\<bar>day_charges day rows - rnd (rnd (u + y) - y)\<bar> \<le> e + 1 / 500000"
          using u(7, 8) by linarith+
        then have "desk_inv m day (e + 2 / 10 ^ 6) (l', rows)"
          using b u(2, 3) g(2) some(1) e by (intro desk_invI [of l' m rows day _ "rnd (rnd (u + y) - y)"]) simp_all
        then show ?thesis using r t by simp
      qed
    qed
  next
    case (Stored oc)
    note t = t [unfolded Stored]
    from t show ?thesis
    proof (cases rule: stored_result)
      case known
      then show ?thesis using kept t by simp
    next
      case (new kn event version rows1 g)
      have c: "pick_inv rows'" "\<bar>day_charges day rows' - day_charges day rows - granted_value g\<bar> \<le> 1 / 10 ^ 6"
        using k t new(3, 4, 6) d(1) by simp_all
      have g: "reserve l day (requested_stake oc (dt_fraction d)) (Some ref) = Ok (l', g)" using new(6) d(1) by simp
      show ?thesis using u(1) m u(4-6) u4 requested_wf [OF d(4)] g
      proof (cases rule: reserve_used)
        case none
        have "\<bar>day_charges day rows' - day_charges day rows\<bar> \<le> 1 / 1000000" using c(2) none(3) by simp
        then have "day_charges day rows' \<le> m + ulp m + (e + 1 / 500000)" "\<bar>day_charges day rows' - u\<bar> \<le> e + 1 / 500000"
          using u(3, 8) by linarith+
        then have "desk_inv m day (e + 2 / 10 ^ 6) (l, rows')" using u e by (intro desk_invI [OF u(1) c(1) _ u(4-6)]) simp_all
        then show ?thesis using t none(1) by simp
      next
        case (some y)
        have "\<bar>day_charges day rows' - day_charges day rows - granted_value g\<bar> \<le> 1 / 1000000"
          "\<bar>rnd (u + y) - (u + y)\<bar> \<le> 1 / 10000000" "\<bar>granted_value g - y\<bar> \<le> 1 / 10000000"
          using c(2) some(10, 11) by simp_all
        then have "\<bar>day_charges day rows' - rnd (u + y)\<bar> \<le> e + 1 / 500000" using u(8) by linarith
        moreover from this have "day_charges day rows' \<le> m + ulp m + (e + 1 / 500000)" using some(8) by linarith
        ultimately have "desk_inv m day (e + 2 / 10 ^ 6) (l', rows')" using some e by (intro desk_invI [OF some(12) c(1) _ some(6, 7, 9)]) simp_all
        then show ?thesis using t by simp
      qed
    qed
  qed
qed

lemma desk_restart:
  assumes m: "fraction_cap m" and inv: "desk_inv m day e (l, rows)" and e: "0 \<le> e" "e \<le> 2" and a: "day_of now = day"
  shows "desk_inv m day (e + 2 / 10 ^ 6) (act (Restart now ref_of) (l, rows))"
proof -
  obtain u where u: "max_daily_fraction l = Fin m" "pick_inv rows" "day_charges day rows \<le> m + ulp m + e"
    using inv by (rule desk_invE)
  have r: "\<forall>r \<in> set rows. row_inv r" using pick_invD(2) [OF u(2)] by blast
  obtain l1 where l1: "seed_exposure_ledger now ref_of rows (new_ledger (max_daily_fraction l) (max_event_fraction l)) = Ok l1"
    "used l1 day = f64 (day_charges day rows)" "max_daily_fraction l1 = max_daily_fraction (new_ledger (max_daily_fraction l) (max_event_fraction l))"
    using seed_exact [OF r, of now ref_of "new_ledger (max_daily_fraction l) (max_event_fraction l)"] a by auto
  have c: "0 \<le> day_charges day rows" "day_charges day rows \<le> 4" using charges_nonneg [OF r] u(3) cap_ulp [OF m] e by auto
  have "\<bar>rnd (day_charges day rows) - day_charges day rows\<bar> \<le> 1 / 10000000" using near [OF c] by simp
  then have "rnd (day_charges day rows) \<le> m + ulp m + (e + 1 / 500000)" "\<bar>day_charges day rows - rnd (day_charges day rows)\<bar> \<le> e + 1 / 500000"
    using u(3) e(1) by linarith+
  then have "desk_inv m day (e + 2 / 10 ^ 6) (l1, rows)"
    using near [OF c] l1(2, 3) u e by (intro desk_invI [of l1 m rows day _ "rnd (day_charges day rows)"]) (auto simp: new_ledger_def)
  then show ?thesis using l1(1) by simp
qed

lemma desk_act:
  assumes "fraction_cap m" "desk_inv m day e s" "0 \<le> e" "e \<le> 2" "action_of day a"
  shows "desk_inv m day (e + 2 / 10 ^ 6) (act a s)"
proof -
  obtain l rows where s: "s = (l, rows)" by (cases s)
  have other: ?thesis if "act a s = (l, rows')" "pick_inv rows' \<and> day_charges day rows' = day_charges day rows" for rows'
    using assms(2, 3) that unfolding s by (auto elim!: desk_invE intro!: desk_invI)
  have inv: "pick_inv rows" using assms(2) unfolding s by (auto elim: desk_invE)
  show ?thesis
  proof (cases a)
    case (Recommend dir bankroll fault now d ref)
    then show ?thesis using desk_recommend assms unfolding s by blast
  next
    case (Shadow dir fault now d)
    then show ?thesis using other [of "snd (maybe_persist dir fault now d rows)"] shadow_kept [OF inv, of d dir fault now l day] assms(5) s by simp
  next
    case (Elsewhere k status close)
    then show ?thesis using other [of "map (written_elsewhere k status close) rows"] elsewhere_kept [OF inv, of status k close day] assms(5) s by simp
  next
    case (Restart now ref_of)
    then show ?thesis using desk_restart assms unfolding s by simp
  qed
qed

lemma desk_run:
  assumes "fraction_cap m"
  shows "desk_inv m day e s \<Longrightarrow> 0 \<le> e \<Longrightarrow> e + 2 * of_nat (length as) / 10 ^ 6 \<le> 2 \<Longrightarrow> list_all (action_of day) as \<Longrightarrow>
    desk_inv m day (e + 2 * of_nat (length as) / 10 ^ 6) (run as s)"
proof (induction as arbitrary: s e)
  case (Cons a as)
  have l: "2 * of_nat (length (a # as)) / 10 ^ 6 = (2 * of_nat (length as) / 10 ^ 6 :: rat) + 2 / 10 ^ 6" by simp
  have "0 \<le> (2 * of_nat (length as) / 10 ^ 6 :: rat)" "0 \<le> (2 / 10 ^ 6 :: rat)" by simp_all
  then have "e \<le> 2" using Cons.prems(3) l by linarith
  then have "desk_inv m day (e + 2 / 10 ^ 6) (act a s)" using desk_act [OF assms Cons.prems(1, 2)] Cons.prems(4) by simp
  moreover have "e + 2 / 10 ^ 6 + 2 * of_nat (length as) / 10 ^ 6 \<le> 2" using Cons.prems(3) l by linarith
  ultimately have "desk_inv m day (e + 2 / 10 ^ 6 + 2 * of_nat (length as) / 10 ^ 6) (run as (act a s))"
    using Cons.IH [of "e + 2 / 10 ^ 6" "act a s"] Cons.prems(2, 4) by simp
  moreover have "e + 2 / 10 ^ 6 + 2 * of_nat (length as) / 10 ^ 6 = e + 2 * of_nat (length (a # as)) / 10 ^ 6" using l by linarith
  ultimately show ?case by (metis run.simps(2))
qed simp

end
