(* ===== verification/PickClaims.thy ===== *)
theory PickClaims
  imports PickRuns Settlement
begin

text \<open>
  The properties of recording picks and reserving their exposure, with a sample candidate for the witnesses.
\<close>

subsection \<open>A sample candidate\<close>

definition sample_mint :: mint where
  "sample_mint = \<lparr>mi_model_probability = Fin (1 / 2), mi_fair_probability = Fin (1 / 2), mi_edge = Fin 0, mi_ev = Fin 0,
     mi_confidence = Fin (1 / 2), mi_filter_score = None, mi_anchor_type = None, mi_anchor_book = None, mi_anchor_confidence = None,
     mi_anchor_how = None, mi_staleness = None, mi_steam_tripped = None, mi_steam_reasons = None, mi_steam_closed = None,
     mi_steam_age = None, mi_book_count = None, mi_fingerprint = None, mi_devig_fell_back = None\<rparr>"

definition sample_pick :: "string \<Rightarrow> rat \<Rightarrow> detection" where
  "sample_pick tier odds = \<lparr>dt_ref = ''e1'', dt_market = ''h2h'', dt_detail = None, dt_selection = ''Home FC'', dt_book = ''bet365'',
     dt_odds = Fin odds, dt_fraction = Fin (1 / 4), dt_amount = 25,
     dt_breakdown = \<lparr>bo_raw_kelly = Fin (1 / 2), bo_fractional = Fin (1 / 4), bo_capped = False, bo_final = Fin (1 / 4), bo_daily_clipped = False\<rparr>,
     dt_reason = ''edge'', dt_tier = tier, dt_hours = None, dt_mint = sample_mint\<rparr>"

definition sample_directory :: "int \<Rightarrow> directory" where
  "sample_directory version = Some (\<lambda>d. if dt_ref d = ''e1'' then Some (7, version) else None)"

definition sample_bankroll :: rat where "sample_bankroll = 100"

text \<open>A volume pick, its promotion, and a restart.\<close>

definition sample_run :: "action list" where
  "sample_run = [Shadow (sample_directory 1) Nowhere 5 (sample_pick volume 2),
     Recommend (sample_directory 1) sample_bankroll Nowhere 6 (sample_pick premium 2) ''e1'',
     Restart 9 (\<lambda>_. ''e1'')]"

definition sample_ledger :: ledger where
  "sample_ledger = new_ledger (Fin (1 / 2)) (Some (Fin (1 / 2)))"

lemma sample_actions: "list_all (action_of 0) sample_run \<and> length sample_run = 3"
  by code_simp

lemma sample_cap: "fraction_cap (1 / 2)"
  by code_simp

definition summary :: "stored_pick \<Rightarrow> string \<times> string \<times> rat \<times> rat \<times> day option \<times> rat option" where
  "summary r = (sp_tier r, sp_status r, sp_basis_stake r, sp_basis_effective r, sp_reserved_on r, sp_reserved r)"

lemma sample_end:
  "(case run sample_run (sample_ledger, []) of (l, rows) \<Rightarrow>
      used l 0 = Fin (1 / 4) \<and> event_used l 0 ''e1'' = Fin (1 / 4) \<and> map summary rows = [(premium, open_status, 25, 50, Some 0, Some (1 / 4))])"
  by code_simp

lemma pick_inv_Nil: "pick_inv []"
  by (simp add: pick_inv_def unique_keys_def)

subsection \<open>The table\<close>

text \<open>C7: Over any sequence of recommendations, volume picks, restarts and writes by other parts of the program, the
  key of a pick is unique, at most one premium row of a bet is open, a premium row carries the charge of a day
  and a volume row none, and the settlement basis of every row is in cents at a price of at least one.\<close>

theorem picks_stay_consistent:
  assumes "pick_inv rows" "list_all (action_of day) as"
  shows "pick_inv (snd (run as (l, rows)))"
  using run_kept [of "(l, rows)" day as] assms by simp

lemma picks_stay_consistent_witness: "pick_inv (snd (run sample_run (sample_ledger, []))) \<and> snd (run sample_run (sample_ledger, [])) \<noteq> []"
  using picks_stay_consistent [OF pick_inv_Nil, of 0 sample_run sample_ledger] sample_actions sample_end
  by (auto split: prod.splits)





subsection \<open>One recommendation\<close>

text \<open>C10: When a recommendation is not recorded, for whatever reason, no row changes, nothing is announced, and the ledger
  of the day is where it was up to the rounding of giving the grant back.\<close>

theorem failed_write_leaves_no_trace:
  assumes "persist_and_reserve (Some known) bankroll fault now d final_stake ref l rows = ((Unpersisted, staked), l', rows')"
    and "max_daily_fraction l = Fin m" "fraction_cap m" "float_in (used l (day_of now)) (m + ulp m)" "float_in final_stake 1"
  shows "rows' = rows \<and> staked = None
    \<and> (case (used l (day_of now), used l' (day_of now)) of (Fin u, Fin v) \<Rightarrow> \<bar>v - u\<bar> \<le> 2 / 10 ^ 7 | _ \<Rightarrow> False)"
proof -
  obtain u where u: "used l (day_of now) = Fin u" "0 \<le> u" "u \<le> m + ulp m" "is_f64 u" using assms(4) by (rule float_inE)
  have mm: "0 < m" "m \<le> 1" "m + ulp m \<le> 1 + 1 / 10 ^ 7" using cap_ulp [OF assms(3)] by simp_all
  have u4: "u \<le> 4" using u(3) mm(3) by simp
  have r: "rows' = rows" "staked = None" "l' = l \<or> (\<exists>oc g l1. reserve l (day_of now) (requested_stake oc final_stake) (Some ref) = Ok (l1, g)
      \<and> l' = hand_back (day_of now) g ref l1)"
    using unpersisted_result [OF assms(1)] by blast+
  have "case (used l (day_of now), used l' (day_of now)) of (Fin u, Fin v) \<Rightarrow> \<bar>v - u\<bar> \<le> 2 / 10 ^ 7 | _ \<Rightarrow> False"
  proof (cases "l' = l")
    case True
    then show ?thesis using u(1) by simp
  next
    case False
    then obtain oc g l1 where g: "reserve l (day_of now) (requested_stake oc final_stake) (Some ref) = Ok (l1, g)"
      "l' = hand_back (day_of now) g ref l1" using r(3) by blast
    show ?thesis using assms(2, 3) u(1, 4, 2) u4 requested_wf [OF assms(5)] g(1)
    proof (cases rule: reserve_used)
      case none
      then show ?thesis using u(1) g(2) by (simp add: hand_back_def)
    next
      case (some y)
      have v: "rnd (u + y) \<le> 4" "y \<le> rnd (u + y)" using some mm rnd_mono [of y "u + y"] u(2) by (simp_all add: is_f64_def)
      note b = released [OF some(12, 6, 9) v(1) some(2) v(2)]
      have "\<bar>rnd (rnd (u + y) - y) - (rnd (u + y) - y)\<bar> \<le> 1 / 10000000" "\<bar>rnd (u + y) - (u + y)\<bar> \<le> 1 / 10000000"
        using b(4) some(10) by simp_all
      then have "\<bar>rnd (rnd (u + y) - y) - u\<bar> \<le> 1 / 5000000" by linarith
      then show ?thesis using u(1) b(1) some(1) g(2) by simp
    qed
  qed
  then show ?thesis using r by blast
qed

lemma sample_failure:
  "(case persist_and_reserve (sample_directory 1) sample_bankroll In_Update 6 (sample_pick premium 2) (Fin (1 / 4)) ''e1'' sample_ledger [] of
     ((Unpersisted, None), l, []) \<Rightarrow> used l 0 = Fin 0 | _ \<Rightarrow> False)"
  by code_simp

lemma failed_write_leaves_no_trace_witness:
  "case persist_and_reserve (sample_directory 1) sample_bankroll In_Update 6 (sample_pick premium 2) (Fin (1 / 4)) ''e1'' sample_ledger [] of
     ((rep, staked), l, rows) \<Rightarrow> rep = Unpersisted \<and> staked = None \<and> rows = [] \<and> (case used l 0 of Fin v \<Rightarrow> \<bar>v\<bar> \<le> 2 / 10 ^ 7 | _ \<Rightarrow> False)"
proof -
  obtain rep staked l rows where t: "persist_and_reserve (sample_directory 1) sample_bankroll In_Update 6 (sample_pick premium 2) (Fin (1 / 4)) ''e1'' sample_ledger []
      = ((rep, staked), l, rows)" by (metis surj_pair)
  then have "rep = Unpersisted" using sample_failure by (auto split: report.splits option.splits list.splits)
  note t = t [unfolded this]
  have "max_daily_fraction sample_ledger = Fin (1 / 2)" "used sample_ledger (day_of 6) = Fin 0" "day_of 6 = 0" "float_in (Fin (1 / 4)) 1"
    "float_in (Fin 0) (1 / 2 + ulp (1 / 2))"
    by code_simp+
  then show ?thesis using failed_write_leaves_no_trace [OF t [unfolded sample_directory_def] _ sample_cap] t by (simp split: pyfloat.splits)
qed

lemma find_const: "find (has_key event version d) rows = Some r \<Longrightarrow> key_of r' = detection_key event version d \<Longrightarrow>
    find (has_key event version d) (change_row event version d (\<lambda>_. r') rows) = Some r'"
  by (induction rows) (auto simp: has_key_iff split: if_splits)

lemma restaked_amount:
  assumes "restaked p keep_tier on g increment r = Ok r'" shows "money_column (dt_amount p) = Ok (sp_amount r')"
proof -
  obtain fc ac odds r1 r2 where x: "money_column (dt_amount p) = Ok ac"
    "(case increment of None \<Rightarrow> reset_basis p odds (r\<lparr>sp_fraction := fc, sp_amount := ac, sp_breakdown := dt_breakdown p\<rparr>)
       | Some i \<Rightarrow> increase_basis p odds i (r\<lparr>sp_fraction := fc, sp_amount := ac, sp_breakdown := dt_breakdown p\<rparr>)) = Ok r1"
    "charge_day on g r1 = Ok r2" "r' = (if keep_tier then r2\<lparr>sp_tier := dt_tier p, sp_reason := dt_reason p\<rparr> else r2)"
    using assms by (auto simp: restaked_def rbind_Ok_iff)
  have "sp_amount r1 = ac" using x(2) by (auto simp: reset_basis_def increase_basis_def rbind_Ok_iff split: option.splits if_splits)
  then have "sp_amount r2 = ac" using x(3) by (auto elim: charge_dayE)
  then show ?thesis using x(1, 4) by simp
qed

text \<open>C11: What is announced is what is booked: the row of the bet is an open premium row without a close, its stake and
  its amount are the columns of the stake and the amount announced, which are what the ledger granted on top of what
  the row had.\<close>

theorem announced_is_booked:
  assumes inv: "pick_inv rows" "candidate_ok d final_stake"
    and t: "persist_and_reserve dir bankroll fault now d final_stake ref l rows = ((Stored oc, Some p), l', rows')" "oc \<noteq> Duplicate"
  shows "\<exists>event version r g. find (has_key event version d) rows' = Some r \<and> sp_tier r = premium \<and> sp_status r = open_status
    \<and> sp_close r = no_close \<and> float_column prob_column (dt_fraction p) = Ok (sp_fraction r) \<and> money_column (dt_amount p) = Ok (sp_amount r)
    \<and> reserve l (day_of now) (requested_stake oc final_stake) (Some ref) = Ok (l', g)
    \<and> (dt_fraction p = total_stake oc g \<or> f_eq (total_stake oc g) (dt_fraction p))"
  using t(1)
proof (cases rule: stored_result)
  case (known kn event version)
  then show ?thesis using t(2) by simp
next
  case (new kn event version rows1 g)
  have v: "valid_detection d" "dt_tier d = premium" "dt_fraction d = final_stake" using inv(2) by (simp_all add: candidate_ok_def)
  from new(7) obtain r r' inc where g: "is_repriced oc \<or> \<not> f_le g (Fin 0)" "same_bet p d"
      "dt_fraction p = total_stake oc g \<or> p = d \<and> f_eq (total_stake oc g) final_stake" "p = d \<or> stake_amount (total_stake oc g) bankroll = Ok (dt_amount p)"
      "(if is_repriced oc then rmap Some (stake_amount g bankroll) else Ok None) = Ok inc"
      "find (has_key event version d) rows1 = Some r" "restaked p False (Some (day_of now)) g inc r = Ok r'"
      "rows' = change_row event version d (\<lambda>_. r') rows1"
    by (cases rule: write_grantE) auto
  have f: "dt_fraction p = total_stake oc g \<or> f_eq (total_stake oc g) (dt_fraction p)" using g(3) v(3) by auto
  have before: "before_stake oc r \<Longrightarrow> row_inv r'"
  proof -
    assume b: "before_stake oc r"
    have "\<not> is_repriced oc \<Longrightarrow> f_lt (Fin 0) g"
    proof -
      assume nr: "\<not> is_repriced oc"
      then have "total_stake oc g = g" by (cases oc) (simp_all add: total_stake_def is_repriced_def)
      then show "f_lt (Fin 0) g" using grant_positive [OF g(7)] f g(1) nr by auto
    qed
    moreover have "case inc of None \<Rightarrow> True | Some i \<Rightarrow> on_grid 2 i" using g(5) stake_amount_grid by (auto simp: rmap_Ok_iff split: if_splits)
    ultimately show "row_inv r'" using restaked_grant [OF g(7) valid_same_bet [OF g(2) v(1) g(4)]] b by (auto simp: before_stake_def)
  qed
  have "before_stake oc r" using persisted_row [OF inv(1) v(1, 2) new(5, 3, 4) g(6) restaked_other(1) [OF g(7)] before] by blast
  moreover have "key_of r' = detection_key event version d" using restaked_other(1) [OF g(7)] find_key_Some [OF g(6)] by (simp add: has_key_iff)
  ultimately show ?thesis
    using find_const [OF g(6)] restaked_other [OF g(7)] restaked_stake [OF g(7)] restaked_amount [OF g(7)] g(8) new(6) f
    by (intro exI [of _ event] exI [of _ version] exI [of _ r'] exI [of _ g]) (simp add: before_stake_def)
qed

lemma sample_new:
  "(case persist_and_reserve (sample_directory 1) sample_bankroll Nowhere 6 (sample_pick premium 2) (Fin (1 / 4)) ''e1'' sample_ledger [] of
     ((rep, staked), l, rows) \<Rightarrow> rep = Stored Inserted \<and> map_option dt_amount staked = Some 25
       \<and> map summary rows = [(premium, open_status, 25, 50, Some 0, Some (1 / 4))])"
  by code_simp

lemma announced_is_booked_witness:
  "case persist_and_reserve (sample_directory 1) sample_bankroll Nowhere 6 (sample_pick premium 2) (Fin (1 / 4)) ''e1'' sample_ledger [] of
     ((rep, Some p), l, rows) \<Rightarrow> rows \<noteq> [] \<and> (\<exists>r. r \<in> set rows \<and> sp_tier r = premium \<and> money_column (dt_amount p) = Ok (sp_amount r)) | _ \<Rightarrow> False"
proof -
  obtain rep staked l rows where t: "persist_and_reserve (sample_directory 1) sample_bankroll Nowhere 6 (sample_pick premium 2) (Fin (1 / 4)) ''e1''
      sample_ledger [] = ((rep, staked), l, rows)" by (metis surj_pair)
  then obtain p where s: "rep = Stored Inserted" "staked = Some p" "rows \<noteq> []" using sample_new by auto
  note t = t [unfolded s(1, 2)]
  have "candidate_ok (sample_pick premium 2) (Fin (1 / 4))" by code_simp
  then obtain event version r where "find (has_key event version (sample_pick premium 2)) rows = Some r" "sp_tier r = premium"
    "money_column (dt_amount p) = Ok (sp_amount r)"
    using announced_is_booked [OF pick_inv_Nil _ t] by auto
  then show ?thesis using t s(3) find_key_Some by (fastforce simp del: numeric_def)
qed

text \<open>A volume pick never closes, replaces or changes a premium row.\<close>

theorem shadow_spares_premium:
  assumes "maybe_persist dir fault now d rows = (rep, rows')" "dt_tier d = volume"
  shows "filter (\<lambda>r. sp_tier r = premium) rows' = filter (\<lambda>r. sp_tier r = premium) rows"
proof (cases "rows' = rows")
  case False
  then obtain event version oc where p: "persist_pick event version now d rows = Ok (oc, rows')"
    using assms(1) by (auto simp: maybe_persist_def split: option.splits sum.splits if_splits)
  have spared: "filter (\<lambda>r. sp_tier r = premium) (supersede_older_versions event version d volume rows) = filter (\<lambda>r. sp_tier r = premium) rows"
    by (induction rows) (auto simp: supersede_older_versions_def older_version_def premium_def volume_def)
  from p assms(2) show ?thesis
  proof (cases rule: volume_persist)
    case (2 row)
    then show ?thesis using new_row_facts(2) [OF 2(2)] assms(2) spared by (simp add: premium_def volume_def)
  qed (use False in simp)
qed simp

lemma shadow_spares_premium_witness:
  "case run sample_run (sample_ledger, []) of (l, rows) \<Rightarrow>
     map summary (filter (\<lambda>r. sp_tier r = premium) (snd (maybe_persist (sample_directory 2) Nowhere 7 (sample_pick volume 2) rows)))
       = [(premium, open_status, 25, 50, Some 0, Some (1 / 4))]"
proof (cases "run sample_run (sample_ledger, [])")
  case (Pair l rows)
  have s: "map summary rows = [(premium, open_status, 25, 50, Some 0, Some (1 / 4))]" using sample_end Pair by simp
  then have "filter (\<lambda>r. sp_tier r = premium) rows = rows" by (auto simp: summary_def)
  then show ?thesis using Pair s
      shadow_spares_premium [of "sample_directory 2" Nowhere 7 "sample_pick volume 2" rows "fst (maybe_persist (sample_directory 2) Nowhere 7 (sample_pick volume 2) rows)"
        "snd (maybe_persist (sample_directory 2) Nowhere 7 (sample_pick volume 2) rows)"]
    by (simp add: sample_pick_def)
qed

subsection \<open>The basis that is settled\<close>

text \<open>A row as settlement reads it.\<close>

definition settlement_view :: "int \<Rightarrow> stored_pick \<Rightarrow> pick_row" where
  "settlement_view i r = \<lparr>pk_id = i, pk_event = sp_event r, pk_model = sp_version r, pk_market = sp_market r, pk_detail = sp_detail r,
     pk_selection = sp_selection r, pk_book = sp_book r, pk_odds = sp_odds r, pk_stake = sp_amount r,
     pk_basis_stake = sp_basis_stake r, pk_basis_term = sp_basis_effective r, pk_created = sp_created r, pk_status = sp_status r\<rparr>"

text \<open>C12: However often a bet was repriced and topped up at whatever venue, the blended price it is settled at is at
  least one and already net of commission, so a won pick never settles at a loss.\<close>

theorem blended_price_wins:
  assumes "pick_inv rows" "list_all (action_of day) as" "run as (l, rows) = (l', rows')" "r \<in> set rows'" "0 < sp_basis_stake r"
  shows "\<exists>price. settlement_basis (settlement_view i r) = (sp_basis_stake r, price, None) \<and> 1 \<le> price
    \<and> (case pick_pnl Won (sp_basis_stake r) price None of Inr pnl \<Rightarrow> 0 \<le> pnl | Inl _ \<Rightarrow> True)"
proof -
  have "pick_inv rows'" using run_kept [of "(l, rows)" day as] assms(1-3) by simp
  then have b: "basis_ok (sp_basis_stake r) (sp_basis_effective r)" using pick_invD(2) assms(4) by (auto simp: row_inv_def)
  let ?p = "dec (sp_basis_effective r / sp_basis_stake r)"
  have "dec 1 \<le> ?p" using b assms(5) by (intro dec_mono) (simp add: basis_ok_def)
  moreover have "dec 1 = 1" by code_simp
  ultimately have p: "1 \<le> ?p" by simp
  have "0 \<le> dec (sp_basis_stake r * dec (?p - 1))" using p assms(5) by (intro dec_nonneg mult_nonneg_nonneg) simp_all
  then have "case pick_pnl Won (sp_basis_stake r) ?p None of Inr pnl \<Rightarrow> 0 \<le> pnl | Inl _ \<Rightarrow> True"
    using quantize_cents_mono [of 0 "dec (sp_basis_stake r * dec (?p - 1))" 0] by (auto simp: pick_pnl_def net_odds_def split: sum.splits)
  then show ?thesis using p b assms(5) by (simp add: settlement_basis_def settlement_view_def basis_ok_def)
qed

lemma blended_price_wins_witness:
  "case run sample_run (sample_ledger, []) of (l, rows) \<Rightarrow> map (\<lambda>r. settlement_basis (settlement_view 1 r)) rows = [(25, 2, None)]
     \<and> (\<exists>price. settlement_basis (settlement_view 1 (hd rows)) = (25, price, None) \<and> 1 \<le> price)"
proof (cases "run sample_run (sample_ledger, [])")
  case (Pair l rows)
  then obtain r where r: "rows = [r]" "sp_basis_stake r = 25" "sp_basis_effective r = 50" using sample_end by (auto simp: summary_def)
  have "dec 2 = 2" by code_simp
  moreover have "(50 / 25 :: rat) = 2" by simp
  ultimately show ?thesis using blended_price_wins [OF pick_inv_Nil conjunct1 [OF sample_actions] Pair, of r 1] Pair r
    by (auto simp: settlement_basis_def settlement_view_def)
qed

subsection \<open>What the modelling showed\<close>


lemma rmapM_keys: "rmapM (\<lambda>x. rmap (Pair x) (f x)) xs = Ok ys \<Longrightarrow> map fst ys = xs"
  by (induction xs arbitrary: ys) (auto simp: rbind_Ok_iff rmap_Ok_iff)

lemma rmapM_raises: "x \<in> set xs \<Longrightarrow> f x = Raise e \<Longrightarrow> \<exists>e'. rmapM f xs = Raise e'"
proof (induction xs)
  case (Cons y ys)
  show ?case
  proof (cases "f y")
    case (Inr z)
    then have "x \<in> set ys" using Cons.prems by auto
    then obtain e' where "rmapM f ys = Raise e'" using Cons.IH Cons.prems(2) by blast
    then show ?thesis using Inr by simp
  qed simp
qed simp

text \<open>With the haircut of an event enabled, the funding of a cycle raises when a candidate has no stake and its event has
  no other candidate with one.\<close>

theorem haircut_needs_staked_leg:
  assumes "f_lt (Fin 0) rho" "(d, bd, ref) \<in> set cs" "\<And>d' bd'. (d', bd', ref) \<in> set cs \<Longrightarrow> \<not> f_lt (Fin 0) (final bd')"
  shows "\<exists>e. haircut_candidates bankroll rho cs = Raise e"
proof (cases "same_event_stake_multipliers (map (\<lambda>(d, bd, ref). ref) (filter (\<lambda>(d, bd, ref). f_lt (Fin 0) (final bd)) cs)) rho")
  case (Inl e)
  then show ?thesis using assms(1, 2) by (auto simp: haircut_candidates_def)
next
  case (Inr ms)
  then have "map fst ms = dedup_onto [] (map (\<lambda>(d, bd, ref). ref) (filter (\<lambda>(d, bd, ref). f_lt (Fin 0) (final bd)) cs))"
    unfolding same_event_stake_multipliers_def by (rule rmapM_keys)
  then have "set (map fst ms) = set (map (\<lambda>(d, bd, ref). ref) (filter (\<lambda>(d, bd, ref). f_lt (Fin 0) (final bd)) cs))" by simp
  then have "ref \<notin> fst ` set ms" using assms(3) by auto
  then have "map_of ms ref = None" by (simp add: map_of_eq_None_iff)
  then have "haircut_one bankroll ms (d, bd, ref) = Raise KeyError" by (simp add: haircut_one_def)
  then obtain e where "rmapM (haircut_one bankroll ms) cs = Raise e" using rmapM_raises [OF assms(2)] by metis
  then show ?thesis using Inr assms(1, 2) by (auto simp: haircut_candidates_def)
qed

end
