(* ===== verification/MarketGroups.thy ===== *)
theory MarketGroups
  imports ValueScan ValuePolicy Spreads Outcomes
begin

text \<open>
  From snapshots to fair prices, the pure half of a value cycle in \<^verbatim>\<open>app/pipeline.py\<close>: the canonical
  vocabulary of market details, the newest observation of every quote, the groups that are devigged together,
  the instants and the liquidity that go with the prices, the snapshots of events in play, the fair
  probabilities of every group, and the tests that keep a group from being a candidate.  A market
  is the value of its enumeration.  Dictionaries are association lists in insertion order.
\<close>

subsection \<open>Snapshots\<close>

record odds_snapshot =
  os_event :: string
  os_book :: string
  os_market :: string
  os_selection :: string
  os_odds :: pyfloat
  os_liquidity :: "pyfloat option"
  os_captured :: time
  os_ingested :: time
  os_detail :: "string option"

text \<open>The line-qualified market of a snapshot.\<close>

definition market_label :: "odds_snapshot \<Rightarrow> string" where
  "market_label s = (case os_detail s of Some (c # d) \<Rightarrow> c # d | _ \<Rightarrow> os_market s)"

text \<open>What the schema admits.\<close>

definition max_decimal_odds :: rat where "max_decimal_odds = 1000"
definition max_liquidity :: pyfloat where "max_liquidity = f64 (999999999999 / 100)"
definition max_clock_skew :: duration where "max_clock_skew = 300 * 10 ^ 6"

definition admissible :: "odds_snapshot \<Rightarrow> bool" where
  "admissible s \<longleftrightarrow> (case os_odds s of Fin x \<Rightarrow> 1 < x \<and> x \<le> max_decimal_odds | _ \<Rightarrow> False)
     \<and> (case os_liquidity s of None \<Rightarrow> True | Some (Fin x) \<Rightarrow> 0 \<le> x \<and> f_le (Fin x) max_liquidity | _ \<Rightarrow> False)
     \<and> os_captured s - os_ingested s \<le> max_clock_skew"

subsection \<open>Details\<close>

text \<open>\<^verbatim>\<open>$\<close> matches at the end and before a final newline.\<close>

definition chomp :: "string \<Rightarrow> string" where
  "chomp s = (if s \<noteq> [] \<and> last s = newline then butlast s else s)"

definition after :: "string \<Rightarrow> string \<Rightarrow> string option" where
  "after p s = (if startswith p s then Some (drop (length p) s) else None)"

definition skip :: "string \<Rightarrow> string \<Rightarrow> string" where
  "skip p s = (case after p s of Some t \<Rightarrow> t | None \<Rightarrow> s)"

definition all_digits :: "string \<Rightarrow> bool" where
  "all_digits s \<longleftrightarrow> s \<noteq> [] \<and> list_all is_digit s"

text \<open>A match of \<^verbatim>\<open>\d+(?:_\d+)?\<close>: the digits before and after.\<close>

definition line_token :: "string \<Rightarrow> (string \<times> string option) option" where
  "line_token s = (let a = takeWhile is_digit s in case dropWhile is_digit s of
       [] \<Rightarrow> if all_digits a then Some (a, None) else None
     | c # b \<Rightarrow> if all_digits a \<and> c = CHR ''_'' \<and> all_digits b then Some (a, Some b) else None)"

definition ou_token :: "string \<Rightarrow> string option" where
  "ou_token d = (case after ''over_under_'' (chomp d) of
       None \<Rightarrow> None
     | Some r \<Rightarrow> let t = skip ''games_'' r in if line_token t = None then None else Some t)"

definition int_totals :: "string \<Rightarrow> string option" where
  "int_totals d = (case after ''totals_'' (chomp d) of
       None \<Rightarrow> None
     | Some r \<Rightarrow> (case line_token r of Some (a, Some b) \<Rightarrow> if b = ''0'' then Some a else None | _ \<Rightarrow> None))"

definition lineless_details :: "string set" where
  "lineless_details = {''h2h'', ''1x2'', ''btts''}"

definition canonical_market_detail :: "string option \<Rightarrow> string option" where
  "canonical_market_detail detail = (case detail of
       None \<Rightarrow> None
     | Some raw \<Rightarrow> let d = lower raw in
         if d \<in> lineless_details then None
         else (let (d1, detail1) = (case ou_token d of Some t \<Rightarrow> (''totals_'' @ t, ''totals_'' @ t) | None \<Rightarrow> (d, raw)) in
           case int_totals d1 of Some n \<Rightarrow> Some (''totals_'' @ n) | None \<Rightarrow> Some detail1))"

text \<open>The line of a token, unless it is integral; \<^verbatim>\<open>int\<close> of an infinite line raises.\<close>

definition token_value :: "string \<times> string option \<Rightarrow> rat" where
  "token_value t = (case t of (a, None) \<Rightarrow> of_int (digits_val a)
     | (a, Some b) \<Rightarrow> of_int (digits_val a) + of_int (digits_val b) / 10 ^ length b)"

definition fractional_line :: "bool \<Rightarrow> string \<times> string option \<Rightarrow> pyfloat option res" where
  "fractional_line negative t = (case f64 (if negative then - token_value t else token_value t) of
       Fin x \<Rightarrow> Ok (if x = of_int \<lfloor>x\<rfloor> then None else Some (Fin x))
     | _ \<Rightarrow> Raise OverflowError)"

definition arcadia_ah :: "string \<Rightarrow> (bool \<times> string \<times> string option) option" where
  "arcadia_ah d = (case after ''asian_handicap_'' (chomp d) of
       None \<Rightarrow> None
     | Some r \<Rightarrow> let r1 = skip ''games_'' r;
           r2 = (if endswith ''_games'' r1 then take (length r1 - 6) r1 else r1);
           negative = startswith ''-'' r2 in
         map_option (Pair negative) (line_token (if negative then drop 1 r2 else r2)))"

definition native_spread :: "string \<Rightarrow> (string \<times> string option) option" where
  "native_spread d = (case after ''spreads_'' (chomp d) of
       None \<Rightarrow> None
     | Some r \<Rightarrow> line_token (if startswith ''minus_'' r then drop 6 r else skip ''plus_'' r))"

subsection \<open>One vocabulary\<close>

definition canoned :: "odds_snapshot \<Rightarrow> odds_snapshot" where
  "canoned s = s\<lparr>os_detail := canonical_market_detail (os_detail s)\<rparr>"

definition spread_detail :: "odds_snapshot \<Rightarrow> string option" where
  "spread_detail s = (if os_market s = ''spreads'' then os_detail s else None)"

text \<open>Whether the detail names a native group with a fractional line.\<close>

definition names_native :: "odds_snapshot \<Rightarrow> bool res" where
  "names_native s = (case Option.bind (spread_detail s) native_spread of
       None \<Rightarrow> Ok False | Some t \<Rightarrow> rmap (\<lambda>l. l \<noteq> None) (fractional_line False t))"

fun native_groups :: "odds_snapshot list \<Rightarrow> (string \<times> string \<Rightarrow> string set) \<Rightarrow> (string \<times> string \<Rightarrow> string set) res" where
  "native_groups [] g = Ok g"
| "native_groups (s # ss) g = rbind (names_native s) (\<lambda>native.
     native_groups ss (if native then g((os_event s, os_selection s) := insert (the (os_detail s)) (g (os_event s, os_selection s))) else g))"

definition the_only :: "'a set \<Rightarrow> 'a option" where
  "the_only A = (if card A = 1 then Some (the_elem A) else None)"

text \<open>The native group an injected handicap is adopted into.\<close>

definition adopted_detail :: "(string \<times> string \<Rightarrow> string set) \<Rightarrow> odds_snapshot \<Rightarrow> string option res" where
  "adopted_detail natives s = (case Option.bind (spread_detail s) arcadia_ah of
       None \<Rightarrow> Ok None
     | Some (negative, t) \<Rightarrow> rbind (fractional_line negative t) (\<lambda>line.
         case (line, the_only (natives (os_event s, os_selection s))) of
           (Some l, Some native) \<Rightarrow> (case native_spread native of
               None \<Rightarrow> Ok None
             | Some u \<Rightarrow> rmap (\<lambda>nl. case nl of Some n \<Rightarrow> if f_eq (f_abs n) (f_abs l) then Some native else None | None \<Rightarrow> None)
                 (fractional_line False u))
         | _ \<Rightarrow> Ok None))"

definition adopt :: "(string \<times> string \<Rightarrow> string set) \<Rightarrow> odds_snapshot \<Rightarrow> odds_snapshot res" where
  "adopt natives s = rmap (\<lambda>a. case a of Some native \<Rightarrow> s\<lparr>os_detail := Some native\<rparr> | None \<Rightarrow> s) (adopted_detail natives s)"

definition fold_injected_group_details :: "odds_snapshot list \<Rightarrow> odds_snapshot list res" where
  "fold_injected_group_details snapshots = (let cs = map canoned snapshots in
     rbind (native_groups cs (\<lambda>_. {})) (\<lambda>natives. rmapM (adopt natives) cs))"

subsection \<open>The newest observation of a quote\<close>

type_synonym quote_key = "string \<times> string \<times> string option \<times> string \<times> string"

definition quote_key :: "odds_snapshot \<Rightarrow> quote_key" where
  "quote_key s = (os_event s, os_market s, os_detail s, os_selection s, os_book s)"

text \<open>Comparison of the ranks, component by component.\<close>

definition newer :: "odds_snapshot \<Rightarrow> odds_snapshot \<Rightarrow> bool" where
  "newer s p = (let liq = (\<lambda>q. case os_liquidity q of Some x \<Rightarrow> f_neg x | None \<Rightarrow> f_neg (Fin 0)) in
     if os_captured s \<noteq> os_captured p then os_captured s > os_captured p
     else if os_ingested s \<noteq> os_ingested p then os_ingested s > os_ingested p
     else if \<not> f_eq (f_neg (os_odds s)) (f_neg (os_odds p)) then f_lt (f_neg (os_odds p)) (f_neg (os_odds s))
     else if (os_liquidity s = None) \<noteq> (os_liquidity p = None) then os_liquidity s \<noteq> None
     else f_lt (liq p) (liq s))"

definition keep_newest :: "odds_snapshot list \<Rightarrow> odds_snapshot \<Rightarrow> odds_snapshot list" where
  "keep_newest kept s = (case find (\<lambda>p. quote_key p = quote_key s) kept of
       None \<Rightarrow> kept @ [s]
     | Some p \<Rightarrow> if newer s p then map (\<lambda>q. if quote_key q = quote_key s then s else q) kept else kept)"

definition coalesce_market_snapshots :: "odds_snapshot list \<Rightarrow> odds_snapshot list" where
  "coalesce_market_snapshots snapshots = foldl keep_newest [] snapshots"

subsection \<open>Groups\<close>

type_synonym group_key = "string \<times> string \<times> string option"

definition group_key :: "odds_snapshot \<Rightarrow> group_key" where
  "group_key s = (os_event s, os_market s, os_detail s)"

text \<open>\<^verbatim>\<open>d.setdefault(k, {})[j] = v\<close>.\<close>

definition put2 :: "'k \<Rightarrow> 'j \<Rightarrow> 'v \<Rightarrow> ('k \<times> ('j \<times> 'v) list) list \<Rightarrow> ('k \<times> ('j \<times> 'v) list) list" where
  "put2 k j v d = AList.map_default k [(j, v)] (AList.update j v) d"

type_synonym grouped = "(group_key \<times> prices \<times> ((string \<times> string) \<times> time) list) list"

definition add_quote :: "odds_snapshot \<Rightarrow> prices \<times> ((string \<times> string) \<times> time) list \<Rightarrow> prices \<times> ((string \<times> string) \<times> time) list" where
  "add_quote s g = (put2 (os_selection s) (os_book s) (os_odds s) (fst g),
     AList.update (os_selection s, os_book s) (os_captured s) (snd g))"

definition group_market_prices :: "odds_snapshot list \<Rightarrow> grouped" where
  "group_market_prices snapshots =
     foldl (\<lambda>out s. AList.map_default (group_key s) (add_quote s ([], [])) (add_quote s) out) [] (coalesce_market_snapshots snapshots)"

datatype freshness_basis = Observation | Provider

definition snapshot_freshness_time :: "odds_snapshot \<Rightarrow> freshness_basis \<Rightarrow> time" where
  "snapshot_freshness_time s basis = (if basis = Observation then os_ingested s else os_captured s)"

definition group_market_freshness_times :: "freshness_basis \<Rightarrow> odds_snapshot list \<Rightarrow> (group_key \<times> ((string \<times> string) \<times> time) list) list" where
  "group_market_freshness_times basis snapshots =
     foldl (\<lambda>out s. put2 (group_key s) (os_selection s, os_book s) (snapshot_freshness_time s basis) out) [] (coalesce_market_snapshots snapshots)"

definition add_liquidity :: "odds_snapshot \<Rightarrow> pyfloat option dict dict \<Rightarrow> pyfloat option dict dict" where
  "add_liquidity s g = put2 (os_selection s) (os_book s) (os_liquidity s) g"

definition group_market_liquidity :: "odds_snapshot list \<Rightarrow> (group_key \<times> pyfloat option dict dict) list" where
  "group_market_liquidity snapshots =
     foldl (\<lambda>out s. if os_liquidity s = None then out else AList.map_default (group_key s) (add_liquidity s []) (add_liquidity s) out) []
       (coalesce_market_snapshots snapshots)"

subsection \<open>Kickoffs\<close>

definition drop_post_kickoff_snapshots :: "(string \<Rightarrow> time option) \<Rightarrow> odds_snapshot list \<Rightarrow> odds_snapshot list" where
  "drop_post_kickoff_snapshots kickoffs snapshots =
     filter (\<lambda>s. \<not> (case kickoffs (os_event s) of Some k \<Rightarrow> os_captured s \<ge> k | None \<Rightarrow> False)) snapshots"

definition started_event_ids :: "string list \<Rightarrow> (string \<Rightarrow> time option) \<Rightarrow> time \<Rightarrow> string set" where
  "started_event_ids event_ids kickoffs now =
     {e \<in> set event_ids. case kickoffs e of Some k \<Rightarrow> k \<le> now | None \<Rightarrow> False}"

definition hours_to_kickoff :: "time option \<Rightarrow> time \<Rightarrow> pyfloat option res" where
  "hours_to_kickoff starts_at now = (case starts_at of
       None \<Rightarrow> Ok None
     | Some k \<Rightarrow> rmap Some (f_div (total_seconds (k - now)) (Fin 3600)))"

definition candidate_age_seconds :: "time \<Rightarrow> time option \<Rightarrow> pyfloat" where
  "candidate_age_seconds now captured = (case captured of
       None \<Rightarrow> PInf
     | Some c \<Rightarrow> let age = total_seconds (now - c) in if f_lt age (Fin 0) then PInf else age)"

subsection \<open>Fair probabilities\<close>

definition direct_markets :: "string set" where
  "direct_markets = {''h2h'', ''totals'', ''btts'', ''dnb'', ''spreads''}"

datatype fair_miss = Sharp_Miss sharp_miss | Spread_Pair_Incoherent

record fair_probs =
  fp_fair :: "(group_key \<times> string \<times> pyfloat dict) list"
  fp_fell_back :: "(group_key \<times> bool) list"
  fp_miss :: "(group_key \<times> fair_miss) list"
  fp_three_way :: "(string \<times> (string \<times> pyfloat dict) \<times> string list \<times> bool) list"
  fp_h2h_miss :: "(string \<times> fair_miss) list"

definition no_fair_probs :: fair_probs where
  "no_fair_probs = \<lparr>fp_fair = [], fp_fell_back = [], fp_miss = [], fp_three_way = [], fp_h2h_miss = []\<rparr>"

text \<open>The configuration of the anchor of one group; the remaining settings are the defaults of the call.\<close>

definition group_config :: "value_policy \<Rightarrow> (group_key \<times> pyfloat option dict dict) list \<Rightarrow> string set \<Rightarrow> group_key \<Rightarrow> anchor_config" where
  "group_config policy liquidity demoted k = \<lparr>ac_sharp_books = sharp_books, ac_commissions = exchange_commission,
     ac_max_overround = f64 (12 / 100), ac_liquidity = (case map_of liquidity k of Some l \<Rightarrow> l | None \<Rightarrow> []),
     ac_min_liquidity = exchange_min_liquidity policy,
     ac_exchange_demoted = (fst (snd k) = ''h2h'' \<and> fst k \<in> demoted)\<rparr>"

definition note_miss :: "group_key \<Rightarrow> fair_miss option \<Rightarrow> fair_probs \<Rightarrow> fair_probs" where
  "note_miss k miss fp = (case miss of None \<Rightarrow> fp
     | Some m \<Rightarrow> let fp1 = fp\<lparr>fp_miss := AList.update k m (fp_miss fp)\<rparr> in
         if fst (snd k) = ''h2h'' then fp1\<lparr>fp_h2h_miss := AList.update (fst k) m (fp_h2h_miss fp1)\<rparr> else fp1)"

definition note_fair :: "group_key \<Rightarrow> prices \<Rightarrow> anchored option \<Rightarrow> fair_probs \<Rightarrow> fair_probs" where
  "note_fair k prices anchor fp = (case anchor of None \<Rightarrow> fp
     | Some a \<Rightarrow> let fp1 = fp\<lparr>fp_fair := AList.update k (an_book a, an_fair a) (fp_fair fp),
             fp_fell_back := AList.update k (an_fell_back a) (fp_fell_back fp)\<rparr> in
         if fst (snd k) = ''h2h'' \<and> length prices = 3
         then fp1\<lparr>fp_three_way := AList.update (fst k) ((an_book a, an_fair a), map fst prices, an_fell_back a) (fp_three_way fp1)\<rparr>
         else fp1)"

definition direct_fair :: "numerics \<Rightarrow> devig_method \<Rightarrow> value_policy \<Rightarrow> (group_key \<times> pyfloat option dict dict) list \<Rightarrow> string set \<Rightarrow>
    group_key \<Rightarrow> prices \<Rightarrow> fair_probs \<Rightarrow> fair_probs res" where
  "direct_fair num method policy liquidity demoted k prices fp =
     (if fst (snd k) \<notin> direct_markets then Ok fp
      else if fst (snd k) = ''spreads'' \<and> \<not> spread_pair_coherent (map fst prices)
        then Ok (fp\<lparr>fp_miss := AList.update k Spread_Pair_Incoherent (fp_miss fp)\<rparr>)
      else rmap (\<lambda>(anchor, miss). note_fair k prices anchor (note_miss k (map_option Sharp_Miss miss) fp))
        (anchor_fair_probs_with_provenance num (devig_method_for policy (fst (snd k)) (snd (snd k)) method)
           (group_config policy liquidity demoted k) prices))"

fun direct_pass :: "numerics \<Rightarrow> devig_method \<Rightarrow> value_policy \<Rightarrow> (group_key \<times> pyfloat option dict dict) list \<Rightarrow> string set \<Rightarrow>
    grouped \<Rightarrow> fair_probs \<Rightarrow> fair_probs res" where
  "direct_pass num method policy liquidity demoted [] fp = Ok fp"
| "direct_pass num method policy liquidity demoted ((k, prices, captured) # rest) fp =
     rbind (direct_fair num method policy liquidity demoted k prices fp) (direct_pass num method policy liquidity demoted rest)"

text \<open>Double chance from the match odds of the event, when the middle selection is the draw.\<close>

definition derive_dc :: "group_key \<Rightarrow> fair_probs \<Rightarrow> fair_probs" where
  "derive_dc k fp =
     (if fst (snd k) \<noteq> ''double_chance'' then fp
      else case map_of (fp_three_way fp) (fst k) of
          Some ((book, fair), [home, mid, away], fell) \<Rightarrow>
            if mid \<noteq> ''Draw'' then fp
            else let dc = double_chance_fair fair home away ''Draw'' in
              if dc = [] then fp
              else let fp1 = fp\<lparr>fp_fair := AList.update k (book, dc) (fp_fair fp), fp_fell_back := AList.update k fell (fp_fell_back fp)\<rparr> in
                (case map_of (fp_h2h_miss fp1) (fst k) of
                   Some m \<Rightarrow> fp1\<lparr>fp_miss := AList.update k m (fp_miss fp1)\<rparr> | None \<Rightarrow> fp1)
        | _ \<Rightarrow> fp)"

definition event_fair_probs :: "numerics \<Rightarrow> devig_method \<Rightarrow> value_policy \<Rightarrow> (group_key \<times> pyfloat option dict dict) list \<Rightarrow> string set \<Rightarrow>
    grouped \<Rightarrow> fair_probs res" where
  "event_fair_probs num method policy liquidity demoted groups =
     rmap (\<lambda>fp. foldl (\<lambda>fp g. derive_dc (fst g) fp) fp groups) (direct_pass num method policy liquidity demoted groups no_fair_probs)"

definition group_and_price_markets :: "numerics \<Rightarrow> devig_method \<Rightarrow> value_policy \<Rightarrow> freshness_basis \<Rightarrow> string set \<Rightarrow> odds_snapshot list \<Rightarrow>
    (grouped \<times> (group_key \<times> ((string \<times> string) \<times> time) list) list \<times> fair_probs) res" where
  "group_and_price_markets num method policy basis demoted anchor_snapshots =
     rbind (fold_injected_group_details anchor_snapshots) (\<lambda>snapshots.
     rbind (event_fair_probs num method policy (group_market_liquidity snapshots) demoted (group_market_prices snapshots)) (\<lambda>fair.
       Ok (group_market_prices snapshots, group_market_freshness_times basis snapshots, fair)))"

subsection \<open>The book of one bookmaker\<close>

definition book_key :: "odds_snapshot \<Rightarrow> string \<times> string \<times> string \<times> string option" where
  "book_key s = (os_event s, os_book s, os_market s, os_detail s)"

definition devig_book :: "numerics \<Rightarrow> devig_method \<Rightarrow> odds_snapshot list \<Rightarrow> ((string \<times> string \<times> string \<times> string) \<times> pyfloat) list res" where
  "devig_book num method legs =
     (if length legs < 2 then Ok []
      else rmap (\<lambda>(probs, fallback). map (\<lambda>(s, p). ((os_event s, os_book s, os_market s, os_selection s), p)) (zip legs probs))
        (devig_with_diagnostics num (map os_odds legs) method))"

definition fair_probabilities :: "numerics \<Rightarrow> devig_method \<Rightarrow> odds_snapshot list \<Rightarrow> ((string \<times> string \<times> string \<times> string) \<times> pyfloat) list res" where
  "fair_probabilities num method snapshots =
     rmap (\<lambda>entries. foldl (\<lambda>d (k, p). AList.update k p d) [] (concat entries))
       (rmapM (\<lambda>k. devig_book num method (filter (\<lambda>s. book_key s = k) snapshots)) (dedup_onto [] (map book_key snapshots)))"

subsection \<open>Groups that are no candidates\<close>

definition is_settleable_market_detail :: "string option \<Rightarrow> bool" where
  "is_settleable_market_detail detail = (case detail of None \<Rightarrow> True
     | Some d \<Rightarrow> d = [] \<or> \<not> list_ex (\<lambda>p. contains p (lower d))
         [''1st_half'', ''2nd_half'', ''first_half'', ''second_half'', ''_quarter'', ''1st_set'', ''2nd_set'', ''3rd_set'',
          ''_set_'', ''corner'', ''card'', ''booking''])"

definition is_tennis_game_line_group :: "string \<Rightarrow> string \<Rightarrow> string option \<Rightarrow> string list \<Rightarrow> bool" where
  "is_tennis_game_line_group sport_key market detail sels =
     (if sport_key \<noteq> ''tennis'' \<or> market \<noteq> ''totals'' \<and> market \<noteq> ''spreads'' then False
      else if market = ''spreads'' \<and> \<not> is_tennis_sets_spread_detail detail then True
      else if market = ''totals'' \<and> is_tennis_games_total_detail detail then True
      else list_ex (is_tennis_game_line market) sels)"

text \<open>A match of \<^verbatim>\<open>^(?:totals|over_under)_(\d+)(?:_0)?$\<close>, and of \<^verbatim>\<open>^(?:over|under)\s+\d+$\<close>.\<close>

definition int_line_detail :: "string \<Rightarrow> bool" where
  "int_line_detail d = (case (case after ''totals_'' d of Some t \<Rightarrow> Some t | None \<Rightarrow> after ''over_under_'' d) of
       None \<Rightarrow> False
     | Some t \<Rightarrow> (case line_token t of Some (a, None) \<Rightarrow> True | Some (a, Some b) \<Rightarrow> b = ''0'' | None \<Rightarrow> False))"

definition int_line_selection :: "string \<Rightarrow> bool" where
  "int_line_selection s = (case (case after ''over'' (lower s) of Some t \<Rightarrow> Some t | None \<Rightarrow> after ''under'' (lower s)) of
       None \<Rightarrow> False
     | Some t \<Rightarrow> takeWhile is_space t \<noteq> [] \<and> all_digits (dropWhile is_space t))"

definition is_integer_line_totals_group :: "string \<Rightarrow> string option \<Rightarrow> string list \<Rightarrow> bool" where
  "is_integer_line_totals_group market detail sels =
     (if market \<noteq> ''totals'' then False
      else case detail of
          Some (c # cs) \<Rightarrow> int_line_detail (lower (strip (c # cs)))
        | _ \<Rightarrow> list_ex (\<lambda>s. int_line_selection (strip s)) sels)"

definition shots_pick_side :: "string \<Rightarrow> string option \<Rightarrow> string \<Rightarrow> string option" where
  "shots_pick_side market detail sel0 =
     (if market \<noteq> ''totals'' then None
      else let sel = lower (strip sel0); canon = canonical_market_detail detail in
        if canon \<noteq> None \<and> canon \<noteq> Some ''totals_2_5'' \<or> canon = None \<and> \<not> endswith '' 2.5'' sel then None
        else if startswith ''over'' sel then Some ''over''
        else if startswith ''under'' sel then Some ''under''
        else None)"

definition is_asian_handicap :: "string option \<Rightarrow> bool" where
  "is_asian_handicap detail = (case detail of None \<Rightarrow> False | Some d \<Rightarrow> d \<noteq> [] \<and> startswith ''asian_handicap'' (lower (strip d)))"

end
