(* ===== verification/FoldFacts.thy ===== *)
theory FoldFacts
  imports MarketGroups
begin

text \<open>
  The vocabularies of market details: what canonical details look like, the line a detail names, and what
  folding does to it.
\<close>

subsection \<open>Characters of a line\<close>

lemma digit_code: "is_digit c \<longleftrightarrow> 48 \<le> code c \<and> code c \<le> 57"
  by (simp add: is_digit_def Let_def)

lemma digit_plain: "is_digit c \<Longrightarrow> lower_char c = c \<and> c \<noteq> newline \<and> c \<noteq> CHR ''_''"
  by (auto simp: digit_code lower_char_def is_upper_ascii_def Let_def newline_def code_def)

definition plain_char :: "char \<Rightarrow> bool" where
  "plain_char c \<longleftrightarrow> lower_char c = c \<and> c \<noteq> newline"

lemma plain_underscore: "plain_char CHR ''_''"
  by code_simp

lemma line_token_split:
  assumes "line_token t = Some (a, b)"
  shows "t = a @ (case b of None \<Rightarrow> [] | Some d \<Rightarrow> CHR ''_'' # d)" "all_digits a" "case b of None \<Rightarrow> True | Some d \<Rightarrow> all_digits d"
proof -
  have e: "t = takeWhile is_digit t @ dropWhile is_digit t" by simp
  have "a = takeWhile is_digit t \<and> all_digits a \<and> (dropWhile is_digit t = [] \<and> b = None
      \<or> (\<exists>d. dropWhile is_digit t = CHR ''_'' # d \<and> all_digits d \<and> b = Some d))"
    using assms by (auto simp: line_token_def Let_def split: list.splits if_splits)
  then show "t = a @ (case b of None \<Rightarrow> [] | Some d \<Rightarrow> CHR ''_'' # d)" "all_digits a" "case b of None \<Rightarrow> True | Some d \<Rightarrow> all_digits d"
    using e by (metis append_Nil2 option.case)+
qed

lemma line_token_join: "all_digits a \<Longrightarrow> line_token a = Some (a, None)"
  "all_digits a \<Longrightarrow> all_digits d \<Longrightarrow> line_token (a @ CHR ''_'' # d) = Some (a, Some d)"
proof -
  assume a: "all_digits a"
  have w: "takeWhile is_digit a = a" "dropWhile is_digit a = []" using a by (simp_all add: all_digits_def list_all_iff)
  show "line_token a = Some (a, None)" using a unfolding line_token_def Let_def w by simp
  assume d: "all_digits d"
  have "\<not> is_digit CHR ''_''" by code_simp
  then have "takeWhile is_digit (a @ CHR ''_'' # d) = a" "dropWhile is_digit (a @ CHR ''_'' # d) = CHR ''_'' # d"
    using a by (auto simp: all_digits_def list_all_iff takeWhile_append2 dropWhile_append2)
  then show "line_token (a @ CHR ''_'' # d) = Some (a, Some d)" using a d unfolding line_token_def by simp
qed

lemma line_token_plain: "line_token t = Some x \<Longrightarrow> t \<noteq> [] \<and> list_all plain_char t"
proof -
  assume "line_token t = Some x"
  then obtain a b where x: "line_token t = Some (a, b)" by (cases x) simp
  have "list_all plain_char a" "case b of None \<Rightarrow> True | Some d \<Rightarrow> list_all plain_char d"
    using line_token_split(2, 3) [OF x] digit_plain by (auto simp: all_digits_def list_all_iff plain_char_def split: option.splits)
  then show ?thesis using line_token_split [OF x] plain_underscore by (auto simp: all_digits_def split: option.splits)
qed

lemma chomp_plain: "list_all plain_char s \<Longrightarrow> chomp s = s"
  using last_in_set [of s] by (auto simp: chomp_def list_all_iff plain_char_def)

lemma lower_plain: "list_all plain_char s \<Longrightarrow> lower s = s"
  by (simp add: lower_def list_all_iff plain_char_def map_idI)

lemma after_append [simp]: "after p (p @ s) = Some s"
  by (simp add: after_def startswith_def)

lemma after_literal [simp]: "after ''totals_'' (CHR ''t'' # CHR ''o'' # CHR ''t'' # CHR ''a'' # CHR ''l'' # CHR ''s'' # CHR ''_'' # t) = Some t"
  by (simp add: after_def startswith_def)

lemma after_Some: "after p s = Some t \<longleftrightarrow> s = p @ t"
  by (auto simp: after_def startswith_def) (metis append_take_drop_id)

lemma totals_plain: "list_all plain_char ''totals_''"
  by code_simp

text \<open>Three vocabularies never overlap.\<close>

lemma totals_not_ou: "after ''over_under_'' (''totals_'' @ t) = None"
  by (simp add: after_def startswith_def)

subsection \<open>The line a detail names\<close>

text \<open>The size of the line, as the float that is compared.\<close>

definition detail_line :: "string \<Rightarrow> pyfloat option" where
  "detail_line d =
     (case Option.bind (after ''totals_'' (chomp (lower d))) line_token of
        Some t \<Rightarrow> Some (f64 (token_value t))
      | None \<Rightarrow> (case Option.bind (ou_token (lower d)) line_token of
          Some t \<Rightarrow> Some (f64 (token_value t))
        | None \<Rightarrow> (case native_spread d of
            Some t \<Rightarrow> Some (f64 (token_value t))
          | None \<Rightarrow> map_option (\<lambda>x. f64 (token_value (snd x))) (arcadia_ah d))))"

lemma digits_val_nonneg: "list_all is_digit ds \<Longrightarrow> 0 \<le> digits_val ds"
  by (induction ds rule: rev_induct) (auto simp: digits_val_def digit_val_def digit_code)

lemma token_value_nonneg: "line_token t = Some x \<Longrightarrow> 0 \<le> token_value x"
  using line_token_split(2, 3) [of t "fst x" "snd x"] digits_val_nonneg
  by (cases x) (auto simp: token_value_def all_digits_def split: option.splits)

lemma detail_line_totals: "line_token t = Some x \<Longrightarrow> detail_line (''totals_'' @ t) = Some (f64 (token_value x))"
proof -
  assume x: "line_token t = Some x"
  have p: "list_all plain_char (''totals_'' @ t)" using line_token_plain [OF x] totals_plain by simp
  show ?thesis unfolding detail_line_def lower_plain [OF p] chomp_plain [OF p] after_append using x by simp
qed

lemma after_head: "p \<noteq> [] \<Longrightarrow> s = [] \<or> hd s \<noteq> hd p \<Longrightarrow> after p s = None"
  by (cases p; cases s) (auto simp: after_def startswith_def)

lemma chomp_head: "chomp s = [] \<or> s \<noteq> [] \<and> hd (chomp s) = hd s"
  by (cases s) (auto simp: chomp_def)

lemma chomp_prefix: "chomp s = p @ t \<Longrightarrow> p \<noteq> [] \<Longrightarrow> s \<noteq> [] \<and> hd s = hd p"
  by (cases s; cases p) (auto simp: chomp_def split: if_splits)

lemma detail_line_ou:
  assumes "ou_token (lower raw) = Some t" "line_token t = Some x" shows "detail_line raw = Some (f64 (token_value x))"
proof -
  obtain r where "chomp (lower raw) = ''over_under_'' @ r" using assms(1) by (auto simp: ou_token_def after_Some split: option.splits)
  then have "after ''totals_'' (chomp (lower raw)) = None" by (intro after_head) auto
  then show ?thesis using assms by (simp add: detail_line_def)
qed

lemma detail_line_head:
  assumes "raw \<noteq> []" "hd raw = CHR ''s'' \<or> hd raw = CHR ''a''"
  shows "detail_line raw = (case native_spread raw of Some t \<Rightarrow> Some (f64 (token_value t)) | None \<Rightarrow> map_option (\<lambda>x. f64 (token_value (snd x))) (arcadia_ah raw))"
proof -
  have l: "lower_char CHR ''s'' = CHR ''s''" "lower_char CHR ''a'' = CHR ''a''" by code_simp+
  then have "hd (lower raw) = hd raw" using assms by (cases raw) (auto simp: lower_def)
  then have h: "chomp (lower raw) = [] \<or> hd (chomp (lower raw)) = CHR ''s'' \<or> hd (chomp (lower raw)) = CHR ''a''"
    using chomp_head [of "lower raw"] assms(2) by auto
  have "after ''totals_'' (chomp (lower raw)) = None" using h by (intro after_head) auto
  moreover have "ou_token (lower raw) = None" using h after_head [of "''over_under_''" "chomp (lower raw)"] by (auto simp: ou_token_def)
  ultimately show ?thesis by (simp add: detail_line_def)
qed

lemma detail_line_native: "native_spread d = Some u \<Longrightarrow> detail_line d = Some (f64 (token_value u))"
proof -
  assume u: "native_spread d = Some u"
  then obtain r where "chomp d = ''spreads_'' @ r" by (auto simp: native_spread_def after_Some split: option.splits)
  then have "d \<noteq> []" "hd d = CHR ''s''" using chomp_prefix [of d "''spreads_''" r] by auto
  then show ?thesis using detail_line_head u by simp
qed

lemma arcadia_head: "arcadia_ah d = Some x \<Longrightarrow> d \<noteq> [] \<and> hd d = CHR ''a''"
  using chomp_prefix [of d "''asian_handicap_''"] by (auto simp: arcadia_ah_def after_Some split: option.splits)

lemma native_head: "native_spread d = Some x \<Longrightarrow> d \<noteq> [] \<and> hd d = CHR ''s''"
  using chomp_prefix [of d "''spreads_''"] by (auto simp: native_spread_def after_Some split: option.splits)

lemma not_both: "native_spread d = Some x \<Longrightarrow> arcadia_ah d = None"
  using native_head [of d x] arcadia_head [of d] by (cases "arcadia_ah d") auto

lemma detail_line_arcadia: "arcadia_ah d = Some (neg, u) \<Longrightarrow> detail_line d = Some (f64 (token_value u))"
proof -
  assume a: "arcadia_ah d = Some (neg, u)"
  then have "native_spread d = None" using not_both [of d] by (cases "native_spread d") auto
  then show ?thesis using detail_line_head [of d] arcadia_head [OF a] a by simp
qed

lemma arcadia_token: "arcadia_ah d = Some (neg, u) \<Longrightarrow> 0 \<le> token_value u"
  using token_value_nonneg by (auto simp: arcadia_ah_def Let_def split: option.splits if_splits)

lemma native_token: "native_spread d = Some u \<Longrightarrow> 0 \<le> token_value u"
  using token_value_nonneg by (auto simp: native_spread_def split: option.splits if_splits)

subsection \<open>Canonical details\<close>

lemma int_totals_token: "line_token t = Some x \<Longrightarrow> int_totals (''totals_'' @ t) = (case x of (a, Some b) \<Rightarrow> if b = ''0'' then Some a else None | _ \<Rightarrow> None)"
proof -
  assume x: "line_token t = Some x"
  have "list_all plain_char (''totals_'' @ t)" using line_token_plain [OF x] totals_plain by simp
  then show ?thesis using x by (simp add: int_totals_def chomp_plain)
qed

lemma int_totalsE:
  assumes "int_totals d = Some n"
  obtains r where "chomp d = ''totals_'' @ r" "line_token r = Some (n, Some ''0'')"
  using assms by (auto simp: int_totals_def after_Some split: option.splits prod.splits if_splits)

lemma zero_tail: "token_value (n, Some ''0'') = token_value (n, None)"
proof -
  have "digits_val ''0'' = 0" by code_simp
  then show ?thesis by (simp add: token_value_def)
qed

lemma canonical_cases:
  obtains (lineless) "canonical_market_detail (Some raw) = None" "lower raw \<in> lineless_details"
  | (kept) "canonical_market_detail (Some raw) = Some raw"
  | (folded) t x where "canonical_market_detail (Some raw) = Some (''totals_'' @ t)" "line_token t = Some x" "snd x \<noteq> Some ''0''"
      "detail_line raw = Some (f64 (token_value x))"
proof (cases "lower raw \<in> lineless_details")
  case True
  then show thesis using lineless by (simp add: canonical_market_detail_def)
next
  case n: False
  show thesis
  proof (cases "ou_token (lower raw)")
    case (Some t)
    then obtain x where x: "line_token t = Some x" by (auto simp: ou_token_def Let_def split: option.splits if_splits)
    have l: "detail_line raw = Some (f64 (token_value x))" by (rule detail_line_ou [OF Some x])
    show thesis
    proof (cases "snd x = Some ''0''")
      case True
      then obtain a where a: "x = (a, Some ''0'')" by (cases x) auto
      have "line_token a = Some (a, None)" using line_token_split(2) x a line_token_join(1) by blast
      then show thesis using folded [of a "(a, None)"] n Some int_totals_token [OF x] a l zero_tail by (simp add: canonical_market_detail_def)
    next
      case False
      then have "int_totals (''totals_'' @ t) = None" using int_totals_token [OF x] by (auto split: prod.splits option.splits)
      then show thesis using folded [OF _ x False l] n Some by (simp add: canonical_market_detail_def)
    qed
  next
    case None
    show thesis
    proof (cases "int_totals (lower raw)")
      case (Some a)
      then obtain r where r: "chomp (lower raw) = ''totals_'' @ r" "line_token r = Some (a, Some ''0'')" by (rule int_totalsE)
      have "line_token a = Some (a, None)" using line_token_split(2) [OF r(2)] line_token_join(1) by blast
      moreover have "detail_line raw = Some (f64 (token_value (a, None)))" using r zero_tail by (simp add: detail_line_def)
      ultimately show thesis using folded [of a "(a, None)"] n None Some by (simp add: canonical_market_detail_def)
    next
      case f: None
      then show thesis using kept n None by (simp add: canonical_market_detail_def)
    qed
  qed
qed

lemma canonical_stable: "canonical_market_detail (canonical_market_detail d) = canonical_market_detail d"
proof (cases d)
  case (Some raw)
  show ?thesis
  proof (cases raw rule: canonical_cases)
    case (folded t x)
    have p: "list_all plain_char (''totals_'' @ t)" using line_token_plain [OF folded(2)] totals_plain by simp
    have "''totals_'' @ t \<notin> lineless_details" by (simp add: lineless_details_def)
    moreover have "ou_token (''totals_'' @ t) = None" using p totals_not_ou by (simp add: ou_token_def chomp_plain)
    moreover have "int_totals (''totals_'' @ t) = None" using int_totals_token [OF folded(2)] folded(3) by (auto split: prod.splits option.splits)
    ultimately have "canonical_market_detail (Some (''totals_'' @ t)) = Some (''totals_'' @ t)"
      using lower_plain [OF p] by (simp add: canonical_market_detail_def)
    then show ?thesis using Some folded(1) by simp
  qed (use Some in \<open>simp_all add: canonical_market_detail_def [of None]\<close>)
qed (simp add: canonical_market_detail_def)

subsection \<open>Native groups\<close>

lemma fractional_raises: "fractional_line b t = Raise e \<Longrightarrow> e = OverflowError"
  by (auto simp: fractional_line_def split: pyfloat.splits)

lemma names_native_raises: "names_native s = Raise e \<Longrightarrow> e = OverflowError"
  using fractional_raises by (auto simp: names_native_def split: option.splits) (metis rmap_simps sum.exhaust_sel sum.distinct(1) sum.sel(1))

lemma native_groups_Ok:
  "native_groups ss g = Ok g' \<Longrightarrow> (\<forall>s \<in> set ss. \<exists>n. names_native s = Ok n)
     \<and> (\<forall>k. g' k = g k \<union> {d. \<exists>s \<in> set ss. (os_event s, os_selection s) = k \<and> names_native s = Ok True \<and> os_detail s = Some d})"
proof (induction ss arbitrary: g)
  case (Cons s ss)
  then obtain n where n: "names_native s = Ok n" by (auto simp: rbind_Ok_iff)
  have det: "n \<Longrightarrow> \<exists>d. os_detail s = Some d"
    using n by (cases "os_detail s") (auto simp: names_native_def spread_detail_def split: if_splits)
  have r: "native_groups ss (if n then g((os_event s, os_selection s) := insert (the (os_detail s)) (g (os_event s, os_selection s))) else g) = Ok g'"
    using Cons.prems n by simp
  from Cons.IH [OF r] n det show ?case by (cases n) (auto split: if_splits)
qed simp

lemma native_groups_raise:
  "native_groups ss g = Raise e \<Longrightarrow> e = OverflowError \<and> (\<exists>s \<in> set ss. names_native s = Raise OverflowError)"
proof (induction ss arbitrary: g)
  case (Cons s ss)
  show ?case
  proof (cases "names_native s")
    case (Inl x)
    then show ?thesis using Cons.prems names_native_raises [OF Inl] by simp
  next
    case (Inr n)
    then show ?thesis using Cons by (auto split: if_splits)
  qed
qed simp

definition natives_of :: "odds_snapshot list \<Rightarrow> string \<times> string \<Rightarrow> string set" where
  "natives_of cs k = {d. \<exists>s \<in> set cs. (os_event s, os_selection s) = k \<and> names_native s = Ok True \<and> os_detail s = Some d}"

lemma native_groups_eq:
  "native_groups cs (\<lambda>_. {}) = (if \<exists>s \<in> set cs. names_native s = Raise OverflowError then Raise OverflowError else Ok (natives_of cs))"
proof (cases "native_groups cs (\<lambda>_. {})")
  case (Inl e)
  then show ?thesis using native_groups_raise by fastforce
next
  case (Inr g)
  then show ?thesis using native_groups_Ok [OF Inr] by (auto simp: natives_of_def intro!: ext)
qed

subsection \<open>Adoption\<close>

lemma adoptE:
  assumes "adopt natives s = Ok s'"
  obtains (same) "s' = s" | (adopted) a neg u native v l where "s' = s\<lparr>os_detail := Some native\<rparr>" "os_market s = ''spreads''"
      "os_detail s = Some a" "arcadia_ah a = Some (neg, u)" "natives (os_event s, os_selection s) = {native}" "native_spread native = Some v"
      "f64 (token_value u) = Fin l" "f64 (token_value v) = Fin l"
proof -
  obtain r where r: "adopted_detail natives s = Ok r" "s' = (case r of Some native \<Rightarrow> s\<lparr>os_detail := Some native\<rparr> | None \<Rightarrow> s)"
    using assms by (auto simp: adopt_def rmap_Ok_iff)
  show thesis
  proof (cases r)
    case None
    then show thesis using same r(2) by simp
  next
    case (Some native)
    note r = r [unfolded Some]
    obtain neg u where u: "Option.bind (spread_detail s) arcadia_ah = Some (neg, u)" using r(1) by (auto simp: adopted_detail_def split: option.splits)
    obtain a where a: "spread_detail s = Some a" "arcadia_ah a = Some (neg, u)" using u by (auto split: bind_splits)
    let ?N = "natives (os_event s, os_selection s)"
    obtain lo where lo: "fractional_line neg u = Ok lo" "(case (lo, the_only ?N) of
        (Some l, Some na) \<Rightarrow> (case native_spread na of None \<Rightarrow> Ok None
          | Some w \<Rightarrow> rmap (\<lambda>nl. case nl of Some n \<Rightarrow> if f_eq (f_abs n) (f_abs l) then Some na else None | None \<Rightarrow> None) (fractional_line False w))
      | _ \<Rightarrow> Ok None) = Ok (Some native)"
      using r(1) u by (auto simp: adopted_detail_def rbind_Ok_iff)
    then obtain line na where ln: "lo = Some line" "the_only ?N = Some na" by (auto split: option.splits)
    then obtain v where w: "native_spread na = Some v" using lo(2) by (cases "native_spread na") auto
    then obtain no where no: "fractional_line False v = Ok no" "(case no of Some n \<Rightarrow> if f_eq (f_abs n) (f_abs line) then Some na else None | None \<Rightarrow> None) = Some native"
      using lo(2) ln by (auto simp: rmap_Ok_iff)
    then obtain n where n: "no = Some n" "f_eq (f_abs n) (f_abs line)" "na = native" by (auto split: option.splits if_splits)
    have line: "fractional_line neg u = Ok (Some line)" "the_only ?N = Some native" using lo(1) ln n(3) by simp_all
    have v: "native_spread native = Some v" "fractional_line False v = Ok (Some n)" "f_eq (f_abs n) (f_abs line)" using w no(1) n by simp_all
    obtain x where x: "f64 (if neg then - token_value u else token_value u) = Fin x" "line = Fin x"
      using line(1) by (auto simp: fractional_line_def split: pyfloat.splits if_splits)
    obtain y where y: "f64 (token_value v) = Fin y" "n = Fin y" using v(2) by (auto simp: fractional_line_def split: pyfloat.splits if_splits)
    have pos: "0 \<le> rnd (token_value u)" "0 \<le> rnd (token_value v)"
      using arcadia_token [OF a(2)] native_token [OF v(1)] by (auto intro: rnd_nonneg)
    have "f64 (token_value u) = Fin \<bar>x\<bar>" using x(1) pos(1) by (auto simp: f64_def Let_def rnd_uminus split: if_splits)
    moreover have "\<bar>y\<bar> = y" using y(1) pos(2) by (auto simp: f64_def Let_def split: if_splits)
    moreover have "\<bar>y\<bar> = \<bar>x\<bar>" using v(3) x(2) y(2) by simp
    moreover have "natives (os_event s, os_selection s) = {native}" using line(2)
      by (auto simp: the_only_def card_1_singleton_iff split: if_splits)
    ultimately show thesis using adopted [of native a neg u v y] r(2) a v(1) y(1) by (auto simp: spread_detail_def split: if_splits)
  qed
qed

lemma adopt_raises: "adopt natives s = Raise e \<Longrightarrow> e = OverflowError"
  using fractional_raises
  by (auto simp: adopt_def adopted_detail_def rmap_def rbind_def split: option.splits sum.splits if_splits)

lemma rmapM_Ok: "rmapM f xs = Ok ys \<longleftrightarrow> list_all2 (\<lambda>x y. f x = Ok y) xs ys"
proof (induction xs arbitrary: ys)
  case (Cons x xs)
  then show ?case by (cases ys) (auto simp: rbind_Ok_iff)
qed (auto)

text \<open>Folding, one snapshot at a time.\<close>

lemma fold_Ok:
  "fold_injected_group_details xs = Ok ys \<longleftrightarrow> (\<forall>s \<in> set (map canoned xs). names_native s \<noteq> Raise OverflowError)
     \<and> list_all2 (\<lambda>x y. adopt (natives_of (map canoned xs)) (canoned x) = Ok y) xs ys"
  by (auto simp: fold_injected_group_details_def Let_def rbind_Ok_iff rmapM_Ok native_groups_eq list_all2_map1 split: if_splits)

text \<open>What folding may do to one detail.\<close>

definition same_line :: "string option \<Rightarrow> string option \<Rightarrow> bool" where
  "same_line d d' \<longleftrightarrow> d' = d \<or> (\<exists>a. d = Some a \<and> lower a \<in> lineless_details \<and> d' = None)
     \<or> (\<exists>a b l. d = Some a \<and> d' = Some b \<and> detail_line a = Some l \<and> detail_line b = Some l)"

lemma canonical_same_line: "same_line d (canonical_market_detail d)"
proof (cases d)
  case (Some raw)
  show ?thesis
  proof (cases raw rule: canonical_cases)
    case (folded t x)
    then show ?thesis using Some detail_line_totals [OF folded(2)] by (simp add: same_line_def)
  qed (use Some in \<open>simp_all add: same_line_def\<close>)
qed (simp add: same_line_def canonical_market_detail_def)

lemma lineless_detail:
  "d \<in> lineless_details \<Longrightarrow> after ''totals_'' (chomp d) = None \<and> ou_token d = None \<and> d \<noteq> [] \<and> hd d \<noteq> CHR ''s'' \<and> hd d \<noteq> CHR ''a''"
proof -
  have c: "\<forall>d \<in> lineless_details. after ''totals_'' (chomp d) = None \<and> ou_token d = None \<and> d \<noteq> [] \<and> hd d \<noteq> CHR ''s'' \<and> hd d \<noteq> CHR ''a''"
    unfolding lineless_details_def by code_simp
  then show "d \<in> lineless_details \<Longrightarrow> ?thesis" by (rule bspec)
qed

lemma lineless_no_line: "lower a \<in> lineless_details \<Longrightarrow> detail_line a = None"
proof -
  assume a: "lower a \<in> lineless_details"
  note c = lineless_detail [OF a]
  have l: "lower_char CHR ''s'' = CHR ''s''" "lower_char CHR ''a'' = CHR ''a''" by code_simp+
  have "hd (lower a) = lower_char (hd a)" using c by (cases a) (simp_all add: lower_def)
  then have h: "hd a \<noteq> CHR ''s''" "hd a \<noteq> CHR ''a''" using c l by force+
  have "native_spread a = None" using native_head [of a] h(1) by (cases "native_spread a") blast+
  moreover have "arcadia_ah a = None" using arcadia_head [of a] h(2) by (cases "arcadia_ah a") blast+
  ultimately show ?thesis using c by (simp add: detail_line_def)
qed

lemma same_line_cases:
  assumes "same_line d d'"
  obtains (equal) "d' = d" | (dropped) a where "d = Some a" "lower a \<in> lineless_details" "d' = None"
    | (renamed) a b l where "d = Some a" "d' = Some b" "detail_line a = Some l" "detail_line b = Some l"
  using assms unfolding same_line_def by blast

lemma same_line_trans:
  assumes "same_line a b" "same_line b c" shows "same_line a c"
  using assms(1)
proof (cases rule: same_line_cases)
  case equal
  then show ?thesis using assms(2) by simp
next
  case (dropped x)
  from assms(2) have "c = None" by (cases rule: same_line_cases) (use dropped in simp_all)
  then show ?thesis using dropped by (simp add: same_line_def)
next
  case (renamed x y l)
  note ab = this
  from assms(2) show ?thesis
  proof (cases rule: same_line_cases)
    case equal
    then show ?thesis using assms(1) by simp
  next
    case (dropped z)
    then show ?thesis using ab lineless_no_line [of z] by simp
  next
    case (renamed z w l')
    then show ?thesis using ab by (simp add: same_line_def)
  qed
qed

lemma adopt_same_line:
  assumes "adopt natives s = Ok s'"
  shows "s' = s\<lparr>os_detail := os_detail s'\<rparr>" "same_line (os_detail s) (os_detail s')"
proof -
  have "s' = s\<lparr>os_detail := os_detail s'\<rparr> \<and> same_line (os_detail s) (os_detail s')"
    using assms
  proof (cases rule: adoptE)
    case same
    then show ?thesis by (simp add: same_line_def)
  next
    case (adopted a neg u native v l)
    then show ?thesis using detail_line_arcadia [of a neg u] detail_line_native [of native v] by (simp add: same_line_def)
  qed
  then show "s' = s\<lparr>os_detail := os_detail s'\<rparr>" "same_line (os_detail s) (os_detail s')" by blast+
qed

lemma fold_lines:
  "fold_injected_group_details xs = Ok ys \<Longrightarrow> list_all2 (\<lambda>x y. y = x\<lparr>os_detail := os_detail y\<rparr> \<and> same_line (os_detail x) (os_detail y)) xs ys"
proof -
  assume "fold_injected_group_details xs = Ok ys"
  then have "list_all2 (\<lambda>x y. adopt (natives_of (map canoned xs)) (canoned x) = Ok y) xs ys" by (simp add: fold_Ok)
  moreover have "y = x\<lparr>os_detail := os_detail y\<rparr> \<and> same_line (os_detail x) (os_detail y)"
    if "adopt (natives_of (map canoned xs)) (canoned x) = Ok y" for x y
  proof -
    have a: "y = (canoned x)\<lparr>os_detail := os_detail y\<rparr>" "same_line (os_detail (canoned x)) (os_detail y)" by (rule adopt_same_line [OF that])+
    have "(canoned x)\<lparr>os_detail := d\<rparr> = x\<lparr>os_detail := d\<rparr>" "os_detail (canoned x) = canonical_market_detail (os_detail x)" for d
      by (simp_all add: canoned_def)
    then show ?thesis using a canonical_same_line same_line_trans by metis
  qed
  ultimately show ?thesis by (rule list_all2_mono)
qed

subsection \<open>Order and repetition\<close>

lemma natives_cong: "set cs = set ds \<Longrightarrow> natives_of cs = natives_of ds"
  by (simp add: natives_of_def [abs_def])

lemma fold_perm:
  assumes "mset xs = mset zs" "fold_injected_group_details xs = Ok ys"
  shows "\<exists>ws. fold_injected_group_details zs = Ok ws \<and> mset ws = mset ys"
proof -
  have s: "set (map canoned xs) = set (map canoned zs)" using mset_eq_setD [OF assms(1)] by simp
  have f: "\<forall>s \<in> set (map canoned zs). names_native s \<noteq> Raise OverflowError"
    "list_all2 (\<lambda>x y. adopt (natives_of (map canoned zs)) (canoned x) = Ok y) xs ys"
    using assms(2) unfolding fold_Ok s natives_cong [OF s] by blast+
  then show ?thesis using list_all2_reorder_left_invariance [OF f(2) assms(1) [symmetric]] unfolding fold_Ok by blast
qed

lemma native_not_adopted: "os_detail s = Some d \<Longrightarrow> native_spread d = Some v \<Longrightarrow> adopt natives s = Ok s"
  using not_both [of d v] by (cases "os_market s = ''spreads''") (simp_all add: adopt_def adopted_detail_def spread_detail_def)

lemma names_nativeD:
  "names_native s = Ok True \<Longrightarrow> \<exists>d v. os_detail s = Some d \<and> native_spread d = Some v"
  by (auto simp: names_native_def spread_detail_def split: option.splits if_splits bind_splits)

lemma list_all2_right: "list_all2 P xs ys \<Longrightarrow> y \<in> set ys \<Longrightarrow> \<exists>x \<in> set xs. P x y"
  by (induction rule: list_all2_induct) auto

lemma list_all2_left: "list_all2 P xs ys \<Longrightarrow> x \<in> set xs \<Longrightarrow> \<exists>y \<in> set ys. P x y"
  by (induction rule: list_all2_induct) auto

lemma fold_stable:
  assumes "fold_injected_group_details xs = Ok ys" shows "fold_injected_group_details ys = Ok ys"
proof -
  let ?cs = "map canoned xs"
  have ok: "\<And>c. c \<in> set ?cs \<Longrightarrow> names_native c \<noteq> Raise OverflowError"
    and each: "list_all2 (\<lambda>c y. adopt (natives_of ?cs) c = Ok y) ?cs ys"
    using assms unfolding fold_Ok list_all2_map1 by blast+
  have from_c: "\<exists>c \<in> set ?cs. adopt (natives_of ?cs) c = Ok y" if "y \<in> set ys" for y
    using list_all2_right [OF each that] .
  have to_y: "\<exists>y \<in> set ys. adopt (natives_of ?cs) c = Ok y" if "c \<in> set ?cs" for c
    using list_all2_left [OF each that] .
  have stable: "canoned c = c" if "c \<in> set ?cs" for c using that by (auto simp: canoned_def canonical_stable)
  have y: "canoned y = y \<and> names_native y \<noteq> Raise OverflowError \<and> (y \<in> set ?cs \<and> adopt (natives_of ?cs) y = Ok y
      \<or> (\<exists>d v. os_detail y = Some d \<and> native_spread d = Some v \<and> d \<in> natives_of ?cs (os_event y, os_selection y)))" if iny: "y \<in> set ys" for y
  proof -
    obtain c where c: "c \<in> set ?cs" "adopt (natives_of ?cs) c = Ok y" using from_c [OF iny] by blast
    from c(2) show ?thesis
    proof (cases rule: adoptE)
      case same
      then show ?thesis using c stable [OF c(1)] ok [OF c(1)] by simp
    next
      case (adopted a neg u native v l)
      have n: "native \<in> natives_of ?cs (os_event c, os_selection c)" using adopted(5) by simp
      then obtain q where q: "q \<in> set ?cs" "os_detail q = Some native" by (auto simp: natives_of_def)
      have "canonical_market_detail (os_detail q) = os_detail q" using arg_cong [OF stable [OF q(1)], of os_detail] by (simp add: canoned_def)
      then have "canonical_market_detail (Some native) = Some native" using q(2) by simp
      then have "canoned y = y" using adopted(1) by (simp add: canoned_def)
      moreover obtain z where "fractional_line False v = Ok z" using adopted(8) by (simp add: fractional_line_def)
      then have "names_native y \<noteq> Raise OverflowError" using adopted(1, 2, 6) by (simp add: names_native_def spread_detail_def)
      ultimately show ?thesis using adopted(1, 6) n by simp
    qed
  qed
  have eq: "natives_of ys = natives_of ?cs"
  proof (intro ext set_eqI iffI)
    fix k d assume "d \<in> natives_of ys k"
    then obtain q where q: "q \<in> set ys" "(os_event q, os_selection q) = k" "names_native q = Ok True" "os_detail q = Some d" by (auto simp: natives_of_def)
    then show "d \<in> natives_of ?cs k" using y [OF q(1)] unfolding natives_of_def by auto
  next
    fix k d assume "d \<in> natives_of ?cs k"
    then obtain c where c: "c \<in> set ?cs" "(os_event c, os_selection c) = k" "names_native c = Ok True" "os_detail c = Some d"
      unfolding natives_of_def by blast
    obtain q where q: "q \<in> set ys" "adopt (natives_of ?cs) c = Ok q" using to_y [OF c(1)] by blast
    have "q = c" using names_nativeD [OF c(3)] native_not_adopted q(2) by force
    then show "d \<in> natives_of ys k" using q(1) c unfolding natives_of_def by blast
  qed
  have can: "canoned q = q" if "q \<in> set ys" for q using y [OF that] by blast
  have ad: "adopt (natives_of ys) q = Ok q" if "q \<in> set ys" for q
    using y [OF that] native_not_adopted unfolding eq by blast
  have nn: "names_native q \<noteq> Raise OverflowError" if "q \<in> set ys" for q using y [OF that] by blast
  have m: "map canoned ys = ys" using can by (intro map_idI) blast
  show ?thesis unfolding fold_Ok m using can ad nn by (simp add: list_all2_same)
qed

end
