(* ===== verification/GroupFacts.thy ===== *)
theory GroupFacts
  imports MarketGroups "HOL-Library.Product_Lexorder"
begin

text \<open>
  The newest observation of every quote and the tables built from them: which snapshot survives, that nothing
  depends on the order of the feeds, and that price, instant, freshness and liquidity come from one snapshot.
\<close>

subsection \<open>The order of observations\<close>

type_synonym rank = "time \<times> time \<times> rat \<times> bool \<times> rat"

definition fin :: "pyfloat \<Rightarrow> rat" where
  "fin f = (case f of Fin x \<Rightarrow> x | _ \<Rightarrow> 0)"

definition rank :: "odds_snapshot \<Rightarrow> rank" where
  "rank s = (os_captured s, os_ingested s, - fin (os_odds s), os_liquidity s \<noteq> None,
     (case os_liquidity s of Some x \<Rightarrow> - fin x | None \<Rightarrow> 0))"

lemma admissible_fin:
  assumes "admissible s"
  obtains x where "os_odds s = Fin x" "os_liquidity s = None \<or> (\<exists>y. os_liquidity s = Some (Fin y))"
  using assms by (auto simp: admissible_def split: pyfloat.splits option.splits)

lemma newer_rank:
  assumes "admissible s" "admissible p" shows "newer s p \<longleftrightarrow> rank p < rank s"
proof -
  obtain x where x: "os_odds s = Fin x" "os_liquidity s = None \<or> (\<exists>y. os_liquidity s = Some (Fin y))" using assms(1) by (rule admissible_fin)
  obtain z where z: "os_odds p = Fin z" "os_liquidity p = None \<or> (\<exists>y. os_liquidity p = Some (Fin y))" using assms(2) by (rule admissible_fin)
  show ?thesis using x z by (auto simp: newer_def rank_def fin_def)
qed

text \<open>Two observations of one quote with the same rank are one.\<close>

lemma same_rank:
  assumes "admissible s" "admissible p" "quote_key s = quote_key p" "rank s = rank p" shows "s = p"
proof -
  obtain x where x: "os_odds s = Fin x" "os_liquidity s = None \<or> (\<exists>y. os_liquidity s = Some (Fin y))" using assms(1) by (rule admissible_fin)
  obtain z where z: "os_odds p = Fin z" "os_liquidity p = None \<or> (\<exists>y. os_liquidity p = Some (Fin y))" using assms(2) by (rule admissible_fin)
  show ?thesis using x z assms(3, 4) by (auto simp: rank_def fin_def quote_key_def intro!: odds_snapshot.equality)
qed

subsection \<open>What is kept\<close>

definition newest_of :: "odds_snapshot list \<Rightarrow> odds_snapshot \<Rightarrow> bool" where
  "newest_of xs s \<longleftrightarrow> s \<in> set xs \<and> (\<forall>q \<in> set xs. quote_key q = quote_key s \<longrightarrow> rank q \<le> rank s)"

lemma coalesce_snoc: "coalesce_market_snapshots (xs @ [x]) = keep_newest (coalesce_market_snapshots xs) x"
  by (simp add: coalesce_market_snapshots_def)

lemma dedup_snoc: "dedup_onto acc (xs @ [x]) = (if x \<in> set acc \<union> set xs then dedup_onto acc xs else dedup_onto acc xs @ [x])"
  by (induction acc xs rule: dedup_onto.induct) auto

lemma find_in: "find P xs = Some p \<Longrightarrow> p \<in> set xs \<and> P p"
  by (auto simp: find_Some_iff)

lemma keep_keys: "map quote_key (keep_newest kept s) = (if quote_key s \<in> quote_key ` set kept then map quote_key kept else map quote_key kept @ [quote_key s])"
proof (cases "find (\<lambda>p. quote_key p = quote_key s) kept")
  case None
  then have "quote_key s \<notin> quote_key ` set kept" by (force simp: find_None_iff)
  then show ?thesis using None by (simp add: keep_newest_def)
next
  case (Some p)
  then have "quote_key s \<in> quote_key ` set kept" using find_in by (metis (mono_tags, lifting) imageI)
  then show ?thesis using Some by (simp add: keep_newest_def)
qed

lemma coalesce_keys: "map quote_key (coalesce_market_snapshots xs) = dedup_onto [] (map quote_key xs)"
proof (induction xs rule: rev_induct)
  case (snoc x xs)
  have "quote_key ` set (coalesce_market_snapshots xs) = quote_key ` set xs" using arg_cong [OF snoc, of set] by simp
  then show ?case using snoc by (simp add: coalesce_snoc keep_keys dedup_snoc)
qed (simp add: coalesce_market_snapshots_def)

lemma coalesce_distinct: "distinct (map quote_key (coalesce_market_snapshots xs))"
  by (simp add: coalesce_keys)

lemma same_key_one: "distinct (map f xs) \<Longrightarrow> x \<in> set xs \<Longrightarrow> y \<in> set xs \<Longrightarrow> f x = f y \<Longrightarrow> x = y"
  by (metis distinct_map inj_onD)

lemma coalesce_newest:
  "list_all admissible xs \<Longrightarrow> s \<in> set (coalesce_market_snapshots xs) \<Longrightarrow> newest_of xs s"
proof (induction xs arbitrary: s rule: rev_induct)
  case (snoc x xs)
  have adm: "list_all admissible xs" "admissible x" using snoc.prems(1) by simp_all
  let ?c = "coalesce_market_snapshots xs"
  have old: "newest_of xs q" if "q \<in> set ?c" for q using snoc.IH [OF adm(1) that] .
  have in_adm: "admissible q" if "q \<in> set xs" for q using adm(1) that by (simp add: list_all_iff)
  have keys: "quote_key ` set ?c = quote_key ` set xs" using arg_cong [OF coalesce_keys [of xs], of set] by simp
  show ?case
  proof (cases "find (\<lambda>p. quote_key p = quote_key x) ?c")
    case None
    then have "quote_key x \<notin> quote_key ` set xs" using keys by (force simp: find_None_iff)
    then have other: "quote_key q \<noteq> quote_key x" if "q \<in> set xs" for q using that by (metis imageI)
    have "s = x \<or> s \<in> set ?c" using None snoc.prems(2) by (auto simp: coalesce_snoc keep_newest_def)
    then show ?thesis
    proof
      assume "s = x"
      then show ?thesis using other by (auto simp: newest_of_def)
    next
      assume "s \<in> set ?c"
      then show ?thesis using old [of s] other [of s] by (auto simp: newest_of_def)
    qed
  next
    case (Some p)
    then have p: "p \<in> set ?c" "quote_key p = quote_key x" using find_in [OF Some] by simp_all
    have np: "newest_of xs p" using old [OF p(1)] .
    then have ap: "admissible p" using in_adm by (simp add: newest_of_def)
    show ?thesis
    proof (cases "newer x p")
      case True
      then have r: "rank p < rank x" using newer_rank adm(2) ap by blast
      have "s = x \<or> s \<in> set ?c \<and> quote_key s \<noteq> quote_key x" using snoc.prems(2) Some True by (auto simp: coalesce_snoc keep_newest_def)
      then show ?thesis
      proof
        assume "s = x"
        then show ?thesis using np p(2) r by (force simp: newest_of_def)
      next
        assume "s \<in> set ?c \<and> quote_key s \<noteq> quote_key x"
        then show ?thesis using old [of s] by (auto simp: newest_of_def)
      qed
    next
      case False
      then have r: "rank x \<le> rank p" using newer_rank adm(2) ap by (simp add: not_less)
      have s: "s \<in> set ?c" using snoc.prems(2) Some False by (simp add: coalesce_snoc keep_newest_def)
      show ?thesis
      proof (cases "quote_key s = quote_key x")
        case True
        then have "s = p" using same_key_one [OF coalesce_distinct s p(1)] p(2) by simp
        then show ?thesis using np r by (auto simp: newest_of_def)
      next
        case False
        then show ?thesis using old [OF s] by (auto simp: newest_of_def)
      qed
    qed
  qed
qed (simp add: coalesce_market_snapshots_def)

lemma coalesce_iff:
  assumes "list_all admissible xs" shows "s \<in> set (coalesce_market_snapshots xs) \<longleftrightarrow> newest_of xs s"
proof
  assume n: "newest_of xs s"
  have in_adm: "admissible q" if "q \<in> set xs" for q using assms that by (simp add: list_all_iff)
  have "quote_key s \<in> quote_key ` set (coalesce_market_snapshots xs)"
    using arg_cong [OF coalesce_keys [of xs], of set] n by (simp add: newest_of_def)
  then obtain q where q: "q \<in> set (coalesce_market_snapshots xs)" "quote_key q = quote_key s" by auto
  have "newest_of xs q" by (rule coalesce_newest [OF assms q(1)])
  then have "rank q = rank s" "q \<in> set xs" "s \<in> set xs" using n q(2) by (auto simp: newest_of_def intro: antisym)
  then show "s \<in> set (coalesce_market_snapshots xs)" using same_rank [of q s] in_adm q by auto
qed (rule coalesce_newest [OF assms])

subsection \<open>Tables of quotes\<close>

locale quote_table =
  fixes look :: "'t \<Rightarrow> 'k \<Rightarrow> 'v option" and enter :: "'s \<Rightarrow> 't \<Rightarrow> 't" and key :: "'s \<Rightarrow> 'k" and val :: "'s \<Rightarrow> 'v"
  assumes look_enter: "look (enter s t) k = (if k = key s then Some (val s) else look t k)"
begin

lemma look_missing: "k \<notin> key ` set xs \<Longrightarrow> look (foldl (\<lambda>t s. enter s t) t xs) k = look t k"
  by (induction xs arbitrary: t) (auto simp: look_enter)

lemma look_entered: "distinct (map key xs) \<Longrightarrow> s \<in> set xs \<Longrightarrow> look (foldl (\<lambda>t s. enter s t) t xs) (key s) = Some (val s)"
proof (induction xs arbitrary: t)
  case (Cons x xs)
  show ?case
  proof (cases "s = x")
    case True
    then show ?thesis using look_missing [of "key s" xs "enter x t"] Cons.prems(1) by (simp add: look_enter)
  next
    case False
    then show ?thesis using Cons by simp
  qed
qed simp

lemma look_iff:
  assumes "distinct (map key xs)" "look t k = None"
  shows "look (foldl (\<lambda>t s. enter s t) t xs) k = Some v \<longleftrightarrow> (\<exists>s \<in> set xs. key s = k \<and> val s = v)"
proof (cases "k \<in> key ` set xs")
  case True
  then obtain s where s: "s \<in> set xs" "key s = k" by auto
  then have "look (foldl (\<lambda>t s. enter s t) t xs) k = Some (val s)" using look_entered [OF assms(1) s(1)] by simp
  then show ?thesis using s same_key_one [OF assms(1)] by auto
next
  case False
  then show ?thesis using look_missing [OF False] assms(2) by auto
qed

end

definition at2 :: "('k \<times> ('j \<times> 'v) list) list \<Rightarrow> 'k \<Rightarrow> 'j \<Rightarrow> 'v option" where
  "at2 d k j = Option.bind (map_of d k) (\<lambda>e. map_of e j)"

lemma map_of_default: "map_of (AList.map_default k v f d) x = (if x = k then Some (case map_of d k of None \<Rightarrow> v | Some e \<Rightarrow> f e) else map_of d x)"
  by (induction d) auto

lemma at2_Nil [simp]: "at2 [] k j = None"
  by (simp add: at2_def)

lemma at2_put2: "at2 (put2 k j v d) k' j' = (if k' = k \<and> j' = j then Some v else at2 d k' j')"
  by (auto simp: at2_def put2_def map_of_default update_conv' split: option.splits)

text \<open>The five tables of a cycle, looked up by quote.\<close>

definition price_at :: "grouped \<Rightarrow> quote_key \<Rightarrow> pyfloat option" where
  "price_at g k = (case k of (e, m, d, sel, b) \<Rightarrow> Option.bind (map_of g (e, m, d)) (\<lambda>t. at2 (fst t) sel b))"

definition captured_at :: "grouped \<Rightarrow> quote_key \<Rightarrow> time option" where
  "captured_at g k = (case k of (e, m, d, sel, b) \<Rightarrow> Option.bind (map_of g (e, m, d)) (\<lambda>t. map_of (snd t) (sel, b)))"

definition fresh_at :: "(group_key \<times> ((string \<times> string) \<times> time) list) list \<Rightarrow> quote_key \<Rightarrow> time option" where
  "fresh_at g k = (case k of (e, m, d, sel, b) \<Rightarrow> at2 g (e, m, d) (sel, b))"

definition liquidity_at :: "(group_key \<times> pyfloat option dict dict) list \<Rightarrow> quote_key \<Rightarrow> pyfloat option option" where
  "liquidity_at g k = (case k of (e, m, d, sel, b) \<Rightarrow> Option.bind (map_of g (e, m, d)) (\<lambda>t. at2 t sel b))"

definition enter_quote :: "odds_snapshot \<Rightarrow> grouped \<Rightarrow> grouped" where
  "enter_quote s out = AList.map_default (group_key s) (add_quote s ([], [])) (add_quote s) out"

definition enter_fresh :: "freshness_basis \<Rightarrow> odds_snapshot \<Rightarrow> (group_key \<times> ((string \<times> string) \<times> time) list) list \<Rightarrow>
    (group_key \<times> ((string \<times> string) \<times> time) list) list" where
  "enter_fresh basis s out = put2 (group_key s) (os_selection s, os_book s) (snapshot_freshness_time s basis) out"

definition enter_liquidity :: "odds_snapshot \<Rightarrow> (group_key \<times> pyfloat option dict dict) list \<Rightarrow> (group_key \<times> pyfloat option dict dict) list" where
  "enter_liquidity s out = AList.map_default (group_key s) (add_liquidity s []) (add_liquidity s) out"

interpretation price_table: quote_table price_at enter_quote quote_key os_odds
proof
  show "price_at (enter_quote s t) k = (if k = quote_key s then Some (os_odds s) else price_at t k)" for s t k
    by (cases k) (auto simp: price_at_def enter_quote_def map_of_default add_quote_def at2_put2 quote_key_def group_key_def split: option.splits)
qed

interpretation captured_table: quote_table captured_at enter_quote quote_key os_captured
proof
  show "captured_at (enter_quote s t) k = (if k = quote_key s then Some (os_captured s) else captured_at t k)" for s t k
    by (cases k) (auto simp: captured_at_def enter_quote_def map_of_default add_quote_def update_conv' quote_key_def group_key_def split: option.splits)
qed

interpretation fresh_table: quote_table fresh_at "enter_fresh basis" quote_key "\<lambda>s. snapshot_freshness_time s basis" for basis
proof
  show "fresh_at (enter_fresh basis s t) k = (if k = quote_key s then Some (snapshot_freshness_time s basis) else fresh_at t k)" for s t k
    by (cases k) (auto simp: fresh_at_def enter_fresh_def at2_put2 quote_key_def group_key_def)
qed

interpretation liquidity_table: quote_table liquidity_at enter_liquidity quote_key os_liquidity
proof
  show "liquidity_at (enter_liquidity s t) k = (if k = quote_key s then Some (os_liquidity s) else liquidity_at t k)" for s t k
    by (cases k) (auto simp: liquidity_at_def enter_liquidity_def map_of_default add_liquidity_def at2_put2 quote_key_def group_key_def split: option.splits)
qed

lemma prices_eq: "group_market_prices xs = foldl (\<lambda>t s. enter_quote s t) [] (coalesce_market_snapshots xs)"
  by (simp add: group_market_prices_def enter_quote_def [abs_def])

lemma fresh_eq: "group_market_freshness_times basis xs = foldl (\<lambda>t s. enter_fresh basis s t) [] (coalesce_market_snapshots xs)"
  by (simp add: group_market_freshness_times_def enter_fresh_def [abs_def])

lemma foldl_filter: "foldl (\<lambda>t s. if P s then t else f s t) t xs = foldl (\<lambda>t s. f s t) t (filter (\<lambda>s. \<not> P s) xs)"
  by (induction xs arbitrary: t) auto

lemma liquidity_eq:
  "group_market_liquidity xs = foldl (\<lambda>t s. enter_liquidity s t) [] (filter (\<lambda>s. os_liquidity s \<noteq> None) (coalesce_market_snapshots xs))"
  unfolding group_market_liquidity_def enter_liquidity_def [symmetric]
  using foldl_filter [of "\<lambda>s. os_liquidity s = None" enter_liquidity "[]" "coalesce_market_snapshots xs"] .

lemma look_empty [simp]: "price_at [] k = None" "captured_at [] k = None" "fresh_at [] k = None" "liquidity_at [] k = None"
  by (cases k; simp add: price_at_def captured_at_def fresh_at_def liquidity_at_def)+

lemma filter_distinct: "distinct (map f xs) \<Longrightarrow> distinct (map f (filter P xs))"
  by (induction xs) auto

lemma tables_exact:
  "price_at (group_market_prices xs) k = Some x \<longleftrightarrow> (\<exists>s \<in> set (coalesce_market_snapshots xs). quote_key s = k \<and> os_odds s = x)"
  "captured_at (group_market_prices xs) k = Some c \<longleftrightarrow> (\<exists>s \<in> set (coalesce_market_snapshots xs). quote_key s = k \<and> os_captured s = c)"
  "fresh_at (group_market_freshness_times basis xs) k = Some f
     \<longleftrightarrow> (\<exists>s \<in> set (coalesce_market_snapshots xs). quote_key s = k \<and> snapshot_freshness_time s basis = f)"
  "liquidity_at (group_market_liquidity xs) k = Some q
     \<longleftrightarrow> (\<exists>s \<in> set (coalesce_market_snapshots xs). quote_key s = k \<and> os_liquidity s = q \<and> q \<noteq> None)"
  using price_table.look_iff [OF coalesce_distinct look_empty(1), of xs k x]
    captured_table.look_iff [OF coalesce_distinct look_empty(2), of xs k c]
    fresh_table.look_iff [OF coalesce_distinct [of xs] look_empty(3) [of k], where basis = basis and v = f]
    liquidity_table.look_iff [OF filter_distinct [OF coalesce_distinct] look_empty(4), of "\<lambda>s. os_liquidity s \<noteq> None" xs k q]
  unfolding prices_eq fresh_eq liquidity_eq by auto

lemma coalesced_quotes: "quote_key ` set (coalesce_market_snapshots xs) = quote_key ` set xs"
  using arg_cong [OF coalesce_keys [of xs], of set] by simp

lemma tables_missing:
  assumes "k \<notin> quote_key ` set xs"
  shows "price_at (group_market_prices xs) k = None" "captured_at (group_market_prices xs) k = None"
    "fresh_at (group_market_freshness_times basis xs) k = None" "liquidity_at (group_market_liquidity xs) k = None"
proof -
  have c: "k \<notin> quote_key ` set (coalesce_market_snapshots xs)" using assms by (simp add: coalesced_quotes)
  then have f: "k \<notin> quote_key ` set (filter (\<lambda>s. os_liquidity s \<noteq> None) (coalesce_market_snapshots xs))" by auto
  show "price_at (group_market_prices xs) k = None" unfolding prices_eq by (simp add: price_table.look_missing [OF c])
  show "captured_at (group_market_prices xs) k = None" unfolding prices_eq by (simp add: captured_table.look_missing [OF c])
  show "fresh_at (group_market_freshness_times basis xs) k = None" unfolding fresh_eq by (simp add: fresh_table.look_missing [OF c])
  show "liquidity_at (group_market_liquidity xs) k = None" unfolding liquidity_eq liquidity_table.look_missing [OF f] by simp
qed

lemma tables_present:
  assumes "s \<in> set (coalesce_market_snapshots xs)"
  shows "price_at (group_market_prices xs) (quote_key s) = Some (os_odds s)" "captured_at (group_market_prices xs) (quote_key s) = Some (os_captured s)"
    "fresh_at (group_market_freshness_times basis xs) (quote_key s) = Some (snapshot_freshness_time s basis)"
    "liquidity_at (group_market_liquidity xs) (quote_key s) = (if os_liquidity s = None then None else Some (os_liquidity s))"
proof -
  let ?c = "coalesce_market_snapshots xs" and ?P = "\<lambda>s. os_liquidity s \<noteq> None"
  show "price_at (group_market_prices xs) (quote_key s) = Some (os_odds s)" unfolding prices_eq by (rule price_table.look_entered [OF coalesce_distinct assms])
  show "captured_at (group_market_prices xs) (quote_key s) = Some (os_captured s)" unfolding prices_eq by (rule captured_table.look_entered [OF coalesce_distinct assms])
  show "fresh_at (group_market_freshness_times basis xs) (quote_key s) = Some (snapshot_freshness_time s basis)"
    unfolding fresh_eq by (rule fresh_table.look_entered [OF coalesce_distinct assms])
  show "liquidity_at (group_market_liquidity xs) (quote_key s) = (if os_liquidity s = None then None else Some (os_liquidity s))"
  proof (cases "os_liquidity s = None")
    case True
    have "quote_key q \<noteq> quote_key s" if "q \<in> set (filter ?P ?c)" for q
      using same_key_one [OF coalesce_distinct _ assms, of q] that True by auto
    then have "quote_key s \<notin> quote_key ` set (filter ?P ?c)" by (metis imageE)
    then show ?thesis unfolding liquidity_eq using True by (subst liquidity_table.look_missing) simp_all
  next
    case False
    then have "s \<in> set (filter ?P ?c)" using assms by simp
    then show ?thesis unfolding liquidity_eq liquidity_table.look_entered [OF filter_distinct [OF coalesce_distinct] \<open>s \<in> set (filter ?P ?c)\<close>] using False by simp
  qed
qed

lemma captured_None: "captured_at (group_market_prices xs) k = None \<longleftrightarrow> k \<notin> quote_key ` set xs"
proof
  assume n: "captured_at (group_market_prices xs) k = None"
  show "k \<notin> quote_key ` set xs"
  proof
    assume "k \<in> quote_key ` set xs"
    then have "k \<in> quote_key ` set (coalesce_market_snapshots xs)" by (simp add: coalesced_quotes)
    then obtain s where "s \<in> set (coalesce_market_snapshots xs)" "k = quote_key s" by auto
    then show False using tables_present(2) [of s xs] n by simp
  qed
qed (rule tables_missing(2))

end
