(* ===== verification/FairFacts.thy ===== *)
theory FairFacts
  imports GroupFacts
begin

text \<open>
  What the pass over the groups of a cycle leaves in its tables: the fair probabilities of a direct group are
  those of its own anchor, and double chance is a view of the match odds of its event.
\<close>

subsection \<open>Groups have distinct keys\<close>

lemma fst_map_default: "fst ` set (AList.map_default k v f d) = insert k (fst ` set d)"
  by (induction d) auto

lemma distinct_default: "distinct (map fst d) \<Longrightarrow> distinct (map fst (AList.map_default k v f d))"
  by (induction d) (auto simp: fst_map_default)

lemma enter_quotes_distinct: "distinct (map fst t) \<Longrightarrow> distinct (map fst (foldl (\<lambda>t s. enter_quote s t) t xs))"
  by (induction xs arbitrary: t) (simp_all add: enter_quote_def distinct_default)

lemma groups_distinct: "distinct (map fst (group_market_prices xs))"
  using enter_quotes_distinct [of "[]" "coalesce_market_snapshots xs"] by (simp add: prices_eq)

subsection \<open>One group\<close>

definition coherent_direct :: "group_key \<Rightarrow> prices \<Rightarrow> bool" where
  "coherent_direct k prices \<longleftrightarrow> fst (snd k) \<in> direct_markets \<and> (fst (snd k) = ''spreads'' \<longrightarrow> spread_pair_coherent (map fst prices))"

text \<open>The anchor of one group, with the provenance of a miss.\<close>

definition anchor_at :: "numerics \<Rightarrow> devig_method \<Rightarrow> value_policy \<Rightarrow> (group_key \<times> pyfloat option dict dict) list \<Rightarrow> string set \<Rightarrow>
    group_key \<Rightarrow> prices \<Rightarrow> anchored option \<times> fair_miss option" where
  "anchor_at num method policy liquidity demoted k prices =
     (if fst (snd k) \<notin> direct_markets then (None, None)
      else if \<not> coherent_direct k prices then (None, Some Spread_Pair_Incoherent)
      else case anchor_fair_probs_with_provenance num (devig_method_for policy (fst (snd k)) (snd (snd k)) method)
             (group_config policy liquidity demoted k) prices of
          Inr (anchor, miss) \<Rightarrow> (anchor, map_option Sharp_Miss miss)
        | Inl e \<Rightarrow> (None, None))"

lemma note_miss_tables [simp]:
  "fp_fair (note_miss k m fp) = fp_fair fp" "fp_fell_back (note_miss k m fp) = fp_fell_back fp" "fp_three_way (note_miss k m fp) = fp_three_way fp"
  "fp_miss (note_miss k m fp) = (case m of None \<Rightarrow> fp_miss fp | Some x \<Rightarrow> AList.update k x (fp_miss fp))"
  by (simp_all add: note_miss_def Let_def split: option.splits)

lemma note_fair_tables [simp]:
  "fp_fair (note_fair k prices a fp) = (case a of None \<Rightarrow> fp_fair fp | Some x \<Rightarrow> AList.update k (an_book x, an_fair x) (fp_fair fp))"
  "fp_fell_back (note_fair k prices a fp) = (case a of None \<Rightarrow> fp_fell_back fp | Some x \<Rightarrow> AList.update k (an_fell_back x) (fp_fell_back fp))"
  "fp_miss (note_fair k prices a fp) = fp_miss fp"
  "fp_three_way (note_fair k prices a fp) = (case a of None \<Rightarrow> fp_three_way fp
     | Some x \<Rightarrow> if fst (snd k) = ''h2h'' \<and> length prices = 3
         then AList.update (fst k) ((an_book x, an_fair x), map fst prices, an_fell_back x) (fp_three_way fp) else fp_three_way fp)"
  by (cases a; auto simp: note_fair_def Let_def)+

lemma direct_fair_tables:
  assumes "direct_fair num method policy liquidity demoted k prices fp = Ok fp'"
    and a: "anchor_at num method policy liquidity demoted k prices = (a, m)"
  shows "map_of (fp_fair fp') = (case a of None \<Rightarrow> map_of (fp_fair fp) | Some x \<Rightarrow> (map_of (fp_fair fp))(k \<mapsto> (an_book x, an_fair x)))"
    "map_of (fp_fell_back fp') = (case a of None \<Rightarrow> map_of (fp_fell_back fp) | Some x \<Rightarrow> (map_of (fp_fell_back fp))(k \<mapsto> an_fell_back x))"
    "map_of (fp_miss fp') = (case m of None \<Rightarrow> map_of (fp_miss fp) | Some x \<Rightarrow> (map_of (fp_miss fp))(k \<mapsto> x))"
    "map_of (fp_three_way fp') = (case a of None \<Rightarrow> map_of (fp_three_way fp) | Some x \<Rightarrow> if fst (snd k) = ''h2h'' \<and> length prices = 3
       then (map_of (fp_three_way fp))(fst k \<mapsto> ((an_book x, an_fair x), map fst prices, an_fell_back x)) else map_of (fp_three_way fp))"
proof -
  consider (other) "fst (snd k) \<notin> direct_markets" | (bad) "fst (snd k) \<in> direct_markets" "\<not> coherent_direct k prices"
    | (ok) "fst (snd k) \<in> direct_markets" "coherent_direct k prices" by blast
  then have "(map_of (fp_fair fp') = (case a of None \<Rightarrow> map_of (fp_fair fp) | Some x \<Rightarrow> (map_of (fp_fair fp))(k \<mapsto> (an_book x, an_fair x))))
    \<and> (map_of (fp_fell_back fp') = (case a of None \<Rightarrow> map_of (fp_fell_back fp) | Some x \<Rightarrow> (map_of (fp_fell_back fp))(k \<mapsto> an_fell_back x)))
    \<and> (map_of (fp_miss fp') = (case m of None \<Rightarrow> map_of (fp_miss fp) | Some x \<Rightarrow> (map_of (fp_miss fp))(k \<mapsto> x)))
    \<and> (map_of (fp_three_way fp') = (case a of None \<Rightarrow> map_of (fp_three_way fp) | Some x \<Rightarrow> if fst (snd k) = ''h2h'' \<and> length prices = 3
       then (map_of (fp_three_way fp))(fst k \<mapsto> ((an_book x, an_fair x), map fst prices, an_fell_back x)) else map_of (fp_three_way fp)))"
  proof cases
    case other
    then show ?thesis using assms by (simp add: direct_fair_def anchor_at_def)
  next
    case bad
    then show ?thesis using assms by (auto simp: direct_fair_def anchor_at_def coherent_direct_def update_conv')
  next
    case ok
    then obtain a' m' where r: "anchor_fair_probs_with_provenance num (devig_method_for policy (fst (snd k)) (snd (snd k)) method)
        (group_config policy liquidity demoted k) prices = Ok (a', m')" and fp': "fp' = note_fair k prices a' (note_miss k (map_option Sharp_Miss m') fp)"
      using assms(1) by (auto simp: direct_fair_def coherent_direct_def rmap_Ok_iff)
    have "a = a'" "m = map_option Sharp_Miss m'" using a ok r by (simp_all add: anchor_at_def)
    then show ?thesis unfolding fp' by (auto simp: update_conv' split: option.splits)
  qed
  then show "map_of (fp_fair fp') = (case a of None \<Rightarrow> map_of (fp_fair fp) | Some x \<Rightarrow> (map_of (fp_fair fp))(k \<mapsto> (an_book x, an_fair x)))"
    "map_of (fp_fell_back fp') = (case a of None \<Rightarrow> map_of (fp_fell_back fp) | Some x \<Rightarrow> (map_of (fp_fell_back fp))(k \<mapsto> an_fell_back x))"
    "map_of (fp_miss fp') = (case m of None \<Rightarrow> map_of (fp_miss fp) | Some x \<Rightarrow> (map_of (fp_miss fp))(k \<mapsto> x))"
    "map_of (fp_three_way fp') = (case a of None \<Rightarrow> map_of (fp_three_way fp) | Some x \<Rightarrow> if fst (snd k) = ''h2h'' \<and> length prices = 3
       then (map_of (fp_three_way fp))(fst k \<mapsto> ((an_book x, an_fair x), map fst prices, an_fell_back x)) else map_of (fp_three_way fp))"
    by blast+
qed

subsection \<open>All groups\<close>

definition anchor_of :: "numerics \<Rightarrow> devig_method \<Rightarrow> value_policy \<Rightarrow> (group_key \<times> pyfloat option dict dict) list \<Rightarrow> string set \<Rightarrow>
    grouped \<Rightarrow> group_key \<Rightarrow> anchored option \<times> fair_miss option" where
  "anchor_of num method policy liquidity demoted groups k = (case map_of groups k of None \<Rightarrow> (None, None)
     | Some (prices, captured) \<Rightarrow> anchor_at num method policy liquidity demoted k prices)"

lemma anchor_of_Cons:
  "k \<notin> fst ` set gs \<Longrightarrow> anchor_of num method policy liquidity demoted ((k, prices, captured) # gs) =
     (anchor_of num method policy liquidity demoted gs)(k := anchor_at num method policy liquidity demoted k prices)"
  by (auto simp: anchor_of_def)

lemma anchor_of_missing: "k \<notin> fst ` set gs \<Longrightarrow> anchor_of num method policy liquidity demoted gs k = (None, None)"
proof -
  assume "k \<notin> fst ` set gs"
  then have "map_of gs k = None" by (simp add: map_of_eq_None_iff)
  then show ?thesis by (simp add: anchor_of_def)
qed

lemma direct_pass_tables:
  "direct_pass num method policy liquidity demoted gs fp = Ok fp' \<Longrightarrow> distinct (map fst gs) \<Longrightarrow>
     map_of (fp_fair fp') k = (case fst (anchor_of num method policy liquidity demoted gs k) of None \<Rightarrow> map_of (fp_fair fp) k | Some x \<Rightarrow> Some (an_book x, an_fair x))
   \<and> map_of (fp_fell_back fp') k = (case fst (anchor_of num method policy liquidity demoted gs k) of None \<Rightarrow> map_of (fp_fell_back fp) k | Some x \<Rightarrow> Some (an_fell_back x))
   \<and> map_of (fp_miss fp') k = (case snd (anchor_of num method policy liquidity demoted gs k) of None \<Rightarrow> map_of (fp_miss fp) k | Some x \<Rightarrow> Some x)"
proof (induction gs arbitrary: fp)
  case Nil
  then show ?case by (simp add: anchor_of_def)
next
  case (Cons g gs)
  obtain j prices captured where g: "g = (j, prices, captured)" by (cases g) auto
  obtain fp1 where s: "direct_fair num method policy liquidity demoted j prices fp = Ok fp1"
    "direct_pass num method policy liquidity demoted gs fp1 = Ok fp'" using Cons.prems(1) g by (auto simp: rbind_Ok_iff)
  obtain a m where a: "anchor_at num method policy liquidity demoted j prices = (a, m)" by fastforce
  note t = direct_fair_tables [OF s(1) a]
  have d: "distinct (map fst gs)" and j: "j \<notin> fst ` set gs" using Cons.prems(2) g by auto
  note ih = Cons.IH [OF s(2) d]
  show ?case
  proof (cases "k = j")
    case True
    then show ?thesis using ih unfolding g anchor_of_Cons [OF j] t anchor_of_missing [OF j] True
      by (simp add: a anchor_of_missing [OF j] split: option.splits)
  next
    case False
    then show ?thesis using ih unfolding g anchor_of_Cons [OF j] t by (simp split: option.splits)
  qed
qed

text \<open>The three-way match odds of an event come from one of its groups.\<close>

definition three_way_of :: "numerics \<Rightarrow> devig_method \<Rightarrow> value_policy \<Rightarrow> (group_key \<times> pyfloat option dict dict) list \<Rightarrow> string set \<Rightarrow>
    grouped \<Rightarrow> string \<Rightarrow> (string \<times> pyfloat dict) \<times> string list \<times> bool \<Rightarrow> bool" where
  "three_way_of num method policy liquidity demoted groups e w \<longleftrightarrow> (\<exists>d prices captured x.
     ((e, ''h2h'', d), prices, captured) \<in> set groups \<and> length prices = 3
     \<and> fst (anchor_at num method policy liquidity demoted (e, ''h2h'', d) prices) = Some x
     \<and> w = ((an_book x, an_fair x), map fst prices, an_fell_back x))"

lemma direct_pass_three_way:
  "direct_pass num method policy liquidity demoted gs fp = Ok fp' \<Longrightarrow> map_of (fp_three_way fp') e = Some w
     \<Longrightarrow> three_way_of num method policy liquidity demoted gs e w \<or> map_of (fp_three_way fp) e = Some w"
proof (induction gs arbitrary: fp)
  case (Cons g gs)
  obtain j prices captured where g: "g = (j, prices, captured)" by (cases g) auto
  obtain fp1 where s: "direct_fair num method policy liquidity demoted j prices fp = Ok fp1"
    "direct_pass num method policy liquidity demoted gs fp1 = Ok fp'" using Cons.prems(1) g by (auto simp: rbind_Ok_iff)
  obtain a m where a: "anchor_at num method policy liquidity demoted j prices = (a, m)" by fastforce
  have up: "three_way_of num method policy liquidity demoted gs e w \<Longrightarrow> three_way_of num method policy liquidity demoted (g # gs) e w"
    unfolding three_way_of_def by auto
  from Cons.IH [OF s(2) Cons.prems(2)] show ?case
  proof
    assume w: "map_of (fp_three_way fp1) e = Some w"
    show ?thesis
    proof (cases "map_of (fp_three_way fp) e = Some w")
      case False
      then obtain x where x: "a = Some x" "fst (snd j) = ''h2h''" "length prices = 3" "e = fst j" "w = ((an_book x, an_fair x), map fst prices, an_fell_back x)"
        using w unfolding direct_fair_tables(4) [OF s(1) a] by (auto split: option.splits if_splits)
      obtain d where "j = (e, ''h2h'', d)" using x by (cases j) auto
      then show ?thesis using x a unfolding g three_way_of_def by (intro disjI1 exI [of _ d]) auto
    qed simp
  qed (simp add: up)
qed simp

subsection \<open>Double chance\<close>

lemma derive_dc_direct: "fst (snd k) \<noteq> ''double_chance'' \<Longrightarrow> map_of (fp_fair (derive_dc j fp)) k = map_of (fp_fair fp) k
    \<and> map_of (fp_fell_back (derive_dc j fp)) k = map_of (fp_fell_back fp) k \<and> map_of (fp_miss (derive_dc j fp)) k = map_of (fp_miss fp) k"
  by (auto simp: derive_dc_def Let_def update_conv' split: option.splits prod.splits list.splits)

lemma derive_dc_keeps [simp]: "fp_three_way (derive_dc j fp) = fp_three_way fp"
  by (simp add: derive_dc_def Let_def split: option.splits prod.splits list.splits)

lemma derive_all_direct: "fst (snd k) \<noteq> ''double_chance'' \<Longrightarrow> map_of (fp_fair (foldl (\<lambda>fp g. derive_dc (fst g) fp) fp gs)) k = map_of (fp_fair fp) k
    \<and> map_of (fp_fell_back (foldl (\<lambda>fp g. derive_dc (fst g) fp) fp gs)) k = map_of (fp_fell_back fp) k
    \<and> map_of (fp_miss (foldl (\<lambda>fp g. derive_dc (fst g) fp) fp gs)) k = map_of (fp_miss fp) k"
  by (induction gs arbitrary: fp) (simp_all add: derive_dc_direct)

definition dc_view :: "fair_probs \<Rightarrow> group_key \<Rightarrow> string \<times> pyfloat dict \<Rightarrow> bool \<Rightarrow> bool" where
  "dc_view fp k r fell \<longleftrightarrow> (\<exists>book f home away. map_of (fp_three_way fp) (fst k) = Some ((book, f), [home, ''Draw'', away], fell)
     \<and> r = (book, double_chance_fair f home away ''Draw'') \<and> snd r \<noteq> [])"

lemma derive_dc_cases:
  obtains (same) "derive_dc j fp = fp"
    | (view) book f home away fell where "map_of (fp_three_way fp) (fst j) = Some ((book, f), [home, ''Draw'', away], fell)"
        "double_chance_fair f home away ''Draw'' \<noteq> []"
        "fp_fair (derive_dc j fp) = AList.update j (book, double_chance_fair f home away ''Draw'') (fp_fair fp)"
        "fp_fell_back (derive_dc j fp) = AList.update j fell (fp_fell_back fp)"
proof (cases "fst (snd j) = ''double_chance''")
  case True
  show thesis
  proof (cases "map_of (fp_three_way fp) (fst j)")
    case (Some w)
    then obtain book f sels fell where w: "map_of (fp_three_way fp) (fst j) = Some ((book, f), sels, fell)" by (cases w) auto
    show thesis
    proof (cases "\<exists>home away. sels = [home, ''Draw'', away] \<and> double_chance_fair f home away ''Draw'' \<noteq> []")
      case ex: True
      then obtain home away where s: "sels = [home, ''Draw'', away]" "double_chance_fair f home away ''Draw'' \<noteq> []" by blast
      show thesis by (rule view [OF w [unfolded s(1)] s(2)]) (use True w s in \<open>simp_all add: derive_dc_def Let_def split: option.splits\<close>)
    next
      case False
      then show thesis using same True w by (simp add: derive_dc_def Let_def split: list.splits)
    qed
  qed (use same True in \<open>simp add: derive_dc_def\<close>)
qed (use same in \<open>simp add: derive_dc_def\<close>)

lemma derive_dc_view:
  assumes "map_of (fp_fair (derive_dc j fp)) k = Some r"
  shows "dc_view fp k r (the (map_of (fp_fell_back (derive_dc j fp)) k)) \<or> map_of (fp_fair fp) k = Some r
    \<and> map_of (fp_fell_back (derive_dc j fp)) k = map_of (fp_fell_back fp) k"
proof (cases rule: derive_dc_cases [of j fp])
  case same
  then show ?thesis using assms by simp
next
  case (view book f home away fell)
  show ?thesis
  proof (cases "k = j")
    case True
    then have "r = (book, double_chance_fair f home away ''Draw'')" using assms view(3) by (simp add: update_conv')
    then show ?thesis using True view by (auto simp: dc_view_def update_conv')
  qed (use assms view(3, 4) in \<open>simp add: update_conv'\<close>)
qed

lemma dc_view_cong: "fp_three_way fp' = fp_three_way fp \<Longrightarrow> dc_view fp' = dc_view fp"
  by (simp add: dc_view_def [abs_def])

lemma derive_all_view:
  assumes "map_of (fp_fair fp) k = None" "map_of (fp_fair (foldl (\<lambda>fp g. derive_dc (fst g) fp) fp gs)) k = Some r"
  shows "dc_view fp k r (the (map_of (fp_fell_back (foldl (\<lambda>fp g. derive_dc (fst g) fp) fp gs)) k))"
  using assms(2)
proof (induction gs arbitrary: r rule: rev_induct)
  case (snoc g gs)
  let ?fp = "foldl (\<lambda>fp g. derive_dc (fst g) fp) fp gs"
  have tw: "fp_three_way (foldl (\<lambda>fp g. derive_dc (fst g) fp) fp hs) = fp_three_way fp" for hs :: "(group_key \<times> 'a) list"
    by (induction hs rule: rev_induct) simp_all
  have "map_of (fp_fair (derive_dc (fst g) ?fp)) k = Some r" using snoc.prems by simp
  from derive_dc_view [OF this] show ?case
  proof
    assume "dc_view ?fp k r (the (map_of (fp_fell_back (derive_dc (fst g) ?fp)) k))"
    then show ?thesis using dc_view_cong [OF tw, of gs] by simp
  next
    assume k: "map_of (fp_fair ?fp) k = Some r \<and> map_of (fp_fell_back (derive_dc (fst g) ?fp)) k = map_of (fp_fell_back ?fp) k"
    then show ?thesis using snoc.IH [of r] by simp
  qed
qed (use assms(1) in simp)

end
