(* ===== verification/GroupClaims.thy ===== *)
theory GroupClaims
  imports FoldFacts FairFacts
begin

text \<open>
  The properties of grouping the snapshots of a cycle and pricing the groups, with a sample cycle for the witnesses.
\<close>

subsection \<open>A sample cycle\<close>

definition sample_snapshot :: "string \<Rightarrow> string \<Rightarrow> string \<Rightarrow> rat \<Rightarrow> time \<Rightarrow> string option \<Rightarrow> odds_snapshot" where
  "sample_snapshot book market sel odds instant detail = \<lparr>os_event = ''e1'', os_book = book, os_market = market, os_selection = sel,
     os_odds = Fin odds, os_liquidity = None, os_captured = instant, os_ingested = instant, os_detail = detail\<rparr>"

text \<open>Match odds of one sharp book, re-quoted once; a totals line under two vocabularies; double chance.\<close>

definition sample_cycle :: "odds_snapshot list" where
  "sample_cycle =
     [sample_snapshot ''pinnacle'' ''h2h'' ''Home'' 2 2 (Some ''1x2''), sample_snapshot ''pinnacle'' ''h2h'' ''Draw'' 4 2 None,
      sample_snapshot ''pinnacle'' ''h2h'' ''Away'' 4 2 None, sample_snapshot ''pinnacle'' ''h2h'' ''Home'' 3 1 None,
      sample_snapshot ''pinnacle'' ''totals'' ''Over 2.5'' 2 2 (Some ''over_under_2_5''),
      sample_snapshot ''bet365'' ''totals'' ''Over 2.5'' (17 / 8) 9 (Some ''totals_2_5''),
      sample_snapshot ''pinnacle'' ''totals'' ''Over 3.5'' 4 2 (Some ''over_under_3_5''),
      sample_snapshot ''bet365'' ''double_chance'' ''Home or Draw'' (11 / 8) 2 None]"

definition sample_folded :: "odds_snapshot list" where
  "sample_folded = (case fold_injected_group_details sample_cycle of Inr ys \<Rightarrow> ys | Inl e \<Rightarrow> [])"

lemma sample_folds: "fold_injected_group_details sample_cycle = Ok sample_folded"
  by code_simp

lemma sample_details: "map os_detail sample_folded = [None, None, None, None, Some ''totals_2_5'', Some ''totals_2_5'', Some ''totals_3_5'', None]"
  by code_simp

lemma sample_admissible: "list_all admissible sample_folded"
  by code_simp

definition sample_kickoff :: "string \<Rightarrow> time option" where
  "sample_kickoff e = (if e = ''e1'' then Some 5 else None)"

definition before_kickoff :: "(string \<Rightarrow> time option) \<Rightarrow> odds_snapshot \<Rightarrow> bool" where
  "before_kickoff kickoffs s \<longleftrightarrow> (case kickoffs (os_event s) of None \<Rightarrow> True | Some t \<Rightarrow> os_captured s < t)"

subsection \<open>Quotes\<close>

text \<open>C13: Of all admissible observations of one bookmaker's price for one selection exactly one is kept: one of the
  latest capture time, among those of the latest arrival, among those the one with the lowest odds and the least
  liquidity.  What is kept does not depend on the order of the snapshots or on repetitions.\<close>

theorem newest_quote_wins:
  assumes "list_all admissible xs" "set ys = set xs"
  shows "distinct (map quote_key (coalesce_market_snapshots xs))
    \<and> (\<forall>s. s \<in> set (coalesce_market_snapshots xs) \<longleftrightarrow> newest_of xs s)
    \<and> set (coalesce_market_snapshots ys) = set (coalesce_market_snapshots xs)"
proof -
  have "list_all admissible ys" using assms by (simp add: list_all_iff)
  then have "s \<in> set (coalesce_market_snapshots ys) \<longleftrightarrow> newest_of xs s" for s
    using coalesce_iff [of ys s] assms(2) by (simp add: newest_of_def)
  then show ?thesis using coalesce_distinct coalesce_iff [OF assms(1)] by blast
qed

lemma newest_quote_wins_witness:
  "set (coalesce_market_snapshots (rev sample_folded)) = set (coalesce_market_snapshots sample_folded)
    \<and> length (coalesce_market_snapshots sample_folded) = 7"
proof -
  have "length (coalesce_market_snapshots sample_folded) = 7" by code_simp
  then show ?thesis using newest_quote_wins [OF sample_admissible, of "rev sample_folded"] by simp
qed

text \<open>The price, the capture time, the freshness and the liquidity that a cycle looks up for one quote are those of
  one and the same snapshot, the newest of that quote, and a quote nobody made is in no table.\<close>

theorem tables_share_snapshot:
  assumes "list_all admissible xs"
  shows "case find (\<lambda>s. quote_key s = k) (coalesce_market_snapshots xs) of
      None \<Rightarrow> k \<notin> quote_key ` set xs \<and> price_at (group_market_prices xs) k = None \<and> captured_at (group_market_prices xs) k = None
        \<and> fresh_at (group_market_freshness_times basis xs) k = None \<and> liquidity_at (group_market_liquidity xs) k = None
    | Some s \<Rightarrow> newest_of xs s \<and> quote_key s = k \<and> price_at (group_market_prices xs) k = Some (os_odds s)
        \<and> captured_at (group_market_prices xs) k = Some (os_captured s)
        \<and> fresh_at (group_market_freshness_times basis xs) k = Some (if basis = Observation then os_ingested s else os_captured s)
        \<and> liquidity_at (group_market_liquidity xs) k = (if os_liquidity s = None then None else Some (os_liquidity s))"
proof (cases "find (\<lambda>s. quote_key s = k) (coalesce_market_snapshots xs)")
  case None
  then have "k \<notin> quote_key ` set (coalesce_market_snapshots xs)" by (auto simp: find_None_iff)
  then have m: "k \<notin> quote_key ` set xs" by (simp add: coalesced_quotes)
  show ?thesis using None m tables_missing [OF m] by simp
next
  case (Some s)
  then have s: "s \<in> set (coalesce_market_snapshots xs)" "k = quote_key s" using find_in [OF Some] by simp_all
  have "newest_of xs s" using coalesce_iff [OF assms] s(1) by blast
  then show ?thesis using Some s(2) tables_present [OF s(1)] by (simp add: snapshot_freshness_time_def)
qed

lemma tables_share_snapshot_witness:
  "price_at (group_market_prices sample_folded) (''e1'', ''h2h'', None, ''Home'', ''pinnacle'') = Some (Fin 2)"
proof -
  have "map_option os_odds (find (\<lambda>s. quote_key s = (''e1'', ''h2h'', None, ''Home'', ''pinnacle'')) (coalesce_market_snapshots sample_folded)) = Some (Fin 2)"
    by code_simp
  then show ?thesis using tables_share_snapshot [OF sample_admissible, of "(''e1'', ''h2h'', None, ''Home'', ''pinnacle'')" Observation]
    by (auto split: option.splits)
qed

text \<open>C14: After the snapshots of events in play are dropped, the price that closes a quote is the newest one strictly
  before the kickoff of its event (of all, when no kickoff is known), and there is one exactly when somebody
  quoted it by then.\<close>

theorem last_price_before_kickoff:
  assumes "list_all admissible xs"
  shows "case captured_at (group_market_prices (drop_post_kickoff_snapshots kickoffs xs)) k of
      None \<Rightarrow> \<not> (\<exists>q \<in> set xs. quote_key q = k \<and> before_kickoff kickoffs q)
    | Some c \<Rightarrow> (\<exists>s \<in> set xs. quote_key s = k \<and> before_kickoff kickoffs s \<and> os_captured s = c
        \<and> price_at (group_market_prices (drop_post_kickoff_snapshots kickoffs xs)) k = Some (os_odds s)
        \<and> (\<forall>q \<in> set xs. quote_key q = k \<and> before_kickoff kickoffs q \<longrightarrow> os_captured q \<le> c))"
proof -
  let ?ys = "drop_post_kickoff_snapshots kickoffs xs"
  have ys: "set ?ys = {s \<in> set xs. before_kickoff kickoffs s}"
    by (auto simp: drop_post_kickoff_snapshots_def before_kickoff_def split: option.splits)
  have adm: "list_all admissible ?ys" using assms by (simp add: list_all_iff ys)
  show ?thesis
  proof (cases "captured_at (group_market_prices ?ys) k")
    case None
    have "k \<notin> quote_key ` set ?ys" using None by (simp add: captured_None)
    then show ?thesis using None ys by auto
  next
    case (Some c)
    then obtain s where s: "s \<in> set (coalesce_market_snapshots ?ys)" "quote_key s = k" "os_captured s = c" using tables_exact(2) [of ?ys k c] by blast
    have n: "newest_of ?ys s" using coalesce_iff [OF adm] s(1) by blast
    have p: "price_at (group_market_prices ?ys) k = Some (os_odds s)" using tables_exact(1) s by blast
    have "os_captured q \<le> c" if "q \<in> set xs" "quote_key q = k" "before_kickoff kickoffs q" for q
    proof -
      have "rank q \<le> rank s" using n that ys s(2) by (auto simp: newest_of_def)
      then show ?thesis using s(3) by (auto simp: rank_def)
    qed
    moreover have "s \<in> set xs" "before_kickoff kickoffs s" using n ys by (auto simp: newest_of_def)
    ultimately show ?thesis using Some s p by auto
  qed
qed

lemma last_price_before_kickoff_witness:
  "captured_at (group_market_prices (drop_post_kickoff_snapshots sample_kickoff sample_folded)) (''e1'', ''totals'', Some ''totals_2_5'', ''Over 2.5'', ''bet365'') = None
    \<and> captured_at (group_market_prices sample_folded) (''e1'', ''totals'', Some ''totals_2_5'', ''Over 2.5'', ''bet365'') = Some 9"
proof -
  let ?k = "(''e1'', ''totals'', Some ''totals_2_5'', ''Over 2.5'', ''bet365'')"
  have "\<not> (\<exists>q \<in> set sample_folded. quote_key q = ?k \<and> before_kickoff sample_kickoff q)" by code_simp
  moreover have "captured_at (group_market_prices sample_folded) ?k = Some 9" by code_simp
  ultimately show ?thesis using last_price_before_kickoff [OF sample_admissible, of ?k sample_kickoff] by (auto split: option.splits)
qed

subsection \<open>Folding\<close>

text \<open>C16: Rewriting the details of the feeds to one vocabulary touches nothing but the detail, and never brings two
  quotes on lines of different size into one group.\<close>

theorem folding_keeps_lines_apart:
  assumes "fold_injected_group_details xs = Ok ys" "i < length xs" "j < length xs"
    and "os_detail (xs ! i) = Some a" "detail_line a = Some l" "os_detail (xs ! j) = Some b" "detail_line b = Some m" "l \<noteq> m"
  shows "length ys = length xs \<and> ys ! i = (xs ! i)\<lparr>os_detail := os_detail (ys ! i)\<rparr> \<and> group_key (ys ! i) \<noteq> group_key (ys ! j)"
proof -
  have all: "list_all2 (\<lambda>x y. y = x\<lparr>os_detail := os_detail y\<rparr> \<and> same_line (os_detail x) (os_detail y)) xs ys" by (rule fold_lines [OF assms(1)])
  have line: "\<exists>d. os_detail (ys ! n) = Some d \<and> detail_line d = Some l" if "n < length xs" "os_detail (xs ! n) = Some c" "detail_line c = Some l" for n c l
  proof -
    have "same_line (os_detail (xs ! n)) (os_detail (ys ! n))" using list_all2_nthD [OF all that(1)] by blast
    then show ?thesis using that(2, 3) by (cases rule: same_line_cases) (auto dest: lineless_no_line)
  qed
  obtain d e where "os_detail (ys ! i) = Some d" "detail_line d = Some l" "os_detail (ys ! j) = Some e" "detail_line e = Some m"
    using line [OF assms(2, 4, 5)] line [OF assms(3, 6, 7)] by blast
  then have "group_key (ys ! i) \<noteq> group_key (ys ! j)" using assms(8) by (auto simp: group_key_def)
  then show ?thesis using list_all2_nthD [OF all assms(2)] list_all2_lengthD [OF all] by simp
qed

lemma folding_keeps_lines_apart_witness: "group_key (sample_folded ! 4) \<noteq> group_key (sample_folded ! 6)"
proof -
  have d: "detail_line ''over_under_2_5'' = Some (Fin (5 / 2))" "detail_line ''over_under_3_5'' = Some (Fin (7 / 2))" by code_simp+
  have "4 < length sample_cycle" "6 < length sample_cycle" "os_detail (sample_cycle ! 4) = Some ''over_under_2_5''"
    "os_detail (sample_cycle ! 6) = Some ''over_under_3_5''" by code_simp+
  then show ?thesis using folding_keeps_lines_apart [OF sample_folds, of 4 6] d by simp
qed

text \<open>Folded snapshots are left alone when they are folded again, and the order in which the feeds deliver them does
  not matter.\<close>

theorem folding_settles:
  assumes "fold_injected_group_details xs = Ok ys" "mset zs = mset xs"
  shows "fold_injected_group_details ys = Ok ys
    \<and> (case fold_injected_group_details zs of Inr ws \<Rightarrow> mset ws = mset ys | Inl e \<Rightarrow> False)"
  using fold_stable [OF assms(1)] fold_perm [OF assms(2) [symmetric] assms(1)] by auto

lemma folding_settles_witness:
  "fold_injected_group_details sample_folded = Ok sample_folded
    \<and> (case fold_injected_group_details (rev sample_cycle) of Inr ws \<Rightarrow> mset ws = mset sample_folded | Inl e \<Rightarrow> False)"
  using folding_settles [OF sample_folds, of "rev sample_cycle"] by simp

subsection \<open>Fair probabilities\<close>





end
