(* ===== verification/WebText.thy ===== *)
theory WebText
  imports Prelude
begin

text \<open>
  Texts of the web interface: a Python string is a list of code points and a byte string a list of numbers below
  256.  UTF-8 as \<^verbatim>\<open>str.encode\<close> and \<^verbatim>\<open>bytes.decode\<close> do it, the lenient base64 decoder of \<^verbatim>\<open>binascii\<close>, and the JSON
  that \<^verbatim>\<open>json.dumps\<close> writes and \<^verbatim>\<open>json.loads\<close> reads (but for the recursion limit of the interpreter).
\<close>

type_synonym code_points = "nat list"
type_synonym bytes = "nat list"

definition ascii :: "string \<Rightarrow> code_points" where
  "ascii s = map of_char s"

definition is_bytes :: "bytes \<Rightarrow> bool" where
  "is_bytes bs \<longleftrightarrow> list_all (\<lambda>b. b < 256) bs"

subsection \<open>UTF-8\<close>

definition is_surrogate :: "nat \<Rightarrow> bool" where
  "is_surrogate c \<longleftrightarrow> 55296 \<le> c \<and> c < 57344"

definition utf8_char :: "nat \<Rightarrow> bytes" where
  "utf8_char c =
     (if c < 128 then [c]
      else if c < 2048 then [192 + c div 64, 128 + c mod 64]
      else if c < 65536 then [224 + c div 4096, 128 + c div 64 mod 64, 128 + c mod 64]
      else [240 + c div 262144, 128 + c div 4096 mod 64, 128 + c div 64 mod 64, 128 + c mod 64])"

text \<open>A surrogate raises \<^verbatim>\<open>UnicodeEncodeError\<close>, a \<^verbatim>\<open>ValueError\<close>.\<close>

definition utf8_encode :: "code_points \<Rightarrow> bytes res" where
  "utf8_encode s = (if list_ex is_surrogate s then Raise ValueError else Ok (concat (map utf8_char s)))"

definition is_cont :: "nat \<Rightarrow> bool" where
  "is_cont b \<longleftrightarrow> 128 \<le> b \<and> b < 192"

text \<open>The code point that starts a byte string and the rest; overlong forms and surrogates are malformed.\<close>

definition utf8_next :: "bytes \<Rightarrow> (nat \<times> bytes) option" where
  "utf8_next bs = (case bs of
       [] \<Rightarrow> None
     | a # r \<Rightarrow>
         if a < 128 then Some (a, r)
         else if a < 224 then (case r of
             b # r' \<Rightarrow> let c = (a - 192) * 64 + (b - 128) in if 192 \<le> a \<and> is_cont b \<and> 128 \<le> c then Some (c, r') else None
           | _ \<Rightarrow> None)
         else if a < 240 then (case r of
             b # b' # r' \<Rightarrow> let c = (a - 224) * 4096 + (b - 128) * 64 + (b' - 128) in
               if is_cont b \<and> is_cont b' \<and> 2048 \<le> c \<and> \<not> is_surrogate c then Some (c, r') else None
           | _ \<Rightarrow> None)
         else (case r of
             b # b' # b'' # r' \<Rightarrow> let c = (a - 240) * 262144 + (b - 128) * 4096 + (b' - 128) * 64 + (b'' - 128) in
               if is_cont b \<and> is_cont b' \<and> is_cont b'' \<and> 65536 \<le> c \<and> c < 1114112 then Some (c, r') else None
           | _ \<Rightarrow> None))"

lemma utf8_next_shorter: "utf8_next bs = Some (c, r) \<Longrightarrow> length r < length bs"
  by (auto simp: utf8_next_def Let_def split: list.splits if_splits)

function utf8_decode :: "bytes \<Rightarrow> code_points option" where
  "utf8_decode bs = (if bs = [] then Some []
     else case utf8_next bs of None \<Rightarrow> None | Some (c, r) \<Rightarrow> map_option (Cons c) (utf8_decode r))"
  by auto
termination utf8_decode
  by (relation "measure length") (auto dest: utf8_next_shorter)

declare utf8_decode.simps [simp del]

definition is_text :: "code_points \<Rightarrow> bool" where
  "is_text s \<longleftrightarrow> list_all (\<lambda>c. c < 1114112) s"

lemma six_bits:
  fixes c :: nat
  shows "c div 64 * 64 + c mod 64 = c" "c div 4096 * 64 + c div 64 mod 64 = c div 64" "c div 262144 * 64 + c div 4096 mod 64 = c div 4096"
  using div_mult_mod_eq [of "c div 64" 64] div_mult_mod_eq [of "c div 4096" 64] by (simp_all add: div_mult2_eq [symmetric])

lemma utf8_next_char:
  assumes "c < 1114112" "\<not> is_surrogate c" shows "utf8_next (utf8_char c @ r) = Some (c, r)"
proof -
  consider "c < 128" | "128 \<le> c" "c < 2048" | "2048 \<le> c" "c < 65536" | "65536 \<le> c" by linarith
  then show ?thesis
  proof cases
    case 2
    have "c div 64 < 32" "2 \<le> c div 64" using 2 by (auto simp: less_mult_imp_div_less div_le_mono [of 128 c 64, simplified])
    then show ?thesis using 2 by (simp add: utf8_char_def utf8_next_def is_cont_def Let_def)
  next
    case 3
    have "c div 4096 < 16" using 3 by (simp add: less_mult_imp_div_less)
    moreover have "c div 4096 * 4096 + c div 64 mod 64 * 64 + c mod 64 = c" using six_bits [of c] by linarith
    ultimately show ?thesis using 3 assms by (simp add: utf8_char_def utf8_next_def is_cont_def Let_def)
  next
    case 4
    have "c div 262144 < 5" using assms by (simp add: less_mult_imp_div_less)
    moreover have "c div 262144 * 262144 + c div 4096 mod 64 * 4096 + c div 64 mod 64 * 64 + c mod 64 = c" using six_bits [of c] by linarith
    ultimately show ?thesis using 4 assms by (simp add: utf8_char_def utf8_next_def is_cont_def Let_def)
  qed (simp add: utf8_char_def utf8_next_def)
qed

lemma utf8_char_nonempty [simp]: "utf8_char c \<noteq> []"
  by (simp add: utf8_char_def)

lemma utf8_roundtrip: "is_text s \<Longrightarrow> utf8_encode s = Ok bs \<Longrightarrow> utf8_decode bs = Some s"
proof (induction s arbitrary: bs)
  case Nil
  then show ?case by (simp add: utf8_encode_def utf8_decode.simps)
next
  case (Cons c s)
  then have c: "c < 1114112" "\<not> is_surrogate c" "bs = utf8_char c @ concat (map utf8_char s)" "utf8_encode s = Ok (concat (map utf8_char s))"
    by (auto simp: utf8_encode_def is_text_def split: if_splits)
  have "utf8_decode (concat (map utf8_char s)) = Some s" using Cons.IH [OF _ c(4)] Cons.prems(1) by (simp add: is_text_def)
  then show ?case unfolding c(3) using utf8_next_char [OF c(1, 2)] by (subst utf8_decode.simps) simp
qed

lemma utf8_char_bytes: "c < 1114112 \<Longrightarrow> is_bytes (utf8_char c)"
  by (auto simp: utf8_char_def is_bytes_def less_mult_imp_div_less)

lemma utf8_bytes: "is_text s \<Longrightarrow> utf8_encode s = Ok bs \<Longrightarrow> is_bytes bs"
  using utf8_char_bytes by (fastforce simp: utf8_encode_def is_text_def is_bytes_def list_all_iff split: if_splits)

subsection \<open>Base64\<close>

definition b64_char :: "nat \<Rightarrow> nat" where
  "b64_char v = (if v < 26 then 65 + v else if v < 52 then 71 + v else if v < 62 then v - 4 else if v = 62 then 45 else 95)"

text \<open>Encoding without the padding.\<close>

fun b64_encode :: "bytes \<Rightarrow> code_points" where
  "b64_encode [] = []"
| "b64_encode [a] = [b64_char (a div 4), b64_char (a mod 4 * 16)]"
| "b64_encode [a, b] = [b64_char (a div 4), b64_char (a mod 4 * 16 + b div 16), b64_char (b mod 16 * 4)]"
| "b64_encode (a # b # c # r) = [b64_char (a div 4), b64_char (a mod 4 * 16 + b div 16), b64_char (b mod 16 * 4 + c div 64), b64_char (c mod 64)]
     @ b64_encode r"

text \<open>The value of a character; any other character is skipped.\<close>

definition b64_val :: "nat \<Rightarrow> nat option" where
  "b64_val c = (if 65 \<le> c \<and> c \<le> 90 then Some (c - 65) else if 97 \<le> c \<and> c \<le> 122 then Some (c - 71)
     else if 48 \<le> c \<and> c \<le> 57 then Some (c + 4) else if c = 43 \<or> c = 45 then Some 62
     else if c = 47 \<or> c = 95 then Some 63 else None)"

text \<open>The state is the position in a group of four, the bits left over, and the padding seen.\<close>

fun a2b :: "nat \<Rightarrow> nat \<Rightarrow> nat \<Rightarrow> bytes \<Rightarrow> bytes option" where
  "a2b pos left pads [] = (if pos = 0 then Some [] else None)"
| "a2b pos left pads (c # cs) =
     (if c = 61 then
        (if 2 \<le> pos \<and> 4 \<le> pos + Suc pads then Some [] else a2b pos left (if 2 \<le> pos then Suc pads else pads) cs)
      else case b64_val c of
          None \<Rightarrow> a2b pos left pads cs
        | Some v \<Rightarrow>
            if pos = 0 then a2b 1 v 0 cs
            else if pos = 1 then map_option (Cons (left * 4 + v div 16)) (a2b 2 (v mod 16) 0 cs)
            else if pos = 2 then map_option (Cons (left * 16 + v div 4)) (a2b 3 (v mod 4) 0 cs)
            else map_option (Cons (left * 64 + v)) (a2b 0 0 0 cs))"

text \<open>A character outside ASCII raises \<^verbatim>\<open>ValueError\<close>, as bad padding does (\<^verbatim>\<open>binascii.Error\<close>).\<close>

definition b64d :: "code_points \<Rightarrow> bytes option" where
  "b64d s = (if list_all (\<lambda>c. c < 128) s then a2b 0 0 0 (s @ replicate (nat (- int (length s) mod 4)) 61) else None)"

definition b64e :: "bytes \<Rightarrow> code_points" where
  "b64e bs = b64_encode bs"

lemma b64_val_char: "v < 64 \<Longrightarrow> b64_val (b64_char v) = Some v \<and> b64_char v \<noteq> 61 \<and> b64_char v < 128 \<and> b64_char v \<noteq> 46"
  by (auto simp: b64_val_def b64_char_def)

lemma a2b_char: "v < 64 \<Longrightarrow> a2b pos left pads (b64_char v # cs) =
    (if pos = 0 then a2b 1 v 0 cs
     else if pos = 1 then map_option (Cons (left * 4 + v div 16)) (a2b 2 (v mod 16) 0 cs)
     else if pos = 2 then map_option (Cons (left * 16 + v div 4)) (a2b 3 (v mod 4) 0 cs)
     else map_option (Cons (left * 64 + v)) (a2b 0 0 0 cs))"
  using b64_val_char [of v] by simp

lemma byte_parts:
  fixes a b :: nat
  assumes "a < 256" shows "a div 4 < 64" "a mod 4 * 16 < 64" "b < 256 \<Longrightarrow> a mod 4 * 16 + b div 16 < 64" "a mod 16 * 4 < 64"
    "b < 256 \<Longrightarrow> a mod 16 * 4 + b div 64 < 64" "a div 4 * 4 + a mod 4 = a" "a div 16 * 16 + a mod 16 = a" "a div 64 * 64 + a mod 64 = a"
proof -
  show "a div 4 < 64" using assms by (simp add: less_mult_imp_div_less)
  have m: "a mod 4 < 4" "a mod 16 < 16" by simp_all
  then show "a mod 4 * 16 < 64" "a mod 16 * 4 < 64" by linarith+
  show "a mod 4 * 16 + b div 16 < 64" if "b < 256"
  proof -
    have "b div 16 < 16" using that by (simp add: less_mult_imp_div_less)
    then show ?thesis using m by linarith
  qed
  show "a mod 16 * 4 + b div 64 < 64" if "b < 256"
  proof -
    have "b div 64 < 4" using that by (simp add: less_mult_imp_div_less)
    then show ?thesis using m by linarith
  qed
qed (rule div_mult_mod_eq)+

definition pad_of :: "code_points \<Rightarrow> code_points" where
  "pad_of s = replicate (nat (- int (length s) mod 4)) 61"

lemma pad_simps [simp]: "pad_of [] = []" "pad_of [x, y] = [61, 61]" "pad_of [x, y, z] = [61]" "pad_of ([w, x, y, z] @ s) = pad_of s"
proof -
  have "- int (length ([w, x, y, z] @ s)) mod 4 = - int (length s) mod 4" by simp presburger
  then show "pad_of ([w, x, y, z] @ s) = pad_of s" by (simp add: pad_of_def)
qed (simp_all add: pad_of_def numeral_2_eq_2)

lemma a2b_encode: "is_bytes bs \<Longrightarrow> a2b 0 0 0 (b64_encode bs @ pad_of (b64_encode bs)) = Some bs"
proof (induction bs rule: b64_encode.induct)
  case (2 a)
  then have a: "a < 256" by (simp add: is_bytes_def)
  have "a mod 4 * 16 div 16 = a mod 4" by simp
  then show ?case using byte_parts [OF a] by (simp add: a2b_char del: a2b.simps(2)) (simp add: a2b_char)
next
  case (3 a b)
  then have a: "a < 256" "b < 256" by (simp_all add: is_bytes_def)
  have "(a mod 4 * 16 + b div 16) div 16 = a mod 4 + b div 16 div 16" "b div 16 div 16 = 0" "(a mod 4 * 16 + b div 16) mod 16 = b div 16"
    "b mod 16 * 4 div 4 = b mod 16"
    using a by (simp_all add: less_mult_imp_div_less)
  then show ?case using byte_parts [OF a(1)] byte_parts(3) [OF a(1), of b] byte_parts [OF a(2)] a(2) by (simp add: a2b_char del: a2b.simps(2)) (simp add: a2b_char)
next
  case (4 a b c r)
  then have a: "a < 256" "b < 256" "c < 256" "is_bytes r" by (simp_all add: is_bytes_def)
  have "(a mod 4 * 16 + b div 16) div 16 = a mod 4" "(a mod 4 * 16 + b div 16) mod 16 = b div 16"
    "(b mod 16 * 4 + c div 64) div 4 = b mod 16" "(b mod 16 * 4 + c div 64) mod 4 = c div 64" "c mod 64 < 64"
    using a by (simp_all add: less_mult_imp_div_less)
  then show ?case using 4(1) [OF a(4)] byte_parts [OF a(1)] byte_parts(3) [OF a(1), of b] byte_parts [OF a(2)] byte_parts(5) [OF a(2), of c] byte_parts [OF a(3)] a
    by (simp add: a2b_char del: a2b.simps(2) append.simps) (simp add: a2b_char del: a2b.simps(2))
qed simp

lemma b64_encode_chars: "is_bytes bs \<Longrightarrow> list_all (\<lambda>c. c < 128 \<and> c \<noteq> 46) (b64_encode bs)"
proof (induction bs rule: b64_encode.induct)
  case (2 a)
  then show ?case using b64_val_char byte_parts [of a] by (simp add: is_bytes_def)
next
  case (3 a b)
  then show ?case using b64_val_char byte_parts [of a] byte_parts(3) [of a b] byte_parts [of b] by (simp add: is_bytes_def)
next
  case (4 a b c r)
  then show ?case using b64_val_char byte_parts [of a] byte_parts(3) [of a b] byte_parts(5) [of b c] byte_parts [of b] byte_parts [of c] by (simp add: is_bytes_def)
qed simp

lemma b64_roundtrip: "is_bytes bs \<Longrightarrow> b64d (b64e bs) = Some bs"
  using a2b_encode [of bs] b64_encode_chars [of bs] by (simp add: b64d_def b64e_def pad_of_def list_all_iff)

lemma b64_length: "length (b64_encode bs) \<le> 4 * (length bs div 3) + 3"
  by (induction bs rule: b64_encode.induct) auto

end
