(* ===== verification/WebJson.thy ===== *)
theory WebJson
  imports WebText
begin

text \<open>
  JSON: the escapes and numbers \<^verbatim>\<open>json.dumps\<close> writes, and \<^verbatim>\<open>json.loads\<close> as a scanner of tokens and a machine with a
  stack of open lists and objects, so that reading any text is total.
\<close>

subsection \<open>Writing\<close>

function dec_text :: "nat \<Rightarrow> code_points" where
  "dec_text n = (if n < 10 then [48 + n] else dec_text (n div 10) @ [48 + n mod 10])"
  by auto
termination dec_text
  by (relation "measure id") auto

declare dec_text.simps [simp del]

definition int_text :: "int \<Rightarrow> code_points" where
  "int_text i = (if i < 0 then 45 # dec_text (nat (- i)) else dec_text (nat i))"

definition hex_char :: "nat \<Rightarrow> nat" where
  "hex_char d = (if d < 10 then 48 + d else 87 + d)"

definition esc_char :: "nat \<Rightarrow> code_points" where
  "esc_char c =
     (if c = 34 \<or> c = 92 then [92, c]
      else if c = 8 then [92, 98] else if c = 12 then [92, 102] else if c = 10 then [92, 110]
      else if c = 13 then [92, 114] else if c = 9 then [92, 116]
      else if c < 32 then [92, 117, 48, 48, hex_char (c div 16), hex_char (c mod 16)]
      else [c])"

definition json_quote :: "code_points \<Rightarrow> code_points" where
  "json_quote s = 34 # concat (map esc_char s) @ [34]"

subsection \<open>Reading\<close>

datatype json = J_Null | J_Bool bool | J_Int int | J_Float | J_Str code_points
  | J_List "json list" | J_Dict "(code_points \<times> json) list"

definition hex_digit :: "nat \<Rightarrow> nat option" where
  "hex_digit c = (if 48 \<le> c \<and> c \<le> 57 then Some (c - 48) else if 97 \<le> c \<and> c \<le> 102 then Some (c - 87)
     else if 65 \<le> c \<and> c \<le> 70 then Some (c - 55) else None)"

definition hex4 :: "code_points \<Rightarrow> (nat \<times> code_points) option" where
  "hex4 s = (case s of
       a # b # c # d # r \<Rightarrow> (case (hex_digit a, hex_digit b, hex_digit c, hex_digit d) of
           (Some w, Some x, Some y, Some z) \<Rightarrow> Some (w * 4096 + x * 256 + y * 16 + z, r) | _ \<Rightarrow> None)
     | _ \<Rightarrow> None)"

definition simple_escape :: "nat \<Rightarrow> nat option" where
  "simple_escape e = (if e = 34 \<or> e = 92 \<or> e = 47 then Some e else if e = 98 then Some 8 else if e = 102 then Some 12
     else if e = 110 then Some 10 else if e = 114 then Some 13 else if e = 116 then Some 9 else None)"

text \<open>One character of a string; a high surrogate joins with a low one that follows.\<close>

definition string_step :: "code_points \<Rightarrow> (nat \<times> code_points) option" where
  "string_step s = (case s of
       [] \<Rightarrow> None
     | c # r \<Rightarrow>
         if c < 32 then None
         else if c \<noteq> 92 then Some (c, r)
         else (case r of
             [] \<Rightarrow> None
           | e # r' \<Rightarrow>
               if e \<noteq> 117 then map_option (\<lambda>x. (x, r')) (simple_escape e)
               else (case hex4 r' of
                   None \<Rightarrow> None
                 | Some (u, r1) \<Rightarrow>
                     if 55296 \<le> u \<and> u < 56320 \<and> take 2 r1 = [92, 117]
                     then (case hex4 (drop 2 r1) of
                         None \<Rightarrow> None
                       | Some (v, r2) \<Rightarrow> if 56320 \<le> v \<and> v < 57344 then Some (65536 + (u - 55296) * 1024 + (v - 56320), r2) else Some (u, r1))
                     else Some (u, r1))))"

lemma hex4_shorter: "hex4 s = Some (u, r) \<Longrightarrow> length r < length s"
  by (auto simp: hex4_def split: list.splits option.splits)

lemma string_step_shorter: "string_step s = Some (x, r) \<Longrightarrow> length r < length s"
  by (auto simp: string_step_def dest!: hex4_shorter split: list.splits if_splits option.splits)

text \<open>The string after an opening quote.\<close>

function json_string :: "code_points \<Rightarrow> (code_points \<times> code_points) option" where
  "json_string s = (if s = [] then None else if hd s = 34 then Some ([], tl s)
     else case string_step s of None \<Rightarrow> None | Some (x, r) \<Rightarrow> map_option (\<lambda>(t, q). (x # t, q)) (json_string r))"
  by auto
termination json_string
  by (relation "measure length") (auto dest: string_step_shorter)

declare json_string.simps [simp del]

definition is_num :: "nat \<Rightarrow> bool" where
  "is_num c \<longleftrightarrow> 48 \<le> c \<and> c \<le> 57"

definition digits_nat :: "code_points \<Rightarrow> nat" where
  "digits_nat ds = foldl (\<lambda>a d. a * 10 + (d - 48)) 0 ds"

text \<open>\<^verbatim>\<open>int\<close> refuses more than 4300 digits.\<close>

definition max_str_digits :: nat where "max_str_digits = 4300"

definition frac_rest :: "code_points \<Rightarrow> code_points option" where
  "frac_rest s = (case s of c # r \<Rightarrow> if c = 46 \<and> takeWhile is_num r \<noteq> [] then Some (dropWhile is_num r) else None | [] \<Rightarrow> None)"

definition exp_rest :: "code_points \<Rightarrow> code_points option" where
  "exp_rest s = (case s of
       c # r \<Rightarrow> let r1 = (case r of d # r' \<Rightarrow> if d = 43 \<or> d = 45 then r' else r | [] \<Rightarrow> []) in
         if (c = 101 \<or> c = 69) \<and> takeWhile is_num r1 \<noteq> [] then Some (dropWhile is_num r1) else None
     | [] \<Rightarrow> None)"

definition unsigned :: "code_points \<Rightarrow> code_points" where
  "unsigned s = (if s \<noteq> [] \<and> hd s = 45 then tl s else s)"

definition int_digits :: "code_points \<Rightarrow> code_points" where
  "int_digits s = (if s \<noteq> [] \<and> hd s = 48 then [48] else takeWhile is_num s)"

definition lex_number :: "code_points \<Rightarrow> (json \<times> code_points) option" where
  "lex_number s = (let ds = int_digits (unsigned s); r = drop (length ds) (unsigned s);
       q = (case frac_rest r of Some q \<Rightarrow> q | None \<Rightarrow> r) in
     if ds = [] then None
     else case exp_rest q of
         Some p \<Rightarrow> Some (J_Float, p)
       | None \<Rightarrow>
           if frac_rest r \<noteq> None then Some (J_Float, q)
           else if max_str_digits < length ds then None
           else Some (J_Int (if s \<noteq> [] \<and> hd s = 45 then - int (digits_nat ds) else int (digits_nat ds)), r))"

datatype token = T_Value json | T_Open_Dict | T_Close_Dict | T_Open_List | T_Close_List | T_Colon | T_Comma

definition word_token :: "code_points \<Rightarrow> (token \<times> code_points) option" where
  "word_token s =
     (case find (\<lambda>w. take (length (fst w)) s = fst w)
         [(ascii ''null'', J_Null), (ascii ''true'', J_Bool True), (ascii ''false'', J_Bool False),
          (ascii ''NaN'', J_Float), (ascii ''Infinity'', J_Float), (ascii ''-Infinity'', J_Float)] of
        None \<Rightarrow> None | Some w \<Rightarrow> Some (T_Value (snd w), drop (length (fst w)) s))"

definition punctuation :: "nat \<Rightarrow> token option" where
  "punctuation c = (if c = 123 then Some T_Open_Dict else if c = 125 then Some T_Close_Dict else if c = 91 then Some T_Open_List
     else if c = 93 then Some T_Close_List else if c = 58 then Some T_Colon else if c = 44 then Some T_Comma else None)"

text \<open>The token that starts a text, which is not blank there.\<close>

definition next_token :: "code_points \<Rightarrow> (token \<times> code_points) option" where
  "next_token s = (case s of
       [] \<Rightarrow> None
     | c # r \<Rightarrow> (case punctuation c of
           Some t \<Rightarrow> Some (t, r)
         | None \<Rightarrow>
             if c = 34 then map_option (\<lambda>(t, q). (T_Value (J_Str t), q)) (json_string r)
             else (case word_token s of
                 Some w \<Rightarrow> Some w
               | None \<Rightarrow> map_option (\<lambda>(v, q). (T_Value v, q)) (lex_number s))))"

definition is_blank :: "nat \<Rightarrow> bool" where
  "is_blank c \<longleftrightarrow> c = 32 \<or> c = 9 \<or> c = 10 \<or> c = 13"

lemma json_string_shorter: "json_string s = Some (t, q) \<Longrightarrow> length q < length s"
proof (induction s arbitrary: t rule: json_string.induct)
  case (1 s)
  show ?case
  proof (cases "s = [] \<or> hd s = 34")
    case True
    then show ?thesis using 1(2) by (subst (asm) json_string.simps) (cases s; auto)
  next
    case False
    then obtain x r t' where "string_step s = Some (x, r)" "json_string r = Some (t', q)"
      using 1(2) by (subst (asm) json_string.simps) (auto split: option.splits)
    then show ?thesis using 1(1) [of "(x, r)" x r t'] False string_step_shorter [of s x r] by simp
  qed
qed

lemma dropWhile_le: "length (dropWhile P xs) \<le> length xs"
  by (induction xs) auto

lemma frac_shorter: "frac_rest r = Some q \<Longrightarrow> length q < length r"
  using dropWhile_le [of is_num "tl r"] by (cases r) (auto simp: frac_rest_def split: if_splits)

lemma exp_shorter:
  assumes "exp_rest r = Some q" shows "length q < length r"
proof (cases r)
  case (Cons c r')
  let ?r = "case r' of d # r'' \<Rightarrow> if d = 43 \<or> d = 45 then r'' else r' | [] \<Rightarrow> []"
  have "length ?r \<le> length r'" by (auto split: list.splits)
  moreover have "q = dropWhile is_num ?r" using assms Cons by (simp add: exp_rest_def Let_def split: if_splits)
  ultimately show ?thesis using dropWhile_le [of is_num ?r] Cons by simp
qed (use assms in \<open>simp add: exp_rest_def\<close>)

lemma lex_number_shorter:
  assumes "lex_number s = Some (v, q)" shows "length q < length s"
proof -
  define u where "u = unsigned s"
  define ds where "ds = int_digits u"
  define r where "r = drop (length ds) u"
  define p where "p = (case frac_rest r of Some q \<Rightarrow> q | None \<Rightarrow> r)"
  have d: "ds \<noteq> []" and e: "q = r \<or> q = p \<or> exp_rest p = Some q"
    using assms unfolding lex_number_def Let_def u_def [symmetric] ds_def [symmetric] r_def [symmetric] p_def [symmetric]
    by (auto split: option.splits if_splits)
  have "length u \<le> length s" by (simp add: u_def unsigned_def)
  moreover have "length ds \<le> length u" using length_takeWhile_le [of is_num u] by (cases u) (auto simp: ds_def int_digits_def)
  ultimately have r: "length r < length s" using d by (cases ds) (auto simp: r_def Suc_le_eq)
  have "length p \<le> length r" using frac_shorter [of r] by (auto simp: p_def split: option.splits intro: less_imp_le)
  then show ?thesis using e r exp_shorter [of p q] by auto
qed

lemma word_token_shorter: "word_token s = Some (t, q) \<Longrightarrow> length q < length s"
  by (cases s) (auto simp: word_token_def ascii_def split: option.splits if_splits)

lemma next_token_shorter: "next_token s = Some (t, q) \<Longrightarrow> length q < length s"
  using json_string_shorter word_token_shorter lex_number_shorter
  by (fastforce simp: next_token_def split: list.splits option.splits if_splits)

function lex :: "code_points \<Rightarrow> token list option" where
  "lex s = (if dropWhile is_blank s = [] then Some []
     else case next_token (dropWhile is_blank s) of None \<Rightarrow> None | Some (t, r) \<Rightarrow> map_option (Cons t) (lex r))"
  by auto
termination lex
proof (relation "measure length")
  fix s x t r
  assume "dropWhile is_blank s \<noteq> []" "next_token (dropWhile is_blank s) = Some x" "(t, r) = x"
  then have "length r < length (dropWhile is_blank s)" using next_token_shorter by blast
  then show "(r, s) \<in> measure length" using dropWhile_le [of is_blank s] by simp
qed simp

declare lex.simps [simp del]

text \<open>The machine: what it expects, and the open containers.\<close>

datatype frame = In_List "json list" | In_Dict "(code_points \<times> json) list" code_points

datatype reading = Value "frame list" | First "frame list" | Key bool "(code_points \<times> json) list" "frame list"
  | Colon "(code_points \<times> json) list" code_points "frame list" | After json "frame list"

fun read_value :: "frame list \<Rightarrow> token \<Rightarrow> reading option" where
  "read_value fs (T_Value v) = Some (After v fs)"
| "read_value fs T_Open_List = Some (First fs)"
| "read_value fs T_Open_Dict = Some (Key True [] fs)"
| "read_value fs _ = None"

fun read_step :: "reading \<Rightarrow> token \<Rightarrow> reading option" where
  "read_step (Value fs) t = read_value fs t"
| "read_step (First fs) t = (if t = T_Close_List then Some (After (J_List []) fs) else read_value (In_List [] # fs) t)"
| "read_step (Key first kvs fs) t = (case t of
     T_Value (J_Str k) \<Rightarrow> Some (Colon kvs k fs) | T_Close_Dict \<Rightarrow> if first then Some (After (J_Dict kvs) fs) else None | _ \<Rightarrow> None)"
| "read_step (Colon kvs k fs) t = (if t = T_Colon then Some (Value (In_Dict kvs k # fs)) else None)"
| "read_step (After v fs) t = (case fs of
     [] \<Rightarrow> None
   | In_List vs # fs' \<Rightarrow> if t = T_Comma then Some (Value (In_List (vs @ [v]) # fs'))
       else if t = T_Close_List then Some (After (J_List (vs @ [v])) fs') else None
   | In_Dict kvs k # fs' \<Rightarrow> if t = T_Comma then Some (Key False (kvs @ [(k, v)]) fs')
       else if t = T_Close_Dict then Some (After (J_Dict (kvs @ [(k, v)])) fs') else None)"

fun read_all :: "reading \<Rightarrow> token list \<Rightarrow> json option" where
  "read_all r [] = (case r of After v [] \<Rightarrow> Some v | _ \<Rightarrow> None)"
| "read_all r (t # ts) = (case read_step r t of None \<Rightarrow> None | Some r' \<Rightarrow> read_all r' ts)"

definition json_loads :: "code_points \<Rightarrow> json option" where
  "json_loads s = Option.bind (lex s) (read_all (Value []))"

text \<open>\<^verbatim>\<open>d[k]\<close>; anything but an object, or a missing key, raises.\<close>

definition json_get :: "json \<Rightarrow> code_points \<Rightarrow> json option" where
  "json_get j k = (case j of J_Dict kvs \<Rightarrow> map_of (rev kvs) k | _ \<Rightarrow> None)"

subsection \<open>Splitting, and numbers in text\<close>

fun split_at :: "nat \<Rightarrow> code_points \<Rightarrow> code_points list" where
  "split_at x [] = [[]]"
| "split_at x (c # s) = (case split_at x s of p # ps \<Rightarrow> if c = x then [] # p # ps else (c # p) # ps | [] \<Rightarrow> [])"

text \<open>\<^verbatim>\<open>str.isspace\<close>.\<close>

definition is_unicode_space :: "nat \<Rightarrow> bool" where
  "is_unicode_space c \<longleftrightarrow> 9 \<le> c \<and> c \<le> 13 \<or> 28 \<le> c \<and> c \<le> 32 \<or> c = 133 \<or> c = 160 \<or> c = 5760 \<or> 8192 \<le> c \<and> c \<le> 8202
     \<or> c = 8232 \<or> c = 8233 \<or> c = 8239 \<or> c = 8287 \<or> c = 12288"

definition strip_blanks :: "code_points \<Rightarrow> code_points" where
  "strip_blanks s = rev (dropWhile is_unicode_space (rev (dropWhile is_unicode_space s)))"

type_synonym decimals = "nat \<Rightarrow> nat option"

text \<open>\<^verbatim>\<open>int\<close> of a text; single underscores may separate digits.\<close>

definition int_of_text :: "decimals \<Rightarrow> code_points \<Rightarrow> int option" where
  "int_of_text dec s0 = (let s = strip_blanks s0; neg = (s \<noteq> [] \<and> hd s = 45);
       ps = split_at 95 (if s \<noteq> [] \<and> (hd s = 45 \<or> hd s = 43) then tl s else s) in
     if list_all (\<lambda>p. p \<noteq> [] \<and> list_all (\<lambda>c. dec c \<noteq> None) p) ps \<and> length (concat ps) \<le> max_str_digits
     then Some (let n = int (foldl (\<lambda>a c. a * 10 + the (dec c)) 0 (concat ps)) in if neg then - n else n)
     else None)"

subsection \<open>Reading back what was written\<close>

lemma hex_digit_char: "d < 16 \<Longrightarrow> hex_digit (hex_char d) = Some d"
  by (auto simp: hex_digit_def hex_char_def)

lemma string_step_esc: "string_step (esc_char c @ r) = Some (c, r)"
proof (cases "c < 32 \<and> c \<noteq> 8 \<and> c \<noteq> 12 \<and> c \<noteq> 10 \<and> c \<noteq> 13 \<and> c \<noteq> 9")
  case True
  then have e: "esc_char c = [92, 117, 48, 48, hex_char (c div 16), hex_char (c mod 16)]" by (simp add: esc_char_def)
  have "c div 16 < 16" "hex_digit 48 = Some 0" using True by (simp_all add: less_mult_imp_div_less hex_digit_def)
  then have "hex4 (48 # 48 # hex_char (c div 16) # hex_char (c mod 16) # r) = Some (c, r)" by (simp add: hex4_def hex_digit_char)
  then show ?thesis using True unfolding e by (simp add: string_step_def)
next
  case False
  then show ?thesis by (auto simp: esc_char_def string_step_def simple_escape_def)
qed

lemma esc_head: "\<exists>a t. esc_char c = a # t \<and> a \<noteq> 34"
  by (auto simp: esc_char_def)

lemma json_string_quote: "json_string (concat (map esc_char s) @ 34 # r) = Some (s, r)"
proof (induction s)
  case Nil
  then show ?case by (subst json_string.simps) simp
next
  case (Cons c s)
  obtain a t where e: "esc_char c = a # t" "a \<noteq> 34" using esc_head by blast
  have "string_step (esc_char c @ concat (map esc_char s) @ 34 # r) = Some (c, concat (map esc_char s) @ 34 # r)" by (rule string_step_esc)
  then show ?case using e Cons by (subst json_string.simps) simp
qed

lemma dec_text_eq: "n < 10 \<Longrightarrow> dec_text n = [48 + n]" "\<not> n < 10 \<Longrightarrow> dec_text n = dec_text (n div 10) @ [48 + n mod 10]"
  by (subst dec_text.simps, simp)+

lemma dec_text_num: "list_all is_num (dec_text n) \<and> dec_text n \<noteq> []"
proof (induction n rule: dec_text.induct)
  case (1 n)
  then show ?case by (cases "n < 10") (simp_all add: dec_text_eq is_num_def)
qed

lemma digits_show: "digits_nat (dec_text n) = n"
proof (induction n rule: dec_text.induct)
  case (1 n)
  then show ?case by (cases "n < 10") (simp_all add: dec_text_eq digits_nat_def)
qed

lemma dec_text_head: "hd (dec_text n) = 48 \<Longrightarrow> dec_text n = [48]"
proof (induction n rule: dec_text.induct)
  case (1 n)
  show ?case
  proof (cases "n < 10")
    case False
    then have "dec_text (n div 10) = [48]" using 1 dec_text_num [of "n div 10"] by (simp add: dec_text_eq)
    then have "n div 10 = digits_nat [48]" using digits_show by metis
    then show ?thesis using False by (simp add: digits_nat_def)
  qed (use 1(2) in \<open>simp add: dec_text_eq\<close>)
qed

lemma dec_text_length: "n < 10 ^ k \<Longrightarrow> 0 < k \<Longrightarrow> length (dec_text n) \<le> k"
proof (induction k arbitrary: n)
  case (Suc k)
  show ?case
  proof (cases "n < 10")
    case False
    then have "0 < k" using Suc.prems by (cases k) auto
    moreover have "n div 10 < 10 ^ k" using Suc.prems(1) by (simp add: less_mult_imp_div_less mult.commute)
    ultimately have "length (dec_text (n div 10)) \<le> k" using Suc.IH by blast
    then show ?thesis using False by (simp add: dec_text_eq)
  qed (simp add: dec_text_eq)
qed simp

definition ends_number :: "code_points \<Rightarrow> bool" where
  "ends_number r \<longleftrightarrow> (case r of c # _ \<Rightarrow> \<not> is_num c \<and> c \<noteq> 46 \<and> c \<noteq> 101 \<and> c \<noteq> 69 | [] \<Rightarrow> True)"

lemma lex_number_show:
  assumes "\<bar>i\<bar> < 10 ^ k" "0 < k" "k \<le> max_str_digits" "ends_number r"
  shows "lex_number (int_text i @ r) = Some (J_Int i, r)"
proof -
  define ds where "ds = dec_text (nat \<bar>i\<bar>)"
  have n: "list_all is_num ds" "ds \<noteq> []" "digits_nat ds = nat \<bar>i\<bar>" using dec_text_num digits_show by (auto simp: ds_def)
  have "nat \<bar>i\<bar> < 10 ^ k" using assms(1) by (simp add: nat_less_iff)
  then have len: "length ds \<le> max_str_digits" using dec_text_length [of "nat \<bar>i\<bar>" k] assms(2, 3) by (simp add: ds_def)
  have tw: "takeWhile is_num (ds @ r) = ds" using n(1) assms(4) by (cases r) (auto simp: ends_number_def list_all_iff takeWhile_append2)
  have ends: "frac_rest r = None" "exp_rest r = None" using assms(4) by (cases r; simp add: ends_number_def frac_rest_def exp_rest_def Let_def)+
  have int: "int_digits (ds @ r) = ds"
    using tw n(2) dec_text_head [of "nat \<bar>i\<bar>"] by (cases "hd ds = 48") (auto simp: int_digits_def ds_def)
  have un: "unsigned (int_text i @ r) = ds @ r" "(int_text i @ r \<noteq> [] \<and> hd (int_text i @ r) = 45) = (i < 0)"
  proof -
    have "hd ds \<noteq> 45" using n(1, 2) by (cases ds) (auto simp: is_num_def)
    then show "unsigned (int_text i @ r) = ds @ r" "(int_text i @ r \<noteq> [] \<and> hd (int_text i @ r) = 45) = (i < 0)"
      using n(2) by (auto simp: unsigned_def int_text_def ds_def)
  qed
  show ?thesis unfolding lex_number_def Let_def un int using n ends len by auto
qed

end
