(* ===== verification/Sessions.thy ===== *)
theory Sessions
  imports WebJson
begin

text \<open>
  The dashboard login of \<^verbatim>\<open>app/api/auth.py\<close>: password hashes, signed session cookies, the credential in force and the
  guard of the protected routes.  The HMAC, the key derivation, the random salt and the decimal digits of the
  Unicode database are arguments, as are the clock and the settings.
\<close>

subsection \<open>Bounds\<close>

definition pbkdf2_min_iterations :: int where "pbkdf2_min_iterations = 100000"
definition pbkdf2_max_iterations :: int where "pbkdf2_max_iterations = 2000000"
definition max_username_bytes :: nat where "max_username_bytes = 128"
definition max_password_bytes :: nat where "max_password_bytes = 1024"
definition max_session_secret_bytes :: nat where "max_session_secret_bytes = 512"
definition min_session_secret_bytes :: nat where "min_session_secret_bytes = 32"
definition max_session_token_bytes :: nat where "max_session_token_bytes = 4096"
definition max_session_ttl_seconds :: int where "max_session_ttl_seconds = 7 * 24 * 60 * 60"

definition bounded_utf8 :: "code_points \<Rightarrow> nat \<Rightarrow> bool" where
  "bounded_utf8 s maximum = (case utf8_encode s of Inr b \<Rightarrow> length b \<le> maximum | Inl e \<Rightarrow> False)"

subsection \<open>Passwords\<close>

type_synonym kdf = "bytes \<Rightarrow> bytes \<Rightarrow> int \<Rightarrow> bytes"

definition hex_text :: "bytes \<Rightarrow> code_points" where
  "hex_text bs = concat (map (\<lambda>b. [hex_char (b div 16), hex_char (b mod 16)]) bs)"

definition is_ascii_space :: "nat \<Rightarrow> bool" where
  "is_ascii_space c \<longleftrightarrow> 9 \<le> c \<and> c \<le> 13 \<or> c = 32"

text \<open>\<^verbatim>\<open>bytes.fromhex\<close>: blanks between two bytes are skipped.\<close>

fun from_hex :: "code_points \<Rightarrow> bytes option" where
  "from_hex [] = Some []"
| "from_hex [c] = (if is_ascii_space c then Some [] else None)"
| "from_hex (c # d # r) = (if is_ascii_space c then from_hex (d # r)
     else case (hex_digit c, hex_digit d) of
         (Some x, Some y) \<Rightarrow> map_option (Cons (x * 16 + y)) (from_hex r)
       | _ \<Rightarrow> None)"

definition iterations_ok :: "int \<Rightarrow> bool" where
  "iterations_ok n \<longleftrightarrow> pbkdf2_min_iterations \<le> n \<and> n \<le> pbkdf2_max_iterations"

definition hash_password :: "kdf \<Rightarrow> bytes \<Rightarrow> code_points \<Rightarrow> int \<Rightarrow> code_points res" where
  "hash_password kdf salt password iterations =
     (if password = [] \<or> \<not> bounded_utf8 password max_password_bytes then Raise ValueError
      else if \<not> iterations_ok iterations then Raise ValueError
      else rmap (\<lambda>p. ascii ''pbkdf2_sha256'' @ [36] @ int_text iterations @ [36] @ hex_text salt @ [36] @ hex_text (kdf p salt iterations))
        (utf8_encode password))"

definition verify_password :: "kdf \<Rightarrow> decimals \<Rightarrow> code_points \<Rightarrow> code_points \<Rightarrow> bool" where
  "verify_password kdf dec password stored =
     (if password = [] \<or> \<not> bounded_utf8 password max_password_bytes \<or> 1024 < length stored then False
      else case split_at 36 stored of
          [scheme, iters, salt_hex, dk_hex] \<Rightarrow>
            if scheme \<noteq> ascii ''pbkdf2_sha256'' then False
            else (case (int_of_text dec iters, from_hex salt_hex, from_hex dk_hex) of
                (Some iterations, Some salt, Some expected) \<Rightarrow>
                  if \<not> iterations_ok iterations then False
                  else if \<not> (16 \<le> length salt \<and> length salt \<le> 64) \<or> length expected \<noteq> 32 then False
                  else (case utf8_encode password of Inr p \<Rightarrow> kdf p salt iterations = expected | Inl e \<Rightarrow> False)
              | _ \<Rightarrow> False)
        | _ \<Rightarrow> False)"

subsection \<open>Session cookies\<close>

type_synonym mac = "bytes \<Rightarrow> bytes \<Rightarrow> bytes"

definition session_payload :: "code_points \<Rightarrow> int \<Rightarrow> int \<Rightarrow> code_points" where
  "session_payload username issued expires = [123] @ json_quote (ascii ''u'') @ [58] @ json_quote username
     @ [44] @ json_quote (ascii ''iat'') @ [58] @ int_text issued @ [44] @ json_quote (ascii ''exp'') @ [58] @ int_text expires @ [125]"

definition secret_ok :: "bytes \<Rightarrow> bool" where
  "secret_ok k \<longleftrightarrow> min_session_secret_bytes \<le> length k \<and> length k \<le> max_session_secret_bytes"

definition sign_session :: "mac \<Rightarrow> code_points \<Rightarrow> code_points \<Rightarrow> int \<Rightarrow> int \<Rightarrow> code_points res" where
  "sign_session mac username secret ttl now =
     (if username = [] \<or> \<not> bounded_utf8 username max_username_bytes then Raise ValueError
      else rbind (utf8_encode secret) (\<lambda>k.
        if \<not> secret_ok k then Raise ValueError
        else if \<not> (1 \<le> ttl \<and> ttl \<le> max_session_ttl_seconds) then Raise ValueError
        else rbind (utf8_encode (session_payload username now (now + ttl))) (\<lambda>payload.
          rmap (\<lambda>m. b64e payload @ [46] @ b64e (mac k m)) (utf8_encode (b64e payload)))))"

text \<open>The fields of a payload that has the right types.\<close>

definition read_payload :: "code_points \<Rightarrow> (code_points \<times> int \<times> int) option" where
  "read_payload body = Option.bind (b64d body) (\<lambda>raw. Option.bind (utf8_decode raw) (\<lambda>text. Option.bind (json_loads text) (\<lambda>decoded.
     case (json_get decoded (ascii ''u''), json_get decoded (ascii ''iat''), json_get decoded (ascii ''exp'')) of
       (Some (J_Str u), Some (J_Int issued), Some (J_Int expires)) \<Rightarrow> Some (u, issued, expires)
     | _ \<Rightarrow> None)))"

definition verify_session :: "mac \<Rightarrow> code_points \<Rightarrow> code_points \<Rightarrow> int \<Rightarrow> code_points option res" where
  "verify_session mac token secret now =
     (if max_session_token_bytes < length token then Ok None
      else rbind (utf8_encode secret) (\<lambda>k.
        if \<not> secret_ok k then Ok None
        else (case split_at 46 token of
            [body, sig] \<Rightarrow> rbind (utf8_encode body) (\<lambda>m.
              if b64d sig \<noteq> Some (mac k m) then Ok None
              else (case read_payload body of
                  None \<Rightarrow> Ok None
                | Some (username, issued, expires) \<Rightarrow>
                    if username = [] \<or> \<not> bounded_utf8 username max_username_bytes \<or> expires \<le> issued \<or> max_session_ttl_seconds < expires - issued
                    then Ok None
                    else if now + 60 < issued \<or> expires \<le> now then Ok None
                    else Ok (Some username)))
          | _ \<Rightarrow> Ok None)))"

subsection \<open>The credential in force\<close>

record credentials =
  cr_username :: code_points
  cr_password_hash :: code_points
  cr_session_secret :: code_points

record auth_settings =
  as_enabled :: bool
  as_username :: code_points
  as_password_hash :: code_points
  as_session_secret :: code_points
  as_ttl :: int
  as_production :: bool

definition set_active_credentials :: "code_points \<Rightarrow> code_points \<Rightarrow> code_points \<Rightarrow> credentials res" where
  "set_active_credentials username password_hash session_secret =
     (if username = [] \<or> \<not> bounded_utf8 username max_username_bytes then Raise ValueError
      else if 1024 < length password_hash then Raise ValueError
      else rbind (utf8_encode session_secret) (\<lambda>k. if \<not> secret_ok k then Raise ValueError
        else Ok \<lparr>cr_username = username, cr_password_hash = password_hash, cr_session_secret = session_secret\<rparr>))"

definition current_credentials :: "auth_settings \<Rightarrow> credentials option \<Rightarrow> credentials option" where
  "current_credentials env active = (case active of
       Some c \<Rightarrow> Some c
     | None \<Rightarrow> if as_password_hash env \<noteq> [] \<and> as_session_secret env \<noteq> []
         then Some \<lparr>cr_username = as_username env, cr_password_hash = as_password_hash env, cr_session_secret = as_session_secret env\<rparr>
         else None)"

definition auth_is_configured :: "auth_settings \<Rightarrow> credentials option \<Rightarrow> bool" where
  "auth_is_configured env active \<longleftrightarrow> current_credentials env active \<noteq> None"

definition is_authenticated :: "mac \<Rightarrow> auth_settings \<Rightarrow> credentials option \<Rightarrow> code_points option \<Rightarrow> int \<Rightarrow> bool res" where
  "is_authenticated mac env active cookie now =
     (if \<not> as_enabled env then Ok True
      else case current_credentials env active of
          None \<Rightarrow> Ok False
        | Some c \<Rightarrow> (case cookie of
              None \<Rightarrow> Ok False
            | Some token \<Rightarrow> if token = [] then Ok False
                else rmap (\<lambda>u. u \<noteq> None) (verify_session mac token (cr_session_secret c) now)))"

text \<open>What the guard of a protected route does.\<close>

datatype guard = Pass | Setup_Required | Auth_Required

definition require_dashboard_auth :: "mac \<Rightarrow> auth_settings \<Rightarrow> credentials option \<Rightarrow> code_points option \<Rightarrow> int \<Rightarrow> guard res" where
  "require_dashboard_auth mac env active cookie now =
     (if \<not> as_enabled env then Ok Pass
      else if \<not> auth_is_configured env active then Ok Setup_Required
      else rmap (\<lambda>b. if b then Pass else Auth_Required) (is_authenticated mac env active cookie now))"

definition authenticate :: "kdf \<Rightarrow> decimals \<Rightarrow> auth_settings \<Rightarrow> credentials option \<Rightarrow> code_points \<Rightarrow> code_points \<Rightarrow> bool res" where
  "authenticate kdf dec env active username password = (case current_credentials env active of
       None \<Rightarrow> Ok False
     | Some c \<Rightarrow>
         if \<not> bounded_utf8 username max_username_bytes \<or> \<not> bounded_utf8 password max_password_bytes then Ok False
         else rbind (utf8_encode username) (\<lambda>u. rmap (\<lambda>v. u = v \<and> verify_password kdf dec password (cr_password_hash c))
           (utf8_encode (cr_username c))))"

text \<open>The handlers of the two refusals: a browser is redirected, another client gets a status.\<close>

datatype refusal = Redirect_To string | Status nat

definition refuse :: "bool \<Rightarrow> guard \<Rightarrow> refusal option" where
  "refuse wants_html g = (case g of
       Pass \<Rightarrow> None
     | Auth_Required \<Rightarrow> Some (if wants_html then Redirect_To ''/login'' else Status 401)
     | Setup_Required \<Rightarrow> Some (if wants_html then Redirect_To ''/setup'' else Status 503))"

end
