(* ===== verification/SessionFacts.thy ===== *)
theory SessionFacts
  imports Sessions
begin

text \<open>
  Cookies and password hashes are read back as they were written, and what an accepted cookie contains.
\<close>

subsection \<open>Clean texts\<close>

definition clean_text :: "code_points \<Rightarrow> bool" where
  "clean_text s \<longleftrightarrow> list_all (\<lambda>c. c < 1114112 \<and> \<not> is_surrogate c) s"

lemma clean_text_simps [simp]: "clean_text []" "clean_text (c # s) \<longleftrightarrow> c < 1114112 \<and> \<not> is_surrogate c \<and> clean_text s" "clean_text (s @ t) \<longleftrightarrow> clean_text s \<and> clean_text t"
  by (auto simp: clean_text_def)

lemma small_clean [simp]: "c < 55296 \<Longrightarrow> \<not> is_surrogate c"
  by (simp add: is_surrogate_def)

lemma encode_clean: "clean_text s \<Longrightarrow> utf8_encode s = Ok (concat (map utf8_char s))"
  by (induction s) (auto simp: utf8_encode_def split: if_splits)

lemma decode_clean: "clean_text s \<Longrightarrow> utf8_decode (concat (map utf8_char s)) = Some s"
  using utf8_roundtrip [of s] encode_clean [of s] by (simp add: is_text_def clean_text_def list_all_iff)

lemma clean_bytes: "clean_text s \<Longrightarrow> is_bytes (concat (map utf8_char s))"
  using utf8_bytes [of s] encode_clean [of s] by (simp add: is_text_def clean_text_def list_all_iff)

lemma encode_Ok: "is_text s \<Longrightarrow> utf8_encode s = Ok b \<Longrightarrow> clean_text s \<and> b = concat (map utf8_char s)"
  by (auto simp: utf8_encode_def is_text_def clean_text_def list_all_iff list_ex_iff split: if_splits)

lemma bounded_clean: "is_text s \<Longrightarrow> bounded_utf8 s n \<longleftrightarrow> clean_text s \<and> length (concat (map utf8_char s)) \<le> n"
proof (cases "utf8_encode s")
  case (Inl e)
  then have "\<not> clean_text s" using encode_clean by force
  then show ?thesis using Inl by (simp add: bounded_utf8_def)
next
  case (Inr b)
  assume "is_text s"
  then show ?thesis using encode_Ok [OF _ Inr] Inr by (simp add: bounded_utf8_def)
qed

lemma ascii_text: "list_all (\<lambda>c. c < 128) s \<Longrightarrow> clean_text s \<and> concat (map utf8_char s) = s"
  by (induction s) (auto simp: utf8_char_def)

lemma hex_char_small: "d < 16 \<Longrightarrow> hex_char d < 128 \<and> hex_char d \<noteq> 36 \<and> \<not> is_ascii_space (hex_char d)"
  by (auto simp: hex_char_def is_ascii_space_def)

lemma dec_text_ascii: "list_all (\<lambda>c. c < 128 \<and> is_num c) (dec_text n)"
  using dec_text_num [of n] by (auto simp: list_all_iff is_num_def)

lemma int_text_ascii: "list_all (\<lambda>c. c < 128) (int_text i)"
  using dec_text_ascii by (auto simp: int_text_def list_all_iff)

lemma esc_clean: "c < 1114112 \<and> \<not> is_surrogate c \<Longrightarrow> clean_text (esc_char c) \<and> length (concat (map utf8_char (esc_char c))) \<le> 6 * length (utf8_char c)"
proof -
  assume c: "c < 1114112 \<and> \<not> is_surrogate c"
  show ?thesis
  proof (cases "c < 32")
    case True
    then have "list_all (\<lambda>c. c < 128) (esc_char c)" "length (esc_char c) \<le> 6" "length (utf8_char c) = 1"
      using hex_char_small [of "c div 16"] hex_char_small [of "c mod 16"] by (auto simp: esc_char_def utf8_char_def less_mult_imp_div_less)
    then show ?thesis using ascii_text [of "esc_char c"] by simp
  next
    case False
    then show ?thesis using c by (auto simp: esc_char_def utf8_char_def)
  qed
qed

lemma quote_clean: "clean_text s \<Longrightarrow> clean_text (json_quote s) \<and> length (concat (map utf8_char (json_quote s))) \<le> 2 + 6 * length (concat (map utf8_char s))"
proof -
  have "clean_text s \<Longrightarrow> clean_text (concat (map esc_char s)) \<and> length (concat (map utf8_char (concat (map esc_char s)))) \<le> 6 * length (concat (map utf8_char s))"
  proof (induction s)
    case (Cons c s)
    then show ?case using esc_clean [of c] by simp
  qed simp
  moreover have "utf8_char 34 = [34]" by (simp add: utf8_char_def)
  ultimately show "clean_text s \<Longrightarrow> ?thesis" by (simp add: json_quote_def)
qed

subsection \<open>Reading a payload back\<close>

lemma lex_punctuation: "punctuation c = Some t \<Longrightarrow> lex (c # r) = map_option (Cons t) (lex r)"
proof -
  assume p: "punctuation c = Some t"
  then have b: "\<not> is_blank c" by (auto simp: punctuation_def is_blank_def split: if_splits)
  have "next_token (c # r) = Some (t, r)" using p by (simp add: next_token_def)
  then show ?thesis using b by (subst lex.simps) simp
qed

lemma lex_quote: "lex (json_quote s @ r) = map_option (Cons (T_Value (J_Str s))) (lex r)"
proof -
  have "next_token (34 # concat (map esc_char s) @ 34 # r) = Some (T_Value (J_Str s), r)"
    by (simp add: next_token_def punctuation_def json_string_quote)
  then show ?thesis by (subst lex.simps) (simp add: json_quote_def is_blank_def)
qed

lemma lex_int:
  assumes "\<bar>i\<bar> < 10 ^ k" "0 < k" "k \<le> max_str_digits" "ends_number r"
  shows "lex (int_text i @ r) = map_option (Cons (T_Value (J_Int i))) (lex r)"
proof -
  obtain d ds where d: "dec_text (nat \<bar>i\<bar>) = d # ds" "is_num d" using dec_text_num [of "nat \<bar>i\<bar>"] by (cases "dec_text (nat \<bar>i\<bar>)") auto
  have e: "int_text i @ r = 45 # d # ds @ r \<or> int_text i @ r = d # ds @ r" using d(1) by (auto simp: int_text_def)
  have w: "word_token (int_text i @ r) = None" using e d(2) by (auto simp: word_token_def ascii_def is_num_def)
  obtain c s where c: "int_text i @ r = c # s" "c = 45 \<or> is_num c" using e d(2) by auto
  then have p: "punctuation c = None" "c \<noteq> 34" "\<not> is_blank c" by (auto simp: punctuation_def is_num_def is_blank_def)
  have "next_token (c # s) = Some (T_Value (J_Int i), r)"
    using p w lex_number_show [OF assms] unfolding next_token_def c(1) by simp
  then show ?thesis unfolding c(1) using p(3) by (subst lex.simps) simp
qed

lemma payload_read:
  assumes "\<bar>i\<bar> < 10 ^ 20" "\<bar>e\<bar> < 10 ^ 20"
  shows "json_loads (session_payload u i e) = Some (J_Dict [(ascii ''u'', J_Str u), (ascii ''iat'', J_Int i), (ascii ''exp'', J_Int e)])"
proof -
  have k: "(20 :: nat) \<le> max_str_digits" "(0 :: nat) < 20" by (simp_all add: max_str_digits_def)
  have p: "punctuation 123 = Some T_Open_Dict" "punctuation 58 = Some T_Colon" "punctuation 44 = Some T_Comma" "punctuation 125 = Some T_Close_Dict"
    by (simp_all add: punctuation_def)
  have n: "ends_number (44 # r)" "ends_number [125]" for r by (simp_all add: ends_number_def is_num_def)
  have "lex [] = Some []" by (subst lex.simps) simp
  then have "lex (session_payload u i e) = Some [T_Open_Dict, T_Value (J_Str (ascii ''u'')), T_Colon, T_Value (J_Str u), T_Comma,
      T_Value (J_Str (ascii ''iat'')), T_Colon, T_Value (J_Int i), T_Comma, T_Value (J_Str (ascii ''exp'')), T_Colon, T_Value (J_Int e), T_Close_Dict]"
    using lex_int [OF assms(1) k(2, 1) n(1)] lex_int [OF assms(2) k(2, 1) n(2)]
    by (simp add: session_payload_def lex_quote lex_punctuation [OF p(1)] lex_punctuation [OF p(2)] lex_punctuation [OF p(3)] lex_punctuation [OF p(4)])
  then show ?thesis by (simp add: json_loads_def)
qed

lemma payload_fields:
  "json_get (J_Dict [(ascii ''u'', a), (ascii ''iat'', b), (ascii ''exp'', c)]) (ascii ''u'') = Some a"
  "json_get (J_Dict [(ascii ''u'', a), (ascii ''iat'', b), (ascii ''exp'', c)]) (ascii ''iat'') = Some b"
  "json_get (J_Dict [(ascii ''u'', a), (ascii ''iat'', b), (ascii ''exp'', c)]) (ascii ''exp'') = Some c"
  by (simp_all add: json_get_def ascii_def)

lemma int_text_length: "\<bar>i\<bar> < 10 ^ 20 \<Longrightarrow> length (int_text i) \<le> 21"
  using dec_text_length [of "nat \<bar>i\<bar>" 20] by (auto simp: int_text_def nat_less_iff)

lemma payload_clean:
  assumes "clean_text u" "length (concat (map utf8_char u)) \<le> max_username_bytes" "\<bar>i\<bar> < 10 ^ 20" "\<bar>e\<bar> < 10 ^ 20"
  shows "clean_text (session_payload u i e)" "length (concat (map utf8_char (session_payload u i e))) \<le> 1000"
proof -
  have q: "list_all (\<lambda>c. c < 128) (json_quote (ascii ''u''))" "list_all (\<lambda>c. c < 128) (json_quote (ascii ''iat''))" "list_all (\<lambda>c. c < 128) (json_quote (ascii ''exp''))"
    "length (json_quote (ascii ''u'')) = 3" "length (json_quote (ascii ''iat'')) = 5" "length (json_quote (ascii ''exp'')) = 5"
    by (simp_all add: json_quote_def ascii_def esc_char_def)
  have p: "utf8_char 123 = [123]" "utf8_char 58 = [58]" "utf8_char 44 = [44]" "utf8_char 125 = [125]" by (simp_all add: utf8_char_def)
  note a = ascii_text [OF q(1)] ascii_text [OF q(2)] ascii_text [OF q(3)] ascii_text [OF int_text_ascii]
  show "clean_text (session_payload u i e)" using a quote_clean [OF assms(1)] by (simp add: session_payload_def)
  show "length (concat (map utf8_char (session_payload u i e))) \<le> 1000"
    using a quote_clean [OF assms(1)] assms(2) q int_text_length [OF assms(3)] int_text_length [OF assms(4)] p
    by (simp add: session_payload_def max_username_bytes_def)
qed

lemma split_at_none: "x \<notin> set s \<Longrightarrow> split_at x s = [s]"
  by (induction s) auto

lemma split_at_nonempty: "split_at x s \<noteq> []"
  by (induction s) (auto split: list.splits)

lemma split_at_append: "x \<notin> set s \<Longrightarrow> split_at x (s @ x # t) = s # split_at x t"
proof (induction s)
  case Nil
  then show ?case using split_at_nonempty [of x t] by (auto split: list.splits)
qed (auto split: list.splits)

lemma split_at_join: "split_at x s = [p, q] \<Longrightarrow> s = p @ [x] @ q"
proof (induction s arbitrary: p)
  case (Cons c s)
  obtain a as where a: "split_at x s = a # as" using split_at_nonempty [of x s] by (cases "split_at x s") auto
  have one: "split_at x t = [y] \<Longrightarrow> t = y" for t y
    by (induction t arbitrary: y) (auto split: list.splits if_splits simp: split_at_nonempty)
  show ?case
  proof (cases "c = x")
    case True
    then have "p = []" "split_at x s = [q]" using Cons.prems a by auto
    then show ?thesis using True one by simp
  next
    case False
    then obtain p' where "p = c # p'" "split_at x s = [p', q]" using Cons.prems a by auto
    then show ?thesis using Cons.IH by simp
  qed
qed simp

lemma b64_small: "list_all (\<lambda>c. c < 128 \<and> c \<noteq> 46) s \<Longrightarrow> list_all (\<lambda>c. c < 128) s \<and> 46 \<notin> set s"
  by (auto simp: list_all_iff)

subsection \<open>Passwords\<close>

definition ascii_digits :: "decimals \<Rightarrow> bool" where
  "ascii_digits dec \<longleftrightarrow> list_all (\<lambda>d. dec (48 + d) = Some d) [0..<10]"

lemma ascii_digitsD: "ascii_digits dec \<Longrightarrow> is_num c \<Longrightarrow> dec c = Some (c - 48)"
proof -
  assume a: "ascii_digits dec" "is_num c"
  then obtain d where "c = 48 + d" "d < 10" by (auto simp: is_num_def intro!: that [of "c - 48"])
  then show ?thesis using a(1) by (simp add: ascii_digits_def list_all_iff)
qed

lemma foldl_dec: "ascii_digits dec \<Longrightarrow> list_all is_num ds \<Longrightarrow> foldl (\<lambda>a c. a * 10 + the (dec c)) n ds = foldl (\<lambda>a d. a * 10 + (d - 48)) n ds"
  by (induction ds arbitrary: n) (auto simp: ascii_digitsD)

lemma strip_num: "list_all is_num ds \<Longrightarrow> strip_blanks ds = ds"
proof -
  assume d: "list_all is_num ds"
  have n: "is_num c \<Longrightarrow> \<not> is_unicode_space c" for c by (auto simp: is_num_def is_unicode_space_def)
  have id: "dropWhile is_unicode_space xs = xs" if "list_all is_num xs" for xs using that n by (cases xs) auto
  have "list_all is_num (rev ds)" using d by (simp add: list_all_iff)
  then show ?thesis using d by (simp add: strip_blanks_def id)
qed

lemma int_shown:
  assumes "ascii_digits dec" "0 \<le> i" "i < 10 ^ k" "0 < k" "k \<le> max_str_digits" shows "int_of_text dec (int_text i) = Some i"
proof -
  let ?ds = "dec_text (nat i)"
  have d: "list_all is_num ?ds" "?ds \<noteq> []" using dec_text_num by auto
  have s: "int_text i = ?ds" using assms(2) by (simp add: int_text_def)
  have "hd ?ds \<noteq> 45 \<and> hd ?ds \<noteq> 43" using d by (cases ?ds) (auto simp: is_num_def)
  moreover have "split_at 95 ?ds = [?ds]" using d(1) by (intro split_at_none) (auto simp: list_all_iff is_num_def)
  moreover have "length ?ds \<le> max_str_digits" using dec_text_length [of "nat i" k] assms by (simp add: nat_less_iff)
  moreover have "list_all (\<lambda>c. dec c \<noteq> None) ?ds" using d(1) ascii_digitsD [OF assms(1)] by (auto simp: list_all_iff)
  moreover have "foldl (\<lambda>a c. a * 10 + the (dec c)) 0 ?ds = nat i"
    using foldl_dec [OF assms(1) d(1), of 0] digits_show [of "nat i"] by (simp add: digits_nat_def)
  ultimately show ?thesis unfolding int_of_text_def Let_def s strip_num [OF d(1)] using d(2) assms(2) by simp
qed

lemma hex_roundtrip: "is_bytes bs \<Longrightarrow> from_hex (hex_text bs) = Some bs"
proof (induction bs)
  case (Cons b bs)
  then have b: "b < 256" "b div 16 < 16" by (auto simp: is_bytes_def less_mult_imp_div_less)
  then show ?case using Cons hex_char_small [of "b div 16"] hex_digit_char [of "b div 16"] hex_digit_char [of "b mod 16"]
    by (simp add: hex_text_def is_bytes_def)
qed (simp add: hex_text_def)

lemma hex_text_chars: "is_bytes bs \<Longrightarrow> list_all (\<lambda>c. c \<noteq> 36) (hex_text bs) \<and> length (hex_text bs) = 2 * length bs"
proof (induction bs)
  case (Cons b bs)
  then have b: "b div 16 < 16" by (auto simp: is_bytes_def less_mult_imp_div_less)
  then show ?case using Cons hex_char_small [of "b div 16"] hex_char_small [of "b mod 16"] by (simp add: hex_text_def is_bytes_def)
qed (simp add: hex_text_def)

end
