(* ===== verification/SessionClaims.thy ===== *)
theory SessionClaims
  imports SessionFacts "HOL-Library.Code_Target_Nat"
begin

text \<open>
  The properties of the dashboard login, with a toy MAC and a toy key derivation for the witnesses.
\<close>

definition toy_mac :: mac where
  "toy_mac k m = replicate 31 0 @ [foldl (\<lambda>a b. (a * 31 + b) mod 256) 7 (k @ m)]"

definition toy_kdf :: kdf where
  "toy_kdf p salt n = replicate 31 0 @ [foldl (\<lambda>a b. (a * 31 + b) mod 256) 7 (p @ salt)]"

definition toy_secret :: code_points where
  "toy_secret = replicate 32 115"

definition ascii_decimals :: decimals where
  "ascii_decimals c = (if is_num c then Some (c - 48) else None)"

definition digest_size :: "bytes \<Rightarrow> bool" where
  "digest_size d \<longleftrightarrow> length d = 32 \<and> is_bytes d"

lemma fold_mod: "foldl (\<lambda>a b. (a * 31 + b) mod 256) (n mod 256) xs < (256 :: nat)"
  by (induction xs arbitrary: n) auto

lemma toy_digests: "digest_size (toy_mac k m)" "digest_size (toy_kdf p salt n)"
  using fold_mod [of 7 "k @ m"] fold_mod [of 7 "p @ salt"] by (simp_all add: digest_size_def toy_mac_def toy_kdf_def is_bytes_def list_all_iff)

subsection \<open>Cookies\<close>

lemma sign_verify:
  assumes "\<And>k m. digest_size (mac k m)" "is_text username" "\<bar>now\<bar> < 10 ^ 18"
    and "sign_session mac username secret ttl now = Ok token"
  shows "verify_session mac token secret t = Ok (if now - 60 \<le> t \<and> t < now + ttl then Some username else None)"
proof -
  obtain k where u: "username \<noteq> []" "bounded_utf8 username max_username_bytes" and k: "utf8_encode secret = Ok k" "secret_ok k"
    and ttl: "1 \<le> ttl" "ttl \<le> max_session_ttl_seconds"
    using assms(4) by (auto simp: sign_session_def rbind_Ok_iff split: if_splits)
  let ?p = "session_payload username now (now + ttl)"
  have b: "\<bar>now\<bar> < 10 ^ 20" "\<bar>now + ttl\<bar> < 10 ^ 20" using assms(3) ttl by (auto simp: max_session_ttl_seconds_def)
  have c: "clean_text username" "length (concat (map utf8_char username)) \<le> max_username_bytes" using u(2) bounded_clean [OF assms(2)] by auto
  define raw where "raw = concat (map utf8_char ?p)"
  have raw: "utf8_encode ?p = Ok raw" "utf8_decode raw = Some ?p" "is_bytes raw" "length raw \<le> 1000"
    using payload_clean [OF c b] encode_clean decode_clean clean_bytes by (simp_all add: raw_def)
  define body where "body = b64e raw"
  have body: "list_all (\<lambda>c. c < 128) body" "46 \<notin> set body" "b64d body = Some raw" "length body \<le> 1400"
    using b64_small [OF b64_encode_chars [OF raw(3)]] b64_roundtrip [OF raw(3)] b64_length [of raw] raw(4) by (auto simp: body_def b64e_def)
  then have e: "utf8_encode body = Ok body" using ascii_text [OF body(1)] encode_clean [of body] by simp
  define sig where "sig = b64e (mac k body)"
  have d: "is_bytes (mac k body)" "length (mac k body) = 32" using assms(1) by (simp_all add: digest_size_def)
  have sig: "b64d sig = Some (mac k body)" "46 \<notin> set sig" "length sig \<le> 60"
    using b64_small [OF b64_encode_chars [OF d(1)]] b64_roundtrip [OF d(1)] b64_length [of "mac k body"] d(2) by (auto simp: sig_def b64e_def)
  have token: "token = body @ 46 # sig" using assms(4) u k ttl raw(1) e by (simp add: sign_session_def body_def sig_def)
  have split: "split_at 46 token = [body, sig]" unfolding token split_at_append [OF body(2)] split_at_none [OF sig(2)] ..
  have "length token \<le> max_session_token_bytes" using token body(4) sig(3) by (simp add: max_session_token_bytes_def)
  moreover have "read_payload body = Some (username, now, now + ttl)"
    using body(3) raw(2) payload_read [OF b, of username] payload_fields by (simp add: read_payload_def)
  ultimately show ?thesis using k u ttl split e sig(1) by (auto simp: verify_session_def)
qed

text \<open>C20: A cookie signed for a user name of any characters is accepted for that name from a minute before it was issued
  until it expires, and at no other time.\<close>

theorem session_roundtrip:
  assumes "\<And>k m. digest_size (mac k m)" "is_text username" "\<bar>now\<bar> < 10 ^ 18"
    and "sign_session mac username secret ttl now = Ok token"
  shows "verify_session mac token secret t = Ok (if now - 60 \<le> t \<and> t < now + ttl then Some username else None)"
  using sign_verify [OF assms] .

definition toy_token :: code_points where
  "toy_token = (case sign_session toy_mac (ascii ''o\"k'') toy_secret 100 5000 of Inr t \<Rightarrow> t | Inl e \<Rightarrow> [])"

lemma toy_signed: "sign_session toy_mac (ascii ''o\"k'') toy_secret 100 5000 = Ok toy_token"
  by code_simp

lemma session_roundtrip_witness:
  "verify_session toy_mac toy_token toy_secret 5099 = Ok (Some (ascii ''o\"k'')) \<and> verify_session toy_mac toy_token toy_secret 5100 = Ok None"
proof -
  have "is_text (ascii ''o\"k'')" by code_simp
  then show ?thesis using session_roundtrip [OF toy_digests(1) _ _ toy_signed, of 5099] session_roundtrip [OF toy_digests(1) _ _ toy_signed, of 5100] by simp
qed

text \<open>C21: While the dashboard is protected a guarded route is reached only with a cookie whose second part is the MAC of
  its first part under the secret of the credential in force, and a cookie that opens it at two instants is less than
  seven days and a minute old at either.\<close>

theorem guard_needs_signature:
  assumes "as_enabled env" "require_dashboard_auth mac env active cookie t = Ok Pass" "require_dashboard_auth mac env active cookie t' = Ok Pass"
  shows "case (current_credentials env active, cookie) of
      (Some c, Some token) \<Rightarrow> (case (utf8_encode (cr_session_secret c), split_at 46 token) of
          (Inr k, [body, sig]) \<Rightarrow> secret_ok k \<and> rmap (mac k) (utf8_encode body) = (case b64d sig of Some d \<Rightarrow> Ok d | None \<Rightarrow> Raise ValueError)
            \<and> token = body @ [46] @ sig \<and> \<bar>t - t'\<bar> < max_session_ttl_seconds + 60
        | _ \<Rightarrow> False)
    | _ \<Rightarrow> False"
proof -
  obtain c token u u' where c: "current_credentials env active = Some c" "cookie = Some token"
    and v: "verify_session mac token (cr_session_secret c) t = Ok (Some u)" "verify_session mac token (cr_session_secret c) t' = Ok (Some u')"
    using assms by (auto simp: require_dashboard_auth_def is_authenticated_def rmap_Ok_iff split: option.splits if_splits)
  obtain k where k: "utf8_encode (cr_session_secret c) = Ok k" "secret_ok k"
    using v(1) by (auto simp: verify_session_def rbind_Ok_iff split: if_splits)
  obtain body sig where s: "split_at 46 token = [body, sig]"
    using v(1) k by (auto simp: verify_session_def split: if_splits list.splits)
  obtain m where m: "utf8_encode body = Ok m" using v(1) k s by (auto simp: verify_session_def rbind_Ok_iff split: if_splits)
  have d: "b64d sig = Some (mac k m)" using v(1) k s m by (auto simp: verify_session_def split: if_splits)
  obtain w issued expires where p: "read_payload body = Some (w, issued, expires)"
    using v(1) k s m by (auto simp: verify_session_def split: if_splits option.splits)
  have "expires - issued \<le> max_session_ttl_seconds" "issued \<le> t + 60" "t < expires"
    using v(1) k s m p by (auto simp: verify_session_def split: if_splits)
  moreover have "issued \<le> t' + 60" "t' < expires" using v(2) k s m p by (auto simp: verify_session_def split: if_splits)
  ultimately have "\<bar>t - t'\<bar> < max_session_ttl_seconds + 60" by linarith
  then show ?thesis using c k s m d split_at_join [OF s] by simp
qed

definition toy_settings :: auth_settings where
  "toy_settings = \<lparr>as_enabled = True, as_username = ascii ''admin'', as_password_hash = [], as_session_secret = [], as_ttl = 100, as_production = False\<rparr>"

definition toy_credentials :: credentials where
  "toy_credentials = \<lparr>cr_username = ascii ''o\"k'', cr_password_hash = [], cr_session_secret = toy_secret\<rparr>"

lemma guard_needs_signature_witness:
  "secret_ok (concat (map utf8_char toy_secret)) \<and> \<bar>5000 - 5099\<bar> < max_session_ttl_seconds + 60"
proof -
  have c: "current_credentials toy_settings (Some toy_credentials) = Some toy_credentials" "as_enabled toy_settings"
    "cr_session_secret toy_credentials = toy_secret" "utf8_encode toy_secret = Ok (concat (map utf8_char toy_secret))" by code_simp+
  have "is_text (ascii ''o\"k'')" "toy_token \<noteq> []" by code_simp+
  then have "require_dashboard_auth toy_mac toy_settings (Some toy_credentials) (Some toy_token) t = Ok Pass" if "5000 \<le> t" "t < 5100" for t
    using c that sign_verify [OF toy_digests(1) _ _ toy_signed, of t] by (simp add: require_dashboard_auth_def auth_is_configured_def is_authenticated_def)
  from this [of 5000] this [of 5099]
  show ?thesis using guard_needs_signature [of toy_settings toy_mac "Some toy_credentials" "Some toy_token" 5000 5099] c
    by (auto split: list.splits)
qed

subsection \<open>Passwords\<close>

text \<open>A stored hash accepts the password it was made from, and another one exactly when the key derivation cannot
  tell them apart.\<close>

theorem password_roundtrip:
  assumes "\<And>p s n. digest_size (kdf p s n)" "ascii_digits dec" "is_bytes salt" "16 \<le> length salt" "length salt \<le> 64"
    and "hash_password kdf salt password iterations = Ok stored" "utf8_encode password = Ok p" "utf8_encode attempt = Ok q"
  shows "verify_password kdf dec password stored
    \<and> verify_password kdf dec attempt stored = (attempt \<noteq> [] \<and> length q \<le> max_password_bytes \<and> kdf q salt iterations = kdf p salt iterations)"
proof -
  have pw: "password \<noteq> []" "bounded_utf8 password max_password_bytes" "iterations_ok iterations"
    and st: "stored = ascii ''pbkdf2_sha256'' @ 36 # int_text iterations @ 36 # hex_text salt @ 36 # hex_text (kdf p salt iterations)"
    using assms(6, 7) by (auto simp: hash_password_def split: if_splits)
  have it: "0 \<le> iterations" "iterations < 10 ^ 20" using pw(3) by (auto simp: iterations_ok_def pbkdf2_min_iterations_def pbkdf2_max_iterations_def)
  have k: "(20 :: nat) \<le> max_str_digits" by (simp add: max_str_digits_def)
  have d: "is_bytes (kdf p salt iterations)" "length (kdf p salt iterations) = 32" using assms(1) by (simp_all add: digest_size_def)
  have no: "36 \<notin> set (ascii ''pbkdf2_sha256'')" "36 \<notin> set (int_text iterations)" "36 \<notin> set (hex_text salt)" "36 \<notin> set (hex_text (kdf p salt iterations))"
    using hex_text_chars [OF assms(3)] hex_text_chars [OF d(1)] dec_text_ascii [of "nat iterations"] it
    by (auto simp: ascii_def int_text_def list_all_iff is_num_def)
  have split: "split_at 36 stored = [ascii ''pbkdf2_sha256'', int_text iterations, hex_text salt, hex_text (kdf p salt iterations)]"
    unfolding st split_at_append [OF no(1)] split_at_append [OF no(2)] split_at_append [OF no(3)] split_at_none [OF no(4)] ..
  have "length (ascii ''pbkdf2_sha256'') = 13" by (simp add: ascii_def)
  then have len: "length stored \<le> 1024"
    using hex_text_chars [OF assms(3)] hex_text_chars [OF d(1)] int_text_length [of iterations] it assms(5) d(2) by (simp add: st)
  have v: "verify_password kdf dec x stored = (x \<noteq> [] \<and> length y \<le> max_password_bytes \<and> kdf y salt iterations = kdf p salt iterations)"
    if "utf8_encode x = Ok y" for x y
    using that len split int_shown [OF assms(2) it _ k] hex_roundtrip [OF assms(3)] hex_roundtrip [OF d(1)] pw(3) assms(4, 5) d(2)
    by (auto simp: verify_password_def bounded_utf8_def)
  show ?thesis using v [OF assms(7)] v [OF assms(8)] pw assms(7) by (simp add: bounded_utf8_def)
qed

definition toy_salt :: bytes where "toy_salt = replicate 16 200"

definition toy_stored :: code_points where
  "toy_stored = (case hash_password toy_kdf toy_salt (ascii ''secret'') 600000 of Inr h \<Rightarrow> h | Inl e \<Rightarrow> [])"

lemma toy_hashed: "hash_password toy_kdf toy_salt (ascii ''secret'') 600000 = Ok toy_stored"
  by code_simp

lemma password_roundtrip_witness:
  "verify_password toy_kdf ascii_decimals (ascii ''secret'') toy_stored \<and> \<not> verify_password toy_kdf ascii_decimals (ascii ''Secret'') toy_stored"
proof -
  have "ascii_digits ascii_decimals" "is_bytes toy_salt" "length toy_salt = 16" by code_simp+
  moreover have e: "utf8_encode (ascii ''secret'') = Ok (ascii ''secret'')" "utf8_encode (ascii ''Secret'') = Ok (ascii ''Secret'')" by code_simp+
  moreover have "toy_kdf (ascii ''Secret'') toy_salt 600000 \<noteq> toy_kdf (ascii ''secret'') toy_salt 600000" by code_simp
  ultimately show ?thesis using password_roundtrip [OF toy_digests(2) _ _ _ _ toy_hashed e] by simp
qed

end
