(* ===== verification/Login.thy ===== *)
theory Login
  imports Sessions PyFloat "HOL-Library.AList"
begin

text \<open>
  Signing in, from \<^verbatim>\<open>app/api/routes.py\<close>: the fixed window of failures per peer, the bounded set of running password
  checks, and the first-run setup.  A request is split at its one await, the password check: an attempt that is let
  through starts a worker, and its verdict comes later, other requests in between.  The monotonic clock is a finite
  float.  How \<^verbatim>\<open>/setup\<close> decides that a request is local is an argument.
\<close>

subsection \<open>The window of failures\<close>

definition login_max_failures :: nat where "login_max_failures = 5"
definition login_window :: pyfloat where "login_window = Fin 300"
definition login_max_keys :: nat where "login_max_keys = 1024"
definition login_max_inflight :: nat where "login_max_inflight = 4"

type_synonym failures = "(string \<times> rat \<times> nat) list"

definition window_over :: "rat \<Rightarrow> rat \<Rightarrow> bool" where
  "window_over now start \<longleftrightarrow> f_le login_window (f_sub (Fin now) (Fin start))"

definition truncate :: "pyfloat \<Rightarrow> int res" where
  "truncate f = (case f of Fin x \<Rightarrow> Ok (if x < 0 then \<lceil>x\<rceil> else \<lfloor>x\<rfloor>) | NaN \<Rightarrow> Raise ValueError | _ \<Rightarrow> Raise OverflowError)"

definition login_retry_after :: "string \<Rightarrow> rat \<Rightarrow> failures \<Rightarrow> int option res" where
  "login_retry_after ip now d = (case map_of d ip of
       None \<Rightarrow> Ok None
     | Some (start, n) \<Rightarrow>
         if window_over now start \<or> n < login_max_failures then Ok None
         else rmap (\<lambda>s. Some (max 1 (s + 1))) (truncate (f_sub (f_add (Fin start) login_window) (Fin now))))"

text \<open>The key of the earliest window, the first of several.\<close>

fun oldest :: "string \<Rightarrow> rat \<Rightarrow> failures \<Rightarrow> string" where
  "oldest k start [] = k"
| "oldest k start ((k', start', n) # d) = (if start' < start then oldest k' start' d else oldest k start d)"

lemma oldest_in: "oldest k start d = k \<or> oldest k start d \<in> fst ` set d"
proof (induction d arbitrary: k start)
  case (Cons x d)
  obtain k' s' n' where x: "x = (k', s', n')" by (cases x) auto
  show ?case using Cons [of k' s'] Cons [of k start] unfolding x by auto
qed simp

lemma delete_shorter: "k \<in> fst ` set d \<Longrightarrow> length (AList.delete k d) < length d"
  by (induction d) (auto simp: AList.delete_eq le_imp_less_Suc intro: length_filter_le)

function evict :: "failures \<Rightarrow> failures" where
  "evict d = (case d of
       [] \<Rightarrow> []
     | (k, start, n) # d' \<Rightarrow> if login_max_keys \<le> length d then evict (AList.delete (oldest k start d') d) else d)"
  by auto
termination evict
proof (relation "measure length")
  fix d d' :: failures and x y k start n
  assume d: "d = x # d'" "(k, y) = x" "(start, n) = y"
  have "oldest k start d' \<in> fst ` set d" using oldest_in [of k start d'] d by auto
  then show "(AList.delete (oldest k start d') d, d) \<in> measure length" using delete_shorter by simp
qed simp

declare evict.simps [simp del]

definition make_room :: "rat \<Rightarrow> failures \<Rightarrow> failures" where
  "make_room now d =
     (if login_max_keys \<le> length d then evict (filter (\<lambda>e. \<not> window_over now (fst (snd e))) d) else d)"

definition login_record_failure :: "string \<Rightarrow> rat \<Rightarrow> failures \<Rightarrow> failures" where
  "login_record_failure ip now d = (case map_of d ip of
       None \<Rightarrow> AList.update ip (now, 1) (make_room now d)
     | Some (start, n) \<Rightarrow>
         if window_over now start then AList.update ip (now, 1) (make_room now d)
         else AList.update ip (start, n + 1) d)"

definition login_record_success :: "string \<Rightarrow> failures \<Rightarrow> failures" where
  "login_record_success ip d = AList.delete ip d"

subsection \<open>One request to sign in\<close>

record login_state =
  lg_failures :: failures
  lg_inflight :: "string set"

definition reset_login_throttle :: login_state where
  "reset_login_throttle = \<lparr>lg_failures = [], lg_inflight = {}\<rparr>"

datatype login_reply = Throttled int | Busy | Checking

text \<open>Up to the password check.\<close>

definition login_attempt :: "string \<Rightarrow> rat \<Rightarrow> login_state \<Rightarrow> login_reply res \<times> login_state" where
  "login_attempt ip now s = (case login_retry_after ip now (lg_failures s) of
       Inl e \<Rightarrow> (Raise e, s)
     | Inr (Some n) \<Rightarrow> (Ok (Throttled n), s)
     | Inr None \<Rightarrow>
         if ip \<in> lg_inflight s \<or> login_max_inflight \<le> card (lg_inflight s) then (Ok Busy, s)
         else (Ok Checking, s\<lparr>lg_inflight := insert ip (lg_inflight s)\<rparr>))"

datatype login_result = Invalid_Credentials | Session_Cookie code_points

text \<open>From its verdict on, with the credential in force and the wall clock; the check of a cancelled request only frees
  its slot.\<close>

definition login_verdict :: "mac \<Rightarrow> string \<Rightarrow> bool res \<Rightarrow> auth_settings \<Rightarrow> credentials option \<Rightarrow> rat \<Rightarrow> int \<Rightarrow> login_state \<Rightarrow>
    login_result res \<times> login_state" where
  "login_verdict mac ip verdict env active now clock s0 = (let s = s0\<lparr>lg_inflight := lg_inflight s0 - {ip}\<rparr> in
     case verdict of
       Inl e \<Rightarrow> (Raise e, s)
     | Inr ok \<Rightarrow>
         if \<not> ok then (Ok Invalid_Credentials, s\<lparr>lg_failures := login_record_failure ip now (lg_failures s)\<rparr>)
         else (case current_credentials env active of
             None \<Rightarrow> Ok Invalid_Credentials
           | Some c \<Rightarrow> rmap Session_Cookie (sign_session mac (cr_username c) (cr_session_secret c) (as_ttl env) clock),
           s\<lparr>lg_failures := login_record_success ip (lg_failures s)\<rparr>))"

definition login_cancelled :: "string \<Rightarrow> login_state \<Rightarrow> login_state" where
  "login_cancelled ip s = s\<lparr>lg_inflight := lg_inflight s - {ip}\<rparr>"

subsection \<open>First-run setup\<close>

text \<open>The stored row and the credential in memory.\<close>

record setup_state =
  su_row :: "credentials option"
  su_active :: "credentials option"

definition min_password_len :: nat where "min_password_len = 8"

text \<open>Up to the hashing of the password: a status, or the user name to create.\<close>

definition setup_begin :: "bool \<Rightarrow> auth_settings \<Rightarrow> code_points \<Rightarrow> code_points \<Rightarrow> setup_state \<Rightarrow> (nat + code_points) res" where
  "setup_begin is_local env raw_name password s =
     (if as_production env \<or> \<not> is_local then Ok (Inl 404)
      else if \<not> as_enabled env then Ok (Inl 404)
      else if auth_is_configured env (su_active s) then Ok (Inl 409)
      else let name = (if strip_blanks raw_name = [] then ascii ''admin'' else strip_blanks raw_name) in
        rbind (utf8_encode name) (\<lambda>n.
          if max_username_bytes < length n then Ok (Inl 400)
          else if length password < min_password_len then Ok (Inl 400)
          else rmap (\<lambda>p. if max_password_bytes < length p then Inl 400 else Inr name) (utf8_encode password)))"

text \<open>The insert, which the unique constraint refuses when a row exists, and the installation of the credential.\<close>

definition create_dashboard_credentials :: "credentials \<Rightarrow> setup_state \<Rightarrow> bool \<times> setup_state" where
  "create_dashboard_credentials c s = (case su_row s of Some r \<Rightarrow> (False, s) | None \<Rightarrow> (True, s\<lparr>su_row := Some c\<rparr>))"

definition setup_finish :: "credentials \<Rightarrow> setup_state \<Rightarrow> nat option res \<times> setup_state" where
  "setup_finish c s = (case create_dashboard_credentials c s of
       (False, s1) \<Rightarrow> (Ok (Some 409), s1)
     | (True, s1) \<Rightarrow> (case set_active_credentials (cr_username c) (cr_password_hash c) (cr_session_secret c) of
           Inl e \<Rightarrow> (Raise e, s1)
         | Inr a \<Rightarrow> (Ok None, s1\<lparr>su_active := Some a\<rparr>)))"

end
