(* ===== verification/LoginFacts.thy ===== *)
theory LoginFacts
  imports Login
begin

text \<open>
  What any interleaving of requests to sign in keeps: the bounds on the workers and on the table, the window every
  failure falls into, and the one-shot setup.
\<close>

subsection \<open>The table\<close>

lemma update_length: "length (AList.update k v d) \<le> Suc (length d)"
  by (induction d) auto

lemma update_keys: "fst ` set (AList.update k v d) = insert k (fst ` set d)"
  by (induction d) auto

lemma distinct_length: "distinct (map fst d) \<Longrightarrow> length d = card (fst ` set d)"
  using distinct_card [of "map fst d"] by simp

lemma delete_keys: "fst ` set (AList.delete k d) \<subseteq> fst ` set d"
  by (auto simp: AList.delete_eq)

lemma delete_map_of: "map_of (AList.delete k d) k' = (if k' = k then None else map_of d k')"
  by (simp add: delete_conv')

lemma evict_eq:
  "evict [] = []"
  "evict ((k, start, n) # d) = (if login_max_keys \<le> length ((k, start, n) # d)
     then evict (AList.delete (oldest k start d) ((k, start, n) # d)) else (k, start, n) # d)"
  by (rule trans [OF evict.simps], simp only: list.case prod.case)+

lemma evict_props:
  "distinct (map fst d) \<Longrightarrow> distinct (map fst (evict d)) \<and> length (evict d) < login_max_keys \<and> set (evict d) \<subseteq> set d"
proof (induction d rule: length_induct)
  case (1 d)
  show ?case
  proof (cases d)
    case Nil
    then show ?thesis using evict_eq(1) by (simp add: login_max_keys_def)
  next
    case (Cons x d')
    obtain k start n where d: "d = (k, start, n) # d'" using Cons by (cases x) auto
    show ?thesis
    proof (cases "login_max_keys \<le> length d")
      case True
      define e where "e = AList.delete (oldest k start d') d"
      have e: "evict d = evict e" using evict_eq(2) [of k start n d'] True unfolding e_def d by simp
      have "oldest k start d' \<in> fst ` set d" using oldest_in [of k start d'] d by auto
      then have "length e < length d" unfolding e_def by (rule delete_shorter)
      moreover have "distinct (map fst e)" using 1(2) by (simp add: e_def distinct_delete)
      ultimately have "distinct (map fst (evict e)) \<and> length (evict e) < login_max_keys \<and> set (evict e) \<subseteq> set e" using 1(1) by blast
      moreover have "set e \<subseteq> set d" by (auto simp: e_def AList.delete_eq)
      ultimately show ?thesis unfolding e by blast
    next
      case False
      then have "evict d = d" using evict_eq(2) [of k start n d'] unfolding d by simp
      then show ?thesis using False 1(2) by simp
    qed
  qed
qed

lemma make_room_props:
  "distinct (map fst d) \<Longrightarrow> distinct (map fst (make_room now d)) \<and> length (make_room now d) < login_max_keys \<and> set (make_room now d) \<subseteq> set d"
proof (cases "login_max_keys \<le> length d")
  case True
  let ?f = "filter (\<lambda>e. \<not> window_over now (fst (snd e))) d"
  assume "distinct (map fst d)"
  then have "distinct (map fst ?f)" by (induction d) auto
  then show ?thesis using evict_props [of ?f] True by (auto simp: make_room_def)
qed (simp add: make_room_def)

lemma record_failure_props:
  assumes "distinct (map fst d)" "length d \<le> login_max_keys"
  shows "distinct (map fst (login_record_failure ip now d))" "length (login_record_failure ip now d) \<le> login_max_keys"
proof -
  note r = make_room_props [OF assms(1), of now]
  have in_place: "length (AList.update ip v d) = length d" if "map_of d ip \<noteq> None" for v
    using that assms(1) distinct_length [of d] distinct_length [of "AList.update ip v d"]
    by (simp add: update_keys distinct_update insert_absorb map_of_eq_None_iff)
  show "distinct (map fst (login_record_failure ip now d))"
    using assms(1) r by (auto simp: login_record_failure_def distinct_update split: option.splits)
  show "length (login_record_failure ip now d) \<le> login_max_keys"
    using assms(2) r update_length [of ip "(now, 1)" "make_room now d"] in_place
    by (auto simp: login_record_failure_def split: option.splits)
qed

subsection \<open>Windows\<close>

lemma window_over_mono: "window_over t s \<Longrightarrow> t \<le> t' \<Longrightarrow> s' \<le> s \<Longrightarrow> window_over t' s'"
proof -
  assume w: "window_over t s" "t \<le> t'" "s' \<le> s"
  have "f_le (f64 (t - s)) (f64 (t' - s'))" using w(2, 3) by (intro f64_mono) linarith
  then show ?thesis using w(1) unfolding window_over_def login_window_def f_sub_Fin by (rule f_le_trans [rotated])
qed

lemma window_not_over: "\<not> window_over t t"
  by (simp add: window_over_def login_window_def f64_def)

subsection \<open>Runs\<close>

text \<open>Any interleaving: the clock, the state, the failures so far with their peers and instants, and the peers that
  succeeded.\<close>

inductive login_run :: "rat \<Rightarrow> login_state \<Rightarrow> (string \<times> rat) list \<Rightarrow> string set \<Rightarrow> bool" where
  Boot: "login_run now reset_login_throttle [] {}"
| Attempt: "login_run t s fails won \<Longrightarrow> t \<le> now \<Longrightarrow> login_run now (snd (login_attempt ip now s)) fails won"
| Refused: "login_run t s fails won \<Longrightarrow> t \<le> now \<Longrightarrow> ip \<in> lg_inflight s \<Longrightarrow>
    login_run now (snd (login_verdict mac ip (Ok False) env active now clock s)) (fails @ [(ip, now)]) won"
| Accepted: "login_run t s fails won \<Longrightarrow> t \<le> now \<Longrightarrow> ip \<in> lg_inflight s \<Longrightarrow>
    login_run now (snd (login_verdict mac ip (Ok True) env active now clock s)) fails (insert ip won)"
| Crashed: "login_run t s fails won \<Longrightarrow> t \<le> now \<Longrightarrow> ip \<in> lg_inflight s \<Longrightarrow>
    login_run now (snd (login_verdict mac ip (Raise e) env active now clock s)) fails won"
| Cancelled: "login_run t s fails won \<Longrightarrow> t \<le> now \<Longrightarrow> ip \<in> lg_inflight s \<Longrightarrow> login_run now (login_cancelled ip s) fails won"

inductive_cases login_runE: "login_run now s fails won"

lemma verdict_state [simp]:
  "lg_inflight (snd (login_verdict mac ip v env active now clock s)) = lg_inflight s - {ip}"
  "lg_failures (snd (login_verdict mac ip (Ok False) env active now clock s)) = login_record_failure ip now (lg_failures s)"
  "lg_failures (snd (login_verdict mac ip (Ok True) env active now clock s)) = AList.delete ip (lg_failures s)"
  "lg_failures (snd (login_verdict mac ip (Raise e) env active now clock s)) = lg_failures s"
  "lg_failures (login_cancelled ip s) = lg_failures s" "lg_inflight (login_cancelled ip s) = lg_inflight s - {ip}"
  by (simp_all add: login_verdict_def login_cancelled_def login_record_success_def Let_def split: sum.splits)

lemma attempt_state:
  "lg_failures (snd (login_attempt ip now s)) = lg_failures s"
  "lg_inflight (snd (login_attempt ip now s)) = (if fst (login_attempt ip now s) = Ok Checking then insert ip (lg_inflight s) else lg_inflight s)"
  by (simp_all add: login_attempt_def split: sum.splits option.splits)

lemma attempt_checks:
  "fst (login_attempt ip now s) = Ok Checking \<longleftrightarrow> login_retry_after ip now (lg_failures s) = Ok None \<and> ip \<notin> lg_inflight s
     \<and> card (lg_inflight s) < login_max_inflight"
  by (auto simp: login_attempt_def split: sum.splits option.splits)

definition login_bounded :: "login_state \<Rightarrow> bool" where
  "login_bounded s \<longleftrightarrow> finite (lg_inflight s) \<and> card (lg_inflight s) \<le> login_max_inflight
     \<and> distinct (map fst (lg_failures s)) \<and> length (lg_failures s) \<le> login_max_keys"

lemma login_run_bounded: "login_run now s fails won \<Longrightarrow> login_bounded s"
proof (induction rule: login_run.induct)
  case (Boot now)
  then show ?case by (simp add: login_bounded_def reset_login_throttle_def)
next
  case (Attempt t s fails won now ip)
  then show ?case by (auto simp: login_bounded_def attempt_state attempt_checks card_insert_if)
next
  case (Refused t s fails won now ip mac env active clock)
  then show ?case using record_failure_props [of "lg_failures s" ip now] by (auto simp: login_bounded_def card_Diff_singleton_if)
next
  case (Accepted t s fails won now ip mac env active clock)
  have "length (AList.delete ip (lg_failures s)) \<le> length (lg_failures s)" by (simp add: AList.delete_eq)
  then show ?case using Accepted by (auto simp: login_bounded_def card_Diff_singleton_if distinct_delete)
qed (auto simp: login_bounded_def card_Diff_singleton_if)

subsection \<open>The windows of one peer\<close>

definition fails_of :: "string \<Rightarrow> (string \<times> rat) list \<Rightarrow> rat list" where
  "fails_of ip fails = map snd (filter (\<lambda>f. fst f = ip) fails)"

lemma fails_of_snoc [simp]: "fails_of ip (fails @ [(ip', t)]) = (if ip' = ip then fails_of ip fails @ [t] else fails_of ip fails)"
  by (simp add: fails_of_def)

text \<open>The failures of a peer fall into windows: \<open>S\<close> holds where windows start, the last at \<open>m\<close>.\<close>

definition windows :: "rat list \<Rightarrow> (rat \<times> nat) option \<Rightarrow> bool" where
  "windows ts e \<longleftrightarrow> (case e of None \<Rightarrow> ts = [] | Some (w, n) \<Rightarrow>
     \<exists>S m. m \<in> S \<and> (\<forall>j \<in> S. j \<le> m) \<and> m < length ts \<and> ts ! m = w \<and> m + n = length ts \<and> n \<le> login_max_failures
       \<and> (\<forall>i. i + 5 < length ts \<longrightarrow> (\<exists>j \<in> S. i < j \<and> j \<le> i + 5))
       \<and> (\<forall>j \<in> S. \<forall>k \<in> S. j < k \<longrightarrow> window_over (ts ! k) (ts ! j)))"

lemma windows_first: "windows [now] (Some (now, 1))"
  unfolding windows_def by (simp add: login_max_failures_def exI [of _ "{0}"])

lemma windows_next:
  assumes "windows ts (Some (w, n))" "sorted ts" "window_over now w" shows "windows (ts @ [now]) (Some (now, 1))"
proof -
  obtain S m where S: "m \<in> S" "\<forall>j \<in> S. j \<le> m" "m < length ts" "ts ! m = w" "\<forall>i. i + 5 < length ts \<longrightarrow> (\<exists>j \<in> S. i < j \<and> j \<le> i + 5)"
    "\<forall>j \<in> S. \<forall>k \<in> S. j < k \<longrightarrow> window_over (ts ! k) (ts ! j)" using assms(1) unfolding windows_def by auto
  have lt: "j < length ts" if "j \<in> S" for j using S(2, 3) that by fastforce
  have over: "window_over now (ts ! j)" if "j \<in> S" for j
  proof -
    have "ts ! j \<le> w" using sorted_nth_mono [OF assms(2), of j m] S(2, 3, 4) that by auto
    then show ?thesis using window_over_mono [OF assms(3), of now "ts ! j"] by simp
  qed
  have gap: "\<exists>j \<in> insert (length ts) S. i < j \<and> j \<le> i + 5" if "i + 5 < length (ts @ [now])" for i
    using S(5) that by (cases "i + 5 < length ts") auto
  have pairs: "window_over ((ts @ [now]) ! k) ((ts @ [now]) ! j)" if "j \<in> insert (length ts) S" "k \<in> insert (length ts) S" "j < k" for j k
    using that over S(6) lt by (auto simp: nth_append)
  have last: "\<forall>j \<in> insert (length ts) S. j \<le> length ts" by (auto dest: lt intro: less_imp_le)
  show ?thesis unfolding windows_def option.case prod.case
    by (rule exI [of _ "insert (length ts) S"], rule exI [of _ "length ts"])
      (use gap pairs last in \<open>simp add: login_max_failures_def nth_append\<close>)
qed

lemma windows_grow:
  assumes "windows ts (Some (w, n))" "n < login_max_failures" shows "windows (ts @ [now]) (Some (w, n + 1))"
proof -
  obtain S m where S: "m \<in> S" "\<forall>j \<in> S. j \<le> m" "m < length ts" "ts ! m = w" "m + n = length ts" "\<forall>i. i + 5 < length ts \<longrightarrow> (\<exists>j \<in> S. i < j \<and> j \<le> i + 5)"
    "\<forall>j \<in> S. \<forall>k \<in> S. j < k \<longrightarrow> window_over (ts ! k) (ts ! j)" using assms(1) unfolding windows_def by auto
  have lt: "j < length ts" if "j \<in> S" for j using S(2, 3) that by fastforce
  have gap: "\<exists>j \<in> S. i < j \<and> j \<le> i + 5" if "i + 5 < length (ts @ [now])" for i
  proof (cases "i + 5 < length ts")
    case False
    then have "i + 5 = length ts" using that by simp
    then have "i < m \<and> m \<le> i + 5" using S(3, 5) assms(2) by (simp add: login_max_failures_def)
    then show ?thesis using S(1) by blast
  qed (use S(6) in blast)
  have pairs: "window_over ((ts @ [now]) ! k) ((ts @ [now]) ! j)" if "j \<in> S" "k \<in> S" "j < k" for j k
    using that S(7) lt by (simp add: nth_append)
  have "(ts @ [now]) ! m = w" using S(3, 4) by (simp add: nth_append)
  then show ?thesis unfolding windows_def option.case prod.case
    by (intro exI [of _ S] exI [of _ m]) (use S(1, 2, 3, 5) gap pairs assms(2) in simp)
qed

lemma windows_apart:
  assumes "windows ts e" "sorted ts" "i + 10 < length ts" shows "window_over (ts ! (i + 10)) (ts ! i)"
proof -
  obtain w n where "e = Some (w, n)" using assms(1, 3) by (cases e) (auto simp: windows_def)
  then obtain S where S: "\<forall>i. i + 5 < length ts \<longrightarrow> (\<exists>j \<in> S. i < j \<and> j \<le> i + 5)" "\<forall>j \<in> S. \<forall>k \<in> S. j < k \<longrightarrow> window_over (ts ! k) (ts ! j)"
    using assms(1) unfolding windows_def by auto
  have "i + 5 < length ts" using assms(3) by simp
  then obtain j where j: "j \<in> S" "i < j" "j \<le> i + 5" using S(1) by blast
  then have "j + 5 < length ts" using assms(3) by simp
  then obtain k where k: "k \<in> S" "j < k" "k \<le> j + 5" using S(1) by blast
  have "window_over (ts ! k) (ts ! j)" using S(2) j(1) k(1, 2) by blast
  moreover have "ts ! k \<le> ts ! (i + 10)" "ts ! i \<le> ts ! j" using sorted_nth_mono [OF assms(2)] j k assms(3) by simp_all
  ultimately show ?thesis by (rule window_over_mono)
qed

definition attempt_open :: "rat \<Rightarrow> (rat \<times> nat) option \<Rightarrow> bool" where
  "attempt_open t e \<longleftrightarrow> (case e of None \<Rightarrow> True | Some (w, n) \<Rightarrow> n < login_max_failures \<or> window_over t w)"

lemma attempt_open_later: "attempt_open t e \<Longrightarrow> t \<le> t' \<Longrightarrow> attempt_open t' e"
  using window_over_mono by (fastforce simp: attempt_open_def split: option.splits)

lemma retry_open: "login_retry_after ip now d = Ok None \<longleftrightarrow> attempt_open now (map_of d ip)"
  by (auto simp: login_retry_after_def attempt_open_def rmap_Ok_iff split: option.splits)

definition peer_ok :: "string \<Rightarrow> rat \<Rightarrow> login_state \<Rightarrow> (string \<times> rat) list \<Rightarrow> bool" where
  "peer_ok ip t s fails \<longleftrightarrow> sorted (fails_of ip fails) \<and> (\<forall>x \<in> set (fails_of ip fails). x \<le> t)
     \<and> windows (fails_of ip fails) (map_of (lg_failures s) ip) \<and> (ip \<in> lg_inflight s \<longrightarrow> attempt_open t (map_of (lg_failures s) ip))"

lemma peer_later: "peer_ok ip t s fails \<Longrightarrow> t \<le> t' \<Longrightarrow> peer_ok ip t' s fails"
  using attempt_open_later by (fastforce simp: peer_ok_def)

lemma record_other: "ip' \<noteq> ip \<Longrightarrow> make_room now d = d \<Longrightarrow> map_of (login_record_failure ip' now d) ip = map_of d ip"
  by (auto simp: login_record_failure_def update_conv' split: option.splits)

lemma peer_refused:
  assumes "peer_ok ip now s fails" "ip \<in> lg_inflight s" "make_room now (lg_failures s) = lg_failures s"
  shows "windows (fails_of ip fails @ [now]) (map_of (login_record_failure ip now (lg_failures s)) ip)"
proof -
  have p: "sorted (fails_of ip fails)" "windows (fails_of ip fails) (map_of (lg_failures s) ip)" "attempt_open now (map_of (lg_failures s) ip)"
    using assms(1, 2) by (simp_all add: peer_ok_def)
  show ?thesis
  proof (cases "map_of (lg_failures s) ip")
    case None
    then have "fails_of ip fails = []" using p(2) by (simp add: windows_def)
    then show ?thesis using windows_first None assms(3) by (simp add: login_record_failure_def update_conv')
  next
    case (Some e)
    obtain w n where e: "map_of (lg_failures s) ip = Some (w, n)" using Some by (cases e) auto
    show ?thesis
    proof (cases "window_over now w")
      case True
      then show ?thesis using windows_next [OF p(2) [unfolded e] p(1) True] e assms(3) by (simp add: login_record_failure_def update_conv')
    next
      case False
      then have "n < login_max_failures" using p(3) e by (simp add: attempt_open_def)
      then show ?thesis using windows_grow [OF p(2) [unfolded e]] e False by (simp add: login_record_failure_def update_conv')
    qed
  qed
qed

lemma run_peers:
  "login_run t s fails won \<Longrightarrow> card (fst ` set fails) < login_max_keys \<Longrightarrow> fst ` set (lg_failures s) \<subseteq> fst ` set fails \<and> (ip \<notin> won \<longrightarrow> peer_ok ip t s fails)"
proof (induction rule: login_run.induct)
  case (Boot now)
  then show ?case by (simp add: reset_login_throttle_def peer_ok_def fails_of_def windows_def)
next
  case (Attempt t s fails won now ip')
  have "attempt_open now (map_of (lg_failures s) ip)" if "fst (login_attempt ip now s) = Ok Checking"
    using that unfolding attempt_checks retry_open by blast
  then show ?case using Attempt peer_later [of ip t s fails now] by (auto simp: peer_ok_def attempt_state split: if_splits)
next
  case (Refused t s fails won now ip' mac env active clock)
  have c: "card (fst ` set fails) < login_max_keys" using Refused.prems by (simp add: card_insert_if split: if_splits)
  then have sub: "fst ` set (lg_failures s) \<subseteq> fst ` set fails" using Refused.IH by blast
  have "length (lg_failures s) = card (fst ` set (lg_failures s))"
    using login_run_bounded [OF Refused.hyps(1)] distinct_length unfolding login_bounded_def by blast
  also have "\<dots> < login_max_keys" using card_mono [OF _ sub] c by simp
  finally have room: "make_room now (lg_failures s) = lg_failures s" by (simp add: make_room_def)
  have keys: "fst ` set (login_record_failure ip' now (lg_failures s)) \<subseteq> insert ip' (fst ` set (lg_failures s))"
    by (auto simp: login_record_failure_def room update_keys split: option.splits)
  have "peer_ok ip now (snd (login_verdict mac ip' (Ok False) env active now clock s)) (fails @ [(ip', now)])" if "ip \<notin> won"
  proof -
    have p: "peer_ok ip now s fails" using Refused.IH c that peer_later [OF _ Refused.hyps(2)] by blast
    show ?thesis
    proof (cases "ip' = ip")
      case True
      then show ?thesis using p peer_refused [OF p _ room] Refused.hyps(3) by (auto simp: peer_ok_def sorted_append)
    next
      case False
      then show ?thesis using p record_other [OF False room] by (auto simp: peer_ok_def)
    qed
  qed
  then show ?case using keys sub by auto
next
  case (Accepted t s fails won now ip' mac env active clock)
  have "fst ` set (AList.delete ip' (lg_failures s)) \<subseteq> fst ` set fails"
    using delete_keys [of ip' "lg_failures s"] Accepted.IH [OF Accepted.prems] by (meson subset_trans)
  moreover have "ip \<notin> insert ip' won \<longrightarrow> peer_ok ip now (snd (login_verdict mac ip' (Ok True) env active now clock s)) fails"
    using Accepted peer_later [of ip t s fails now] by (auto simp: peer_ok_def delete_map_of)
  ultimately show ?case by simp
next
  case (Crashed t s fails won now ip' mac e env active clock)
  then show ?case using peer_later [of ip t s fails now] by (auto simp: peer_ok_def)
next
  case (Cancelled t s fails won now ip')
  then show ?case using peer_later [of ip t s fails now] by (auto simp: peer_ok_def)
qed

end
