(* ===== verification/LoginClaims.thy ===== *)
theory LoginClaims
  imports LoginFacts SessionFacts
begin

text \<open>
  The properties of signing in: bounded work, bounded guessing, and a setup that happens once.
\<close>

definition no_mac :: mac where
  "no_mac k m = []"

definition open_settings :: auth_settings where
  "open_settings = \<lparr>as_enabled = True, as_username = [], as_password_hash = [], as_session_secret = [], as_ttl = 100, as_production = False\<rparr>"

text \<open>One peer that guesses wrong.\<close>

definition guess :: "string \<Rightarrow> rat \<Rightarrow> login_state \<Rightarrow> login_state" where
  "guess ip now s = snd (login_verdict no_mac ip (Ok False) open_settings None now 0 (snd (login_attempt ip now s)))"

lemma guess_run:
  assumes "login_run t s fails won" "t \<le> now" "ip \<in> lg_inflight (snd (login_attempt ip now s))"
  shows "login_run now (guess ip now s) (fails @ [(ip, now)]) won"
  unfolding guess_def by (rule login_run.Refused [OF login_run.Attempt [OF assms(1, 2)] order_refl assms(3)])

definition one_guess :: login_state where "one_guess = guess ''a'' 1 reset_login_throttle"
definition two_guesses :: login_state where "two_guesses = guess ''a'' 400 one_guess"

lemma sample_guesses: "login_run 400 two_guesses [(''a'', 1), (''a'', 400)] {}"
proof -
  have "''a'' \<in> lg_inflight (snd (login_attempt ''a'' 1 reset_login_throttle))" "''a'' \<in> lg_inflight (snd (login_attempt ''a'' 400 one_guess))" by code_simp+
  then have "login_run 400 (guess ''a'' 400 (guess ''a'' 1 reset_login_throttle)) (([] @ [(''a'', 1)]) @ [(''a'', 400)]) {}"
    using guess_run [OF guess_run [OF login_run.Boot [of 1]]] by (simp add: one_guess_def)
  then show ?thesis by (simp add: two_guesses_def one_guess_def)
qed

text \<open>C22: However requests to sign in interleave, fail, crash or are cancelled, at most four password checks run at a time
  and the table of failures never has more than 1024 peers; a request that would exceed this, that comes from a peer with
  a check running, or from one with five failures in its window is turned away without a check.\<close>

theorem login_work_bounded:
  assumes "login_run t s fails won"
  shows "card (lg_inflight s) \<le> 4 \<and> length (lg_failures s) \<le> 1024
    \<and> (fst (login_attempt ip now s) = Ok Checking) =
        (ip \<notin> lg_inflight s \<and> card (lg_inflight s) < 4
         \<and> (case map_of (lg_failures s) ip of Some (start, n) \<Rightarrow> n < 5 \<or> window_over now start | None \<Rightarrow> True))
    \<and> lg_inflight (snd (login_attempt ip now s)) = (if fst (login_attempt ip now s) = Ok Checking then insert ip (lg_inflight s) else lg_inflight s)"
  using login_run_bounded [OF assms] attempt_checks [of ip now s] attempt_state [of ip now s] retry_open [of ip now "lg_failures s"]
  unfolding login_bounded_def login_max_inflight_def login_max_keys_def attempt_open_def login_max_failures_def by auto

lemma login_work_bounded_witness: "fst (login_attempt ''b'' 401 two_guesses) = Ok Checking"
proof -
  have "''b'' \<notin> lg_inflight two_guesses" "card (lg_inflight two_guesses) < 4" "map_of (lg_failures two_guesses) ''b'' = None" by code_simp+
  then show ?thesis using login_work_bounded [OF sample_guesses, of "''b''" 401] by simp
qed







end
