(* ===== verification/BodyLimit.thy ===== *)
theory BodyLimit
  imports Prelude
begin

text \<open>
  The cap on request bodies of \<^verbatim>\<open>app/api/request_limits.py\<close>.  The messages a client sends are a list, read one at a
  time; what the middleware does is turned away with 413, the application run on the messages read so far, or waiting
  for a client that sends no more.
\<close>

datatype message = Disconnect | Request "nat list" bool | Other_Message

definition max_request_body_bytes :: nat where "max_request_body_bytes = 64 * 1024"

text \<open>A header is a name and a value, both bytes; \<^verbatim>\<open>bytes.strip\<close>, \<^verbatim>\<open>bytes.lower\<close> and \<^verbatim>\<open>bytes.isdigit\<close> are ASCII.\<close>

type_synonym headers = "(nat list \<times> nat list) list"

definition byte_space :: "nat \<Rightarrow> bool" where
  "byte_space b \<longleftrightarrow> 9 \<le> b \<and> b \<le> 13 \<or> b = 32"

definition bytes_strip :: "nat list \<Rightarrow> nat list" where
  "bytes_strip s = rev (dropWhile byte_space (rev (dropWhile byte_space s)))"

definition bytes_lower :: "nat list \<Rightarrow> nat list" where
  "bytes_lower s = map (\<lambda>b. if 65 \<le> b \<and> b \<le> 90 then b + 32 else b) s"

definition bytes_isdigit :: "nat list \<Rightarrow> bool" where
  "bytes_isdigit s \<longleftrightarrow> s \<noteq> [] \<and> list_all (\<lambda>b. 48 \<le> b \<and> b \<le> 57) s"

definition content_length :: "nat list" where
  "content_length = map of_char ''content-length''"

definition decimal_value :: "nat list \<Rightarrow> nat" where
  "decimal_value s = foldl (\<lambda>a b. a * 10 + (b - 48)) 0 s"

text \<open>More than 4300 digits are refused by \<^verbatim>\<open>int\<close>.\<close>

definition declared_body_is_too_large :: "nat \<Rightarrow> headers \<Rightarrow> bool" where
  "declared_body_is_too_large maximum hs =
     (let raw = map (bytes_strip \<circ> snd) (filter (\<lambda>h. bytes_lower (fst h) = content_length) hs) in
      case raw of
        [] \<Rightarrow> False
      | [v] \<Rightarrow> if \<not> bytes_isdigit v then True else if 4300 < length v then True else maximum < decimal_value v
      | _ \<Rightarrow> True)"

datatype intake = Too_Large | Read "message list" | Waiting

text \<open>The loop: the messages read so far and the bytes in them.\<close>

fun read_body :: "nat \<Rightarrow> message list \<Rightarrow> nat \<Rightarrow> message list \<Rightarrow> intake" where
  "read_body maximum got n [] = Waiting"
| "read_body maximum got n (m # ms) = (case m of
      Disconnect \<Rightarrow> Read (got @ [m])
    | Other_Message \<Rightarrow> read_body maximum (got @ [m]) n ms
    | Request body more \<Rightarrow>
        if maximum < n + length body then Too_Large
        else if \<not> more then Read (got @ [m])
        else read_body maximum (got @ [m]) (n + length body) ms)"

datatype 'a outcome_of = Answer_413 | Application 'a | Blocked

text \<open>The application reads the kept messages and then empty requests; a connection that is no HTTP request is passed on.\<close>

definition replay :: "message list \<Rightarrow> nat \<Rightarrow> message" where
  "replay got i = (if i < length got then got ! i else Request [] False)"

definition limit_request :: "nat \<Rightarrow> bool \<Rightarrow> headers \<Rightarrow> message list \<Rightarrow> (nat \<Rightarrow> message) outcome_of" where
  "limit_request maximum is_http hs ms =
     (if \<not> is_http then Application (\<lambda>i. if i < length ms then ms ! i else Disconnect)
      else if declared_body_is_too_large maximum hs then Answer_413
      else case read_body maximum [] 0 ms of
          Too_Large \<Rightarrow> Answer_413 | Read got \<Rightarrow> Application (replay got) | Waiting \<Rightarrow> Blocked)"

subsection \<open>What the application sees\<close>

fun body_bytes :: "message list \<Rightarrow> nat" where
  "body_bytes [] = 0"
| "body_bytes (Request b more # ms) = length b + body_bytes ms"
| "body_bytes (m # ms) = body_bytes ms"

definition ends_request :: "message \<Rightarrow> bool" where
  "ends_request m \<longleftrightarrow> (case m of Disconnect \<Rightarrow> True | Request b more \<Rightarrow> \<not> more | Other_Message \<Rightarrow> False)"

text \<open>The messages up to the one that ends the request.\<close>

fun whole_request :: "message list \<Rightarrow> message list option" where
  "whole_request [] = None"
| "whole_request (m # ms) = (if ends_request m then Some [m] else map_option (Cons m) (whole_request ms))"

lemma read_body_sound:
  "read_body maximum got n ms = Read got' \<Longrightarrow> n \<le> maximum \<Longrightarrow> \<exists>r. whole_request ms = Some r \<and> got' = got @ r \<and> n + body_bytes r \<le> maximum"
proof (induction ms arbitrary: got n)
  case (Cons m ms)
  show ?case
  proof (cases m)
    case Other_Message
    then show ?thesis using Cons.IH [of "got @ [m]" n] Cons.prems by (auto simp: ends_request_def)
  next
    case (Request body more)
    then show ?thesis using Cons.IH [of "got @ [m]" "n + length body"] Cons.prems by (auto simp: ends_request_def split: if_splits)
  qed (use Cons.prems in \<open>simp add: ends_request_def\<close>)
qed simp

lemma read_body_complete:
  "whole_request ms = Some r \<Longrightarrow> read_body maximum got n ms = (if maximum < n + body_bytes r \<and> 0 < body_bytes r then Too_Large else Read (got @ r))"
  if "n \<le> maximum" for n
  using that
proof (induction ms arbitrary: got n r)
  case (Cons m ms)
  show ?case
  proof (cases m)
    case Other_Message
    then obtain r' where "whole_request ms = Some r'" "r = m # r'" using Cons.prems by (auto simp: ends_request_def)
    then show ?thesis using Cons.IH [of r' n "got @ [m]"] Cons.prems(2) Other_Message by simp
  next
    case (Request body more)
    show ?thesis
    proof (cases more)
      case True
      then obtain r' where r: "whole_request ms = Some r'" "r = m # r'" using Cons.prems Request by (auto simp: ends_request_def)
      show ?thesis
      proof (cases "maximum < n + length body")
        case False
        then show ?thesis using Cons.IH [OF r(1), of "n + length body" "got @ [m]"] r Request True by auto
      qed (use r Request Cons.prems(2) in auto)
    next
      case False
      then have "r = [m]" using Cons.prems Request by (simp add: ends_request_def)
      then show ?thesis using Request False Cons.prems(2) by auto
    qed
  qed (use Cons.prems in \<open>auto simp: ends_request_def\<close>)
qed simp

text \<open>C25: An HTTP request reaches the application exactly when its declared length, if any, is one decimal number within
  the limit and the bytes up to its end are within it too, and then the application reads exactly the messages the client
  sent; a request over the limit is answered 413 however it is chunked and whatever it declares.\<close>

theorem body_limit_exact:
  assumes "whole_request ms = Some r"
  shows "limit_request maximum True hs ms =
    (if \<not> declared_body_is_too_large maximum hs \<and> body_bytes r \<le> maximum then Application (replay r) else Answer_413)"
  using read_body_complete [of 0 maximum ms r "[]"] assms by (auto simp: limit_request_def)

lemma body_limit_exact_witness:
  "limit_request 4 True [(content_length, [51])] [Request [1, 2] True, Other_Message, Request [3] False, Disconnect]
     = Application (replay [Request [1, 2] True, Other_Message, Request [3] False])
   \<and> limit_request 4 True [] [Request [1, 2] True, Request [3, 4, 5] False] = Answer_413"
proof -
  have "whole_request [Request [1, 2] True, Other_Message, Request [3] False, Disconnect] = Some [Request [1, 2] True, Other_Message, Request [3] False]"
    "whole_request [Request [1, 2] True, Request [3, 4, 5 :: nat] False] = Some [Request [1, 2] True, Request [3, 4, 5] False]"
    "\<not> declared_body_is_too_large 4 [(content_length, [51])]" by code_simp+
  then show ?thesis using body_limit_exact [of _ _ 4 "[(content_length, [51])]"] body_limit_exact [of _ _ 4 "[]"]
    by (simp add: declared_body_is_too_large_def)
qed

end
