(* ===== verification/HttpSafety.thy ===== *)
theory HttpSafety
  imports WebJson PyText
begin

text \<open>
  Bounded, same-origin HTTPS fetches, \<^verbatim>\<open>app/ingestion/http_safety.py\<close>: the parts of a URL as \<^verbatim>\<open>urllib.parse\<close> splits
  and joins them, the origin policy, the sink that caps a body, and the loop that follows redirects by hand.  The
  network is an argument, and so are the address parser of the standard library, its compatibility check of the
  network location, and \<^verbatim>\<open>urljoin\<close>.
\<close>

subsection \<open>Parts of a URL\<close>

record url_parts =
  up_scheme :: string
  up_netloc :: string
  up_path :: string
  up_params :: string
  up_query :: string
  up_fragment :: string

definition is_control_or_space :: "char \<Rightarrow> bool" where
  "is_control_or_space c \<longleftrightarrow> code c \<le> 32"

text \<open>\<^verbatim>\<open>s.partition(c)\<close>: before and after the first \<open>c\<close>, if there is one.\<close>

definition cut_at :: "char \<Rightarrow> string \<Rightarrow> string \<times> string option" where
  "cut_at c s = (takeWhile (\<lambda>x. x \<noteq> c) s, case dropWhile (\<lambda>x. x \<noteq> c) s of [] \<Rightarrow> None | _ # r \<Rightarrow> Some r)"

text \<open>\<^verbatim>\<open>s.rpartition(c)\<close>.\<close>

definition rcut :: "char \<Rightarrow> string \<Rightarrow> string option \<times> string" where
  "rcut c s = (case cut_at c (rev s) of (a, None) \<Rightarrow> (None, s) | (a, Some b) \<Rightarrow> (Some (rev b), rev a))"

definition or_empty :: "string option \<Rightarrow> string" where
  "or_empty s = (case s of None \<Rightarrow> [] | Some t \<Rightarrow> t)"

definition scheme_char :: "char \<Rightarrow> bool" where
  "scheme_char c \<longleftrightarrow> is_ascii c \<and> is_alnum_ascii c \<or> c \<in> {CHR ''+'', CHR ''-'', CHR ''.''}"

text \<open>The scheme, lowered, and what follows it.\<close>

definition split_scheme :: "string \<Rightarrow> string \<times> string" where
  "split_scheme url = (case cut_at CHR '':'' url of
       (s, Some r) \<Rightarrow> if s \<noteq> [] \<and> (is_lower_ascii (hd s) \<or> is_upper_ascii (hd s)) \<and> list_all scheme_char s then (lower s, r) else ([], url)
     | (_, None) \<Rightarrow> ([], url))"

definition ends_netloc :: "char \<Rightarrow> bool" where
  "ends_netloc c \<longleftrightarrow> c \<in> {CHR ''/'', CHR ''?'', CHR ''#''}"

text \<open>The environment of the parser: valid literal addresses, and network locations that stay what they are under NFKC.\<close>

record url_env =
  literal_ok :: "string \<Rightarrow> bool"
  netloc_ok :: "string \<Rightarrow> bool"

definition brackets_ok :: "url_env \<Rightarrow> string \<Rightarrow> bool" where
  "brackets_ok env netloc \<longleftrightarrow>
     (CHR ''['' \<in> set netloc) = (CHR '']'' \<in> set netloc)
     \<and> (CHR ''['' \<in> set netloc \<longrightarrow> literal_ok env (fst (cut_at CHR '']'' (or_empty (snd (cut_at CHR ''['' netloc))))))"

definition split_params :: "string \<Rightarrow> string \<times> string" where
  "split_params path = (case rcut CHR ''/'' path of
       (None, seg) \<Rightarrow> (case cut_at CHR '';'' seg of (a, b) \<Rightarrow> (a, or_empty b))
     | (Some before, seg) \<Rightarrow> (case cut_at CHR '';'' seg of
           (a, None) \<Rightarrow> (path, []) | (a, Some b) \<Rightarrow> (before @ ''/'' @ a, b)))"

definition params_schemes :: "string list" where
  "params_schemes = ['''', ''ftp'', ''hdl'', ''prospero'', ''http'', ''imap'', ''https'', ''shttp'', ''rtsp'', ''rtsps'', ''rtspu'', ''sip'', ''sips'', ''mms'', ''sftp'', ''tel'']"

definition urlparse :: "url_env \<Rightarrow> string \<Rightarrow> url_parts res" where
  "urlparse env url0 =
     (let url1 = filter (\<lambda>c. code c \<notin> {9, 10, 13}) (dropWhile is_control_or_space url0);
          (scheme, url2) = split_scheme url1;
          (netloc, url3) = (if startswith ''//'' url2 then (takeWhile (\<lambda>c. \<not> ends_netloc c) (drop 2 url2), dropWhile (\<lambda>c. \<not> ends_netloc c) (drop 2 url2))
            else ([], url2));
          (url4, fragment) = cut_at CHR ''#'' url3;
          (path, query) = cut_at CHR ''?'' url4 in
      if \<not> brackets_ok env netloc \<or> \<not> netloc_ok env netloc then Raise ValueError
      else let (path1, params) = (if scheme \<in> set params_schemes \<and> CHR '';'' \<in> set path then split_params path else (path, [])) in
        Ok \<lparr>up_scheme = scheme, up_netloc = netloc, up_path = path1, up_params = params, up_query = or_empty query, up_fragment = or_empty fragment\<rparr>)"

definition netloc_schemes :: "string list" where
  "netloc_schemes = ['''', ''ftp'', ''http'', ''gopher'', ''nntp'', ''telnet'', ''imap'', ''wais'', ''file'', ''mms'', ''https'', ''shttp'',
     ''snews'', ''prospero'', ''rtsp'', ''rtsps'', ''rtspu'', ''rsync'', ''svn'', ''svn+ssh'', ''sftp'', ''nfs'', ''git'', ''git+ssh'', ''ws'', ''wss'', ''itms-services'']"

definition geturl :: "url_parts \<Rightarrow> string" where
  "geturl p =
     (let u1 = (if up_params p \<noteq> [] then up_path p @ '';'' @ up_params p else up_path p);
          u2 = (if up_netloc p \<noteq> [] \<or> (up_scheme p \<noteq> [] \<and> up_scheme p \<in> set netloc_schemes) \<or> startswith ''//'' u1
            then ''//'' @ up_netloc p @ (if u1 \<noteq> [] \<and> \<not> startswith ''/'' u1 then ''/'' @ u1 else u1) else u1);
          u3 = (if up_scheme p \<noteq> [] then up_scheme p @ '':'' @ u2 else u2);
          u4 = (if up_query p \<noteq> [] then u3 @ ''?'' @ up_query p else u3) in
      if up_fragment p \<noteq> [] then u4 @ ''#'' @ up_fragment p else u4)"

text \<open>The host and the text of the port.\<close>

definition hostinfo :: "string \<Rightarrow> string \<times> string option" where
  "hostinfo netloc = (let h = snd (rcut CHR ''@'' netloc); (host, port) =
       (case cut_at CHR ''['' h of
          (_, Some bracketed) \<Rightarrow> (case cut_at CHR '']'' bracketed of (x, r) \<Rightarrow> (x, snd (cut_at CHR '':'' (or_empty r))))
        | (_, None) \<Rightarrow> cut_at CHR '':'' h) in
     (host, if port = Some [] then None else port))"

definition hostname :: "url_parts \<Rightarrow> string option" where
  "hostname p = (let h = fst (hostinfo (up_netloc p)) in
     if h = [] then None
     else Some (case cut_at CHR ''%'' h of (a, None) \<Rightarrow> lower a | (a, Some z) \<Rightarrow> lower a @ ''%'' @ z))"

definition port_number :: "url_parts \<Rightarrow> int option res" where
  "port_number p = (case snd (hostinfo (up_netloc p)) of
       None \<Rightarrow> Ok None
     | Some t \<Rightarrow> if \<not> list_all is_digit t then Raise ValueError
         else if max_str_digits < length t then Raise ValueError
         else if 65535 < digits_val t then Raise ValueError else Ok (Some (digits_val t)))"

definition username_given :: "url_parts \<Rightarrow> bool" where
  "username_given p \<longleftrightarrow> fst (rcut CHR ''@'' (up_netloc p)) \<noteq> None"

definition password_given :: "url_parts \<Rightarrow> bool" where
  "password_given p \<longleftrightarrow> (case fst (rcut CHR ''@'' (up_netloc p)) of None \<Rightarrow> False | Some u \<Rightarrow> snd (cut_at CHR '':'' u) \<noteq> None)"

subsection \<open>The origin policy\<close>

datatype http_error = Unsafe_Upstream_Url | Upstream_Body_Too_Large | Bad_Argument | Bad_Location | Transport

definition rstrip_dots :: "string \<Rightarrow> string" where
  "rstrip_dots s = rev (dropWhile (\<lambda>c. c = CHR ''.'') (rev s))"

definition validate_https_url :: "url_env \<Rightarrow> string list \<Rightarrow> string \<Rightarrow> http_error + string" where
  "validate_https_url env allowed_hosts url =
     (let allowed = map (\<lambda>h. rstrip_dots (lower h)) allowed_hosts in
      case urlparse env (strip url) of
        Inl e \<Rightarrow> Inl Unsafe_Upstream_Url
      | Inr p \<Rightarrow> (case port_number p of
            Inl e \<Rightarrow> Inl Unsafe_Upstream_Url
          | Inr port \<Rightarrow>
              if lower (up_scheme p) \<noteq> ''https'' \<or> rstrip_dots (lower (or_empty (hostname p))) \<notin> set allowed
                 \<or> username_given p \<or> password_given p \<or> port \<notin> {None, Some 443}
              then Inl Unsafe_Upstream_Url
              else Inr (geturl (p\<lparr>up_fragment := []\<rparr>))))"

subsection \<open>Fetching\<close>

text \<open>What one request brings: the chunks handed to the sink, whether the client raised, and the response.\<close>

record fetch =
  ft_chunks :: "bytes list"
  ft_raised :: bool
  ft_headers :: "string \<Rightarrow> string option"
  ft_fallback :: bytes
  ft_url :: string
  ft_status :: int

record body_sink =
  sk_body :: bytes
  sk_called :: bool
  sk_exceeded :: bool

definition bounded_body_sink :: "nat \<Rightarrow> body_sink \<Rightarrow> bytes \<Rightarrow> body_sink" where
  "bounded_body_sink max_bytes s chunk =
     (if max_bytes < length (sk_body s) + length chunk then s\<lparr>sk_called := True, sk_exceeded := True\<rparr>
      else s\<lparr>sk_body := sk_body s @ chunk, sk_called := True\<rparr>)"

definition new_sink :: body_sink where
  "new_sink = \<lparr>sk_body = [], sk_called = False, sk_exceeded = False\<rparr>"

definition header_value :: "(string \<Rightarrow> string option) \<Rightarrow> string \<Rightarrow> string option" where
  "header_value headers name = (case headers name of Some (c # v) \<Rightarrow> Some (c # v) | _ \<Rightarrow> headers (lower name))"

definition header_digit :: decimals where
  "header_digit c = (if is_num c then Some (c - 48) else None)"

definition declared_length :: "fetch \<Rightarrow> int option" where
  "declared_length f = (case header_value (ft_headers f) ''Content-Length'' of
       None \<Rightarrow> None
     | Some raw \<Rightarrow> (case int_of_text header_digit (map of_char raw) of None \<Rightarrow> None | Some v \<Rightarrow> if 0 \<le> v then Some v else None))"

definition redirect_statuses :: "int set" where
  "redirect_statuses = {301, 302, 303, 307, 308}"

record bounded_response =
  br_response :: fetch
  br_body :: bytes
  br_final_url :: string

text \<open>One request and its checks: an answer, or the URL to go to next.\<close>

definition fetch_once :: "url_env \<Rightarrow> (string \<Rightarrow> string \<Rightarrow> string option) \<Rightarrow> string list \<Rightarrow> nat \<Rightarrow> bool \<Rightarrow> string \<Rightarrow> fetch \<Rightarrow>
    http_error + (bounded_response + string)" where
  "fetch_once env urljoin allowed_hosts max_bytes last_try current f =
     (let s = foldl (bounded_body_sink max_bytes) new_sink (ft_chunks f) in
      if ft_raised f then (if sk_exceeded s then Inl Upstream_Body_Too_Large else Inl Transport)
      else if sk_exceeded s then Inl Upstream_Body_Too_Large
      else if (case declared_length f of Some n \<Rightarrow> int max_bytes < n | None \<Rightarrow> False) then Inl Upstream_Body_Too_Large
      else let body = (if sk_called s then sk_body s else ft_fallback f) in
        if max_bytes < length body then Inl Upstream_Body_Too_Large
        else (case validate_https_url env allowed_hosts (if ft_url f \<noteq> [] then ft_url f else current) of
            Inl e \<Rightarrow> Inl e
          | Inr final_url \<Rightarrow>
              if ft_status f \<notin> redirect_statuses
              then Inr (Inl \<lparr>br_response = f, br_body = body, br_final_url = final_url\<rparr>)
              else if last_try then Inl Unsafe_Upstream_Url
              else (case header_value (ft_headers f) ''Location'' of
                  Some (c # location) \<Rightarrow> (case urljoin final_url (c # location) of
                      None \<Rightarrow> Inl Bad_Location
                    | Some next \<Rightarrow> (case validate_https_url env allowed_hosts next of Inl e \<Rightarrow> Inl e | Inr u \<Rightarrow> Inr (Inr u)))
                | _ \<Rightarrow> Inl Unsafe_Upstream_Url)))"

text \<open>The loop over the redirects left; the second component is the list of URLs requested.\<close>

fun follow :: "url_env \<Rightarrow> (string \<Rightarrow> string \<Rightarrow> string option) \<Rightarrow> (string \<Rightarrow> nat \<Rightarrow> fetch) \<Rightarrow> string list \<Rightarrow> nat \<Rightarrow> nat \<Rightarrow> string \<Rightarrow>
    (http_error + bounded_response) \<times> string list" where
  "follow env urljoin net allowed_hosts max_bytes left current =
     (case fetch_once env urljoin allowed_hosts max_bytes (left = 0) current (net current left) of
        Inl e \<Rightarrow> (Inl e, [current])
      | Inr (Inl r) \<Rightarrow> (Inr r, [current])
      | Inr (Inr next) \<Rightarrow> (case left of
            0 \<Rightarrow> (Inl Unsafe_Upstream_Url, [current])
          | Suc n \<Rightarrow> (case follow env urljoin net allowed_hosts max_bytes n next of (r, urls) \<Rightarrow> (r, current # urls))))"

definition get_bounded :: "url_env \<Rightarrow> (string \<Rightarrow> string \<Rightarrow> string option) \<Rightarrow> (string \<Rightarrow> nat \<Rightarrow> fetch) \<Rightarrow> string list \<Rightarrow> int \<Rightarrow> int \<Rightarrow> string \<Rightarrow>
    (http_error + bounded_response) \<times> string list" where
  "get_bounded env urljoin net allowed_hosts max_bytes max_redirects url =
     (if max_bytes < 1 then (Inl Bad_Argument, [])
      else if max_redirects < 0 then (Inl Bad_Argument, [])
      else (case validate_https_url env allowed_hosts url of
          Inl e \<Rightarrow> (Inl e, [])
        | Inr current \<Rightarrow> follow env urljoin net allowed_hosts (nat max_bytes) (nat max_redirects) current))"

text \<open>The JSON clients: a stream that opens, its declared length, and its chunks up to the first that goes over.\<close>

fun take_chunks :: "nat \<Rightarrow> bytes \<Rightarrow> bytes list \<Rightarrow> bytes option" where
  "take_chunks max_bytes body [] = Some body"
| "take_chunks max_bytes body (c # cs) =
     (if max_bytes < length body + length c then None else take_chunks max_bytes (body @ c) cs)"

definition request_httpx_bounded :: "int \<Rightarrow> fetch option \<Rightarrow> http_error + (int \<times> (string \<Rightarrow> string option) \<times> bytes)" where
  "request_httpx_bounded max_bytes stream =
     (if max_bytes < 1 then Inl Bad_Argument
      else case stream of
          None \<Rightarrow> Inl Transport
        | Some f \<Rightarrow>
            if (case declared_length f of Some n \<Rightarrow> max_bytes < n | None \<Rightarrow> False) then Inl Upstream_Body_Too_Large
            else (case take_chunks (nat max_bytes) [] (ft_chunks f) of
                None \<Rightarrow> Inl Upstream_Body_Too_Large
              | Some body \<Rightarrow> if ft_raised f then Inl Transport
                  else Inr (ft_status f, (ft_headers f)(''content-encoding'' := None, ''content-length'' := None), body)))"

lemma take_chunks_eq:
  "length body \<le> max_bytes \<Longrightarrow> take_chunks max_bytes body cs = (if length body + length (concat cs) \<le> max_bytes then Some (body @ concat cs) else None)"
  by (induction cs arbitrary: body) auto

lemma request_httpx_bounded_body:
  assumes "request_httpx_bounded m stream = Inr (status, hs, body)"
  shows "\<exists>f. stream = Some f \<and> body = concat (ft_chunks f) \<and> int (length body) \<le> m \<and> status = ft_status f"
  using assms take_chunks_eq [of "[]" "nat m"]
  by (auto simp: request_httpx_bounded_def split: if_splits option.splits)

end
