(* ===== verification/HttpClaims.thy ===== *)
theory HttpClaims
  imports HttpSafety
begin

text \<open>
  What the fetch helper lets out of the process and into it.
\<close>

subsection \<open>Parts\<close>

lemma cut_cases:
  obtains (none) "cut_at c s = (s, None)" "c \<notin> set s"
    | (some) a b where "cut_at c s = (a, Some b)" "s = a @ c # b" "c \<notin> set a"
proof (cases "c \<in> set s")
  case True
  then obtain a b where s: "s = a @ c # b" "c \<notin> set a" using split_list_first by metis
  then have "takeWhile (\<lambda>x. x \<noteq> c) (a @ c # b) = a" "dropWhile (\<lambda>x. x \<noteq> c) (a @ c # b) = c # b"
    by (subst takeWhile_append2 dropWhile_append2; auto)+
  then show thesis using some s by (simp add: cut_at_def)
next
  case False
  then have "takeWhile (\<lambda>x. x \<noteq> c) s = s" "dropWhile (\<lambda>x. x \<noteq> c) s = []" by (auto simp: takeWhile_eq_all_conv)
  then have "cut_at c s = (s, None)" unfolding cut_at_def by (simp add: dropWhile_eq_Nil_conv [THEN iffD2])
  then show thesis using none False by blast
qed

lemma rcut_cases:
  obtains (none) "rcut c s = (None, s)" "c \<notin> set s"
    | (some) a b where "rcut c s = (Some a, b)" "s = a @ c # b" "c \<notin> set b"
proof (cases rule: cut_cases [of c "rev s"])
  case none
  then show thesis using that(1) by (simp add: rcut_def)
next
  case (some a b)
  have "s = rev b @ c # rev a" using arg_cong [OF some(2), of rev] by simp
  then show thesis using that(2) [of "rev b" "rev a"] some by (simp add: rcut_def)
qed

subsection \<open>The shape of a validated URL\<close>

definition normal_hosts :: "string list \<Rightarrow> string set" where
  "normal_hosts allowed_hosts = (\<lambda>h. rstrip_dots (lower h)) ` set allowed_hosts"

text \<open>The text of a URL on an allowed host: scheme, host, no port or 443, and nothing else before the path.\<close>

definition on_origin :: "string list \<Rightarrow> string \<Rightarrow> bool" where
  "on_origin allowed_hosts u \<longleftrightarrow> (\<exists>host port rest. u = ''https://'' @ host @ port @ rest
     \<and> rstrip_dots (lower host) \<in> normal_hosts allowed_hosts
     \<and> (port = [] \<or> (\<exists>d. port = '':'' @ d \<and> list_all is_digit d \<and> (d = [] \<or> digits_val d = 443)))
     \<and> (rest = [] \<or> hd rest = CHR ''/'' \<or> hd rest = CHR ''?''))"

definition no_literals :: "url_env \<Rightarrow> string list \<Rightarrow> bool" where
  "no_literals env allowed_hosts \<longleftrightarrow> (\<forall>h \<in> normal_hosts allowed_hosts. CHR ''%'' \<notin> set h)
     \<and> (\<forall>x. literal_ok env x \<longrightarrow> rstrip_dots (lower x) \<notin> normal_hosts allowed_hosts)"

lemma set_dropWhile_keeps: "c \<in> set s \<Longrightarrow> \<not> P c \<Longrightarrow> c \<in> set (dropWhile P s)"
  by (induction s) auto

lemma rstrip_percent: "CHR ''%'' \<in> set s \<Longrightarrow> CHR ''%'' \<in> set (rstrip_dots s)"
  using set_dropWhile_keeps [of "CHR ''%''" "rev s" "\<lambda>c. c = CHR ''.''"] by (simp add: rstrip_dots_def)

lemma hostname_plain:
  assumes "hostname p = Some x" "CHR ''%'' \<notin> set (rstrip_dots (lower x))"
  shows "lower x = lower (fst (hostinfo (up_netloc p)))"
proof (cases rule: cut_cases [of "CHR ''%''" "fst (hostinfo (up_netloc p))"])
  case none
  then have "x = lower (fst (hostinfo (up_netloc p)))" using assms(1) by (simp add: hostname_def Let_def split: if_splits)
  then show ?thesis by (simp add: lower_idem)
next
  case (some a t)
  then have "x = lower a @ ''%'' @ t" using assms(1) by (simp add: hostname_def Let_def split: if_splits)
  moreover have "lower_char CHR ''%'' = CHR ''%''" by code_simp
  ultimately have "CHR ''%'' \<in> set (lower x)" by (simp add: lower_def)
  then show ?thesis using rstrip_percent assms(2) by blast
qed

lemma netloc_shape:
  assumes "CHR ''['' \<notin> set netloc" "CHR ''@'' \<notin> set netloc" "hostinfo netloc = (host, port)"
  shows "\<exists>d. netloc = host @ d \<and> (case port of None \<Rightarrow> d = [] \<or> d = '':'' | Some t \<Rightarrow> d = '':'' @ t)"
proof -
  have h: "snd (rcut CHR ''@'' netloc) = netloc" by (cases rule: rcut_cases [of "CHR ''@''" netloc]) (use assms(2) in auto)
  have o: "cut_at CHR ''['' netloc = (netloc, None)" by (cases rule: cut_cases [of "CHR ''[''" netloc]) (use assms(1) in auto)
  show ?thesis
  proof (cases rule: cut_cases [of "CHR '':''" netloc])
    case none
    then show ?thesis using assms(3) o h by (simp add: hostinfo_def Let_def)
  next
    case (some a b)
    then show ?thesis using assms(3) o h by (auto simp: hostinfo_def Let_def split: if_splits)
  qed
qed

lemma path_head:
  assumes "path = [] \<or> hd path = CHR ''/''" "split_params path = (q, ps)"
  shows "q = [] \<and> path = [] \<and> ps = [] \<or> q \<noteq> [] \<and> hd q = CHR ''/''"
proof (cases rule: rcut_cases [of "CHR ''/''" path])
  case none
  then have "path = []" using assms(1) by (cases path) auto
  then show ?thesis using assms(2) by (simp add: split_params_def rcut_def cut_at_def or_empty_def)
next
  case (some b l)
  have "q = path \<or> (\<exists>x. q = b @ ''/'' @ x)" using assms(2) some(1) by (auto simp: split_params_def split: option.splits prod.splits)
  moreover have "path \<noteq> []" using some(2) by simp
  ultimately show ?thesis using some(2) assms(1) by (cases b) auto
qed

lemma parsed_parts:
  assumes "urlparse env url = Ok p" "up_scheme p = ''https''"
  shows "brackets_ok env (up_netloc p)" "up_path p = [] \<and> up_params p = [] \<or> up_path p \<noteq> [] \<and> hd (up_path p) = CHR ''/'' \<or> up_netloc p = []"
proof -
  let ?u1 = "filter (\<lambda>c. code c \<notin> {9, 10, 13}) (dropWhile is_control_or_space url)"
  obtain scheme u2 where s: "split_scheme ?u1 = (scheme, u2)" by fastforce
  obtain netloc u3 where n: "(if startswith ''//'' u2 then (takeWhile (\<lambda>c. \<not> ends_netloc c) (drop 2 u2), dropWhile (\<lambda>c. \<not> ends_netloc c) (drop 2 u2))
            else ([], u2)) = (netloc, u3)" by fastforce
  obtain u4 fr where f: "cut_at CHR ''#'' u3 = (u4, fr)" by fastforce
  obtain path query where q: "cut_at CHR ''?'' u4 = (path, query)" by fastforce
  obtain path1 params where pp: "(if scheme \<in> set params_schemes \<and> CHR '';'' \<in> set path then split_params path else (path, [])) = (path1, params)" by fastforce
  have p: "brackets_ok env netloc" "p = \<lparr>up_scheme = scheme, up_netloc = netloc, up_path = path1, up_params = params, up_query = or_empty query, up_fragment = or_empty fr\<rparr>"
    using assms(1) unfolding urlparse_def Let_def s prod.case n f q pp by (auto split: if_splits)
  show "brackets_ok env (up_netloc p)" using p by simp
  show "up_path p = [] \<and> up_params p = [] \<or> up_path p \<noteq> [] \<and> hd (up_path p) = CHR ''/'' \<or> up_netloc p = []"
  proof (cases "netloc = []")
    case False
    then have u3: "u3 = dropWhile (\<lambda>c. \<not> ends_netloc c) (drop 2 u2)" using n by (auto split: if_splits)
    have "u3 = [] \<or> ends_netloc (hd u3)" unfolding u3 using hd_dropWhile by blast
    then have "u4 = [] \<or> hd u4 = CHR ''/'' \<or> hd u4 = CHR ''?''"
      by (cases rule: cut_cases [of "CHR ''#''" u3]; cases u4) (use f in \<open>auto simp: ends_netloc_def\<close>)
    then have head: "path = [] \<or> hd path = CHR ''/''"
      by (cases rule: cut_cases [of "CHR ''?''" u4]; cases path) (use q in auto)
    show ?thesis using p(2) pp path_head [OF head, of path1 params] head by (auto split: if_splits)
  qed (use p(2) in simp)
qed

lemma validated_on_origin:
  assumes "validate_https_url env allowed_hosts url = Inr u" "no_literals env allowed_hosts" "[] \<notin> normal_hosts allowed_hosts"
  shows "on_origin allowed_hosts u"
proof -
  obtain p port where p: "urlparse env (strip url) = Ok p" "port_number p = Ok port" "lower (up_scheme p) = ''https''"
    and h: "rstrip_dots (lower (or_empty (hostname p))) \<in> normal_hosts allowed_hosts"
    and un: "\<not> username_given p" "port = None \<or> port = Some 443" and u: "u = geturl (p\<lparr>up_fragment := []\<rparr>)"
    using assms(1) unfolding validate_https_url_def Let_def by (auto simp: normal_hosts_def split: sum.splits if_splits)
  obtain x where x: "hostname p = Some x" using h assms(3) by (cases "hostname p") (auto simp: or_empty_def lower_def rstrip_dots_def)
  have pct: "CHR ''%'' \<notin> set (rstrip_dots (lower x))" using h x assms(2) by (auto simp: no_literals_def or_empty_def)
  obtain host t where hi: "hostinfo (up_netloc p) = (host, t)" by fastforce
  have hx: "lower x = lower host" using hostname_plain [OF x pct] hi by simp
  then have host: "rstrip_dots (lower host) \<in> normal_hosts allowed_hosts" using h x by (simp add: or_empty_def)
  have sch: "up_scheme p = ''https''"
  proof -
    have "\<exists>s. up_scheme p = lower s" using p(1)
      by (auto simp: urlparse_def Let_def split_scheme_def lower_def split: prod.splits if_splits option.splits)
    then show ?thesis using p(3) lower_idem by metis
  qed
  have at: "CHR ''@'' \<notin> set (up_netloc p)" by (cases rule: rcut_cases [of "CHR ''@''" "up_netloc p"]) (use un(1) in \<open>auto simp: username_given_def\<close>)
  have whole: "snd (rcut CHR ''@'' (up_netloc p)) = up_netloc p" by (cases rule: rcut_cases [of "CHR ''@''" "up_netloc p"]) (use at in auto)
  have br: "CHR ''['' \<notin> set (up_netloc p)"
  proof
    assume b: "CHR ''['' \<in> set (up_netloc p)"
    then obtain a r where c: "cut_at CHR ''['' (up_netloc p) = (a, Some r)" by (cases rule: cut_cases [of "CHR ''[''" "up_netloc p"]) auto
    have "literal_ok env (fst (cut_at CHR '']'' r))" using parsed_parts(1) [OF p(1) sch] b c by (simp add: brackets_ok_def or_empty_def)
    moreover have "host = fst (cut_at CHR '']'' r)" using hi c whole by (auto simp: hostinfo_def Let_def split: prod.splits)
    ultimately show False using host assms(2) by (simp add: no_literals_def)
  qed
  obtain d where d: "up_netloc p = host @ d" "case t of None \<Rightarrow> d = [] \<or> d = '':'' | Some t \<Rightarrow> d = '':'' @ t"
    using netloc_shape [OF br at hi] by blast
  have port: "d = [] \<or> (\<exists>e. d = '':'' @ e \<and> list_all is_digit e \<and> (e = [] \<or> digits_val e = 443))"
  proof (cases t)
    case None
    then show ?thesis using d(2) by auto
  next
    case (Some e)
    then show ?thesis using d(2) p(2) un(2) hi by (auto simp: port_number_def split: if_splits)
  qed
  have ne: "up_netloc p \<noteq> []"
  proof
    assume "up_netloc p = []"
    then have "host = []" using d(1) by simp
    then show False using host assms(3) by (simp add: lower_def rstrip_dots_def)
  qed
  define rest where "rest = (if up_params p \<noteq> [] then up_path p @ '';'' @ up_params p else up_path p) @ (if up_query p \<noteq> [] then ''?'' @ up_query p else [])"
  have head: "up_path p = [] \<and> up_params p = [] \<or> up_path p \<noteq> [] \<and> hd (up_path p) = CHR ''/''" using parsed_parts(2) [OF p(1) sch] ne by blast
  then have "rest = [] \<or> hd rest = CHR ''/'' \<or> hd rest = CHR ''?''" by (auto simp: rest_def)
  moreover have "u = ''https://'' @ host @ d @ rest"
    unfolding u geturl_def Let_def using ne head d(1) by (cases "up_path p") (auto simp: sch rest_def startswith_def)
  ultimately show ?thesis using host port unfolding on_origin_def by blast
qed

subsection \<open>The loop\<close>

lemma sink_bounded:
  "length (sk_body s) \<le> n \<Longrightarrow> length (sk_body (foldl (bounded_body_sink n) s cs)) \<le> n"
  by (induction cs arbitrary: s) (auto simp: bounded_body_sink_def)

lemma fetch_once_cases:
  assumes "fetch_once env urljoin allowed n final current f = Inr r" "no_literals env allowed" "[] \<notin> normal_hosts allowed"
  shows "case r of Inl b \<Rightarrow> length (br_body b) \<le> n \<and> on_origin allowed (br_final_url b) \<and> ft_status (br_response b) \<notin> redirect_statuses
    | Inr u \<Rightarrow> on_origin allowed u"
proof -
  let ?s = "foldl (bounded_body_sink n) new_sink (ft_chunks f)"
  obtain v where v: "validate_https_url env allowed (if ft_url f \<noteq> [] then ft_url f else current) = Inr v"
    using assms(1) by (auto simp: fetch_once_def Let_def split: if_splits sum.splits)
  have o: "on_origin allowed v" by (rule validated_on_origin [OF v assms(2, 3)])
  show ?thesis
  proof (cases "ft_status f \<in> redirect_statuses")
    case False
    then have "r = Inl \<lparr>br_response = f, br_body = (if sk_called ?s then sk_body ?s else ft_fallback f), br_final_url = v\<rparr>"
      "length (if sk_called ?s then sk_body ?s else ft_fallback f) \<le> n"
      using assms(1) v by (auto simp: fetch_once_def Let_def split: if_splits)
    then show ?thesis using o False by simp
  next
    case True
    then obtain w u where "validate_https_url env allowed w = Inr u" "r = Inr u"
      using assms(1) v by (auto simp: fetch_once_def Let_def split: if_splits sum.splits option.splits list.splits)
    then show ?thesis using validated_on_origin assms(2, 3) by auto
  qed
qed

lemma follow_safe:
  assumes "no_literals env allowed" "[] \<notin> normal_hosts allowed"
  shows "on_origin allowed current \<Longrightarrow> follow env urljoin net allowed n left current = (r, urls) \<Longrightarrow>
     list_all (on_origin allowed) urls \<and> length urls \<le> Suc left
     \<and> (case r of Inr b \<Rightarrow> length (br_body b) \<le> n \<and> on_origin allowed (br_final_url b) \<and> ft_status (br_response b) \<notin> redirect_statuses | Inl e \<Rightarrow> True)"
proof (induction left arbitrary: current r urls)
  case 0
  then show ?case using fetch_once_cases [OF _ assms, of urljoin n True current "net current 0"]
    by (auto split: sum.splits)
next
  case (Suc left)
  show ?case
  proof (cases "fetch_once env urljoin allowed n False current (net current (Suc left))")
    case (Inl e)
    then show ?thesis using Suc.prems by auto
  next
    case (Inr x)
    show ?thesis
    proof (cases x)
      case (Inl b)
      then show ?thesis using Suc.prems Inr fetch_once_cases [OF Inr assms] by auto
    next
      case (Inr u)
      note u = this
      have f: "fetch_once env urljoin allowed n False current (net current (Suc left)) = Inr (Inr u)" using \<open>_ = Inr x\<close> u by simp
      obtain r' urls' where t: "follow env urljoin net allowed n left u = (r', urls')" by fastforce
      have "on_origin allowed u" using fetch_once_cases [OF f assms] by simp
      then have "list_all (on_origin allowed) urls' \<and> length urls' \<le> Suc left
         \<and> (case r' of Inr b \<Rightarrow> length (br_body b) \<le> n \<and> on_origin allowed (br_final_url b) \<and> ft_status (br_response b) \<notin> redirect_statuses | Inl e \<Rightarrow> True)"
        using Suc.IH [OF _ t] by blast
      moreover have "r = r'" "urls = current # urls'" using Suc.prems(2) f t by simp_all
      ultimately show ?thesis using Suc.prems(1) by simp
    qed
  qed
qed

declare follow.simps [simp del]

text \<open>C24: Whatever the servers answer and the client does, a fetch only ever requests HTTPS URLs whose host is an allowed
  one, on port 443 and without credentials, at most one more than the permitted redirects of them; a body that is
  returned is within the byte limit and comes from such a URL.\<close>

theorem fetch_stays_on_origin:
  assumes "no_literals env allowed" "[] \<notin> normal_hosts allowed" "0 \<le> redirects"
  shows "case get_bounded env urljoin net allowed max_bytes redirects url of (r, urls) \<Rightarrow>
      list_all (on_origin allowed) urls \<and> int (length urls) \<le> redirects + 1
      \<and> (case r of Inl e \<Rightarrow> True
         | Inr b \<Rightarrow> int (length (br_body b)) \<le> max_bytes \<and> on_origin allowed (br_final_url b) \<and> ft_status (br_response b) \<notin> redirect_statuses)"
proof (cases "max_bytes < 1 \<or> redirects < 0")
  case True
  then show ?thesis using assms(3) by (auto simp: get_bounded_def)
next
  case False
  show ?thesis
  proof (cases "validate_https_url env allowed url")
    case (Inl e)
    then show ?thesis using False by (auto simp: get_bounded_def)
  next
    case (Inr u)
    obtain r urls where f: "follow env urljoin net allowed (nat max_bytes) (nat redirects) u = (r, urls)" by fastforce
    have "on_origin allowed u" by (rule validated_on_origin [OF Inr assms(1, 2)])
    note s = follow_safe [OF assms(1, 2) this f]
    have "get_bounded env urljoin net allowed max_bytes redirects url = (r, urls)" using False Inr f by (simp add: get_bounded_def)
    then show ?thesis using s False by (auto split: sum.splits)
  qed
qed

text \<open>A network that redirects once within the site and once out of it.\<close>

definition no_literal_env :: url_env where
  "no_literal_env = \<lparr>literal_ok = (\<lambda>x. False), netloc_ok = (\<lambda>x. True)\<rparr>"

definition sample_net :: "string \<Rightarrow> nat \<Rightarrow> fetch" where
  "sample_net url i = \<lparr>ft_chunks = [[1, 2, 3]], ft_raised = False,
     ft_headers = (\<lambda>h. if h = ''Location'' then Some (if i = 5 then ''/b'' else ''//example.org.evil/'') else None),
     ft_fallback = [], ft_url = [], ft_status = 302\<rparr>"

definition sample_join :: "string \<Rightarrow> string \<Rightarrow> string option" where
  "sample_join base loc = Some (if startswith ''//'' loc then ''https:'' @ loc else ''https://example.org'' @ loc)"

lemma fetch_stays_on_origin_witness:
  "case get_bounded no_literal_env sample_join sample_net [''example.org''] 100 5 ''https://Example.org/a#x'' of
     (r, urls) \<Rightarrow> list_all (on_origin [''example.org'']) urls \<and> urls = [''https://Example.org/a'', ''https://example.org/b'']"
proof -
  have n: "normal_hosts [''example.org''] = {''example.org''}" by code_simp
  then have "no_literals no_literal_env [''example.org'']" "[] \<notin> normal_hosts [''example.org'']" by (simp_all add: no_literals_def no_literal_env_def)
  moreover have "snd (get_bounded no_literal_env sample_join sample_net [''example.org''] 100 5 ''https://Example.org/a#x'')
      = [''https://Example.org/a'', ''https://example.org/b'']" by code_simp
  ultimately show ?thesis
    using fetch_stays_on_origin [where env = no_literal_env and allowed = "[''example.org'']" and redirects = 5 and urljoin = sample_join and net = sample_net and max_bytes = 100 and url = "''https://Example.org/a#x''"]
    by (auto split: prod.splits)
qed

end
