(* ===== verification/PollHealth.thy ===== *)
theory PollHealth
  imports MarketGroups "HOL-Library.AList" "HOL-Library.Sublist"
begin

text \<open>
  The liveness of the engine: the heartbeats of \<^verbatim>\<open>app/pipeline.py\<close>, one record per sport, the guarded cycle of
  \<^verbatim>\<open>app/scheduler.py\<close> that writes them, and the verdict of \<^verbatim>\<open>/health\<close> in \<^verbatim>\<open>app/api/routes.py\<close>.  A dictionary is an
  association list in insertion order, and the clock of every call is an argument.
\<close>

subsection \<open>Heartbeats\<close>

text \<open>A timestamp that is missing, is text that does not parse as an aware instant, or does.\<close>

datatype stamp = No_Stamp | Unreadable | Stamp time

datatype poll_state = In_Progress | Completed | Failed

datatype degradation = Listed_Without_Odds | Source_Incomplete | Stale_Drop_Ratio

record cycle_report =
  cy_snapshots :: nat
  cy_picks :: int
  cy_volume_picks :: int
  cy_matches_found :: "int option"
  cy_per_market :: "(string \<times> nat) list"
  cy_persisted :: "int option"
  cy_stale_candidates :: int
  cy_stale_ratio :: pyfloat
  cy_stale_warn :: pyfloat
  cy_source_complete :: bool
  cy_reason :: "string option"
  cy_degradation :: "degradation list"

record poll =
  pl_started :: stamp
  pl_finished :: stamp
  pl_heartbeat :: stamp
  pl_in_progress :: bool
  pl_state :: "poll_state option"
  pl_failure :: "string option"
  pl_degraded :: bool
  pl_consecutive :: int
  pl_cycle :: "cycle_report option"

type_synonym polls = "(string \<times> poll) list"

definition no_poll :: poll where
  "no_poll = \<lparr>pl_started = No_Stamp, pl_finished = No_Stamp, pl_heartbeat = No_Stamp, pl_in_progress = False, pl_state = None,
     pl_failure = None, pl_degraded = False, pl_consecutive = 0, pl_cycle = None\<rparr>"

definition poll_of :: "string \<Rightarrow> polls \<Rightarrow> poll" where
  "poll_of sport polls = (case map_of polls sport of Some p \<Rightarrow> p | None \<Rightarrow> no_poll)"

definition record_poll_started :: "string \<Rightarrow> time \<Rightarrow> polls \<Rightarrow> polls" where
  "record_poll_started sport now polls = AList.update sport
     ((poll_of sport polls)\<lparr>pl_started := Stamp now, pl_heartbeat := Stamp now, pl_in_progress := True,
        pl_state := Some In_Progress, pl_failure := None\<rparr>) polls"

definition prior_consecutive_degraded :: "string \<Rightarrow> polls \<Rightarrow> int" where
  "prior_consecutive_degraded sport polls = max 0 (pl_consecutive (poll_of sport polls))"

definition record_poll_finished :: "string \<Rightarrow> time \<Rightarrow> polls \<Rightarrow> polls" where
  "record_poll_finished sport now polls = AList.update sport
     ((poll_of sport polls)\<lparr>pl_finished := Stamp now, pl_heartbeat := Stamp now, pl_in_progress := False,
        pl_state := Some Completed, pl_failure := None, pl_degraded := False, pl_consecutive := 0\<rparr>) polls"

definition record_poll_failure :: "string \<Rightarrow> string \<Rightarrow> time \<Rightarrow> polls \<Rightarrow> polls" where
  "record_poll_failure sport reason now polls = AList.update sport
     ((poll_of sport polls)\<lparr>pl_finished := Stamp now, pl_heartbeat := Stamp now, pl_in_progress := False,
        pl_state := Some Failed, pl_failure := Some reason, pl_degraded := True,
        pl_consecutive := prior_consecutive_degraded sport polls + 1\<rparr>) polls"

text \<open>What a pipeline reports of its cycle.\<close>

record poll_args =
  pa_snapshots :: "odds_snapshot list"
  pa_picks :: int
  pa_matches_found :: "int option"
  pa_persisted :: "int option"
  pa_volume_picks :: int
  pa_stale_candidates :: int
  pa_stale_ratio :: pyfloat
  pa_stale_warn :: pyfloat
  pa_complete :: bool
  pa_reason :: "string option"
  pa_incomplete_ratio :: pyfloat
  pa_incomplete_warn :: pyfloat

definition incomplete_fetch_ratio_warn :: pyfloat where "incomplete_fetch_ratio_warn = Fin (1 / 2)"

definition degradation_reasons :: "poll_args \<Rightarrow> degradation list" where
  "degradation_reasons a =
     (if pa_matches_found a \<notin> {None, Some 0} \<and> pa_snapshots a = [] then [Listed_Without_Odds] else [])
   @ (if \<not> pa_complete a \<and> f_lt (pa_incomplete_warn a) (pa_incomplete_ratio a) then [Source_Incomplete] else [])
   @ (if 0 < pa_stale_candidates a \<and> f_lt (pa_stale_warn a) (pa_stale_ratio a) then [Stale_Drop_Ratio] else [])"

definition count_markets :: "odds_snapshot list \<Rightarrow> (string \<times> nat) list" where
  "count_markets snapshots = fold (\<lambda>s. AList.map_default (market_label s) 1 Suc) snapshots []"

definition record_poll :: "string \<Rightarrow> poll_args \<Rightarrow> time \<Rightarrow> polls \<Rightarrow> polls" where
  "record_poll sport a now polls = AList.update sport
     \<lparr>pl_started = pl_started (poll_of sport polls), pl_finished = Stamp now, pl_heartbeat = Stamp now, pl_in_progress = False,
      pl_state = Some Completed, pl_failure = None, pl_degraded = degradation_reasons a \<noteq> [],
      pl_consecutive = (if degradation_reasons a \<noteq> [] then prior_consecutive_degraded sport polls + 1 else 0),
      pl_cycle = Some \<lparr>cy_snapshots = length (pa_snapshots a), cy_picks = pa_picks a, cy_volume_picks = pa_volume_picks a,
        cy_matches_found = pa_matches_found a, cy_per_market = count_markets (pa_snapshots a), cy_persisted = pa_persisted a,
        cy_stale_candidates = pa_stale_candidates a, cy_stale_ratio = pa_stale_ratio a, cy_stale_warn = pa_stale_warn a,
        cy_source_complete = pa_complete a, cy_reason = (if pa_complete a then None else pa_reason a),
        cy_degradation = degradation_reasons a\<rparr>\<rparr> polls"

subsection \<open>A guarded cycle\<close>

text \<open>How the pipeline of a cycle ends: with a report, without one, over the watchdog, with an exception, or not yet (or
  cancelled with the process).\<close>

datatype cycle_end = Published time poll_args | Quiet time | Timed_Out time | Crashed time string | Abandoned

definition run_sport_cycle :: "string \<Rightarrow> time \<Rightarrow> cycle_end \<Rightarrow> polls \<Rightarrow> polls" where
  "run_sport_cycle sport start e polls = (let polls1 = record_poll_started sport start polls;
     returned = (\<lambda>t ps. if pl_in_progress (poll_of sport ps) then record_poll_finished sport t ps else ps) in
     case e of
       Published t a \<Rightarrow> returned t (record_poll sport a t polls1)
     | Quiet t \<Rightarrow> returned t polls1
     | Timed_Out t \<Rightarrow> record_poll_failure sport ''timeout'' t polls1
     | Crashed t reason \<Rightarrow> record_poll_failure sport reason t polls1
     | Abandoned \<Rightarrow> polls1)"

subsection \<open>The verdict\<close>

definition health_max_poll_age_multiplier :: int where "health_max_poll_age_multiplier = 3"
definition health_fallback_cycle_budget :: int where "health_fallback_cycle_budget = 900"
definition health_max_cycle_budget :: int where "health_max_cycle_budget = 7200"
definition health_max_expected_sports :: int where "health_max_expected_sports = 16"
definition health_consecutive_degraded_threshold :: int where "health_consecutive_degraded_threshold = 3"

definition parse_poll_finish :: "stamp \<Rightarrow> time option" where
  "parse_poll_finish raw = (case raw of Stamp t \<Rightarrow> Some t | _ \<Rightarrow> None)"

definition newer_finish :: "time option \<Rightarrow> poll \<Rightarrow> time option" where
  "newer_finish newest p = (case (parse_poll_finish (pl_finished p), newest) of
       (None, _) \<Rightarrow> newest
     | (Some t, None) \<Rightarrow> Some t
     | (Some t, Some u) \<Rightarrow> if t > u then Some t else newest)"

definition newest_poll_finish :: "polls \<Rightarrow> time option" where
  "newest_poll_finish polls = foldl newer_finish None (map snd polls)"

definition bounded_cycle_budget :: "int \<Rightarrow> int \<Rightarrow> pyfloat res" where
  "bounded_cycle_budget interval timeout = rbind (float_of_int timeout) (\<lambda>configured.
     rbind (if f_le configured (Fin 0)
         then rbind (float_of_int health_fallback_cycle_budget) (\<lambda>a. rmap (f_max a) (float_of_int (health_max_poll_age_multiplier * interval)))
         else Ok configured) (\<lambda>c.
     rmap (f_min c) (float_of_int health_max_cycle_budget)))"

definition poll_freshness_ceiling :: "int \<Rightarrow> int \<Rightarrow> int \<Rightarrow> pyfloat res" where
  "poll_freshness_ceiling interval expected timeout =
     rbind (float_of_int (min (max 1 expected) health_max_expected_sports)) (\<lambda>sport_count.
     rbind (bounded_cycle_budget interval timeout) (\<lambda>budget.
     rmap (\<lambda>a. f_max a (f_mul sport_count budget)) (float_of_int (health_max_poll_age_multiplier * interval))))"

datatype poll_reason = Invalid_Started_At | Future_Started_At | Active_Cycle_Degraded | Active_Cycle_Prior_Degraded
  | Invalid_Finished_At | Future_Finished_At | Stale_Cycle | Degraded_Cycle | Failed_Cycle

definition is_soft_degraded_reason :: "poll_reason option \<Rightarrow> bool" where
  "is_soft_degraded_reason r \<longleftrightarrow> r \<in> {Some Degraded_Cycle, Some Active_Cycle_Prior_Degraded}"

definition poll_age :: "time \<Rightarrow> time \<Rightarrow> pyfloat" where
  "poll_age now t = total_seconds (now - t)"

text \<open>The reason a sport counts as degraded, and whether it is evidence of starvation by itself.\<close>

definition sport_reason :: "time \<Rightarrow> pyfloat \<Rightarrow> pyfloat \<Rightarrow> poll \<Rightarrow> poll_reason option \<times> bool" where
  "sport_reason now limit budget p =
     (if pl_in_progress p then
        (case parse_poll_finish (pl_started p) of
            None \<Rightarrow> (Some Invalid_Started_At, True)
          | Some started \<Rightarrow>
              if f_lt (poll_age now started) (Fin (- 60)) then (Some Future_Started_At, True)
              else if f_lt budget (poll_age now started) \<or> pl_state p = Some Failed then (Some Active_Cycle_Degraded, False)
              else if pl_degraded p then (Some Active_Cycle_Prior_Degraded, False)
              else (None, False))
      else
        (case parse_poll_finish (pl_finished p) of
            None \<Rightarrow> (Some Invalid_Finished_At, True)
          | Some finished \<Rightarrow>
              if f_lt (poll_age now finished) (Fin (- 60)) then (Some Future_Finished_At, True)
              else if f_lt limit (poll_age now finished) then (Some Stale_Cycle, False)
              else if pl_degraded p then (Some (if pl_state p = Some Completed then Degraded_Cycle else Failed_Cycle), False)
              else (None, False)))"

record breakdown =
  bd_degraded :: bool
  bd_consecutive :: int
  bd_reason :: "poll_reason option"

definition poll_consecutive_degraded :: "poll \<Rightarrow> int" where
  "poll_consecutive_degraded p = max 0 (pl_consecutive p)"

definition sport_entry :: "time \<Rightarrow> pyfloat \<Rightarrow> pyfloat \<Rightarrow> poll \<Rightarrow> breakdown" where
  "sport_entry now limit budget p = (let r = fst (sport_reason now limit budget p) in
     \<lparr>bd_degraded = r \<noteq> None, bd_consecutive = poll_consecutive_degraded p, bd_reason = r\<rparr>)"

definition sport_starved :: "time \<Rightarrow> pyfloat \<Rightarrow> pyfloat \<Rightarrow> poll \<Rightarrow> bool" where
  "sport_starved now limit budget p \<longleftrightarrow> (case sport_reason now limit budget p of (r, hard) \<Rightarrow>
     hard \<or> r \<noteq> None \<and> health_consecutive_degraded_threshold \<le> poll_consecutive_degraded p \<and> \<not> is_soft_degraded_reason r)"

datatype health = Healthy | Partial | Degraded

type_synonym verdict = "health \<times> nat \<times> pyfloat option \<times> (string \<times> breakdown) list"

definition judge :: "polls \<Rightarrow> time \<Rightarrow> pyfloat \<Rightarrow> pyfloat \<Rightarrow> verdict" where
  "judge polls now limit budget =
     (let entries = map (\<lambda>(sport, p). (sport, sport_entry now limit budget p)) polls;
          degraded = filter (\<lambda>e. bd_degraded (snd e)) entries;
          newest = newest_poll_finish polls;
          newest_is_fresh = (case newest of Some t \<Rightarrow> f_le (poll_age now t) limit | None \<Rightarrow> False);
          all_soft = list_all (\<lambda>e. is_soft_degraded_reason (bd_reason (snd e))) degraded;
          hard = (list_ex (\<lambda>e. sport_starved now limit budget (snd e)) polls
            \<or> (degraded \<noteq> [] \<and> length degraded = length entries \<and> \<not> (all_soft \<and> newest_is_fresh))) in
      case newest of
        None \<Rightarrow> if list_ex (\<lambda>e. pl_in_progress (snd e)) polls \<and> \<not> hard \<and> degraded = [] then (Healthy, 200, None, entries)
          else (Degraded, 503, None, entries)
      | Some t \<Rightarrow> let age = Some (poll_age now t) in
          if hard then (Degraded, 503, age, entries)
          else if degraded \<noteq> [] then (Partial, 200, age, entries)
          else (Healthy, 200, age, entries))"

definition poll_health :: "polls \<Rightarrow> time \<Rightarrow> int \<Rightarrow> int \<Rightarrow> int \<Rightarrow> int \<Rightarrow> verdict res" where
  "poll_health polls now interval multiplier expected timeout =
     (if polls = [] then Ok (Healthy, 200, None, [])
      else rbind (float_of_int (multiplier * interval)) (\<lambda>a.
        rbind (poll_freshness_ceiling interval expected timeout) (\<lambda>b.
        rmap (judge polls now (f_max a b)) (bounded_cycle_budget interval timeout))))"

subsection \<open>The endpoints\<close>

record readiness =
  rd_exposure_seeded :: bool
  rd_scheduler :: bool
  rd_database :: bool
  rd_redis :: bool
  rd_polls :: bool

definition probe_readiness :: "bool \<Rightarrow> bool \<Rightarrow> bool \<Rightarrow> bool \<Rightarrow> health \<Rightarrow> string list \<Rightarrow> polls \<Rightarrow> readiness" where
  "probe_readiness seeded running database redis status expected polls =
     \<lparr>rd_exposure_seeded = seeded, rd_scheduler = running, rd_database = database, rd_redis = redis,
      rd_polls = (status \<in> {Healthy, Partial} \<and> (expected \<noteq> [] \<longrightarrow> set expected \<subseteq> fst ` set polls))\<rparr>"

definition all_ready :: "readiness \<Rightarrow> bool" where
  "all_ready r \<longleftrightarrow> rd_exposure_seeded r \<and> rd_scheduler r \<and> rd_database r \<and> rd_redis r \<and> rd_polls r"

definition ready_status :: "readiness \<Rightarrow> nat" where
  "ready_status r = (if all_ready r then 200 else 503)"

definition health_status :: "verdict \<Rightarrow> readiness option \<Rightarrow> health \<times> nat" where
  "health_status v r = (case (v, r) of
       ((status, http, _), None) \<Rightarrow> (status, http)
     | ((status, http, _), Some checks) \<Rightarrow> if all_ready checks then (status, http) else (Degraded, 503))"

subsection \<open>Skipped cycles\<close>

text \<open>The filter of the scheduler's log: the run of skips of a job, and the level of the message.\<close>

definition continuous_poll_jobs :: "string list" where
  "continuous_poll_jobs = [''poll_odds'', ''capture_pinnacle_arcadia'', ''capture_betfair_exchange'', ''capture_finished_scores'']"

definition hung_cycle_skip_threshold :: nat where "hung_cycle_skip_threshold = 3"

datatype skip_level = Unchanged | Hung nat | Benign

definition skip_filter :: "string \<Rightarrow> (string \<times> nat) list \<Rightarrow> skip_level \<times> (string \<times> nat) list" where
  "skip_filter msg skips =
     (if \<not> sublist ''maximum number of running instances reached'' msg then (Unchanged, skips)
      else case List.find (\<lambda>j. sublist j msg) continuous_poll_jobs of
          None \<Rightarrow> (Unchanged, skips)
        | Some job \<Rightarrow> let count = (case map_of skips job of None \<Rightarrow> 0 | Some n \<Rightarrow> n) + 1 in
            (if hung_cycle_skip_threshold \<le> count then Hung count else Benign, AList.update job count skips))"

definition skip_reset :: "string \<Rightarrow> (string \<times> nat) list \<Rightarrow> (string \<times> nat) list" where
  "skip_reset job skips = AList.delete job skips"

end
