(* ===== verification/PollFacts.thy ===== *)
theory PollFacts
  imports PollHealth
begin

text \<open>
  What the table of heartbeats says after any sequence of cycles: each sport's record is a function of its own cycles.
\<close>

subsection \<open>One cycle\<close>

definition cycle_finish :: "cycle_end \<Rightarrow> time option" where
  "cycle_finish e = (case e of Published t a \<Rightarrow> Some t | Quiet t \<Rightarrow> Some t | Timed_Out t \<Rightarrow> Some t | Crashed t r \<Rightarrow> Some t | Abandoned \<Rightarrow> None)"

definition cycle_failed :: "cycle_end \<Rightarrow> bool" where
  "cycle_failed e \<longleftrightarrow> (case e of Timed_Out t \<Rightarrow> True | Crashed t r \<Rightarrow> True | _ \<Rightarrow> False)"

definition cycle_degraded :: "cycle_end \<Rightarrow> bool" where
  "cycle_degraded e \<longleftrightarrow> (case e of Published t a \<Rightarrow> degradation_reasons a \<noteq> [] | Quiet t \<Rightarrow> False | Abandoned \<Rightarrow> False | _ \<Rightarrow> True)"

lemma poll_of_update [simp]: "poll_of s (AList.update s' p polls) = (if s = s' then p else poll_of s polls)"
  by (simp add: poll_of_def update_conv')

lemma poll_of_Nil [simp]: "poll_of s [] = no_poll" by (simp add: poll_of_def)

lemmas recordings = record_poll_started_def record_poll_def record_poll_finished_def record_poll_failure_def prior_consecutive_degraded_def

lemma cycle_other: "s' \<noteq> s \<Longrightarrow> map_of (run_sport_cycle s t e polls) s' = map_of polls s'"
  by (cases e) (simp_all add: run_sport_cycle_def recordings Let_def update_conv')

lemma cycle_keys: "fst ` set (run_sport_cycle s t e polls) = insert s (fst ` set polls)"
  by (cases e) (auto simp: run_sport_cycle_def recordings Let_def dom_update)

lemma cycle_distinct: "distinct (map fst polls) \<Longrightarrow> distinct (map fst (run_sport_cycle s t e polls))"
  by (cases e) (simp_all add: run_sport_cycle_def recordings Let_def distinct_update)

text \<open>The fields the verdict reads.\<close>

lemma cycle_fields:
  fixes s polls
  defines "p \<equiv> poll_of s polls" and "q t e \<equiv> poll_of s (run_sport_cycle s t e polls)"
  shows "pl_in_progress (q t e) \<longleftrightarrow> e = Abandoned"
    and "pl_started (q t e) = Stamp t"
    and "pl_finished (q t e) = (case cycle_finish e of Some u \<Rightarrow> Stamp u | None \<Rightarrow> pl_finished p)"
    and "pl_state (q t e) = Some (if e = Abandoned then In_Progress else if cycle_failed e then Failed else Completed)"
    and "pl_degraded (q t e) \<longleftrightarrow> (if e = Abandoned then pl_degraded p else cycle_degraded e)"
    and "pl_consecutive (q t e) = (if e = Abandoned then pl_consecutive p else if cycle_degraded e then max 0 (pl_consecutive p) + 1 else 0)"
  unfolding p_def q_def
  by (cases e; simp add: run_sport_cycle_def recordings Let_def cycle_finish_def cycle_failed_def cycle_degraded_def)+

subsection \<open>Sequences of cycles\<close>

type_synonym cycle = "string \<times> time \<times> cycle_end"

definition poll_run :: "cycle list \<Rightarrow> polls" where
  "poll_run cs = foldl (\<lambda>polls (s, t, e). run_sport_cycle s t e polls) [] cs"

definition cycles_of :: "string \<Rightarrow> cycle list \<Rightarrow> (time \<times> cycle_end) list" where
  "cycles_of s cs = map snd (filter (\<lambda>c. fst c = s) cs)"

text \<open>The outcomes of a sport's cycles that ended, and the instants at which they did.\<close>

definition ended :: "(time \<times> cycle_end) list \<Rightarrow> cycle_end list" where
  "ended h = filter (\<lambda>e. e \<noteq> Abandoned) (map snd h)"

definition degraded_run :: "(time \<times> cycle_end) list \<Rightarrow> nat" where
  "degraded_run h = length (takeWhile cycle_degraded (rev (ended h)))"

definition last_finish :: "(time \<times> cycle_end) list \<Rightarrow> time option" where
  "last_finish h = (if ended h = [] then None else cycle_finish (last (ended h)))"

text \<open>A record reflects the history of its sport.\<close>

definition reflects :: "(time \<times> cycle_end) list \<Rightarrow> poll \<Rightarrow> bool" where
  "reflects h p \<longleftrightarrow> h \<noteq> []
     \<and> pl_in_progress p = (snd (last h) = Abandoned)
     \<and> pl_started p = Stamp (fst (last h))
     \<and> pl_finished p = (case last_finish h of Some t \<Rightarrow> Stamp t | None \<Rightarrow> No_Stamp)
     \<and> pl_state p = Some (if snd (last h) = Abandoned then In_Progress else if cycle_failed (snd (last h)) then Failed else Completed)
     \<and> pl_degraded p = (0 < degraded_run h)
     \<and> pl_consecutive p = int (degraded_run h)"

lemma poll_run_snoc [simp]: "poll_run (cs @ [(s, t, e)]) = run_sport_cycle s t e (poll_run cs)"
  by (simp add: poll_run_def)

lemma poll_run_Nil [simp]: "poll_run [] = []" by (simp add: poll_run_def)

lemma cycles_of_snoc: "cycles_of s (cs @ [(s', c)]) = cycles_of s cs @ (if s = s' then [c] else [])"
  by (simp add: cycles_of_def)

lemma ended_snoc: "ended (h @ [(t, e)]) = ended h @ (if e = Abandoned then [] else [e])"
  by (simp add: ended_def)

lemma degraded_run_snoc:
  "degraded_run (h @ [(t, e)]) = (if e = Abandoned then degraded_run h else if cycle_degraded e then Suc (degraded_run h) else 0)"
  by (simp add: degraded_run_def ended_snoc)

lemma last_finish_snoc:
  "last_finish (h @ [(t, e)]) = (if e = Abandoned then last_finish h else cycle_finish e)"
  by (auto simp: last_finish_def ended_snoc)

lemma cycle_finish_Some: "e \<noteq> Abandoned \<Longrightarrow> \<exists>u. cycle_finish e = Some u"
  by (cases e) (simp_all add: cycle_finish_def)

lemma reflects_first: "poll_of s polls = no_poll \<Longrightarrow> reflects [(t, e)] (poll_of s (run_sport_cycle s t e polls))"
  by (cases e) (simp_all add: reflects_def cycle_fields last_finish_def degraded_run_def ended_def no_poll_def cycle_finish_def)

lemma reflects_next:
  assumes "reflects h (poll_of s polls)"
  shows "reflects (h @ [(t, e)]) (poll_of s (run_sport_cycle s t e polls))"
  using assms cycle_finish_Some [of e]
  by (cases "e = Abandoned") (auto simp: reflects_def cycle_fields last_finish_snoc degraded_run_snoc cycle_finish_def)

theorem poll_run_reflects:
  "distinct (map fst (poll_run cs)) \<and> fst ` set (poll_run cs) = fst ` set cs
    \<and> (s \<in> fst ` set cs \<longrightarrow> reflects (cycles_of s cs) (poll_of s (poll_run cs)))"
proof (induction cs rule: rev_induct)
  case (snoc c cs)
  obtain s' t e where c: "c = (s', t, e)" by (cases c)
  have other: "s \<noteq> s' \<Longrightarrow> poll_of s (run_sport_cycle s' t e (poll_run cs)) = poll_of s (poll_run cs)"
    by (simp add: poll_of_def cycle_other)
  have fresh: "s \<notin> fst ` set cs \<Longrightarrow> cycles_of s cs = [] \<and> poll_of s (poll_run cs) = no_poll"
    using snoc by (force simp: cycles_of_def poll_of_def filter_empty_conv split: option.splits dest: map_of_SomeD)
  have "s = s' \<Longrightarrow> reflects (cycles_of s cs @ [(t, e)]) (poll_of s (run_sport_cycle s t e (poll_run cs)))"
    using snoc fresh reflects_first [of s "poll_run cs" t e] reflects_next [of "cycles_of s cs" s "poll_run cs" t e] by (cases "s \<in> fst ` set cs") auto
  then show ?case using snoc other cycle_keys [of s' t e "poll_run cs"] cycle_distinct [of "poll_run cs" s' t e]
    by (auto simp: c cycles_of_snoc)
qed simp

subsection \<open>Budgets\<close>

definition budget_seconds :: "int \<Rightarrow> int \<Rightarrow> int" where
  "budget_seconds interval timeout = min (if timeout \<le> 0 then max 900 (3 * interval) else timeout) 7200"

definition ceiling_seconds :: "int \<Rightarrow> int \<Rightarrow> int \<Rightarrow> int" where
  "ceiling_seconds interval expected timeout = max (3 * interval) (min (max 1 expected) 16 * budget_seconds interval timeout)"

text \<open>The settings of a deployment: any interval and timeout of fewer than thirty thousand years.\<close>

definition sane_settings :: "int \<Rightarrow> int \<Rightarrow> bool" where
  "sane_settings interval timeout \<longleftrightarrow> 0 \<le> interval \<and> interval < 2 ^ 40 \<and> 0 \<le> timeout \<and> timeout < 2 ^ 40"

lemma budget_range:
  assumes "sane_settings interval timeout"
  shows "0 < budget_seconds interval timeout" "budget_seconds interval timeout \<le> 7200"
    "budget_seconds interval timeout \<le> ceiling_seconds interval expected timeout" "0 < ceiling_seconds interval expected timeout"
    "ceiling_seconds interval expected timeout < 2 ^ 42"
proof -
  let ?b = "budget_seconds interval timeout" and ?k = "min (max 1 expected) 16 :: int"
  show b: "0 < ?b" "?b \<le> 7200" using assms by (auto simp: budget_seconds_def sane_settings_def)
  have k: "1 \<le> ?k" "?k \<le> 16" by auto
  have m: "?b \<le> ?k * ?b" "?k * ?b \<le> 16 * 7200" using mult_right_mono [OF k(1), of ?b] mult_mono [OF k(2) b(2)] b k by auto
  show "?b \<le> ceiling_seconds interval expected timeout" using m by (simp add: ceiling_seconds_def)
  then show "0 < ceiling_seconds interval expected timeout" using b by linarith
  show "ceiling_seconds interval expected timeout < 2 ^ 42" using m assms unfolding ceiling_seconds_def sane_settings_def by (simp add: max_def)
qed

lemma f_max_int: "f_max (Fin (of_int a)) (Fin (of_int b)) = Fin (of_int (max a b))"
  by (simp add: max_def)

lemma f_min_int: "f_min (Fin (of_int a)) (Fin (of_int b)) = Fin (of_int (min a b))"
  by (simp add: min_def)

lemma setting_floats:
  assumes "sane_settings interval timeout"
  shows "float_of_int timeout = Ok (Fin (of_int timeout))" "float_of_int (3 * interval) = Ok (Fin (of_int (3 * interval)))"
    "float_of_int 900 = Ok (Fin (of_int 900))" "float_of_int 7200 = Ok (Fin (of_int 7200))"
  by (rule float_of_int_small; use assms in \<open>simp add: sane_settings_def\<close>)+

lemma bounded_cycle_budget_eq:
  assumes "sane_settings interval timeout"
  shows "bounded_cycle_budget interval timeout = Ok (Fin (of_int (budget_seconds interval timeout)))"
  unfolding bounded_cycle_budget_def health_max_poll_age_multiplier_def health_fallback_cycle_budget_def health_max_cycle_budget_def
    setting_floats [OF assms]
  by (simp add: rmap_def f_max_int f_min_int budget_seconds_def del: f_max_Fin f_min_Fin of_int_numeral of_int_mult of_int_max of_int_min)

lemma poll_freshness_ceiling_eq:
  assumes "sane_settings interval timeout"
  shows "poll_freshness_ceiling interval expected timeout = Ok (Fin (of_int (ceiling_seconds interval expected timeout)))"
proof -
  let ?b = "budget_seconds interval timeout" and ?k = "min (max 1 expected) 16 :: int"
  have k: "1 \<le> ?k" "?k \<le> 16" by auto
  then have "0 \<le> ?k * ?b" "?k * ?b \<le> 16 * 7200" using mult_mono [OF k(2) budget_range(2) [OF assms]] budget_range(1) [OF assms] by auto
  then have m: "f_mul (Fin (of_int ?k)) (Fin (of_int ?b)) = Fin (of_int (?k * ?b))"
    using f64_rep [OF is_f64_of_int [of "?k * ?b"]] by simp
  have f: "float_of_int ?k = Ok (Fin (of_int ?k))" by (rule float_of_int_small) (use k in simp)
  show ?thesis
    unfolding poll_freshness_ceiling_def health_max_poll_age_multiplier_def health_max_expected_sports_def f setting_floats [OF assms] bounded_cycle_budget_eq [OF assms]
    by (simp add: rmap_def m f_max_int ceiling_seconds_def del: f_max_Fin f_mul.simps of_int_mult of_int_max of_int_min)
qed

lemma poll_health_eq:
  assumes "sane_settings interval timeout" "polls \<noteq> []"
  shows "poll_health polls now interval 3 expected timeout = Ok (judge polls now
    (Fin (of_int (ceiling_seconds interval expected timeout))) (Fin (of_int (budget_seconds interval timeout))))"
proof -
  have m: "max (3 * interval) (ceiling_seconds interval expected timeout) = ceiling_seconds interval expected timeout"
    by (simp add: ceiling_seconds_def)
  show ?thesis unfolding poll_health_def setting_floats [OF assms(1)] bounded_cycle_budget_eq [OF assms(1)] poll_freshness_ceiling_eq [OF assms(1)]
    using assms(2) m by (simp add: rmap_def f_max_int del: f_max_Fin of_int_mult)
qed

end
