(* ===== verification/PollClaims.thy ===== *)
theory PollClaims
  imports PollFacts "HOL-Library.Code_Target_Nat"
begin

text \<open>
  What \<^verbatim>\<open>/health\<close> tells of the cycles that ran: a dead engine is noticed, green means that every sport's last cycle is fresh
  and clean, an alarm has a reason, and the case in which a failing engine is not reported.
\<close>

subsection \<open>The verdict of a table\<close>

lemma judge_http:
  "fst (snd (judge polls now limit budget)) = (if fst (judge polls now limit budget) = Degraded then 503 else 200)"
  by (auto simp: judge_def Let_def split: option.splits)

definition reason_of :: "time \<Rightarrow> pyfloat \<Rightarrow> pyfloat \<Rightarrow> poll \<Rightarrow> poll_reason option" where
  "reason_of now limit budget p = fst (sport_reason now limit budget p)"

definition fresh_newest :: "polls \<Rightarrow> time \<Rightarrow> pyfloat \<Rightarrow> bool" where
  "fresh_newest polls now limit \<longleftrightarrow> (case newest_poll_finish polls of Some t \<Rightarrow> f_le (poll_age now t) limit | None \<Rightarrow> False)"

lemma degraded_entries:
  "filter (\<lambda>e. bd_degraded (snd e)) (map (\<lambda>(s, p). (s, sport_entry now limit budget p)) polls)
     = map (\<lambda>(s, p). (s, sport_entry now limit budget p)) (filter (\<lambda>e. reason_of now limit budget (snd e) \<noteq> None) polls)"
  by (induction polls) (auto simp: sport_entry_def reason_of_def Let_def)

lemma filter_all: "length (filter P xs) = length xs \<longleftrightarrow> (\<forall>x \<in> set xs. P x)"
  using sum_length_filter_compl [of P xs] by (auto simp: filter_empty_conv)

lemma judge_status:
  assumes "polls \<noteq> []"
  shows "fst (judge polls now limit budget) = Degraded \<longleftrightarrow>
      (\<exists>e \<in> set polls. sport_starved now limit budget (snd e))
      \<or> (\<forall>e \<in> set polls. reason_of now limit budget (snd e) \<noteq> None)
        \<and> \<not> ((\<forall>e \<in> set polls. is_soft_degraded_reason (reason_of now limit budget (snd e))) \<and> fresh_newest polls now limit)
      \<or> newest_poll_finish polls = None
        \<and> \<not> ((\<exists>e \<in> set polls. pl_in_progress (snd e)) \<and> (\<forall>e \<in> set polls. reason_of now limit budget (snd e) = None))" (is "?l = ?r")
    and "fst (judge polls now limit budget) = Healthy \<longleftrightarrow>
      fst (judge polls now limit budget) \<noteq> Degraded \<and> (\<forall>e \<in> set polls. reason_of now limit budget (snd e) = None)" (is ?healthy)
proof -
  define d where "d = filter (\<lambda>e. reason_of now limit budget (snd e) \<noteq> None) polls"
  define hard where "hard \<longleftrightarrow> list_ex (\<lambda>e. sport_starved now limit budget (snd e)) polls
    \<or> d \<noteq> [] \<and> length d = length polls \<and> \<not> (list_all (\<lambda>e. is_soft_degraded_reason (reason_of now limit budget (snd e))) d \<and> fresh_newest polls now limit)"
  have soft: "list_all (\<lambda>e. is_soft_degraded_reason (bd_reason (snd e))) (map (\<lambda>(s, p). (s, sport_entry now limit budget p)) d)
      = list_all (\<lambda>e. is_soft_degraded_reason (reason_of now limit budget (snd e))) d"
    by (auto simp: list_all_iff sport_entry_def reason_of_def Let_def)
  have j: "fst (judge polls now limit budget) = (case newest_poll_finish polls of
       None \<Rightarrow> if list_ex (\<lambda>e. pl_in_progress (snd e)) polls \<and> \<not> hard \<and> d = [] then Healthy else Degraded
     | Some t \<Rightarrow> if hard then Degraded else if d \<noteq> [] then Partial else Healthy)"
    unfolding judge_def Let_def degraded_entries d_def [symmetric] soft hard_def
    by (auto simp: fresh_newest_def split: option.splits)
  have d0: "d = [] \<longleftrightarrow> (\<forall>e \<in> set polls. reason_of now limit budget (snd e) = None)" by (auto simp: d_def filter_empty_conv)
  have dl: "length d = length polls \<longleftrightarrow> (\<forall>e \<in> set polls. reason_of now limit budget (snd e) \<noteq> None)" unfolding d_def by (rule filter_all)
  have all: "length d = length polls \<Longrightarrow> set d = set polls \<and> d \<noteq> []" using dl assms by (auto simp: d_def)
  have h: "hard \<longleftrightarrow> (\<exists>e \<in> set polls. sport_starved now limit budget (snd e))
      \<or> (\<forall>e \<in> set polls. reason_of now limit budget (snd e) \<noteq> None)
        \<and> \<not> ((\<forall>e \<in> set polls. is_soft_degraded_reason (reason_of now limit budget (snd e))) \<and> fresh_newest polls now limit)"
    unfolding hard_def dl [symmetric] using all by (auto simp: list_ex_iff list_all_iff)
  have "?l \<longleftrightarrow> hard \<or> newest_poll_finish polls = None \<and> \<not> ((\<exists>e \<in> set polls. pl_in_progress (snd e)) \<and> d = [])"
    unfolding j by (auto simp: list_ex_iff split: option.splits)
  then show "?l = ?r" unfolding d0 h by (simp only: disj_assoc)
  show ?healthy unfolding j d0 [symmetric] by (auto split: option.splits)
qed

lemma newest_from_None:
  "foldl newer_finish a ps = None \<longleftrightarrow> a = None \<and> (\<forall>p \<in> set ps. parse_poll_finish (pl_finished p) = None)"
  by (induction ps arbitrary: a) (auto simp: newer_finish_def split: option.splits if_splits)

lemma newest_from_Some:
  "foldl newer_finish a ps = Some t \<Longrightarrow> (\<forall>u. a = Some u \<longrightarrow> u \<le> t) \<and> (\<forall>p \<in> set ps. \<forall>u. parse_poll_finish (pl_finished p) = Some u \<longrightarrow> u \<le> t)"
proof (induction ps arbitrary: a)
  case (Cons p ps)
  then have *: "(\<forall>u. newer_finish a p = Some u \<longrightarrow> u \<le> t) \<and> (\<forall>p \<in> set ps. \<forall>u. parse_poll_finish (pl_finished p) = Some u \<longrightarrow> u \<le> t)" by simp
  show ?case
    using * by (cases a; cases "parse_poll_finish (pl_finished p)") (auto simp: newer_finish_def split: if_splits)
qed simp

lemma newest_None: "newest_poll_finish polls = None \<longleftrightarrow> (\<forall>e \<in> set polls. parse_poll_finish (pl_finished (snd e)) = None)"
  by (simp add: newest_poll_finish_def newest_from_None)

lemma newest_ge: "newest_poll_finish polls = Some t \<Longrightarrow> e \<in> set polls \<Longrightarrow> parse_poll_finish (pl_finished (snd e)) = Some u \<Longrightarrow> u \<le> t"
  unfolding newest_poll_finish_def using newest_from_Some [of None "map snd polls" t] by auto

subsection \<open>The verdict of a history\<close>

text \<open>The last cycle of a sport is alarming when it has been running for longer than its budget, ended longer ago than
  the ceiling, failed, or lies more than a minute in the future.\<close>

definition alarming :: "time \<Rightarrow> pyfloat \<Rightarrow> pyfloat \<Rightarrow> time \<times> cycle_end \<Rightarrow> bool" where
  "alarming now limit budget c \<longleftrightarrow> (case cycle_finish (snd c) of
       None \<Rightarrow> f_lt (poll_age now (fst c)) (Fin (- 60)) \<or> f_lt budget (poll_age now (fst c))
     | Some u \<Rightarrow> f_lt (poll_age now u) (Fin (- 60)) \<or> f_lt limit (poll_age now u) \<or> cycle_failed (snd c))"

lemma failed_degraded: "cycle_failed e \<Longrightarrow> cycle_degraded e \<and> e \<noteq> Abandoned"
  by (cases e) (simp_all add: cycle_failed_def cycle_degraded_def)

lemma finish_Abandoned: "cycle_finish e = None \<longleftrightarrow> e = Abandoned"
  by (cases e) (simp_all add: cycle_finish_def)

lemma last_ended:
  assumes "h \<noteq> []" "snd (last h) \<noteq> Abandoned"
  shows "last_finish h = cycle_finish (snd (last h))" "0 < degraded_run h \<longleftrightarrow> cycle_degraded (snd (last h))"
proof -
  obtain h' t e where h: "h = h' @ [(t, e)]" using assms(1) by (cases h rule: rev_cases) auto
  show "last_finish h = cycle_finish (snd (last h))" "0 < degraded_run h \<longleftrightarrow> cycle_degraded (snd (last h))"
    using assms(2) unfolding h by (simp_all add: last_finish_snoc degraded_run_snoc)
qed

lemma sport_reason_history:
  assumes "reflects h p"
  shows "sport_reason now limit budget p = (let (t, e) = last h in
    if e = Abandoned then
      (if f_lt (poll_age now t) (Fin (- 60)) then (Some Future_Started_At, True)
       else if f_lt budget (poll_age now t) then (Some Active_Cycle_Degraded, False)
       else (if 0 < degraded_run h then Some Active_Cycle_Prior_Degraded else None, False))
    else case cycle_finish e of None \<Rightarrow> (None, False) | Some u \<Rightarrow>
      (if f_lt (poll_age now u) (Fin (- 60)) then (Some Future_Finished_At, True)
       else if f_lt limit (poll_age now u) then (Some Stale_Cycle, False)
       else (if cycle_degraded e then Some (if cycle_failed e then Failed_Cycle else Degraded_Cycle) else None, False)))"
proof -
  obtain t e where l: "last h = (t, e)" by (cases "last h")
  show ?thesis
  proof (cases "e = Abandoned")
    case True
    then show ?thesis using assms l by (auto simp: reflects_def sport_reason_def parse_poll_finish_def)
  next
    case False
    obtain u where u: "cycle_finish e = Some u" using finish_Abandoned False by (cases "cycle_finish e") auto
    show ?thesis using assms l False u last_ended [of h] by (auto simp: reflects_def sport_reason_def parse_poll_finish_def)
  qed
qed

lemma calm_reason:
  assumes "reflects h p" "\<not> alarming now limit budget (last h)"
  shows "sport_reason now limit budget p
    = (if 0 < degraded_run h then Some (if snd (last h) = Abandoned then Active_Cycle_Prior_Degraded else Degraded_Cycle) else None, False)"
proof -
  obtain t e where l: "last h = (t, e)" by (cases "last h")
  have h: "h \<noteq> []" using assms(1) by (simp add: reflects_def)
  show ?thesis
    using assms(2) finish_Abandoned [of e] last_ended(2) [OF h] unfolding sport_reason_history [OF assms(1)] l
    by (cases "cycle_finish e") (auto simp: alarming_def l)
qed

lemma alarming_reason:
  assumes "reflects h p" "alarming now limit budget (last h)"
  shows "reason_of now limit budget p \<noteq> None \<and> \<not> is_soft_degraded_reason (reason_of now limit budget p)"
proof -
  obtain t e where l: "last h = (t, e)" by (cases "last h")
  show ?thesis
    using assms(2) finish_Abandoned [of e] failed_degraded [of e] unfolding reason_of_def sport_reason_history [OF assms(1)] l
    by (cases "cycle_finish e") (auto simp: alarming_def l is_soft_degraded_reason_def)
qed

text \<open>The record of every sport of a run.\<close>

lemma run_entry:
  assumes "(s, p) \<in> set (poll_run cs)"
  shows "s \<in> fst ` set cs" "reflects (cycles_of s cs) p"
proof -
  show s: "s \<in> fst ` set cs" using assms poll_run_reflects [of cs s] by force
  have "p = poll_of s (poll_run cs)" using assms poll_run_reflects [of cs s] by (simp add: poll_of_def)
  then show "reflects (cycles_of s cs) p" using s poll_run_reflects [of cs s] by simp
qed

lemma run_sport:
  assumes "s \<in> fst ` set cs"
  obtains p where "(s, p) \<in> set (poll_run cs)" "reflects (cycles_of s cs) p"
proof -
  have "s \<in> fst ` set (poll_run cs)" using assms poll_run_reflects [of cs s] by simp
  then obtain p where "(s, p) \<in> set (poll_run cs)" by force
  then show thesis using run_entry(2) that by blast
qed

lemma run_nonempty: "poll_run cs \<noteq> [] \<longleftrightarrow> cs \<noteq> []"
  using poll_run_reflects [of cs] by (metis image_is_empty set_empty)

lemma calm_not_starved:
  "reflects h p \<Longrightarrow> \<not> alarming now limit budget (last h) \<Longrightarrow> \<not> sport_starved now limit budget p \<and>
    (reason_of now limit budget p \<noteq> None \<longleftrightarrow> 0 < degraded_run h) \<and> (0 < degraded_run h \<longrightarrow> is_soft_degraded_reason (reason_of now limit budget p))"
  by (simp add: sport_starved_def calm_reason reason_of_def is_soft_degraded_reason_def)

lemma old_is_late:
  assumes "t \<le> T" "T + (C + 1) * 10 ^ 6 \<le> now" "0 \<le> C" "C < 2 ^ 42"
  shows "f_lt (Fin (of_int C)) (poll_age now t)"
proof -
  have "f_le (total_seconds ((C + 1) * 10 ^ 6)) (poll_age now t)" unfolding poll_age_def using assms by (intro total_seconds_mono) simp
  then have "f_le (Fin (of_int (C + 1))) (poll_age now t)" using assms by (subst (asm) total_seconds_whole) auto
  then show ?thesis by (cases "poll_age now t") (auto simp: f_lt_def)
qed

lemma finish_stamp: "reflects h p \<Longrightarrow> parse_poll_finish (pl_finished p) = last_finish h"
  by (simp add: reflects_def parse_poll_finish_def split: option.splits)

lemma in_progress_unless: "reflects h p \<Longrightarrow> last_finish h = None \<Longrightarrow> pl_in_progress p"
  using last_ended(1) [of h] finish_Abandoned [of "snd (last h)"] by (auto simp: reflects_def)

lemma not_late: "\<not> f_le (poll_age now t) (Fin c) \<Longrightarrow> u \<le> t \<Longrightarrow> f_lt (Fin c) (poll_age now u)"
proof -
  assume a: "\<not> f_le (poll_age now t) (Fin c)" "u \<le> t"
  have "f_le (poll_age now t) (poll_age now u)" unfolding poll_age_def using a by (intro total_seconds_mono) simp
  then show ?thesis using a(1) by (cases "poll_age now t"; cases "poll_age now u") (auto simp: f_lt_def)
qed

lemma calm_run:
  assumes "\<forall>s \<in> fst ` set cs. \<not> alarming now limit budget (last (cycles_of s cs))" "e \<in> set (poll_run cs)"
  shows "\<not> sport_starved now limit budget (snd e)"
    "reason_of now limit budget (snd e) \<noteq> None \<longleftrightarrow> 0 < degraded_run (cycles_of (fst e) cs)"
    "0 < degraded_run (cycles_of (fst e) cs) \<Longrightarrow> is_soft_degraded_reason (reason_of now limit budget (snd e))"
proof -
  have e: "(fst e, snd e) \<in> set (poll_run cs)" using assms(2) by simp
  have "\<not> alarming now limit budget (last (cycles_of (fst e) cs))" using assms(1) run_entry(1) [OF e] by blast
  note * = calm_not_starved [OF run_entry(2) [OF e] this]
  show "\<not> sport_starved now limit budget (snd e)"
    "reason_of now limit budget (snd e) \<noteq> None \<longleftrightarrow> 0 < degraded_run (cycles_of (fst e) cs)"
    "0 < degraded_run (cycles_of (fst e) cs) \<Longrightarrow> is_soft_degraded_reason (reason_of now limit budget (snd e))"
    using * by blast+
qed

lemma newest_run:
  "newest_poll_finish (poll_run cs) = None \<Longrightarrow> s \<in> fst ` set cs \<Longrightarrow> last_finish (cycles_of s cs) = None"
  "newest_poll_finish (poll_run cs) = Some t \<Longrightarrow> s \<in> fst ` set cs \<Longrightarrow> last_finish (cycles_of s cs) = Some u \<Longrightarrow> u \<le> t"
  using newest_None [of "poll_run cs"] newest_ge [of "poll_run cs" t] finish_stamp run_sport [of s cs] by (metis snd_conv)+

lemma healthy_run:
  assumes "cs \<noteq> []"
  shows "fst (judge (poll_run cs) now limit budget) = Healthy \<longleftrightarrow>
    (\<forall>s \<in> fst ` set cs. \<not> alarming now limit budget (last (cycles_of s cs)) \<and> degraded_run (cycles_of s cs) = 0)"
proof -
  have ne: "poll_run cs \<noteq> []" using run_nonempty assms by simp
  then obtain e0 where e0: "e0 \<in> set (poll_run cs)" by (cases "poll_run cs") auto
  show ?thesis
  proof
    assume "fst (judge (poll_run cs) now limit budget) = Healthy"
    then have none: "\<forall>e \<in> set (poll_run cs). reason_of now limit budget (snd e) = None" using judge_status(2) [OF ne] by blast
    have calm: "\<forall>s \<in> fst ` set cs. \<not> alarming now limit budget (last (cycles_of s cs))"
      using none alarming_reason run_sport by (metis snd_conv)
    then show "\<forall>s \<in> fst ` set cs. \<not> alarming now limit budget (last (cycles_of s cs)) \<and> degraded_run (cycles_of s cs) = 0"
      using none calm_run(2) [OF calm] run_sport by (metis fst_conv neq0_conv)
  next
    assume a: "\<forall>s \<in> fst ` set cs. \<not> alarming now limit budget (last (cycles_of s cs)) \<and> degraded_run (cycles_of s cs) = 0"
    then have calm: "\<forall>s \<in> fst ` set cs. \<not> alarming now limit budget (last (cycles_of s cs))" by blast
    have none: "reason_of now limit budget (snd e) = None \<and> \<not> sport_starved now limit budget (snd e)" if "e \<in> set (poll_run cs)" for e
      using calm_run(1, 2) [OF calm that] a run_entry(1) [of "fst e" "snd e" cs] that by auto
    have "\<exists>e \<in> set (poll_run cs). pl_in_progress (snd e)" if "newest_poll_finish (poll_run cs) = None"
      using e0 in_progress_unless [OF run_entry(2) [of "fst e0" "snd e0" cs]] newest_run(1) [OF that] run_entry(1) [of "fst e0" "snd e0" cs] by auto
    then have "fst (judge (poll_run cs) now limit budget) \<noteq> Degraded" unfolding judge_status(1) [OF ne] using none e0 by blast
    then show "fst (judge (poll_run cs) now limit budget) = Healthy" unfolding judge_status(2) [OF ne] using none by blast
  qed
qed

lemma alarm_reason:
  assumes "fst (judge (poll_run cs) now (Fin c) budget) = Degraded" "cs \<noteq> []"
  shows "(\<exists>s \<in> fst ` set cs. alarming now (Fin c) budget (last (cycles_of s cs)))
    \<or> (\<forall>s \<in> fst ` set cs. case last_finish (cycles_of s cs) of Some t \<Rightarrow> f_lt (Fin c) (poll_age now t) | None \<Rightarrow> True)"
proof (rule disjCI, rule ccontr)
  assume late: "\<not> (\<forall>s \<in> fst ` set cs. case last_finish (cycles_of s cs) of Some t \<Rightarrow> f_lt (Fin c) (poll_age now t) | None \<Rightarrow> True)"
    and "\<not> (\<exists>s \<in> fst ` set cs. alarming now (Fin c) budget (last (cycles_of s cs)))"
  then have calm: "\<forall>s \<in> fst ` set cs. \<not> alarming now (Fin c) budget (last (cycles_of s cs))" by blast
  have ne: "poll_run cs \<noteq> []" using run_nonempty assms(2) by simp
  obtain s u where s: "s \<in> fst ` set cs" "last_finish (cycles_of s cs) = Some u" "\<not> f_lt (Fin c) (poll_age now u)"
    using late by (auto split: option.splits)
  then obtain t where t: "newest_poll_finish (poll_run cs) = Some t" using newest_run(1) [of cs s] by (cases "newest_poll_finish (poll_run cs)") auto
  then have "f_le (poll_age now t) (Fin c)" using not_late newest_run(2) [OF t s(1, 2)] s(3) by blast
  then have "fresh_newest (poll_run cs) now (Fin c)" using t by (simp add: fresh_newest_def)
  then show False using assms(1) calm_run [OF calm] t unfolding judge_status(1) [OF ne] by auto
qed

subsection \<open>Claims\<close>

text \<open>C18: When no cycle of any sport has started or ended for a second longer than the freshness ceiling, \<^verbatim>\<open>/health\<close> answers
  503, whatever the cycles were and however they ended.\<close>

theorem dead_engine_noticed:
  assumes "sane_settings interval timeout" "cs \<noteq> []"
    and "list_all (\<lambda>(s, t, e). t \<le> T \<and> (case cycle_finish e of Some u \<Rightarrow> u \<le> T | None \<Rightarrow> True)) cs"
    and "T + (ceiling_seconds interval expected timeout + 1) * 10 ^ 6 \<le> now"
  shows "\<exists>v. poll_health (poll_run cs) now interval 3 expected timeout = Ok v \<and> fst v = Degraded \<and> fst (snd v) = 503"
proof -
  let ?C = "ceiling_seconds interval expected timeout" and ?B = "budget_seconds interval timeout"
  let ?v = "judge (poll_run cs) now (Fin (of_int ?C)) (Fin (of_int ?B))"
  note r = budget_range [OF assms(1)]
  have late: "f_lt (Fin (of_int ?C)) (poll_age now t)" "f_lt (Fin (of_int ?B)) (poll_age now t)" if "t \<le> T" for t
    using old_is_late [OF that assms(4)] old_is_late [OF that, of ?B now] assms(4) r(1,2) r(3,4,5) [of expected] by auto
  have al: "alarming now (Fin (of_int ?C)) (Fin (of_int ?B)) (last (cycles_of s cs))" if s: "s \<in> fst ` set cs" for s
  proof -
    have "cycles_of s cs \<noteq> []" using s by (auto simp: cycles_of_def filter_empty_conv)
    then have "(s, last (cycles_of s cs)) \<in> set cs" using last_in_set [of "cycles_of s cs"] by (auto simp: cycles_of_def)
    then show ?thesis using assms(3) late by (fastforce simp: alarming_def list_all_iff split: option.splits)
  qed
  have re: "reason_of now (Fin (of_int ?C)) (Fin (of_int ?B)) p \<noteq> None
      \<and> \<not> is_soft_degraded_reason (reason_of now (Fin (of_int ?C)) (Fin (of_int ?B)) p)" if "(s, p) \<in> set (poll_run cs)" for s p
    using run_entry [OF that] al alarming_reason by blast
  have ne: "poll_run cs \<noteq> []" using run_nonempty assms(2) by simp
  obtain e where e: "e \<in> set (poll_run cs)" using ne by (cases "poll_run cs") auto
  have "fst ?v = Degraded" unfolding judge_status(1) [OF ne] using re e by (metis prod.collapse)
  then show ?thesis using poll_health_eq [OF assms(1) ne] judge_http by simp
qed

text \<open>C19: Green means exactly that the last cycle of every sport is running within its budget or ended cleanly within the
  ceiling, with no degraded cycle before a running one; and the alarm needs a sport whose last cycle failed, hangs, is too
  old or lies in the future, or that no sport has ended a cycle within the ceiling.\<close>

theorem health_reflects_cycles:
  assumes "sane_settings interval timeout" "cs \<noteq> []"
    and "limit = Fin (of_int (ceiling_seconds interval expected timeout))" "budget = Fin (of_int (budget_seconds interval timeout))"
  shows "\<exists>v. poll_health (poll_run cs) now interval 3 expected timeout = Ok v
    \<and> (fst v = Healthy \<longleftrightarrow> (\<forall>s \<in> fst ` set cs. \<not> alarming now limit budget (last (cycles_of s cs)) \<and> degraded_run (cycles_of s cs) = 0))
    \<and> (fst (snd v) = 503 \<longrightarrow> (\<exists>s \<in> fst ` set cs. alarming now limit budget (last (cycles_of s cs)))
        \<or> (\<forall>s \<in> fst ` set cs. case last_finish (cycles_of s cs) of Some t \<Rightarrow> f_lt limit (poll_age now t) | None \<Rightarrow> True))"
proof -
  have ne: "poll_run cs \<noteq> []" using run_nonempty assms(2) by simp
  show ?thesis
    unfolding poll_health_eq [OF assms(1) ne] assms(3, 4)
    using healthy_run [OF assms(2)] alarm_reason [OF _ assms(2)] judge_http by simp
qed

text \<open>Three degraded cycles of one sport in a row, the last of them failed, too old or out of date, are reported with 503
  whatever the other sports do, and so is a single one when no sport is without fault.\<close>

theorem failures_escalate:
  assumes "sane_settings interval timeout" "s \<in> fst ` set cs"
    and "limit = Fin (of_int (ceiling_seconds interval expected timeout))" "budget = Fin (of_int (budget_seconds interval timeout))"
    and "alarming now limit budget (last (cycles_of s cs))"
    and "3 \<le> degraded_run (cycles_of s cs) \<or> (\<forall>s \<in> fst ` set cs. alarming now limit budget (last (cycles_of s cs)))"
  shows "\<exists>v. poll_health (poll_run cs) now interval 3 expected timeout = Ok v \<and> fst v = Degraded \<and> fst (snd v) = 503"
proof -
  have "cs \<noteq> []" using assms(2) by auto
  then have ne: "poll_run cs \<noteq> []" using run_nonempty by simp
  obtain p where p: "(s, p) \<in> set (poll_run cs)" "reflects (cycles_of s cs) p" using run_sport [OF assms(2)] .
  have r: "reason_of now limit budget p \<noteq> None" "\<not> is_soft_degraded_reason (reason_of now limit budget p)"
    using alarming_reason [OF p(2) assms(5)] by simp_all
  have "fst (judge (poll_run cs) now limit budget) = Degraded"
  proof (cases "3 \<le> degraded_run (cycles_of s cs)")
    case True
    then have "sport_starved now limit budget p"
      using r p(2) by (cases "sport_reason now limit budget p") (simp add: sport_starved_def reason_of_def reflects_def
          poll_consecutive_degraded_def health_consecutive_degraded_threshold_def)
    then show ?thesis unfolding judge_status(1) [OF ne] using p(1) by force
  next
    case False
    then have "\<forall>s \<in> fst ` set cs. alarming now limit budget (last (cycles_of s cs))" using assms(6) by blast
    then have "\<forall>e \<in> set (poll_run cs). reason_of now limit budget (snd e) \<noteq> None"
      using run_entry alarming_reason by (metis prod.collapse)
    then show ?thesis unfolding judge_status(1) [OF ne] using p(1) r(2) by force
  qed
  then show ?thesis using poll_health_eq [OF assms(1) ne] judge_http unfolding assms(3, 4) by simp
qed

text \<open>C40: An engine none of whose cycles has ever succeeded is not reported while its next attempt runs: after any number of
  cycles that all timed out, the answer is 200 for the whole budget of the cycle in flight.\<close>

theorem retry_hides_failures:
  assumes "sane_settings interval timeout" "fs \<noteq> []" "t0 \<le> now" "now - t0 \<le> budget_seconds interval timeout * 10 ^ 6"
    and "now - snd (last fs) \<le> ceiling_seconds interval expected timeout * 10 ^ 6"
  shows "\<exists>v. poll_health (poll_run (map (\<lambda>(t, u). (s, t, Timed_Out u)) fs @ [(s, t0, Abandoned)])) now interval 3 expected timeout = Ok v
    \<and> fst v = Partial \<and> fst (snd v) = 200"
proof -
  let ?cs = "map (\<lambda>(t, u). (s, t, Timed_Out u)) fs @ [(s, t0, Abandoned)]"
  define b c where "b = budget_seconds interval timeout" and "c = ceiling_seconds interval expected timeout"
  note r = budget_range(3, 4, 5) [OF assms(1), of expected, folded b_def c_def] budget_range(1, 2) [OF assms(1), folded b_def]
  have h: "cycles_of s ?cs = map (\<lambda>(t, u). (t, Timed_Out u)) fs @ [(t0, Abandoned)]"
    by (induction fs) (auto simp: cycles_of_def)
  have en: "ended (map (\<lambda>(t, u). (t, Timed_Out u)) fs @ [(t0, Abandoned)]) = map (\<lambda>(t, u). Timed_Out u) fs"
    by (induction fs) (auto simp: ended_def)
  have "degraded_run (cycles_of s ?cs) = length fs"
  proof -
    have "takeWhile cycle_degraded (rev (map (\<lambda>(t, u). Timed_Out u) fs)) = rev (map (\<lambda>(t, u). Timed_Out u) fs)"
      by (auto simp: takeWhile_eq_all_conv cycle_degraded_def)
    then show ?thesis unfolding degraded_run_def h en by (simp only: length_rev length_map)
  qed
  then have run: "0 < degraded_run (cycles_of s ?cs)" using assms(2) by simp
  have fin: "last_finish (cycles_of s ?cs) = Some (snd (last fs))"
    using assms(2) unfolding last_finish_def h en by (simp add: last_map cycle_finish_def split: prod.split)
  have le: "f_le (poll_age now u) (Fin (of_int k))" if "now - u \<le> k * 10 ^ 6" "0 \<le> k" "k < 2 ^ 42" for u k
    using total_seconds_mono [OF that(1)] total_seconds_whole [of k] that by (simp add: poll_age_def)
  have "f_le (total_seconds (0 * 10 ^ 6)) (poll_age now t0)" unfolding poll_age_def using assms(3) by (intro total_seconds_mono) simp
  then have "\<not> f_lt (poll_age now t0) (Fin (- 60))" using total_seconds_whole [of 0] by (cases "poll_age now t0") auto
  moreover have "\<not> f_lt (Fin (of_int b)) (poll_age now t0)"
    using le [of t0 b] assms(4) r by (cases "poll_age now t0") (auto simp: b_def [symmetric])
  ultimately have calm: "\<not> alarming now (Fin (of_int c)) (Fin (of_int b)) (last (cycles_of s ?cs))"
    by (simp add: h alarming_def cycle_finish_def)
  have keys: "fst ` set ?cs = {s}" by auto
  have fresh: "\<not> f_lt (Fin (of_int c)) (poll_age now (snd (last fs)))"
    using le [of "snd (last fs)" c] assms(5) r by (cases "poll_age now (snd (last fs))") (auto simp: c_def [symmetric])
  let ?v = "judge (poll_run ?cs) now (Fin (of_int c)) (Fin (of_int b))"
  have "fst ?v \<noteq> Healthy" using healthy_run [of ?cs now "Fin (of_int c)" "Fin (of_int b)"] run unfolding keys by (simp del: poll_run_snoc)
  moreover have "fst ?v \<noteq> Degraded" using alarm_reason [where cs = ?cs and now = now and c = "of_int c" and budget = "Fin (of_int b)"] calm fin fresh unfolding keys by (auto simp del: poll_run_snoc)
  ultimately have "fst ?v = Partial" by (cases "fst ?v") auto
  then show ?thesis using poll_health_eq [OF assms(1), of "poll_run ?cs"] run_nonempty [of ?cs] judge_http by (simp add: b_def c_def del: poll_run_snoc)
qed

subsection \<open>Witnesses\<close>

definition sample_cycles :: "cycle list" where
  "sample_cycles = [(''soccer'', 0, Quiet 10000000), (''tennis'', 10000000, Timed_Out 310000000), (''tennis'', 311000000, Timed_Out 611000000),
     (''tennis'', 612000000, Crashed 613000000 ''OSError''), (''soccer'', 613000000, Quiet 640000000)]"

lemma sane_sample: "sane_settings 60 300" by (simp add: sane_settings_def)

lemma sample_seconds: "ceiling_seconds 60 2 300 = 600" "budget_seconds 60 300 = 300" "ceiling_seconds 60 1 300 = 300"
  by (simp_all add: ceiling_seconds_def budget_seconds_def)

lemma dead_engine_noticed_witness:
  "\<exists>v. poll_health (poll_run sample_cycles) 1241000000 60 3 2 300 = Ok v \<and> fst v = Degraded \<and> fst (snd v) = 503"
  by (rule dead_engine_noticed [OF sane_sample, of _ 640000000])
    (simp_all add: sample_cycles_def cycle_finish_def sample_seconds)

lemma seconds_ago: "\<bar>n\<bar> < 2 ^ 53 \<Longrightarrow> poll_age (t + n * 10 ^ 6) t = Fin (of_int n)"
  using total_seconds_whole [of n] by (simp add: poll_age_def)

lemma sample_ages:
  "poll_age 20000000 10000000 = Fin 10" "poll_age 641000000 613000000 = Fin 28"
  using seconds_ago [of 10 10000000] seconds_ago [of 28 613000000] by simp_all

definition green_cycles :: "cycle list" where
  "green_cycles = [(''soccer'', 0, Quiet 10000000), (''tennis'', 10000000, Abandoned)]"

lemma health_reflects_cycles_witness:
  "\<exists>v. poll_health (poll_run green_cycles) 20000000 60 3 2 300 = Ok v \<and> fst v = Healthy"
proof -
  have "cycles_of ''soccer'' green_cycles = [(0, Quiet 10000000)]" "cycles_of ''tennis'' green_cycles = [(10000000, Abandoned)]"
    "fst ` set green_cycles = {''soccer'', ''tennis''}" "green_cycles \<noteq> []"
    by (simp_all add: green_cycles_def cycles_of_def)
  then have "\<forall>s \<in> fst ` set green_cycles. \<not> alarming 20000000 (Fin 600) (Fin 300) (last (cycles_of s green_cycles)) \<and> degraded_run (cycles_of s green_cycles) = 0"
    "green_cycles \<noteq> []"
    by (simp_all add: alarming_def cycle_finish_def sample_ages cycle_failed_def degraded_run_def ended_def cycle_degraded_def)
  then show ?thesis using health_reflects_cycles [OF sane_sample, of green_cycles "Fin 600" 2 "Fin 300" 20000000] unfolding sample_seconds by force
qed

lemma failures_escalate_witness:
  "\<exists>v. poll_health (poll_run sample_cycles) 641000000 60 3 2 300 = Ok v \<and> fst v = Degraded \<and> fst (snd v) = 503"
proof -
  have c: "cycles_of ''tennis'' sample_cycles = [(10000000, Timed_Out 310000000), (311000000, Timed_Out 611000000), (612000000, Crashed 613000000 ''OSError'')]"
    by (simp add: sample_cycles_def cycles_of_def)
  have "alarming 641000000 (Fin 600) (Fin 300) (last (cycles_of ''tennis'' sample_cycles))" "3 \<le> degraded_run (cycles_of ''tennis'' sample_cycles)"
    unfolding c by (simp_all add: alarming_def cycle_finish_def sample_ages cycle_failed_def degraded_run_def ended_def cycle_degraded_def)
  moreover have "''tennis'' \<in> fst ` set sample_cycles" by (simp add: sample_cycles_def)
  ultimately show ?thesis using failures_escalate [OF sane_sample, of "''tennis''" sample_cycles "Fin 600" 2 "Fin 300" 641000000] unfolding sample_seconds by simp
qed

lemma retry_hides_failures_witness:
  "\<exists>v. poll_health (poll_run [(''tennis'', 0, Timed_Out 300000000), (''tennis'', 301000000, Timed_Out 601000000), (''tennis'', 602000000, Abandoned)])
      900000000 60 3 1 300 = Ok v \<and> fst v = Partial \<and> fst (snd v) = 200"
  using retry_hides_failures [OF sane_sample, of "[(0, 300000000), (301000000, 601000000)]" 602000000 900000000 1 "''tennis''"]
  by (simp add: sample_seconds)

end
