(* ===== verification/OddsHistory.thy ===== *)
theory OddsHistory
  imports MarketGroups PickStore "HOL-Library.AList"
begin

text \<open>
  The history of prices: the change-only append of \<^verbatim>\<open>app/pipeline.py\<close> with its cache of what was last seen, the insert
  of \<^verbatim>\<open>app/storage/repositories.py\<close> with one savepoint per event, and the rows the close of an event is read from.  The
  table is a list of rows in the order of insertion, keyed by the reference of the event in place of its number.  What
  the directory knows, which events can be resolved and when the database fails are arguments.
\<close>

subsection \<open>Rows\<close>

record odds_row =
  or_event :: string
  or_book :: string
  or_market :: string
  or_selection :: string
  or_odds :: rat
  or_liquidity :: "rat option"
  or_captured :: time
  or_ingested :: time

definition snapshot_market_key :: "odds_snapshot \<Rightarrow> string res" where
  "snapshot_market_key s = require_bounded_identity (market_label s) market_detail_max_bytes False"

definition row_of :: "odds_snapshot \<Rightarrow> odds_row res" where
  "row_of s =
     rbind (require_bounded_identity (os_book s) bookmaker_max_bytes False) (\<lambda>book.
     rbind (snapshot_market_key s) (\<lambda>market.
     rbind (require_bounded_identity (os_selection s) selection_max_bytes False) (\<lambda>selection.
     rbind (float_column odds_column (os_odds s)) (\<lambda>odds.
     rbind (opt_column (float_column money_column) (os_liquidity s)) (\<lambda>liquidity.
       Ok \<lparr>or_event = os_event s, or_book = book, or_market = market, or_selection = selection, or_odds = odds,
         or_liquidity = liquidity, or_captured = os_captured s, or_ingested = os_ingested s\<rparr>)))))"

type_synonym quote = "string \<times> string \<times> string \<times> string"

definition row_quote :: "odds_row \<Rightarrow> quote" where
  "row_quote r = (or_event r, or_book r, or_market r, or_selection r)"

text \<open>\<^verbatim>\<open>ON CONFLICT DO NOTHING\<close> on the quote and the instant.\<close>

definition insert_row :: "odds_row \<Rightarrow> odds_row list \<Rightarrow> odds_row list" where
  "insert_row r rows = (if list_ex (\<lambda>q. row_quote q = row_quote r \<and> or_captured q = or_captured r) rows then rows else rows @ [r])"

subsection \<open>Persisting a batch\<close>

record persist_result =
  sp_written :: nat
  sp_successful :: "string list"
  sp_failed :: "string list"

definition by_event :: "odds_snapshot list \<Rightarrow> (string \<times> odds_snapshot list) list" where
  "by_event snapshots = fold (\<lambda>s. AList.map_default (os_event s) [s] (\<lambda>l. l @ [s])) snapshots []"

text \<open>What may go wrong: the connection with its commit, and the work of one event inside its savepoint.\<close>

record database =
  db_up :: bool
  db_event_ok :: "string \<Rightarrow> bool"
  db_present :: "string \<Rightarrow> bool"

definition store_event :: "database \<Rightarrow> string \<times> odds_snapshot list \<Rightarrow> persist_result \<times> odds_row list \<Rightarrow> persist_result \<times> odds_row list" where
  "store_event db g acc = (case (g, acc) of ((event, snapshots), (r, rows)) \<Rightarrow>
     (case rmapM row_of snapshots of
        Inl e \<Rightarrow> (r\<lparr>sp_failed := sp_failed r @ [event]\<rparr>, rows)
      | Inr new \<Rightarrow>
          if \<not> db_event_ok db event then (r\<lparr>sp_failed := sp_failed r @ [event]\<rparr>, rows)
          else let rows' = fold insert_row new rows in
            (r\<lparr>sp_written := sp_written r + (length rows' - length rows), sp_successful := sp_successful r @ [event]\<rparr>, rows')))"

definition persist_odds_snapshots :: "database \<Rightarrow> bool \<Rightarrow> (string \<Rightarrow> bool) \<Rightarrow> odds_snapshot list \<Rightarrow> odds_row list \<Rightarrow> persist_result res \<times> odds_row list" where
  "persist_odds_snapshots db attach_only known snapshots rows =
     (let groups = by_event (filter (\<lambda>s. known (os_event s)) snapshots);
          nothing = \<lparr>sp_written = 0, sp_successful = [], sp_failed = []\<rparr> in
      if groups = [] then (Ok nothing, rows)
      else if \<not> db_up db then (Raise DatabaseError, rows)
      else let absent = (if attach_only then filter (\<lambda>g. \<not> db_present db (fst g)) groups else []);
               groups' = (if attach_only then filter (\<lambda>g. db_present db (fst g)) groups else groups);
               start = nothing\<lparr>sp_failed := map fst absent\<rparr> in
        case fold (store_event db) groups' (start, rows) of (r, rows') \<Rightarrow> (Ok r, rows'))"

subsection \<open>The change-only cache\<close>

type_synonym odds_seen = "(quote \<times> pyfloat \<times> time) list"

definition odds_seen_ttl :: duration where "odds_seen_ttl = 3 * 86400 * 10 ^ 6"
definition odds_seen_max :: nat where "odds_seen_max = 100000"

definition sweep_odds_seen :: "time \<Rightarrow> nat \<Rightarrow> odds_seen \<Rightarrow> odds_seen" where
  "sweep_odds_seen now max_size cache =
     (if length cache \<le> max_size then cache
      else let live = filter (\<lambda>e. \<not> snd (snd e) < now - odds_seen_ttl) cache;
               oldest = map fst (take (length live - max_size) (sort_key (\<lambda>e. snd (snd e)) live)) in
        filter (\<lambda>e. fst e \<notin> set oldest) live)"

definition snapshot_quote :: "odds_snapshot \<Rightarrow> quote" where
  "snapshot_quote s = (os_event s, os_book s, market_label s, os_selection s)"

text \<open>The pass over the batch: what to write, and what will have been seen.\<close>

definition scan_one :: "(string \<Rightarrow> bool) \<Rightarrow> odds_seen \<Rightarrow> time \<Rightarrow> odds_snapshot \<Rightarrow> odds_snapshot list \<times> odds_seen \<Rightarrow> odds_snapshot list \<times> odds_seen" where
  "scan_one known cache now s acc = (case acc of (to_write, updates) \<Rightarrow>
     if \<not> known (os_event s) then acc
     else let k = snapshot_quote s;
              seen = (case map_of updates k of Some v \<Rightarrow> Some v | None \<Rightarrow> map_of cache k) in
       (if (case seen of Some (odds, t) \<Rightarrow> f_eq odds (os_odds s) | None \<Rightarrow> False) then to_write else to_write @ [s],
        AList.update k (os_odds s, now) updates))"

definition scan :: "(string \<Rightarrow> bool) \<Rightarrow> odds_seen \<Rightarrow> time \<Rightarrow> odds_snapshot list \<Rightarrow> odds_snapshot list \<times> odds_seen" where
  "scan known cache now snapshots = fold (scan_one known cache now) snapshots ([], [])"

definition put_all :: "odds_seen \<Rightarrow> odds_seen \<Rightarrow> odds_seen" where
  "put_all updates cache = fold (\<lambda>(k, v). AList.update k v) updates cache"

definition write_batch :: "database \<Rightarrow> (string \<Rightarrow> bool) \<Rightarrow> odds_snapshot list \<Rightarrow> odds_row list \<Rightarrow> persist_result res \<times> odds_row list" where
  "write_batch db known to_write rows =
     (if to_write = [] then (Ok \<lparr>sp_written = 0, sp_successful = [], sp_failed = []\<rparr>, rows)
      else persist_odds_snapshots db False known to_write rows)"

text \<open>Whether an event's observations of this batch count as seen.\<close>

definition counts_as_seen :: "odds_snapshot list \<Rightarrow> persist_result \<Rightarrow> string \<Rightarrow> bool" where
  "counts_as_seen to_write r event \<longleftrightarrow> event \<notin> set (map os_event to_write) \<or> event \<in> set (sp_successful r)"

definition persist_snapshots :: "database \<Rightarrow> bool \<Rightarrow> (string \<Rightarrow> bool) \<Rightarrow> time \<Rightarrow> odds_snapshot list \<Rightarrow> odds_seen \<times> odds_row list \<Rightarrow>
    nat option \<times> odds_seen \<times> odds_row list" where
  "persist_snapshots db has_store known now snapshots state = (case state of (cache, rows) \<Rightarrow>
     if \<not> has_store then (None, cache, rows)
     else let (to_write, updates) = scan known cache now snapshots;
              (result, rows') = write_batch db known to_write rows in
       case result of
         Inl e \<Rightarrow> (None, cache, rows)
       | Inr r \<Rightarrow>
           let kept = filter (\<lambda>(k, v). counts_as_seen to_write r (fst k)) updates in
           (Some (sp_written r), sweep_odds_seen now odds_seen_max (put_all kept cache), rows'))"

subsection \<open>Reading the close\<close>

text \<open>The newest row of each quote strictly before the kickoff, and the clock of the main scrape.\<close>

definition newest_row :: "odds_row \<Rightarrow> odds_row option \<Rightarrow> odds_row option" where
  "newest_row r best = (case best of None \<Rightarrow> Some r | Some b \<Rightarrow> if or_captured r > or_captured b then Some r else best)"

definition close_row :: "time \<Rightarrow> quote \<Rightarrow> odds_row list \<Rightarrow> odds_row option" where
  "close_row kickoff k rows = fold newest_row (filter (\<lambda>r. row_quote r = k \<and> or_captured r < kickoff) rows) None"

definition close_rows :: "time \<Rightarrow> string \<Rightarrow> odds_row list \<Rightarrow> odds_row list" where
  "close_rows kickoff event rows = List.map_filter (\<lambda>k. close_row kickoff k rows)
     (remdups (map row_quote (filter (\<lambda>r. or_event r = event) rows)))"

definition last_capture :: "odds_row list \<Rightarrow> time option" where
  "last_capture rows = (case map or_captured (filter (\<lambda>r. or_liquidity r = None) rows) of [] \<Rightarrow> None | t # ts \<Rightarrow> Some (fold max ts t))"

definition market_values :: "string list" where
  "market_values = [''h2h'', ''double_chance'', ''dnb'', ''spreads'', ''totals'', ''team_totals'', ''btts'', ''correct_score'', ''other'']"

definition exact_markets :: "(string \<times> string) list" where
  "exact_markets = [(''1x2'', ''h2h''), (''home_away'', ''h2h''), (''match_winner'', ''h2h''), (''btts'', ''btts''), (''dnb'', ''dnb''),
     (''double_chance'', ''double_chance'')]"

definition market_for_key :: "string \<Rightarrow> string option" where
  "market_for_key key = (case map_of exact_markets key of
       Some m \<Rightarrow> Some m
     | None \<Rightarrow> if startswith ''over_under_'' key then Some ''totals''
         else if startswith ''asian_handicap'' key \<or> startswith ''european_handicap'' key then Some ''spreads'' else None)"

definition market_from_snapshot_key :: "string \<Rightarrow> (string \<times> string option) option" where
  "market_from_snapshot_key key =
     (if key \<in> set market_values then Some (key, None)
      else case market_for_key key of
          Some m \<Rightarrow> Some (m, Some key)
        | None \<Rightarrow> (case List.find (\<lambda>m. startswith (m @ ''_'') key) [''team_totals'', ''spreads'', ''totals''] of
              Some m \<Rightarrow> Some (m, Some key) | None \<Rightarrow> None))"

text \<open>A row as a snapshot again, when its market is known and the schema admits it.\<close>

definition rebuild :: "odds_row \<Rightarrow> odds_snapshot option" where
  "rebuild r = (case market_from_snapshot_key (or_market r) of
       None \<Rightarrow> None
     | Some (market, detail) \<Rightarrow>
         if or_odds r \<le> 1 then None
         else let s = \<lparr>os_event = or_event r, os_book = or_book r, os_market = market, os_selection = or_selection r, os_odds = f64 (or_odds r),
             os_liquidity = map_option f64 (or_liquidity r), os_captured = or_captured r, os_ingested = or_ingested r, os_detail = detail\<rparr> in
           if admissible s then Some s else None)"

definition closing_odds_from_snapshots :: "string \<Rightarrow> time \<Rightarrow> odds_row list \<Rightarrow> odds_snapshot list \<times> time option" where
  "closing_odds_from_snapshots event kickoff rows =
     (let closing = close_rows kickoff event rows in (List.map_filter rebuild closing, last_capture closing))"

end
