(* ===== verification/HistoryFacts.thy ===== *)
theory HistoryFacts
  imports OddsHistory
begin

text \<open>
  What a batch does to the table and to the cache, and the invariants of every sequence of batches and restarts.
\<close>

subsection \<open>The table\<close>

lemma row_of_fields:
  assumes "row_of s = Ok r"
  shows "row_quote r = snapshot_quote s" "or_captured r = os_captured s" "float_column odds_column (os_odds s) = Ok (or_odds r)"
  using assms by (auto simp: row_of_def snapshot_market_key_def require_bounded_identity_def rbind_Ok_iff row_quote_def snapshot_quote_def split: if_splits)

definition on_record :: "odds_row list \<Rightarrow> odds_snapshot \<Rightarrow> bool" where
  "on_record rows s \<longleftrightarrow> (\<exists>q \<in> set rows. row_quote q = snapshot_quote s \<and> or_captured q = os_captured s)"

lemma insert_row_set: "set (insert_row r rows) \<subseteq> insert r (set rows)" "set rows \<subseteq> set (insert_row r rows)"
  "\<exists>q \<in> set (insert_row r rows). row_quote q = row_quote r \<and> or_captured q = or_captured r"
  by (auto simp: insert_row_def list_ex_iff)

lemma insert_rows:
  "set rows \<subseteq> set (fold insert_row new rows) \<and> set (fold insert_row new rows) \<subseteq> set rows \<union> set new
    \<and> (\<forall>r \<in> set new. \<exists>q \<in> set (fold insert_row new rows). row_quote q = row_quote r \<and> or_captured q = or_captured r)"
proof (induction new arbitrary: rows)
  case (Cons r new)
  show ?case using Cons [of "insert_row r rows"] insert_row_set [where r = r and rows = rows] by fastforce
qed simp

lemma rmapM_Ok_set:
  assumes "rmapM f xs = Ok ys"
  shows "\<forall>y \<in> set ys. \<exists>x \<in> set xs. f x = Ok y" "\<forall>x \<in> set xs. \<exists>y \<in> set ys. f x = Ok y"
proof -
  have "list_all2 (\<lambda>x y. f x = Ok y) xs ys" using assms by (induction xs arbitrary: ys) (auto simp: rbind_Ok_iff rmap_Ok_iff list_all2_Cons1)
  then show "\<forall>y \<in> set ys. \<exists>x \<in> set xs. f x = Ok y" "\<forall>x \<in> set xs. \<exists>y \<in> set ys. f x = Ok y"
    by (auto simp: list_all2_conv_all_nth in_set_conv_nth) (metis nth_mem)+
qed

lemma store_one:
  assumes "store_event db (e, l) (r, rows) = (r', rows')"
  shows "set rows \<subseteq> set rows'" "set (sp_successful r) \<subseteq> set (sp_successful r')" "set (sp_successful r') \<subseteq> insert e (set (sp_successful r))"
    and "\<forall>q \<in> set rows' - set rows. e \<in> set (sp_successful r') \<and> (\<exists>s \<in> set l. row_of s = Ok q)"
    and "e \<notin> set (sp_successful r) \<Longrightarrow> e \<in> set (sp_successful r') \<Longrightarrow> \<forall>s \<in> set l. on_record rows' s"
proof -
  consider "r' = r\<lparr>sp_failed := sp_failed r @ [e]\<rparr>" "rows' = rows"
    | new where "rmapM row_of l = Ok new" "rows' = fold insert_row new rows" "sp_successful r' = sp_successful r @ [e]"
    using assms by (auto simp: store_event_def Let_def split: sum.splits if_splits)
  note cs = this
  show "set rows \<subseteq> set rows'" "set (sp_successful r) \<subseteq> set (sp_successful r')" "set (sp_successful r') \<subseteq> insert e (set (sp_successful r))"
    using cs insert_rows by (cases; force)+
  show "\<forall>q \<in> set rows' - set rows. e \<in> set (sp_successful r') \<and> (\<exists>s \<in> set l. row_of s = Ok q)"
  proof (cases rule: cs)
    case (2 new)
    then show ?thesis using rmapM_Ok_set(1) [OF 2(1)] insert_rows [of rows new] by auto
  qed simp
  show "\<forall>s \<in> set l. on_record rows' s" if "e \<notin> set (sp_successful r)" "e \<in> set (sp_successful r')"
  proof (cases rule: cs)
    case (2 new)
    show ?thesis
    proof
      fix s assume "s \<in> set l"
      then obtain y where y: "y \<in> set new" "row_of s = Ok y" using rmapM_Ok_set(2) [OF 2(1)] by blast
      then show "on_record rows' s" using insert_rows [of rows new] row_of_fields [OF y(2)] unfolding on_record_def 2(2) by metis
    qed
  qed (use that in simp)
qed

lemma on_record_mono: "on_record rows s \<Longrightarrow> set rows \<subseteq> set rows' \<Longrightarrow> on_record rows' s"
  by (auto simp: on_record_def)

lemma store_all:
  assumes "fold (store_event db) gs (r, rows) = (r', rows')" "distinct (map fst gs)" "fst ` set gs \<inter> set (sp_successful r) = {}"
  shows "set rows \<subseteq> set rows' \<and> set (sp_successful r) \<subseteq> set (sp_successful r') \<and> set (sp_successful r') \<subseteq> fst ` set gs \<union> set (sp_successful r)
    \<and> (\<forall>q \<in> set rows' - set rows. \<exists>e l. (e, l) \<in> set gs \<and> e \<in> set (sp_successful r') \<and> (\<exists>s \<in> set l. row_of s = Ok q))
    \<and> (\<forall>(e, l) \<in> set gs. e \<in> set (sp_successful r') \<longrightarrow> (\<forall>s \<in> set l. on_record rows' s))"
  using assms
proof (induction gs arbitrary: r rows)
  case (Cons g gs)
  obtain e l where g: "g = (e, l)" by (cases g)
  obtain r1 rows1 where s: "store_event db (e, l) (r, rows) = (r1, rows1)" by (cases "store_event db (e, l) (r, rows)")
  note one = store_one [OF s]
  have e: "e \<notin> set (sp_successful r)" "e \<notin> fst ` set gs" using Cons.prems by (auto simp: g)
  have rest: "fold (store_event db) gs (r1, rows1) = (r', rows')" using Cons.prems s by (simp add: g)
  have d: "fst ` set gs \<inter> set (sp_successful r1) = {}" using one(3) Cons.prems e by (auto simp: g)
  have IH: "set rows1 \<subseteq> set rows'" "set (sp_successful r1) \<subseteq> set (sp_successful r')" "set (sp_successful r') \<subseteq> fst ` set gs \<union> set (sp_successful r1)"
    "\<forall>q \<in> set rows' - set rows1. \<exists>e l. (e, l) \<in> set gs \<and> e \<in> set (sp_successful r') \<and> (\<exists>s \<in> set l. row_of s = Ok q)"
    "\<forall>(e, l) \<in> set gs. e \<in> set (sp_successful r') \<longrightarrow> (\<forall>s \<in> set l. on_record rows' s)"
    using Cons.IH [OF rest _ d] Cons.prems(2) by (simp_all add: g)
  have mine: "\<forall>s \<in> set l. on_record rows' s" if "e \<in> set (sp_successful r')"
  proof -
    have "e \<in> set (sp_successful r1)" using that IH(3) e by auto
    then show ?thesis using one(5) [OF e(1)] on_record_mono [OF _ IH(1)] by blast
  qed
  have new: "\<exists>e l. (e, l) \<in> set (g # gs) \<and> e \<in> set (sp_successful r') \<and> (\<exists>s \<in> set l. row_of s = Ok q)" if q: "q \<in> set rows' - set rows" for q
  proof (cases "q \<in> set rows1")
    case True
    then show ?thesis using one(4) q IH(2) g by fastforce
  next
    case False
    then show ?thesis using IH(4) q by fastforce
  qed
  show ?case using one IH mine new by (auto simp: g)
qed auto

text \<open>The groups of a batch.\<close>

lemma by_event_snoc: "by_event (xs @ [s]) = AList.map_default (os_event s) [s] (\<lambda>l. l @ [s]) (by_event xs)"
  by (simp add: by_event_def)

lemma by_event_Nil [simp]: "by_event [] = []" by (simp add: by_event_def)

lemma by_event_spec:
  "distinct (map fst (by_event xs)) \<and> map_of (by_event xs) e
     = (let l = filter (\<lambda>s. os_event s = e) xs in if l = [] then None else Some l)"
  by (induction xs rule: rev_induct) (auto simp: by_event_snoc distinct_map_default map_of_map_default Let_def)

lemma by_event_group: "(e, l) \<in> set (by_event xs) \<longleftrightarrow> l = filter (\<lambda>s. os_event s = e) xs \<and> l \<noteq> []"
  using by_event_spec [of xs e] by (auto simp: Let_def map_of_eq_Some_iff [symmetric] split: if_splits)

lemma persisted:
  assumes "persist_odds_snapshots db False known W rows = (Ok r, rows')" "list_all (\<lambda>s. known (os_event s)) W"
  shows "set rows \<subseteq> set rows'" "\<forall>q \<in> set rows' - set rows. \<exists>s \<in> set W. os_event s \<in> set (sp_successful r) \<and> row_of s = Ok q"
    "\<forall>s \<in> set W. os_event s \<in> set (sp_successful r) \<longrightarrow> on_record rows' s"
proof -
  have W: "filter (\<lambda>s. known (os_event s)) W = W" using assms(2) by (simp add: filter_id_conv list_all_iff)
  let ?start = "\<lparr>sp_written = 0, sp_successful = [], sp_failed = []\<rparr>"
  have "set rows \<subseteq> set rows' \<and> (\<forall>q \<in> set rows' - set rows. \<exists>s \<in> set W. os_event s \<in> set (sp_successful r) \<and> row_of s = Ok q)
    \<and> (\<forall>s \<in> set W. os_event s \<in> set (sp_successful r) \<longrightarrow> on_record rows' s)"
  proof (cases "by_event W = []")
    case True
    then have "W = []" using by_event_group [of "os_event (hd W)" "filter (\<lambda>s. os_event s = os_event (hd W)) W" W] by (cases W) auto
    then show ?thesis using assms(1) by (auto simp: persist_odds_snapshots_def)
  next
    case False
    then have f: "fold (store_event db) (by_event W) (?start, rows) = (r, rows')"
      using assms(1) by (auto simp: persist_odds_snapshots_def Let_def W split: if_splits prod.splits)
    have d: "distinct (map fst (by_event W))" using by_event_spec by blast
    have all: "set rows \<subseteq> set rows'"
      "\<forall>q \<in> set rows' - set rows. \<exists>e l. (e, l) \<in> set (by_event W) \<and> e \<in> set (sp_successful r) \<and> (\<exists>s \<in> set l. row_of s = Ok q)"
      "\<forall>(e, l) \<in> set (by_event W). e \<in> set (sp_successful r) \<longrightarrow> (\<forall>s \<in> set l. on_record rows' s)"
      using store_all [OF f d] by simp_all
    have "on_record rows' s" if "s \<in> set W" "os_event s \<in> set (sp_successful r)" for s
    proof -
      have "(os_event s, filter (\<lambda>x. os_event x = os_event s) W) \<in> set (by_event W)" using that(1) by (auto simp: by_event_group filter_empty_conv)
      then show ?thesis using all(3) that by fastforce
    qed
    moreover have "\<exists>s \<in> set W. os_event s \<in> set (sp_successful r) \<and> row_of s = Ok q" if "q \<in> set rows' - set rows" for q
      using all(2) that by (fastforce simp: by_event_group)
    ultimately show ?thesis using all(1) by blast
  qed
  then show "set rows \<subseteq> set rows'" "\<forall>q \<in> set rows' - set rows. \<exists>s \<in> set W. os_event s \<in> set (sp_successful r) \<and> row_of s = Ok q"
    "\<forall>s \<in> set W. os_event s \<in> set (sp_successful r) \<longrightarrow> on_record rows' s" by blast+
qed

subsection \<open>Observations in order\<close>

definition last_obs :: "quote \<Rightarrow> odds_snapshot list \<Rightarrow> odds_snapshot option" where
  "last_obs k D = (case rev (filter (\<lambda>s. snapshot_quote s = k) D) of [] \<Rightarrow> None | s # ss \<Rightarrow> Some s)"

lemma last_obs_Nil [simp]: "last_obs k [] = None" by (simp add: last_obs_def)

lemma last_obs_snoc: "last_obs k (D @ [s]) = (if snapshot_quote s = k then Some s else last_obs k D)"
  by (simp add: last_obs_def)

lemma last_obs_append: "last_obs k (D @ E) = (case last_obs k E of Some s \<Rightarrow> Some s | None \<Rightarrow> last_obs k D)"
  by (simp add: last_obs_def split: list.split)

lemma last_obs_filter: "(\<And>s. snapshot_quote s = k \<Longrightarrow> P s) \<Longrightarrow> last_obs k (filter P D) = last_obs k D"
  by (induction D rule: rev_induct) (auto simp: last_obs_snoc)

lemma last_obs_filter_out: "(\<And>s. snapshot_quote s = k \<Longrightarrow> \<not> P s) \<Longrightarrow> last_obs k (filter P D) = None"
  by (induction D rule: rev_induct) (auto simp: last_obs_snoc)

text \<open>A statement of every element and of what precedes it.\<close>

fun chained :: "(odds_snapshot list \<Rightarrow> odds_snapshot \<Rightarrow> bool) \<Rightarrow> odds_snapshot list \<Rightarrow> odds_snapshot list \<Rightarrow> bool" where
  "chained P D [] = True"
| "chained P D (s # X) = (P D s \<and> chained P (D @ [s]) X)"

lemma chained_append: "chained P D (X @ Y) = (chained P D X \<and> chained P (D @ X) Y)"
  by (induction X arbitrary: D) auto

lemma chained_filter:
  "chained P X1 X \<Longrightarrow> (\<And>Y s. P Y s \<Longrightarrow> ok s \<Longrightarrow> s \<in> set X \<Longrightarrow> Q (D @ filter ok Y) s) \<Longrightarrow> chained Q (D @ filter ok X1) (filter ok X)"
proof (induction X arbitrary: X1)
  case (Cons s X)
  have "chained Q (D @ filter ok (X1 @ [s])) (filter ok X)" by (rule Cons.IH) (use Cons.prems in auto)
  then show ?case using Cons.prems by (cases "ok s") simp_all
qed simp

lemma chained_mono:
  "chained P D X \<Longrightarrow> (\<And>Y s. P Y s \<Longrightarrow> s \<in> set X \<Longrightarrow> Q Y s) \<Longrightarrow> chained Q D X"
  by (induction X arbitrary: D) auto

subsection \<open>The pass\<close>

lemma f_eq_same: "f_eq a b \<Longrightarrow> a = b"
  by (cases a; cases b) simp_all

lemma scan_snoc: "scan known c now (X @ [s]) = scan_one known c now s (scan known c now X)"
  by (simp add: scan_def)

definition seen_odds :: "odds_seen \<Rightarrow> odds_snapshot list \<Rightarrow> quote \<Rightarrow> pyfloat option" where
  "seen_odds c Y k = (case last_obs k Y of Some p \<Rightarrow> Some (os_odds p) | None \<Rightarrow> map_option fst (map_of c k))"

lemma scan_spec:
  assumes "scan known c now X = (W, U)"
  defines "X' \<equiv> filter (\<lambda>s. known (os_event s)) X"
  shows "distinct (map fst U)" "map_of U k = map_option (\<lambda>s. (os_odds s, now)) (last_obs k X')" "set W \<subseteq> set X'"
    and "chained (\<lambda>Y s. s \<in> set W \<or> seen_odds c Y (snapshot_quote s) = Some (os_odds s)) [] X'"
proof -
  have "distinct (map fst U) \<and> (\<forall>k. map_of U k = map_option (\<lambda>s. (os_odds s, now)) (last_obs k X')) \<and> set W \<subseteq> set X'
    \<and> chained (\<lambda>Y s. s \<in> set W \<or> seen_odds c Y (snapshot_quote s) = Some (os_odds s)) [] X'"
    using assms(1) unfolding X'_def
  proof (induction X arbitrary: W U rule: rev_induct)
    case Nil
    then show ?case by (simp add: scan_def)
  next
    case (snoc s X)
    obtain W0 U0 where o: "scan known c now X = (W0, U0)" by (cases "scan known c now X")
    let ?X = "filter (\<lambda>s. known (os_event s)) X" and ?k = "snapshot_quote s"
    have IH: "distinct (map fst U0)" "\<And>k. map_of U0 k = map_option (\<lambda>s. (os_odds s, now)) (last_obs k ?X)" "set W0 \<subseteq> set ?X"
      "chained (\<lambda>Y s. s \<in> set W0 \<or> seen_odds c Y (snapshot_quote s) = Some (os_odds s)) [] ?X"
      using snoc.IH [OF o] by auto
    show ?case
    proof (cases "known (os_event s)")
      case False
      then show ?thesis using snoc.prems snoc.IH [OF o] o by (simp add: scan_snoc scan_one_def)
    next
      case True
      define seen where "seen = (case map_of U0 ?k of Some v \<Rightarrow> Some v | None \<Rightarrow> map_of c ?k)"
      define skip where "skip \<longleftrightarrow> (case seen of Some (odds, t) \<Rightarrow> f_eq odds (os_odds s) | None \<Rightarrow> False)"
      have W: "W = (if skip then W0 else W0 @ [s])" and U: "U = AList.update ?k (os_odds s, now) U0"
        using snoc.prems True o by (auto simp: scan_snoc scan_one_def skip_def seen_def Let_def)
      have seen: "seen_odds c ?X ?k = map_option fst seen"
        by (cases "last_obs ?k ?X") (simp_all add: seen_odds_def seen_def IH(2))
      have "skip \<Longrightarrow> seen_odds c ?X ?k = Some (os_odds s)" unfolding seen skip_def by (auto dest: f_eq_same split: option.splits)
      moreover have "chained (\<lambda>Y s. s \<in> set W \<or> seen_odds c Y (snapshot_quote s) = Some (os_odds s)) [] ?X"
        using IH(4) by (rule chained_mono) (auto simp: W)
      ultimately show ?thesis using True IH(1-3) by (auto simp: W U distinct_update update_conv' last_obs_snoc chained_append)
    qed
  qed
  then show "distinct (map fst U)" "map_of U k = map_option (\<lambda>s. (os_odds s, now)) (last_obs k X')" "set W \<subseteq> set X'"
    "chained (\<lambda>Y s. s \<in> set W \<or> seen_odds c Y (snapshot_quote s) = Some (os_odds s)) [] X'" by blast+
qed

subsection \<open>The cache\<close>

lemma put_all_spec:
  assumes "distinct (map fst U)"
  shows "map_of (put_all U c) k = (case map_of U k of Some v \<Rightarrow> Some v | None \<Rightarrow> map_of c k)"
  using assms
proof (induction U arbitrary: c)
  case (Cons e U)
  then show ?case by (cases e) (auto simp: put_all_def update_conv' split: option.splits dest: map_of_SomeD intro: rev_image_eqI)
qed (simp add: put_all_def)

lemma put_all_distinct: "distinct (map fst c) \<Longrightarrow> distinct (map fst (put_all U c))"
  by (induction U arbitrary: c) (auto simp: put_all_def distinct_update)

lemma map_of_filter_fst: "map_of (filter (\<lambda>(k, v). P k) U) k = (if P k then map_of U k else None)"
  by (induction U) auto

lemma sweep_sub: "set (sweep_odds_seen now m c) \<subseteq> set c"
  by (auto simp: sweep_odds_seen_def Let_def)

lemma distinct_map_filter: "distinct (map f xs) \<Longrightarrow> distinct (map f (filter P xs))"
  by (induction xs) auto

lemma sweep_distinct: "distinct (map fst c) \<Longrightarrow> distinct (map fst (sweep_odds_seen now m c))"
  by (simp add: sweep_odds_seen_def Let_def distinct_map_filter)

lemma sweep_of:
  assumes "distinct (map fst c)" "map_of (sweep_odds_seen now m c) k = Some v"
  shows "map_of c k = Some v"
  using assms sweep_sub [of now m c] by (auto dest!: map_of_SomeD)

text \<open>The cache is bounded, and what is dropped is either out of its time or no newer than anything kept.\<close>

lemma sweep_length:
  assumes "distinct (map fst c)"
  shows "length (sweep_odds_seen now m c) \<le> m"
proof (cases "length c \<le> m")
  case False
  define live where "live = filter (\<lambda>e. \<not> snd (snd e) < now - odds_seen_ttl) c"
  define srt where "srt = sort_key (\<lambda>e. snd (snd e)) live"
  define n where "n = length live - m"
  have d: "distinct (map fst live)" using assms by (simp add: live_def distinct_map_filter)
  have ms: "mset srt = mset live" by (simp add: srt_def)
  have "mset (map fst srt) = mset (map fst live)" unfolding mset_map ms ..
  then have ds: "distinct (map fst srt)" using d by (rule mset_eq_imp_distinct_iff [THEN iffD2])
  have "filter (\<lambda>e. fst e \<notin> set (map fst (take n srt))) srt = drop n srt"
  proof -
    have split: "distinct (map fst (take n srt) @ map fst (drop n srt))" using ds by (metis append_take_drop_id map_append)
    have "filter (\<lambda>e. fst e \<notin> set (map fst (take n srt))) (take n srt) = []" by (auto simp: filter_empty_conv)
    moreover have "filter (\<lambda>e. fst e \<notin> set (map fst (take n srt))) (drop n srt) = drop n srt"
      using split by (auto simp: filter_id_conv)
    ultimately show ?thesis by (metis append_take_drop_id append_Nil filter_append)
  qed
  then have "length (filter (\<lambda>e. fst e \<notin> set (map fst (take n srt))) srt) = length live - n" by (simp add: srt_def)
  moreover have "length (filter Q srt) = length (filter Q live)" for Q using ms by (metis mset_filter size_mset)
  ultimately show ?thesis using False by (simp add: sweep_odds_seen_def Let_def live_def [symmetric] srt_def [symmetric] n_def [symmetric]) (simp add: n_def)
qed (simp add: sweep_odds_seen_def)

subsection \<open>One batch\<close>

text \<open>The observations of a batch that count as recorded: those of known events whose rows, if any, were written.\<close>

definition handled :: "database \<Rightarrow> bool \<Rightarrow> (string \<Rightarrow> bool) \<Rightarrow> time \<Rightarrow> odds_snapshot list \<Rightarrow> odds_seen \<times> odds_row list \<Rightarrow> odds_snapshot list" where
  "handled db has_store known now X state = (case state of (c, rows) \<Rightarrow>
     if \<not> has_store then []
     else case scan known c now X of (W, U) \<Rightarrow> (case fst (write_batch db known W rows) of
         Inl e \<Rightarrow> [] | Inr r \<Rightarrow> filter (\<lambda>s. counts_as_seen W r (os_event s)) (filter (\<lambda>s. known (os_event s)) X)))"

lemma write_batch_spec:
  assumes "write_batch db known W rows = (Ok r, rows')" "list_all (\<lambda>s. known (os_event s)) W"
  shows "set rows \<subseteq> set rows'" "\<forall>q \<in> set rows' - set rows. \<exists>s \<in> set W. os_event s \<in> set (sp_successful r) \<and> row_of s = Ok q"
    "\<forall>s \<in> set W. os_event s \<in> set (sp_successful r) \<longrightarrow> on_record rows' s"
  using assms persisted [of db known W rows r rows'] by (auto simp: write_batch_def split: if_splits)

lemma write_batch_failed: "write_batch db known W rows = (Raise e, rows') \<Longrightarrow> rows' = rows"
  by (auto simp: write_batch_def persist_odds_snapshots_def Let_def split: if_splits prod.splits)

lemma batch_cases:
  assumes "persist_snapshots db has_store known now X (c, rows) = (n, c', rows')"
  obtains (nothing) "n = None" "c' = c" "rows' = rows" "handled db has_store known now X (c, rows) = []"
    | (batch) W U r where "scan known c now X = (W, U)" "write_batch db known W rows = (Ok r, rows')" "n = Some (sp_written r)"
      "c' = sweep_odds_seen now odds_seen_max (put_all (filter (\<lambda>(k, v). counts_as_seen W r (fst k)) U) c)"
      "handled db has_store known now X (c, rows) = filter (\<lambda>s. counts_as_seen W r (os_event s)) (filter (\<lambda>s. known (os_event s)) X)"
proof (cases has_store)
  case True
  obtain W U where s: "scan known c now X = (W, U)" by (cases "scan known c now X")
  obtain res rows1 where w: "write_batch db known W rows = (res, rows1)" by (cases "write_batch db known W rows")
  show thesis
  proof (cases res)
    case (Inl e)
    have p: "persist_snapshots db has_store known now X (c, rows) = (None, c, rows)" and h: "handled db has_store known now X (c, rows) = []"
      by (simp_all add: persist_snapshots_def handled_def True s w Inl)
    have "n = None" "c' = c" "rows' = rows" using assms unfolding p by simp_all
    then show thesis using h by (rule nothing)
  next
    case (Inr r)
    have p: "persist_snapshots db has_store known now X (c, rows) = (Some (sp_written r),
        sweep_odds_seen now odds_seen_max (put_all (filter (\<lambda>(k, v). counts_as_seen W r (fst k)) U) c), rows1)"
      and h: "handled db has_store known now X (c, rows) = filter (\<lambda>s. counts_as_seen W r (os_event s)) (filter (\<lambda>s. known (os_event s)) X)"
      by (simp_all add: persist_snapshots_def handled_def True s w Inr Let_def del: filter_filter)
    note eq = trans [OF p [symmetric] assms]
    have "n = Some (sp_written r)" and c': "c' = sweep_odds_seen now odds_seen_max (put_all (filter (\<lambda>(k, v). counts_as_seen W r (fst k)) U) c)"
      and "rows1 = rows'" using eq by blast+
    moreover have "write_batch db known W rows = (Ok r, rows')" using w Inr \<open>rows1 = rows'\<close> by simp
    ultimately show thesis using batch [OF s _ _ _ h] by blast
  qed
next
  case False
  have p: "persist_snapshots db has_store known now X (c, rows) = (None, c, rows)" and h: "handled db has_store known now X (c, rows) = []"
    by (simp_all add: persist_snapshots_def handled_def False)
  have "n = None" "c' = c" "rows' = rows" using assms unfolding p by simp_all
  then show thesis using h by (rule nothing)
qed

text \<open>Every history: batches in any order of events and failures, and restarts that forget the cache.\<close>

inductive records :: "odds_seen \<Rightarrow> odds_row list \<Rightarrow> odds_snapshot list \<Rightarrow> bool" where
  Empty: "records [] [] []"
| Restart: "records c rows D \<Longrightarrow> records [] rows D"
| Batch: "records c rows D \<Longrightarrow> persist_snapshots db has_store known now X (c, rows) = (n, c', rows') \<Longrightarrow>
    records c' rows' (D @ handled db has_store known now X (c, rows))"

definition cache_ok :: "odds_seen \<Rightarrow> odds_snapshot list \<Rightarrow> bool" where
  "cache_ok c D \<longleftrightarrow> distinct (map fst c) \<and> length c \<le> odds_seen_max
     \<and> (\<forall>k odds t. map_of c k = Some (odds, t) \<longrightarrow> map_option os_odds (last_obs k D) = Some odds)"

definition rows_from :: "odds_row list \<Rightarrow> odds_snapshot list \<Rightarrow> bool" where
  "rows_from rows D \<longleftrightarrow> (\<forall>q \<in> set rows. \<exists>s \<in> set D. row_quote q = snapshot_quote s \<and> or_captured q = os_captured s
     \<and> float_column odds_column (os_odds s) = Ok (or_odds q))"

definition recorded :: "odds_row list \<Rightarrow> odds_snapshot list \<Rightarrow> bool" where
  "recorded rows D \<longleftrightarrow> chained (\<lambda>Y s. on_record rows s \<or> map_option os_odds (last_obs (snapshot_quote s) Y) = Some (os_odds s)) [] D"

lemma quote_event [simp]: "fst (snapshot_quote s) = os_event s"
  by (simp add: snapshot_quote_def)

lemma batch_invariants:
  assumes c: "cache_ok c D" and f: "rows_from rows D" and rec: "recorded rows D"
    and p: "persist_snapshots db has_store known now X (c, rows) = (n, c', rows')"
  shows "cache_ok c' (D @ handled db has_store known now X (c, rows)) \<and> rows_from rows' (D @ handled db has_store known now X (c, rows))
    \<and> recorded rows' (D @ handled db has_store known now X (c, rows))"
  using p
proof (cases rule: batch_cases)
  case nothing
  then show ?thesis using c f rec by simp
next
  case (batch W U r)
  define X' where "X' = filter (\<lambda>s. known (os_event s)) X"
  define ok where "ok s \<longleftrightarrow> counts_as_seen W r (os_event s)" for s :: odds_snapshot
  define E where "E = filter ok X'"
  have h: "handled db has_store known now X (c, rows) = E" unfolding E_def X'_def ok_def using batch(5) by simp
  note sc = scan_spec [OF batch(1), folded X'_def]
  have kn: "list_all (\<lambda>s. known (os_event s)) W" using sc(3) by (auto simp: X'_def list_all_iff)
  note w = write_batch_spec [OF batch(2) kn]
  have inW: "on_record rows' s" "s \<in> set E" if "s \<in> set W" "os_event s \<in> set (sp_successful r)" for s
    using w(3) that sc(3) by (auto simp: E_def ok_def counts_as_seen_def)
  have lastE: "last_obs k E = (if counts_as_seen W r (fst k) then last_obs k X' else None)" for k
    unfolding E_def by (auto intro!: last_obs_filter last_obs_filter_out simp: ok_def)
  let ?U = "filter (\<lambda>(k, v). counts_as_seen W r (fst k)) U"
  have dU: "distinct (map fst ?U)" using sc(1) by (rule distinct_map_filter)
  have dc: "distinct (map fst c)" using c by (simp add: cache_ok_def)
  have "map_option os_odds (last_obs k (D @ E)) = Some odds" if "map_of c' k = Some (odds, t)" for k odds t
  proof -
    have "map_of (put_all ?U c) k = Some (odds, t)" using sweep_of [OF put_all_distinct [OF dc]] that unfolding batch(4) by blast
    then have "(case (if counts_as_seen W r (fst k) then map_of U k else None) of Some v \<Rightarrow> Some v | None \<Rightarrow> map_of c k) = Some (odds, t)"
      unfolding put_all_spec [OF dU] map_of_filter_fst [of "\<lambda>k. counts_as_seen W r (fst k)"] .
    moreover have "map_of c k = Some (odds, t) \<Longrightarrow> map_option os_odds (last_obs k D) = Some odds" using c unfolding cache_ok_def by blast
    ultimately show ?thesis using sc(2) [of k] unfolding last_obs_append lastE
      by (cases "last_obs k X'"; cases "counts_as_seen W r (fst k)") simp_all
  qed
  then have "cache_ok c' (D @ E)" using put_all_distinct [OF dc] sweep_distinct sweep_length unfolding cache_ok_def batch(4) by blast
  moreover have "rows_from rows' (D @ E)"
    unfolding rows_from_def
  proof
    fix q assume "q \<in> set rows'"
    then consider "q \<in> set rows" | s where "s \<in> set E" "row_of s = Ok q" using w(2) inW by blast
    then show "\<exists>s \<in> set (D @ E). row_quote q = snapshot_quote s \<and> or_captured q = os_captured s \<and> float_column odds_column (os_odds s) = Ok (or_odds q)"
    proof cases
      case 1
      then show ?thesis using f by (auto simp: rows_from_def)
    next
      case (2 s)
      then show ?thesis using row_of_fields [OF 2(2)] by auto
    qed
  qed
  moreover have "recorded rows' (D @ E)"
  proof -
    let ?P = "\<lambda>Y s. on_record rows' s \<or> map_option os_odds (last_obs (snapshot_quote s) Y) = Some (os_odds s)"
    have "chained ?P [] D" using rec unfolding recorded_def by (rule chained_mono) (use on_record_mono w(1) in blast)
    moreover have "chained ?P (D @ filter ok []) (filter ok X')"
    proof (rule chained_filter [OF sc(4)])
      fix Y s assume a: "s \<in> set W \<or> seen_odds c Y (snapshot_quote s) = Some (os_odds s)" "ok s"
      have same: "last_obs (snapshot_quote s) (filter ok Y) = last_obs (snapshot_quote s) Y"
        by (rule last_obs_filter) (use a(2) in \<open>simp add: ok_def snapshot_quote_def\<close>)
      show "?P (D @ filter ok Y) s"
      proof (cases "s \<in> set W")
        case True
        then have "os_event s \<in> set (sp_successful r)" using a(2) by (auto simp: ok_def counts_as_seen_def)
        then show ?thesis using inW(1) [OF True] by blast
      next
        case False
        then have "seen_odds c Y (snapshot_quote s) = Some (os_odds s)" using a(1) by blast
        moreover have "map_of c k = Some (odds, t) \<Longrightarrow> map_option os_odds (last_obs k D) = Some odds" for k odds t
          using c unfolding cache_ok_def by blast
        note this [of "snapshot_quote s" "os_odds s"]
        ultimately show ?thesis using same by (cases "last_obs (snapshot_quote s) Y") (auto simp: seen_odds_def last_obs_append)
      qed
    qed
    ultimately show ?thesis by (simp add: recorded_def chained_append E_def)
  qed
  ultimately show ?thesis unfolding h by blast
qed

theorem records_invariants: "records c rows D \<Longrightarrow> cache_ok c D \<and> rows_from rows D \<and> recorded rows D"
proof (induction rule: records.induct)
  case Empty
  then show ?case by (simp add: cache_ok_def rows_from_def recorded_def)
next
  case (Restart c rows D)
  then show ?case by (simp add: cache_ok_def)
next
  case (Batch c rows D db has_store known now X n c' rows')
  then show ?case using batch_invariants by blast
qed

end
