(* ===== verification/HistoryClaims.thy ===== *)
theory HistoryClaims
  imports HistoryFacts "HOL-Library.Code_Target_Nat"
begin

text \<open>
  The change-only history gives the same closing prices as one that would write every observation, as long as the
  instants of a quote do not run backwards; and what is lost when a provider corrects a price without a new instant.
\<close>

subsection \<open>Closing prices\<close>

text \<open>A feed in order: the instants of one quote never decrease, and one instant has one price.\<close>

definition in_order :: "odds_snapshot \<Rightarrow> odds_snapshot \<Rightarrow> bool" where
  "in_order a b \<longleftrightarrow> (snapshot_quote a = snapshot_quote b \<longrightarrow>
     os_captured a \<le> os_captured b \<and> (os_captured a = os_captured b \<longrightarrow> os_odds a = os_odds b))"

definition feed_ordered :: "odds_snapshot list \<Rightarrow> bool" where
  "feed_ordered D \<longleftrightarrow> sorted_wrt in_order D"

text \<open>The last observation of a quote before an instant.\<close>

definition close_obs :: "time \<Rightarrow> quote \<Rightarrow> odds_snapshot list \<Rightarrow> odds_snapshot option" where
  "close_obs kickoff k D = last_obs k (filter (\<lambda>s. os_captured s < kickoff) D)"

lemma newest_row_fold:
  "fold newest_row rows best = Some b \<Longrightarrow> (b \<in> set rows \<or> best = Some b) \<and> (\<forall>r \<in> set rows. or_captured r \<le> or_captured b)
     \<and> (\<forall>x. best = Some x \<longrightarrow> or_captured x \<le> or_captured b)"
proof (induction rows arbitrary: best)
  case (Cons r rows)
  have "(b \<in> set rows \<or> newest_row r best = Some b) \<and> (\<forall>r \<in> set rows. or_captured r \<le> or_captured b)
     \<and> (\<forall>x. newest_row r best = Some x \<longrightarrow> or_captured x \<le> or_captured b)"
    using Cons.IH [of "newest_row r best"] Cons.prems by simp
  then show ?case by (cases best) (auto simp: newest_row_def split: if_splits)
qed simp

lemma newest_row_None: "fold newest_row rows best = None \<longleftrightarrow> rows = [] \<and> best = None"
proof (induction rows arbitrary: best)
  case (Cons r rows)
  show ?case using Cons [of "newest_row r best"] by (cases best) (auto simp: newest_row_def)
qed simp

lemma close_row_spec:
  "close_row kickoff k rows = None \<longleftrightarrow> (\<forall>r \<in> set rows. row_quote r = k \<longrightarrow> \<not> or_captured r < kickoff)"
  "close_row kickoff k rows = Some b \<Longrightarrow> b \<in> set rows \<and> row_quote b = k \<and> or_captured b < kickoff
     \<and> (\<forall>r \<in> set rows. row_quote r = k \<longrightarrow> or_captured r < kickoff \<longrightarrow> or_captured r \<le> or_captured b)"
  using newest_row_fold [of "filter (\<lambda>r. row_quote r = k \<and> or_captured r < kickoff) rows" None b]
  by (auto simp: close_row_def newest_row_None filter_empty_conv)

lemma last_obs_SomeD:
  assumes "last_obs k D = Some s"
  shows "s \<in> set D" "snapshot_quote s = k"
  using assms by (induction D rule: rev_induct) (auto simp: last_obs_snoc split: if_splits)

lemma last_obs_None: "last_obs k D = None \<longleftrightarrow> (\<forall>s \<in> set D. snapshot_quote s \<noteq> k)"
  by (induction D rule: rev_induct) (auto simp: last_obs_snoc)

text \<open>In an ordered feed the last observation before an instant has the newest capture before it, and every recorded one
  goes back to a row of the same price with none of another price between.\<close>

lemma latest_row:
  assumes "recorded rows D" "feed_ordered D" "close_obs kickoff k D = Some s"
  shows "\<exists>p \<in> set D. snapshot_quote p = k \<and> on_record rows p \<and> os_odds p = os_odds s \<and> os_captured p < kickoff
    \<and> (\<forall>x \<in> set D. snapshot_quote x = k \<longrightarrow> os_captured p \<le> os_captured x \<longrightarrow> os_captured x < kickoff \<longrightarrow> os_odds x = os_odds s)"
  using assms
proof (induction D arbitrary: s rule: rev_induct)
  case (snoc x D)
  have D: "recorded rows D" "feed_ordered D" and le: "\<forall>y \<in> set D. in_order y x"
    using snoc.prems(1, 2) by (auto simp: recorded_def chained_append feed_ordered_def sorted_wrt_append)
  have x: "on_record rows x \<or> map_option os_odds (last_obs (snapshot_quote x) D) = Some (os_odds x)"
    using snoc.prems(1) by (simp add: recorded_def chained_append)
  show ?case
  proof (cases "snapshot_quote x = k \<and> os_captured x < kickoff")
    case False
    then have "close_obs kickoff k D = Some s" using snoc.prems(3) by (auto simp: close_obs_def last_obs_snoc split: if_splits)
    then show ?thesis using snoc.IH [OF D] False by auto
  next
    case True
    then have s: "s = x" using snoc.prems(3) by (simp add: close_obs_def last_obs_snoc)
    show ?thesis
    proof (cases "on_record rows x")
      case rec: True
      have "os_odds y = os_odds x" if "y \<in> set D" "snapshot_quote y = k" "os_captured x \<le> os_captured y" for y
        using le that True by (auto simp: in_order_def)
      then show ?thesis using rec True s by (intro bexI [of _ x]) auto
    next
      case no: False
      then obtain p where p: "last_obs k D = Some p" "os_odds p = os_odds x" using x True by (cases "last_obs k D") auto
      have all: "y \<in> set D \<Longrightarrow> snapshot_quote y = k \<Longrightarrow> os_captured y < kickoff" for y
        using le True by (fastforce simp: in_order_def)
      have "close_obs kickoff k D = last_obs k D"
      proof -
        have "filter (\<lambda>s. snapshot_quote s = k \<and> os_captured s < kickoff) D = filter (\<lambda>s. snapshot_quote s = k) D"
          using all by (auto intro: filter_cong)
        then show ?thesis by (simp add: close_obs_def last_obs_def conj_commute)
      qed
      then show ?thesis using snoc.IH [OF D, of p] p s by auto
    qed
  qed
qed (simp add: close_obs_def)

lemma close_price:
  assumes "records c rows D" "feed_ordered D"
  shows "map_option (\<lambda>r. Ok (or_odds r)) (close_row kickoff k rows)
    = map_option (\<lambda>s. float_column odds_column (os_odds s)) (close_obs kickoff k D)"
proof -
  have inv: "rows_from rows D" "recorded rows D" using records_invariants [OF assms(1)] by blast+
  show ?thesis
  proof (cases "close_obs kickoff k D")
    case None
    then have "\<forall>s \<in> set D. snapshot_quote s = k \<longrightarrow> \<not> os_captured s < kickoff" by (auto simp: close_obs_def last_obs_None)
    then have "close_row kickoff k rows = None" using inv(1) unfolding close_row_spec(1) rows_from_def by metis
    then show ?thesis using None by simp
  next
    case (Some s)
    obtain p where p: "p \<in> set D" "snapshot_quote p = k" "on_record rows p" "os_captured p < kickoff"
      and between: "\<forall>x \<in> set D. snapshot_quote x = k \<longrightarrow> os_captured p \<le> os_captured x \<longrightarrow> os_captured x < kickoff \<longrightarrow> os_odds x = os_odds s"
      using latest_row [OF inv(2) assms(2) Some] by blast
    obtain q where q: "q \<in> set rows" "row_quote q = k" "or_captured q = os_captured p" using p(2, 3) by (auto simp: on_record_def)
    obtain b where b: "close_row kickoff k rows = Some b" using close_row_spec(1) [of kickoff k rows] q p(4) by (cases "close_row kickoff k rows") auto
    note bs = close_row_spec(2) [OF b]
    have "b \<in> set rows" using bs by blast
    then obtain x where x: "x \<in> set D" "row_quote b = snapshot_quote x" "or_captured b = os_captured x"
        "float_column odds_column (os_odds x) = Ok (or_odds b)" using inv(1) unfolding rows_from_def by blast
    have "os_captured p \<le> or_captured b" using bs q p(4) by metis
    then have "os_odds x = os_odds s" using between x(1, 2, 3) bs by metis
    then show ?thesis using Some b x(4) by simp
  qed
qed

text \<open>C17: After any sequence of batches, failed writes, failed events, evictions and restarts the closing price of every quote
  read from the change-only table is the price of the last recorded observation before the kickoff: leaving out the
  unchanged ones loses nothing, as long as the instants of a quote do not run backwards.\<close>

theorem change_only_lossless:
  assumes "records c rows D" "feed_ordered D"
  shows "map_option (\<lambda>r. Ok (or_odds r)) (close_row kickoff k rows)
    = map_option (\<lambda>s. float_column odds_column (os_odds s)) (close_obs kickoff k D)"
  using close_price [OF assms] .

text \<open>The cache stays within its bound and never claims a price that is not the last recorded one of its quote; no row
  of the table is made up.\<close>

theorem seen_cache_sound:
  assumes "records c rows D"
  shows "length c \<le> odds_seen_max \<and> (case map_of c k of
      Some (odds, t) \<Rightarrow> (case last_obs k D of Some s \<Rightarrow> os_odds s = odds | None \<Rightarrow> False)
    | None \<Rightarrow> True)
    \<and> list_all (\<lambda>q. list_ex (\<lambda>s. row_quote q = snapshot_quote s \<and> or_captured q = os_captured s
        \<and> float_column odds_column (os_odds s) = Ok (or_odds q)) D) rows"
proof -
  have inv: "cache_ok c D" "rows_from rows D" using records_invariants [OF assms] by blast+
  have "map_of c k = Some (odds, t) \<Longrightarrow> map_option os_odds (last_obs k D) = Some odds" for odds t
    using inv(1) unfolding cache_ok_def by blast
  then have "case map_of c k of Some (odds, t) \<Rightarrow> (case last_obs k D of Some s \<Rightarrow> os_odds s = odds | None \<Rightarrow> False) | None \<Rightarrow> True"
    by (cases "last_obs k D") (auto split: option.split)
  then show ?thesis using inv unfolding cache_ok_def rows_from_def list_all_iff list_ex_iff by blast
qed

text \<open>C39: A price that a provider corrects without a new instant is never written: the insert keeps the old row, the cache
  remembers the new price, and the next observation of it counts as unchanged, so the close stays at the old price.\<close>

theorem correction_lost:
  assumes "row_of s1 = Ok r1" "s2 = s1\<lparr>os_odds := y\<rparr>" "s3 = s2\<lparr>os_captured := t\<rparr>" "f_eq y y" "y \<noteq> os_odds s1" "row_of s2 = Ok r2"
    and "db_up db" "db_event_ok db (os_event s1)" "os_captured s1 < kickoff"
  shows "case persist_snapshots db True (\<lambda>e. True) now1 [s1] ([], []) of (n1, st1) \<Rightarrow>
    case persist_snapshots db True (\<lambda>e. True) now2 [s2] st1 of (n2, st2) \<Rightarrow>
    case persist_snapshots db True (\<lambda>e. True) now3 [s3] st2 of (n3, c, rows) \<Rightarrow>
      (n1, n2, n3) = (Some 1, Some 0, Some 0) \<and> rows = [r1] \<and> map_of c (snapshot_quote s3) = Some (y, now3)
      \<and> close_row kickoff (snapshot_quote s3) rows = Some r1"
proof -
  let ?k = "snapshot_quote s1"
  have q: "snapshot_quote s2 = ?k" "snapshot_quote s3 = ?k" "os_event s2 = os_event s1" "os_event s3 = os_event s1"
    by (simp_all add: assms(2, 3) snapshot_quote_def market_label_def split: option.split list.split)
  note r1 = row_of_fields [OF assms(1)] and r2 = row_of_fields [OF assms(6)]
  have ne: "\<not> f_eq (os_odds s1) y" using f_eq_same assms(5) by blast
  have small: "sweep_odds_seen now odds_seen_max [e] = [e]" for now e by (simp add: sweep_odds_seen_def odds_seen_max_def)
  have group: "by_event [s] = [(os_event s, [s])]" for s by (simp add: by_event_def)
  have dup: "insert_row r2 [r1] = [r1]" using r1 r2 q by (simp add: insert_row_def assms(2))
  have one: "insert_row r1 [] = [r1]" by (simp add: insert_row_def)
  have p1: "persist_snapshots db True (\<lambda>e. True) now1 [s1] ([], []) = (Some 1, [(?k, os_odds s1, now1)], [r1])"
    using assms(7, 8) by (simp add: persist_snapshots_def scan_def scan_one_def write_batch_def persist_odds_snapshots_def group store_event_def
        assms(1) one counts_as_seen_def put_all_def small snapshot_quote_def Let_def)
  have p2: "persist_snapshots db True (\<lambda>e. True) now2 [s2] ([(?k, os_odds s1, now1)], [r1]) = (Some 0, [(?k, y, now2)], [r1])"
    using assms(7, 8) ne q by (simp add: persist_snapshots_def scan_def scan_one_def write_batch_def persist_odds_snapshots_def group store_event_def
        assms(6) dup counts_as_seen_def put_all_def small Let_def) (simp add: assms(2) snapshot_quote_def)
  have p3: "persist_snapshots db True (\<lambda>e. True) now3 [s3] ([(?k, y, now2)], [r1]) = (Some 0, [(?k, y, now3)], [r1])"
    using assms(4) q by (simp add: persist_snapshots_def scan_def scan_one_def write_batch_def
        counts_as_seen_def put_all_def small Let_def) (simp add: assms(2, 3))
  show ?thesis unfolding p1 p2 p3 prod.case
    using q r1 assms(9) by (simp add: p1 p2 p3 close_row_def newest_row_def)
qed

text \<open>C38: The stored key of a line gives back its market, and its line for every key of the provider's table but three: the
  details of both-to-score, draw-no-bet and double chance come back without one, and only the first of them is the same
  group as before.\<close>

theorem close_key_roundtrip:
  assumes "os_detail s = Some d" "market_for_key d = Some (os_market s)"
  shows "case market_from_snapshot_key (market_label s) of None \<Rightarrow> False
    | Some (m, detail) \<Rightarrow> m = os_market s \<and> detail = (if d \<in> {''btts'', ''dnb'', ''double_chance''} then None else Some d)
        \<and> (canonical_market_detail detail = canonical_market_detail (Some d)) = (d \<notin> {''dnb'', ''double_chance''})"
proof -
  have "d \<noteq> []" using assms(2) by (auto simp: market_for_key_def exact_markets_def startswith_def)
  then have l: "market_label s = d" using assms(1) by (simp add: market_label_def split: list.split)
  have k: "market_from_snapshot_key d = Some (os_market s, if d \<in> {''btts'', ''dnb'', ''double_chance''} then None else Some d)"
  proof (cases "d \<in> set market_values")
    case True
    have "\<forall>x \<in> set market_values. market_for_key x = None \<or> x \<in> {''btts'', ''dnb'', ''double_chance''} \<and> market_for_key x = Some x" by code_simp
    note bspec [OF this True]
    then have "d \<in> {''btts'', ''dnb'', ''double_chance''} \<and> market_for_key d = Some d" unfolding assms(2) by blast
    then have "d \<in> {''btts'', ''dnb'', ''double_chance''}" "os_market s = d" unfolding assms(2) by blast+
    then show ?thesis using True by (simp only: market_from_snapshot_key_def if_True)
  next
    case False
    have "{''btts'', ''dnb'', ''double_chance''} \<subseteq> set market_values" by code_simp
    then have "d \<notin> {''btts'', ''dnb'', ''double_chance''}" using False by blast
    then show ?thesis using False assms(2) by (simp only: market_from_snapshot_key_def if_False option.case)
  qed
  have c: "canonical_market_detail (Some ''dnb'') \<noteq> canonical_market_detail None" "canonical_market_detail (Some ''double_chance'') \<noteq> canonical_market_detail None"
    "canonical_market_detail (Some ''btts'') = canonical_market_detail None" by code_simp+
  show ?thesis unfolding l k option.case prod.case using c by (cases "d = ''btts''"; cases "d = ''dnb''"; cases "d = ''double_chance''") simp_all
qed

subsection \<open>Witnesses\<close>

definition quoted :: "rat \<Rightarrow> time \<Rightarrow> odds_snapshot" where
  "quoted x t = \<lparr>os_event = ''e1'', os_book = ''pinnacle'', os_market = ''totals'', os_selection = ''Over'', os_odds = Fin x,
     os_liquidity = None, os_captured = t, os_ingested = t, os_detail = Some ''totals_2_5''\<rparr>"

definition healthy_db :: database where
  "healthy_db = \<lparr>db_up = True, db_event_ok = (\<lambda>e. True), db_present = (\<lambda>e. True)\<rparr>"

definition failing_db :: database where
  "failing_db = healthy_db\<lparr>db_event_ok := (\<lambda>e. False)\<rparr>"

definition sample_quote :: quote where "sample_quote = snapshot_quote (quoted 2 1)"

definition sample_price :: "rat \<Rightarrow> time \<Rightarrow> odds_row" where
  "sample_price x t = \<lparr>or_event = ''e1'', or_book = ''pinnacle'', or_market = ''totals_2_5'', or_selection = ''Over'', or_odds = x,
     or_liquidity = None, or_captured = t, or_ingested = t\<rparr>"

lemma sample_batches:
  "persist_snapshots healthy_db True (\<lambda>e. True) 2 [quoted 2 1, quoted 2 2] ([], []) = (Some 1, [(sample_quote, Fin 2, 2)], [sample_price 2 1])"
  "handled healthy_db True (\<lambda>e. True) 2 [quoted 2 1, quoted 2 2] ([], []) = [quoted 2 1, quoted 2 2]"
  "persist_snapshots failing_db True (\<lambda>e. True) 3 [quoted 4 3] ([(sample_quote, Fin 2, 2)], [sample_price 2 1])
     = (Some 0, [(sample_quote, Fin 2, 2)], [sample_price 2 1])"
  "handled failing_db True (\<lambda>e. True) 3 [quoted 4 3] ([(sample_quote, Fin 2, 2)], [sample_price 2 1]) = []"
  "persist_snapshots healthy_db True (\<lambda>e. True) 4 [quoted 4 4] ([(sample_quote, Fin 2, 2)], [sample_price 2 1])
     = (Some 1, [(sample_quote, Fin 4, 4)], [sample_price 2 1, sample_price 4 4])"
  "handled healthy_db True (\<lambda>e. True) 4 [quoted 4 4] ([(sample_quote, Fin 2, 2)], [sample_price 2 1]) = [quoted 4 4]"
  by code_simp+

lemma sample_records: "records [(sample_quote, Fin 4, 4)] [sample_price 2 1, sample_price 4 4] [quoted 2 1, quoted 2 2, quoted 4 4]"
  using records.Batch [OF records.Batch [OF records.Batch [OF records.Empty sample_batches(1)] sample_batches(3)] sample_batches(5)]
  by (simp add: sample_batches)

lemma sample_ordered: "feed_ordered [quoted 2 1, quoted 2 2, quoted 4 4]"
  by (simp add: feed_ordered_def in_order_def quoted_def)

lemma change_only_lossless_witness:
  "map_option (\<lambda>r. Ok (or_odds r)) (close_row 4 sample_quote [sample_price 2 1, sample_price 4 4]) = Some (float_column odds_column (Fin 2))"
proof -
  have "close_obs 4 sample_quote [quoted 2 1, quoted 2 2, quoted 4 4] = Some (quoted 2 2)"
    by (simp add: close_obs_def last_obs_def sample_quote_def snapshot_quote_def market_label_def quoted_def)
  then show ?thesis using change_only_lossless [OF sample_records sample_ordered, of 4 sample_quote] by (simp add: quoted_def)
qed

lemma seen_cache_sound_witness: "map_option os_odds (last_obs sample_quote [quoted 2 1, quoted 2 2, quoted 4 4]) = Some (Fin 4)"
  using seen_cache_sound [OF sample_records, of sample_quote]
  by (cases "last_obs sample_quote [quoted 2 1, quoted 2 2, quoted 4 4]") simp_all

lemma correction_lost_witness:
  "case persist_snapshots healthy_db True (\<lambda>e. True) 2 [quoted 2 1] ([], []) of (n1, st1) \<Rightarrow>
   case persist_snapshots healthy_db True (\<lambda>e. True) 3 [quoted 4 1] st1 of (n2, st2) \<Rightarrow>
   case persist_snapshots healthy_db True (\<lambda>e. True) 4 [(quoted 4 1)\<lparr>os_captured := 4\<rparr>] st2 of (n3, c, rows) \<Rightarrow>
     (n1, n2, n3) = (Some 1, Some 0, Some 0) \<and> rows = [sample_price 2 1] \<and> map_of c sample_quote = Some (Fin 4, 4)
     \<and> close_row 10 sample_quote rows = Some (sample_price 2 1)"
proof -
  have "row_of (quoted 2 1) = Ok (sample_price 2 1)" "row_of (quoted 4 1) = Ok (sample_price 4 1)" by code_simp+
  then show ?thesis
    using correction_lost [where ?s1.0 = "quoted 2 1" and ?r1.0 = "sample_price 2 1" and ?s2.0 = "quoted 4 1" and y = "Fin 4" and ?r2.0 = "sample_price 4 1"
        and ?s3.0 = "(quoted 4 1)\<lparr>os_captured := 4\<rparr>" and t = 4 and db = healthy_db and kickoff = 10 and ?now1.0 = 2 and ?now2.0 = 3 and ?now3.0 = 4]
    by (simp add: quoted_def healthy_db_def sample_quote_def snapshot_quote_def market_label_def)
qed

definition sample_line :: odds_snapshot where
  "sample_line = (quoted 2 1)\<lparr>os_market := ''dnb'', os_detail := Some ''dnb''\<rparr>"

lemma close_key_roundtrip_witness: "market_from_snapshot_key (market_label sample_line) = Some (''dnb'', None)"
proof -
  have "os_detail sample_line = Some ''dnb''" "market_for_key ''dnb'' = Some (os_market sample_line)" "os_market sample_line = ''dnb''" by code_simp+
  then show ?thesis using close_key_roundtrip [of sample_line "''dnb''"] by (cases "market_from_snapshot_key (market_label sample_line)") auto
qed

end
