(* ===== verification/Spec2Isabelle.thy ===== *)
theory Spec2Isabelle
  imports Outcomes Exposure ProxyHealth Dispatcher Gates Ticks Confidence Steam Aliases Similarity Slugs
    MatchFacts CloseTrust Spreads Devig ValueFacts ValuePolicy Results SettleClaims SettleLocks PickClaims GroupClaims
    SessionClaims LoginClaims BodyLimit HttpClaims PollClaims HistoryClaims
begin

text \<open>
  A verification library for sharp-ev-picks, a program that polls bookmaker odds, prices every market against a sharp
  anchor, recommends value bets with a stake, alerts and records them, settles them from final scores and serves a
  dashboard.  It never places a bet.  The library models the Python of \<^verbatim>\<open>src/app\<close> as HOL
  functions, one theory per part of the program, and proves what each part promises.

  \<^bold>\<open>How the parts interact.\<close>  A poll cycle (\<^verbatim>\<open>scheduler.py\<close>,
  \<^verbatim>\<open>pipeline.py\<close>) fetches snapshots of odds, appends the changed ones to the history, groups
  them into markets, removes the margin of the anchor's prices (\<^verbatim>\<open>probabilities/devig.py\<close>),
  scans the soft books for prices above fair value (\<^verbatim>\<open>edge/value.py\<close>), passes the candidates
  through the gates and policies of \<^verbatim>\<open>edge\<close>, sizes a stake
  (\<^verbatim>\<open>risk/staking.py\<close>), reserves it against the daily cap
  (\<^verbatim>\<open>risk/exposure.py\<close>), records the pick (\<^verbatim>\<open>storage/repositories.py\<close>)
  and announces it once (\<^verbatim>\<open>notifications\<close>).  Matches of different sources are linked by name
  (\<^verbatim>\<open>resolution\<close>).  The settlement cycle (\<^verbatim>\<open>settlement\<close>) looks up
  scores, grades selections and closes picks.  The web interface (\<^verbatim>\<open>api\<close>) guards its routes
  with signed cookies and reports whether the engine is alive.

  \<^bold>\<open>Values.\<close>  \<^verbatim>\<open>PyFloat\<close> defines binary64 with its rounding, the special
  values and Python's comparisons, so that every property of a price or a stake is about the rounded arithmetic of the
  program; decimals, integers and their texts are there too.  \<^verbatim>\<open>FloatFacts\<close> and
  \<^verbatim>\<open>PyStats\<close> hold facts about ulps, sums and medians, \<^verbatim>\<open>PyText\<close> the
  strings of code points below 256, \<^verbatim>\<open>PyTime\<close> instants and durations in microseconds,
  \<^verbatim>\<open>WebText\<close> and \<^verbatim>\<open>WebJson\<close> code points of any size, UTF-8, base64 and
  JSON.  \<^verbatim>\<open>Prelude\<close> has the exceptions of Python, the result type of code that may raise, and
  the shared collections of facts. A mutable dictionary is an association list where its order is seen, a map or set
  where it is not; a class is a record; a coroutine is cut at its awaits where others may run in between.

  \<^bold>\<open>Prices and bets.\<close>

  \<^item> \<^verbatim>\<open>Devig\<close>: every method of \<^verbatim>\<open>probabilities/devig.py\<close> with
    its fallback and provenance.
  \<^item> \<^verbatim>\<open>Pricing\<close>, \<^verbatim>\<open>Spreads\<close>,
    \<^verbatim>\<open>CloseTrust\<close>, \<^verbatim>\<open>ValueScan\<close>,
    \<^verbatim>\<open>ValueFacts\<close>: \<^verbatim>\<open>edge/value.py\<close>, from net odds and anchors to the
    scan and the provenance of closes.  A bet of the scan is priced at the best permitted soft quote and lies inside
    every limit.
  \<^item> \<^verbatim>\<open>MarketGroups\<close>, \<^verbatim>\<open>GroupFacts\<close>,
    \<^verbatim>\<open>FoldFacts\<close>, \<^verbatim>\<open>FairFacts\<close>,
    \<^verbatim>\<open>GroupClaims\<close>: the grouping half of \<^verbatim>\<open>pipeline.py\<close>, where the
    newest snapshot of each quote survives in any order of the feeds, lines of different size never merge, and fair
    probabilities come from the stated anchor.  The tables of one cycle share an interface, a locale, whose laws give
    price, time and liquidity from one snapshot.
  \<^item> \<^verbatim>\<open>ValuePolicy\<close>, \<^verbatim>\<open>Gates\<close>,
    \<^verbatim>\<open>Confidence\<close>, \<^verbatim>\<open>Steam\<close>, \<^verbatim>\<open>Ticks\<close>: the
    policies, gates, stars, line movements and exchange ticks of \<^verbatim>\<open>edge\<close>, and
    \<^verbatim>\<open>implied_probability\<close>.
  \<^item> \<^verbatim>\<open>Staking\<close>, \<^verbatim>\<open>Exposure\<close>: Kelly staking with its three
    multipliers, and the ledger of a day as an account whose bound is proved once in a locale for the day and for each
    event.

  \<^bold>\<open>Picks.\<close>

  \<^item> \<^verbatim>\<open>PickStore\<close>: \<^verbatim>\<open>persist_pick\<close>,
    \<^verbatim>\<open>update_pick_stake\<close> and \<^verbatim>\<open>_persist_and_reserve\<close> over the table of
    picks with its rounding columns, the funding of a cycle, volume picks, and the seeding of the ledger.
    \<^verbatim>\<open>PickFacts\<close>, \<^verbatim>\<open>PickBook\<close>, \<^verbatim>\<open>PickRuns\<close>,
    \<^verbatim>\<open>PickClaims\<close>: the invariant of the table and the durable exposure over any run of
    recommendations, failures, restarts and writes of other parts.
  \<^item> \<^verbatim>\<open>Dedupe\<close>, \<^verbatim>\<open>Dispatcher\<close>: the idempotency stores behind one
    interface and the dispatcher that claims, sends and releases.
  \<^item> \<^verbatim>\<open>OddsHistory\<close>, \<^verbatim>\<open>HistoryFacts\<close>,
    \<^verbatim>\<open>HistoryClaims\<close>: the change-only append with its bounded cache, the insert with one
    savepoint per event, and the close read back.  The reference is a table of every observation; the two have the
    same closes as long as the instants of a quote do not run backwards.

  \<^bold>\<open>Matches and results.\<close>

  \<^item> \<^verbatim>\<open>Names\<close>, \<^verbatim>\<open>Aliases\<close>,
    \<^verbatim>\<open>Similarity\<close>, \<^verbatim>\<open>Slugs\<close>, \<^verbatim>\<open>Matching\<close>,
    \<^verbatim>\<open>MatchFacts\<close>: \<^verbatim>\<open>resolution/matching.py\<close> and the tennis names,
    from normal forms and the quarantining alias table to Jaro-Winkler and the hardened matcher with its review queue.
  \<^item> \<^verbatim>\<open>Outcomes\<close>: \<^verbatim>\<open>settlement/outcomes.py\<close>, every grader,
    against the rule that splits a quarter line into two halves.  \<^verbatim>\<open>Results\<close>: the index of
    scores and its lookup.
  \<^item> \<^verbatim>\<open>Settlement\<close>: \<^verbatim>\<open>settlement/engine.py\<close> over the tables of
    picks, results and events.  \<^verbatim>\<open>SettleFacts\<close> states the engine as a step relation,
    \<^verbatim>\<open>SettleOps\<close> shows that every pass refines it (one locale for a loop over rows with a
    savepoint each), \<^verbatim>\<open>SettleRuns\<close> and \<^verbatim>\<open>SettleClaims\<close> draw the
    properties of runs, \<^verbatim>\<open>SettleLocks\<close> interleaves workers under the advisory lock.

  \<^bold>\<open>Process and web.\<close>

  \<^item> \<^verbatim>\<open>ProxyHealth\<close>: the registry of proxies with its quarantine.
  \<^item> \<^verbatim>\<open>PollHealth\<close>, \<^verbatim>\<open>PollFacts\<close>,
    \<^verbatim>\<open>PollClaims\<close>: the heartbeats of guarded cycles, the verdict of
    \<^verbatim>\<open>/health\<close> and \<^verbatim>\<open>/ready\<close>, and the filter of skipped cycles.  Each
    heartbeat is a function of the cycles of its sport, from which the verdict is read.
  \<^item> \<^verbatim>\<open>Sessions\<close>, \<^verbatim>\<open>SessionFacts\<close>,
    \<^verbatim>\<open>SessionClaims\<close>: \<^verbatim>\<open>api/auth.py\<close>.
    \<^verbatim>\<open>Login\<close>, \<^verbatim>\<open>LoginFacts\<close>, \<^verbatim>\<open>LoginClaims\<close>:
    the throttle, the bounded password checks and the first-run setup of \<^verbatim>\<open>api/routes.py\<close>,
    over any interleaving of requests.
  \<^item> \<^verbatim>\<open>BodyLimit\<close>: \<^verbatim>\<open>api/request_limits.py\<close>.
    \<^verbatim>\<open>HttpSafety\<close>, \<^verbatim>\<open>HttpClaims\<close>:
    \<^verbatim>\<open>ingestion/http_safety.py\<close> over \<^verbatim>\<open>urllib.parse\<close>.

  \<^bold>\<open>What the lemmas show.\<close>

  Invariants are proved for one operation and lifted to runs by rule induction: the exposure of a day and the durable
  charges behind it stay within the cap up to one rounding; the table of picks stays consistent; no bet is settled
  twice and no result changes, also when workers interleave; the login table and its workers stay bounded.  Optimised
  or order-dependent code is compared with a reference: Asian grading, the newest quote per key, the change-only
  history, the alias table as a set of claims.  Error behaviour is part of the statements: a failed write leaves no
  trace, a full or malformed request is answered without reaching the application, a matcher that is not certain
  answers nothing.  Liveness: a pass of settlement leaves nothing open that its book can grade, and a dead engine is
  noticed within the freshness ceiling.  Three properties record what the code does against its documentation: a
  premium pick displaced by a recommendation that is then denied, a corrected price without a new instant that is
  never stored, and a failing engine that is not reported while it retries.

  \<^bold>\<open>Bounds and termination.\<close>

  No definition uses fuel for the program's own loops: loops over lists are structural, and every other one, from the
  eviction of \<^verbatim>\<open>_login_record_failure\<close> and the reader of JSON to the matching blocks of the
  similarity and the bracket of the power method, has a termination proof with a measure; the redirect loop counts the
  redirects it may still follow, and the search for the shortest decimal of a float stops at seventeen digits, which
  identify every binary64.  Bounds on sizes are the constants of the code (1024 throttled peers, four password checks,
  64 KiB bodies, 100000 cached quotes).  Statements about seconds need settings below two to the fortieth, so that
  they are exact floats.

  \<^bold>\<open>Parameters.\<close>

  Code outside the repository enters as an argument: the transcendental functions of the C library and the root finder
  of scipy in staking and devigging, HMAC-SHA256, PBKDF2 and the random source, \<^verbatim>\<open>urljoin\<close>,
  the address parser and the NFKC test of \<^verbatim>\<open>urllib\<close>, the decimal digits of the Unicode
  database, the answers of a server, the failures of the database, and the hash behind an advisory lock.  Hypotheses
  about them state documented behaviour only: digests have 32 bytes, ASCII digits are decimal digits, the logarithm is
  negative below one and zero at one.  Names of teams and bookmakers are texts of code points below 256, and the clock
  of every call is an argument.

  \<^bold>\<open>Not modelled.\<close>

  The scrapers and feed clients of \<^verbatim>\<open>ingestion\<close> parse pages and payloads of third parties;
  their output, the snapshots, is where the model begins (only the table of market keys of
  \<^verbatim>\<open>oddsportal.py\<close> is modelled).  The fitted models of \<^verbatim>\<open>models\<close>, the
  log-odds pool of \<^verbatim>\<open>edge/value.py\<close> and \<^verbatim>\<open>backtesting\<close> are numerics on
  numpy and scipy.  \<^verbatim>\<open>clv_trueup.py\<close> and \<^verbatim>\<open>maintenance\<close> are reports
  and revaluations over the database; the parts of them that decide anything, the grouping, the fair probabilities,
  the trust of a close and the close itself, are modelled where they are defined.  The read-only routes of
  \<^verbatim>\<open>routes.py\<close> and the reporting queries of \<^verbatim>\<open>repositories.py\<close> select
  and format rows.  \<^verbatim>\<open>config.py\<close>, \<^verbatim>\<open>main.py\<close> and
  \<^verbatim>\<open>database.py\<close> read the environment and build objects.  The texts of alerts and their HTTP
  delivery, log output, the caches of the score feeds and the recursion limit of the JSON reader are left out of the
  parts that are modelled.
\<close>

end
